(* ===== verification/Waf_Prelude.thy ===== *)
theory Waf_Prelude
  imports Main "HOL-Library.Word" "HOL-Library.Sublist"
begin

text \<open>
  Shared vocabulary of the development: the names of the model's types, the collections of
  rewrite rules the component theories fill, the part of the Go standard library
  (packages strings, strconv) that the modelled sources call, and generic lemmas on
  lists, options and words.

  A Go string is a sequence of bytes, and so is a HOL \<open>string\<close> (a list of 8-bit
  characters): lengths, slices and comparisons agree. A Go \<open>[]byte\<close> is a list of 8-bit words.
\<close>

unbundle bit_operations_syntax

type_synonym gobyte = "8 word"
type_synonym gobytes = "8 word list"

named_theorems go_str_simps \<open>unfolding of the Go string functions\<close>
named_theorems go_net_simps \<open>unfolding of the Go net functions\<close>
named_theorems ipset_simps \<open>unfolding of the operations of package ipset\<close>
named_theorems cache_simps \<open>unfolding of the operations of package cache\<close>
named_theorems guard_simps \<open>unfolding of the operations of package wafhostguard\<close>

subsection \<open>Package strings\<close>

abbreviation char_code :: "char \<Rightarrow> nat" where
  "char_code c \<equiv> of_char c"

definition HasPrefix :: "string \<Rightarrow> string \<Rightarrow> bool" where
  "HasPrefix s p \<longleftrightarrow> take (length p) s = p"

definition HasSuffix :: "string \<Rightarrow> string \<Rightarrow> bool" where
  "HasSuffix s p \<longleftrightarrow> length p \<le> length s \<and> drop (length s - length p) s = p"

definition TrimPrefix :: "string \<Rightarrow> string \<Rightarrow> string" where
  "TrimPrefix s p = (if HasPrefix s p then drop (length p) s else s)"

fun StrContains :: "string \<Rightarrow> string \<Rightarrow> bool" where
  "StrContains [] sub \<longleftrightarrow> sub = []"
| "StrContains (c # cs) sub \<longleftrightarrow> HasPrefix (c # cs) sub \<or> StrContains cs sub"

definition ContainsAny :: "string \<Rightarrow> string \<Rightarrow> bool" where
  "ContainsAny s cs \<longleftrightarrow> list_ex (\<lambda>c. c \<in> set cs) s"

text \<open>
  \<open>strings.TrimSpace\<close> removes leading and trailing Unicode white space: the ASCII blanks
  and, in their UTF-8 encoding, U+0085, U+00A0, U+1680, U+2000 to U+200A, U+2028, U+2029,
  U+202F, U+205F and U+3000. \<open>space_len\<close> is the length of the white-space code point a byte
  sequence starts with, 0 if it starts with none.
\<close>

definition ascii_space :: "nat \<Rightarrow> bool" where
  "ascii_space n \<longleftrightarrow> n = 9 \<or> n = 10 \<or> n = 11 \<or> n = 12 \<or> n = 13 \<or> n = 32"

fun space_len :: "nat list \<Rightarrow> nat" where
  "space_len (a # b # c # _) =
     (if ascii_space a then 1
      else if a = 194 \<and> (b = 133 \<or> b = 160) then 2
      else if (a = 225 \<and> b = 154 \<and> c = 128)
           \<or> (a = 226 \<and> b = 128 \<and> (128 \<le> c \<and> c \<le> 138 \<or> c = 168 \<or> c = 169 \<or> c = 175))
           \<or> (a = 226 \<and> b = 129 \<and> c = 159)
           \<or> (a = 227 \<and> b = 128 \<and> c = 128) then 3
      else 0)"
| "space_len [a, b] =
     (if ascii_space a then 1 else if a = 194 \<and> (b = 133 \<or> b = 160) then 2 else 0)"
| "space_len [a] = (if ascii_space a then 1 else 0)"
| "space_len [] = 0"

text \<open>The same for the code point a byte sequence ends with, the sequence given reversed.\<close>

fun space_len_rev :: "nat list \<Rightarrow> nat" where
  "space_len_rev (a # b # c # _) =
     (if ascii_space a then 1
      else if space_len [b, a] = 2 then 2
      else if space_len [c, b, a] = 3 then 3 else 0)"
| "space_len_rev [a, b] = (if ascii_space a then 1 else if space_len [b, a] = 2 then 2 else 0)"
| "space_len_rev [a] = (if ascii_space a then 1 else 0)"
| "space_len_rev [] = 0"

function trim_by :: "(nat list \<Rightarrow> nat) \<Rightarrow> string \<Rightarrow> string" where
  "trim_by len s =
     (let n = len (map char_code s)
      in if s \<noteq> [] \<and> 0 < n then trim_by len (drop n s) else s)"
  by pat_completeness auto
termination
  by (relation "measure (\<lambda>(len, s). length s)") auto

declare trim_by.simps [simp del]

definition TrimSpace :: "string \<Rightarrow> string" where
  "TrimSpace s = rev (trim_by space_len_rev (rev (trim_by space_len s)))"

text \<open>\<open>strings.Split\<close> on a one-byte separator, and \<open>SplitN\<close> with a limit of two and of three.\<close>

fun StrSplit :: "char \<Rightarrow> string \<Rightarrow> string list" where
  "StrSplit c [] = [[]]"
| "StrSplit c (x # xs) =
     (if x = c then [] # StrSplit c xs
      else (case StrSplit c xs of [] \<Rightarrow> [[x]] | h # t \<Rightarrow> (x # h) # t))"

text \<open>\<open>strings.Cut\<close>: what stands before and after the first separator, \<open>None\<close> without one.\<close>

fun StrCut :: "char \<Rightarrow> string \<Rightarrow> (string \<times> string) option" where
  "StrCut c [] = None"
| "StrCut c (x # xs) =
     (if x = c then Some ([], xs) else map_option (\<lambda>(a, b). (x # a, b)) (StrCut c xs))"

definition StrSplitN2 :: "char \<Rightarrow> string \<Rightarrow> string list" where
  "StrSplitN2 c s = (case StrCut c s of None \<Rightarrow> [s] | Some (a, b) \<Rightarrow> [a, b])"

definition StrSplitN3 :: "char \<Rightarrow> string \<Rightarrow> string list" where
  "StrSplitN3 c s = (case StrCut c s of None \<Rightarrow> [s] | Some (a, b) \<Rightarrow> a # StrSplitN2 c b)"

text \<open>\<open>strings.FieldsFunc\<close> for a predicate on ASCII bytes: the non-empty fields.\<close>

fun FieldsFunc :: "(char \<Rightarrow> bool) \<Rightarrow> string \<Rightarrow> string \<Rightarrow> string list" where
  "FieldsFunc f acc [] = (if acc = [] then [] else [rev acc])"
| "FieldsFunc f acc (x # xs) =
     (if f x then (if acc = [] then FieldsFunc f [] xs else rev acc # FieldsFunc f [] xs)
      else FieldsFunc f (x # acc) xs)"

text \<open>Lower case on the ASCII letters; bytes outside that range are kept.\<close>

definition lower_char :: "char \<Rightarrow> char" where
  "lower_char c = (if 65 \<le> char_code c \<and> char_code c \<le> 90 then char_of (char_code c + 32) else c)"

definition ToLower :: "string \<Rightarrow> string" where
  "ToLower s = map lower_char s"

definition EqualFold :: "string \<Rightarrow> string \<Rightarrow> bool" where
  "EqualFold a b \<longleftrightarrow> ToLower a = ToLower b"

subsection \<open>Package strconv\<close>

definition is_digit :: "char \<Rightarrow> bool" where
  "is_digit c \<longleftrightarrow> 48 \<le> char_code c \<and> char_code c \<le> 57"

text \<open>The value of a digit of a base up to 16, as \<open>strconv.ParseUint\<close> reads it.\<close>

definition digit_val :: "nat \<Rightarrow> char \<Rightarrow> nat option" where
  "digit_val base c =
     (let n = char_code c;
          v = (if 48 \<le> n \<and> n \<le> 57 then Some (n - 48)
               else if 97 \<le> n \<and> n \<le> 102 then Some (n - 87)
               else if 65 \<le> n \<and> n \<le> 70 then Some (n - 55) else None)
      in case v of None \<Rightarrow> None | Some d \<Rightarrow> if d < base then Some d else None)"

fun digits_val :: "nat \<Rightarrow> nat \<Rightarrow> string \<Rightarrow> nat option" where
  "digits_val base acc [] = Some acc"
| "digits_val base acc (c # cs) =
     (case digit_val base c of None \<Rightarrow> None | Some d \<Rightarrow> digits_val base (acc * base + d) cs)"

definition ParseUint :: "string \<Rightarrow> nat \<Rightarrow> nat \<Rightarrow> nat option" where
  "ParseUint s base bits =
     (if s = [] then None
      else case digits_val base 0 s of None \<Rightarrow> None
           | Some v \<Rightarrow> if v < 2 ^ bits then Some v else None)"

text \<open>\<open>strconv.ParseInt(s, 10, 64)\<close>, which \<open>strconv.Atoi\<close> agrees with on 64-bit platforms.\<close>

definition ParseInt :: "string \<Rightarrow> int option" where
  "ParseInt s =
     (case s of [] \<Rightarrow> None
      | c # cs \<Rightarrow>
          (let neg = (c = CHR ''-''); body = (if c = CHR ''-'' \<or> c = CHR ''+'' then cs else s)
           in case ParseUint body 10 64 of None \<Rightarrow> None
              | Some v \<Rightarrow>
                  if neg then (if v \<le> 2 ^ 63 then Some (- int v) else None)
                  else (if v < 2 ^ 63 then Some (int v) else None)))"

fun format_nat :: "nat \<Rightarrow> nat \<Rightarrow> string" where
  "format_nat base n =
     (if base < 2 then [] else
        (let d = n mod base; c = char_of (if d < 10 then 48 + d else 87 + d)
         in if n < base then [c] else format_nat base (n div base) @ [c]))"

declare format_nat.simps [simp del]

definition Itoa :: "int \<Rightarrow> string" where
  "Itoa i = (if i < 0 then CHR ''-'' # format_nat 10 (nat (- i)) else format_nat 10 (nat i))"

subsection \<open>Lemmas on the string functions\<close>

lemma HasPrefix_iff: "HasPrefix s p \<longleftrightarrow> prefix p s"
  by (metis HasPrefix_def append_eq_conv_conj prefix_def)

lemma HasPrefix_append [simp]: "HasPrefix (p @ s) p"
  by (simp add: HasPrefix_def)

lemma TrimPrefix_append [simp]: "TrimPrefix (p @ s) p = s"
  by (simp add: TrimPrefix_def)

lemma StrContains_iff: "StrContains s sub \<longleftrightarrow> (\<exists>a b. s = a @ sub @ b)"
proof (induction s)
  case Nil
  then show ?case by auto
next
  case (Cons c cs)
  have "HasPrefix (c # cs) sub \<or> (\<exists>a b. cs = a @ sub @ b) \<longleftrightarrow> (\<exists>a b. c # cs = a @ sub @ b)"
    by (auto simp: HasPrefix_iff prefix_def Cons_eq_append_conv)
  with Cons show ?case by simp
qed

lemma StrContains_single: "StrContains s [c] \<longleftrightarrow> c \<in> set s"
  by (metis StrContains_iff append.assoc append_Cons append_Nil in_set_conv_decomp)

lemma StrSplit_nonempty [simp]: "StrSplit c s \<noteq> []"
  by (cases s) (auto split: list.splits)

lemma StrSplit_append: "StrSplit c (a @ c # b) = StrSplit c a @ StrSplit c b"
  by (induction a) (auto split: list.splits)

lemma StrCut_SomeD: "StrCut c s = Some (a, b) \<Longrightarrow> s = a @ c # b \<and> c \<notin> set a"
  by (induction s arbitrary: a b) (auto split: if_splits)

lemma StrCut_append: "c \<notin> set a \<Longrightarrow> StrCut c (a @ c # b) = Some (a, b)"
  by (induction a) auto

lemma StrCut_None_iff: "StrCut c s = None \<longleftrightarrow> c \<notin> set s"
  by (induction s) auto

lemma trim_by_stop: "s = [] \<or> len (map char_code s) = 0 \<Longrightarrow> trim_by len s = s"
  by (subst trim_by.simps) auto

lemma trim_by_done: "trim_by len s = [] \<or> len (map char_code (trim_by len s)) = 0"
  by (induction len s rule: trim_by.induct) (subst (1 2) trim_by.simps, auto simp: Let_def)

lemma trim_by_suffix: "suffix (trim_by len s) s"
proof (induction len s rule: trim_by.induct)
  case (1 len s)
  then show ?case
    by (subst trim_by.simps) (auto simp: Let_def intro: suffix_order.trans [OF _ suffix_drop])
qed

text \<open>A text that starts with a white-space code point still does when it is continued.\<close>

lemma space_len_one: "space_len (a # xs) = 0 \<Longrightarrow> space_len [a] = 0"
  by (cases xs rule: list.exhaust, simp, rename_tac b ys, case_tac ys) (auto split: if_splits)

lemma space_len_two: "space_len (a # b # xs) = 0 \<Longrightarrow> space_len [a, b] = 0"
  by (cases xs) (auto split: if_splits)

lemma space_len_append: "space_len (xs @ ys) = 0 \<Longrightarrow> space_len xs = 0"
proof -
  assume z: "space_len (xs @ ys) = 0"
  consider "xs = []" | a where "xs = [a]" | a b where "xs = [a, b]" | a b c zs where "xs = a # b # c # zs"
    by (metis neq_Nil_conv)
  then show ?thesis
  proof cases
    case (2 a)
    with z space_len_one [of a ys] show ?thesis by simp
  next
    case (3 a b)
    with z space_len_two [of a b ys] show ?thesis by simp
  qed (use z in simp_all)
qed

lemma TrimSpace_idem [simp]: "TrimSpace (TrimSpace s) = TrimSpace s"
proof -
  define u where "u = trim_by space_len s"
  define v where "v = rev (trim_by space_len_rev (rev u))"
  have T: "TrimSpace s = v" by (simp add: TrimSpace_def u_def v_def)
  have "suffix (rev v) (rev u)" by (simp add: v_def trim_by_suffix)
  then obtain ys where u: "u = v @ ys" by (auto simp: suffix_to_prefix prefix_def)
  have "v = [] \<or> space_len (map char_code v) = 0"
  proof (cases "v = []")
    case False
    with trim_by_done [of space_len s] u have "space_len (map char_code v @ map char_code ys) = 0"
      by (simp add: u_def [symmetric])
    from space_len_append [OF this] show ?thesis by simp
  qed simp
  then have "trim_by space_len v = v" by (auto intro: trim_by_stop)
  moreover have "trim_by space_len_rev (rev v) = rev v"
    using trim_by_done [of space_len_rev "rev u"] by (auto simp: v_def intro: trim_by_stop)
  ultimately have "TrimSpace v = v" by (simp add: TrimSpace_def)
  with T show ?thesis by simp
qed

subsection \<open>Evaluation of the string functions\<close>

lemmas [go_str_simps] =
  TrimSpace_def trim_by.simps ascii_space_def Let_def HasPrefix_def HasSuffix_def ContainsAny_def
  is_digit_def digit_val_def ParseUint_def StrSplitN2_def StrSplitN3_def TrimPrefix_def
  ToLower_def lower_char_def EqualFold_def

subsection \<open>64-bit signed integers\<close>

text \<open>The result of an \<open>int64\<close> operation, wrapped around as Go does.\<close>

definition int64 :: "int \<Rightarrow> int" where
  "int64 x = (x + 2 ^ 63) mod 2 ^ 64 - 2 ^ 63"

lemma int64_range: "- (2 ^ 63) \<le> int64 x \<and> int64 x < 2 ^ 63"
  by (simp add: int64_def)

lemma int64_id: "- (2 ^ 63) \<le> x \<Longrightarrow> x < 2 ^ 63 \<Longrightarrow> int64 x = x"
  by (simp add: int64_def)

end
