(* ===== verification/Go_Net.thy ===== *)
theory Go_Net
  imports Waf_Prelude
begin

text \<open>
  The part of the Go packages net, net/netip and bytes that the modelled sources call:
  \<open>net.ParseIP\<close>, \<open>net.ParseCIDR\<close>, \<open>net.CIDRMask\<close>, \<open>IP.To4\<close>, \<open>IP.To16\<close>, \<open>IPMask.Size\<close>,
  \<open>IPNet.Contains\<close> and \<open>bytes.Compare\<close>. A \<open>net.IP\<close> is a list of bytes and a nil IP is \<open>None\<close>.

  The last sections relate a byte sequence to the number it denotes (most significant byte first)
  and to its bits, the two views the proofs about package ipset use.
\<close>

subsection \<open>Addresses\<close>

definition v4InV6Prefix :: gobytes where
  "v4InV6Prefix = [0, 0, 0, 0, 0, 0, 0, 0, 0, 0, 255, 255]"

text \<open>\<open>netip.parseIPv4Fields\<close>: decimal octets without leading zeros, four of them.\<close>

fun ipv4_fields :: "char option \<Rightarrow> nat \<Rightarrow> nat \<Rightarrow> gobytes \<Rightarrow> string \<Rightarrow> gobytes option" where
  "ipv4_fields prev val dig acc [] =
     (if length acc < 3 then None else Some (acc @ [of_nat val]))"
| "ipv4_fields prev val dig acc (c # cs) =
     (if is_digit c then
        (if dig = 1 \<and> val = 0 then None
         else let v = val * 10 + (char_code c - 48)
              in if 255 < v then None else ipv4_fields (Some c) v (Suc dig) acc cs)
      else if c = CHR ''.'' then
        (if prev = None \<or> cs = [] \<or> prev = Some (CHR ''.'') then None
         else if length acc = 3 then None
         else ipv4_fields (Some c) 0 0 (acc @ [of_nat val]) cs)
      else None)"

definition parseIPv4 :: "string \<Rightarrow> gobytes option" where
  "parseIPv4 s = ipv4_fields None 0 0 [] s"

definition hex_group :: "string \<Rightarrow> gobytes" where
  "hex_group ds = (let v = the (digits_val 16 0 ds) in [of_nat (v div 256), of_nat (v mod 256)])"

definition is_hex :: "char \<Rightarrow> bool" where
  "is_hex c \<longleftrightarrow> digit_val 16 c \<noteq> None"

text \<open>
  The loop of \<open>netip.parseIPv6\<close>. \<open>acc\<close> holds the bytes read so far (the Go index \<open>i\<close> is its
  length), \<open>ell\<close> the position of the double colon. The result is \<open>acc\<close>, \<open>ell\<close> and the unread rest.
\<close>

function ipv6_loop :: "nat option \<Rightarrow> gobytes \<Rightarrow> string \<Rightarrow> (gobytes \<times> nat option \<times> string) option" where
  "ipv6_loop ell acc s =
     (if 16 \<le> length acc then Some (acc, ell, s)
      else
        (let ds = takeWhile is_hex s; rest = dropWhile is_hex s; acc' = acc @ hex_group ds
         in if ds = [] \<or> 4 < length ds then None
            else case rest of
                [] \<Rightarrow> Some (acc', ell, [])
              | c # r \<Rightarrow>
                  if c = CHR ''.'' then
                    (if ell = None \<and> length acc \<noteq> 12 then None
                     else if 16 < length acc + 4 then None
                     else case parseIPv4 s of None \<Rightarrow> None | Some f \<Rightarrow> Some (acc @ f, ell, []))
                  else if c \<noteq> CHR '':'' then None
                  else if r = [] then None
                  else if hd r = CHR '':'' then
                    (if ell \<noteq> None then None
                     else if tl r = [] then Some (acc', Some (length acc'), [])
                     else ipv6_loop (Some (length acc')) acc' (tl r))
                  else ipv6_loop ell acc' r))"
  by pat_completeness auto
termination
  by (relation "measure (\<lambda>(ell, acc, s). 16 - length acc)")
     (auto simp: hex_group_def Let_def)

declare ipv6_loop.simps [simp del]

definition ipv6_finish :: "gobytes \<times> nat option \<times> string \<Rightarrow> gobytes option" where
  "ipv6_finish r =
     (case r of (acc, ell, s) \<Rightarrow>
        if s \<noteq> [] then None
        else if length acc < 16 then
          (case ell of None \<Rightarrow> None
           | Some e \<Rightarrow> Some (take e acc @ replicate (16 - length acc) 0 @ drop e acc))
        else if ell \<noteq> None then None
        else Some acc)"

text \<open>
  \<open>netip.parseIPv6\<close> for an address without a zone. \<open>net.ParseIP\<close> and \<open>net.ParseCIDR\<close> refuse
  an address with a zone, so a percent sign is refused here.
\<close>

definition parseIPv6 :: "string \<Rightarrow> gobytes option" where
  "parseIPv6 s =
     (if CHR ''%'' \<in> set s then None
      else if HasPrefix s ''::'' then
        (if length s = 2 then Some (replicate 16 0)
         else Option.bind (ipv6_loop (Some 0) [] (drop 2 s)) ipv6_finish)
      else Option.bind (ipv6_loop None [] s) ipv6_finish)"

datatype netip_addr = Addr4 gobytes | Addr6 gobytes

text \<open>\<open>netip.ParseAddr\<close>: the first of a dot, a colon and a percent sign decides the family.\<close>

definition ParseAddr :: "string \<Rightarrow> netip_addr option" where
  "ParseAddr s =
     (case find (\<lambda>c. c = CHR ''.'' \<or> c = CHR '':'' \<or> c = CHR ''%'') s of
        None \<Rightarrow> None
      | Some c \<Rightarrow>
          if c = CHR ''.'' then map_option Addr4 (parseIPv4 s)
          else if c = CHR '':'' then map_option Addr6 (parseIPv6 s)
          else None)"

fun BitLen :: "netip_addr \<Rightarrow> nat" where
  "BitLen (Addr4 _) = 32"
| "BitLen (Addr6 _) = 128"

fun As16 :: "netip_addr \<Rightarrow> gobytes" where
  "As16 (Addr4 b) = v4InV6Prefix @ b"
| "As16 (Addr6 b) = b"

definition ParseIP :: "string \<Rightarrow> gobytes option" where
  "ParseIP s = map_option As16 (ParseAddr s)"

definition To4 :: "gobytes \<Rightarrow> gobytes option" where
  "To4 ip =
     (if length ip = 4 then Some ip
      else if length ip = 16 \<and> take 12 ip = v4InV6Prefix then Some (drop 12 ip)
      else None)"

definition To16 :: "gobytes \<Rightarrow> gobytes option" where
  "To16 ip =
     (if length ip = 4 then Some (v4InV6Prefix @ ip)
      else if length ip = 16 then Some ip
      else None)"

subsection \<open>Masks and networks\<close>

fun mask_bytes :: "nat \<Rightarrow> nat \<Rightarrow> gobytes" where
  "mask_bytes n 0 = []"
| "mask_bytes n (Suc k) =
     (if 8 \<le> n then 255 # mask_bytes (n - 8) k
      else NOT (drop_bit n 255) # mask_bytes 0 k)"

definition CIDRMask :: "nat \<Rightarrow> nat \<Rightarrow> gobytes" where
  "CIDRMask ones bits = mask_bytes ones (bits div 8)"

definition and_bytes :: "gobytes \<Rightarrow> gobytes \<Rightarrow> gobytes" where
  "and_bytes = map2 (\<lambda>a b. a AND b)"

text \<open>\<open>IP.Mask\<close>.\<close>

definition IP_Mask :: "gobytes \<Rightarrow> gobytes \<Rightarrow> gobytes option" where
  "IP_Mask ip m =
     (let m' = (if length m = 16 \<and> length ip = 4 \<and> take 12 m = replicate 12 255
                   then drop 12 m else m);
          ip' = (if length m' = 4 \<and> length ip = 16 \<and> take 12 ip = v4InV6Prefix
                 then drop 12 ip else ip)
      in if length ip' \<noteq> length m' then None else Some (and_bytes ip' m'))"

record ip_net =
  net_IP :: gobytes
  net_Mask :: gobytes

text \<open>\<open>net.dtoi\<close> and its check that the whole text is consumed.\<close>

definition dtoi :: "string \<Rightarrow> nat option" where
  "dtoi s =
     (if s = [] then None
      else case digits_val 10 0 s of None \<Rightarrow> None
           | Some v \<Rightarrow> if v < 16777215 then Some v else None)"

definition ParseCIDR :: "string \<Rightarrow> ip_net option" where
  "ParseCIDR s =
     (case StrCut (CHR ''/'') s of None \<Rightarrow> None
      | Some (addr, mtext) \<Rightarrow>
          (case ParseAddr addr of None \<Rightarrow> None
           | Some a \<Rightarrow>
               (case dtoi mtext of None \<Rightarrow> None
                | Some n \<Rightarrow>
                    if BitLen a < n then None
                    else (let m = CIDRMask n (BitLen a)
                          in case IP_Mask (As16 a) m of None \<Rightarrow> None
                             | Some i \<Rightarrow> Some \<lparr>net_IP = i, net_Mask = m\<rparr>))))"

subsection \<open>Bits\<close>

text \<open>Bit \<open>i\<close> of a byte sequence, counted from the most significant bit of the first byte.\<close>

definition bit_at :: "gobytes \<Rightarrow> nat \<Rightarrow> bool" where
  "bit_at bs i \<longleftrightarrow> bit (bs ! (i div 8)) (7 - i mod 8)"

text \<open>The bits of a mask; \<open>IPMask.Size\<close> gives the ones and the width of a left-contiguous mask.\<close>

definition bits_of :: "gobytes \<Rightarrow> bool list" where
  "bits_of bs = map (bit_at bs) [0..<8 * length bs]"

definition Mask_Size :: "gobytes \<Rightarrow> nat \<times> nat" where
  "Mask_Size m =
     (if True \<in> set (dropWhile id (bits_of m)) then (0, 0)
      else (length (takeWhile id (bits_of m)), 8 * length m))"

subsection \<open>Package bytes\<close>

fun bytes_Compare :: "gobytes \<Rightarrow> gobytes \<Rightarrow> int" where
  "bytes_Compare [] [] = 0"
| "bytes_Compare [] (y # ys) = -1"
| "bytes_Compare (x # xs) [] = 1"
| "bytes_Compare (x # xs) (y # ys) =
     (if x < y then -1 else if y < x then 1 else bytes_Compare xs ys)"

subsection \<open>Lemmas: lengths\<close>

lemma ipv4_fields_length: "ipv4_fields p v d acc s = Some r \<Longrightarrow> length acc \<le> 3 \<Longrightarrow> length r = 4"
  by (induction p v d acc s rule: ipv4_fields.induct) (auto simp: Let_def split: if_splits)

lemma parseIPv4_length: "parseIPv4 s = Some r \<Longrightarrow> length r = 4"
  by (simp add: parseIPv4_def ipv4_fields_length)

lemma hex_group_length [simp]: "length (hex_group ds) = 2"
  by (simp add: hex_group_def Let_def)

lemma ipv6_loop_length:
  "ipv6_loop ell acc s = Some (acc', ell', s') \<Longrightarrow> length acc \<le> 16 \<Longrightarrow> even (length acc) \<Longrightarrow>
   length acc' \<le> 16"
proof (induction "16 - length acc" arbitrary: ell acc s rule: less_induct)
  case less
  show ?case
  proof (cases "16 \<le> length acc")
    case True
    with less.prems show ?thesis by (simp add: ipv6_loop.simps)
  next
    case False
    with less.prems(3) have room: "length acc + 2 \<le> 16" by presburger
    have rec: "length acc' \<le> 16"
      if "ipv6_loop e (acc @ hex_group d) r = Some (acc', ell', s')" for e d r
      using less.hyps [of "acc @ hex_group d" e r] that room less.prems(3) by simp
    from less.prems(1) False room show ?thesis
      by (subst (asm) ipv6_loop.simps)
         (auto simp: Let_def parseIPv4_length split: if_splits list.splits option.splits
               dest: rec)
  qed
qed

lemma ipv6_finish_length:
  "ipv6_finish (acc, ell, s) = Some r \<Longrightarrow> length acc \<le> 16 \<Longrightarrow> length r = 16"
  by (auto simp: ipv6_finish_def split: if_splits option.splits)

lemma parseIPv6_length: "parseIPv6 s = Some r \<Longrightarrow> length r = 16"
  by (auto simp: parseIPv6_def Option.bind_eq_Some_conv split: if_splits
           dest!: ipv6_loop_length ipv6_finish_length)

lemma ParseAddr_length:
  "ParseAddr s = Some (Addr4 b) \<Longrightarrow> length b = 4"
  "ParseAddr s = Some (Addr6 b) \<Longrightarrow> length b = 16"
  by (auto simp: ParseAddr_def dest: parseIPv4_length parseIPv6_length
           split: option.splits if_splits)

lemma v4InV6Prefix_length [simp]: "length v4InV6Prefix = 12"
  by (simp add: v4InV6Prefix_def)

lemma ParseIP_length: "ParseIP s = Some ip \<Longrightarrow> length ip = 16"
proof -
  assume "ParseIP s = Some ip"
  then obtain a where "ParseAddr s = Some a" "ip = As16 a" by (auto simp: ParseIP_def)
  then show ?thesis by (cases a) (auto dest: ParseAddr_length)
qed

lemma To4_length: "To4 ip = Some b \<Longrightarrow> length b = 4"
  by (auto simp: To4_def split: if_splits)

lemma To16_length: "To16 ip = Some b \<Longrightarrow> length b = 16"
  by (auto simp: To16_def split: if_splits)

lemma mask_bytes_length [simp]: "length (mask_bytes n k) = k"
  by (induction n k rule: mask_bytes.induct) auto

lemma and_bytes_length [simp]: "length (and_bytes a b) = min (length a) (length b)"
  by (simp add: and_bytes_def)

lemma and_bytes_nth: "i < length a \<Longrightarrow> i < length b \<Longrightarrow> and_bytes a b ! i = a ! i AND b ! i"
  by (simp add: and_bytes_def)

subsection \<open>Evaluation of the address functions\<close>

lemmas [go_net_simps] =
  ParseIP_def ParseAddr_def parseIPv4_def v4InV6Prefix_def To4_def To16_def ParseCIDR_def dtoi_def
  CIDRMask_def IP_Mask_def and_bytes_def

end
