(* ===== verification/Byte_Numbers.thy ===== *)
theory Byte_Numbers
  imports Go_Net
begin

text \<open>
  Two views of a byte sequence of an address: the number it denotes, most significant byte
  first (\<open>be_val\<close>), and its bits (\<open>bit_at\<close>). \<open>bytes.Compare\<close> on sequences of one length is
  the order of the numbers; agreeing on the first \<open>n\<close> bits is having the same quotient by a power
  of two, so the addresses under an aligned prefix are an interval of numbers.
\<close>

subsection \<open>Byte sequences as numbers\<close>

fun be_val :: "gobytes \<Rightarrow> nat" where
  "be_val [] = 0"
| "be_val (b # bs) = unat b * 256 ^ length bs + be_val bs"

lemma unat_byte_lt: "unat (b :: gobyte) < 256"
  by (rule order_less_le_trans [OF unsigned_less]) simp

lemma be_val_lt: "be_val bs < 256 ^ length bs"
proof (induction bs)
  case Nil
  show ?case by simp
next
  case (Cons b bs)
  have "unat b * 256 ^ length bs + be_val bs < (unat b + 1) * 256 ^ length bs"
    using Cons by simp
  also have "\<dots> \<le> 256 * 256 ^ length bs"
    using unat_byte_lt [of b] by (intro mult_right_mono) auto
  finally show ?case by simp
qed

lemma be_val_append: "be_val (xs @ ys) = be_val xs * 256 ^ length ys + be_val ys"
  by (induction xs) (auto simp: power_add algebra_simps)

lemma be_val_less_Cons:
  "(b :: gobyte) < c \<Longrightarrow> length bs = length cs \<Longrightarrow> be_val (b # bs) < be_val (c # cs)"
proof -
  assume lt: "b < c" and len: "length bs = length cs"
  have "be_val (b # bs) < (unat b + 1) * 256 ^ length cs"
    using be_val_lt [of bs] len by simp
  also have "\<dots> \<le> unat c * 256 ^ length cs"
    using lt by (intro mult_right_mono) (auto simp: word_less_nat_alt)
  finally show "be_val (b # bs) < be_val (c # cs)" by simp
qed

lemma bytes_Compare_cases:
  "length a = length b \<Longrightarrow>
   (bytes_Compare a b = -1 \<and> be_val a < be_val b) \<or> (bytes_Compare a b = 0 \<and> a = b) \<or>
   (bytes_Compare a b = 1 \<and> be_val b < be_val a)"
proof (induction a b rule: bytes_Compare.induct)
  case (4 x xs y ys)
  then have len: "length xs = length ys" by simp
  show ?case
  proof (cases x y rule: linorder_cases)
    case less
    then show ?thesis using be_val_less_Cons [OF less len] by simp
  next
    case equal
    with 4 len show ?thesis by auto
  next
    case greater
    then show ?thesis using be_val_less_Cons [OF greater len [symmetric]] by auto
  qed
qed auto

lemma bytes_Compare_le_0: "length a = length b \<Longrightarrow> bytes_Compare a b \<le> 0 \<longleftrightarrow> be_val a \<le> be_val b"
  and bytes_Compare_gt_0: "length a = length b \<Longrightarrow> 0 < bytes_Compare a b \<longleftrightarrow> be_val b < be_val a"
  and bytes_Compare_ge_0: "length a = length b \<Longrightarrow> 0 \<le> bytes_Compare a b \<longleftrightarrow> be_val b \<le> be_val a"
  and bytes_Compare_eq_0: "length a = length b \<Longrightarrow> bytes_Compare a b = 0 \<longleftrightarrow> a = b"
  and bytes_Compare_eq_1: "length a = length b \<Longrightarrow> bytes_Compare a b = 1 \<longleftrightarrow> be_val b < be_val a"
  using bytes_Compare_cases [of a b] by fastforce+

lemma be_val_inject: "length a = length b \<Longrightarrow> be_val a = be_val b \<longleftrightarrow> a = b"
  using bytes_Compare_cases [of a b] by auto

lemma be_val_replicate_0 [simp]: "be_val (replicate n 0) = 0"
  by (induction n) auto

lemma be_val_0_iff: "be_val bs = 0 \<longleftrightarrow> (\<forall>b \<in> set bs. b = 0)"
  by (induction bs) (auto simp: unat_eq_zero)

subsection \<open>Bits of a byte sequence\<close>

lemma div_pow_add:
  fixes a v :: nat
  assumes "v < 2 ^ k" "k \<le> m"
  shows "(a * 2 ^ k + v) div 2 ^ m = a div 2 ^ (m - k)"
proof -
  have "(a * 2 ^ k + v) div 2 ^ m = (a * 2 ^ k + v) div 2 ^ k div 2 ^ (m - k)"
    using assms(2) by (metis div_mult2_eq le_add_diff_inverse power_add)
  also have "(a * 2 ^ k + v) div 2 ^ k = a" using assms(1) by simp
  finally show ?thesis .
qed

lemma odd_div_pow_add:
  fixes a v :: nat
  assumes "m < k"
  shows "odd ((a * 2 ^ k + v) div 2 ^ m) = odd (v div 2 ^ m)"
proof -
  have k: "2 ^ k = (2 ^ m * 2 * 2 ^ (k - m - 1) :: nat)"
  proof -
    have "k = m + 1 + (k - m - 1)" using assms by simp
    then show ?thesis by (metis power_add power_one_right)
  qed
  have "a * 2 ^ k + v = v + 2 ^ m * (2 * (a * 2 ^ (k - m - 1)))"
    unfolding k by (simp add: algebra_simps)
  also have "(\<dots>) div 2 ^ m = 2 * (a * 2 ^ (k - m - 1)) + v div 2 ^ m"
    by (subst div_mult_self2) auto
  finally show ?thesis by simp
qed

lemma bit_at_be_val:
  "j < 8 * length bs \<Longrightarrow> bit_at bs j = odd (be_val bs div 2 ^ (8 * length bs - 1 - j))"
proof (induction bs arbitrary: j)
  case Nil
  then show ?case by simp
next
  case (Cons b bs)
  let ?L = "8 * length bs"
  have p: "(256 :: nat) ^ length bs = 2 ^ ?L" by (simp add: power_mult)
  have v: "be_val bs < 2 ^ ?L" using be_val_lt [of bs] p by simp
  show ?case
  proof (cases "j < 8")
    case True
    then have e: "8 * length (b # bs) - 1 - j = ?L + (7 - j)" by simp
    have "be_val (b # bs) div 2 ^ (?L + (7 - j)) = unat b div 2 ^ (7 - j)"
      using v p by (simp add: div_pow_add)
    moreover have "bit b (7 - j) = odd (unat b div 2 ^ (7 - j))"
      by (metis bit_iff_odd bit_unsigned_iff possible_bit_nat)
    ultimately show ?thesis
      using True unfolding e by (simp add: bit_at_def)
  next
    case False
    then have e: "8 * length (b # bs) - 1 - j = ?L - 1 - (j - 8)" and jl: "j - 8 < ?L"
      using Cons.prems by auto
    have lt: "?L - 1 - (j - 8) < ?L" using jl by auto
    have "bit_at (b # bs) j = bit_at bs (j - 8)"
      using False by (simp add: bit_at_def le_div_geq le_mod_geq)
    also have "\<dots> = odd (be_val bs div 2 ^ (?L - 1 - (j - 8)))"
      using jl by (rule Cons.IH)
    also have "\<dots> = odd (be_val (b # bs) div 2 ^ (?L - 1 - (j - 8)))"
      using odd_div_pow_add [OF lt, of "unat b" "be_val bs"] p by simp
    finally show ?thesis unfolding e .
  qed
qed

lemma bytes_eq_iff_bits:
  assumes "length a = length b"
  shows "a = b \<longleftrightarrow> (\<forall>j < 8 * length a. bit_at a j = bit_at b j)"
proof
  assume bits: "\<forall>j < 8 * length a. bit_at a j = bit_at b j"
  have block: "(8 * i + x) div 8 = i" "(8 * i + x) mod 8 = x" if "x < 8" for i x :: nat
    using that by simp_all
  show "a = b"
  proof (rule nth_equalityI)
    fix i assume i: "i < length a"
    show "a ! i = b ! i"
    proof (rule bit_word_eqI)
      fix k assume k: "k < LENGTH(8)"
      then have "8 * i + (7 - k) < 8 * length a" using i by simp
      with bits have "bit_at a (8 * i + (7 - k)) = bit_at b (8 * i + (7 - k))" by blast
      moreover have "(8 * i + (7 - k)) div 8 = i" "7 - (8 * i + (7 - k)) mod 8 = k"
        using k block [of "7 - k" i] by (simp_all del: Nat.add_diff_assoc2 diff_add_assoc2)
      ultimately show "bit (a ! i) k = bit (b ! i) k" by (simp only: bit_at_def)
    qed
  qed (use assms in simp)
qed simp

lemma bit_at_and_bytes:
  "length a = length b \<Longrightarrow> j < 8 * length a \<Longrightarrow>
   bit_at (and_bytes a b) j \<longleftrightarrow> bit_at a j \<and> bit_at b j"
  by (simp add: bit_at_def and_bytes_nth bit_and_iff less_mult_imp_div_less mult.commute)

lemma ones_byte: "i < 8 \<Longrightarrow> bit (255 :: gobyte) i"
proof -
  assume "i < 8"
  then have "i \<in> {0, 1, 2, 3, 4, 5, 6, 7}" by auto
  then show ?thesis by auto
qed

lemma bit_at_mask_bytes: "j < 8 * k \<Longrightarrow> bit_at (mask_bytes n k) j \<longleftrightarrow> j < n"
proof (induction n k arbitrary: j rule: mask_bytes.induct)
  case (1 n)
  then show ?case by simp
next
  case (2 n k)
  note ones = ones_byte
  have first: "bit (NOT (drop_bit n 255) :: gobyte) (7 - j) \<longleftrightarrow> j < n" if "j < 8" "n < 8"
  proof -
    have "bit (drop_bit n 255 :: gobyte) (7 - j) \<longleftrightarrow> n + (7 - j) < 8"
      using that ones [of "n + (7 - j)"] bit_imp_le_length [of "255 :: gobyte" "n + (7 - j)"]
      by (auto simp: bit_drop_bit_eq)
    then show ?thesis using that by (auto simp: bit_not_iff)
  qed
  have shift: "bit_at (b # bs) j = bit_at bs (j - 8)" if "\<not> j < 8" for b bs
    using that by (simp add: bit_at_def le_div_geq le_mod_geq)
  have lt: "j - 8 < 8 * k" if "\<not> j < 8" using that "2.prems" by auto
  show ?case
  proof (cases "8 \<le> n"; cases "j < 8")
    assume "8 \<le> n" "j < 8"
    then show ?thesis using ones by (simp add: bit_at_def)
  next
    assume n: "8 \<le> n" and j: "\<not> j < 8"
    with "2.IH"(1) [OF n lt [OF j]] shift [OF j] show ?thesis by auto
  next
    assume "\<not> 8 \<le> n" "j < 8"
    then show ?thesis using first by (simp add: bit_at_def)
  next
    assume n: "\<not> 8 \<le> n" and j: "\<not> j < 8"
    with "2.IH"(2) [OF n lt [OF j]] shift [OF j] show ?thesis by auto
  qed
qed

subsection \<open>Prefixes\<close>

definition same_prefix :: "nat \<Rightarrow> gobytes \<Rightarrow> gobytes \<Rightarrow> bool" where
  "same_prefix n a b \<longleftrightarrow> (\<forall>j < n. bit_at a j = bit_at b j)"

lemma same_prefix_0 [simp]: "same_prefix 0 a b"
  by (simp add: same_prefix_def)

lemma same_prefix_refl [simp]: "same_prefix n a a"
  by (simp add: same_prefix_def)

lemma same_prefix_sym: "same_prefix n a b \<Longrightarrow> same_prefix n b a"
  by (simp add: same_prefix_def)

lemma same_prefix_mono: "same_prefix n a b \<Longrightarrow> m \<le> n \<Longrightarrow> same_prefix m a b"
  by (auto simp: same_prefix_def)

lemma same_prefix_full:
  "length a = length b \<Longrightarrow> same_prefix (8 * length a) a b \<longleftrightarrow> a = b"
  by (simp add: same_prefix_def bytes_eq_iff_bits)

lemma same_prefix_Suc: "same_prefix (Suc n) a b \<longleftrightarrow> same_prefix n a b \<and> bit_at a n = bit_at b n"
  by (auto simp: same_prefix_def less_Suc_eq)

text \<open>Agreeing on the first \<open>n\<close> bits is having the same quotient by \<open>2 ^ (bits - n)\<close>.\<close>

lemma same_prefix_iff_div:
  assumes "length a = length b" "n \<le> 8 * length a"
  shows "same_prefix n a b \<longleftrightarrow>
         be_val a div 2 ^ (8 * length a - n) = be_val b div 2 ^ (8 * length a - n)"
  using assms(2)
proof (induction n)
  case 0
  have "be_val a < 2 ^ (8 * length a)" "be_val b < 2 ^ (8 * length a)"
    using be_val_lt [of a] be_val_lt [of b] assms(1) by (auto simp: power_mult)
  then show ?case by simp
next
  case (Suc n)
  let ?k = "8 * length a - Suc n"
  have k: "8 * length a - n = Suc ?k" using Suc.prems by simp
  have bits: "bit_at a n = odd (be_val a div 2 ^ ?k)" "bit_at b n = odd (be_val b div 2 ^ ?k)"
    using bit_at_be_val [of n a] bit_at_be_val [of n b] Suc.prems assms(1) by auto
  have half: "v div 2 ^ Suc ?k = (v div 2 ^ ?k) div 2" for v :: nat
    by (simp add: div_mult2_eq [symmetric] mult.commute)
  have "same_prefix n a b \<longleftrightarrow> (be_val a div 2 ^ ?k) div 2 = (be_val b div 2 ^ ?k) div 2"
    using Suc.IH Suc.prems unfolding k half by simp
  moreover have "x = y \<longleftrightarrow> x div 2 = y div 2 \<and> odd x = odd y" for x y :: nat
    by presburger
  ultimately show ?case unfolding same_prefix_Suc bits by blast
qed

lemma aligned_block_iff:
  fixes a b :: nat
  assumes "2 ^ k dvd a"
  shows "a div 2 ^ k = b div 2 ^ k \<longleftrightarrow> a \<le> b \<and> b < a + 2 ^ k"
proof -
  obtain c where c: "a = 2 ^ k * c" using assms by auto
  have "c = b div 2 ^ k \<longleftrightarrow> 2 ^ k * c \<le> b \<and> b < 2 ^ k * (c + 1)"
    by (metis (no_types, lifting) Suc_eq_plus1 div_nat_eqI dividend_less_times_div
        mult.commute mult_Suc_right times_div_less_eq_dividend zero_less_numeral zero_less_power)
  then show ?thesis using c by (simp add: algebra_simps)
qed

text \<open>The addresses under an aligned prefix are an interval.\<close>

lemma same_prefix_interval:
  assumes "length a = length b" "n \<le> 8 * length a" "2 ^ (8 * length a - n) dvd be_val a"
  shows "same_prefix n a b \<longleftrightarrow>
         be_val a \<le> be_val b \<and> be_val b < be_val a + 2 ^ (8 * length a - n)"
  using assms by (simp add: same_prefix_iff_div aligned_block_iff)

text \<open>Masking with a left-contiguous mask and comparing is comparing a prefix.\<close>

lemma masked_eq_iff_same_prefix:
  assumes len: "length a = length v" "length m = length v"
    and mask: "\<And>j. j < 8 * length v \<Longrightarrow> bit_at m j \<longleftrightarrow> j < n"
    and v: "and_bytes v m = v" and n: "n \<le> 8 * length v"
  shows "and_bytes a m = v \<longleftrightarrow> same_prefix n v a"
proof -
  have vm: "bit_at v j \<longleftrightarrow> bit_at v j \<and> j < n" if "j < 8 * length v" for j
    using bit_at_and_bytes [of v m j] mask that v len by auto
  have "and_bytes a m = v \<longleftrightarrow> (\<forall>j < 8 * length v. (bit_at a j \<and> j < n) = bit_at v j)"
    using bytes_eq_iff_bits [of "and_bytes a m" v] bit_at_and_bytes [of a m] mask len by auto
  also have "\<dots> \<longleftrightarrow> (\<forall>j < n. bit_at v j = bit_at a j)"
    using vm n by (metis (full_types) order_less_le_trans)
  also have "\<dots> \<longleftrightarrow> same_prefix n v a"
    by (simp add: same_prefix_def)
  finally show ?thesis .
qed

end
