(* ===== verification/IP_Pattern.thy ===== *)
theory IP_Pattern
  imports Byte_Numbers
begin

text \<open>
  Package ipset, file pattern.go: the one parser of IP expressions (single address, CIDR network,
  wildcard, closed range) and the direct matching of a parsed pattern against an address, with the
  bounded parse cache the rule engine uses.

  The lemmas give the shape of every pattern the parser returns (\<open>pattern_wf\<close>), that the lenient
  parser differs from the strict one on reversed ranges only, and that the catch-all tests find
  exactly the patterns that match a whole address family.
\<close>

subsection \<open>Data\<close>

datatype pattern_kind = KindInvalid | KindSingle | KindCIDR | KindWildcard | KindRange

text \<open>The errors of the parser; each carries the text the Go message shows.\<close>

datatype pattern_error =
    ErrEmptyIP
  | ErrNotIP string
  | ErrNotCIDR string
  | ErrCIDRMask string
  | ErrRangeEnds string
  | ErrRangeFormat string
  | ErrRangeFamily string
  | ErrRangeReversed string
  | ErrWildcardSlash string
  | ErrWildcardV4Count string
  | ErrWildcardPartial string
  | ErrWildcardLeadingZero string
  | ErrWildcardV4Segment string
  | ErrWildcardV6Ellipsis string
  | ErrWildcardV6Count string
  | ErrWildcardV6Embedded string
  | ErrWildcardV6Segment string
  | IndexPanic

record pattern =
  p_Kind :: pattern_kind
  p_Width :: nat
  p_Value :: gobytes
  p_Mask :: gobytes
  p_End :: gobytes
  p_Prefix :: int
  p_Raw :: string

definition invalid_pattern :: "string \<Rightarrow> pattern" where
  "invalid_pattern raw =
     \<lparr>p_Kind = KindInvalid, p_Width = 0, p_Value = [], p_Mask = [], p_End = [], p_Prefix = 0,
      p_Raw = raw\<rparr>"

subsection \<open>Helpers\<close>

definition normalizeIP :: "gobytes \<Rightarrow> gobytes \<times> nat" where
  "normalizeIP ip =
     (case To4 ip of
        Some v4 \<Rightarrow> (v4, 4)
      | None \<Rightarrow> ((case To16 ip of Some v6 \<Rightarrow> v6 | None \<Rightarrow> []), 16))"

text \<open>The loop of \<open>maskPrefixLen\<close> over the bits of the mask, most significant first.\<close>

fun mask_prefix_loop :: "bool list \<Rightarrow> nat \<Rightarrow> bool \<Rightarrow> int" where
  "mask_prefix_loop [] prefx seenZero = int prefx"
| "mask_prefix_loop (b # bs) prefx seenZero =
     (if b then (if seenZero then -1 else mask_prefix_loop bs (Suc prefx) seenZero)
      else mask_prefix_loop bs prefx True)"

definition maskPrefixLen :: "gobytes \<Rightarrow> int" where
  "maskPrefixLen m = mask_prefix_loop (bits_of m) 0 False"

subsection \<open>The four branches of the parser\<close>

definition single_pattern :: "gobytes \<Rightarrow> nat \<Rightarrow> string \<Rightarrow> pattern" where
  "single_pattern v w s =
     \<lparr>p_Kind = KindSingle, p_Width = w, p_Value = v, p_Mask = replicate w 255, p_End = [],
      p_Prefix = int (w * 8), p_Raw = s\<rparr>"

definition parseSingle :: "string \<Rightarrow> pattern_error + pattern" where
  "parseSingle s =
     (case ParseIP s of
        None \<Rightarrow> Inl (ErrNotIP s)
      | Some ip \<Rightarrow> (let (v, w) = normalizeIP ip in Inr (single_pattern v w s)))"

definition parseCIDR :: "string \<Rightarrow> pattern_error + pattern" where
  "parseCIDR s =
     (case ParseCIDR s of
        None \<Rightarrow> Inl (ErrNotCIDR s)
      | Some ipNet \<Rightarrow>
          (let (ones, bits) = Mask_Size (net_Mask ipNet)
           in if bits = 0 then Inl (ErrCIDRMask s)
              else
                (let width = bits div 8;
                     m = take width (net_Mask ipNet);
                     mk = (\<lambda>v. \<lparr>p_Kind = KindCIDR, p_Width = width, p_Value = v, p_Mask = m,
                               p_End = [], p_Prefix = int ones, p_Raw = s\<rparr>)
                 in if width = 4 then
                      (case To4 (net_IP ipNet) of
                         None \<Rightarrow> Inl (ErrNotCIDR s)
                       | Some v4 \<Rightarrow> Inr (mk v4))
                    else
                      Inr (mk (case To16 (net_IP ipNet) of Some v6 \<Rightarrow> v6 | None \<Rightarrow> [])))))"

definition parseRange :: "string \<Rightarrow> pattern_error + pattern" where
  "parseRange s =
     (case StrSplitN2 (CHR ''-'') s of
        [l, r] \<Rightarrow>
          (let left = TrimSpace l; right = TrimSpace r
           in if ContainsAny left ''*/'' \<or> ContainsAny right ''*/'' then Inl (ErrRangeEnds s)
              else
                (case (ParseIP left, ParseIP right) of
                   (Some ipA, Some ipB) \<Rightarrow>
                     (let (startVal, startWidth) = normalizeIP ipA;
                          (endVal, endWidth) = normalizeIP ipB
                      in if startWidth \<noteq> endWidth then Inl (ErrRangeFamily s)
                         else if bytes_Compare startVal endVal = 1 then Inl (ErrRangeReversed s)
                         else if bytes_Compare startVal endVal = 0 then
                           Inr (single_pattern startVal startWidth s)
                         else
                           Inr \<lparr>p_Kind = KindRange, p_Width = startWidth, p_Value = startVal,
                                p_Mask = [], p_End = endVal, p_Prefix = -1, p_Raw = s\<rparr>)
                 | _ \<Rightarrow> Inl (ErrRangeFormat s)))
      | _ \<Rightarrow> Inl IndexPanic)"

text \<open>
  The segment loops of \<open>parseWildcardV4\<close> and \<open>parseWildcardV6\<close>; they fill the value and the
  mask from left to right. The first argument is the whole text, for the error.
\<close>

fun wildcard_v4_segs :: "string \<Rightarrow> string list \<Rightarrow> pattern_error + gobytes \<times> gobytes" where
  "wildcard_v4_segs s [] = Inr ([], [])"
| "wildcard_v4_segs s (seg # segs) =
     (if seg = ''*'' then
        (case wildcard_v4_segs s segs of Inl e \<Rightarrow> Inl e | Inr (v, m) \<Rightarrow> Inr (0 # v, 0 # m))
      else if StrContains seg ''*'' then Inl (ErrWildcardPartial s)
      else if 1 < length seg \<and> hd seg = CHR ''0'' then Inl (ErrWildcardLeadingZero s)
      else (case ParseUint seg 10 8 of
              None \<Rightarrow> Inl (ErrWildcardV4Segment s)
            | Some n \<Rightarrow>
                (case wildcard_v4_segs s segs of
                   Inl e \<Rightarrow> Inl e
                 | Inr (v, m) \<Rightarrow> Inr (of_nat n # v, 255 # m))))"

definition wildcard_pattern :: "nat \<Rightarrow> gobytes \<Rightarrow> gobytes \<Rightarrow> string \<Rightarrow> pattern" where
  "wildcard_pattern w v m s =
     \<lparr>p_Kind = KindWildcard, p_Width = w, p_Value = v, p_Mask = m, p_End = [],
      p_Prefix = maskPrefixLen m, p_Raw = s\<rparr>"

definition parseWildcardV4 :: "string \<Rightarrow> pattern_error + pattern" where
  "parseWildcardV4 s =
     (let segs = StrSplit (CHR ''.'') s
      in if length segs \<noteq> 4 then Inl (ErrWildcardV4Count s)
         else (case wildcard_v4_segs s segs of
                 Inl e \<Rightarrow> Inl e
               | Inr (v, m) \<Rightarrow> Inr (wildcard_pattern 4 v m s)))"

fun wildcard_v6_segs :: "string \<Rightarrow> string list \<Rightarrow> pattern_error + gobytes \<times> gobytes" where
  "wildcard_v6_segs s [] = Inr ([], [])"
| "wildcard_v6_segs s (seg # segs) =
     (if seg = ''*'' then
        (case wildcard_v6_segs s segs of
           Inl e \<Rightarrow> Inl e | Inr (v, m) \<Rightarrow> Inr (0 # 0 # v, 0 # 0 # m))
      else if StrContains seg ''*'' then Inl (ErrWildcardPartial s)
      else if StrContains seg ''.'' then Inl (ErrWildcardV6Embedded s)
      else if seg = [] \<or> 4 < length seg then Inl (ErrWildcardV6Segment s)
      else (case ParseUint seg 16 16 of
              None \<Rightarrow> Inl (ErrWildcardV6Segment s)
            | Some n \<Rightarrow>
                (case wildcard_v6_segs s segs of
                   Inl e \<Rightarrow> Inl e
                 | Inr (v, m) \<Rightarrow>
                     Inr (of_nat (n div 256) # of_nat n # v, 255 # 255 # m))))"

definition parseWildcardV6 :: "string \<Rightarrow> pattern_error + pattern" where
  "parseWildcardV6 s =
     (if StrContains s ''::'' then Inl (ErrWildcardV6Ellipsis s)
      else
        (let segs = StrSplit (CHR '':'') s
         in if length segs \<noteq> 8 then Inl (ErrWildcardV6Count s)
            else (case wildcard_v6_segs s segs of
                    Inl e \<Rightarrow> Inl e
                  | Inr (v, m) \<Rightarrow> Inr (wildcard_pattern 16 v m s))))"

definition parseWildcard :: "string \<Rightarrow> pattern_error + pattern" where
  "parseWildcard s =
     (if StrContains s ''/'' then Inl (ErrWildcardSlash s)
      else if StrContains s '':'' then parseWildcardV6 s
      else parseWildcardV4 s)"

definition ParsePattern :: "string \<Rightarrow> pattern_error + pattern" where
  "ParsePattern raw =
     (let s = TrimSpace raw
      in if s = [] then Inl ErrEmptyIP
         else if StrContains s ''-'' then parseRange s
         else if StrContains s ''*'' then parseWildcard s
         else if StrContains s ''/'' then parseCIDR s
         else parseSingle s)"

definition ParsePatternLenient :: "string \<Rightarrow> pattern_error + pattern" where
  "ParsePatternLenient raw =
     (case ParsePattern raw of
        Inl (ErrRangeReversed t) \<Rightarrow>
          (case StrSplitN2 (CHR ''-'') (TrimSpace raw) of
             [l, r] \<Rightarrow> ParsePattern (TrimSpace r @ ''-'' @ TrimSpace l)
           | _ \<Rightarrow> Inl IndexPanic)
      | res \<Rightarrow> res)"

definition IsValidPattern :: "string \<Rightarrow> bool \<times> pattern_error option" where
  "IsValidPattern raw =
     (case ParsePattern raw of Inl e \<Rightarrow> (False, Some e) | Inr _ \<Rightarrow> (True, None))"

subsection \<open>Catch-all patterns and matching\<close>

definition patternCoversWholeSpace :: "pattern \<Rightarrow> bool" where
  "patternCoversWholeSpace p =
     (case p_Kind p of
        KindWildcard \<Rightarrow> p_Prefix p = 0
      | KindRange \<Rightarrow> list_all (\<lambda>b. b = 0) (p_Value p) \<and> list_all (\<lambda>b. b = 255) (p_End p)
      | _ \<Rightarrow> False)"

definition IsCatchAllWildcard :: "string \<Rightarrow> bool" where
  "IsCatchAllWildcard raw =
     (case ParsePattern raw of Inl _ \<Rightarrow> False | Inr p \<Rightarrow> patternCoversWholeSpace p)"

definition IsBlockAllPattern :: "string \<Rightarrow> bool" where
  "IsBlockAllPattern raw =
     (case ParsePattern raw of
        Inl _ \<Rightarrow> False
      | Inr p \<Rightarrow>
          if p_Kind p = KindCIDR \<and> p_Prefix p = 0 then True else patternCoversWholeSpace p)"

text \<open>The bytes of an address a pattern of some width is compared with: v4 and v6 stay apart.\<close>

definition family_bytes :: "nat \<Rightarrow> gobytes \<Rightarrow> gobytes option" where
  "family_bytes width ip =
     (case To4 ip of
        Some v4 \<Rightarrow> if width \<noteq> 4 then None else Some v4
      | None \<Rightarrow>
          (case To16 ip of None \<Rightarrow> None | Some v6 \<Rightarrow> if width \<noteq> 16 then None else Some v6))"

definition masked_match :: "nat \<Rightarrow> gobytes \<Rightarrow> gobytes \<Rightarrow> gobytes \<Rightarrow> bool" where
  "masked_match width b m v = list_all (\<lambda>i. b ! i AND m ! i = v ! i) [0..<width]"

definition Match :: "pattern \<Rightarrow> gobytes option \<Rightarrow> bool" where
  "Match p ip =
     (case ip of None \<Rightarrow> False
      | Some a \<Rightarrow>
          if p_Kind p = KindInvalid then False
          else
            (case family_bytes (p_Width p) a of None \<Rightarrow> False
             | Some b \<Rightarrow>
                 (case p_Kind p of
                    KindSingle \<Rightarrow> b = p_Value p
                  | KindCIDR \<Rightarrow> masked_match (p_Width p) b (p_Mask p) (p_Value p)
                  | KindWildcard \<Rightarrow> masked_match (p_Width p) b (p_Mask p) (p_Value p)
                  | KindRange \<Rightarrow>
                      0 \<le> bytes_Compare b (p_Value p) \<and> bytes_Compare b (p_End p) \<le> 0
                  | KindInvalid \<Rightarrow> False)))"

subsection \<open>The parse cache\<close>

definition patternCacheMax :: nat where
  "patternCacheMax = 4096"

record pattern_cache =
  pc_map :: "string \<rightharpoonup> pattern"
  pc_n :: nat

definition lookupPattern :: "pattern_cache \<Rightarrow> string \<Rightarrow> pattern \<times> pattern_cache" where
  "lookupPattern c raw =
     (case pc_map c raw of
        Some p \<Rightarrow> (p, c)
      | None \<Rightarrow>
          (let p = (case ParsePatternLenient raw of Inl _ \<Rightarrow> invalid_pattern raw | Inr p \<Rightarrow> p)
           in if pc_n c < patternCacheMax
              then (p, c\<lparr>pc_map := (pc_map c)(raw \<mapsto> p), pc_n := Suc (pc_n c)\<rparr>)
              else (p, c)))"

definition MatchPatternCached :: "pattern_cache \<Rightarrow> gobytes option \<Rightarrow> string \<Rightarrow> bool \<times> pattern_cache" where
  "MatchPatternCached c ip raw =
     (let (p, c') = lookupPattern c (TrimSpace raw) in (Match p ip, c'))"

definition MatchPatternStrCached :: "pattern_cache \<Rightarrow> string \<Rightarrow> string \<Rightarrow> bool \<times> pattern_cache" where
  "MatchPatternStrCached c ipStr raw =
     (case ParseIP (TrimSpace ipStr) of
        None \<Rightarrow> (False, c)
      | Some ip \<Rightarrow> MatchPatternCached c (Some ip) raw)"

subsection \<open>Masks\<close>

lemma mask_prefix_loop_True: "mask_prefix_loop bs n True = (if True \<in> set bs then -1 else int n)"
  by (induction bs arbitrary: n) auto

lemma mask_prefix_loop_False:
  "mask_prefix_loop bs n False =
     (if True \<in> set (dropWhile id bs) then -1 else int (n + length (takeWhile id bs)))"
  by (induction bs arbitrary: n) (auto simp: mask_prefix_loop_True)

lemma contiguous_nth:
  "True \<notin> set (dropWhile id bs) \<Longrightarrow> j < length bs \<Longrightarrow> bs ! j \<longleftrightarrow> j < length (takeWhile id bs)"
proof (induction bs arbitrary: j)
  case Nil
  then show ?case by simp
next
  case (Cons b bs)
  then show ?case
  proof (cases b)
    case True
    with Cons show ?thesis by (cases j) auto
  next
    case False
    with Cons.prems have "True \<notin> set (b # bs)" by simp
    with Cons.prems(2) have "\<not> (b # bs) ! j" by (metis (full_types) nth_mem)
    with False show ?thesis by simp
  qed
qed

lemma length_bits_of [simp]: "length (bits_of m) = 8 * length m"
  by (simp add: bits_of_def)

lemma bits_of_nth: "j < 8 * length m \<Longrightarrow> bits_of m ! j = bit_at m j"
  by (simp add: bits_of_def)

lemma maskPrefixLen_cases:
  obtains "maskPrefixLen m = -1"
  | n where "maskPrefixLen m = int n" "n \<le> 8 * length m"
      "\<And>j. j < 8 * length m \<Longrightarrow> bit_at m j \<longleftrightarrow> j < n"
proof (cases "True \<in> set (dropWhile id (bits_of m))")
  case True
  then show thesis using that(1) by (simp add: maskPrefixLen_def mask_prefix_loop_False)
next
  case False
  let ?n = "length (takeWhile id (bits_of m))"
  have "maskPrefixLen m = int ?n"
    using False by (simp add: maskPrefixLen_def mask_prefix_loop_False)
  moreover have "?n \<le> 8 * length m"
    using length_takeWhile_le [of id "bits_of m"] by simp
  moreover have "bit_at m j \<longleftrightarrow> j < ?n" if "j < 8 * length m" for j
    using contiguous_nth [OF False, of j] bits_of_nth that by simp
  ultimately show thesis by (rule that(2))
qed

lemma takeWhile_less_upt: "n \<le> K \<Longrightarrow> takeWhile id (map (\<lambda>j. j < n) [0..<K]) = replicate n True"
  and dropWhile_less_upt: "n \<le> K \<Longrightarrow> dropWhile id (map (\<lambda>j. j < n) [0..<K]) = replicate (K - n) False"
proof -
  assume le: "n \<le> K"
  have "map (\<lambda>j. j < n) [0..<K] = map (\<lambda>j. j < n) [0..<n] @ map (\<lambda>j. j < n) [n..<K]"
    using le by (metis map_append upt_add_eq_append zero_le le_add_diff_inverse)
  also have "map (\<lambda>j. j < n) [0..<n] = replicate n True"
    by (rule replicate_eqI) auto
  also have "map (\<lambda>j. j < n) [n..<K] = replicate (K - n) False"
    by (rule replicate_eqI) auto
  finally have eq: "map (\<lambda>j. j < n) [0..<K] = replicate n True @ replicate (K - n) False" .
  have nt: "takeWhile id (replicate (K - n) False) = []"
    and nd: "dropWhile id (replicate (K - n) False) = replicate (K - n) False"
    by (cases "K - n"; simp)+
  show "takeWhile id (map (\<lambda>j. j < n) [0..<K]) = replicate n True"
    unfolding eq by (subst takeWhile_append2) (auto simp: nt)
  show "dropWhile id (map (\<lambda>j. j < n) [0..<K]) = replicate (K - n) False"
    unfolding eq by (subst dropWhile_append2) (auto simp: nd)
qed

lemma bits_of_mask_bytes: "bits_of (mask_bytes n k) = map (\<lambda>j. j < n) [0..<8 * k]"
  by (simp add: bits_of_def bit_at_mask_bytes)

lemma Mask_Size_mask_bytes: "n \<le> 8 * k \<Longrightarrow> Mask_Size (mask_bytes n k) = (n, 8 * k)"
  by (simp add: Mask_Size_def bits_of_mask_bytes takeWhile_less_upt dropWhile_less_upt)

subsection \<open>The shape of a parsed pattern\<close>

fun kind_wf :: "pattern_kind \<Rightarrow> pattern \<Rightarrow> bool" where
  "kind_wf KindInvalid p \<longleftrightarrow> False"
| "kind_wf KindSingle p \<longleftrightarrow>
     p_Mask p = replicate (p_Width p) 255 \<and> p_Prefix p = int (8 * p_Width p) \<and>
     (p_Width p = 16 \<longrightarrow> To4 (p_Value p) = None)"
| "kind_wf KindCIDR p \<longleftrightarrow>
     0 \<le> p_Prefix p \<and> p_Prefix p \<le> int (8 * p_Width p) \<and>
     p_Mask p = mask_bytes (nat (p_Prefix p)) (p_Width p) \<and>
     and_bytes (p_Value p) (p_Mask p) = p_Value p"
| "kind_wf KindWildcard p \<longleftrightarrow>
     length (p_Mask p) = p_Width p \<and> p_Prefix p = maskPrefixLen (p_Mask p) \<and>
     and_bytes (p_Value p) (p_Mask p) = p_Value p"
| "kind_wf KindRange p \<longleftrightarrow>
     length (p_End p) = p_Width p \<and> be_val (p_Value p) < be_val (p_End p) \<and> p_Prefix p = -1"

definition pattern_wf :: "pattern \<Rightarrow> bool" where
  "pattern_wf p \<longleftrightarrow>
     (p_Width p = 4 \<or> p_Width p = 16) \<and> length (p_Value p) = p_Width p \<and> kind_wf (p_Kind p) p"

lemma normalizeIP_cases:
  assumes "length ip = 16"
  obtains v where "normalizeIP ip = (v, 4)" "length v = 4"
  | "normalizeIP ip = (ip, 16)" "To4 ip = None"
proof (cases "To4 ip")
  case None
  with assms show thesis by (intro that(2)) (auto simp: normalizeIP_def To16_def)
next
  case (Some v)
  then show thesis by (intro that(1) [of v]) (auto simp: normalizeIP_def dest: To4_length)
qed

lemma parseSingle_wf: "parseSingle s = Inr p \<Longrightarrow> pattern_wf p"
proof -
  assume p: "parseSingle s = Inr p"
  then obtain ip where ip: "ParseIP s = Some ip" by (auto simp: parseSingle_def split: option.splits)
  note len = ParseIP_length [OF ip]
  show ?thesis
    by (rule normalizeIP_cases [OF len])
       (use p ip len in \<open>auto simp: parseSingle_def single_pattern_def pattern_wf_def\<close>)
qed

lemma and_bytes_idem: "length m = length b \<Longrightarrow> and_bytes (and_bytes b m) m = and_bytes b m"
  by (auto simp: list_eq_iff_nth_eq and_bytes_nth)

lemma ParseCIDR_cases:
  assumes "ParseCIDR s = Some net"
  obtains b n w where "w = 4 \<or> w = 16" "length b = w" "n \<le> 8 * w"
    "net = \<lparr>net_IP = and_bytes b (mask_bytes n w), net_Mask = mask_bytes n w\<rparr>"
proof -
  from assms obtain addr a n i where
    a: "ParseAddr addr = Some a" and n: "n \<le> BitLen a"
    and i: "IP_Mask (As16 a) (CIDRMask n (BitLen a)) = Some i"
    and net: "net = \<lparr>net_IP = i, net_Mask = CIDRMask n (BitLen a)\<rparr>"
    by (auto simp: ParseCIDR_def Let_def not_less split: option.splits if_splits prod.splits)
  show thesis
  proof (cases a)
    case (Addr4 b)
    with a have "length b = 4" by (auto dest: ParseAddr_length)
    with Addr4 n i net show thesis
      by (intro that [of 4 b n]) (auto simp: IP_Mask_def CIDRMask_def Let_def split: if_splits)
  next
    case (Addr6 b)
    with a have "length b = 16" by (auto dest: ParseAddr_length)
    with Addr6 n i net show thesis
      by (intro that [of 16 b n]) (auto simp: IP_Mask_def CIDRMask_def Let_def split: if_splits)
  qed
qed

lemma parseCIDR_wf: "parseCIDR s = Inr p \<Longrightarrow> pattern_wf p"
proof -
  assume p: "parseCIDR s = Inr p"
  then obtain net where net: "ParseCIDR s = Some net"
    by (auto simp: parseCIDR_def split: option.splits)
  from ParseCIDR_cases [OF net] obtain b n w where w: "w = 4 \<or> w = 16" "length b = w" "n \<le> 8 * w"
    and neq: "net = \<lparr>net_IP = and_bytes b (mask_bytes n w), net_Mask = mask_bytes n w\<rparr>" .
  from p w show ?thesis
    by (auto simp: parseCIDR_def net neq Mask_Size_mask_bytes Let_def To4_def To16_def
          pattern_wf_def and_bytes_idem split: if_splits)
qed

lemma parseRange_wf: "parseRange s = Inr p \<Longrightarrow> pattern_wf p"
proof -
  assume p: "parseRange s = Inr p"
  then obtain l r ipA ipB where ips: "StrSplitN2 (CHR ''-'') s = [l, r]"
    "ParseIP (TrimSpace l) = Some ipA" "ParseIP (TrimSpace r) = Some ipB"
    by (auto simp: parseRange_def Let_def split: list.splits option.splits if_splits)
  note len = ParseIP_length [OF ips(2)] ParseIP_length [OF ips(3)]
  show ?thesis
    by (rule normalizeIP_cases [OF len(1)]; rule normalizeIP_cases [OF len(2)])
       (use p ips len in \<open>auto simp: parseRange_def Let_def single_pattern_def pattern_wf_def
          bytes_Compare_eq_1 bytes_Compare_eq_0 be_val_inject order.order_iff_strict not_less
          split: if_splits\<close>)
qed

lemma and_255 [simp]: "(x :: gobyte) AND 255 = x"
proof -
  have "(255 :: gobyte) = -1" by simp
  then show ?thesis by (metis and.right_neutral)
qed

lemma wildcard_v4_segs_wf:
  "wildcard_v4_segs s segs = Inr (v, m) \<Longrightarrow>
   length v = length segs \<and> length m = length segs \<and> and_bytes v m = v"
  by (induction segs arbitrary: v m)
     (auto simp: and_bytes_def split: if_splits sum.splits option.splits)

lemma wildcard_v6_segs_wf:
  "wildcard_v6_segs s segs = Inr (v, m) \<Longrightarrow>
   length v = 2 * length segs \<and> length m = 2 * length segs \<and> and_bytes v m = v"
  by (induction segs arbitrary: v m)
     (auto simp: and_bytes_def split: if_splits sum.splits option.splits)

lemma parseWildcard_wf: "parseWildcard s = Inr p \<Longrightarrow> pattern_wf p"
  by (auto simp: parseWildcard_def parseWildcardV4_def parseWildcardV6_def Let_def
        wildcard_pattern_def pattern_wf_def dest!: wildcard_v4_segs_wf wildcard_v6_segs_wf
        split: if_splits sum.splits)

lemmas parse_branch_wf = parseSingle_wf parseCIDR_wf parseRange_wf parseWildcard_wf

lemma ParsePattern_wf_aux: "ParsePattern raw = Inr p \<Longrightarrow> pattern_wf p"
  by (auto simp: ParsePattern_def Let_def intro: parse_branch_wf split: if_splits)

lemma ParsePatternLenient_wf: "ParsePatternLenient raw = Inr p \<Longrightarrow> pattern_wf p"
  by (auto simp: ParsePatternLenient_def intro: ParsePattern_wf_aux
        split: sum.splits pattern_error.splits list.splits)


subsection \<open>What a pattern covers\<close>

text \<open>
  The specification of matching: the set of addresses (as bytes of the pattern's width) a pattern
  stands for, in terms of prefixes and of the order of addresses as numbers.
\<close>

definition covers :: "pattern \<Rightarrow> gobytes \<Rightarrow> bool" where
  "covers p b \<longleftrightarrow>
     (case p_Kind p of
        KindInvalid \<Rightarrow> False
      | KindSingle \<Rightarrow> b = p_Value p
      | KindCIDR \<Rightarrow> same_prefix (nat (p_Prefix p)) (p_Value p) b
      | KindWildcard \<Rightarrow> and_bytes b (p_Mask p) = p_Value p
      | KindRange \<Rightarrow> be_val (p_Value p) \<le> be_val b \<and> be_val b \<le> be_val (p_End p))"

lemma family_bytes_length: "family_bytes w ip = Some b \<Longrightarrow> length b = w"
  by (auto simp: family_bytes_def dest: To4_length To16_length split: option.splits if_splits)

lemma masked_match_iff:
  "length b = w \<Longrightarrow> length m = w \<Longrightarrow> length v = w \<Longrightarrow>
   masked_match w b m v \<longleftrightarrow> and_bytes b m = v"
proof -
  assume len: "length b = w" "length m = w" "length v = w"
  have "masked_match w b m v \<longleftrightarrow> (\<forall>i<w. and_bytes b m ! i = v ! i)"
    using len by (simp add: masked_match_def list_all_iff and_bytes_nth Ball_def)
  also have "\<dots> \<longleftrightarrow> and_bytes b m = v"
    using list_eq_iff_nth_eq [of "and_bytes b m" v] len by simp
  finally show ?thesis .
qed

lemma cidr_mask_iff_prefix:
  assumes "length b = w" "length v = w" "n \<le> 8 * w" "and_bytes v (mask_bytes n w) = v"
  shows "and_bytes b (mask_bytes n w) = v \<longleftrightarrow> same_prefix n v b"
proof (rule masked_eq_iff_same_prefix)
  show "bit_at (mask_bytes n w) j \<longleftrightarrow> j < n" if "j < 8 * length v" for j
    using that assms(2) by (simp add: bit_at_mask_bytes)
qed (use assms in simp_all)

lemma Match_covers:
  assumes "pattern_wf p"
  shows "Match p (Some ip) \<longleftrightarrow> (\<exists>b. family_bytes (p_Width p) ip = Some b \<and> covers p b)"
proof (cases "family_bytes (p_Width p) ip")
  case None
  then show ?thesis by (simp add: Match_def)
next
  case (Some b)
  note len = family_bytes_length [OF Some]
  show ?thesis
  proof (cases "p_Kind p")
    case KindCIDR
    with assms have "masked_match (p_Width p) b (p_Mask p) (p_Value p) =
        same_prefix (nat (p_Prefix p)) (p_Value p) b"
      using cidr_mask_iff_prefix [of b "p_Width p" "p_Value p" "nat (p_Prefix p)"] len
      by (auto simp: pattern_wf_def masked_match_iff)
    with KindCIDR Some show ?thesis by (simp add: Match_def covers_def)
  qed (use assms Some len in \<open>auto simp: Match_def covers_def pattern_wf_def masked_match_iff
         bytes_Compare_le_0 bytes_Compare_ge_0\<close>)
qed

subsection \<open>Catch-all patterns\<close>

abbreviation covers_family :: "pattern \<Rightarrow> bool" where
  "covers_family p \<equiv> (\<forall>ip b. family_bytes (p_Width p) ip = Some b \<longrightarrow> Match p (Some ip))"

lemma extreme_addresses:
  assumes "w = 4 \<or> w = 16"
  shows "family_bytes w (replicate w 0) = Some (replicate w 0)"
    and "family_bytes w (replicate w 255) = Some (replicate w 255)"
proof -
  have "replicate 12 b \<noteq> v4InV6Prefix" if "b = 0 \<or> b = 255" for b :: gobyte
  proof
    assume "replicate 12 b = v4InV6Prefix"
    moreover have "replicate 12 b ! 0 = replicate 12 b ! 10" by simp
    ultimately show False by (simp add: v4InV6Prefix_def)
  qed
  then show "family_bytes w (replicate w 0) = Some (replicate w 0)"
    "family_bytes w (replicate w 255) = Some (replicate w 255)"
    using assms by (auto simp: family_bytes_def To4_def To16_def)
qed

lemma bit_at_replicate:
  "j < 8 * w \<Longrightarrow> \<not> bit_at (replicate w 0) j" "j < 8 * w \<Longrightarrow> bit_at (replicate w 255) j"
proof -
  assume j: "j < 8 * w"
  then have "j div 8 < w" by (simp add: less_mult_imp_div_less mult.commute)
  moreover have "bit (255 :: gobyte) (7 - j mod 8)"
    using ones_byte [of "7 - j mod 8"] by simp
  ultimately show "\<not> bit_at (replicate w 0) j" "bit_at (replicate w 255) j"
    by (auto simp: bit_at_def)
qed

lemma be_val_replicate_255: "be_val (replicate w 255) = 256 ^ w - 1"
proof -
  have "be_val (replicate w 255) + 1 = 256 ^ w" by (induction w) auto
  then show ?thesis by simp
qed

lemma be_val_max_iff: "256 ^ length bs \<le> Suc (be_val bs) \<longleftrightarrow> (\<forall>b \<in> set bs. b = 255)"
proof
  assume "256 ^ length bs \<le> Suc (be_val bs)"
  with be_val_lt [of bs] have "be_val bs = be_val (replicate (length bs) 255)"
    unfolding be_val_replicate_255 by simp
  then have "bs = replicate (length bs) 255" by (subst (asm) be_val_inject) simp_all
  then show "\<forall>b \<in> set bs. b = 255" by (metis in_set_replicate)
next
  assume "\<forall>b \<in> set bs. b = 255"
  then have "bs = replicate (length bs) 255" by (simp add: replicate_eqI)
  then show "256 ^ length bs \<le> Suc (be_val bs)" by (metis be_val_replicate_255 diff_Suc_1' Suc_pred
    le_refl length_replicate One_nat_def zero_less_numeral zero_less_power)
qed

lemma covers_extremes:
  assumes "pattern_wf p"
  shows "covers p (replicate (p_Width p) 0) \<and> covers p (replicate (p_Width p) 255) \<longleftrightarrow>
         p_Kind p = KindCIDR \<and> p_Prefix p = 0 \<or> patternCoversWholeSpace p"
proof (cases "p_Kind p")
  case KindInvalid
  with assms show ?thesis by (simp add: pattern_wf_def)
next
  case KindSingle
  from assms have "replicate (p_Width p) (0 :: gobyte) \<noteq> replicate (p_Width p) 255"
    by (auto simp: pattern_wf_def)
  with KindSingle show ?thesis
    by (simp add: covers_def patternCoversWholeSpace_def del: replicate_eq_replicate) metis
next
  case KindCIDR
  let ?n = "nat (p_Prefix p)"
  have "\<not> (same_prefix ?n v (replicate (p_Width p) 0) \<and> same_prefix ?n v (replicate (p_Width p) 255))"
    if "0 < ?n" for v
  proof -
    from assms have "0 < 8 * p_Width p" by (auto simp: pattern_wf_def)
    from bit_at_replicate [OF this] that show ?thesis by (metis same_prefix_def)
  qed
  moreover from KindCIDR assms have "0 \<le> p_Prefix p" by (simp add: pattern_wf_def)
  ultimately show ?thesis
    using KindCIDR by (cases "p_Prefix p = 0") (simp_all add: covers_def patternCoversWholeSpace_def)
next
  case KindWildcard
  let ?w = "p_Width p" and ?m = "p_Mask p"
  from assms KindWildcard have wf: "length ?m = ?w" "p_Prefix p = maskPrefixLen ?m"
    "length (p_Value p) = ?w" "and_bytes (p_Value p) ?m = p_Value p" "0 < ?w"
    by (auto simp: pattern_wf_def)
  have bits: "and_bytes (replicate ?w 0) ?m = p_Value p \<and> and_bytes (replicate ?w 255) ?m = p_Value p
     \<longleftrightarrow> (\<forall>j < 8 * ?w. \<not> bit_at ?m j)"
    using wf(1,3,4) bit_at_and_bytes [of _ ?m] bit_at_replicate [of _ ?w]
      bit_at_and_bytes [of "p_Value p" ?m]
    by (auto simp: bytes_eq_iff_bits)
  have "(\<forall>j < 8 * ?w. \<not> bit_at ?m j) \<longleftrightarrow> maskPrefixLen ?m = 0"
  proof (cases ?m rule: maskPrefixLen_cases)
    case 1
    then have "True \<in> set (bits_of ?m)"
      by (auto simp: maskPrefixLen_def mask_prefix_loop_False split: if_splits dest: set_dropWhileD)
    then obtain j where "j < 8 * ?w" "bit_at ?m j" using wf(1) by (auto simp: bits_of_def)
    with 1 show ?thesis by auto
  next
    case (2 n)
    then have "(\<forall>j < 8 * ?w. \<not> bit_at ?m j) \<longleftrightarrow> (\<forall>j < 8 * ?w. \<not> j < n)" using wf(1) by simp
    also have "\<dots> \<longleftrightarrow> n = 0" using wf(5) by (metis gr0I mult_pos_pos not_less0 zero_less_numeral)
    finally show ?thesis using 2 by simp
  qed
  with bits KindWildcard wf(2) show ?thesis by (simp add: covers_def patternCoversWholeSpace_def)
next
  case KindRange
  with assms have "256 ^ p_Width p - 1 \<le> be_val (p_End p) \<longleftrightarrow> (\<forall>b \<in> set (p_End p). b = 255)"
    using be_val_max_iff [of "p_End p"] by (auto simp: pattern_wf_def)
  moreover have "be_val (p_Value p) \<le> 256 ^ p_Width p - 1"
    using assms be_val_lt [of "p_Value p"] by (auto simp: pattern_wf_def)
  ultimately show ?thesis
    using KindRange
    by (auto simp: covers_def patternCoversWholeSpace_def be_val_replicate_255 list_all_iff
          be_val_0_iff)
qed

lemma covers_whole_space:
  assumes "pattern_wf p" "p_Kind p = KindCIDR \<and> p_Prefix p = 0 \<or> patternCoversWholeSpace p"
    "length b = p_Width p"
  shows "covers p b"
proof (cases "p_Kind p")
  case KindWildcard
  let ?m = "p_Mask p"
  from assms KindWildcard have wf: "length ?m = p_Width p" "maskPrefixLen ?m = 0"
    "length (p_Value p) = p_Width p" "and_bytes (p_Value p) ?m = p_Value p"
    by (auto simp: pattern_wf_def patternCoversWholeSpace_def)
  have "\<And>j. j < 8 * length ?m \<Longrightarrow> \<not> bit_at ?m j"
    using wf(2) by (cases ?m rule: maskPrefixLen_cases) auto
  then have "and_bytes b ?m = p_Value p \<longleftrightarrow> same_prefix 0 (p_Value p) b"
    using wf assms(3) by (intro masked_eq_iff_same_prefix) auto
  with KindWildcard show ?thesis by (simp add: covers_def)
next
  case KindRange
  with assms have "be_val (p_Value p) = 0" "256 ^ length b \<le> Suc (be_val (p_End p))"
    using be_val_max_iff [of "p_End p"]
    by (auto simp: pattern_wf_def patternCoversWholeSpace_def be_val_0_iff list_all_iff)
  with KindRange be_val_lt [of b] show ?thesis by (auto simp: covers_def)
qed (use assms in \<open>auto simp: covers_def patternCoversWholeSpace_def\<close>)

lemma covers_family_iff:
  assumes "pattern_wf p"
  shows "covers_family p \<longleftrightarrow> p_Kind p = KindCIDR \<and> p_Prefix p = 0 \<or> patternCoversWholeSpace p"
proof
  from assms have w: "p_Width p = 4 \<or> p_Width p = 16" by (simp add: pattern_wf_def)
  assume "covers_family p"
  with extreme_addresses [OF w] have "covers p (replicate (p_Width p) 0)"
    "covers p (replicate (p_Width p) 255)"
    using Match_covers [OF assms] by (metis option.inject)+
  with covers_extremes [OF assms]
  show "p_Kind p = KindCIDR \<and> p_Prefix p = 0 \<or> patternCoversWholeSpace p" by blast
next
  assume "p_Kind p = KindCIDR \<and> p_Prefix p = 0 \<or> patternCoversWholeSpace p"
  with covers_whole_space [OF assms] Match_covers [OF assms] family_bytes_length
  show "covers_family p" by blast
qed

subsection \<open>Addresses as text\<close>

text \<open>An address that parses is made of hexadecimal digits, dots and colons.\<close>

definition addr_char :: "char \<Rightarrow> bool" where
  "addr_char c \<longleftrightarrow> is_hex c \<or> c = CHR ''.'' \<or> c = CHR '':''"

lemma is_digit_hex: "is_digit c \<Longrightarrow> is_hex c"
  by (auto simp: is_digit_def is_hex_def digit_val_def Let_def)

lemma ipv4_fields_chars: "ipv4_fields p v d acc s = Some r \<Longrightarrow> list_all addr_char s"
  by (induction p v d acc s rule: ipv4_fields.induct)
     (auto simp: Let_def addr_char_def is_digit_hex split: if_splits)

lemma list_all_split_hex:
  "list_all addr_char (dropWhile is_hex s) \<Longrightarrow> list_all addr_char s"
  by (induction s) (auto simp: addr_char_def split: if_splits)

lemma ipv6_loop_chars:
  "ipv6_loop ell acc s = Some (acc', ell', []) \<Longrightarrow> list_all addr_char s"
proof (induction "16 - length acc" arbitrary: ell acc s rule: less_induct)
  case less
  show ?case
  proof (cases "16 \<le> length acc")
    case True
    with less.prems show ?thesis by (simp add: ipv6_loop.simps)
  next
    case False
    have rec: "list_all addr_char r"
      if "ipv6_loop e (acc @ hex_group d) r = Some (acc', ell', [])" for e d r
      using less.hyps [of "acc @ hex_group d" e r] that False by simp
    have tl: "list_all addr_char r"
      if "ipv6_loop e (acc @ hex_group d) (tl r) = Some (acc', ell', [])" "hd r = CHR '':''" "r \<noteq> []"
      for e d r
      using rec [OF that(1)] that(2,3) by (cases r) (auto simp: addr_char_def)
    have one: "list_all addr_char r" if "tl r = []" "hd r = CHR '':''" for r :: string
      using that by (cases r) (auto simp: addr_char_def)
    have all: "list_all addr_char (dropWhile is_hex s)" if "\<forall>x\<in>set s. is_hex x"
      using that by (simp add: dropWhile_eq_Nil_conv [THEN iffD2])
    have "list_all addr_char (dropWhile is_hex s) \<or> (\<exists>f. parseIPv4 s = Some f)"
      using less.prems False
      by (subst (asm) ipv6_loop.simps)
         (auto simp: Let_def addr_char_def [of "CHR '':''"] split: if_splits list.splits option.splits
            dest: rec tl one all)
    then show ?thesis
      by (auto simp: parseIPv4_def dest: ipv4_fields_chars intro: list_all_split_hex)
  qed
qed

lemma ParseIP_chars: "ParseIP s = Some ip \<Longrightarrow> list_all addr_char s"
proof -
  assume "ParseIP s = Some ip"
  then consider b where "parseIPv4 s = Some b" | b where "parseIPv6 s = Some b"
    by (auto simp: ParseIP_def ParseAddr_def split: option.splits if_splits)
  then show ?thesis
  proof cases
    case 1
    then show ?thesis by (simp add: parseIPv4_def ipv4_fields_chars)
  next
    case 2
    have drop: "list_all addr_char s" if "list_all addr_char (drop 2 s)" "HasPrefix s ''::''"
    proof -
      from that(2) obtain u where "s = ''::'' @ u" by (auto simp: HasPrefix_iff prefix_def)
      with that(1) show ?thesis by (simp add: addr_char_def)
    qed
    have "HasPrefix s ''::'' \<Longrightarrow> length s = 2 \<Longrightarrow> drop 2 s = []" by simp
    with 2 drop show ?thesis
      by (auto simp: parseIPv6_def ipv6_finish_def Option.bind_eq_Some_conv
          dest!: ipv6_loop_chars split: if_splits prod.splits option.splits)
  qed
qed

lemma addr_char_plain: "addr_char c \<Longrightarrow> c \<noteq> CHR ''-'' \<and> char_code c < 128 \<and> \<not> ascii_space (char_code c)"
  by (auto simp: addr_char_def is_hex_def digit_val_def Let_def ascii_space_def
      split: if_splits option.splits)

text \<open>Text of plain ASCII characters without blanks is its own trimmed form.\<close>

definition plain_char :: "char \<Rightarrow> bool" where
  "plain_char c \<longleftrightarrow> char_code c < 128 \<and> \<not> ascii_space (char_code c)"

lemma space_len_plain: "plain_char c \<Longrightarrow> space_len (char_code c # ns) = 0"
  by (cases ns; cases "tl ns") (auto simp: plain_char_def)

lemma space_len_rev_plain: "plain_char c \<Longrightarrow> space_len_rev (char_code c # ns) = 0"
  by (cases ns; cases "tl ns") (auto simp: plain_char_def split: if_splits)

lemma trim_by_plain:
  "list_all plain_char s \<Longrightarrow> trim_by space_len s = s"
  "list_all plain_char s \<Longrightarrow> trim_by space_len_rev s = s"
  by (subst trim_by.simps, cases s, simp_all add: space_len_plain space_len_rev_plain)+

lemma TrimSpace_plain: "list_all plain_char s \<Longrightarrow> TrimSpace s = s"
  by (simp add: TrimSpace_def trim_by_plain list_all_rev)

lemma addr_text_plain: "list_all addr_char s \<Longrightarrow> list_all plain_char s"
  by (auto simp: list_all_iff plain_char_def dest: addr_char_plain)

subsection \<open>The lenient parser\<close>

lemma ParsePattern_range:
  assumes "StrCut (CHR ''-'') (TrimSpace raw) = Some (l, r)"
  shows "ParsePattern raw = parseRange (TrimSpace raw)"
proof -
  from StrCut_SomeD [OF assms] have "CHR ''-'' \<in> set (TrimSpace raw)" by simp
  then have "TrimSpace raw \<noteq> [] \<and> StrContains (TrimSpace raw) ''-''"
    by (auto simp: StrContains_single)
  then show ?thesis by (simp add: ParsePattern_def)
qed

lemma addr_no_star_slash: "list_all addr_char s \<Longrightarrow> \<not> ContainsAny s ''*/''"
  by (auto simp: ContainsAny_def list_all_iff list_ex_iff addr_char_def is_hex_def digit_val_def)

lemma parseRange_ips:
  assumes "StrCut (CHR ''-'') s = Some (l, r)"
    "ParseIP (TrimSpace l) = Some a" "ParseIP (TrimSpace r) = Some b"
    "normalizeIP a = (va, w)" "normalizeIP b = (vb, w)"
  shows "parseRange s =
    (if be_val vb < be_val va then Inl (ErrRangeReversed s)
     else if va = vb then Inr (single_pattern va w s)
     else Inr \<lparr>p_Kind = KindRange, p_Width = w, p_Value = va, p_Mask = [], p_End = vb,
               p_Prefix = -1, p_Raw = s\<rparr>)"
proof -
  have "length va = w" "length vb = w"
    using normalizeIP_cases [OF ParseIP_length [OF assms(2)]]
      normalizeIP_cases [OF ParseIP_length [OF assms(3)]] assms(4,5)
      ParseIP_length [OF assms(2)] ParseIP_length [OF assms(3)] by (metis prod.inject)+
  then have "length va = length vb" by simp
  then show ?thesis
    using assms addr_no_star_slash [OF ParseIP_chars [OF assms(2)]]
      addr_no_star_slash [OF ParseIP_chars [OF assms(3)]]
    by (auto simp: parseRange_def StrSplitN2_def bytes_Compare_eq_1 bytes_Compare_eq_0)
qed

lemma lenient_of_reversed:
  assumes cut: "StrCut (CHR ''-'') (TrimSpace raw) = Some (l, r)"
    and ips: "ParseIP (TrimSpace l) = Some a" "ParseIP (TrimSpace r) = Some b"
    and nrm: "normalizeIP a = (va, w)" "normalizeIP b = (vb, w)"
    and rev: "be_val vb < be_val va"
  shows "ParsePatternLenient raw =
    Inr \<lparr>p_Kind = KindRange, p_Width = w, p_Value = vb, p_Mask = [], p_End = va, p_Prefix = -1,
         p_Raw = TrimSpace r @ ''-'' @ TrimSpace l\<rparr>"
proof -
  let ?t = "TrimSpace r @ ''-'' @ TrimSpace l"
  note chars = ParseIP_chars [OF ips(1)] ParseIP_chars [OF ips(2)]
  have plain: "list_all plain_char ?t"
    using addr_text_plain [OF chars(1)] addr_text_plain [OF chars(2)]
    by (simp add: plain_char_def ascii_space_def)
  have t: "TrimSpace ?t = ?t" by (rule TrimSpace_plain [OF plain])
  have trims: "TrimSpace (TrimSpace l) = TrimSpace l" "TrimSpace (TrimSpace r) = TrimSpace r"
    using chars addr_text_plain TrimSpace_plain by blast+
  have "CHR ''-'' \<notin> set (TrimSpace r)"
    using chars(2) addr_char_plain by (auto simp: list_all_iff)
  then have cut': "StrCut (CHR ''-'') ?t = Some (TrimSpace r, TrimSpace l)"
    by (simp add: StrCut_append)
  have "ParsePattern raw = Inl (ErrRangeReversed (TrimSpace raw))"
    using ParsePattern_range [OF cut] parseRange_ips [OF cut ips nrm] rev by simp
  moreover have "ParsePattern ?t =
      Inr \<lparr>p_Kind = KindRange, p_Width = w, p_Value = vb, p_Mask = [], p_End = va, p_Prefix = -1,
           p_Raw = ?t\<rparr>"
    using ParsePattern_range [of ?t] parseRange_ips [of ?t "TrimSpace r" "TrimSpace l" b a vb w va]
      cut' t ips nrm rev trims by auto
  ultimately show ?thesis using cut by (simp add: ParsePatternLenient_def StrSplitN2_def)
qed

subsection \<open>The parse cache\<close>

definition cached_pattern :: "string \<Rightarrow> pattern" where
  "cached_pattern raw = (case ParsePatternLenient raw of Inl _ \<Rightarrow> invalid_pattern raw | Inr p \<Rightarrow> p)"

definition cache_ok :: "pattern_cache \<Rightarrow> bool" where
  "cache_ok c \<longleftrightarrow>
     (\<forall>raw p. pc_map c raw = Some p \<longrightarrow> p = cached_pattern raw) \<and>
     finite (dom (pc_map c)) \<and> card (dom (pc_map c)) = pc_n c \<and> pc_n c \<le> patternCacheMax"

lemma Match_cached_pattern:
  "Match (cached_pattern raw) ip \<longleftrightarrow> (\<exists>p. ParsePatternLenient raw = Inr p \<and> Match p ip)"
  by (cases "ParsePatternLenient raw"; cases ip)
     (auto simp: cached_pattern_def invalid_pattern_def Match_def)

lemma lookupPattern_ok:
  assumes "cache_ok c" "lookupPattern c raw = (p, c')"
  shows "p = cached_pattern raw \<and> cache_ok c'"
proof (cases "pc_map c raw")
  case None
  with assms have p: "p = cached_pattern raw"
    and c': "c' = (if pc_n c < patternCacheMax
      then c\<lparr>pc_map := (pc_map c)(raw \<mapsto> p), pc_n := Suc (pc_n c)\<rparr> else c)"
    by (auto simp: lookupPattern_def cached_pattern_def Let_def split: if_splits)
  from None have "raw \<notin> dom (pc_map c)" by auto
  with assms(1) p c' show ?thesis by (auto simp: cache_ok_def)
next
  case (Some q)
  with assms show ?thesis by (auto simp: lookupPattern_def cache_ok_def)
qed

lemmas [ipset_simps] =
  ParsePattern_def ParsePatternLenient_def parseSingle_def parseCIDR_def parseRange_def
  parseWildcard_def parseWildcardV4_def parseWildcardV6_def normalizeIP_def single_pattern_def
  wildcard_pattern_def Mask_Size_mask_bytes

subsection \<open>Properties\<close>

text \<open>
  Every pattern the strict parser returns has width 4 or 16, a value of that width and, by
  kind: a full mask (single address), the mask of its prefix length and a value already masked
  (CIDR), a mask of that width with the prefix length computed from it and a value already
  masked (wildcard), or a start strictly below its end (range).
\<close>

theorem ParsePattern_wf:
  assumes "ParsePattern raw = Inr p"
  shows "pattern_wf p"
  using assms by (rule ParsePattern_wf_aux)

theorem ParsePattern_wf_witness:
  "\<exists>p. ParsePattern ''10.*.1.*'' = Inr p \<and> pattern_wf p"
proof -
  obtain p where "ParsePattern ''10.*.1.*'' = Inr p"
    by (simp add: ipset_simps go_net_simps go_str_simps)
  with ParsePattern_wf [OF this] show ?thesis by blast
qed

text \<open>
  A stored range whose ends are in reverse order is refused by the strict parser and read by
  the lenient parser as the range between the two addresses, lower end first: it keeps its
  intended effect.
\<close>

theorem ParsePatternLenient_reversed:
  assumes "StrSplitN2 (CHR ''-'') (TrimSpace raw) = [l, r]"
    and "ParseIP (TrimSpace l) = Some a" "ParseIP (TrimSpace r) = Some b"
    and "normalizeIP a = (va, w)" "normalizeIP b = (vb, w)" "be_val vb < be_val va"
  shows "ParsePattern raw = Inl (ErrRangeReversed (TrimSpace raw)) \<and>
         (\<exists>p. ParsePatternLenient raw = Inr p \<and> p_Kind p = KindRange \<and>
              (\<forall>ip. Match p (Some ip) \<longleftrightarrow>
                 (\<exists>x. family_bytes w ip = Some x \<and> be_val vb \<le> be_val x \<and> be_val x \<le> be_val va)))"
proof -
  from assms(1) have cut: "StrCut (CHR ''-'') (TrimSpace raw) = Some (l, r)"
    by (auto simp: StrSplitN2_def split: option.splits)
  have "ParsePattern raw = Inl (ErrRangeReversed (TrimSpace raw))"
    using ParsePattern_range [OF cut] parseRange_ips [OF cut assms(2-5)] assms(6) by simp
  moreover note len = lenient_of_reversed [OF cut assms(2-6)]
  ultimately show ?thesis
    using Match_covers [OF ParsePatternLenient_wf [OF len]] by (simp add: covers_def)
qed

theorem ParsePatternLenient_reversed_witness:
  "ParsePattern ''1.2.3.9-1.2.3.4'' = Inl (ErrRangeReversed ''1.2.3.9-1.2.3.4'') \<and>
   (\<exists>p. ParsePatternLenient ''1.2.3.9-1.2.3.4'' = Inr p \<and> Match p (Some [1, 2, 3, 7]))"
proof -
  have trim: "TrimSpace ''1.2.3.9-1.2.3.4'' = ''1.2.3.9-1.2.3.4''" "TrimSpace ''1.2.3.9'' = ''1.2.3.9''"
    "TrimSpace ''1.2.3.4'' = ''1.2.3.4''"
    by (simp_all add: go_str_simps)
  have ips: "ParseIP ''1.2.3.9'' = Some (v4InV6Prefix @ [1, 2, 3, 9])"
    "ParseIP ''1.2.3.4'' = Some (v4InV6Prefix @ [1, 2, 3, 4])"
    by (simp_all add: ParseIP_def ParseAddr_def parseIPv4_def go_str_simps)
  have split: "StrSplitN2 (CHR ''-'') (TrimSpace ''1.2.3.9-1.2.3.4'') = [''1.2.3.9'', ''1.2.3.4'']"
    unfolding trim by (simp add: StrSplitN2_def)
  show ?thesis
    using ParsePatternLenient_reversed [OF split, unfolded trim, OF ips,
        of "[1, 2, 3, 9]" 4 "[1, 2, 3, 4]"]
    by (auto simp: normalizeIP_def To4_def family_bytes_def dest!: spec [of _ "[1, 2, 3, 7]"])
qed

text \<open>
  \<open>IsBlockAllPattern\<close> is true exactly for the patterns that parse and match every address of
  their family, so a deny entry that would lock out everyone is always refused and no other
  entry is.
\<close>

theorem IsBlockAllPattern_iff:
  "IsBlockAllPattern raw \<longleftrightarrow>
     (\<exists>p. ParsePattern raw = Inr p \<and>
          (\<forall>ip b. family_bytes (p_Width p) ip = Some b \<longrightarrow> Match p (Some ip)))"
  using covers_family_iff [OF ParsePattern_wf_aux [of raw]]
  by (auto simp: IsBlockAllPattern_def split: sum.splits)

theorem IsBlockAllPattern_iff_witness:
  "IsBlockAllPattern ''*.*.*.*'' \<and> (\<exists>p. ParsePattern ''*.*.*.*'' = Inr p \<and> Match p (Some [9, 8, 7, 6]))"
proof -
  obtain p where p: "ParsePattern ''*.*.*.*'' = Inr p" and w: "p_Width p = 4"
    and all: "patternCoversWholeSpace p"
    by (simp add: ipset_simps go_net_simps go_str_simps patternCoversWholeSpace_def
        maskPrefixLen_def bits_of_def bit_at_def upt_rec)
  then have "IsBlockAllPattern ''*.*.*.*''" by (simp add: IsBlockAllPattern_def)
  with IsBlockAllPattern_iff [of "''*.*.*.*''"] p w
  show ?thesis by (auto simp: family_bytes_def To4_def dest!: spec [of _ "[9, 8, 7, 6]"])
qed

lemma ParsePattern_trim: "ParsePattern (TrimSpace raw) = ParsePattern raw"
  by (simp add: ParsePattern_def)

lemma ParsePatternLenient_trim: "ParsePatternLenient (TrimSpace raw) = ParsePatternLenient raw"
  unfolding ParsePatternLenient_def ParsePattern_trim TrimSpace_idem ..

lemma MatchPatternStrCached_ok:
  assumes "cache_ok c" "MatchPatternStrCached c ipStr raw = (m, c')"
  shows "(m \<longleftrightarrow> (\<exists>ip p. ParseIP (TrimSpace ipStr) = Some ip \<and>
                      ParsePatternLenient (TrimSpace raw) = Inr p \<and> Match p (Some ip))) \<and>
         cache_ok c'"
proof (cases "ParseIP (TrimSpace ipStr)")
  case None
  with assms show ?thesis by (auto simp: MatchPatternStrCached_def)
next
  case (Some ip)
  with assms(2) obtain p where l: "lookupPattern c (TrimSpace raw) = (p, c')" "m = Match p (Some ip)"
    by (auto simp: MatchPatternStrCached_def MatchPatternCached_def split: prod.splits)
  from lookupPattern_ok [OF assms(1) l(1)] l(2) Some show ?thesis
    by (simp add: Match_cached_pattern)
qed

text \<open>
  The parse cache is invisible: from a cache whose entries are parse results, a cached match
  answers what parsing the expression afresh answers, the cache stays of that kind and never
  holds more than \<open>patternCacheMax\<close> expressions.
\<close>

theorem MatchPatternStrCached_correct:
  assumes "cache_ok c" "MatchPatternStrCached c ipStr raw = (m, c')"
  shows "(m \<longleftrightarrow> (\<exists>ip p. ParseIP (TrimSpace ipStr) = Some ip \<and>
                      ParsePatternLenient (TrimSpace raw) = Inr p \<and> Match p (Some ip))) \<and>
         cache_ok c'"
  using assms by (rule MatchPatternStrCached_ok)

theorem MatchPatternStrCached_correct_witness:
  "\<exists>c'. MatchPatternStrCached \<lparr>pc_map = Map.empty, pc_n = 0\<rparr> ''10.9.1.7'' ''10.*.1.*'' = (True, c') \<and>
        cache_ok c'"
proof -
  let ?c = "\<lparr>pc_map = Map.empty, pc_n = 0\<rparr> :: pattern_cache"
  have ok: "cache_ok ?c" by (simp add: cache_ok_def)
  obtain m c' where r: "MatchPatternStrCached ?c ''10.9.1.7'' ''10.*.1.*'' = (m, c')" by fastforce
  have ip: "ParseIP (TrimSpace ''10.9.1.7'') = Some (v4InV6Prefix @ [10, 9, 1, 7])"
    by (simp add: ParseIP_def ParseAddr_def parseIPv4_def go_str_simps)
  have p: "ParsePatternLenient (TrimSpace ''10.*.1.*'') =
      Inr (wildcard_pattern 4 [10, 0, 1, 0] [255, 0, 255, 0] ''10.*.1.*'')"
    by (simp add: ipset_simps go_str_simps)
  have "Match (wildcard_pattern 4 [10, 0, 1, 0] [255, 0, 255, 0] ''10.*.1.*'')
      (Some (v4InV6Prefix @ [10, 9, 1, 7]))"
    by (simp add: Match_def wildcard_pattern_def family_bytes_def To4_def masked_match_def upt_rec)
  with MatchPatternStrCached_correct [OF ok r] ip p have "m \<and> cache_ok c'" by auto
  with r show ?thesis by auto
qed

end
