(* ===== verification/Range_Cidr.thy ===== *)
theory Range_Cidr
  imports IP_Pattern
begin

text \<open>
  Package ipset, file rangecidr.go: the decomposition of a closed interval of addresses into CIDR
  prefixes. The loops of the source that walk a byte slice from its end are recursions over the
  reversed list.

  The theorems show that the decomposition is exact and that it has at most \<open>2 * bits - 2\<close>
  prefixes, the two facts the header comment of the file promises (62 for IPv4, 254 for IPv6).
\<close>

subsection \<open>Definitions\<close>

record prefixEntry =
  pe_Net :: gobytes
  pe_Bits :: nat

text \<open>The inner loop of \<open>trailingZeroBits\<close>, entered with a non-zero byte only.\<close>

function tz_byte :: "gobyte \<Rightarrow> nat" where
  "tz_byte v = (if v = 0 then 0 else if v AND 1 = 0 then Suc (tz_byte (drop_bit 1 v)) else 0)"
  by pat_completeness auto
termination
proof (relation "measure unat")
  fix v :: gobyte assume "v \<noteq> 0"
  then show "(drop_bit 1 v, v) \<in> measure unat"
    by (simp add: drop_bit_Suc unat_div_distrib unat_gt_0)
qed simp

declare tz_byte.simps [simp del]

fun tz_rev :: "gobytes \<Rightarrow> nat" where
  "tz_rev [] = 0"
| "tz_rev (b # bs) = (if b = 0 then 8 + tz_rev bs else tz_byte b)"

definition trailingZeroBits :: "gobytes \<Rightarrow> nat" where
  "trailingZeroBits b = tz_rev (rev b)"

fun or_low_rev :: "gobytes \<Rightarrow> nat \<Rightarrow> gobytes" where
  "or_low_rev [] n = []"
| "or_low_rev (b # bs) n =
     (if n = 0 then b # bs
      else if 8 \<le> n then 255 # or_low_rev bs (n - 8)
      else (b OR (push_bit n 1 - 1)) # bs)"

definition orLowBits :: "gobytes \<Rightarrow> nat \<Rightarrow> gobytes" where
  "orLowBits b n = rev (or_low_rev (rev b) n)"

fun add_carry_rev :: "gobytes \<Rightarrow> gobyte \<Rightarrow> gobytes \<times> bool" where
  "add_carry_rev [] carry = ([], False)"
| "add_carry_rev (b # bs) carry =
     (let s = (ucast b + ucast carry :: 16 word)
      in if s \<le> 255 then (ucast s # bs, True)
         else (let (bs', ok) = add_carry_rev bs 1 in (ucast s # bs', ok)))"

text \<open>\<open>addPow2\<close> changes its argument in place; here the new bytes are returned with the flag.\<close>

definition addPow2 :: "gobytes \<Rightarrow> nat \<Rightarrow> gobytes \<times> bool" where
  "addPow2 b n =
     (if length b * 8 \<le> n then (b, False)
      else (let r = rev b;
                (hi, ok) = add_carry_rev (drop (n div 8) r) (push_bit (n mod 8) 1)
            in (rev (take (n div 8) r @ hi), ok)))"

fun shrink_block :: "gobytes \<Rightarrow> gobytes \<Rightarrow> nat \<Rightarrow> nat" where
  "shrink_block cur en 0 = 0"
| "shrink_block cur en (Suc n) =
     (if 0 < bytes_Compare (orLowBits cur (Suc n)) en then shrink_block cur en n else Suc n)"

subsection \<open>Byte sequences from the end\<close>

fun le_val :: "gobytes \<Rightarrow> nat" where
  "le_val [] = 0"
| "le_val (b # bs) = unat b + 256 * le_val bs"

lemma be_val_rev: "be_val (rev bs) = le_val bs"
  by (induction bs) (auto simp: be_val_append)

lemma be_val_conv_le_val: "be_val bs = le_val (rev bs)"
  using be_val_rev [of "rev bs"] by simp

lemma le_val_lt: "le_val bs < 256 ^ length bs"
  using be_val_lt [of "rev bs"] by (simp add: be_val_rev)

lemma le_val_append: "le_val (xs @ ys) = le_val xs + 256 ^ length xs * le_val ys"
  by (induction xs) (auto simp: algebra_simps)

lemma unat_drop_bit_1: "unat (drop_bit 1 (v :: gobyte)) = unat v div 2"
  by (simp add: drop_bit_Suc unat_div_distrib)

lemma even_byte_iff: "(v :: gobyte) AND 1 = 0 \<longleftrightarrow> even (unat v)"
proof -
  have "v AND 1 = 0 \<longleftrightarrow> v mod 2 = 0" by (simp add: and_one_eq)
  also have "\<dots> \<longleftrightarrow> unat (v mod 2) = 0" by (simp add: unat_eq_zero)
  finally show ?thesis by (simp add: unat_mod_distrib even_iff_mod_2_eq_zero)
qed

lemma tz_byte_spec:
  "v \<noteq> 0 \<Longrightarrow> 2 ^ tz_byte v dvd unat v \<and> \<not> 2 ^ Suc (tz_byte v) dvd unat v"
proof (induction v rule: tz_byte.induct)
  case (1 v)
  show ?case
  proof (cases "v AND 1 = 0")
    case True
    then obtain k where k: "unat v = 2 * k" by (auto simp: even_byte_iff)
    have h: "unat (drop_bit 1 v) = k" by (simp only: unat_drop_bit_1 k)
    with k 1(2) have "drop_bit 1 v \<noteq> 0" by (auto simp: unat_eq_zero)
    with 1(1) [OF 1(2) True] h k True 1(2) show ?thesis by (simp add: tz_byte.simps [of v])
  next
    case False
    with 1(2) show ?thesis by (simp add: tz_byte.simps [of v] even_byte_iff)
  qed
qed

lemma dvd_add_mult_pow:
  fixes a b :: nat
  assumes "n \<le> 8"
  shows "2 ^ n dvd a + 256 * b \<longleftrightarrow> 2 ^ n dvd a"
proof -
  have "2 ^ n dvd (2 ^ 8 :: nat)" using assms by (rule le_imp_power_dvd)
  then have "2 ^ n dvd 256 * b" by simp
  then show ?thesis by (simp add: dvd_add_left_iff)
qed

lemma tz_byte_lt: "v \<noteq> 0 \<Longrightarrow> tz_byte v < 8"
proof -
  assume v: "v \<noteq> 0"
  then have "2 ^ tz_byte v \<le> unat v"
    using tz_byte_spec [OF v] by (auto intro: dvd_imp_le simp: unat_gt_0)
  also have "\<dots> < 2 ^ 8" using unat_byte_lt [of v] by simp
  finally show ?thesis by (simp only: power_strict_increasing_iff)
qed

lemma tz_rev_spec:
  "(le_val bs = 0 \<longrightarrow> tz_rev bs = 8 * length bs) \<and>
   (le_val bs \<noteq> 0 \<longrightarrow> 2 ^ tz_rev bs dvd le_val bs \<and> \<not> 2 ^ Suc (tz_rev bs) dvd le_val bs)"
proof (induction bs)
  case Nil
  show ?case by simp
next
  case (Cons b bs)
  show ?case
  proof (cases "b = 0")
    case True
    have "2 ^ (8 + k) dvd 256 * x \<longleftrightarrow> 2 ^ k dvd (x :: nat)" for k x by (simp add: power_add)
    from this [of "tz_rev bs"] this [of "Suc (tz_rev bs)"] Cons True show ?thesis by auto
  next
    case False
    have "unat b \<noteq> 0" using False by (simp add: unat_eq_zero)
    with tz_byte_spec [OF False] tz_byte_lt [OF False] False show ?thesis
      by (simp add: dvd_add_mult_pow del: power_Suc)
  qed
qed

lemma or_disjoint_byte:
  assumes "n < 8" "2 ^ n dvd unat (b :: gobyte)"
  shows "unat (b OR (push_bit n 1 - 1)) = unat b + (2 ^ n - 1)"
proof -
  have m: "(push_bit n 1 - 1 :: gobyte) = mask n" by (simp add: mask_eq_exp_minus_1 push_bit_eq_mult)
  have "unat b AND mask n = 0"
    using assms(2) by (simp add: take_bit_eq_mask [symmetric] take_bit_eq_mod)
  then have "unat b OR mask n = unat b + mask n" by (rule disjunctive_add_eq_or [symmetric])
  moreover have "unat (mask n :: gobyte) = mask n"
    using assms(1) by (auto simp: bit_eq_iff bit_simps)
  ultimately show ?thesis
    unfolding m by (simp add: unsigned_or_eq mask_eq_exp_minus_1)
qed

lemma or_low_rev_spec:
  "n \<le> 8 * length bs \<Longrightarrow> 2 ^ n dvd le_val bs \<Longrightarrow>
   le_val (or_low_rev bs n) + 1 = le_val bs + 2 ^ n \<and> length (or_low_rev bs n) = length bs"
proof (induction bs n rule: or_low_rev.induct)
  case (1 n)
  then show ?case by simp
next
  case (2 b bs n)
  consider "n = 0" | "0 < n" "n < 8" | "8 \<le> n" by linarith
  then show ?case
  proof cases
    case 1
    then show ?thesis by simp
  next
    case 2
    with "2.prems"(2) have "2 ^ n dvd unat b" by (simp add: dvd_add_mult_pow)
    from or_disjoint_byte [OF 2(2) this] 2 show ?thesis by simp
  next
    case 3
    then obtain k where n: "n = 8 + k" by (auto simp: le_iff_add)
    have "(256 :: nat) dvd 2 ^ n" unfolding n by (simp add: power_add)
    with "2.prems"(2) have "256 dvd unat b + 256 * le_val bs" using dvd_trans by auto
    then have "unat b = 0" using unat_byte_lt [of b] by (auto simp: dvd_add_left_iff elim: dvdE)
    moreover from this have "2 ^ k dvd le_val bs" using "2.prems"(2) by (simp add: n power_add)
    ultimately show ?thesis
      using "2.IH" "2.prems"(1) 3 by (simp add: n power_add)
  qed
qed

lemma add_carry_rev_spec:
  "carry \<noteq> 0 \<Longrightarrow> add_carry_rev bs carry = (bs', ok) \<Longrightarrow>
   length bs' = length bs \<and> (ok \<longleftrightarrow> le_val bs + unat carry < 256 ^ length bs) \<and>
   (ok \<longrightarrow> le_val bs' = le_val bs + unat carry)"
proof (induction bs carry arbitrary: bs' ok rule: add_carry_rev.induct)
  case (1 carry)
  then show ?case by (auto simp: unat_eq_zero)
next
  case (2 b bs carry)
  let ?s = "ucast b + ucast carry :: 16 word"
  have s: "unat ?s = unat b + unat carry"
    using unat_byte_lt [of b] unat_byte_lt [of carry]
    by (simp add: unat_add_lem [THEN iffD1] unsigned_ucast_eq take_bit_nat_eq_self)
  have low: "unat (ucast ?s :: gobyte) = (unat b + unat carry) mod 256"
    unfolding unsigned_ucast_eq s by (simp add: take_bit_eq_mod)
  have lt: "le_val bs < 256 ^ length bs" by (rule le_val_lt)
  show ?case
  proof (cases "?s \<le> 255")
    case True
    then have le: "unat b + unat carry \<le> 255" by (simp add: word_le_nat_alt s)
    have "unat b + unat carry + 256 * le_val bs < 256 * 256 ^ length bs"
      using le lt by linarith
    with "2.prems" True le low show ?thesis by auto
  next
    case False
    then have gt: "256 \<le> unat b + unat carry" by (simp add: word_le_nat_alt s)
    then have m: "(unat b + unat carry) mod 256 = unat b + unat carry - 256"
      using unat_byte_lt [of b] unat_byte_lt [of carry] by (simp add: le_mod_geq)
    obtain r o2 where r: "add_carry_rev bs 1 = (r, o2)" by fastforce
    with "2.prems" False have eq: "bs' = ucast ?s # r" "ok = o2" by auto
    have IH: "length r = length bs \<and> (o2 \<longleftrightarrow> le_val bs + 1 < 256 ^ length bs) \<and>
        (o2 \<longrightarrow> le_val r = le_val bs + 1)"
      using "2.IH" [OF refl False _ r] by simp
    have "le_val bs + 1 < 256 ^ length bs \<longleftrightarrow>
        unat b + unat carry + 256 * le_val bs < 256 * 256 ^ length bs"
      using gt unat_byte_lt [of b] unat_byte_lt [of carry] by linarith
    with IH eq low m gt show ?thesis by auto
  qed
qed

lemma block_less_iff:
  fixes lo :: nat
  assumes "lo < Q"
  shows "a + c < M \<longleftrightarrow> lo + Q * a + Q * c < Q * M"
proof
  assume "a + c < M"
  then have "Q * (a + c + 1) \<le> Q * M" by (intro mult_left_mono) auto
  with assms show "lo + Q * a + Q * c < Q * M" by (simp add: algebra_simps)
next
  assume "lo + Q * a + Q * c < Q * M"
  then have "Q * (a + c) < Q * M" by (simp add: algebra_simps)
  then show "a + c < M" by simp
qed

lemma addPow2_spec:
  assumes "addPow2 b n = (b', ok)" "n \<le> 8 * length b"
  shows "length b' = length b" "ok \<longleftrightarrow> be_val b + 2 ^ n < 256 ^ length b"
    "ok \<Longrightarrow> be_val b' = be_val b + 2 ^ n"
proof -
  have P: "(256 :: nat) ^ length b = 2 ^ (8 * length b)" by (simp add: power_mult)
  have "length b' = length b \<and> (ok \<longleftrightarrow> be_val b + 2 ^ n < 256 ^ length b) \<and>
        (ok \<longrightarrow> be_val b' = be_val b + 2 ^ n)"
  proof (cases "length b * 8 \<le> n")
    case True
    with assms(2) have "n = 8 * length b" by simp
    with True assms P show ?thesis by (auto simp: addPow2_def)
  next
    case False
    define lo hi where "lo = take (n div 8) (rev b)" and "hi = drop (n div 8) (rev b)"
    have d: "n div 8 < length b" using False by (simp add: less_mult_imp_div_less)
    have r: "rev b = lo @ hi" and len: "length lo = n div 8" "length hi = length b - n div 8"
      using d by (auto simp: lo_def hi_def)
    let ?c = "push_bit (n mod 8) 1 :: gobyte"
    have "(2 :: nat) ^ (n mod 8) < 2 ^ 8" by (rule power_strict_increasing) auto
    then have "unat (of_nat (2 ^ (n mod 8)) :: gobyte) = 2 ^ (n mod 8)"
      by (subst unat_of_nat) (simp add: take_bit_nat_eq_self)
    then have "unat ?c = 2 ^ (n mod 8)" by (simp add: push_bit_eq_mult)
    then have c: "unat ?c = 2 ^ (n mod 8)" "?c \<noteq> 0" by auto
    obtain h o2 where h: "add_carry_rev hi ?c = (h, o2)" by fastforce
    with assms False have eq: "b' = rev (lo @ h)" "ok = o2"
      by (auto simp: addPow2_def lo_def hi_def Let_def)
    note sp = add_carry_rev_spec [OF c(2) h]
    let ?Q = "256 ^ (n div 8) :: nat" and ?M = "256 ^ length hi :: nat"
    have "(2 :: nat) ^ n = 2 ^ (8 * (n div 8) + n mod 8)" by simp
    also have "\<dots> = ?Q * unat ?c" unfolding c(1) by (simp only: power_add power_mult) simp
    finally have p: "2 ^ n = ?Q * unat ?c" .
    have M: "256 ^ length b = ?Q * ?M" using d len by (simp flip: power_add)
    have v: "be_val b = le_val lo + ?Q * le_val hi"
      by (simp add: be_val_conv_le_val r le_val_append len)
    have v': "be_val b' = le_val lo + ?Q * le_val h"
      by (simp add: be_val_conv_le_val eq le_val_append len)
    have "le_val lo < ?Q" using le_val_lt [of lo] len by simp
    then have "le_val hi + unat ?c < ?M \<longleftrightarrow> be_val b + 2 ^ n < 256 ^ length b"
      unfolding v p M by (rule block_less_iff)
    with sp eq v v' p len r show ?thesis
      by (metis (no_types, lifting) add.assoc distrib_left length_append length_rev)
  qed
  then show "length b' = length b" "ok \<longleftrightarrow> be_val b + 2 ^ n < 256 ^ length b"
    "ok \<Longrightarrow> be_val b' = be_val b + 2 ^ n" by auto
qed

lemma orLowBits_spec:
  assumes "n \<le> 8 * length b" "2 ^ n dvd be_val b"
  shows "be_val (orLowBits b n) + 1 = be_val b + 2 ^ n" "length (orLowBits b n) = length b"
  using or_low_rev_spec [of n "rev b"] assms
  by (simp_all add: orLowBits_def be_val_rev be_val_conv_le_val [of b])

lemma trailingZeroBits_spec:
  "be_val b = 0 \<Longrightarrow> trailingZeroBits b = 8 * length b"
  "be_val b \<noteq> 0 \<Longrightarrow> 2 ^ trailingZeroBits b dvd be_val b"
  "be_val b \<noteq> 0 \<Longrightarrow> \<not> 2 ^ Suc (trailingZeroBits b) dvd be_val b"
  using tz_rev_spec [of "rev b"] by (auto simp: trailingZeroBits_def be_val_conv_le_val)

lemma trailingZeroBits_le: "trailingZeroBits b \<le> 8 * length b"
proof (cases "be_val b = 0")
  case False
  then have "2 ^ trailingZeroBits b \<le> be_val b"
    using trailingZeroBits_spec(2) [OF False] by (auto intro: dvd_imp_le)
  also have "\<dots> < 2 ^ (8 * length b)" using be_val_lt [of b] by (simp add: power_mult)
  finally have "trailingZeroBits b < 8 * length b" by (simp only: power_strict_increasing_iff)
  then show ?thesis by simp
qed (simp add: trailingZeroBits_spec)

lemma shrink_block_le: "shrink_block cur en n \<le> n"
  by (induction n) auto

subsection \<open>The decomposition\<close>

text \<open>
  The outer loop. \<open>n\<close> is bounded by the number of bits as in the source; an overflow of the
  address space ends the loop.
\<close>

function range_loop :: "gobytes \<Rightarrow> gobytes \<Rightarrow> prefixEntry list" where
  "range_loop cur en =
     (if bytes_Compare cur en \<le> 0 then
        (let bits = length cur * 8;
             n = shrink_block cur en (min (trailingZeroBits cur) bits);
             (cur', ok) = addPow2 cur n
         in \<lparr>pe_Net = cur, pe_Bits = bits - n\<rparr> # (if ok then range_loop cur' en else []))
      else [])"
  by pat_completeness auto

termination
proof (relation "measure (\<lambda>(cur, en). 256 ^ length cur - be_val cur)")
  fix cur en :: gobytes and bits n pr cur' ok
  assume n: "n = shrink_block cur en (min (trailingZeroBits cur) bits)" and b: "bits = length cur * 8"
    and a: "pr = addPow2 cur n" "(cur', ok) = pr" and ok: "ok"
  have "n \<le> 8 * length cur" using shrink_block_le [of cur en] n b by (metis min.bounded_iff mult.commute)
  from addPow2_spec [OF _ this, of cur' ok] a ok
  show "((cur', en), cur, en) \<in> measure (\<lambda>(cur, en). 256 ^ length cur - be_val cur)"
    by (auto simp: diff_less_mono2)
qed simp

declare range_loop.simps [simp del]

definition rangeToPrefixes :: "gobytes \<Rightarrow> gobytes \<Rightarrow> prefixEntry list option" where
  "rangeToPrefixes start en =
     (if length start = 0 \<or> length start \<noteq> length en \<or> 0 < bytes_Compare start en then None
      else Some (range_loop start en))"

lemma shrink_block_spec:
  assumes "n \<le> 8 * length cur" "2 ^ n dvd be_val cur" "length cur = length en"
    "be_val cur \<le> be_val en" "k = shrink_block cur en n"
  shows "k \<le> n" "be_val cur + 2 ^ k \<le> be_val en + 1"
    "k = n \<or> be_val en + 1 < be_val cur + 2 ^ Suc k"
proof -
  have "shrink_block cur en n \<le> n \<and> be_val cur + 2 ^ shrink_block cur en n \<le> be_val en + 1 \<and>
    (shrink_block cur en n = n \<or> be_val en + 1 < be_val cur + 2 ^ Suc (shrink_block cur en n))"
    using assms(1,2)
  proof (induction n)
    case 0
    then show ?case using assms(4) by simp
  next
    case (Suc n)
    have "2 ^ n dvd be_val cur" using Suc.prems(2) by (metis dvd_trans le_imp_power_dvd le_SucI order_refl)
    with Suc have IH: "shrink_block cur en n \<le> n"
      "be_val cur + 2 ^ shrink_block cur en n \<le> be_val en + 1"
      "shrink_block cur en n = n \<or> be_val en + 1 < be_val cur + 2 ^ Suc (shrink_block cur en n)"
      by auto
    note o = orLowBits_spec [OF Suc.prems]
    have "0 < bytes_Compare (orLowBits cur (Suc n)) en \<longleftrightarrow> be_val en < be_val (orLowBits cur (Suc n))"
      using o(2) assms(3) by (simp add: bytes_Compare_gt_0)
    also have "\<dots> \<longleftrightarrow> be_val en + 1 < be_val cur + 2 ^ Suc n" using o(1) by linarith
    finally have cmp: "0 < bytes_Compare (orLowBits cur (Suc n)) en \<longleftrightarrow>
      be_val en + 1 < be_val cur + 2 ^ Suc n" .
    show ?case
    proof (cases "0 < bytes_Compare (orLowBits cur (Suc n)) en")
      case True
      with IH cmp show ?thesis by auto
    next
      case False
      with cmp show ?thesis by simp
    qed
  qed
  with assms(5) show "k \<le> n" "be_val cur + 2 ^ k \<le> be_val en + 1"
    "k = n \<or> be_val en + 1 < be_val cur + 2 ^ Suc k" by auto
qed

text \<open>One turn of the loop, in numbers: \<open>t\<close> is the alignment of the block, \<open>n\<close> its size.\<close>

lemma range_loop_step:
  assumes "length cur = length en" "be_val cur \<le> be_val en"
  obtains n t rest where "n \<le> t" "t \<le> 8 * length cur" "2 ^ t dvd be_val cur"
    "be_val cur = 0 \<longrightarrow> t = 8 * length cur" "be_val cur \<noteq> 0 \<longrightarrow> \<not> 2 ^ Suc t dvd be_val cur"
    "be_val cur + 2 ^ n \<le> be_val en + 1" "n = t \<or> be_val en + 1 < be_val cur + 2 ^ Suc n"
    "range_loop cur en = \<lparr>pe_Net = cur, pe_Bits = 8 * length cur - n\<rparr> # rest"
    "be_val en < be_val cur + 2 ^ n \<and> rest = [] \<or>
     (\<exists>cur'. length cur' = length cur \<and> be_val cur' = be_val cur + 2 ^ n \<and>
        be_val cur' \<le> be_val en \<and> rest = range_loop cur' en)"
proof -
  define t where "t = trailingZeroBits cur"
  define n where "n = shrink_block cur en t"
  obtain cur' ok where a: "addPow2 cur n = (cur', ok)" by fastforce
  have t: "t \<le> 8 * length cur" "2 ^ t dvd be_val cur"
    using trailingZeroBits_le [of cur] trailingZeroBits_spec(2) [of cur]
    by (cases "be_val cur = 0"; simp add: t_def)+
  note sb = shrink_block_spec [OF t assms n_def]
  have nl: "n \<le> 8 * length cur" using sb(1) t(1) by simp
  note ad = addPow2_spec [OF a nl]
  have "bytes_Compare cur en \<le> 0" using assms by (simp add: bytes_Compare_le_0)
  moreover have "min (trailingZeroBits cur) (length cur * 8) = t" using t(1) by (simp add: t_def)
  ultimately have eq: "range_loop cur en =
     \<lparr>pe_Net = cur, pe_Bits = 8 * length cur - n\<rparr> # (if ok then range_loop cur' en else [])"
    using a by (subst range_loop.simps) (simp add: n_def [symmetric] Let_def mult.commute)
  have en: "be_val en < 256 ^ length cur" using be_val_lt [of en] assms(1) by simp
  have "be_val en < be_val cur + 2 ^ n \<and> (if ok then range_loop cur' en else []) = [] \<or>
     (\<exists>cur'' . length cur'' = length cur \<and> be_val cur'' = be_val cur + 2 ^ n \<and>
        be_val cur'' \<le> be_val en \<and> (if ok then range_loop cur' en else []) = range_loop cur'' en)"
  proof (cases "be_val cur + 2 ^ n \<le> be_val en")
    case True
    with ad en show ?thesis by (intro disjI2 exI [of _ cur']) auto
  next
    case False
    then have "ok \<Longrightarrow> range_loop cur' en = []"
      using ad assms(1) by (subst range_loop.simps) (simp add: bytes_Compare_le_0)
    with False show ?thesis by auto
  qed
  with that [OF sb(1) t _ _ sb(2,3) eq] trailingZeroBits_spec [of cur] show thesis
    by (auto simp: t_def)
qed

lemma advance_less: "c' = c + 2 ^ n \<Longrightarrow> c' \<le> e \<Longrightarrow> e - c' < e - (c :: nat)"
proof -
  assume "c' = c + 2 ^ n" "c' \<le> e"
  moreover have "0 < (2 :: nat) ^ n" by simp
  ultimately show ?thesis by linarith
qed

text \<open>The prefixes cover exactly the interval.\<close>

lemma range_loop_exact:
  assumes "length cur = length en" "length a = length cur" "be_val cur \<le> be_val en"
  shows "(\<exists>e \<in> set (range_loop cur en). same_prefix (pe_Bits e) (pe_Net e) a) \<longleftrightarrow>
         be_val cur \<le> be_val a \<and> be_val a \<le> be_val en"
  using assms
proof (induction "be_val en - be_val cur" arbitrary: cur rule: less_induct)
  case less
  note prems = less.prems
  let ?B = "8 * length cur"
  from range_loop_step [OF prems(1,3)] obtain n t rest where st: "n \<le> t" "t \<le> ?B"
    "2 ^ t dvd be_val cur" "be_val cur + 2 ^ n \<le> be_val en + 1"
    "range_loop cur en = \<lparr>pe_Net = cur, pe_Bits = ?B - n\<rparr> # rest"
    "be_val en < be_val cur + 2 ^ n \<and> rest = [] \<or>
     (\<exists>cur'. length cur' = length cur \<and> be_val cur' = be_val cur + 2 ^ n \<and>
        be_val cur' \<le> be_val en \<and> rest = range_loop cur' en)" .
  have dvd: "2 ^ n dvd be_val cur" using st(1,3) by (meson dvd_trans le_imp_power_dvd)
  have "n \<le> ?B" using st(1,2) by simp
  then have first: "same_prefix (?B - n) cur a \<longleftrightarrow>
      be_val cur \<le> be_val a \<and> be_val a < be_val cur + 2 ^ n"
    using same_prefix_interval [of cur a "?B - n"] prems(2) dvd by simp
  from st(6) show ?case
  proof
    assume "be_val en < be_val cur + 2 ^ n \<and> rest = []"
    with st(4,5) first show ?thesis by auto
  next
    assume "\<exists>cur'. length cur' = length cur \<and> be_val cur' = be_val cur + 2 ^ n \<and>
        be_val cur' \<le> be_val en \<and> rest = range_loop cur' en"
    then obtain cur' where c: "length cur' = length cur" "be_val cur' = be_val cur + 2 ^ n"
      "be_val cur' \<le> be_val en" "rest = range_loop cur' en" by blast
    have "be_val en - be_val cur' < be_val en - be_val cur"
      using c(2,3) by (rule advance_less)
    from less.hyps [OF this] c prems
    have "(\<exists>e \<in> set rest. same_prefix (pe_Bits e) (pe_Net e) a) \<longleftrightarrow>
        be_val cur' \<le> be_val a \<and> be_val a \<le> be_val en" by simp
    with first st(5) c(2,3) show ?thesis by auto
  qed
qed

text \<open>
  The number of prefixes. Once a block is cut by the end of the interval, the sizes strictly
  decrease (\<open>range_loop_tail\<close>); before that they strictly increase.
\<close>

lemma range_loop_tail:
  assumes "length cur = length en" "be_val cur \<le> be_val en" "2 ^ k dvd be_val cur"
    "be_val en + 1 < be_val cur + 2 ^ k"
  shows "length (range_loop cur en) \<le> k"
  using assms
proof (induction k arbitrary: cur rule: less_induct)
  case (less k)
  from range_loop_step [OF less.prems(1,2)] obtain n t rest where st:
    "n = t \<or> be_val en + 1 < be_val cur + 2 ^ Suc n" "be_val cur + 2 ^ n \<le> be_val en + 1"
    "range_loop cur en = \<lparr>pe_Net = cur, pe_Bits = 8 * length cur - n\<rparr> # rest"
    "be_val cur \<noteq> 0 \<longrightarrow> \<not> 2 ^ Suc t dvd be_val cur" "be_val cur = 0 \<longrightarrow> t = 8 * length cur"
    "2 ^ t dvd be_val cur"
    "be_val en < be_val cur + 2 ^ n \<and> rest = [] \<or>
     (\<exists>cur'. length cur' = length cur \<and> be_val cur' = be_val cur + 2 ^ n \<and>
        be_val cur' \<le> be_val en \<and> rest = range_loop cur' en)" .
  from st(2) less.prems(4) have "(2 :: nat) ^ n < 2 ^ k" by linarith
  then have nk: "n < k" by simp
  from st(7) show ?case
  proof
    assume "be_val en < be_val cur + 2 ^ n \<and> rest = []"
    with st(3) nk show ?thesis by simp
  next
    assume "\<exists>cur'. length cur' = length cur \<and> be_val cur' = be_val cur + 2 ^ n \<and>
        be_val cur' \<le> be_val en \<and> rest = range_loop cur' en"
    then obtain cur' where c: "length cur' = length cur" "be_val cur' = be_val cur + 2 ^ n"
      "be_val cur' \<le> be_val en" "rest = range_loop cur' en" by blast
    have "n \<noteq> t"
    proof
      assume nt: "n = t"
      then have "be_val cur = 0"
        using st(4) less.prems(3) nk by (meson Suc_leI dvd_trans le_imp_power_dvd)
      with st(5) nt have "n = 8 * length cur" by simp
      moreover have "be_val cur' < 2 ^ (8 * length cur')" using be_val_lt [of cur'] by (simp add: power_mult)
      ultimately show False using c(1,2) by simp
    qed
    with st(1) have cut: "be_val en + 1 < be_val cur + 2 ^ Suc n" by simp
    have "2 ^ n dvd be_val cur" using less.prems(3) nk by (meson dvd_trans le_imp_power_dvd less_imp_le)
    then have "length (range_loop cur' en) \<le> n"
      using less.IH [OF nk, of cur'] c less.prems(1) cut by simp
    with st(3) c(4) nk show ?thesis by simp
  qed
qed

lemma dvd_pow_half:
  fixes x :: nat
  assumes "0 < x" "x < 2 ^ Suc k" "2 ^ k dvd x"
  shows "x = 2 ^ k"
  using assms by (auto elim!: dvdE)

lemma range_loop_head:
  assumes "length cur = length en" "0 < length cur" "be_val cur \<le> be_val en" "0 < be_val cur"
    "2 ^ j dvd be_val cur" "j \<le> 8 * length cur - 1"
  shows "length (range_loop cur en) \<le> (8 * length cur - 1 - j) + (8 * length cur - 1)"
  using assms
proof (induction "be_val en - be_val cur" arbitrary: cur j rule: less_induct)
  case less
  note prems = less.prems
  let ?B = "8 * length cur"
  have top: "be_val en < 2 ^ ?B" "be_val cur < 2 ^ ?B"
    using be_val_lt [of en] be_val_lt [of cur] prems(1) by (auto simp: power_mult)
  from range_loop_step [OF prems(1,3)] obtain n t rest where st: "n \<le> t" "t \<le> ?B"
    "n = t \<or> be_val en + 1 < be_val cur + 2 ^ Suc n"
    "range_loop cur en = \<lparr>pe_Net = cur, pe_Bits = ?B - n\<rparr> # rest"
    "be_val cur \<noteq> 0 \<longrightarrow> \<not> 2 ^ Suc t dvd be_val cur" "2 ^ t dvd be_val cur"
    "be_val en < be_val cur + 2 ^ n \<and> rest = [] \<or>
     (\<exists>cur'. length cur' = length cur \<and> be_val cur' = be_val cur + 2 ^ n \<and>
        be_val cur' \<le> be_val en \<and> rest = range_loop cur' en)" .
  have jt: "j \<le> t"
    using st(5) prems(4,5) by (metis dvd_trans le_imp_power_dvd not_less_eq_eq neq0_conv)
  have "2 ^ t \<le> be_val cur" using st(6) prems(4) by (auto intro: dvd_imp_le)
  with top have "(2 :: nat) ^ t < 2 ^ ?B" by linarith
  then have tB: "t < ?B" by simp
  show ?case
  proof (cases "n = t")
    case False
    with st(1,3) have "be_val en + 1 < be_val cur + 2 ^ Suc n" "Suc n \<le> t" by auto
    moreover have "(2 :: nat) ^ Suc n \<le> 2 ^ t" using \<open>Suc n \<le> t\<close> by (rule power_increasing) simp
    ultimately have "be_val en + 1 < be_val cur + 2 ^ t" by linarith
    from range_loop_tail [OF prems(1,3) st(6) this] tB show ?thesis by simp
  next
    case True
    from st(7) show ?thesis
    proof
      assume "be_val en < be_val cur + 2 ^ n \<and> rest = []"
      with st(4) prems(2) show ?thesis by (cases cur) simp_all
    next
      assume "\<exists>cur'. length cur' = length cur \<and> be_val cur' = be_val cur + 2 ^ n \<and>
        be_val cur' \<le> be_val en \<and> rest = range_loop cur' en"
      then obtain cur' where c: "length cur' = length cur" "be_val cur' = be_val cur + 2 ^ n"
        "be_val cur' \<le> be_val en" "rest = range_loop cur' en" by blast
      have "Suc t \<noteq> ?B"
      proof
        assume e: "Suc t = ?B"
        then have "be_val cur = 2 ^ t" using dvd_pow_half prems(4) top(2) st(6) by metis
        then have "be_val cur' = 2 ^ ?B" using c(2) True e by (metis mult_2 power_Suc)
        with c(3) top show False by simp
      qed
      with tB have le: "Suc t \<le> ?B - 1" by simp
      have "2 ^ Suc t dvd be_val cur'"
      proof -
        obtain q where q: "be_val cur = 2 ^ t * q" using st(6) by (rule dvdE)
        with st(5) prems(4) have "odd q" by auto
        then have "even (q + 1)" by simp
        then have "2 ^ t * 2 dvd 2 ^ t * (q + 1)" by (rule mult_dvd_mono [OF dvd_refl])
        then show ?thesis using c(2) True q by (simp add: algebra_simps)
      qed
      moreover have "be_val en - be_val cur' < be_val en - be_val cur"
      using c(2,3) by (rule advance_less)
      ultimately have "length (range_loop cur' en) \<le> (?B - 1 - Suc t) + (?B - 1)"
        using less.hyps [of cur' "Suc t"] c prems(1,2) le by simp
      with st(4) c(4) le jt show ?thesis by simp
    qed
  qed
qed

lemma range_loop_length:
  assumes "length cur = length en" "0 < length cur" "be_val cur \<le> be_val en"
  shows "length (range_loop cur en) \<le> 2 * (8 * length cur) - 2"
proof (cases "be_val cur = 0")
  case False
  with range_loop_head [OF assms, of 0] show ?thesis by simp
next
  case True
  let ?B = "8 * length cur"
  have top: "be_val en < 2 ^ ?B" using be_val_lt [of en] assms(1) by (simp add: power_mult)
  show ?thesis
  proof (cases "be_val en + 1 < 2 ^ ?B")
    case lt: True
    have "length (range_loop cur en) \<le> ?B"
      by (rule range_loop_tail [OF assms(1,3)]) (use True lt in simp_all)
    with assms(2) show ?thesis by (cases cur) simp_all
  next
    case False
    from range_loop_step [OF assms(1,3)] obtain n t rest where st:
      "n = t \<or> be_val en + 1 < be_val cur + 2 ^ Suc n" "n \<le> t" "be_val cur = 0 \<longrightarrow> t = ?B"
      "range_loop cur en = \<lparr>pe_Net = cur, pe_Bits = ?B - n\<rparr> # rest"
      "be_val en < be_val cur + 2 ^ n \<and> rest = [] \<or>
       (\<exists>cur'. length cur' = length cur \<and> be_val cur' = be_val cur + 2 ^ n \<and>
          be_val cur' \<le> be_val en \<and> rest = range_loop cur' en)" .
    have "n = ?B"
    proof (rule ccontr)
      assume "n \<noteq> ?B"
      with st True have "Suc n \<le> ?B" "be_val en + 1 < 2 ^ Suc n" by auto
      moreover have "(2 :: nat) ^ Suc n \<le> 2 ^ ?B" using \<open>Suc n \<le> ?B\<close> by (rule power_increasing) simp
      ultimately show False using False by linarith
    qed
    with st True top have "rest = []" by auto
    with st(4) assms(2) show ?thesis by (cases cur) simp_all
  qed
qed

lemma rangeToPrefixes_Some:
  "0 < length start \<Longrightarrow> length start = length en \<Longrightarrow> be_val start \<le> be_val en \<Longrightarrow>
   rangeToPrefixes start en = Some (range_loop start en)"
  by (auto simp: rangeToPrefixes_def bytes_Compare_gt_0)

lemma range_loop_entries:
  "e \<in> set (range_loop cur en) \<Longrightarrow> length (pe_Net e) = length cur \<and> pe_Bits e \<le> 8 * length cur"
proof (induction cur en rule: range_loop.induct)
  case (1 cur en)
  let ?n = "shrink_block cur en (min (trailingZeroBits cur) (length cur * 8))"
  obtain cur' ok where a: "addPow2 cur ?n = (cur', ok)" by fastforce
  have "?n \<le> 8 * length cur"
    using shrink_block_le [of cur en] by (metis min.bounded_iff mult.commute)
  from addPow2_spec(1) [OF a this] have len: "length cur' = length cur" .
  show ?case
  proof (cases "bytes_Compare cur en \<le> 0")
    case False
    with 1(2) show ?thesis by (simp add: range_loop.simps)
  next
    case True
    with 1(2) a have "e = \<lparr>pe_Net = cur, pe_Bits = length cur * 8 - ?n\<rparr> \<or>
        ok \<and> e \<in> set (range_loop cur' en)"
      by (subst (asm) range_loop.simps) (auto simp: Let_def split: if_splits)
    with 1(1) [OF True refl refl a [symmetric] refl] len show ?thesis by auto
  qed
qed

subsection \<open>Properties\<close>

text \<open>
  C10. The decomposition of an interval is exact: an address of the interval's length is under
  one of the prefixes exactly when it lies between the two ends, both included.
\<close>

theorem rangeToPrefixes_exact:
  assumes "0 < length start" "length start = length en" "be_val start \<le> be_val en"
    "length a = length start"
  shows "\<exists>es. rangeToPrefixes start en = Some es \<and>
    ((\<exists>e \<in> set es. same_prefix (pe_Bits e) (pe_Net e) a) \<longleftrightarrow>
     be_val start \<le> be_val a \<and> be_val a \<le> be_val en)"
  using rangeToPrefixes_Some [OF assms(1-3)] range_loop_exact [OF assms(2,4,3)] by simp

theorem rangeToPrefixes_exact_witness:
  "\<exists>es. rangeToPrefixes [10, 0, 0, 5] [10, 0, 1, 9] = Some es \<and>
    (\<exists>e \<in> set es. same_prefix (pe_Bits e) (pe_Net e) [10, 0, 1, 0])"
  using rangeToPrefixes_exact [of "[10, 0, 0, 5]" "[10, 0, 1, 9]" "[10, 0, 1, 0]"] by simp

text \<open>
  C14. The decomposition of an interval of addresses of \<open>k\<close> bytes has at most \<open>16 * k - 2\<close>
  prefixes: 62 for IPv4 and 254 for IPv6, so no limit on the input is needed.
\<close>

theorem rangeToPrefixes_bound:
  assumes "rangeToPrefixes start en = Some es"
  shows "length es \<le> 16 * length start - 2"
proof -
  from assms have "0 < length start" "length start = length en" "be_val start \<le> be_val en"
    "es = range_loop start en"
    by (auto simp: rangeToPrefixes_def bytes_Compare_gt_0 split: if_splits)
  with range_loop_length [of start en] show ?thesis by simp
qed

theorem rangeToPrefixes_bound_witness:
  "\<exists>es. rangeToPrefixes [0, 0, 0, 1] [255, 255, 255, 254] = Some es \<and> length es \<le> 62"
proof -
  have "rangeToPrefixes [0, 0, 0, 1] [255, 255, 255, 254] =
      Some (range_loop [0, 0, 0, 1] [255, 255, 255, 254])"
    by (simp add: rangeToPrefixes_Some)
  with rangeToPrefixes_bound [OF this] show ?thesis by simp
qed

end
