(* ===== verification/Cidr_Trie.thy ===== *)
theory Cidr_Trie
  imports Range_Cidr
begin

text \<open>
  Package ipset, file cidrtrie.go: the binary prefix tree of CIDR networks.

  A node is a datatype value, a nil pointer is \<open>None\<close>; the nodes of a tree are never shared, so
  in-place changes along a path are the recursive rebuild of that path. The locale
  \<open>prefix_set\<close> states what the rest of the package relies on, whatever the structure: a set of
  prefixes that answers whether an address is under one of them.
\<close>

subsection \<open>Definitions\<close>

datatype cidrNode =
  CidrNode (terminal: bool) (child0: "cidrNode option") (child1: "cidrNode option")

text \<open>\<open>None\<close> is a nil tree (or a tree with a nil root), which both operations test for.\<close>

type_synonym cidrTrie = "cidrNode option"

definition newNode :: cidrNode where
  "newNode = CidrNode False None None"

definition newCIDRTrie :: cidrTrie where
  "newCIDRTrie = Some newNode"

definition terminalNode :: cidrNode where
  "terminalNode = CidrNode True None None"

fun node_child :: "cidrNode \<Rightarrow> bool \<Rightarrow> cidrNode option" where
  "node_child (CidrNode _ c0 c1) bt = (if bt then c1 else c0)"

fun set_child :: "cidrNode \<Rightarrow> bool \<Rightarrow> cidrNode \<Rightarrow> cidrNode" where
  "set_child (CidrNode t c0 c1) bt c = (if bt then CidrNode t c0 (Some c) else CidrNode t (Some c) c1)"

function insert_loop :: "gobytes \<Rightarrow> nat \<Rightarrow> nat \<Rightarrow> cidrNode \<Rightarrow> cidrNode" where
  "insert_loop bs prefixLen i node =
     (if i < prefixLen \<and> i < length bs * 8 then
        (if terminal node then node
         else (let bt = bit_at bs i;
                   child = (case node_child node bt of None \<Rightarrow> newNode | Some c \<Rightarrow> c)
               in set_child node bt (insert_loop bs prefixLen (Suc i) child)))
      else terminalNode)"
  by pat_completeness auto
termination
  by (relation "measure (\<lambda>(bs, prefixLen, i, node). prefixLen - i)") auto

declare insert_loop.simps [simp del]

definition trie_insert :: "cidrTrie \<Rightarrow> gobytes option \<Rightarrow> int \<Rightarrow> cidrTrie" where
  "trie_insert t ipBytes prefixLen =
     (case (t, ipBytes) of
        (Some root, Some bs) \<Rightarrow>
          if prefixLen \<le> 0 then Some terminalNode
          else Some (insert_loop bs (nat prefixLen) 0 root)
      | _ \<Rightarrow> t)"

function contains_loop :: "gobytes \<Rightarrow> nat \<Rightarrow> nat \<Rightarrow> cidrNode \<Rightarrow> bool" where
  "contains_loop bs bitLen i node =
     (if i < bitLen \<and> i < length bs * 8 then
        (case node_child node (bit_at bs i) of
           None \<Rightarrow> False
         | Some c \<Rightarrow> if terminal c then True else contains_loop bs bitLen (Suc i) c)
      else False)"
  by pat_completeness auto
termination
  by (relation "measure (\<lambda>(bs, bitLen, i, node). bitLen - i)") auto

declare contains_loop.simps [simp del]

definition trie_contains :: "cidrTrie \<Rightarrow> gobytes option \<Rightarrow> nat \<Rightarrow> bool" where
  "trie_contains t ipBytes bitLen =
     (case (t, ipBytes) of
        (Some root, Some bs) \<Rightarrow> if terminal root then True else contains_loop bs bitLen 0 root
      | _ \<Rightarrow> False)"

subsection \<open>The interface of a set of prefixes\<close>

locale prefix_set =
  fixes ok :: "'s \<Rightarrow> bool"
    and new :: 's
    and ins :: "'s \<Rightarrow> gobytes \<Rightarrow> int \<Rightarrow> 's"
    and mem :: "'s \<Rightarrow> gobytes \<Rightarrow> bool"
    and width :: nat
  assumes ok_new: "ok new"
    and mem_new: "\<not> mem new a"
    and ok_ins: "ok s \<Longrightarrow> ok (ins s bs n)"
    and mem_ins: "ok s \<Longrightarrow> length bs = width \<Longrightarrow> length a = width \<Longrightarrow> 0 \<le> n \<Longrightarrow>
      n \<le> int (8 * width) \<Longrightarrow> mem (ins s bs n) a \<longleftrightarrow> mem s a \<or> same_prefix (nat n) bs a"
begin

definition ins_entries :: "prefixEntry list \<Rightarrow> 's \<Rightarrow> 's" where
  "ins_entries es s = fold (\<lambda>e s. ins s (pe_Net e) (int (pe_Bits e))) es s"

lemma ok_ins_entries: "ok s \<Longrightarrow> ok (ins_entries es s)"
  unfolding ins_entries_def by (induction es arbitrary: s) (auto simp: ok_ins)

lemma mem_ins_entries:
  assumes "ok s" "length a = width"
    "\<And>e. e \<in> set es \<Longrightarrow> length (pe_Net e) = width \<and> pe_Bits e \<le> 8 * width"
  shows "mem (ins_entries es s) a \<longleftrightarrow>
    mem s a \<or> (\<exists>e \<in> set es. same_prefix (pe_Bits e) (pe_Net e) a)"
  using assms
proof (induction es arbitrary: s)
  case Nil
  then show ?case by (simp add: ins_entries_def)
next
  case (Cons e es)
  have "mem (ins s (pe_Net e) (int (pe_Bits e))) a \<longleftrightarrow> mem s a \<or> same_prefix (pe_Bits e) (pe_Net e) a"
    using Cons.prems(1,2) Cons.prems(3) [of e] by (simp add: mem_ins)
  with Cons.IH [of "ins s (pe_Net e) (int (pe_Bits e))"] Cons.prems ok_ins show ?case
    by (simp add: ins_entries_def disj_assoc)
qed

text \<open>Inserting the decomposition of an interval adds exactly the interval.\<close>

lemma mem_ins_range:
  assumes "ok s" "length start = width" "length en = width" "length a = width" "0 < width"
    "be_val start \<le> be_val en"
  shows "mem (ins_entries (range_loop start en) s) a \<longleftrightarrow>
    mem s a \<or> (be_val start \<le> be_val a \<and> be_val a \<le> be_val en)"
  using mem_ins_entries [OF assms(1,4), of "range_loop start en"] range_loop_entries [of _ start en]
    range_loop_exact [of start en a] assms by simp

end

subsection \<open>The tree is a set of prefixes\<close>

lemma node_child_set [simp]:
  "node_child (set_child node bt c) b = (if b = bt then Some c else node_child node b)"
  "terminal (set_child node bt c) = terminal node"
  by (cases node; auto)+

lemma newNode_simps [simp]: "node_child newNode b = None" "\<not> terminal newNode"
  by (simp_all add: newNode_def)

lemma terminalNode_simps [simp]: "node_child terminalNode b = None" "terminal terminalNode"
  by (simp_all add: terminalNode_def)

lemma contains_loop_newNode [simp]: "\<not> contains_loop a L i newNode"
  by (simp add: contains_loop.simps)

text \<open>The bits from position \<open>i\<close> on decide; the node at depth \<open>i\<close> already shares the first \<open>i\<close>.\<close>

lemma insert_loop_contains:
  assumes "length a = length bs" "L = 8 * length bs" "n \<le> L" "i \<le> n" "same_prefix i bs a"
  shows "terminal (insert_loop bs n i node) \<or> contains_loop a L i (insert_loop bs n i node) \<longleftrightarrow>
         terminal node \<or> contains_loop a L i node \<or> same_prefix n bs a"
  using assms(4,5)
proof (induction "n - i" arbitrary: i node)
  case 0
  with assms(3) have "insert_loop bs n i node = terminalNode" "i = n"
    by (auto simp: insert_loop.simps)
  with 0 show ?case by simp
next
  case (Suc d)
  then have i: "i < n" "i < length bs * 8" "i < L" "i < length a * 8"
    using assms(1-3) by auto
  show ?case
  proof (cases "terminal node")
    case True
    with i show ?thesis by (simp add: insert_loop.simps [of bs n i])
  next
    case nt: False
    let ?b = "bit_at bs i"
    let ?c = "case node_child node ?b of None \<Rightarrow> newNode | Some c \<Rightarrow> c"
    let ?r = "insert_loop bs n (Suc i) ?c"
    have eq: "insert_loop bs n i node = set_child node ?b ?r"
      using i nt by (simp add: insert_loop.simps [of bs n i] Let_def)
    have step: "contains_loop a L i nd \<longleftrightarrow>
        (case node_child nd (bit_at a i) of None \<Rightarrow> False
         | Some c \<Rightarrow> terminal c \<or> contains_loop a L (Suc i) c)" for nd
      using i by (subst contains_loop.simps) (auto split: option.splits)
    show ?thesis
    proof (cases "bit_at a i = ?b")
      case False
      then have "\<not> same_prefix n bs a" using i(1) by (auto simp: same_prefix_def)
      with False nt show ?thesis unfolding eq step by simp
    next
      case True
      have "same_prefix (Suc i) bs a" using Suc.prems(2) True by (simp add: same_prefix_Suc)
      then have IH: "terminal ?r \<or> contains_loop a L (Suc i) ?r \<longleftrightarrow>
          terminal ?c \<or> contains_loop a L (Suc i) ?c \<or> same_prefix n bs a"
        using Suc.hyps(1) [of "Suc i" ?c] Suc.hyps(2) i(1) by simp
      with True nt show ?thesis unfolding eq step by (auto split: option.splits)
    qed
  qed
qed

lemma trie_contains_insert:
  assumes "t \<noteq> None" "length a = length bs" "0 \<le> n" "n \<le> int (8 * length bs)"
  shows "trie_contains (trie_insert t (Some bs) n) (Some a) (8 * length bs) \<longleftrightarrow>
         trie_contains t (Some a) (8 * length bs) \<or> same_prefix (nat n) bs a"
proof (cases "n = 0")
  case True
  with assms(1) show ?thesis by (auto simp: trie_insert_def trie_contains_def)
next
  case False
  obtain root where t: "t = Some root" using assms(1) by auto
  from insert_loop_contains [OF assms(2) refl, of "nat n" 0 root] assms False show ?thesis
    by (auto simp: t trie_insert_def trie_contains_def)
qed

interpretation trie4: prefix_set "\<lambda>t. t \<noteq> None" newCIDRTrie
  "\<lambda>t bs n. trie_insert t (Some bs) n" "\<lambda>t a. trie_contains t (Some a) 32" 4
proof
  show "\<not> trie_contains newCIDRTrie (Some a) 32" for a
    by (simp add: newCIDRTrie_def trie_contains_def)
  show "trie_contains (trie_insert s (Some bs) n) (Some a) 32 \<longleftrightarrow>
      trie_contains s (Some a) 32 \<or> same_prefix (nat n) bs a"
    if "s \<noteq> None" "length bs = 4" "length a = 4" "0 \<le> n" "n \<le> int (8 * 4)" for s bs a n
    using trie_contains_insert [of s a bs n] that by simp
qed (auto simp: newCIDRTrie_def trie_insert_def)

interpretation trie6: prefix_set "\<lambda>t. t \<noteq> None" newCIDRTrie
  "\<lambda>t bs n. trie_insert t (Some bs) n" "\<lambda>t a. trie_contains t (Some a) 128" 16
proof
  show "\<not> trie_contains newCIDRTrie (Some a) 128" for a
    by (simp add: newCIDRTrie_def trie_contains_def)
  show "trie_contains (trie_insert s (Some bs) n) (Some a) 128 \<longleftrightarrow>
      trie_contains s (Some a) 128 \<or> same_prefix (nat n) bs a"
    if "s \<noteq> None" "length bs = 16" "length a = 16" "0 \<le> n" "n \<le> int (8 * 16)" for s bs a n
    using trie_contains_insert [of s a bs n] that by simp
qed (auto simp: newCIDRTrie_def trie_insert_def)

subsection \<open>Properties\<close>

text \<open>
  C13. Inserting a network into the prefix tree adds exactly the addresses under its prefix: an
  address is found afterwards if and only if it was found before or its first bits are those of
  the network. Pruning below a shorter network and stopping at one lose nothing.
\<close>

theorem trie_insert_contains:
  assumes "t \<noteq> None" "length bs = 4 \<or> length bs = 16" "length a = length bs"
    "0 \<le> n" "n \<le> int (8 * length bs)"
  shows "trie_contains (trie_insert t (Some bs) n) (Some a) (8 * length bs) \<longleftrightarrow>
         trie_contains t (Some a) (8 * length bs) \<or> same_prefix (nat n) bs a"
  using assms by (intro trie_contains_insert)

theorem trie_insert_contains_witness:
  "trie_contains (trie_insert newCIDRTrie (Some [10, 1, 0, 0]) 16) (Some [10, 1, 2, 3]) 32"
proof -
  have "same_prefix 16 [10, 1, 0, 0] [10, 1, 2, 3]"
    by (simp add: same_prefix_iff_div)
  with trie_insert_contains [of newCIDRTrie "[10, 1, 0, 0]" "[10, 1, 2, 3]" 16] show ?thesis
    by (simp add: newCIDRTrie_def)
qed

end
