(* ===== verification/Match_Set.thy ===== *)
theory Match_Set
  imports Cidr_Trie
begin

text \<open>
  Package ipset, files matchset.go, listtext.go, global.go and groups.go, and the index builders of
  wafenginecore/ipindex.go: the compiled set of IP expressions the deny and allow lists use, the
  parser of list texts, and the copy-on-write snapshot of all IP groups.

  The locale \<open>ip_matcher\<close> is the contract of a list matcher: it answers as the patterns of its
  entries do, one by one. \<open>BuildMatchSet\<close> is shown to keep it, so everything proved from the
  contract holds of the compiled set.
\<close>

subsection \<open>The compiled set\<close>

record maskPattern =
  wp_value :: gobytes
  wp_mask :: gobytes
  wp_width :: nat

record Stats =
  st_Exact :: nat
  st_CIDR :: nat
  st_Wildcard :: nat
  st_Range :: nat
  st_Dropped :: nat

record MatchSet =
  exact4 :: "32 word set"
  exact6 :: "gobytes set"
  cidr4 :: cidrTrie
  cidr6 :: cidrTrie
  wild4 :: "maskPattern list"
  wild6 :: "maskPattern list"
  ms_count :: nat
  ms_stats :: Stats

definition empty_stats :: Stats where
  "empty_stats = \<lparr>st_Exact = 0, st_CIDR = 0, st_Wildcard = 0, st_Range = 0, st_Dropped = 0\<rparr>"

definition newMatchSet :: MatchSet where
  "newMatchSet =
     \<lparr>exact4 = {}, exact6 = {}, cidr4 = newCIDRTrie, cidr6 = newCIDRTrie, wild4 = [], wild6 = [],
      ms_count = 0, ms_stats = empty_stats\<rparr>"

text \<open>\<open>binary.BigEndian.Uint32\<close>, and \<open>copy\<close> into a \<open>[16]byte\<close>.\<close>

definition BigEndian_Uint32 :: "gobytes \<Rightarrow> 32 word" where
  "BigEndian_Uint32 b =
     ucast (b ! 3) OR push_bit 8 (ucast (b ! 2)) OR push_bit 16 (ucast (b ! 1)) OR
     push_bit 24 (ucast (b ! 0))"

definition copy16 :: "gobytes \<Rightarrow> gobytes" where
  "copy16 b = take 16 (b @ replicate 16 0)"

definition insertPrefix :: "MatchSet \<Rightarrow> nat \<Rightarrow> gobytes \<Rightarrow> int \<Rightarrow> MatchSet" where
  "insertPrefix m width netBytes bits =
     (if width = 4 then m\<lparr>cidr4 := trie_insert (cidr4 m) (Some netBytes) bits\<rparr>
      else m\<lparr>cidr6 := trie_insert (cidr6 m) (Some netBytes) bits\<rparr>)"

definition add_single :: "MatchSet \<Rightarrow> pattern \<Rightarrow> MatchSet" where
  "add_single m p =
     (if p_Width p = 4 then m\<lparr>exact4 := insert (BigEndian_Uint32 (p_Value p)) (exact4 m)\<rparr>
      else m\<lparr>exact6 := insert (copy16 (p_Value p)) (exact6 m)\<rparr>)"

definition add_wildcard :: "MatchSet \<Rightarrow> pattern \<Rightarrow> MatchSet" where
  "add_wildcard m p =
     (if 0 \<le> p_Prefix p then insertPrefix m (p_Width p) (p_Value p) (p_Prefix p)
      else
        (let wp = \<lparr>wp_value = copy16 (p_Value p), wp_mask = copy16 (p_Mask p),
                   wp_width = p_Width p\<rparr>
         in if p_Width p = 4 then m\<lparr>wild4 := wild4 m @ [wp]\<rparr>
            else m\<lparr>wild6 := wild6 m @ [wp]\<rparr>))"

definition add_range :: "MatchSet \<Rightarrow> pattern \<Rightarrow> MatchSet" where
  "add_range m p =
     fold (\<lambda>pe m. insertPrefix m (p_Width p) (pe_Net pe) (int (pe_Bits pe)))
       (case rangeToPrefixes (p_Value p) (p_End p) of None \<Rightarrow> [] | Some es \<Rightarrow> es) m"

abbreviation bump :: "(Stats \<Rightarrow> Stats) \<Rightarrow> MatchSet \<Rightarrow> MatchSet" where
  "bump f m \<equiv> m\<lparr>ms_stats := f (ms_stats m)\<rparr>"

definition ms_Add :: "MatchSet \<Rightarrow> string \<Rightarrow> bool \<times> MatchSet" where
  "ms_Add m raw =
     (case ParsePatternLenient raw of
        Inl _ \<Rightarrow> (False, bump (st_Dropped_update Suc) m)
      | Inr p \<Rightarrow>
          (let done = (\<lambda>f m'. (True, (bump f m')\<lparr>ms_count := Suc (ms_count m')\<rparr>))
           in case p_Kind p of
                KindSingle \<Rightarrow> done (st_Exact_update Suc) (add_single m p)
              | KindCIDR \<Rightarrow>
                  done (st_CIDR_update Suc) (insertPrefix m (p_Width p) (p_Value p) (p_Prefix p))
              | KindWildcard \<Rightarrow> done (st_Wildcard_update Suc) (add_wildcard m p)
              | KindRange \<Rightarrow> done (st_Range_update Suc) (add_range m p)
              | KindInvalid \<Rightarrow> (False, bump (st_Dropped_update Suc) m)))"

definition BuildMatchSet :: "string list \<Rightarrow> MatchSet" where
  "BuildMatchSet items = fold (\<lambda>raw m. snd (ms_Add m raw)) items newMatchSet"

definition matchWildcards :: "maskPattern list \<Rightarrow> gobytes \<Rightarrow> bool" where
  "matchWildcards ws b = list_ex (\<lambda>w. masked_match (wp_width w) b (wp_mask w) (wp_value w)) ws"

text \<open>\<open>Contains\<close>: a nil set and a nil address are \<open>None\<close>.\<close>

definition ms_Contains :: "MatchSet option \<Rightarrow> gobytes option \<Rightarrow> bool" where
  "ms_Contains ms ip =
     (case (ms, ip) of
        (Some m, Some a) \<Rightarrow>
          (case To4 a of
             Some v4 \<Rightarrow>
               if exact4 m \<noteq> {} \<and> BigEndian_Uint32 v4 \<in> exact4 m then True
               else if trie_contains (cidr4 m) (Some v4) 32 then True
               else matchWildcards (wild4 m) v4
           | None \<Rightarrow>
               (case To16 a of None \<Rightarrow> False
                | Some v6 \<Rightarrow>
                    if exact6 m \<noteq> {} \<and> copy16 v6 \<in> exact6 m then True
                    else if trie_contains (cidr6 m) (Some v6) 128 then True
                    else matchWildcards (wild6 m) v6))
      | _ \<Rightarrow> False)"

definition ms_ContainsStr :: "MatchSet option \<Rightarrow> string \<Rightarrow> bool" where
  "ms_ContainsStr ms ipStr =
     (case ms of None \<Rightarrow> False | Some m \<Rightarrow> ms_Contains (Some m) (ParseIP (TrimSpace ipStr)))"

definition ms_Len :: "MatchSet option \<Rightarrow> nat" where
  "ms_Len ms = (case ms of None \<Rightarrow> 0 | Some m \<Rightarrow> ms_count m)"

definition ms_Stats :: "MatchSet option \<Rightarrow> Stats" where
  "ms_Stats ms = (case ms of None \<Rightarrow> empty_stats | Some m \<Rightarrow> ms_stats m)"

definition WildcardLen :: "MatchSet option \<Rightarrow> nat" where
  "WildcardLen ms = (case ms of None \<Rightarrow> 0 | Some m \<Rightarrow> length (wild4 m) + length (wild6 m))"

definition HasWildcard :: "MatchSet option \<Rightarrow> bool" where
  "HasWildcard ms =
     (case ms of None \<Rightarrow> False
      | Some m \<Rightarrow> 0 < st_Wildcard (ms_stats m) \<or> 0 < st_Range (ms_stats m))"

subsection \<open>Keys of the exact maps\<close>

lemma bit_BigEndian_Uint32:
  "bit (BigEndian_Uint32 b) n \<longleftrightarrow>
     (if n < 8 then bit (b ! 3) n else if n < 16 then bit (b ! 2) (n - 8)
      else if n < 24 then bit (b ! 1) (n - 16) else bit (b ! 0) (n - 24))"
  by (auto simp: BigEndian_Uint32_def bit_or_iff bit_push_bit_iff bit_ucast_iff
      dest: bit_imp_le_length)

lemma BigEndian_Uint32_inject:
  assumes "length a = 4" "length b = 4"
  shows "BigEndian_Uint32 a = BigEndian_Uint32 b \<longleftrightarrow> a = b"
proof
  assume eq: "BigEndian_Uint32 a = BigEndian_Uint32 b"
  have "a ! i = b ! i" if "i \<in> {0, 1, 2, 3}" for i
  proof (rule bit_word_eqI)
    fix n assume n: "n < LENGTH(8)"
    have "bit (BigEndian_Uint32 a) (n + 8 * (3 - i)) = bit (BigEndian_Uint32 b) (n + 8 * (3 - i))"
      by (simp add: eq)
    with n that show "bit (a ! i) n = bit (b ! i) n"
      by (auto simp: bit_BigEndian_Uint32)
  qed
  moreover have "{..<4} = {0, 1, 2, 3 :: nat}" by auto
  ultimately show "a = b" using assms by (intro nth_equalityI) (auto simp: set_eq_iff)
qed simp

lemma copy16_full [simp]: "length b = 16 \<Longrightarrow> copy16 b = b"
  by (simp add: copy16_def)

lemma copy16_nth: "i < length b \<Longrightarrow> length b \<le> 16 \<Longrightarrow> copy16 b ! i = b ! i"
  by (simp add: copy16_def nth_append)

subsection \<open>What the set contains\<close>

text \<open>Membership of the bytes of an address of one family.\<close>

definition contains_bytes :: "MatchSet \<Rightarrow> nat \<Rightarrow> gobytes \<Rightarrow> bool" where
  "contains_bytes m w b \<longleftrightarrow>
     (if w = 4 then BigEndian_Uint32 b \<in> exact4 m \<or> trie_contains (cidr4 m) (Some b) 32 \<or>
        matchWildcards (wild4 m) b
      else copy16 b \<in> exact6 m \<or> trie_contains (cidr6 m) (Some b) 128 \<or>
        matchWildcards (wild6 m) b)"

definition ms_wf :: "MatchSet \<Rightarrow> bool" where
  "ms_wf m \<longleftrightarrow> cidr4 m \<noteq> None \<and> cidr6 m \<noteq> None"

lemma ms_Contains_bytes:
  "ms_Contains (Some m) (Some a) \<longleftrightarrow>
     (\<exists>w b. (w = 4 \<or> w = 16) \<and> family_bytes w a = Some b \<and> contains_bytes m w b)"
  by (cases "To4 a"; cases "To16 a")
     (auto simp: ms_Contains_def family_bytes_def contains_bytes_def split: if_splits)

lemma ms_wf_insertPrefix: "ms_wf m \<Longrightarrow> ms_wf (insertPrefix m w bs n)"
  using trie4.ok_ins [of "cidr4 m" bs n] trie4.ok_ins [of "cidr6 m" bs n]
  by (simp add: ms_wf_def insertPrefix_def)

lemma contains_insertPrefix:
  assumes "ms_wf m" "w = 4 \<or> w = 16" "length bs = w" "0 \<le> n" "n \<le> int (8 * w)"
    "length b = v" "v = 4 \<or> v = 16"
  shows "contains_bytes (insertPrefix m w bs n) v b \<longleftrightarrow>
    contains_bytes m v b \<or> v = w \<and> same_prefix (nat n) bs b"
  using assms trie4.mem_ins [of "cidr4 m" bs b n] trie6.mem_ins [of "cidr6 m" bs b n]
  by (auto simp: contains_bytes_def insertPrefix_def ms_wf_def)

lemma contains_add_single:
  assumes "pattern_wf p" "p_Kind p = KindSingle" "length b = v" "v = 4 \<or> v = 16"
  shows "contains_bytes (add_single m p) v b \<longleftrightarrow> contains_bytes m v b \<or> v = p_Width p \<and> covers p b"
  using assms
  by (auto simp: contains_bytes_def add_single_def covers_def pattern_wf_def BigEndian_Uint32_inject)

lemma wildcard_prefix_iff:
  assumes "pattern_wf p" "p_Kind p = KindWildcard" "0 \<le> p_Prefix p" "length b = p_Width p"
  shows "p_Prefix p \<le> int (8 * p_Width p)" "covers p b \<longleftrightarrow> same_prefix (nat (p_Prefix p)) (p_Value p) b"
proof -
  from assms have wf: "length (p_Mask p) = p_Width p" "p_Prefix p = maskPrefixLen (p_Mask p)"
    "length (p_Value p) = p_Width p" "and_bytes (p_Value p) (p_Mask p) = p_Value p"
    by (auto simp: pattern_wf_def)
  then obtain n where n: "p_Prefix p = int n" "n \<le> 8 * p_Width p"
    "\<And>j. j < 8 * p_Width p \<Longrightarrow> bit_at (p_Mask p) j \<longleftrightarrow> j < n"
    using assms(3) by (cases "p_Mask p" rule: maskPrefixLen_cases) auto
  from n(1,2) show "p_Prefix p \<le> int (8 * p_Width p)" by simp
  have "and_bytes b (p_Mask p) = p_Value p \<longleftrightarrow> same_prefix n (p_Value p) b"
    using wf n assms(4) by (intro masked_eq_iff_same_prefix) auto
  with assms(2) n(1) show "covers p b \<longleftrightarrow> same_prefix (nat (p_Prefix p)) (p_Value p) b"
    by (simp add: covers_def)
qed

lemma masked_match_copy16:
  "w \<le> 16 \<Longrightarrow> length m = w \<Longrightarrow> length v = w \<Longrightarrow>
   masked_match w b (copy16 m) (copy16 v) = masked_match w b m v"
  by (simp add: masked_match_def list_all_iff copy16_nth)

lemma matchWildcards_append:
  "matchWildcards (xs @ ys) b \<longleftrightarrow> matchWildcards xs b \<or> matchWildcards ys b"
  by (simp add: matchWildcards_def)

lemma contains_add_wildcard:
  assumes "pattern_wf p" "p_Kind p = KindWildcard" "length b = v" "v = 4 \<or> v = 16" "ms_wf m"
  shows "contains_bytes (add_wildcard m p) v b \<longleftrightarrow> contains_bytes m v b \<or> v = p_Width p \<and> covers p b"
proof (cases "0 \<le> p_Prefix p")
  case True
  show ?thesis
  proof (cases "v = p_Width p")
    case v: True
    with assms(3) have "length b = p_Width p" by simp
    from wildcard_prefix_iff [OF assms(1,2) True this] True v assms show ?thesis
      by (simp add: add_wildcard_def contains_insertPrefix pattern_wf_def)
  next
    case False
    from assms(1) have "contains_bytes (insertPrefix m (p_Width p) (p_Value p) (p_Prefix p)) v b =
        contains_bytes m v b"
      using False assms(4) by (auto simp: contains_bytes_def insertPrefix_def pattern_wf_def)
    with True False show ?thesis by (simp add: add_wildcard_def)
  qed
next
  case False
  from assms have "p_Width p \<le> 16" "length (p_Mask p) = p_Width p" "length (p_Value p) = p_Width p"
    by (auto simp: pattern_wf_def)
  with False assms show ?thesis
    by (auto simp: contains_bytes_def add_wildcard_def matchWildcards_append matchWildcards_def
        masked_match_copy16 masked_match_iff covers_def pattern_wf_def Let_def)
qed

lemma fold_insertPrefix:
  "fold (\<lambda>pe m. insertPrefix m 4 (pe_Net pe) (int (pe_Bits pe))) es m =
     m\<lparr>cidr4 := trie4.ins_entries es (cidr4 m)\<rparr>"
  "w \<noteq> 4 \<Longrightarrow> fold (\<lambda>pe m. insertPrefix m w (pe_Net pe) (int (pe_Bits pe))) es m =
     m\<lparr>cidr6 := trie6.ins_entries es (cidr6 m)\<rparr>"
  by (induction es arbitrary: m)
     (simp_all add: trie4.ins_entries_def trie6.ins_entries_def insertPrefix_def)

lemma add_range_eq:
  assumes "pattern_wf p" "p_Kind p = KindRange"
  shows "add_range m p =
    (if p_Width p = 4 then m\<lparr>cidr4 := trie4.ins_entries (range_loop (p_Value p) (p_End p)) (cidr4 m)\<rparr>
     else m\<lparr>cidr6 := trie6.ins_entries (range_loop (p_Value p) (p_End p)) (cidr6 m)\<rparr>)"
proof -
  have "rangeToPrefixes (p_Value p) (p_End p) = Some (range_loop (p_Value p) (p_End p))"
    using assms by (intro rangeToPrefixes_Some) (auto simp: pattern_wf_def)
  then show ?thesis by (simp add: add_range_def fold_insertPrefix)
qed

lemma contains_add_range:
  assumes "pattern_wf p" "p_Kind p = KindRange" "length b = v" "v = 4 \<or> v = 16" "ms_wf m"
  shows "contains_bytes (add_range m p) v b \<longleftrightarrow> contains_bytes m v b \<or> v = p_Width p \<and> covers p b"
proof -
  from assms have wf: "length (p_Value p) = p_Width p" "length (p_End p) = p_Width p"
    "be_val (p_Value p) \<le> be_val (p_End p)" "p_Width p = 4 \<or> p_Width p = 16"
    by (auto simp: pattern_wf_def)
  from assms(5) have "cidr4 m \<noteq> None" "cidr6 m \<noteq> None" by (auto simp: ms_wf_def)
  note r4 = trie4.mem_ins_range [OF this(1)] and r6 = trie6.mem_ins_range [OF this(2)]
  show ?thesis
  proof (cases "v = p_Width p")
    case True
    with r4 [of "p_Value p" "p_End p" b] r6 [of "p_Value p" "p_End p" b] wf assms(2,3) show ?thesis
      unfolding add_range_eq [OF assms(1,2)] by (auto simp: contains_bytes_def covers_def)
  next
    case False
    with wf(4) assms(4) show ?thesis
      unfolding add_range_eq [OF assms(1,2)] by (auto simp: contains_bytes_def)
  qed
qed

lemma ms_wf_add:
  assumes "ms_wf m"
  shows "ms_wf (add_single m p)" "ms_wf (add_wildcard m p)" "ms_wf (add_range m p)"
proof -
  show "ms_wf (add_single m p)" using assms by (simp add: ms_wf_def add_single_def)
  show "ms_wf (add_wildcard m p)"
    using assms ms_wf_insertPrefix [OF assms] by (simp add: add_wildcard_def Let_def) (simp add: ms_wf_def)
  have "ms_wf (fold (\<lambda>pe m. insertPrefix m w (pe_Net pe) (int (pe_Bits pe))) es m)" for es w
    using assms by (induction es arbitrary: m) (auto intro: ms_wf_insertPrefix)
  then show "ms_wf (add_range m p)" by (simp add: add_range_def)
qed

lemma contains_bytes_counters [simp]:
  "contains_bytes (m\<lparr>ms_stats := s\<rparr>) v b = contains_bytes m v b"
  "contains_bytes (m\<lparr>ms_count := n\<rparr>) v b = contains_bytes m v b"
  "ms_wf (m\<lparr>ms_stats := s\<rparr>) = ms_wf m" "ms_wf (m\<lparr>ms_count := n\<rparr>) = ms_wf m"
  by (simp_all add: contains_bytes_def ms_wf_def)

lemma ms_Add_bytes:
  assumes "ms_wf m" "ParsePatternLenient raw = Inr p" "length b = v" "v = 4 \<or> v = 16"
  shows "contains_bytes (snd (ms_Add m raw)) v b \<longleftrightarrow> contains_bytes m v b \<or> v = p_Width p \<and> covers p b"
proof -
  note wf = ParsePatternLenient_wf [OF assms(2)]
  show ?thesis
  proof (cases "p_Kind p")
    case KindInvalid
    with wf show ?thesis by (simp add: pattern_wf_def)
  next
    case KindCIDR
    show ?thesis
    proof (cases "v = p_Width p")
      case True
      with KindCIDR wf assms show ?thesis
        by (simp add: ms_Add_def contains_insertPrefix pattern_wf_def covers_def)
    next
      case False
      with KindCIDR wf assms show ?thesis
        by (auto simp: ms_Add_def insertPrefix_def contains_bytes_def pattern_wf_def)
    qed
  qed (use wf assms in \<open>simp_all add: ms_Add_def contains_add_single contains_add_wildcard
         contains_add_range\<close>)
qed

lemma ms_wf_Add: "ms_wf m \<Longrightarrow> ms_wf (snd (ms_Add m raw))"
  by (auto simp: ms_Add_def ms_wf_add ms_wf_insertPrefix split: sum.splits pattern_kind.splits)

lemma split_family:
  "A w \<Longrightarrow> (\<exists>v b. A v \<and> F v = Some b \<and> (C v b \<or> v = w \<and> D b)) \<longleftrightarrow>
   (\<exists>v b. A v \<and> F v = Some b \<and> C v b) \<or> (\<exists>b. F w = Some b \<and> D b)"
  by auto

lemma ms_Add_Contains:
  assumes "ms_wf m"
  shows "ms_Contains (Some (snd (ms_Add m raw))) ip \<longleftrightarrow>
    ms_Contains (Some m) ip \<or> (\<exists>p. ParsePatternLenient raw = Inr p \<and> Match p ip)"
proof (cases ip)
  case None
  then show ?thesis by (simp add: ms_Contains_def Match_def)
next
  case (Some a)
  show ?thesis
  proof (cases "ParsePatternLenient raw")
    case (Inl e)
    then show ?thesis by (simp add: ms_Add_def Some ms_Contains_bytes)
  next
    case (Inr p)
    note wf = ParsePatternLenient_wf [OF Inr]
    have w: "p_Width p = 4 \<or> p_Width p = 16" using wf by (simp add: pattern_wf_def)
    have "(v = 4 \<or> v = 16) \<and> family_bytes v a = Some b \<and> contains_bytes (snd (ms_Add m raw)) v b \<longleftrightarrow>
      (v = 4 \<or> v = 16) \<and> family_bytes v a = Some b \<and>
        (contains_bytes m v b \<or> v = p_Width p \<and> covers p b)" for v b
      using ms_Add_bytes [OF assms Inr, of b v] family_bytes_length [of v a b]
      by (cases "family_bytes v a = Some b \<and> (v = 4 \<or> v = 16)") auto
    then have "ms_Contains (Some (snd (ms_Add m raw))) (Some a) \<longleftrightarrow>
      (\<exists>v b. (v = 4 \<or> v = 16) \<and> family_bytes v a = Some b \<and>
        (contains_bytes m v b \<or> v = p_Width p \<and> covers p b))"
      unfolding ms_Contains_bytes by (simp only:)
    also have "\<dots> \<longleftrightarrow> ms_Contains (Some m) (Some a) \<or> Match p (Some a)"
      unfolding ms_Contains_bytes Match_covers [OF wf]
      by (rule split_family [of "\<lambda>v. v = 4 \<or> v = 16", OF w])
    finally show ?thesis using Inr Some by simp
  qed
qed

lemma ms_wf_new: "ms_wf newMatchSet"
  by (simp add: ms_wf_def newMatchSet_def newCIDRTrie_def)

lemma ms_Contains_new: "\<not> ms_Contains (Some newMatchSet) ip"
proof (cases ip)
  case (Some a)
  have "\<not> contains_bytes newMatchSet w b" for w b
    by (simp add: contains_bytes_def newMatchSet_def trie4.mem_new trie6.mem_new matchWildcards_def)
  then show ?thesis by (simp add: Some ms_Contains_bytes)
qed (simp add: ms_Contains_def)

lemma fold_ms_Add:
  "ms_wf m \<Longrightarrow> ms_Contains (Some (fold (\<lambda>raw m. snd (ms_Add m raw)) items m)) ip \<longleftrightarrow>
   ms_Contains (Some m) ip \<or> (\<exists>raw \<in> set items. \<exists>p. ParsePatternLenient raw = Inr p \<and> Match p ip)"
  by (induction items arbitrary: m) (auto simp: ms_wf_Add ms_Add_Contains)

subsection \<open>The contract of a list matcher\<close>

text \<open>The specification: some entry of the list is a pattern that matches.\<close>

definition list_matches :: "string list \<Rightarrow> gobytes option \<Rightarrow> bool" where
  "list_matches items ip \<longleftrightarrow>
     (\<exists>raw \<in> set items. \<exists>p. ParsePatternLenient raw = Inr p \<and> Match p ip)"

locale ip_matcher =
  fixes build :: "string list \<Rightarrow> 'm"
    and has :: "'m option \<Rightarrow> gobytes option \<Rightarrow> bool"
  assumes has_build: "has (Some (build items)) ip \<longleftrightarrow> list_matches items ip"
    and has_nil: "\<not> has None ip"
begin

lemma has_append: "has (Some (build (xs @ ys))) ip \<longleftrightarrow> has (Some (build xs)) ip \<or> has (Some (build ys)) ip"
  by (auto simp: has_build list_matches_def)

lemma has_mono: "set xs \<subseteq> set ys \<Longrightarrow> has (Some (build xs)) ip \<Longrightarrow> has (Some (build ys)) ip"
  by (auto simp: has_build list_matches_def)

lemma has_nil_ip: "\<not> has m None \<or> (\<exists>m'. m = Some m')"
  using has_nil by (cases m) auto

lemma has_invalid_dropped:
  "has (Some (build (filter (\<lambda>raw. \<exists>p. ParsePatternLenient raw = Inr p) items))) ip \<longleftrightarrow>
   has (Some (build items)) ip"
  by (auto simp: has_build list_matches_def)

text \<open>Building nothing for an empty list, as the index builders do, loses nothing.\<close>

lemma has_build_nonempty:
  "has (if items = [] then None else Some (build items)) ip \<longleftrightarrow> list_matches items ip"
  by (auto simp: has_build has_nil list_matches_def)

end

interpretation match_set: ip_matcher BuildMatchSet ms_Contains
proof
  show "ms_Contains (Some (BuildMatchSet items)) ip \<longleftrightarrow> list_matches items ip" for items ip
    using fold_ms_Add [OF ms_wf_new] ms_Contains_new by (simp add: BuildMatchSet_def list_matches_def)
qed (simp add: ms_Contains_def)

subsection \<open>List texts\<close>

definition listGroupPrefix :: string where
  "listGroupPrefix = ''group:''"

definition list_sep :: "char \<Rightarrow> bool" where
  "list_sep c \<longleftrightarrow> c = CHR 0x0A \<or> c = CHR 0x0D \<or> c = CHR '',''"

datatype list_line = LineSkip | LineGroup string | LinePattern string

text \<open>The body of the loop of \<open>ParseListText\<close>: what one field of the text stands for.\<close>

definition classify_line :: "string \<Rightarrow> list_line" where
  "classify_line field =
     (let line = TrimSpace field
      in if line = [] \<or> HasPrefix line ''#'' then LineSkip
         else if length listGroupPrefix \<le> length line \<and>
                 EqualFold (take (length listGroupPrefix) line) listGroupPrefix then
           (let code = TrimSpace (drop (length listGroupPrefix) line)
            in if code = [] then LineSkip else LineGroup code)
         else LinePattern line)"

fun list_text_loop :: "string list \<Rightarrow> string list \<Rightarrow> string list \<Rightarrow> string list \<times> string list" where
  "list_text_loop [] patterns codes = (patterns, codes)"
| "list_text_loop (f # fs) patterns codes =
     (case classify_line f of
        LineSkip \<Rightarrow> list_text_loop fs patterns codes
      | LineGroup c \<Rightarrow> list_text_loop fs patterns (if c \<in> set codes then codes else codes @ [c])
      | LinePattern p \<Rightarrow> list_text_loop fs (patterns @ [p]) codes)"

definition ParseListText :: "string \<Rightarrow> string list \<times> string list" where
  "ParseListText raw = list_text_loop (FieldsFunc list_sep [] raw) [] []"

definition BuildFromListText :: "string \<Rightarrow> MatchSet option" where
  "BuildFromListText raw =
     (let patterns = fst (ParseListText raw)
      in if patterns = [] then None else Some (BuildMatchSet patterns))"

definition GroupCodesOf :: "string \<Rightarrow> string list" where
  "GroupCodesOf raw = snd (ParseListText raw)"

lemma list_text_loop_patterns:
  "set (fst (list_text_loop fs ps cs)) = set ps \<union> {p. LinePattern p \<in> classify_line ` set fs}"
  by (induction fs ps cs rule: list_text_loop.induct) (auto split: list_line.splits)

lemma list_text_loop_codes:
  "set (snd (list_text_loop fs ps cs)) = set cs \<union> {c. LineGroup c \<in> classify_line ` set fs}"
  by (induction fs ps cs rule: list_text_loop.induct) (auto split: list_line.splits)

lemma list_text_loop_distinct: "distinct cs \<Longrightarrow> distinct (snd (list_text_loop fs ps cs))"
  by (induction fs ps cs rule: list_text_loop.induct) (auto split: list_line.splits)

subsection \<open>Index builders\<close>

definition IPEntryTypeGroup :: string where
  "IPEntryTypeGroup = ''group''"

text \<open>The fields of \<open>model.IPBlockList\<close> and \<open>model.IPAllowList\<close> the builders and the checks read.\<close>

record ip_list_row =
  row_Ip :: string
  row_IpType :: string
  row_GroupCode :: string

definition row_ips :: "ip_list_row list \<Rightarrow> string list" where
  "row_ips rows = map row_Ip (filter (\<lambda>r. row_IpType r \<noteq> IPEntryTypeGroup) rows)"

definition BuildIPBlockIndex :: "ip_list_row list \<Rightarrow> MatchSet option" where
  "BuildIPBlockIndex rows = (if rows = [] then None else Some (BuildMatchSet (row_ips rows)))"

definition BuildIPAllowIndex :: "ip_list_row list \<Rightarrow> MatchSet option" where
  "BuildIPAllowIndex rows = (if rows = [] then None else Some (BuildMatchSet (row_ips rows)))"

fun extract_codes :: "ip_list_row list \<Rightarrow> string list \<Rightarrow> string list" where
  "extract_codes [] codes = codes"
| "extract_codes (r # rs) codes =
     (if row_IpType r \<noteq> IPEntryTypeGroup \<or> row_GroupCode r = [] then extract_codes rs codes
      else if row_GroupCode r \<in> set codes then extract_codes rs codes
      else extract_codes rs (codes @ [row_GroupCode r]))"

definition ExtractBlockGroupCodes :: "ip_list_row list \<Rightarrow> string list" where
  "ExtractBlockGroupCodes rows = extract_codes rows []"

definition ExtractAllowGroupCodes :: "ip_list_row list \<Rightarrow> string list" where
  "ExtractAllowGroupCodes rows = extract_codes rows []"

lemma extract_codes_set:
  "set (extract_codes rows cs) = set cs \<union>
     {row_GroupCode r |r. r \<in> set rows \<and> row_IpType r = IPEntryTypeGroup \<and> row_GroupCode r \<noteq> []}"
  by (induction rows cs rule: extract_codes.induct) auto

lemma extract_codes_distinct: "distinct cs \<Longrightarrow> distinct (extract_codes rows cs)"
  by (induction rows cs rule: extract_codes.induct) auto

subsection \<open>The snapshot of the IP groups\<close>

text \<open>
  The snapshot maps codes and names to pointers, and the updates compare pointers, so a pointer is
  an address (\<open>None\<close> is nil) and the sets live in a store. Published snapshots are immutable: an
  update clones the two maps. The published pointer is the state of the operations.
\<close>

type_synonym ms_ptr = "nat option"
type_synonym ms_store = "nat \<Rightarrow> MatchSet"

record GroupSnapshot =
  ByCode :: "string \<rightharpoonup> ms_ptr"
  ByName :: "string \<rightharpoonup> ms_ptr"

type_synonym group_state = "GroupSnapshot option"

definition deref :: "ms_store \<Rightarrow> ms_ptr \<Rightarrow> MatchSet option" where
  "deref st p = map_option st p"

definition SetGroupSnapshot :: "group_state \<Rightarrow> GroupSnapshot option \<Rightarrow> group_state" where
  "SetGroupSnapshot g s = s"

definition cloneSnapshotLocked :: "group_state \<Rightarrow> GroupSnapshot" where
  "cloneSnapshotLocked g =
     (case g of None \<Rightarrow> \<lparr>ByCode = Map.empty, ByName = Map.empty\<rparr> | Some s \<Rightarrow> s)"

definition drop_names :: "ms_ptr \<Rightarrow> (string \<rightharpoonup> ms_ptr) \<Rightarrow> (string \<rightharpoonup> ms_ptr)" where
  "drop_names old byName = (\<lambda>n. if byName n = Some old then None else byName n)"

definition UpsertGroupMatcher :: "group_state \<Rightarrow> string \<Rightarrow> string \<Rightarrow> ms_ptr \<Rightarrow> group_state" where
  "UpsertGroupMatcher g code name m =
     (if code = [] then g
      else
        (let next = cloneSnapshotLocked g;
             names = (case ByCode next code of None \<Rightarrow> ByName next
                      | Some old \<Rightarrow> drop_names old (ByName next))
         in Some \<lparr>ByCode = (ByCode next)(code \<mapsto> m),
                  ByName = (if name \<noteq> [] then names(name \<mapsto> m) else names)\<rparr>))"

definition RemoveGroupMatcher :: "group_state \<Rightarrow> string \<Rightarrow> group_state" where
  "RemoveGroupMatcher g code =
     (if code = [] then g
      else case g of None \<Rightarrow> g
        | Some cur \<Rightarrow>
            (case ByCode cur code of None \<Rightarrow> g
             | Some old \<Rightarrow>
                 (let next = cloneSnapshotLocked g
                  in Some \<lparr>ByCode = (ByCode next)(code := None),
                           ByName = drop_names old (ByName next)\<rparr>)))"

text \<open>A missing key of a Go map reads as the zero value, here the nil pointer.\<close>

definition map_read :: "(string \<rightharpoonup> ms_ptr) \<Rightarrow> string \<Rightarrow> ms_ptr" where
  "map_read mp k = (case mp k of None \<Rightarrow> None | Some p \<Rightarrow> p)"

definition GetGroupMatcher :: "group_state \<Rightarrow> string \<Rightarrow> ms_ptr" where
  "GetGroupMatcher g code = (case g of None \<Rightarrow> None | Some s \<Rightarrow> map_read (ByCode s) code)"

definition LookupGroupMatcher :: "group_state \<Rightarrow> string \<Rightarrow> ms_ptr" where
  "LookupGroupMatcher g codeOrName =
     (case g of None \<Rightarrow> None
      | Some s \<Rightarrow>
          (let key = TrimSpace codeOrName
           in case ByCode s key of Some m \<Rightarrow> m | None \<Rightarrow> map_read (ByName s) key))"

definition GroupStats :: "ms_store \<Rightarrow> group_state \<Rightarrow> nat \<times> nat" where
  "GroupStats st g =
     (case g of None \<Rightarrow> (0, 0)
      | Some s \<Rightarrow>
          (card (dom (ByCode s)),
           (\<Sum>c \<in> dom (ByCode s). ms_Len (deref st (map_read (ByCode s) c)))))"

definition matchIPGroups :: "ms_store \<Rightarrow> group_state \<Rightarrow> string list \<Rightarrow> gobytes option \<Rightarrow> bool" where
  "matchIPGroups st g groupCodes parsedIp =
     list_ex (\<lambda>c. ms_Contains (deref st (GetGroupMatcher g c)) parsedIp) groupCodes"

text \<open>The threat matcher of global.go: one published pointer for all sites, nil when cleared.\<close>

definition SetGlobalThreatMatcher :: "ms_ptr \<Rightarrow> ms_ptr \<Rightarrow> ms_ptr" where
  "SetGlobalThreatMatcher published m = m"

definition GetGlobalThreatMatcher :: "ms_ptr \<Rightarrow> ms_ptr" where
  "GetGlobalThreatMatcher published = published"

text \<open>
  Well-formed snapshots: two codes never share a set, and a name points to the set of some code.
  The writer compiles a new set for every update, so the pointer it publishes is fresh.
\<close>

definition snapshot_ok :: "group_state \<Rightarrow> bool" where
  "snapshot_ok g \<longleftrightarrow>
     (case g of None \<Rightarrow> True
      | Some s \<Rightarrow> inj_on (ByCode s) (dom (ByCode s)) \<and> ran (ByName s) \<subseteq> ran (ByCode s))"

definition fresh_ptr :: "ms_ptr \<Rightarrow> group_state \<Rightarrow> bool" where
  "fresh_ptr p g \<longleftrightarrow> (case g of None \<Rightarrow> True | Some s \<Rightarrow> p \<notin> ran (ByCode s))"

lemma drop_names_ran:
  assumes "inj_on bc (dom bc)" "ran bn \<subseteq> ran bc" "bc code = Some old"
  shows "ran (drop_names old bn) \<subseteq> ran (bc(code := None))"
proof
  fix p assume "p \<in> ran (drop_names old bn)"
  then obtain n where "bn n = Some p" "p \<noteq> old" by (auto simp: ran_def drop_names_def split: if_splits)
  from \<open>bn n = Some p\<close> assms(2) have "p \<in> ran bc" by (blast intro: ranI)
  then obtain c where "bc c = Some p" by (auto simp: ran_def)
  moreover from this \<open>p \<noteq> old\<close> assms(3) have "c \<noteq> code" by auto
  ultimately show "p \<in> ran (bc(code := None))" by (auto simp: ran_def)
qed

lemma ran_sub_upd: "ran (bc(code := None)) \<subseteq> ran (bc(code \<mapsto> m))"
proof
  fix p assume "p \<in> ran (bc(code := None))"
  then obtain c where "c \<noteq> code" "bc c = Some p" by (auto simp: ran_def split: if_splits)
  then have "(bc(code \<mapsto> m)) c = Some p" by simp
  then show "p \<in> ran (bc(code \<mapsto> m))" by (rule ranI)
qed

lemma snapshot_ok_Upsert:
  assumes "snapshot_ok g" "fresh_ptr m g"
  shows "snapshot_ok (UpsertGroupMatcher g code name m)"
proof (cases "code = []")
  case False
  define s where "s = cloneSnapshotLocked g"
  have inj: "inj_on (ByCode s) (dom (ByCode s))" and sub: "ran (ByName s) \<subseteq> ran (ByCode s)"
    and fr: "m \<notin> ran (ByCode s)"
    using assms by (auto simp: s_def cloneSnapshotLocked_def snapshot_ok_def fresh_ptr_def
        split: option.splits)
  define names where "names = (case ByCode s code of None \<Rightarrow> ByName s
    | Some old \<Rightarrow> drop_names old (ByName s))"
  have n: "ran names \<subseteq> ran ((ByCode s)(code := None))"
  proof (cases "ByCode s code")
    case None
    then have "(ByCode s)(code := None) = ByCode s" by auto
    with None sub show ?thesis by (simp add: names_def)
  next
    case (Some old)
    with drop_names_ran [OF inj sub Some] show ?thesis by (simp add: names_def)
  qed
  have "ran (names(name \<mapsto> m)) \<subseteq> insert m (ran names)" by (auto simp: ran_def split: if_splits)
  moreover have "m \<in> ran ((ByCode s)(code \<mapsto> m))" by (rule ranI [of _ code]) simp
  ultimately have "ran (if name \<noteq> [] then names(name \<mapsto> m) else names) \<subseteq>
      ran ((ByCode s)(code \<mapsto> m))"
    using n ran_sub_upd [of "ByCode s" code m] by (simp only: split: if_split) blast
  moreover have "inj_on ((ByCode s)(code \<mapsto> m)) (dom ((ByCode s)(code \<mapsto> m)))"
    using inj fr by (auto simp: inj_on_def ran_def domIff)
  moreover have "UpsertGroupMatcher g code name m =
      Some \<lparr>ByCode = (ByCode s)(code \<mapsto> m), ByName = (if name \<noteq> [] then names(name \<mapsto> m) else names)\<rparr>"
    using False by (simp add: UpsertGroupMatcher_def s_def [symmetric] names_def [symmetric] Let_def)
  ultimately show ?thesis by (simp only: snapshot_ok_def option.case GroupSnapshot.simps)
qed (use assms in \<open>simp add: UpsertGroupMatcher_def\<close>)

lemma snapshot_ok_Remove: "snapshot_ok g \<Longrightarrow> snapshot_ok (RemoveGroupMatcher g code)"
proof -
  assume ok: "snapshot_ok g"
  show ?thesis
  proof (cases "code = [] \<or> (\<forall>s. g = Some s \<longrightarrow> ByCode s code = None)")
    case True
    with ok show ?thesis by (auto simp: RemoveGroupMatcher_def split: option.splits)
  next
    case False
    then obtain s old where g: "code \<noteq> []" "g = Some s" "ByCode s code = Some old" by auto
    with ok have inj: "inj_on (ByCode s) (dom (ByCode s))" and sub: "ran (ByName s) \<subseteq> ran (ByCode s)"
      by (auto simp: snapshot_ok_def)
    from inj have "inj_on ((ByCode s)(code := None)) (dom ((ByCode s)(code := None)))"
      by (auto simp: inj_on_def domIff)
    with drop_names_ran [OF inj sub g(3)] g show ?thesis
      by (simp add: RemoveGroupMatcher_def cloneSnapshotLocked_def snapshot_ok_def)
  qed
qed

subsection \<open>Counters\<close>

definition stats_total :: "Stats \<Rightarrow> nat" where
  "stats_total st = st_Exact st + st_CIDR st + st_Wildcard st + st_Range st"

lemma counters_untouched:
  "ms_stats (insertPrefix m w bs n) = ms_stats m" "ms_count (insertPrefix m w bs n) = ms_count m"
  "ms_stats (add_single m p) = ms_stats m" "ms_count (add_single m p) = ms_count m"
  "ms_stats (add_wildcard m p) = ms_stats m" "ms_count (add_wildcard m p) = ms_count m"
  by (simp_all add: insertPrefix_def add_single_def add_wildcard_def Let_def)

lemma counters_untouched_range:
  "ms_stats (add_range m p) = ms_stats m" "ms_count (add_range m p) = ms_count m"
proof -
  have "ms_stats (fold (\<lambda>pe m. insertPrefix m w (pe_Net pe) (int (pe_Bits pe))) es m) = ms_stats m \<and>
    ms_count (fold (\<lambda>pe m. insertPrefix m w (pe_Net pe) (int (pe_Bits pe))) es m) = ms_count m"
    for es :: "prefixEntry list" and w
    by (induction es arbitrary: m) (simp_all add: counters_untouched)
  then show "ms_stats (add_range m p) = ms_stats m" "ms_count (add_range m p) = ms_count m"
    by (simp_all add: add_range_def)
qed

lemma ms_Add_counters:
  "ms_count (snd (ms_Add m raw)) + st_Dropped (ms_stats (snd (ms_Add m raw))) =
     Suc (ms_count m + st_Dropped (ms_stats m))"
  "ms_count m = stats_total (ms_stats m) \<Longrightarrow>
   ms_count (snd (ms_Add m raw)) = stats_total (ms_stats (snd (ms_Add m raw)))"
  by (auto simp: ms_Add_def stats_total_def counters_untouched counters_untouched_range
      split: sum.splits pattern_kind.splits)

lemma fold_Add_counters:
  "ms_count m = stats_total (ms_stats m) \<Longrightarrow>
   ms_count (fold (\<lambda>raw m. snd (ms_Add m raw)) items m) =
     stats_total (ms_stats (fold (\<lambda>raw m. snd (ms_Add m raw)) items m)) \<and>
   ms_count (fold (\<lambda>raw m. snd (ms_Add m raw)) items m) +
     st_Dropped (ms_stats (fold (\<lambda>raw m. snd (ms_Add m raw)) items m)) =
   length items + ms_count m + st_Dropped (ms_stats m)"
proof (induction items arbitrary: m)
  case (Cons raw items)
  from Cons.IH [OF ms_Add_counters(2) [OF Cons.prems, of raw]] ms_Add_counters(1) [of m raw]
  show ?case by simp
qed simp

subsection \<open>Properties\<close>

text \<open>
  C2. The compiled set refines the list it was built from: it contains an address exactly when
  some entry of the list, read by the lenient parser, matches it. Exact maps, prefix trees,
  interval decomposition and the wildcard table together neither add nor lose an address.
\<close>

theorem BuildMatchSet_Contains:
  "ms_Contains (Some (BuildMatchSet items)) ip \<longleftrightarrow>
     (\<exists>raw \<in> set items. \<exists>p. ParsePatternLenient raw = Inr p \<and> Match p ip)"
  using match_set.has_build [of items ip] by (simp add: list_matches_def)

text \<open>
  The counters of a compiled set add up: the entries taken are those of the four kinds, and
  together with the dropped ones they are all the entries given.
\<close>

theorem BuildMatchSet_counters:
  "ms_Len (Some (BuildMatchSet items)) = stats_total (ms_Stats (Some (BuildMatchSet items))) \<and>
   ms_Len (Some (BuildMatchSet items)) + st_Dropped (ms_Stats (Some (BuildMatchSet items))) =
     length items"
  using fold_Add_counters [of newMatchSet items]
  by (simp add: BuildMatchSet_def ms_Len_def ms_Stats_def newMatchSet_def empty_stats_def
      stats_total_def)

text \<open>
  A list text denotes its pattern lines: the set compiled from it (nil without any) contains
  an address exactly when a field that is neither blank, a comment nor a group reference is a
  pattern that matches it; the group codes are those of the group fields, each once.
\<close>

theorem BuildFromListText_Contains:
  "(ms_Contains (BuildFromListText raw) ip \<longleftrightarrow>
      (\<exists>field \<in> set (FieldsFunc list_sep [] raw). \<exists>line p. classify_line field = LinePattern line \<and>
         ParsePatternLenient line = Inr p \<and> Match p ip)) \<and>
   set (GroupCodesOf raw) =
      {c. \<exists>field \<in> set (FieldsFunc list_sep [] raw). classify_line field = LineGroup c} \<and>
   distinct (GroupCodesOf raw)"
proof -
  let ?fs = "FieldsFunc list_sep [] raw"
  have "set (fst (ParseListText raw)) = {p. LinePattern p \<in> classify_line ` set ?fs}"
    by (simp add: ParseListText_def list_text_loop_patterns)
  then have "ms_Contains (BuildFromListText raw) ip \<longleftrightarrow>
      (\<exists>field \<in> set ?fs. \<exists>line p. classify_line field = LinePattern line \<and>
         ParsePatternLenient line = Inr p \<and> Match p ip)"
    using match_set.has_build_nonempty [of "fst (ParseListText raw)" ip]
    by (auto simp: BuildFromListText_def Let_def list_matches_def image_iff) metis+
  moreover have "set (GroupCodesOf raw) = {c. \<exists>field \<in> set ?fs. classify_line field = LineGroup c}"
    by (auto simp: GroupCodesOf_def ParseListText_def list_text_loop_codes image_iff) metis+
  moreover have "distinct (GroupCodesOf raw)"
    by (simp add: GroupCodesOf_def ParseListText_def list_text_loop_distinct)
  ultimately show ?thesis by blast
qed

text \<open>
  Publishing a newly compiled set for a group takes effect for that group alone: its code
  and its name give the new set, every other code gives what it gave before, names of the old
  set are gone, names of other groups stay, and the snapshot stays well-formed.
\<close>

theorem UpsertGroupMatcher_correct:
  assumes "snapshot_ok g" "fresh_ptr m g" "code \<noteq> []" "name \<noteq> []"
    "g' = UpsertGroupMatcher g code name m"
  shows "snapshot_ok g' \<and> GetGroupMatcher g' code = m \<and>
    (\<forall>c. c \<noteq> code \<longrightarrow> GetGroupMatcher g' c = GetGroupMatcher g c) \<and>
    map_read (ByName (the g')) name = m \<and>
    (\<forall>n old. n \<noteq> name \<longrightarrow> ByCode (cloneSnapshotLocked g) code = Some old \<longrightarrow>
        ByName (cloneSnapshotLocked g) n = Some old \<longrightarrow> ByName (the g') n = None) \<and>
    (\<forall>n p. n \<noteq> name \<longrightarrow> ByName (cloneSnapshotLocked g) n = Some p \<longrightarrow>
        ByCode (cloneSnapshotLocked g) code \<noteq> Some p \<longrightarrow> ByName (the g') n = Some p)"
proof -
  have "snapshot_ok g'" using snapshot_ok_Upsert [OF assms(1,2)] assms(5) by simp
  moreover have "GetGroupMatcher g' code = m \<and> map_read (ByName (the g')) name = m \<and>
      (\<forall>c. c \<noteq> code \<longrightarrow> GetGroupMatcher g' c = GetGroupMatcher g c)"
    using assms(3-5)
    by (auto simp: UpsertGroupMatcher_def GetGroupMatcher_def map_read_def Let_def
        cloneSnapshotLocked_def split: option.splits)
  moreover have "\<forall>n. n \<noteq> name \<longrightarrow> ByName (the g') n =
      (case ByCode (cloneSnapshotLocked g) code of None \<Rightarrow> ByName (cloneSnapshotLocked g)
       | Some old \<Rightarrow> drop_names old (ByName (cloneSnapshotLocked g))) n"
    using assms(3-5) by (simp add: UpsertGroupMatcher_def Let_def)
  ultimately show ?thesis by (auto simp: drop_names_def split: option.splits)
qed

theorem UpsertGroupMatcher_correct_witness:
  "let g = UpsertGroupMatcher None ''c1'' ''old'' (Some 0);
       g' = UpsertGroupMatcher g ''c1'' ''new'' (Some 1)
   in GetGroupMatcher g' ''c1'' = Some 1 \<and> ByName (the g') ''old'' = None \<and> snapshot_ok g'"
proof -
  define g where "g = UpsertGroupMatcher None ''c1'' ''old'' (Some 0)"
  have g: "g = Some \<lparr>ByCode = [''c1'' \<mapsto> Some 0], ByName = [''old'' \<mapsto> Some 0]\<rparr>"
    by (simp add: g_def UpsertGroupMatcher_def cloneSnapshotLocked_def)
  have "snapshot_ok g" "fresh_ptr (Some 1) g" by (simp_all add: g snapshot_ok_def fresh_ptr_def)
  from UpsertGroupMatcher_correct [OF this _ _ refl, of "''c1''" "''new''"] show ?thesis
    unfolding g_def [symmetric] by (auto simp: g cloneSnapshotLocked_def)
qed

end
