(* ===== verification/Load_Balance.thy ===== *)
theory Load_Balance
  imports Waf_Prelude
begin

text \<open>
  Package loadbalance (weighted_round_robin.go, iphash.go), the choice of the backend in
  wafenginecore/loadbalance.go and the health table of wafenginecore/healthcheck.go.

  The theorems show that the smooth weighted round robin serves every node exactly its weight in
  each period and then repeats, that the consistent-hash ring finds the first healthy backend
  clockwise whenever there is one, and that the round robin's search for a healthy node can miss one.
\<close>

subsection \<open>The health table\<close>

record HostHealthy =
  IsHealthy :: bool
  LastCheckTime :: int
  FailCount :: int
  SuccessCount :: int
  LastErrorReason :: string
  BackIP :: string
  BackPort :: int

text \<open>\<open>HostStatus.HealthyStatus\<close>: a nil map is \<open>None\<close>.\<close>

type_synonym health_table = "(string \<rightharpoonup> HostHealthy) option"

definition IsBackendHealthy :: "health_table \<Rightarrow> string \<Rightarrow> string \<Rightarrow> bool" where
  "IsBackendHealthy ht hostCode backendID =
     (case ht of None \<Rightarrow> True
      | Some m \<Rightarrow>
          (case m (hostCode @ ''_'' @ backendID) of None \<Rightarrow> True | Some status \<Rightarrow> IsHealthy status))"

definition CleanupStaleHealthStatus :: "string set \<Rightarrow> health_table \<Rightarrow> health_table" where
  "CleanupStaleHealthStatus validKeys ht = map_option (\<lambda>m. m |` validKeys) ht"

definition CleanupHostHealthStatus :: "string \<Rightarrow> health_table \<Rightarrow> health_table" where
  "CleanupHostHealthStatus hostCode ht =
     map_option (\<lambda>m k. if HasPrefix k (hostCode @ ''_'') then None else m k) ht"

definition GetBackendHealthy :: "health_table \<Rightarrow> string \<Rightarrow> string \<Rightarrow> HostHealthy option" where
  "GetBackendHealthy ht hostCode backendID =
     (case ht of None \<Rightarrow> None | Some m \<Rightarrow> m (hostCode @ ''_'' @ backendID))"

subsection \<open>Weighted round robin\<close>

record WeightNode =
  wn_addr :: int
  weight :: int
  currentWeight :: int
  effectiveWeight :: int

record WeightRoundRobinBalance =
  wrr_hostCode :: string
  rss :: "WeightNode list"

definition NewWeightRoundRobinBalance :: "string \<Rightarrow> WeightRoundRobinBalance" where
  "NewWeightRoundRobinBalance hostCode = \<lparr>wrr_hostCode = hostCode, rss = []\<rparr>"

definition wrr_Add :: "WeightRoundRobinBalance \<Rightarrow> int \<Rightarrow> int \<Rightarrow> WeightRoundRobinBalance" where
  "wrr_Add b addr w =
     b\<lparr>rss := rss b @ [\<lparr>wn_addr = addr, weight = w, currentWeight = 0, effectiveWeight = w\<rparr>]\<rparr>"

definition wn_bump :: "WeightNode \<Rightarrow> WeightNode" where
  "wn_bump w =
     w\<lparr>currentWeight := currentWeight w + effectiveWeight w,
       effectiveWeight := (if effectiveWeight w < weight w then effectiveWeight w + 1
                           else effectiveWeight w)\<rparr>"

text \<open>
  The loop of \<open>Next\<close>: the nodes already bumped, the total of the effective weights and the index
  of the best node so far with its current weight.
\<close>

fun next_loop :: "nat \<Rightarrow> WeightNode list \<Rightarrow> int \<Rightarrow> (nat \<times> int) option \<Rightarrow>
    WeightNode list \<times> int \<times> (nat \<times> int) option" where
  "next_loop i [] tot best = ([], tot, best)"
| "next_loop i (w # ws) tot best =
     (let w' = wn_bump w;
          best' = (case best of None \<Rightarrow> Some (i, currentWeight w')
                   | Some (b, cw) \<Rightarrow> if cw < currentWeight w' then Some (i, currentWeight w') else best);
          (ws', t, b) = next_loop (Suc i) ws (tot + effectiveWeight w) best'
      in (w' # ws', t, b))"

definition wrr_Next :: "WeightRoundRobinBalance \<Rightarrow> int \<times> WeightRoundRobinBalance" where
  "wrr_Next r =
     (case next_loop 0 (rss r) 0 None of
        (ws, tot, None) \<Rightarrow> (-1, r\<lparr>rss := ws\<rparr>)
      | (ws, tot, Some (i, cw)) \<Rightarrow>
          (wn_addr (ws ! i),
           r\<lparr>rss := ws[i := (ws ! i)\<lparr>currentWeight := currentWeight (ws ! i) - tot\<rparr>]\<rparr>))"

definition wrr_Get :: "WeightRoundRobinBalance \<Rightarrow> int \<times> WeightRoundRobinBalance" where
  "wrr_Get r = wrr_Next r"

text \<open>
  The search for a healthy node: at most as many turns as there are nodes. \<open>None\<close> stands for the
  index panic of \<open>r.rss[0]\<close> on a balancer without nodes.
\<close>

fun healthy_loop :: "nat \<Rightarrow> (string \<Rightarrow> string \<Rightarrow> bool) \<Rightarrow> WeightRoundRobinBalance \<Rightarrow>
    int option \<times> WeightRoundRobinBalance" where
  "healthy_loop 0 isHealthy r = (None, r)"
| "healthy_loop (Suc n) isHealthy r =
     (let (next, r') = wrr_Next r
      in if next = -1 then (None, r')
         else if isHealthy (wrr_hostCode r') (Itoa next) then (Some next, r')
         else healthy_loop n isHealthy r')"

definition wrr_GetHealthy :: "WeightRoundRobinBalance \<Rightarrow> (string \<Rightarrow> string \<Rightarrow> bool) \<Rightarrow>
    int option \<times> WeightRoundRobinBalance" where
  "wrr_GetHealthy r isHealthy =
     (case healthy_loop (length (rss r)) isHealthy r of
        (Some a, r') \<Rightarrow> (Some a, r')
      | (None, r') \<Rightarrow> (if rss r' = [] then None else Some (wn_addr (hd (rss r'))), r'))"

subsection \<open>Consistent hashing\<close>

text \<open>\<open>crc32.ChecksumIEEE\<close>, bit by bit.\<close>

fun crc32_bits :: "nat \<Rightarrow> 32 word \<Rightarrow> 32 word" where
  "crc32_bits 0 c = c"
| "crc32_bits (Suc n) c =
     crc32_bits n (if c AND 1 = 1 then drop_bit 1 c XOR 0xEDB88320 else drop_bit 1 c)"

definition ChecksumIEEE :: "string \<Rightarrow> 32 word" where
  "ChecksumIEEE s = NOT (fold (\<lambda>c h. crc32_bits 8 (h XOR of_nat (char_code c))) s (NOT 0))"

record ConsistentHashBalance =
  ch_hostCode :: string
  ch_hash :: "string \<Rightarrow> 32 word"
  ch_keys :: "32 word list"
  ch_hashMap :: "32 word \<rightharpoonup> string"

definition NewConsistentHashBalance :: "(string \<Rightarrow> 32 word) option \<Rightarrow> string \<Rightarrow> ConsistentHashBalance" where
  "NewConsistentHashBalance fn hostCode =
     \<lparr>ch_hostCode = hostCode, ch_hash = (case fn of None \<Rightarrow> ChecksumIEEE | Some f \<Rightarrow> f),
      ch_keys = [], ch_hashMap = Map.empty\<rparr>"

datatype lb_error = ErrWeight | ErrNoBackend

definition ch_add_node :: "string \<Rightarrow> nat \<Rightarrow> ConsistentHashBalance \<Rightarrow> ConsistentHashBalance" where
  "ch_add_node addr i c =
     (let h = ch_hash c (Itoa (int i) @ ''I'' @ addr)
      in c\<lparr>ch_keys := ch_keys c @ [h], ch_hashMap := (ch_hashMap c)(h \<mapsto> addr)\<rparr>)"

definition ch_Add :: "ConsistentHashBalance \<Rightarrow> string \<Rightarrow> int \<Rightarrow> lb_error option \<times> ConsistentHashBalance" where
  "ch_Add c addr w =
     (if w \<le> 0 then (Some ErrWeight, c)
      else (let c' = fold (ch_add_node addr) [0..<nat w] c
            in (None, c'\<lparr>ch_keys := sort (ch_keys c')\<rparr>)))"

text \<open>\<open>sort.Search\<close>: the binary search of the standard library.\<close>

function search_loop :: "(nat \<Rightarrow> bool) \<Rightarrow> nat \<Rightarrow> nat \<Rightarrow> nat" where
  "search_loop f i j =
     (if i < j then (let h = (i + j) div 2 in if \<not> f h then search_loop f (Suc h) j else search_loop f i h)
      else i)"
  by pat_completeness auto
termination
  by (relation "measure (\<lambda>(f, i, j). j - i)") (auto simp: Let_def)

declare search_loop.simps [simp del]

definition sort_Search :: "nat \<Rightarrow> (nat \<Rightarrow> bool) \<Rightarrow> nat" where
  "sort_Search n f = search_loop f 0 n"

text \<open>A missing key of the Go map reads as the empty string.\<close>

definition ch_owner :: "ConsistentHashBalance \<Rightarrow> nat \<Rightarrow> string" where
  "ch_owner c i = (case ch_hashMap c (ch_keys c ! i) of None \<Rightarrow> [] | Some a \<Rightarrow> a)"

definition ch_start :: "ConsistentHashBalance \<Rightarrow> string \<Rightarrow> nat" where
  "ch_start c key =
     (let hash = ch_hash c key; idx = sort_Search (length (ch_keys c)) (\<lambda>i. hash \<le> ch_keys c ! i)
      in if idx = length (ch_keys c) then 0 else idx)"

definition ch_Get :: "ConsistentHashBalance \<Rightarrow> string \<Rightarrow> lb_error + string" where
  "ch_Get c key =
     (if ch_keys c = [] then Inl ErrNoBackend else Inr (ch_owner c (ch_start c key)))"

text \<open>The walk around the ring, with the addresses already checked.\<close>

fun ring_walk :: "(string \<Rightarrow> bool) \<Rightarrow> string list \<Rightarrow> string set \<Rightarrow> string option" where
  "ring_walk ok [] checked = None"
| "ring_walk ok (addr # rest) checked =
     (if addr \<in> checked then ring_walk ok rest checked
      else if ok addr then Some addr
      else ring_walk ok rest (insert addr checked))"

definition ring_order :: "ConsistentHashBalance \<Rightarrow> nat \<Rightarrow> string list" where
  "ring_order c idx =
     map (\<lambda>i. ch_owner c ((idx + i) mod length (ch_keys c))) [0..<length (ch_keys c)]"

definition ch_GetHealthy :: "ConsistentHashBalance \<Rightarrow> string \<Rightarrow> (string \<Rightarrow> string \<Rightarrow> bool) \<Rightarrow> lb_error + string" where
  "ch_GetHealthy c key isHealthy =
     (if ch_keys c = [] then Inl ErrNoBackend
      else (let startIdx = ch_start c key
            in case ring_walk (isHealthy (ch_hostCode c)) (ring_order c startIdx) {} of
                 Some addr \<Rightarrow> Inr addr
               | None \<Rightarrow> Inr (ch_owner c startIdx)))"

subsection \<open>The choice of the backend\<close>

record lb_runtime =
  lb_wrr :: WeightRoundRobinBalance
  lb_iphash :: ConsistentHashBalance

text \<open>
  \<open>getProxyIndex\<close>; \<open>strconv.Atoi\<close> of a text that is no number gives 0 and the error is dropped, and
  an error of the balancer is logged and leaves the zero value.
\<close>

definition getProxyIndex :: "health_table \<Rightarrow> int \<Rightarrow> string \<Rightarrow> lb_runtime \<Rightarrow> int option \<times> lb_runtime" where
  "getProxyIndex ht stage ip rt =
     (if stage = 1 then
        (let (a, w) = wrr_GetHealthy (lb_wrr rt) (IsBackendHealthy ht) in (a, rt\<lparr>lb_wrr := w\<rparr>))
      else if stage = 2 then
        (let s = (case ch_GetHealthy (lb_iphash rt) ip (IsBackendHealthy ht) of Inl _ \<Rightarrow> [] | Inr s \<Rightarrow> s)
         in (Some (case ParseInt s of None \<Rightarrow> 0 | Some i \<Rightarrow> i), rt))
      else (Some (-1), rt))"

subsection \<open>One turn of the round robin\<close>

fun best_of :: "nat \<Rightarrow> int list \<Rightarrow> (nat \<times> int) option \<Rightarrow> (nat \<times> int) option" where
  "best_of i [] best = best"
| "best_of i (c # cs) best =
     best_of (Suc i) cs
       (case best of None \<Rightarrow> Some (i, c) | Some (b, cw) \<Rightarrow> if cw < c then Some (i, c) else best)"

lemma next_loop_eq:
  "next_loop i ws t b =
     (map wn_bump ws, t + sum_list (map effectiveWeight ws),
      best_of i (map (\<lambda>w. currentWeight (wn_bump w)) ws) b)"
  by (induction i ws t b rule: next_loop.induct) (simp add: Let_def split: option.splits)+

lemma best_of_Some:
  "b < i \<Longrightarrow>
   best_of i cs (Some (b, cw)) = Some (b, cw) \<and> (\<forall>c \<in> set cs. c \<le> cw) \<or>
   (\<exists>k < length cs. best_of i cs (Some (b, cw)) = Some (i + k, cs ! k) \<and> cw \<le> cs ! k \<and>
      (\<forall>c \<in> set cs. c \<le> cs ! k))"
proof (induction cs arbitrary: i b cw)
  case Nil
  then show ?case by simp
next
  case (Cons c cs)
  show ?case
  proof (cases "cw < c")
    case True
    from Cons.IH [of i "Suc i" c] True show ?thesis by (fastforce simp: nth_Cons')
  next
    case False
    from Cons.IH [of b "Suc i" cw] False Cons.prems show ?thesis by (fastforce simp: nth_Cons')
  qed
qed

lemma best_of_max:
  assumes "cs \<noteq> []"
  obtains k where "k < length cs" "best_of 0 cs None = Some (k, cs ! k)" "\<forall>c \<in> set cs. c \<le> cs ! k"
proof -
  obtain c cs' where cs: "cs = c # cs'" using assms by (cases cs) auto
  from best_of_Some [of 0 1 cs' c] show thesis
    by (fastforce simp: cs intro: that)
qed

lemma wrr_Next_step:
  assumes "rss r \<noteq> []"
  obtains i where "i < length (rss r)" "fst (wrr_Next r) = wn_addr (rss r ! i)"
    "rss (snd (wrr_Next r)) = (map wn_bump (rss r))[i := (wn_bump (rss r ! i))
        \<lparr>currentWeight := currentWeight (wn_bump (rss r ! i)) - sum_list (map effectiveWeight (rss r))\<rparr>]"
    "\<forall>w \<in> set (rss r). currentWeight (wn_bump w) \<le> currentWeight (wn_bump (rss r ! i))"
proof -
  from assms have "map (\<lambda>w. currentWeight (wn_bump w)) (rss r) \<noteq> []" by simp
  from best_of_max [OF this] obtain k where k: "k < length (rss r)"
    "best_of 0 (map (\<lambda>w. currentWeight (wn_bump w)) (rss r)) None =
       Some (k, currentWeight (wn_bump (rss r ! k)))"
    "\<forall>w \<in> set (rss r). currentWeight (wn_bump w) \<le> currentWeight (wn_bump (rss r ! k))"
    by (auto simp: image_iff)
  then show thesis
    by (intro that [of k]) (simp_all add: wrr_Next_def next_loop_eq wn_bump_def)
qed

subsection \<open>Fairness\<close>

fun wrr_run :: "nat \<Rightarrow> WeightRoundRobinBalance \<Rightarrow> int list \<times> WeightRoundRobinBalance" where
  "wrr_run 0 r = ([], r)"
| "wrr_run (Suc n) r = (let (as, r1) = wrr_run n r; (a, r2) = wrr_Next r1 in (as @ [a], r2))"

definition total_weight :: "WeightNode list \<Rightarrow> int" where
  "total_weight ws = sum_list (map weight ws)"

text \<open>
  The state after the picks \<open>as\<close>: what each node is owed, and that no node is a whole period behind.
\<close>

definition wrr_state :: "WeightNode list \<Rightarrow> int list \<Rightarrow> WeightNode list \<Rightarrow> bool" where
  "wrr_state ws0 as ws \<longleftrightarrow>
     map wn_addr ws = map wn_addr ws0 \<and> map weight ws = map weight ws0 \<and>
     sum_list (map currentWeight ws) = 0 \<and>
     (\<forall>w \<in> set ws. effectiveWeight w = weight w \<and> - total_weight ws0 < currentWeight w \<and>
        currentWeight w = int (length as) * weight w - total_weight ws0 * int (count_list as (wn_addr w)))"

lemma sum_list_bump:
  "\<forall>w \<in> set ws. effectiveWeight w = weight w \<Longrightarrow>
   sum_list (map (\<lambda>w. currentWeight (wn_bump w)) ws) = sum_list (map currentWeight ws) + total_weight ws"
  by (induction ws) (auto simp: wn_bump_def total_weight_def)

lemma sum_list_nonpos: "\<forall>x \<in> set xs. x \<le> (0 :: int) \<Longrightarrow> sum_list xs \<le> 0"
  by (induction xs) auto

lemma sum_list_upd:
  "i < length xs \<Longrightarrow> sum_list (map f (xs[i := y])) = sum_list (map f xs) - f (xs ! i) + (f y :: int)"
  by (induction xs arbitrary: i) (auto split: nat.splits simp: nth_Cons')

lemma count_list_snoc: "count_list (as @ [a]) x = count_list as x + (if a = x then 1 else 0)"
  by (induction as) auto

lemma wrr_state_step:
  assumes st: "wrr_state ws0 as (rss r)" and d: "distinct (map wn_addr ws0)"
    and pos: "\<forall>w \<in> set ws0. 0 \<le> weight w" "0 < total_weight ws0"
  shows "wrr_state ws0 (as @ [fst (wrr_Next r)]) (rss (snd (wrr_Next r)))"
proof -
  let ?W = "total_weight ws0" and ?ws = "rss r"
  from st have addr: "map wn_addr ?ws = map wn_addr ws0" and wt: "map weight ?ws = map weight ws0"
    and s0: "sum_list (map currentWeight ?ws) = 0"
    and node: "\<And>w. w \<in> set ?ws \<Longrightarrow> effectiveWeight w = weight w \<and> - ?W < currentWeight w \<and>
      currentWeight w = int (length as) * weight w - ?W * int (count_list as (wn_addr w))"
    by (auto simp: wrr_state_def)
  have W: "total_weight ?ws = ?W" by (simp add: total_weight_def wt)
  have ew: "map effectiveWeight ?ws = map weight ?ws" using node by simp
  have E: "sum_list (map effectiveWeight ?ws) = ?W"
    unfolding ew using W by (simp add: total_weight_def)
  have ne: "?ws \<noteq> []" using pos(2) W by (auto simp: total_weight_def)
  have nonneg: "0 \<le> weight w" if "w \<in> set ?ws" for w
    using that wt pos(1) by (metis (mono_tags, lifting) image_eqI image_iff list.set_map)
  from wrr_Next_step [OF ne, unfolded E] obtain i where i: "i < length ?ws"
    and a: "fst (wrr_Next r) = wn_addr (?ws ! i)"
    and r': "rss (snd (wrr_Next r)) = (map wn_bump ?ws)[i := (wn_bump (?ws ! i))
        \<lparr>currentWeight := currentWeight (wn_bump (?ws ! i)) - ?W\<rparr>]"
    and mx: "\<forall>w \<in> set ?ws. currentWeight (wn_bump w) \<le> currentWeight (wn_bump (?ws ! i))"
    .
  have sb: "sum_list (map (\<lambda>w. currentWeight (wn_bump w)) ?ws) = ?W"
    using sum_list_bump [of ?ws] node s0 W by simp
  have mpos: "0 < currentWeight (wn_bump (?ws ! i))"
  proof (rule ccontr)
    assume "\<not> 0 < currentWeight (wn_bump (?ws ! i))"
    with mx have "\<forall>x \<in> set (map (\<lambda>w. currentWeight (wn_bump w)) ?ws). x \<le> 0" by fastforce
    from sum_list_nonpos [OF this] sb pos(2) show False by simp
  qed
  let ?ws' = "rss (snd (wrr_Next r))"
  have len: "length ?ws' = length ?ws" by (simp add: r')
  have nth: "?ws' ! j = (if j = i then (wn_bump (?ws ! i))\<lparr>currentWeight := currentWeight (wn_bump (?ws ! i)) - ?W\<rparr>
      else wn_bump (?ws ! j))" if "j < length ?ws" for j
    using that i by (simp add: r' nth_list_update)
  have dist: "wn_addr (?ws ! j) = wn_addr (?ws ! i) \<longleftrightarrow> j = i" if "j < length ?ws" for j
    using that i d addr by (metis length_map nth_eq_iff_index_eq nth_map)
  have "effectiveWeight (?ws' ! j) = weight (?ws' ! j) \<and> - ?W < currentWeight (?ws' ! j) \<and>
      currentWeight (?ws' ! j) = int (length (as @ [fst (wrr_Next r)])) * weight (?ws' ! j) -
        ?W * int (count_list (as @ [fst (wrr_Next r)]) (wn_addr (?ws' ! j)))" if j: "j < length ?ws" for j
  proof -
    have m: "?ws ! j \<in> set ?ws" using j by simp
    note n = node [OF m] and nn = nonneg [OF m]
    show ?thesis
    proof (cases "j = i")
      case True
      have "0 < currentWeight (?ws ! j) + weight (?ws ! j)"
        using mpos n True by (simp add: wn_bump_def)
      moreover have "currentWeight (?ws' ! j) = currentWeight (?ws ! j) + weight (?ws ! j) - ?W"
        "weight (?ws' ! j) = weight (?ws ! j)" "wn_addr (?ws' ! j) = wn_addr (?ws ! j)"
        "effectiveWeight (?ws' ! j) = weight (?ws ! j)"
        using nth [OF j] n True by (simp_all add: wn_bump_def)
      ultimately show ?thesis
        using n True by (simp add: a count_list_snoc distrib_left distrib_right)
    next
      case False
      have "currentWeight (?ws' ! j) = currentWeight (?ws ! j) + weight (?ws ! j)"
        "weight (?ws' ! j) = weight (?ws ! j)" "wn_addr (?ws' ! j) = wn_addr (?ws ! j)"
        "effectiveWeight (?ws' ! j) = weight (?ws ! j)"
        using nth [OF j] n False by (simp_all add: wn_bump_def)
      moreover have "wn_addr (?ws ! i) \<noteq> wn_addr (?ws ! j)" using dist [OF j] False by auto
      ultimately show ?thesis
        using n nn by (simp add: a count_list_snoc distrib_right)
    qed
  qed
  then have nodes: "\<forall>w \<in> set ?ws'. effectiveWeight w = weight w \<and> - ?W < currentWeight w \<and>
      currentWeight w = int (length (as @ [fst (wrr_Next r)])) * weight w -
        ?W * int (count_list (as @ [fst (wrr_Next r)]) (wn_addr w))"
    unfolding all_set_conv_all_nth len by blast
  have "map wn_addr ?ws' = map wn_addr ?ws" "map weight ?ws' = map weight ?ws"
    using nth len by (auto intro!: nth_equalityI simp: wn_bump_def)
  moreover have "sum_list (map currentWeight ?ws') = 0"
    unfolding r' using i sb by (subst sum_list_upd) (simp_all add: comp_def)
  ultimately show ?thesis using nodes addr wt unfolding wrr_state_def by metis
qed

lemma wrr_run_state:
  assumes "wrr_state ws0 [] (rss r)" "distinct (map wn_addr ws0)"
    "\<forall>w \<in> set ws0. 0 \<le> weight w" "0 < total_weight ws0" "wrr_run n r = (as, r')"
  shows "wrr_state ws0 as (rss r') \<and> length as = n \<and> wrr_hostCode r' = wrr_hostCode r"
  using assms(5)
proof (induction n arbitrary: as r')
  case 0
  with assms(1) show ?case by simp
next
  case (Suc n)
  obtain bs r1 where r1: "wrr_run n r = (bs, r1)" by fastforce
  with Suc.prems have eq: "as = bs @ [fst (wrr_Next r1)]" "r' = snd (wrr_Next r1)"
    by (auto split: prod.splits)
  have "wrr_hostCode (snd (wrr_Next q)) = wrr_hostCode q" for q
    by (simp add: wrr_Next_def split: prod.splits option.splits)
  with Suc.IH [OF r1] wrr_state_step [of ws0 bs r1] assms(2-4) eq show ?case by simp
qed

lemma sum_list_zero_nonneg:
  "sum_list xs = 0 \<Longrightarrow> \<forall>x \<in> set xs. 0 \<le> (x :: int) \<Longrightarrow> \<forall>x \<in> set xs. x = 0"
proof (induction xs)
  case (Cons a xs)
  have "0 \<le> sum_list xs" using Cons.prems(2) by (intro sum_list_nonneg) auto
  with Cons show ?case by auto
qed simp

lemma wrr_period_end:
  assumes "wrr_state ws0 as ws" "int (length as) = total_weight ws0" "0 < total_weight ws0" "w \<in> set ws"
  shows "currentWeight w = 0 \<and> int (count_list as (wn_addr w)) = weight w"
proof -
  let ?W = "total_weight ws0"
  have cur: "currentWeight v = ?W * (weight v - int (count_list as (wn_addr v)))"
    and low: "- ?W < currentWeight v" if "v \<in> set ws" for v
    using assms(1,2) that by (auto simp: wrr_state_def algebra_simps)
  have "0 \<le> currentWeight v" if v: "v \<in> set ws" for v
  proof -
    have "?W * (-1) < ?W * (weight v - int (count_list as (wn_addr v)))"
      using low [OF v] cur [OF v] by simp
    then have "-1 < weight v - int (count_list as (wn_addr v))"
      using assms(3) by (simp only: mult_less_cancel_left_pos)
    then show ?thesis using cur [OF v] assms(3) by simp
  qed
  then have "\<forall>x \<in> set (map currentWeight ws). x = 0"
    using assms(1) by (intro sum_list_zero_nonneg) (auto simp: wrr_state_def)
  then have "currentWeight w = 0" using assms(4) by simp
  with cur [OF assms(4)] assms(3) show ?thesis by simp
qed

subsection \<open>Binary search and the ring\<close>

lemma search_loop_spec:
  assumes "\<And>a b. a \<le> b \<Longrightarrow> b < n \<Longrightarrow> f a \<Longrightarrow> f b" "i \<le> j" "j \<le> n"
  shows "i \<le> search_loop f i j \<and> search_loop f i j \<le> j \<and>
    (\<forall>h. i \<le> h \<longrightarrow> h < search_loop f i j \<longrightarrow> \<not> f h) \<and> (search_loop f i j < j \<longrightarrow> f (search_loop f i j))"
  using assms
proof (induction f i j rule: search_loop.induct)
  case (1 f i j)
  let ?h = "(i + j) div 2"
  show ?case
  proof (cases "i < j")
    case False
    with "1.prems" have "search_loop f i j = j" "i = j" by (simp_all add: search_loop.simps)
    then show ?thesis by auto
  next
    case True
    then have h: "i \<le> ?h" "?h < j" by auto
    show ?thesis
    proof (cases "f ?h")
      case False
      have low: "\<not> f k" if "k \<le> ?h" for k
        using False "1.prems"(1) [OF that] h "1.prems"(3) by auto
      have eq: "search_loop f i j = search_loop f (Suc ?h) j"
        using True False by (subst search_loop.simps) simp
      have IH: "Suc ?h \<le> search_loop f (Suc ?h) j \<and> search_loop f (Suc ?h) j \<le> j \<and>
        (\<forall>k. Suc ?h \<le> k \<longrightarrow> k < search_loop f (Suc ?h) j \<longrightarrow> \<not> f k) \<and>
        (search_loop f (Suc ?h) j < j \<longrightarrow> f (search_loop f (Suc ?h) j))"
        using "1.IH"(1) [OF True refl False] "1.prems" h by simp
      have "\<not> f k" if "k < search_loop f i j" for k
        using low [of k] IH that eq by (cases "k \<le> ?h") auto
      with IH eq h show ?thesis by auto
    next
      case yes: True
      have eq: "search_loop f i j = search_loop f i ?h"
        using True yes by (subst search_loop.simps) simp
      have "i \<le> search_loop f i ?h \<and> search_loop f i ?h \<le> ?h \<and>
        (\<forall>k. i \<le> k \<longrightarrow> k < search_loop f i ?h \<longrightarrow> \<not> f k) \<and>
        (search_loop f i ?h < ?h \<longrightarrow> f (search_loop f i ?h))"
        using "1.IH"(2) [OF True refl] yes "1.prems" h by simp
      moreover from this yes have "f (search_loop f i ?h)" by (metis le_neq_implies_less)
      ultimately show ?thesis using eq h by auto
    qed
  qed
qed

definition ch_ok :: "ConsistentHashBalance \<Rightarrow> bool" where
  "ch_ok c \<longleftrightarrow> sorted (ch_keys c) \<and> set (ch_keys c) = dom (ch_hashMap c)"

lemma ch_add_nodes:
  "ch_hash (fold (ch_add_node addr) is c) = ch_hash c \<and>
   (set (ch_keys c) = dom (ch_hashMap c) \<longrightarrow>
    set (ch_keys (fold (ch_add_node addr) is c)) = dom (ch_hashMap (fold (ch_add_node addr) is c)))"
  by (induction "is" arbitrary: c) (auto simp: ch_add_node_def Let_def)

lemma ch_ok_Add: "ch_ok c \<Longrightarrow> ch_ok (snd (ch_Add c addr w))"
  using ch_add_nodes [of addr "[0..<nat w]" c] by (auto simp: ch_Add_def ch_ok_def Let_def)

lemma ch_ok_New: "ch_ok (NewConsistentHashBalance fn hostCode)"
  by (simp add: ch_ok_def NewConsistentHashBalance_def)

text \<open>The start position: the first key not below the hash, wrapping to the first key.\<close>

lemma ch_start_spec:
  assumes "ch_ok c" "ch_keys c \<noteq> []"
  shows "ch_start c key < length (ch_keys c)"
    "(\<forall>j < length (ch_keys c). ch_keys c ! j < ch_hash c key) \<and> ch_start c key = 0 \<or>
     ch_hash c key \<le> ch_keys c ! ch_start c key \<and>
       (\<forall>j < ch_start c key. ch_keys c ! j < ch_hash c key)"
proof -
  let ?n = "length (ch_keys c)" and ?f = "\<lambda>i. ch_hash c key \<le> ch_keys c ! i"
  have mono: "?f b" if "a \<le> b" "b < ?n" "?f a" for a b
    using that assms(1) sorted_nth_mono [of "ch_keys c" a b] by (auto simp: ch_ok_def)
  note sp = search_loop_spec [of ?n ?f 0 ?n, OF mono _ order_refl, folded sort_Search_def]
  have sp: "sort_Search ?n ?f \<le> ?n" "\<And>h. h < sort_Search ?n ?f \<Longrightarrow> \<not> ?f h"
    "sort_Search ?n ?f < ?n \<Longrightarrow> ?f (sort_Search ?n ?f)" using sp by auto
  show "ch_start c key < ?n"
    using sp(1) assms(2) by (auto simp: ch_start_def Let_def)
  show "(\<forall>j < ?n. ch_keys c ! j < ch_hash c key) \<and> ch_start c key = 0 \<or>
     ch_hash c key \<le> ch_keys c ! ch_start c key \<and> (\<forall>j < ch_start c key. ch_keys c ! j < ch_hash c key)"
  proof (cases "sort_Search ?n ?f = ?n")
    case True
    with sp(2) show ?thesis by (auto simp: ch_start_def not_le)
  next
    case False
    with sp show ?thesis by (auto simp: ch_start_def not_le)
  qed
qed

lemma ring_walk_find:
  "(\<And>a. a \<in> checked \<Longrightarrow> \<not> ok a) \<Longrightarrow> ring_walk ok xs checked = find ok xs"
  by (induction ok xs checked rule: ring_walk.induct) auto

lemma set_ring_order:
  assumes "ch_keys c \<noteq> []"
  shows "set (ring_order c idx) = ch_owner c ` {..<length (ch_keys c)}"
proof -
  let ?n = "length (ch_keys c)"
  have n: "0 < ?n" using assms by simp
  have "(\<lambda>i. (idx + i) mod ?n) ` {..<?n} = {..<?n}"
  proof (rule card_subset_eq)
    have "inj_on (\<lambda>i. (idx + i) mod ?n) {..<?n}"
    proof (rule inj_onI)
      fix i j assume ij: "i \<in> {..<?n}" "j \<in> {..<?n}" "(idx + i) mod ?n = (idx + j) mod ?n"
      show "i = j"
      proof (cases "i \<le> j")
        case True
        with ij have "?n dvd (idx + j) - (idx + i)" by (metis mod_eq_dvd_iff_nat add_le_cancel_left)
        with True ij show ?thesis by (auto dest: dvd_imp_le)
      next
        case False
        with ij have "?n dvd (idx + i) - (idx + j)"
          by (metis mod_eq_dvd_iff_nat add_le_cancel_left nat_le_linear)
        with False ij show ?thesis by (auto dest: dvd_imp_le)
      qed
    qed
    then show "card ((\<lambda>i. (idx + i) mod ?n) ` {..<?n}) = card {..<?n}" by (rule card_image)
  qed (use n in auto)
  then have "ch_owner c ` (\<lambda>i. (idx + i) mod ?n) ` {..<?n} = ch_owner c ` {..<?n}" by simp
  then show ?thesis by (simp add: ring_order_def image_image atLeast0LessThan)
qed

subsection \<open>The contract of a balancer\<close>

text \<open>
  A balancer answers with one of its backends and keeps its backends. One with failover answers
  with a healthy backend whenever it has one. The consistent-hash ring keeps both contracts; the
  round robin keeps the first only.
\<close>

locale backend_picker =
  fixes valid :: "'s \<Rightarrow> bool"
    and backends :: "'s \<Rightarrow> 'a set"
    and pick :: "'s \<Rightarrow> ('a \<Rightarrow> bool) \<Rightarrow> 'a \<times> 's"
  assumes pick_in: "valid s \<Longrightarrow> fst (pick s ok) \<in> backends s"
    and pick_keeps: "valid s \<Longrightarrow> valid (snd (pick s ok)) \<and> backends (snd (pick s ok)) = backends s"
begin

primrec picks :: "('a \<Rightarrow> bool) list \<Rightarrow> 's \<Rightarrow> 'a list" where
  "picks [] s = []"
| "picks (ok # oks) s = fst (pick s ok) # picks oks (snd (pick s ok))"

lemma picks_in: "valid s \<Longrightarrow> set (picks oks s) \<subseteq> backends s"
proof (induction oks arbitrary: s)
  case (Cons ok oks)
  with pick_in [OF Cons.prems, of ok] pick_keeps [OF Cons.prems, of ok] show ?case by fastforce
qed simp

end

locale failover_picker = backend_picker +
  assumes pick_healthy: "valid s \<Longrightarrow> a \<in> backends s \<Longrightarrow> ok a \<Longrightarrow> ok (fst (pick s ok))"
begin

lemma pick_fails_only_if_all_down: "valid s \<Longrightarrow> \<not> ok (fst (pick s ok)) \<Longrightarrow> \<forall>a \<in> backends s. \<not> ok a"
  using pick_healthy by blast

end

definition ch_backends :: "ConsistentHashBalance \<Rightarrow> string set" where
  "ch_backends c = ch_owner c ` {..<length (ch_keys c)}"

definition ch_pick :: "string \<Rightarrow> ConsistentHashBalance \<Rightarrow> (string \<Rightarrow> bool) \<Rightarrow> string \<times> ConsistentHashBalance" where
  "ch_pick key c ok =
     (case ch_GetHealthy c key (\<lambda>_. ok) of Inl _ \<Rightarrow> [] | Inr a \<Rightarrow> a, c)"

lemma ch_GetHealthy_find:
  assumes "ch_keys c \<noteq> []"
  shows "ch_GetHealthy c key isHealthy =
    Inr (case find (isHealthy (ch_hostCode c)) (ring_order c (ch_start c key)) of
           Some a \<Rightarrow> a | None \<Rightarrow> ch_owner c (ch_start c key))"
proof -
  have "ring_walk ok xs {} = find ok xs" for ok xs by (rule ring_walk_find) simp
  with assms show ?thesis by (simp add: ch_GetHealthy_def Let_def split: option.split)
qed

lemma ch_pick_healthy:
  assumes "ch_keys c \<noteq> []" "a \<in> ch_backends c" "ok a"
  shows "ok (fst (ch_pick key c ok))"
proof -
  have "a \<in> set (ring_order c (ch_start c key))"
    using assms(1,2) by (simp add: set_ring_order ch_backends_def)
  then obtain b where "find ok (ring_order c (ch_start c key)) = Some b"
    using assms(3) by (cases "find ok (ring_order c (ch_start c key))") (auto simp: find_None_iff)
  moreover from this have "ok b" by (auto simp: find_Some_iff)
  ultimately show ?thesis using assms(1) by (simp add: ch_pick_def ch_GetHealthy_find)
qed

interpretation ip_hash: failover_picker "\<lambda>c. ch_ok c \<and> ch_keys c \<noteq> []" ch_backends "ch_pick key"
proof
  show "fst (ch_pick key s ok) \<in> ch_backends s" if v: "ch_ok s \<and> ch_keys s \<noteq> []" for s ok
  proof (cases "find ok (ring_order s (ch_start s key))")
    case None
    with v ch_start_spec(1) [of s key] show ?thesis
      by (simp add: ch_pick_def ch_GetHealthy_find ch_backends_def)
  next
    case (Some b)
    then have "b \<in> set (ring_order s (ch_start s key))" by (auto simp: find_Some_iff)
    with v Some show ?thesis
      by (simp add: ch_pick_def ch_GetHealthy_find ch_backends_def set_ring_order)
  qed
  show "ok (fst (ch_pick key s ok))"
    if "ch_ok s \<and> ch_keys s \<noteq> []" "a \<in> ch_backends s" "ok a" for s a ok
    using that ch_pick_healthy by blast
qed (simp add: ch_pick_def)

definition wrr_backends :: "WeightRoundRobinBalance \<Rightarrow> int set" where
  "wrr_backends r = wn_addr ` set (rss r)"

definition wrr_pick :: "WeightRoundRobinBalance \<Rightarrow> (int \<Rightarrow> bool) \<Rightarrow> int \<times> WeightRoundRobinBalance" where
  "wrr_pick r ok =
     (case wrr_GetHealthy r (\<lambda>_ b. ok (case ParseInt b of None \<Rightarrow> -1 | Some i \<Rightarrow> i)) of
        (None, r') \<Rightarrow> (-1, r') | (Some a, r') \<Rightarrow> (a, r'))"

lemma wrr_Next_backends:
  assumes "rss r \<noteq> []"
  shows "fst (wrr_Next r) \<in> wrr_backends r" "map wn_addr (rss (snd (wrr_Next r))) = map wn_addr (rss r)"
proof -
  from wrr_Next_step [OF assms] obtain i where i: "i < length (rss r)"
    "fst (wrr_Next r) = wn_addr (rss r ! i)"
    "rss (snd (wrr_Next r)) = (map wn_bump (rss r))[i := (wn_bump (rss r ! i))
       \<lparr>currentWeight := currentWeight (wn_bump (rss r ! i)) - sum_list (map effectiveWeight (rss r))\<rparr>]" .
  then show "fst (wrr_Next r) \<in> wrr_backends r" by (simp add: wrr_backends_def)
  show "map wn_addr (rss (snd (wrr_Next r))) = map wn_addr (rss r)"
    unfolding i(3) using i(1) by (auto intro!: nth_equalityI simp: wn_bump_def nth_list_update)
qed

lemma healthy_loop_backends:
  "rss r \<noteq> [] \<Longrightarrow> healthy_loop n isHealthy r = (res, r') \<Longrightarrow>
   map wn_addr (rss r') = map wn_addr (rss r) \<and>
   (\<forall>a. res = Some a \<longrightarrow> a \<in> wrr_backends r \<and> isHealthy (wrr_hostCode r) (Itoa a))"
proof (induction n arbitrary: r)
  case 0
  then show ?case by simp
next
  case (Suc n)
  obtain a r1 where n1: "wrr_Next r = (a, r1)" by fastforce
  have nb: "a \<in> wrr_backends r" "map wn_addr (rss r1) = map wn_addr (rss r)"
    using wrr_Next_backends [OF Suc.prems(1)] n1 by auto
  have hc: "wrr_hostCode r1 = wrr_hostCode r"
    using n1 by (auto simp: wrr_Next_def split: prod.splits option.splits)
  have ne: "rss r1 \<noteq> []" using nb(2) Suc.prems(1) by (metis list.map_disc_iff)
  have same: "wrr_backends r1 = wrr_backends r" using nb(2) by (metis list.set_map wrr_backends_def)
  from Suc.prems(2) n1 nb hc Suc.IH [OF ne] same show ?case by (auto split: if_splits)
qed

lemma wrr_GetHealthy_backends:
  assumes "rss r \<noteq> []"
  shows "\<exists>a r'. wrr_GetHealthy r ok = (Some a, r') \<and> a \<in> wrr_backends r \<and>
    map wn_addr (rss r') = map wn_addr (rss r)"
proof -
  obtain res r' where h: "healthy_loop (length (rss r)) ok r = (res, r')" by fastforce
  note hb = healthy_loop_backends [OF assms h]
  show ?thesis
  proof (cases res)
    case (Some a)
    with h hb show ?thesis by (simp add: wrr_GetHealthy_def)
  next
    case None
    have ne: "rss r' \<noteq> []" using hb assms by (metis list.map_disc_iff)
    then have "wn_addr (hd (rss r')) \<in> set (map wn_addr (rss r'))" by simp
    with hb have "wn_addr (hd (rss r')) \<in> wrr_backends r" by (simp add: wrr_backends_def)
    with h hb None ne show ?thesis by (simp add: wrr_GetHealthy_def)
  qed
qed

interpretation round_robin: backend_picker "\<lambda>r. rss r \<noteq> []" wrr_backends wrr_pick
proof
  fix s :: WeightRoundRobinBalance and ok assume "rss s \<noteq> []"
  from wrr_GetHealthy_backends [OF this] obtain a r' where
    g: "wrr_GetHealthy s (\<lambda>_ b. ok (case ParseInt b of None \<Rightarrow> -1 | Some i \<Rightarrow> i)) = (Some a, r')"
    "a \<in> wrr_backends s" "map wn_addr (rss r') = map wn_addr (rss s)" by blast
  from g show "fst (wrr_pick s ok) \<in> wrr_backends s" by (simp add: wrr_pick_def)
  have "rss r' \<noteq> []" using g(3) \<open>rss s \<noteq> []\<close> by (metis list.map_disc_iff)
  moreover have "wrr_backends r' = wrr_backends s" using g(3) by (metis list.set_map wrr_backends_def)
  ultimately show "rss (snd (wrr_pick s ok)) \<noteq> [] \<and> wrr_backends (snd (wrr_pick s ok)) = wrr_backends s"
    using g(1) by (simp add: wrr_pick_def)
qed

lemma Itoa_0_1: "Itoa 0 = ''0''" "Itoa 1 = ''1''"
  by (simp_all add: Itoa_def format_nat.simps char_of_def bit_0)

subsection \<open>Properties\<close>

text \<open>
  C16. Fairness of the smooth weighted round robin: from the state the balancer has after its nodes
  were added, a period of as many picks as the sum of the weights serves every node exactly its
  weight and ends in the state it started from.
\<close>

theorem wrr_period_fair:
  assumes "\<forall>w \<in> set (rss r). currentWeight w = 0 \<and> effectiveWeight w = weight w \<and> 0 \<le> weight w"
    "distinct (map wn_addr (rss r))" "0 < total_weight (rss r)"
    "wrr_run (nat (total_weight (rss r))) r = (picked, r')"
  shows "r' = r \<and> (\<forall>w \<in> set (rss r). int (count_list picked (wn_addr w)) = weight w)"
proof -
  have "sum_list (map currentWeight (rss r)) = 0"
  proof -
    have "map currentWeight (rss r) = map (\<lambda>_. 0) (rss r)" using assms(1) by simp
    also have "sum_list \<dots> = 0" by (simp add: sum_list_triv)
    finally show ?thesis .
  qed
  then have "wrr_state (rss r) [] (rss r)" using assms(1,3) by (simp add: wrr_state_def)
  from wrr_run_state [OF this assms(2) _ assms(3,4)] assms(1)
  have st: "wrr_state (rss r) picked (rss r')" and len: "length picked = nat (total_weight (rss r))"
    and hc: "wrr_hostCode r' = wrr_hostCode r" by auto
  have "int (length picked) = total_weight (rss r)" using len assms(3) by simp
  note fin = wrr_period_end [OF st this assms(3)]
  have maps: "map wn_addr (rss r') = map wn_addr (rss r)" "map weight (rss r') = map weight (rss r)"
    using st by (auto simp: wrr_state_def)
  have "rss r' = rss r"
  proof (rule nth_equalityI)
    show l: "length (rss r') = length (rss r)" using maps(1) by (metis length_map)
    fix i assume i: "i < length (rss r')"
    then have "rss r' ! i \<in> set (rss r')" "rss r ! i \<in> set (rss r)" using l by auto
    moreover have "wn_addr (rss r' ! i) = wn_addr (rss r ! i)" "weight (rss r' ! i) = weight (rss r ! i)"
      using maps i l by (metis nth_map)+
    moreover have "effectiveWeight (rss r' ! i) = weight (rss r' ! i)"
      using st i by (simp add: wrr_state_def)
    ultimately show "rss r' ! i = rss r ! i" using fin assms(1) by simp
  qed
  with hc fin show ?thesis by auto
qed

theorem wrr_period_fair_witness:
  "let r = wrr_Add (wrr_Add (NewWeightRoundRobinBalance ''h'') 0 5) 1 1; (picked, r') = wrr_run 6 r
   in r' = r \<and> count_list picked 0 = 5 \<and> count_list picked 1 = 1"
proof -
  define r where "r = wrr_Add (wrr_Add (NewWeightRoundRobinBalance ''h'') 0 5) 1 1"
  obtain picked r' where run: "wrr_run 6 r = (picked, r')" by fastforce
  have ws: "rss r = [\<lparr>wn_addr = 0, weight = 5, currentWeight = 0, effectiveWeight = 5\<rparr>,
      \<lparr>wn_addr = 1, weight = 1, currentWeight = 0, effectiveWeight = 1\<rparr>]"
    by (simp add: r_def wrr_Add_def NewWeightRoundRobinBalance_def)
  have "total_weight (rss r) = 6" by (simp add: ws total_weight_def)
  with wrr_period_fair [of r picked r'] run have "r' = r \<and>
      (\<forall>w \<in> set (rss r). int (count_list picked (wn_addr w)) = weight w)" by (simp add: ws)
  with run show ?thesis unfolding r_def [symmetric] by (simp add: ws)
qed

text \<open>
  Consistent hashing with failover: with at least one backend the answer is the first healthy
  backend clockwise from the client's position, so it is healthy whenever any backend is, and it
  is the client's own backend whenever that one is healthy.
\<close>

theorem ch_GetHealthy_finds:
  assumes "ch_ok c" "ch_keys c \<noteq> []"
  shows "\<exists>a. ch_GetHealthy c key isHealthy = Inr a \<and> a \<in> ch_backends c \<and>
    ((\<exists>b \<in> ch_backends c. isHealthy (ch_hostCode c) b) \<longrightarrow> isHealthy (ch_hostCode c) a) \<and>
    (isHealthy (ch_hostCode c) (ch_owner c (ch_start c key)) \<longrightarrow> a = ch_owner c (ch_start c key))"
proof -
  let ?ok = "isHealthy (ch_hostCode c)" and ?s = "ch_start c key"
  have v: "ch_ok c \<and> ch_keys c \<noteq> []" using assms by simp
  obtain a where a: "ch_GetHealthy c key isHealthy = Inr a"
    using assms(2) by (simp add: ch_GetHealthy_find)
  then have p: "fst (ch_pick key c ?ok) = a"
    using assms(2) by (simp add: ch_pick_def ch_GetHealthy_find)
  have "hd (ring_order c ?s) = ch_owner c ?s" "ring_order c ?s \<noteq> []"
    using assms ch_start_spec(1) [OF assms, of key] by (auto simp: ring_order_def hd_map)
  then obtain rest where ro: "ring_order c ?s = ch_owner c ?s # rest" by (cases "ring_order c ?s") auto
  have "?ok (ch_owner c ?s) \<Longrightarrow> a = ch_owner c ?s"
    using a assms(2) by (simp add: ch_GetHealthy_find ro)
  with ip_hash.pick_in [OF v, of key ?ok] ip_hash.pick_healthy [OF v, of _ ?ok key] a p show ?thesis by auto
qed

theorem ch_GetHealthy_finds_witness:
  "let c = snd (ch_Add (snd (ch_Add (NewConsistentHashBalance None ''h'') ''0'' 1)) ''1'' 1)
   in \<exists>a. ch_GetHealthy c ''10.0.0.1'' (\<lambda>_ _. True) = Inr a \<and> a \<in> ch_backends c"
proof -
  define c where "c = snd (ch_Add (snd (ch_Add (NewConsistentHashBalance None ''h'') ''0'' 1)) ''1'' 1)"
  have "ch_ok c" unfolding c_def by (intro ch_ok_Add ch_ok_New)
  moreover have "ch_keys c \<noteq> []"
    by (simp add: c_def ch_Add_def ch_add_node_def NewConsistentHashBalance_def Let_def)
  ultimately show ?thesis
    using ch_GetHealthy_finds [of c "''10.0.0.1''" "\<lambda>_ _. True"] unfolding c_def [symmetric] by auto
qed

text \<open>
  Without failures the client's backend is the owner of the first ring key not below the hash
  of the client, or of the first key when there is none: the binary search finds that position.
\<close>

theorem ch_Get_clockwise:
  assumes "ch_ok c" "ch_keys c \<noteq> []"
  shows "\<exists>i < length (ch_keys c). ch_Get c key = Inr (ch_owner c i) \<and>
    ((\<forall>j < length (ch_keys c). ch_keys c ! j < ch_hash c key) \<and> i = 0 \<or>
     ch_hash c key \<le> ch_keys c ! i \<and> (\<forall>j < i. ch_keys c ! j < ch_hash c key))"
  using ch_start_spec [OF assms, of key] assms(2) by (intro exI [of _ "ch_start c key"]) (simp add: ch_Get_def)

theorem ch_Get_clockwise_witness:
  "let c = snd (ch_Add (NewConsistentHashBalance (Some (\<lambda>s. of_nat (length s))) ''h'') ''7'' 1)
   in ch_Get c ''ab'' = Inr ''7''"
proof -
  define c where "c = snd (ch_Add (NewConsistentHashBalance (Some (\<lambda>s. of_nat (length s))) ''h'') ''7'' 1)"
  have c: "ch_keys c = [3]" "ch_hashMap c = [3 \<mapsto> ''7'']"
    by (simp_all add: c_def ch_Add_def ch_add_node_def NewConsistentHashBalance_def Itoa_def format_nat.simps char_of_def)
  have "ch_ok c" unfolding c_def by (intro ch_ok_Add ch_ok_New)
  from ch_Get_clockwise [OF this, of "''ab''"] c show ?thesis
    unfolding c_def [symmetric] by (auto simp: ch_owner_def)
qed

text \<open>
  The search for a healthy node in the round robin makes only as many turns as there are
  nodes. With weights 5 and 1 and the heavy node down, both turns give the heavy node and the
  fallback returns it, although the light node is healthy.
\<close>

theorem wrr_GetHealthy_misses:
  "let r = wrr_Add (wrr_Add (NewWeightRoundRobinBalance ''h'') 0 5) 1 1;
       isHealthy = (\<lambda>host backend. backend = ''1'')
   in fst (wrr_GetHealthy r isHealthy) = Some 0 \<and> \<not> isHealthy ''h'' (Itoa 0) \<and>
      isHealthy ''h'' (Itoa 1)"
  by (simp add: wrr_Add_def NewWeightRoundRobinBalance_def wrr_GetHealthy_def wrr_Next_def wn_bump_def
      Itoa_0_1 Let_def numeral_2_eq_2)

end
