(* ===== verification/Waf_Cache.thy ===== *)
theory Waf_Cache
  imports Waf_Prelude
begin

text \<open>
  Package cache, files waf_cache.go and errors.go: the in-memory key/value cache with a time to
  live per item. Times and durations are integers in nanoseconds; the clock is an argument. A
  value of \<open>interface{}\<close> is one of the dynamic types the callers store; \<open>'r\<close> stands for the records.

  The locale \<open>ttl_store\<close> is what the clients rely on: what is visible after a write, a removal and
  the passing of time. From it alone follows the exactness of an event log kept in such a store, the
  algorithm both failure counters of package wafipban use.
\<close>

subsection \<open>Items and time\<close>

datatype 'r cval = CInt int | CStr string | CBytes gobytes | CRec 'r

datatype cache_error = ErrCacheMiss | ErrCacheBackend | ErrJson

record 'r WafCacheItem =
  ci_value :: "'r cval"
  ci_createTime :: int
  ci_expireTime :: int
  ci_ttl :: int

type_synonym 'r WafCache = "string \<rightharpoonup> 'r WafCacheItem"

abbreviation second :: int where "second \<equiv> 1000000000"
abbreviation minute :: int where "minute \<equiv> 60 * second"
abbreviation hour :: int where "hour \<equiv> 60 * minute"

definition InitWafCache :: "'r WafCache" where
  "InitWafCache = Map.empty"

subsection \<open>Operations\<close>

definition mk_item :: "'r cval \<Rightarrow> int \<Rightarrow> int \<Rightarrow> 'r WafCacheItem" where
  "mk_item v created ttl =
     \<lparr>ci_value = v, ci_createTime = created, ci_expireTime = created + ttl, ci_ttl = ttl\<rparr>"

definition expired :: "int \<Rightarrow> 'r WafCacheItem \<Rightarrow> bool" where
  "expired now item \<longleftrightarrow> ci_ttl item < now - ci_createTime item"

definition SetWithTTl :: "int \<Rightarrow> 'r WafCache \<Rightarrow> string \<Rightarrow> 'r cval \<Rightarrow> int \<Rightarrow> 'r WafCache" where
  "SetWithTTl now c key v ttl =
     (let created = (case c key of None \<Rightarrow> now | Some item \<Rightarrow> ci_createTime item)
      in c(key \<mapsto> mk_item v created ttl))"

definition wc_Set :: "int \<Rightarrow> 'r WafCache \<Rightarrow> string \<Rightarrow> 'r cval \<Rightarrow> 'r WafCache" where
  "wc_Set now c key v = SetWithTTl now c key v (100 * 365 * 24 * hour)"

definition SetWithTTlRenewTime :: "int \<Rightarrow> 'r WafCache \<Rightarrow> string \<Rightarrow> 'r cval \<Rightarrow> int \<Rightarrow> 'r WafCache" where
  "SetWithTTlRenewTime now c key v ttl = c(key \<mapsto> mk_item v now ttl)"

text \<open>\<open>Get\<close> deletes an item it finds expired.\<close>

definition wc_Get :: "int \<Rightarrow> 'r WafCache \<Rightarrow> string \<Rightarrow> 'r cval option \<times> 'r WafCache" where
  "wc_Get now c key =
     (case c key of None \<Rightarrow> (None, c)
      | Some item \<Rightarrow> if \<not> expired now item then (Some (ci_value item), c) else (None, c(key := None)))"

text \<open>The JSON round trip of \<open>GetAs\<close> into the caller's type is the argument \<open>conv\<close>.\<close>

definition GetAs :: "('r cval \<Rightarrow> 'o option) \<Rightarrow> int \<Rightarrow> 'r WafCache \<Rightarrow> string \<Rightarrow> (cache_error + 'o) \<times> 'r WafCache" where
  "GetAs conv now c key =
     (case wc_Get now c key of
        (None, c') \<Rightarrow> (Inl ErrCacheMiss, c')
      | (Some v, c') \<Rightarrow> (case conv v of None \<Rightarrow> Inl ErrJson | Some x \<Rightarrow> Inr x, c'))"

definition GetBytes :: "int \<Rightarrow> 'r WafCache \<Rightarrow> string \<Rightarrow> (cache_error + gobytes) \<times> 'r WafCache" where
  "GetBytes now c key =
     (case wc_Get now c key of (Some (CBytes b), c') \<Rightarrow> (Inr b, c') | (_, c') \<Rightarrow> (Inl ErrCacheMiss, c'))"

definition GetString :: "int \<Rightarrow> 'r WafCache \<Rightarrow> string \<Rightarrow> (string \<times> cache_error option) \<times> 'r WafCache" where
  "GetString now c key =
     (case wc_Get now c key of (Some (CStr s), c') \<Rightarrow> ((s, None), c') | (_, c') \<Rightarrow> (([], Some ErrCacheMiss), c'))"

definition GetInt :: "int \<Rightarrow> 'r WafCache \<Rightarrow> string \<Rightarrow> (int \<times> cache_error option) \<times> 'r WafCache" where
  "GetInt now c key =
     (case wc_Get now c key of (Some (CInt i), c') \<Rightarrow> ((i, None), c') | (_, c') \<Rightarrow> ((-1, Some ErrCacheMiss), c'))"

definition IsKeyExist :: "int \<Rightarrow> 'r WafCache \<Rightarrow> string \<Rightarrow> bool \<times> 'r WafCache" where
  "IsKeyExist now c key =
     (case c key of None \<Rightarrow> (False, c)
      | Some item \<Rightarrow> if \<not> expired now item then (True, c) else (False, c(key := None)))"

definition ExistsE :: "int \<Rightarrow> 'r WafCache \<Rightarrow> string \<Rightarrow> (bool \<times> cache_error option) \<times> 'r WafCache" where
  "ExistsE now c key = (let (b, c') = IsKeyExist now c key in ((b, None), c'))"

definition GetAsEx :: "('r cval \<Rightarrow> 'o option) \<Rightarrow> int \<Rightarrow> 'r WafCache \<Rightarrow> string \<Rightarrow> int \<Rightarrow> (cache_error + 'o) \<times> 'r WafCache" where
  "GetAsEx conv now c key ttl =
     (case c key of
        None \<Rightarrow> (Inl ErrCacheMiss, c)
      | Some item \<Rightarrow>
          if expired now item then (Inl ErrCacheMiss, c(key := None))
          else (case conv (ci_value item) of None \<Rightarrow> Inl ErrJson | Some x \<Rightarrow> Inr x,
                if 0 < ttl then c(key \<mapsto> mk_item (ci_value item) now ttl) else c))"

definition Touch :: "int \<Rightarrow> 'r WafCache \<Rightarrow> string \<Rightarrow> int \<Rightarrow> cache_error option \<times> 'r WafCache" where
  "Touch now c key ttl =
     (case c key of
        None \<Rightarrow> (Some ErrCacheMiss, c)
      | Some item \<Rightarrow>
          if expired now item then (Some ErrCacheMiss, c(key := None))
          else (None, if 0 < ttl then c(key \<mapsto> mk_item (ci_value item) now ttl) else c))"

definition wc_Remove :: "'r WafCache \<Rightarrow> string \<Rightarrow> 'r WafCache" where
  "wc_Remove c key = (case c key of None \<Rightarrow> c | Some _ \<Rightarrow> c(key := None))"

definition GetExpireTime :: "int \<Rightarrow> 'r WafCache \<Rightarrow> string \<Rightarrow> (cache_error + int) \<times> 'r WafCache" where
  "GetExpireTime now c key =
     (case c key of
        None \<Rightarrow> (Inl ErrCacheMiss, c)
      | Some item \<Rightarrow>
          if \<not> expired now item then (Inr (ci_expireTime item), c) else (Inl ErrCacheMiss, c(key := None)))"

definition ClearExpirationCache :: "int \<Rightarrow> 'r WafCache \<Rightarrow> 'r WafCache" where
  "ClearExpirationCache now c =
     (\<lambda>k. case c k of None \<Rightarrow> None | Some item \<Rightarrow> if expired now item then None else Some item)"

text \<open>The listings drop an item whose remaining time is not positive, its last instant included.\<close>

definition remaining :: "int \<Rightarrow> 'r WafCacheItem \<Rightarrow> int" where
  "remaining now item = ci_ttl item - (now - ci_createTime item)"

definition ListAvailableKeysWithPrefix :: "int \<Rightarrow> 'r WafCache \<Rightarrow> string \<Rightarrow> (string \<rightharpoonup> int) \<times> 'r WafCache" where
  "ListAvailableKeysWithPrefix now c pre =
     (\<lambda>k. if HasPrefix k pre
          then (case c k of None \<Rightarrow> None
                | Some item \<Rightarrow> if 0 < remaining now item then Some (remaining now item) else None)
          else None,
      \<lambda>k. if HasPrefix k pre
          then (case c k of None \<Rightarrow> None
                | Some item \<Rightarrow> if 0 < remaining now item then Some item else None)
          else c k)"

definition ListAvailableKeys :: "int \<Rightarrow> 'r WafCache \<Rightarrow> (string \<rightharpoonup> int) \<times> 'r WafCache" where
  "ListAvailableKeys now c = ListAvailableKeysWithPrefix now c []"

text \<open>The key as it is written to logs: the upper-case prefix and eight more characters.\<close>

fun key_prefix_len :: "nat \<Rightarrow> string \<Rightarrow> nat" where
  "key_prefix_len 0 s = 0"
| "key_prefix_len (Suc n) [] = 0"
| "key_prefix_len (Suc n) (c # cs) =
     (if c = CHR ''_'' \<or> (65 \<le> char_code c \<and> char_code c \<le> 90) then Suc (key_prefix_len n cs) else 0)"

definition maskCacheKey :: "string \<Rightarrow> string" where
  "maskCacheKey key =
     (let i = key_prefix_len 24 key; rest = drop i key
      in if length key \<le> i then key
         else if 8 < length rest then take i key @ take 8 rest @ ''...''
         else take i key @ rest)"

subsection \<open>What is visible\<close>

definition visible :: "int \<Rightarrow> 'r WafCache \<Rightarrow> string \<Rightarrow> 'r cval option" where
  "visible now c key =
     (case c key of None \<Rightarrow> None | Some item \<Rightarrow> if expired now item then None else Some (ci_value item))"

lemma wc_Get_visible: "fst (wc_Get now c key) = visible now c key"
  by (auto simp: wc_Get_def visible_def split: option.splits)

lemma wc_Get_keeps: "now \<le> now' \<Longrightarrow> visible now' (snd (wc_Get now c key)) k = visible now' c k"
  by (auto simp: wc_Get_def visible_def expired_def split: option.splits)

lemma IsKeyExist_visible: "fst (IsKeyExist now c key) \<longleftrightarrow> visible now c key \<noteq> None"
  by (auto simp: IsKeyExist_def visible_def split: option.splits)

lemma IsKeyExist_keeps: "now \<le> now' \<Longrightarrow> visible now' (snd (IsKeyExist now c key)) k = visible now' c k"
  by (auto simp: IsKeyExist_def visible_def expired_def split: option.splits)

lemma visible_renew:
  "visible now (SetWithTTlRenewTime t c key v ttl) k =
     (if k = key then (if now - t \<le> ttl then Some v else None) else visible now c k)"
  by (auto simp: SetWithTTlRenewTime_def visible_def expired_def mk_item_def)

lemma visible_remove: "visible now (wc_Remove c key) k = (if k = key then None else visible now c k)"
  by (auto simp: wc_Remove_def visible_def split: option.splits)

lemma GetInt_keeps: "now \<le> now' \<Longrightarrow> visible now' (snd (GetInt now c key)) k = visible now' c k"
  using wc_Get_keeps [of now now' c key k]
  by (auto simp: GetInt_def split: prod.splits option.splits cval.splits)

lemma GetInt_visible:
  "fst (GetInt now c key) =
     (case visible now c key of Some (CInt i) \<Rightarrow> (i, None) | _ \<Rightarrow> (-1, Some ErrCacheMiss))"
  using wc_Get_visible [of now c key]
  by (auto simp: GetInt_def split: prod.splits option.splits cval.splits)

subsection \<open>The interface of a store with a time to live\<close>

locale ttl_store =
  fixes see :: "int \<Rightarrow> 's \<Rightarrow> string \<Rightarrow> 'v option"
    and wrt :: "int \<Rightarrow> 's \<Rightarrow> string \<Rightarrow> 'v \<Rightarrow> int \<Rightarrow> 's"
    and del :: "'s \<Rightarrow> string \<Rightarrow> 's"
  assumes see_wrt: "see now (wrt t s k v ttl) k' =
      (if k' = k then (if now - t \<le> ttl then Some v else None) else see now s k')"
    and see_del: "see now (del s k) k' = (if k' = k then None else see now s k')"
begin

text \<open>
  An event log: append the event, drop what is older than the retention, write back with the
  retention as time to live. \<open>ev\<close> reads the events of a value, \<open>wr\<close> makes the new value.
\<close>

definition log_event :: "('v \<Rightarrow> int list) \<Rightarrow> (int \<Rightarrow> 'v option \<Rightarrow> int list \<Rightarrow> 'v) \<Rightarrow> int \<Rightarrow> int \<Rightarrow> 's \<Rightarrow> string \<Rightarrow> 's" where
  "log_event ev wr ret now s k =
     (let old = see now s k;
          es = filter (\<lambda>t. now - ret < t) ((case old of None \<Rightarrow> [] | Some v \<Rightarrow> ev v) @ [now])
      in wrt now s k (wr now old es) ret)"

fun log_run :: "('v \<Rightarrow> int list) \<Rightarrow> (int \<Rightarrow> 'v option \<Rightarrow> int list \<Rightarrow> 'v) \<Rightarrow> int \<Rightarrow> int list \<Rightarrow> 's \<Rightarrow> string \<Rightarrow> 's" where
  "log_run ev wr ret [] s k = s"
| "log_run ev wr ret (t # ts) s k = log_run ev wr ret ts (log_event ev wr ret t s k) k"

definition log_count :: "('v \<Rightarrow> int list) \<Rightarrow> int \<Rightarrow> int \<Rightarrow> 's \<Rightarrow> string \<Rightarrow> nat" where
  "log_count ev win now s k =
     length (filter (\<lambda>t. now - win < t) (case see now s k of None \<Rightarrow> [] | Some v \<Rightarrow> ev v))"

text \<open>The log holds the events \<open>ts\<close> (in order, the last one the latest) up to the retention.\<close>

definition holds_events :: "('v \<Rightarrow> int list) \<Rightarrow> int \<Rightarrow> int list \<Rightarrow> 's \<Rightarrow> string \<Rightarrow> bool" where
  "holds_events ev ret ts s k \<longleftrightarrow>
     (\<forall>now. (\<forall>t \<in> set ts. t \<le> now) \<longrightarrow>
        (\<forall>win \<le> ret. log_count ev win now s k = length (filter (\<lambda>t. now - win < t) ts)) \<and>
        filter (\<lambda>t. now - ret < t) (case see now s k of None \<Rightarrow> [] | Some v \<Rightarrow> ev v) =
          filter (\<lambda>t. now - ret < t) ts)"

lemma holds_events_step:
  assumes h: "holds_events ev ret ts s k" and le: "\<forall>t \<in> set ts. t \<le> now"
    and ev: "\<And>now old es. ev (wr now old es) = es" and ret: "0 \<le> ret"
  shows "holds_events ev ret (ts @ [now]) (log_event ev wr ret now s k) k"
  unfolding holds_events_def
proof (intro allI impI)
  fix now' assume "\<forall>t \<in> set (ts @ [now]). t \<le> now'"
  then have le': "now \<le> now'" "\<forall>t \<in> set ts. t \<le> now'" by auto
  let ?old = "case see now s k of None \<Rightarrow> [] | Some v \<Rightarrow> ev v"
  have old: "filter (\<lambda>t. now - ret < t) ?old = filter (\<lambda>t. now - ret < t) ts"
    using h le unfolding holds_events_def by blast
  have new: "(case see now' (log_event ev wr ret now s k) k of None \<Rightarrow> [] | Some v \<Rightarrow> ev v) =
      (if now' - now \<le> ret then filter (\<lambda>t. now - ret < t) (ts @ [now]) else [])"
    using old by (simp add: log_event_def see_wrt ev Let_def)
  have key: "filter (\<lambda>t. now' - win < t) (if now' - now \<le> ret then filter (\<lambda>t. now - ret < t) (ts @ [now]) else []) =
      filter (\<lambda>t. now' - win < t) (ts @ [now])" if win: "win \<le> ret" for win
  proof (cases "now' - now \<le> ret")
    case True
    have "filter (\<lambda>t. now' - win < t) (filter (\<lambda>t. now - ret < t) (ts @ [now])) =
        filter (\<lambda>t. now' - win < t) (ts @ [now])"
      unfolding filter_filter using le' win by (intro filter_cong) auto
    with True show ?thesis by simp
  next
    case False
    with win le have "\<forall>t \<in> set (ts @ [now]). \<not> now' - win < t" by fastforce
    then have "filter (\<lambda>t. now' - win < t) (ts @ [now]) = []" by (simp only: filter_empty_conv)
    with False show ?thesis by simp
  qed
  show "(\<forall>win \<le> ret. log_count ev win now' (log_event ev wr ret now s k) k =
      length (filter (\<lambda>t. now' - win < t) (ts @ [now]))) \<and>
    filter (\<lambda>t. now' - ret < t)
      (case see now' (log_event ev wr ret now s k) k of None \<Rightarrow> [] | Some v \<Rightarrow> ev v) =
    filter (\<lambda>t. now' - ret < t) (ts @ [now])"
    unfolding log_count_def new using key key [OF order_refl] by metis
qed

text \<open>
  The exactness of the log: after events at non-decreasing times the count over a window no longer
  than the retention is the number of events inside the window, although older ones were
  dropped and the record itself may have expired in between.
\<close>

lemma log_exact:
  assumes "holds_events ev ret ts0 s k" "\<And>now old es. ev (wr now old es) = es" "0 \<le> ret"
    "sorted (ts0 @ ts)"
  shows "holds_events ev ret (ts0 @ ts) (log_run ev wr ret ts s k) k"
  using assms(1,4)
proof (induction ts arbitrary: s ts0)
  case Nil
  then show ?case by simp
next
  case (Cons t ts)
  have "\<forall>x \<in> set ts0. x \<le> t" using Cons.prems(2) by (auto simp: sorted_append)
  from holds_events_step [OF Cons.prems(1) this assms(2,3)]
  have "holds_events ev ret (ts0 @ [t]) (log_event ev wr ret t s k) k" .
  from Cons.IH [OF this] Cons.prems(2) show ?case by simp
qed

lemma holds_events_empty: "(\<And>now. see now s k = None) \<Longrightarrow> holds_events ev ret [] s k"
  by (simp add: holds_events_def log_count_def)

lemma log_event_other: "k' \<noteq> k \<Longrightarrow> see now' (log_event ev wr ret now s k) k' = see now' s k'"
  by (simp add: log_event_def see_wrt Let_def)

end

interpretation mem_cache: ttl_store visible SetWithTTlRenewTime wc_Remove
  by unfold_locales (simp_all add: visible_renew visible_remove)

lemmas [cache_simps] =
  visible_renew visible_remove wc_Get_visible wc_Get_keeps IsKeyExist_visible IsKeyExist_keeps
  GetInt_visible GetInt_keeps

subsection \<open>Properties\<close>

text \<open>
  The time to live. A value written with renewal is returned by every read up to its time to
  live after the write and by none later, and no other key is affected.
\<close>

theorem SetWithTTlRenewTime_Get:
  "fst (wc_Get now (SetWithTTlRenewTime t c key v ttl) k) =
     (if k = key then (if now \<le> t + ttl then Some v else None) else fst (wc_Get now c k))"
  by (auto simp: wc_Get_visible visible_renew)

text \<open>
  Housekeeping is invisible: the periodic sweep, the listings and the deletions a read makes on
  the way change no later read.
\<close>

theorem cache_housekeeping:
  assumes "now < now'"
  shows "visible now' (ClearExpirationCache now c) k = visible now' c k \<and>
    visible now' (snd (ListAvailableKeysWithPrefix now c pre)) k = visible now' c k \<and>
    visible now' (snd (wc_Get now c key)) k = visible now' c k \<and>
    visible now' (snd (IsKeyExist now c key)) k = visible now' c k"
proof -
  have "visible now' (ClearExpirationCache now c) k = visible now' c k"
    using assms by (auto simp: ClearExpirationCache_def visible_def expired_def split: option.splits)
  moreover have "visible now' (snd (ListAvailableKeysWithPrefix now c pre)) k = visible now' c k"
    using assms by (auto simp: ListAvailableKeysWithPrefix_def visible_def expired_def remaining_def
        split: option.splits)
  ultimately show ?thesis using assms by (simp add: wc_Get_keeps IsKeyExist_keeps)
qed

theorem cache_housekeeping_witness:
  "visible 20 (ClearExpirationCache 15 (SetWithTTlRenewTime 10 InitWafCache ''k'' (CInt 1) 30)) ''k'' =
   Some (CInt 1 :: unit cval)"
  using cache_housekeeping [of 15 20 "SetWithTTlRenewTime 10 InitWafCache ''k'' (CInt 1 :: unit cval) 30" "''k''" "[]" "''k''"]
  by (simp add: visible_renew)

text \<open>
  \<open>SetWithTTl\<close> on an item that has expired but was not yet swept keeps the old creation time:
  with a time to live no longer than the old one the value written is invisible at once, although
  readers see the key as absent.
\<close>

theorem SetWithTTl_on_expired_lost:
  assumes "c key = Some item" "visible now c key = None" "ttl \<le> ci_ttl item"
  shows "visible now (SetWithTTl now c key v ttl) key = None"
  using assms by (auto simp: visible_def SetWithTTl_def expired_def mk_item_def Let_def split: if_splits)

theorem SetWithTTl_on_expired_lost_witness:
  "visible 100 (SetWithTTl 100 (SetWithTTlRenewTime 10 InitWafCache ''k'' (CInt 1) 30) ''k'' (CInt 2) 30) ''k'' =
   (None :: unit cval option)"
  by (rule SetWithTTl_on_expired_lost [where item = "mk_item (CInt 1) 10 30"])
     (simp_all add: SetWithTTlRenewTime_def visible_def expired_def mk_item_def)

end
