(* ===== verification/Ip_Ban.thy ===== *)
theory Ip_Ban
  imports Waf_Cache
begin

text \<open>
  Package wafipban: the counter of failed requests per client that custom rules read
  (ip_failure_manager.go), the counter of failed remote logins (host_login_failure_manager.go) and
  the read of a record from the cache (record_cache.go), on the in-memory backend.

  Both counters are event logs in the cache, instances of the log of \<open>ttl_store\<close>: their counts are
  exact over windows up to the retention. The configuration is a record passed to the operations.
\<close>

subsection \<open>Records and configuration\<close>

record IPFailureRecord =
  fr_IP :: string
  fr_Events :: "int list"
  fr_Count :: int
  fr_FirstTime :: int
  fr_LastTime :: int
  fr_TriggerMinutes :: int
  fr_TriggerCount :: int

record HostLoginFailureRecord =
  hl_Source :: string
  hl_IP :: string
  hl_Events :: "int list"
  hl_Count :: int
  hl_FirstTime :: int
  hl_LastTime :: int

text \<open>The records the WAF keeps in the one shared cache.\<close>

datatype waf_rec = RecIPFail IPFailureRecord | RecHostLogin HostLoginFailureRecord

type_synonym waf_cache = "waf_rec WafCache"

record ip_ban_config =
  GCONFIG_IP_FAILURE_BAN_ENABLED :: int
  GCONFIG_IP_FAILURE_BAN_LOCK_TIME :: int
  GCONFIG_IP_FAILURE_STATUS_CODES :: string
  GSSL_HTTP_CHANGLE_PATH :: string

text \<open>The fields of a web log entry the counter reads.\<close>

record weblog_fail =
  wl_SRC_IP :: string
  wl_IsBot :: int
  wl_RISK_LEVEL :: int
  wl_URL :: string

definition CACHE_IP_FAILURE_PRE :: string where "CACHE_IP_FAILURE_PRE = ''CACHE_IP_FAILURE_PRE''"
definition CACHE_HOST_LOGIN_FAIL_PRE :: string where "CACHE_HOST_LOGIN_FAIL_PRE = ''CACHE_HOST_LOGIN_FAIL_''"

text \<open>\<open>loadRecord\<close> on the in-memory cache: a value of another type reads as absent.\<close>

definition loadIPFail :: "int \<Rightarrow> waf_cache \<Rightarrow> string \<Rightarrow> IPFailureRecord option" where
  "loadIPFail now c ip =
     (case fst (wc_Get now c (CACHE_IP_FAILURE_PRE @ ip)) of
        Some (CRec (RecIPFail r)) \<Rightarrow> Some r | _ \<Rightarrow> None)"

definition IsBannedRecord :: "IPFailureRecord option \<Rightarrow> bool" where
  "IsBannedRecord r = (case r of None \<Rightarrow> False | Some f \<Rightarrow> 0 < fr_TriggerMinutes f \<and> 0 < fr_TriggerCount f)"

subsection \<open>Status codes\<close>

text \<open>
  The regular expressions of package regexp are an argument: \<open>compile\<close> gives the matcher of a
  pattern, or none if it does not compile.
\<close>

record status_codes =
  statusRe :: "(string \<Rightarrow> bool) option"
  statusMap :: "int set"

definition regex_chars :: string where
  "regex_chars = ''^$.*+?[]{}()|'' @ [CHR 0x5C]"

fun parse_codes :: "string list \<Rightarrow> int set \<Rightarrow> int set \<times> bool" where
  "parse_codes [] m = (m, False)"
| "parse_codes (p # ps) m =
     (let part = TrimSpace p
      in if part = [] then parse_codes ps m
         else if ContainsAny part regex_chars then (m, True)
         else (case ParseInt part of None \<Rightarrow> parse_codes ps m | Some code \<Rightarrow> parse_codes ps (insert code m)))"

definition initStatusCodes :: "(string \<Rightarrow> (string \<Rightarrow> bool) option) \<Rightarrow> ip_ban_config \<Rightarrow> status_codes \<Rightarrow> status_codes" where
  "initStatusCodes compile cfg m =
     (let str = (if GCONFIG_IP_FAILURE_STATUS_CODES cfg = [] then ''401|403|404|444|429|503''
                 else GCONFIG_IP_FAILURE_STATUS_CODES cfg);
          (codes, hasRegex) = parse_codes (StrSplit (CHR ''|'') str) {}
      in if hasRegex then
           (case compile (''^('' @ str @ '')$'') of
              None \<Rightarrow> m\<lparr>statusMap := codes\<rparr>
            | Some re \<Rightarrow> m\<lparr>statusMap := codes, statusRe := Some re\<rparr>)
         else m\<lparr>statusMap := codes\<rparr>)"

definition ReloadStatusCodes :: "(string \<Rightarrow> (string \<Rightarrow> bool) option) \<Rightarrow> ip_ban_config \<Rightarrow> status_codes \<Rightarrow> status_codes" where
  "ReloadStatusCodes compile cfg m = initStatusCodes compile cfg m"

definition IsFailureStatusCode :: "status_codes \<Rightarrow> int \<Rightarrow> bool" where
  "IsFailureStatusCode m statusCode =
     (if statusCode \<in> statusMap m then True
      else case statusRe m of Some re \<Rightarrow> re (Itoa statusCode) | None \<Rightarrow> False)"

subsection \<open>Failed requests of a client\<close>

definition retention :: "ip_ban_config \<Rightarrow> int" where
  "retention cfg = GCONFIG_IP_FAILURE_BAN_LOCK_TIME cfg * minute"

definition RecordFailure :: "ip_ban_config \<Rightarrow> int \<Rightarrow> waf_cache \<Rightarrow> weblog_fail option \<Rightarrow> waf_cache" where
  "RecordFailure cfg now c webLog =
     (case webLog of None \<Rightarrow> c
      | Some wl \<Rightarrow>
          if wl_SRC_IP wl = [] \<or> GCONFIG_IP_FAILURE_BAN_ENABLED cfg = 0 then c
          else if wl_IsBot wl = 1 \<and> wl_RISK_LEVEL wl = 0 then c
          else if HasPrefix (wl_URL wl) (GSSL_HTTP_CHANGLE_PATH cfg) then c
          else
            (let ip = wl_SRC_IP wl;
                 record = (case loadIPFail now c ip of
                             Some r \<Rightarrow> r
                           | None \<Rightarrow> \<lparr>fr_IP = ip, fr_Events = [], fr_Count = 0, fr_FirstTime = now,
                                      fr_LastTime = now, fr_TriggerMinutes = 0, fr_TriggerCount = 0\<rparr>);
                 valid = filter (\<lambda>t. now - retention cfg < t) (fr_Events record @ [now]);
                 record' = record\<lparr>fr_Events := valid, fr_Count := int (length valid),
                   fr_FirstTime := (if valid \<noteq> [] then hd valid else fr_FirstTime record),
                   fr_LastTime := now\<rparr>
             in SetWithTTlRenewTime now c (CACHE_IP_FAILURE_PRE @ ip) (CRec (RecIPFail record'))
                  (retention cfg)))"

definition GetFailureCount :: "ip_ban_config \<Rightarrow> int \<Rightarrow> waf_cache \<Rightarrow> string \<Rightarrow> int \<Rightarrow> int" where
  "GetFailureCount cfg now c ip minutes =
     (if ip = [] \<or> GCONFIG_IP_FAILURE_BAN_ENABLED cfg = 0 then 0
      else case loadIPFail now c ip of
        None \<Rightarrow> 0
      | Some r \<Rightarrow> int (length (filter (\<lambda>t. now - minutes * minute < t) (fr_Events r))))"

definition ClearIPFailure :: "waf_cache \<Rightarrow> string \<Rightarrow> waf_cache" where
  "ClearIPFailure c ip = (if ip = [] then c else wc_Remove c (CACHE_IP_FAILURE_PRE @ ip))"

definition GetFailureInfo :: "int \<Rightarrow> waf_cache \<Rightarrow> string \<Rightarrow> IPFailureRecord option" where
  "GetFailureInfo now c ip = loadIPFail now c ip"

definition stamp_threshold :: "int \<Rightarrow> int \<Rightarrow> IPFailureRecord \<Rightarrow> IPFailureRecord" where
  "stamp_threshold minutes count r =
     (if fr_TriggerMinutes r = 0 \<or> fr_TriggerCount r = 0
      then r\<lparr>fr_TriggerMinutes := minutes, fr_TriggerCount := count\<rparr>
      else if minutes < fr_TriggerMinutes r \<or> minutes = fr_TriggerMinutes r \<and> count < fr_TriggerCount r
      then r\<lparr>fr_TriggerMinutes := minutes, fr_TriggerCount := count\<rparr>
      else r)"

definition RecordFailureThreshold :: "ip_ban_config \<Rightarrow> int \<Rightarrow> waf_cache \<Rightarrow> string \<Rightarrow> int \<Rightarrow> int \<Rightarrow> waf_cache" where
  "RecordFailureThreshold cfg now c ip minutes count =
     (if ip = [] \<or> GCONFIG_IP_FAILURE_BAN_ENABLED cfg = 0 then c
      else
        (let record = (case loadIPFail now c ip of
               None \<Rightarrow> \<lparr>fr_IP = ip, fr_Events = [], fr_Count = 0, fr_FirstTime = now, fr_LastTime = now,
                        fr_TriggerMinutes = minutes, fr_TriggerCount = count\<rparr>
             | Some r \<Rightarrow> stamp_threshold minutes count r)
         in SetWithTTlRenewTime now c (CACHE_IP_FAILURE_PRE @ ip) (CRec (RecIPFail record)) (retention cfg)))"

subsection \<open>Failed remote logins\<close>

definition hostLoginKey :: "string \<Rightarrow> string \<Rightarrow> string" where
  "hostLoginKey source ip = CACHE_HOST_LOGIN_FAIL_PRE @ source @ '':'' @ ip"

definition loadHostLogin :: "int \<Rightarrow> waf_cache \<Rightarrow> string \<Rightarrow> string \<Rightarrow> HostLoginFailureRecord option" where
  "loadHostLogin now c source ip =
     (case fst (wc_Get now c (hostLoginKey source ip)) of
        Some (CRec (RecHostLogin r)) \<Rightarrow> Some r | _ \<Rightarrow> None)"

text \<open>The defaults of the two windows, in minutes.\<close>

definition hl_window :: "int \<Rightarrow> int" where
  "hl_window w = (if w \<le> 0 then 10 else w)"

definition hl_retention :: "int \<Rightarrow> int \<Rightarrow> int" where
  "hl_retention w r = (if r < hl_window w then hl_window w else r)"

definition hl_Record :: "int \<Rightarrow> waf_cache \<Rightarrow> string \<Rightarrow> string \<Rightarrow> int \<Rightarrow> int \<Rightarrow> int \<times> waf_cache" where
  "hl_Record now c source ip windowMinutes retentionMinutes =
     (if ip = [] then (0, c)
      else
        (let win = hl_window windowMinutes;
             ret = hl_retention windowMinutes retentionMinutes;
             record = (case loadHostLogin now c source ip of
                         Some r \<Rightarrow> r
                       | None \<Rightarrow> \<lparr>hl_Source = source, hl_IP = ip, hl_Events = [], hl_Count = 0,
                                  hl_FirstTime = now, hl_LastTime = 0\<rparr>);
             valid = filter (\<lambda>t. now - ret * minute < t) (hl_Events record @ [now]);
             inWindow = int (length (filter (\<lambda>t. now - win * minute < t) valid));
             record' = record\<lparr>hl_Events := valid, hl_Count := int (length valid),
               hl_FirstTime := (if valid \<noteq> [] then hd valid else hl_FirstTime record),
               hl_LastTime := now\<rparr>
         in (inWindow,
             SetWithTTlRenewTime now c (hostLoginKey source ip) (CRec (RecHostLogin record'))
               (ret * minute))))"

definition hl_GetCount :: "int \<Rightarrow> waf_cache \<Rightarrow> string \<Rightarrow> string \<Rightarrow> int \<Rightarrow> int" where
  "hl_GetCount now c source ip windowMinutes =
     (if ip = [] then 0
      else case loadHostLogin now c source ip of
        None \<Rightarrow> 0
      | Some r \<Rightarrow> int (length (filter (\<lambda>t. now - windowMinutes * minute < t) (hl_Events r))))"

definition hl_Clear :: "waf_cache \<Rightarrow> string \<Rightarrow> string \<Rightarrow> waf_cache" where
  "hl_Clear c source ip = (if ip = [] then c else wc_Remove c (hostLoginKey source ip))"

definition hl_GetRecord :: "int \<Rightarrow> waf_cache \<Rightarrow> string \<Rightarrow> string \<Rightarrow> HostLoginFailureRecord option" where
  "hl_GetRecord now c source ip = (if ip = [] then None else loadHostLogin now c source ip)"

subsection \<open>The counters are event logs\<close>

fun hl_events :: "waf_rec cval \<Rightarrow> int list" where
  "hl_events (CRec (RecHostLogin r)) = hl_Events r"
| "hl_events _ = []"

definition hl_write :: "string \<Rightarrow> string \<Rightarrow> int \<Rightarrow> waf_rec cval option \<Rightarrow> int list \<Rightarrow> waf_rec cval" where
  "hl_write source ip now old es =
     (let record = (case old of
                      Some (CRec (RecHostLogin r)) \<Rightarrow> r
                    | _ \<Rightarrow> \<lparr>hl_Source = source, hl_IP = ip, hl_Events = [], hl_Count = 0,
                            hl_FirstTime = now, hl_LastTime = 0\<rparr>)
      in CRec (RecHostLogin (record\<lparr>hl_Events := es, hl_Count := int (length es),
           hl_FirstTime := (if es \<noteq> [] then hd es else hl_FirstTime record), hl_LastTime := now\<rparr>)))"

fun ip_events :: "waf_rec cval \<Rightarrow> int list" where
  "ip_events (CRec (RecIPFail r)) = fr_Events r"
| "ip_events _ = []"

definition ip_write :: "string \<Rightarrow> int \<Rightarrow> waf_rec cval option \<Rightarrow> int list \<Rightarrow> waf_rec cval" where
  "ip_write ip now old es =
     (let record = (case old of
                      Some (CRec (RecIPFail r)) \<Rightarrow> r
                    | _ \<Rightarrow> \<lparr>fr_IP = ip, fr_Events = [], fr_Count = 0, fr_FirstTime = now,
                            fr_LastTime = now, fr_TriggerMinutes = 0, fr_TriggerCount = 0\<rparr>)
      in CRec (RecIPFail (record\<lparr>fr_Events := es, fr_Count := int (length es),
           fr_FirstTime := (if es \<noteq> [] then hd es else fr_FirstTime record), fr_LastTime := now\<rparr>)))"

lemma events_write [simp]:
  "hl_events (hl_write source ip now old es) = es" "ip_events (ip_write ip now old es) = es"
  by (simp_all add: hl_write_def ip_write_def Let_def)

lemma load_visible:
  "loadHostLogin now c source ip =
     (case visible now c (hostLoginKey source ip) of Some (CRec (RecHostLogin r)) \<Rightarrow> Some r | _ \<Rightarrow> None)"
  "loadIPFail now c ip =
     (case visible now c (CACHE_IP_FAILURE_PRE @ ip) of Some (CRec (RecIPFail r)) \<Rightarrow> Some r | _ \<Rightarrow> None)"
  by (simp_all add: loadHostLogin_def loadIPFail_def wc_Get_visible)

lemma hl_Record_log:
  "ip \<noteq> [] \<Longrightarrow> snd (hl_Record now c source ip w r) =
     mem_cache.log_event hl_events (hl_write source ip) (hl_retention w r * minute) now c (hostLoginKey source ip)"
  by (auto simp: hl_Record_def mem_cache.log_event_def load_visible hl_write_def
      Let_def simp del: filter_append length_append
      split: option.splits cval.splits waf_rec.splits)

lemma hl_GetCount_log:
  "ip \<noteq> [] \<Longrightarrow> hl_GetCount now c source ip w =
     int (mem_cache.log_count hl_events (w * minute) now c (hostLoginKey source ip))"
  by (auto simp: hl_GetCount_def mem_cache.log_count_def load_visible
      split: option.splits cval.splits waf_rec.splits)

lemma hl_Record_count:
  assumes "ip \<noteq> []"
  shows "fst (hl_Record now c source ip w r) =
    hl_GetCount now (snd (hl_Record now c source ip w r)) source ip (hl_window w)"
proof -
  have "0 \<le> hl_retention w r * minute" by (auto simp: hl_retention_def hl_window_def)
  with assms show ?thesis
    by (simp add: hl_Record_def hl_GetCount_def load_visible visible_renew Let_def
        del: filter_append length_append)
qed

fun hl_run :: "string \<Rightarrow> string \<Rightarrow> int \<Rightarrow> int \<Rightarrow> int list \<Rightarrow> waf_cache \<Rightarrow> waf_cache" where
  "hl_run source ip w r [] c = c"
| "hl_run source ip w r (t # ts) c = hl_run source ip w r ts (snd (hl_Record t c source ip w r))"

lemma hl_run_log:
  "ip \<noteq> [] \<Longrightarrow> hl_run source ip w r ts c =
     mem_cache.log_run hl_events (hl_write source ip) (hl_retention w r * minute) ts c (hostLoginKey source ip)"
  by (induction ts arbitrary: c) (simp_all add: hl_Record_log)

definition accepted_failure :: "ip_ban_config \<Rightarrow> weblog_fail \<Rightarrow> bool" where
  "accepted_failure cfg wl \<longleftrightarrow>
     wl_SRC_IP wl \<noteq> [] \<and> GCONFIG_IP_FAILURE_BAN_ENABLED cfg \<noteq> 0 \<and>
     \<not> (wl_IsBot wl = 1 \<and> wl_RISK_LEVEL wl = 0) \<and> \<not> HasPrefix (wl_URL wl) (GSSL_HTTP_CHANGLE_PATH cfg)"

lemma RecordFailure_log:
  "accepted_failure cfg wl \<Longrightarrow> RecordFailure cfg now c (Some wl) =
     mem_cache.log_event ip_events (ip_write (wl_SRC_IP wl)) (retention cfg) now c
       (CACHE_IP_FAILURE_PRE @ wl_SRC_IP wl)"
  by (auto simp: accepted_failure_def RecordFailure_def mem_cache.log_event_def load_visible ip_write_def
      Let_def simp del: filter_append length_append split: option.splits cval.splits waf_rec.splits)

lemma GetFailureCount_log:
  "ip \<noteq> [] \<Longrightarrow> GCONFIG_IP_FAILURE_BAN_ENABLED cfg \<noteq> 0 \<Longrightarrow> GetFailureCount cfg now c ip m =
     int (mem_cache.log_count ip_events (m * minute) now c (CACHE_IP_FAILURE_PRE @ ip))"
  by (auto simp: GetFailureCount_def mem_cache.log_count_def load_visible
      split: option.splits cval.splits waf_rec.splits)

fun fail_run :: "ip_ban_config \<Rightarrow> weblog_fail \<Rightarrow> int list \<Rightarrow> waf_cache \<Rightarrow> waf_cache" where
  "fail_run cfg wl [] c = c"
| "fail_run cfg wl (t # ts) c = fail_run cfg wl ts (RecordFailure cfg t c (Some wl))"

lemma fail_run_log:
  "accepted_failure cfg wl \<Longrightarrow> fail_run cfg wl ts c =
     mem_cache.log_run ip_events (ip_write (wl_SRC_IP wl)) (retention cfg) ts c
       (CACHE_IP_FAILURE_PRE @ wl_SRC_IP wl)"
  by (induction ts arbitrary: c) (simp_all add: RecordFailure_log)

lemma keys_disjoint: "hostLoginKey source ip \<noteq> CACHE_IP_FAILURE_PRE @ x"
  by (simp add: hostLoginKey_def CACHE_IP_FAILURE_PRE_def CACHE_HOST_LOGIN_FAIL_PRE_def)

lemma hostLoginKey_inject:
  assumes "CHR '':'' \<notin> set s1" "CHR '':'' \<notin> set s2"
  shows "hostLoginKey s1 ip1 = hostLoginKey s2 ip2 \<longleftrightarrow> s1 = s2 \<and> ip1 = ip2"
proof
  assume "hostLoginKey s1 ip1 = hostLoginKey s2 ip2"
  then have "s1 @ CHR '':'' # ip1 = s2 @ CHR '':'' # ip2" by (simp add: hostLoginKey_def)
  then have "Some (s1, ip1) = Some (s2, ip2)"
    using StrCut_append [OF assms(1), of ip1] StrCut_append [OF assms(2), of ip2] by metis
  then show "s1 = s2 \<and> ip1 = ip2" by simp
qed simp

subsection \<open>Properties\<close>

text \<open>
  The login failure counter is an exact sliding window. After failures at the times \<open>ts\<close>, the
  count it returns for a further failure is the number of failures inside the window, this one
  included, however the record was trimmed or expired in between; and a later query over any
  window up to the retention is exact too.
\<close>

theorem hl_Record_exact:
  assumes "ip \<noteq> []" "\<forall>t. visible t c (hostLoginKey source ip) = None" "sorted (ts @ [now])"
    "hl_Record now (hl_run source ip w r ts c) source ip w r = (n, c')"
  shows "n = int (length (filter (\<lambda>t. now - hl_window w * minute < t) (ts @ [now]))) \<and>
    (\<forall>later q. now \<le> later \<longrightarrow> q \<le> hl_retention w r \<longrightarrow>
       hl_GetCount later c' source ip q = int (length (filter (\<lambda>t. later - q * minute < t) (ts @ [now]))))"
proof -
  let ?k = "hostLoginKey source ip" and ?ret = "hl_retention w r * minute"
  have ret: "0 \<le> ?ret" "hl_window w * minute \<le> ?ret" by (auto simp: hl_retention_def hl_window_def)
  have "hl_run source ip w r (ts @ [now]) c = snd (hl_Record now (hl_run source ip w r ts c) source ip w r)"
    by (induction ts arbitrary: c) simp_all
  with assms(4) have run: "hl_run source ip w r (ts @ [now]) c = c'" by simp
  have h: "mem_cache.holds_events hl_events ?ret (ts @ [now]) c' ?k"
    using mem_cache.log_exact [OF mem_cache.holds_events_empty [of c ?k hl_events ?ret], of "hl_write source ip" "ts @ [now]"]
      assms(2,3) ret(1) hl_run_log [OF assms(1), of source w r "ts @ [now]" c] run by simp
  have cnt: "hl_GetCount later c' source ip q = int (length (filter (\<lambda>t. later - q * minute < t) (ts @ [now])))"
    if "now \<le> later" "q \<le> hl_retention w r" for later q
  proof -
    have "\<forall>t \<in> set (ts @ [now]). t \<le> later" using assms(3) that(1) by (auto simp: sorted_append)
    with h that(2) show ?thesis
      unfolding hl_GetCount_log [OF assms(1)] mem_cache.holds_events_def by simp
  qed
  moreover have "n = hl_GetCount now c' source ip (hl_window w)"
    using hl_Record_count [OF assms(1), of now "hl_run source ip w r ts c" source w r] assms(4) by simp
  moreover have "hl_window w \<le> hl_retention w r" using ret(2) by (simp add: hl_retention_def)
  ultimately show ?thesis by simp
qed

theorem hl_Record_exact_witness:
  "\<exists>c'. hl_Record (9 * minute) (hl_run ''ssh'' ''1.2.3.4'' 5 30 [0, 6 * minute] InitWafCache) ''ssh'' ''1.2.3.4'' 5 30 = (2, c')"
proof -
  obtain n c' where r: "hl_Record (9 * minute) (hl_run ''ssh'' ''1.2.3.4'' 5 30 [0, 6 * minute] InitWafCache)
      ''ssh'' ''1.2.3.4'' 5 30 = (n, c')" by fastforce
  have "\<forall>t. visible t InitWafCache (hostLoginKey ''ssh'' ''1.2.3.4'') = None"
    by (simp add: visible_def InitWafCache_def)
  from hl_Record_exact [OF _ this _ r] have "n = 2" by (simp add: hl_window_def)
  with r show ?thesis by auto
qed

text \<open>
  The request failure counter that custom rules read is exact over every window up to the lock
  time: it returns the number of accepted failures of that client inside the window.
\<close>

theorem GetFailureCount_exact:
  assumes "accepted_failure cfg wl" "\<forall>t. visible t c (CACHE_IP_FAILURE_PRE @ wl_SRC_IP wl) = None"
    "sorted ts" "\<forall>t \<in> set ts. t \<le> now" "0 \<le> GCONFIG_IP_FAILURE_BAN_LOCK_TIME cfg"
    "minutes \<le> GCONFIG_IP_FAILURE_BAN_LOCK_TIME cfg"
  shows "GetFailureCount cfg now (fail_run cfg wl ts c) (wl_SRC_IP wl) minutes =
    int (length (filter (\<lambda>t. now - minutes * minute < t) ts))"
proof -
  let ?k = "CACHE_IP_FAILURE_PRE @ wl_SRC_IP wl"
  have "0 \<le> retention cfg" "minutes * minute \<le> retention cfg"
    using assms(5,6) by (auto simp: retention_def)
  moreover from this have "mem_cache.holds_events ip_events (retention cfg) ts (fail_run cfg wl ts c) ?k"
    using mem_cache.log_exact [OF mem_cache.holds_events_empty [of c ?k ip_events "retention cfg"],
        of "ip_write (wl_SRC_IP wl)" ts] assms(2,3) fail_run_log [OF assms(1), of ts c] by simp
  ultimately show ?thesis
    using assms(1,4) unfolding mem_cache.holds_events_def
    by (simp add: GetFailureCount_log accepted_failure_def)
qed

theorem GetFailureCount_exact_witness:
  "GetFailureCount \<lparr>GCONFIG_IP_FAILURE_BAN_ENABLED = 1, GCONFIG_IP_FAILURE_BAN_LOCK_TIME = 10,
      GCONFIG_IP_FAILURE_STATUS_CODES = [], GSSL_HTTP_CHANGLE_PATH = ''/.well-known''\<rparr> (6 * minute)
     (fail_run \<lparr>GCONFIG_IP_FAILURE_BAN_ENABLED = 1, GCONFIG_IP_FAILURE_BAN_LOCK_TIME = 10,
        GCONFIG_IP_FAILURE_STATUS_CODES = [], GSSL_HTTP_CHANGLE_PATH = ''/.well-known''\<rparr>
       \<lparr>wl_SRC_IP = ''1.2.3.4'', wl_IsBot = 0, wl_RISK_LEVEL = 0, wl_URL = ''/a''\<rparr>
       [0, 2 * minute, 5 * minute] InitWafCache) ''1.2.3.4'' 5 = 2"
  by (subst GetFailureCount_exact [where wl =
        "\<lparr>wl_SRC_IP = ''1.2.3.4'', wl_IsBot = 0, wl_RISK_LEVEL = 0, wl_URL = ''/a''\<rparr>", simplified])
     (simp_all add: accepted_failure_def HasPrefix_def visible_def InitWafCache_def)

text \<open>
  The two counters do not interfere: a failed remote login changes neither the request failure
  count of any client nor the login count of another source or another client.
\<close>

theorem hl_Record_isolated:
  assumes "hl_Record now c source ip w r = (n, c')" "CHR '':'' \<notin> set source" "CHR '':'' \<notin> set source'"
    "(source', ip') \<noteq> (source, ip)"
  shows "GetFailureCount cfg later c' x m = GetFailureCount cfg later c x m \<and>
    hl_GetCount later c' source' ip' q = hl_GetCount later c source' ip' q"
proof (cases "ip = []")
  case True
  with assms(1) show ?thesis by (simp add: hl_Record_def)
next
  case False
  have c': "c' = snd (hl_Record now c source ip w r)" using assms(1) by simp
  have "visible later c' (CACHE_IP_FAILURE_PRE @ x) = visible later c (CACHE_IP_FAILURE_PRE @ x)"
    unfolding c' hl_Record_log [OF False] using keys_disjoint by (intro mem_cache.log_event_other) metis
  moreover have "visible later c' (hostLoginKey source' ip') = visible later c (hostLoginKey source' ip')"
    unfolding c' hl_Record_log [OF False]
    using hostLoginKey_inject [OF assms(3,2)] assms(4) by (intro mem_cache.log_event_other) auto
  ultimately show ?thesis
    unfolding GetFailureCount_def hl_GetCount_def load_visible by (simp only: simp_thms)
qed

theorem hl_Record_isolated_witness:
  "\<exists>n c'. hl_Record 0 InitWafCache ''ssh'' ''1.2.3.4'' 5 30 = (n, c') \<and> hl_GetCount 1 c' ''rdp'' ''1.2.3.4'' 5 = 0"
proof -
  obtain n c' where r: "hl_Record 0 InitWafCache ''ssh'' ''1.2.3.4'' 5 30 = (n, c')" by fastforce
  have "hl_GetCount 1 InitWafCache ''rdp'' ''1.2.3.4'' 5 = 0"
    by (simp add: hl_GetCount_def load_visible visible_def InitWafCache_def)
  with hl_Record_isolated [OF r, of "''rdp''" "''1.2.3.4''" undefined 1 "[]" 0 5] r show ?thesis by simp
qed

text \<open>
  Reloading the status codes never drops a compiled expression: a code the old expression
  matches stays a failure code under a new configuration without any expression.
\<close>

theorem ReloadStatusCodes_keeps_regex:
  assumes "statusRe m = Some re" "re (Itoa code)" "snd (parse_codes (StrSplit (CHR ''|'')
    (GCONFIG_IP_FAILURE_STATUS_CODES cfg)) {}) = False" "GCONFIG_IP_FAILURE_STATUS_CODES cfg \<noteq> []"
  shows "IsFailureStatusCode (ReloadStatusCodes compile cfg m) code"
  using assms by (auto simp: ReloadStatusCodes_def initStatusCodes_def IsFailureStatusCode_def Let_def split: prod.splits)

theorem ReloadStatusCodes_keeps_regex_witness:
  "IsFailureStatusCode (ReloadStatusCodes (\<lambda>_. None)
     \<lparr>GCONFIG_IP_FAILURE_BAN_ENABLED = 1, GCONFIG_IP_FAILURE_BAN_LOCK_TIME = 10,
      GCONFIG_IP_FAILURE_STATUS_CODES = ''403'', GSSL_HTTP_CHANGLE_PATH = []\<rparr>
     \<lparr>statusRe = Some (\<lambda>s. HasPrefix s ''5''), statusMap = {}\<rparr>) 500"
proof (rule ReloadStatusCodes_keeps_regex)
  show "HasPrefix (Itoa 500) ''5''"
    by (simp add: Itoa_def format_nat.simps char_of_def bit_0 HasPrefix_def)
qed (simp_all add: go_str_simps regex_chars_def ParseInt_def)

end
