(* ===== verification/Ban_Executor.thy ===== *)
theory Ban_Executor
  imports Waf_Cache
begin

text \<open>
  Package wafhostguard, files executor.go and portdetect.go: the mirror of the addresses that should be
  banned, its synchronisation with the system firewall (one rule per address, incremental set updates,
  or a debounced full rebuild) and the ports a ban applies to.

  The firewall of the operating system is an argument: a record of the operations of
  \<open>FireWallEngine\<close> on a state \<open>'f\<close>, each returning an error text or none. Nothing is assumed of it: the calls
  differ between the systems, may fail, and may leave addresses out without an error, so what is shown is
  which calls the executor makes. A Go map is a list of distinct keys in one of its iteration orders.
  A pending timer is its deadline. Nothing else runs while an operation runs (the code's two locks).
\<close>

subsection \<open>The firewall\<close>

type_synonym go_error = "string option"

record 'f firewall =
  SupportsIncrementalIPSet :: bool
  SupportsIPSet :: bool
  SupportsPortScopedSet :: bool
  BlockIP :: "string \<Rightarrow> string \<Rightarrow> 'f \<Rightarrow> go_error \<times> 'f"
  UnblockIP :: "string \<Rightarrow> 'f \<Rightarrow> go_error \<times> 'f"
  BlockIPList :: "string list \<Rightarrow> 'f \<Rightarrow> go_error \<times> 'f"
  AddToIPSet :: "string \<Rightarrow> string list \<Rightarrow> 'f \<Rightarrow> go_error \<times> 'f"
  DelFromIPSet :: "string \<Rightarrow> string list \<Rightarrow> 'f \<Rightarrow> go_error \<times> 'f"
  RestoreIPSet :: "string \<Rightarrow> string list \<Rightarrow> 'f \<Rightarrow> go_error \<times> 'f"
  ApplyIPSetPortScope :: "string \<Rightarrow> int list \<Rightarrow> 'f \<Rightarrow> go_error \<times> 'f"
  fw_elapsed :: int

definition BanSetName :: string where "BanSetName = ''samwaf_hostguard''"

record exec_config =
  GCONFIG_HOST_GUARD_EXEC_MODE :: string
  GCONFIG_HOST_GUARD_DEBOUNCE_SEC :: int
  GCONFIG_HOST_GUARD_PORT_SCOPE :: string
  GCONFIG_HOST_GUARD_SSH_PORTS :: string
  GCONFIG_HOST_GUARD_RDP_PORTS :: string

record 'f BanExecutor =
  ex_current :: "string list"
  ex_dirty :: bool
  ex_syncTimer :: "int option"
  ex_lastSyncAt :: int
  ex_lastSyncMs :: int
  ex_fw :: 'f

definition GetBanExecutor :: "'f \<Rightarrow> 'f BanExecutor" where
  "GetBanExecutor f = \<lparr>ex_current = [], ex_dirty = False, ex_syncTimer = None, ex_lastSyncAt = 0,
     ex_lastSyncMs = 0, ex_fw = f\<rparr>"

subsection \<open>The execution mode\<close>

definition useIncremental :: "exec_config \<Rightarrow> 'f firewall \<Rightarrow> bool" where
  "useIncremental cfg fw =
     (if GCONFIG_HOST_GUARD_EXEC_MODE cfg = ''rule'' then True
      else if GCONFIG_HOST_GUARD_EXEC_MODE cfg = ''ipset'' then SupportsIncrementalIPSet fw
      else SupportsIncrementalIPSet fw)"

definition useRuleMode :: "exec_config \<Rightarrow> 'f firewall \<Rightarrow> bool" where
  "useRuleMode cfg fw =
     (if GCONFIG_HOST_GUARD_EXEC_MODE cfg = ''rule'' then True
      else if GCONFIG_HOST_GUARD_EXEC_MODE cfg = ''ipset'' then False
      else \<not> SupportsIPSet fw)"

definition HostBanExecIPSet :: string where "HostBanExecIPSet = ''ipset''"
definition HostBanExecRule :: string where "HostBanExecRule = ''rule''"

definition ExecMode :: "exec_config \<Rightarrow> 'f firewall \<Rightarrow> string" where
  "ExecMode cfg fw = (if useRuleMode cfg fw then HostBanExecRule else HostBanExecIPSet)"

definition SupportsPortScope :: "exec_config \<Rightarrow> 'f firewall \<Rightarrow> bool" where
  "SupportsPortScope cfg fw = (if useRuleMode cfg fw then False else SupportsPortScopedSet fw)"

subsection \<open>Synchronisation\<close>

definition recordSync :: "'f firewall \<Rightarrow> int \<Rightarrow> 'f BanExecutor \<Rightarrow> 'f BanExecutor" where
  "recordSync fw now e = e\<lparr>ex_lastSyncAt := now, ex_lastSyncMs := fw_elapsed fw div 1000000\<rparr>"

definition ex_Count :: "'f BanExecutor \<Rightarrow> int" where
  "ex_Count e = int (length (ex_current e))"

definition ex_Contains :: "'f BanExecutor \<Rightarrow> string \<Rightarrow> bool" where
  "ex_Contains e ip \<longleftrightarrow> ip \<in> set (ex_current e)"

definition LastSync :: "'f BanExecutor \<Rightarrow> int \<times> int" where
  "LastSync e = (ex_lastSyncAt e, ex_lastSyncMs e)"

text \<open>A sequence of firewall calls goes on after an error and reports the first one.\<close>

fun each_call :: "('f \<Rightarrow> go_error \<times> 'f) list \<Rightarrow> go_error \<Rightarrow> 'f \<Rightarrow> go_error \<times> 'f" where
  "each_call [] firstErr f = (firstErr, f)"
| "each_call (call # calls) firstErr f =
     (case call f of (err, f') \<Rightarrow> each_call calls (if firstErr = None then err else firstErr) f')"

definition rule_remark :: string where
  "rule_remark = ''SamWaf'' @ map char_of [228::nat, 184, 187, 230, 156, 186, 233, 152, 178, 231, 136, 134, 231, 160, 180]"

definition applyByRules :: "'f firewall \<Rightarrow> string list \<Rightarrow> string list \<Rightarrow> 'f BanExecutor \<Rightarrow> go_error \<times> 'f BanExecutor" where
  "applyByRules fw add del e =
     (case each_call (map (\<lambda>ip. BlockIP fw ip rule_remark) add @ map (UnblockIP fw) del) None (ex_fw e) of
        (err, f) \<Rightarrow> (err, e\<lparr>ex_fw := f\<rparr>))"

definition applyIncremental :: "'f firewall \<Rightarrow> int \<Rightarrow> string list \<Rightarrow> string list \<Rightarrow> 'f BanExecutor \<Rightarrow> go_error \<times> 'f BanExecutor" where
  "applyIncremental fw now add del e =
     (case each_call ((if add \<noteq> [] then [AddToIPSet fw BanSetName add] else []) @
                      (if del \<noteq> [] then [DelFromIPSet fw BanSetName del] else [])) None (ex_fw e) of
        (err, f) \<Rightarrow> (err, recordSync fw now (e\<lparr>ex_fw := f\<rparr>)))"

definition debounce :: "exec_config \<Rightarrow> int" where
  "debounce cfg = (let d = int64 (GCONFIG_HOST_GUARD_DEBOUNCE_SEC cfg * second) in if d \<le> 0 then 30 * second else d)"

definition markDirty :: "exec_config \<Rightarrow> int \<Rightarrow> 'f BanExecutor \<Rightarrow> 'f BanExecutor" where
  "markDirty cfg now e =
     (if ex_dirty e then e
      else e\<lparr>ex_dirty := True, ex_syncTimer := Some (now + debounce cfg)\<rparr>)"

fun mirror_add :: "string list \<Rightarrow> string list \<Rightarrow> string list" where
  "mirror_add cur [] = cur"
| "mirror_add cur (ip # ips) = mirror_add (if ip \<in> set cur then cur else cur @ [ip]) ips"

definition mirror_del :: "string list \<Rightarrow> string list \<Rightarrow> string list" where
  "mirror_del cur ips = filter (\<lambda>ip. ip \<notin> set ips) cur"

text \<open>
  \<open>Apply\<close>. The flag \<open>changed\<close> of the two loops: some address of \<open>add\<close> was new, or some address of
  \<open>del\<close> was present after the additions.
\<close>

definition ex_Apply :: "exec_config \<Rightarrow> 'f firewall \<Rightarrow> int \<Rightarrow> string list \<Rightarrow> string list \<Rightarrow> 'f BanExecutor \<Rightarrow> go_error \<times> 'f BanExecutor" where
  "ex_Apply cfg fw now add del e =
     (if add = [] \<and> del = [] then (None, e)
      else
        (let added = mirror_add (ex_current e) add;
             changed = (list_ex (\<lambda>ip. ip \<notin> set (ex_current e)) add \<or> list_ex (\<lambda>ip. ip \<in> set added) del);
             e' = e\<lparr>ex_current := mirror_del added del\<rparr>
         in if \<not> changed then (None, e')
            else if useRuleMode cfg fw then applyByRules fw add del e'
            else if useIncremental cfg fw then applyIncremental fw now add del e'
            else (None, markDirty cfg now e')))"

definition FlushPending :: "'f firewall \<Rightarrow> int \<Rightarrow> 'f BanExecutor \<Rightarrow> go_error \<times> 'f BanExecutor" where
  "FlushPending fw now e =
     (if \<not> ex_dirty e then (None, e)
      else (case RestoreIPSet fw BanSetName (ex_current e) (ex_fw e) of
              (err, f) \<Rightarrow> (err, recordSync fw now (e\<lparr>ex_dirty := False, ex_syncTimer := None, ex_fw := f\<rparr>))))"

text \<open>The callback of the debounce timer.\<close>

definition timer_tick :: "'f firewall \<Rightarrow> int \<Rightarrow> 'f BanExecutor \<Rightarrow> 'f BanExecutor" where
  "timer_tick fw now e =
     (case ex_syncTimer e of
        None \<Rightarrow> e
      | Some t \<Rightarrow> if t \<le> now then snd (FlushPending fw now e) else e)"

text \<open>
  \<open>ReplayOnStart\<close> on the addresses of the bans that are active and not expired, in database order;
  the query itself, and its error, are in the caller's model of the database.
\<close>

definition ReplayOnStart :: "exec_config \<Rightarrow> 'f firewall \<Rightarrow> int \<Rightarrow> (string + string list) option \<Rightarrow> 'f BanExecutor \<Rightarrow> go_error \<times> 'f BanExecutor" where
  "ReplayOnStart cfg fw now bans e =
     (case bans of
        None \<Rightarrow> (None, e)
      | Some (Inl err) \<Rightarrow> (Some err, e)
      | Some (Inr bs) \<Rightarrow>
          if bs = [] then (None, e)
          else
            (let ips = filter (\<lambda>ip. ip \<noteq> []) bs;
                 e' = e\<lparr>ex_current := mirror_add [] ips\<rparr>
             in if useRuleMode cfg fw
                then (case BlockIPList fw ips (ex_fw e') of
                        (err, f) \<Rightarrow> (err, recordSync fw now (e'\<lparr>ex_fw := f\<rparr>)))
                else (case RestoreIPSet fw BanSetName ips (ex_fw e') of
                        (Some err, f) \<Rightarrow> (Some err, e'\<lparr>ex_fw := f\<rparr>)
                      | (None, f) \<Rightarrow> (None, recordSync fw now (e'\<lparr>ex_fw := f\<rparr>)))))"

subsection \<open>Ports\<close>

definition splitList :: "string \<Rightarrow> string list" where
  "splitList s =
     (if TrimSpace s = [] then []
      else filter (\<lambda>v. v \<noteq> []) (map TrimSpace (StrSplit (CHR '','') s)))"

definition parsePorts :: "string \<Rightarrow> int list" where
  "parsePorts s =
     List.map_filter (\<lambda>item. case ParseInt item of
         None \<Rightarrow> None | Some p \<Rightarrow> if p \<le> 0 \<or> 65535 < p then None else Some p) (splitList s)"

definition pickPorts :: "int list \<Rightarrow> int list \<Rightarrow> int \<Rightarrow> int list" where
  "pickPorts manual auto fallback = (if manual \<noteq> [] then manual else if auto \<noteq> [] then auto else [fallback])"

definition matchAny :: "string \<Rightarrow> string list \<Rightarrow> bool" where
  "matchAny s candidates \<longleftrightarrow> list_ex (StrContains s) candidates"

definition sshProcNames :: "string list" where "sshProcNames = [''sshd'', ''sshd-session'']"
definition rdpProcNames :: "string list" where "rdpProcNames = [''termsrv'', ''svchost'']"
definition defaultSSHPort :: int where "defaultSSHPort = 22"
definition defaultRDPPort :: int where "defaultRDPPort = 3389"

text \<open>One connection of the system's table, and how the loop classifies its port.\<close>

record conn_stat =
  cs_Status :: string
  cs_Port :: int
  cs_Pid :: int

datatype port_class = PortNone | PortSSH | PortRDP

definition classify_conn :: "(int \<Rightarrow> string) \<Rightarrow> conn_stat \<Rightarrow> port_class" where
  "classify_conn procName c =
     (if \<not> EqualFold (cs_Status c) ''LISTEN'' then PortNone
      else if cs_Port c = 0 then PortNone
      else if cs_Port c = defaultSSHPort then PortSSH
      else if cs_Port c = defaultRDPPort then PortRDP
      else if cs_Pid c \<le> 0 then PortNone
      else if procName (cs_Pid c) = [] then PortNone
      else (let lower = ToLower (procName (cs_Pid c))
            in if matchAny lower sshProcNames then PortSSH
               else if matchAny lower rdpProcNames then
                 (if StrContains lower ''termsrv'' then PortRDP else PortNone)
               else PortNone))"

definition sortedKeys :: "int list \<Rightarrow> int list" where
  "sortedKeys m = sort (remdups m)"

text \<open>The connection table and the process names are arguments; \<open>None\<close>: the table cannot be read.\<close>

definition detectListenPorts :: "(int \<Rightarrow> string) \<Rightarrow> conn_stat list option \<Rightarrow> int list \<times> int list" where
  "detectListenPorts procName conns =
     (case conns of
        None \<Rightarrow> ([], [])
      | Some cs \<Rightarrow>
          (sortedKeys (map cs_Port (filter (\<lambda>c. classify_conn procName c = PortSSH) cs)),
           sortedKeys (map cs_Port (filter (\<lambda>c. classify_conn procName c = PortRDP) cs))))"

record portSnapshot =
  ps_ssh :: "int list"
  ps_rdp :: "int list"
  ps_builtAt :: int
  ps_auto :: bool

definition InvalidatePorts :: "portSnapshot option \<Rightarrow> portSnapshot option" where
  "InvalidatePorts cur = None"

definition build_ports :: "exec_config \<Rightarrow> (int list \<times> int list) \<Rightarrow> int \<Rightarrow> portSnapshot" where
  "build_ports cfg detected now =
     (let manualSSH = parsePorts (GCONFIG_HOST_GUARD_SSH_PORTS cfg);
          manualRDP = parsePorts (GCONFIG_HOST_GUARD_RDP_PORTS cfg);
          (autoSSH, autoRDP) = (if manualSSH = [] \<or> manualRDP = [] then detected else ([], []))
      in \<lparr>ps_ssh = pickPorts manualSSH autoSSH defaultSSHPort, ps_rdp = pickPorts manualRDP autoRDP defaultRDPPort,
          ps_builtAt = now, ps_auto = (manualSSH = [] \<and> manualRDP = [])\<rparr>)"

definition GuardPorts :: "exec_config \<Rightarrow> (int list \<times> int list) \<Rightarrow> int \<Rightarrow> portSnapshot option \<Rightarrow> (int list \<times> int list) \<times> portSnapshot option" where
  "GuardPorts cfg detected now cur =
     (let snap = (case cur of
                    Some s \<Rightarrow> if now - ps_builtAt s < 5 * minute then s else build_ports cfg detected now
                  | None \<Rightarrow> build_ports cfg detected now)
      in ((ps_ssh snap, ps_rdp snap), Some snap))"

definition rebuildAfterScopeChange :: "'f firewall \<Rightarrow> int \<Rightarrow> 'f BanExecutor \<Rightarrow> 'f BanExecutor" where
  "rebuildAfterScopeChange fw now e =
     (if SupportsIncrementalIPSet fw then e
      else if ex_current e = [] then e
      else snd (FlushPending fw now (e\<lparr>ex_dirty := True\<rparr>)))"

definition ApplyPortScope :: "exec_config \<Rightarrow> 'f firewall \<Rightarrow> (int list \<times> int list) \<Rightarrow> int \<Rightarrow> portSnapshot option \<Rightarrow> 'f BanExecutor \<Rightarrow> portSnapshot option \<times> 'f BanExecutor" where
  "ApplyPortScope cfg fw detected now cur e =
     (if useRuleMode cfg fw then (cur, e)
      else if GCONFIG_HOST_GUARD_PORT_SCOPE cfg \<noteq> ''detected'' then
        (case ApplyIPSetPortScope fw BanSetName [] (ex_fw e) of
           (Some err, f) \<Rightarrow> (cur, e\<lparr>ex_fw := f\<rparr>)
         | (None, f) \<Rightarrow> (cur, rebuildAfterScopeChange fw now (e\<lparr>ex_fw := f\<rparr>)))
      else if \<not> SupportsPortScopedSet fw then (cur, e)
      else
        (case GuardPorts cfg detected now cur of
           ((sshPorts, rdpPorts), cur') \<Rightarrow>
             (case ApplyIPSetPortScope fw BanSetName (sshPorts @ rdpPorts) (ex_fw e) of
                (Some err, f) \<Rightarrow> (cur', e\<lparr>ex_fw := f\<rparr>)
              | (None, f) \<Rightarrow> (cur', rebuildAfterScopeChange fw now (e\<lparr>ex_fw := f\<rparr>)))))"

subsection \<open>The mirror\<close>

lemma mirror_add_set: "set (mirror_add cur ips) = set cur \<union> set ips"
  by (induction cur ips rule: mirror_add.induct) auto

lemma mirror_add_distinct: "distinct cur \<Longrightarrow> distinct (mirror_add cur ips)"
  by (induction cur ips rule: mirror_add.induct) auto

lemma mirror_del_set: "set (mirror_del cur ips) = set cur - set ips"
  by (auto simp: mirror_del_def)

lemmas executor_simps =
  applyByRules_def applyIncremental_def recordSync_def markDirty_def Let_def

lemma ex_Apply_current:
  "ex_current (snd (ex_Apply cfg fw now add del e)) = mirror_del (mirror_add (ex_current e) add) del"
proof (cases "add = [] \<and> del = []")
  case True
  then show ?thesis by (simp add: ex_Apply_def mirror_del_def)
next
  case False
  then show ?thesis by (auto simp: ex_Apply_def executor_simps split: prod.splits)
qed

lemma ex_Apply_set:
  "set (ex_current (snd (ex_Apply cfg fw now add del e))) = (set (ex_current e) \<union> set add) - set del"
  by (simp add: ex_Apply_current mirror_del_set mirror_add_set)

lemma ex_Apply_distinct:
  "distinct (ex_current e) \<Longrightarrow> distinct (ex_current (snd (ex_Apply cfg fw now add del e)))"
  by (simp add: ex_Apply_current mirror_del_def mirror_add_distinct)

lemma FlushPending_current [simp]: "ex_current (snd (FlushPending fw now e)) = ex_current e"
  by (auto simp: FlushPending_def recordSync_def split: prod.splits)

text \<open>What the callers of the executor rely on: a set of addresses with a combined update.\<close>

locale ban_set =
  fixes has :: "'e \<Rightarrow> string \<Rightarrow> bool"
    and upd :: "string list \<Rightarrow> string list \<Rightarrow> 'e \<Rightarrow> 'e"
  assumes has_upd: "has (upd add del e) ip \<longleftrightarrow> (has e ip \<or> ip \<in> set add) \<and> ip \<notin> set del"
begin

lemma has_add: "has (upd [ip] [] e) ip' \<longleftrightarrow> ip' = ip \<or> has e ip'"
  by (auto simp: has_upd)

lemma has_release: "has (upd [] ips e) ip' \<longleftrightarrow> has e ip' \<and> ip' \<notin> set ips"
  by (simp add: has_upd)

lemma release_keeps: "ip' \<notin> set ips \<Longrightarrow> has (upd [] ips e) ip' = has e ip'"
  by (simp add: has_release)

end

interpretation executor: ban_set ex_Contains "\<lambda>add del e. snd (ex_Apply cfg fw now add del e)" for cfg fw now
  by unfold_locales (auto simp: ex_Contains_def ex_Apply_set)

subsection \<open>Two views of one firewall\<close>

text \<open>
  A firewall may be watched through a function \<open>view\<close> on its states. If every operation gives the same
  error and the viewed state that the operation of the other firewall gives, then so does every operation of the executor.
\<close>

definition viewed :: "('f \<Rightarrow> 'g) \<Rightarrow> 'f BanExecutor \<Rightarrow> 'g BanExecutor" where
  "viewed view e = \<lparr>ex_current = ex_current e, ex_dirty = ex_dirty e, ex_syncTimer = ex_syncTimer e,
     ex_lastSyncAt = ex_lastSyncAt e, ex_lastSyncMs = ex_lastSyncMs e, ex_fw = view (ex_fw e)\<rparr>"

lemma viewed_simps [simp]:
  "ex_current (viewed v e) = ex_current e" "ex_dirty (viewed v e) = ex_dirty e" "ex_syncTimer (viewed v e) = ex_syncTimer e"
  "ex_lastSyncAt (viewed v e) = ex_lastSyncAt e" "ex_lastSyncMs (viewed v e) = ex_lastSyncMs e" "ex_fw (viewed v e) = v (ex_fw e)"
  "(viewed v e)\<lparr>ex_current := c\<rparr> = viewed v (e\<lparr>ex_current := c\<rparr>)"
  "(viewed v e)\<lparr>ex_dirty := b\<rparr> = viewed v (e\<lparr>ex_dirty := b\<rparr>)"
  "(viewed v e)\<lparr>ex_syncTimer := t\<rparr> = viewed v (e\<lparr>ex_syncTimer := t\<rparr>)"
  "(viewed v e)\<lparr>ex_lastSyncAt := n\<rparr> = viewed v (e\<lparr>ex_lastSyncAt := n\<rparr>)"
  "(viewed v e)\<lparr>ex_lastSyncMs := n\<rparr> = viewed v (e\<lparr>ex_lastSyncMs := n\<rparr>)"
  "(viewed v e)\<lparr>ex_fw := v f\<rparr> = viewed v (e\<lparr>ex_fw := f\<rparr>)"
  by (simp_all add: viewed_def)

text \<open>The operations on a running executor, with a fixed configuration.\<close>

datatype exec_op =
    OpApply int "string list" "string list"
  | OpTimer int
  | OpFlush int
  | OpScope int "int list \<times> int list" "portSnapshot option"

fun exec_step :: "exec_config \<Rightarrow> 'f firewall \<Rightarrow> exec_op \<Rightarrow> 'f BanExecutor \<Rightarrow> 'f BanExecutor" where
  "exec_step cfg fw (OpApply now add del) e = snd (ex_Apply cfg fw now add del e)"
| "exec_step cfg fw (OpTimer now) e = timer_tick fw now e"
| "exec_step cfg fw (OpFlush now) e = snd (FlushPending fw now e)"
| "exec_step cfg fw (OpScope now detected cur) e = snd (ApplyPortScope cfg fw detected now cur e)"

definition exec_run :: "exec_config \<Rightarrow> 'f firewall \<Rightarrow> exec_op list \<Rightarrow> 'f BanExecutor \<Rightarrow> 'f BanExecutor" where
  "exec_run cfg fw ops e = fold (exec_step cfg fw) ops e"

locale firewall_view =
  fixes fw :: "'f firewall" and fw' :: "'g firewall" and view :: "'f \<Rightarrow> 'g"
  assumes traits: "SupportsIncrementalIPSet fw' = SupportsIncrementalIPSet fw" "SupportsIPSet fw' = SupportsIPSet fw"
      "SupportsPortScopedSet fw' = SupportsPortScopedSet fw" "fw_elapsed fw' = fw_elapsed fw"
    and calls: "BlockIP fw' ip rem (view f) = apsnd view (BlockIP fw ip rem f)"
      "UnblockIP fw' ip (view f) = apsnd view (UnblockIP fw ip f)"
      "BlockIPList fw' ips (view f) = apsnd view (BlockIPList fw ips f)"
      "AddToIPSet fw' n ips (view f) = apsnd view (AddToIPSet fw n ips f)"
      "DelFromIPSet fw' n ips (view f) = apsnd view (DelFromIPSet fw n ips f)"
      "RestoreIPSet fw' n ips (view f) = apsnd view (RestoreIPSet fw n ips f)"
      "ApplyIPSetPortScope fw' n ports (view f) = apsnd view (ApplyIPSetPortScope fw n ports f)"
begin

lemma modes: "useRuleMode cfg fw' = useRuleMode cfg fw" "useIncremental cfg fw' = useIncremental cfg fw"
  by (simp_all add: useRuleMode_def useIncremental_def traits)

lemma each_call_view:
  assumes "list_all2 (\<lambda>c' c. \<forall>f. c' (view f) = apsnd view (c f)) cs' cs"
  shows "each_call cs' err (view f) = apsnd view (each_call cs err f)"
  using assms by (induction cs' cs arbitrary: err f rule: list_all2_induct) (auto simp: apsnd_def map_prod_def split: prod.splits)

lemma recordSync_view: "recordSync fw' now (viewed view e) = viewed view (recordSync fw now e)"
  by (simp add: recordSync_def traits)

lemma applyByRules_view: "applyByRules fw' add del (viewed view e) = apsnd (viewed view) (applyByRules fw add del e)"
proof -
  have "each_call (map (\<lambda>ip. BlockIP fw' ip rule_remark) add @ map (UnblockIP fw') del) None (view (ex_fw e)) =
      apsnd view (each_call (map (\<lambda>ip. BlockIP fw ip rule_remark) add @ map (UnblockIP fw) del) None (ex_fw e))"
    by (rule each_call_view) (auto simp: list_all2_append list_all2_conv_all_nth nth_append calls)
  then show ?thesis by (simp add: applyByRules_def split: prod.splits)
qed

lemma applyIncremental_view:
  "applyIncremental fw' now add del (viewed view e) = apsnd (viewed view) (applyIncremental fw now add del e)"
proof -
  have "each_call ((if add \<noteq> [] then [AddToIPSet fw' BanSetName add] else []) @
        (if del \<noteq> [] then [DelFromIPSet fw' BanSetName del] else [])) None (view (ex_fw e)) =
      apsnd view (each_call ((if add \<noteq> [] then [AddToIPSet fw BanSetName add] else []) @
        (if del \<noteq> [] then [DelFromIPSet fw BanSetName del] else [])) None (ex_fw e))"
    by (rule each_call_view) (simp add: calls)
  then show ?thesis unfolding applyIncremental_def by (simp add: recordSync_view split: prod.splits)
qed

lemma markDirty_view: "markDirty cfg now (viewed view e) = viewed view (markDirty cfg now e)"
  by (simp add: markDirty_def)

lemma FlushPending_view: "FlushPending fw' now (viewed view e) = apsnd (viewed view) (FlushPending fw now e)"
  by (simp add: FlushPending_def calls recordSync_view split: prod.splits)

lemma ex_Apply_view: "ex_Apply cfg fw' now add del (viewed view e) = apsnd (viewed view) (ex_Apply cfg fw now add del e)"
  by (simp add: ex_Apply_def Let_def modes applyByRules_view applyIncremental_view markDirty_view)

lemma timer_tick_view: "timer_tick fw' now (viewed view e) = viewed view (timer_tick fw now e)"
  by (simp add: timer_tick_def FlushPending_view split: option.split)

lemma ApplyPortScope_view:
  "ApplyPortScope cfg fw' detected now cur (viewed view e) = apsnd (viewed view) (ApplyPortScope cfg fw detected now cur e)"
proof -
  have "rebuildAfterScopeChange fw' now (viewed view x) = viewed view (rebuildAfterScopeChange fw now x)" for x
    by (simp add: rebuildAfterScopeChange_def traits FlushPending_view)
  then show ?thesis by (simp add: ApplyPortScope_def modes traits calls split: prod.splits option.splits)
qed

lemma exec_step_view: "exec_step cfg fw' x (viewed view e) = viewed view (exec_step cfg fw x e)"
  by (cases x) (simp_all add: ex_Apply_view timer_tick_view FlushPending_view ApplyPortScope_view)

lemma exec_run_view: "exec_run cfg fw' ops (viewed view e) = viewed view (exec_run cfg fw ops e)"
  unfolding exec_run_def by (induction ops arbitrary: e) (simp_all add: exec_step_view)

lemma ReplayOnStart_view:
  "ReplayOnStart cfg fw' now bans (viewed view e) = apsnd (viewed view) (ReplayOnStart cfg fw now bans e)"
  by (auto simp: ReplayOnStart_def modes calls recordSync_view Let_def apsnd_def map_prod_def
      split: option.split sum.split prod.split)

end

subsection \<open>Keeping the books of a firewall\<close>

text \<open>
  Beside a firewall, whatever it does and whatever errors it reports, the set of addresses its callers have asked it to
  ban: asked for one by one, taken back one by one, or set at once by a rebuild.
\<close>

definition booked :: "'f firewall \<Rightarrow> ('f \<times> string set) firewall" where
  "booked fw = \<lparr>SupportsIncrementalIPSet = SupportsIncrementalIPSet fw, SupportsIPSet = SupportsIPSet fw,
     SupportsPortScopedSet = SupportsPortScopedSet fw,
     BlockIP = \<lambda>ip rem (f, S). apsnd (\<lambda>f'. (f', insert ip S)) (BlockIP fw ip rem f),
     UnblockIP = \<lambda>ip (f, S). apsnd (\<lambda>f'. (f', S - {ip})) (UnblockIP fw ip f),
     BlockIPList = \<lambda>ips (f, S). apsnd (\<lambda>f'. (f', S \<union> set ips)) (BlockIPList fw ips f),
     AddToIPSet = \<lambda>n ips (f, S). apsnd (\<lambda>f'. (f', if n = BanSetName then S \<union> set ips else S)) (AddToIPSet fw n ips f),
     DelFromIPSet = \<lambda>n ips (f, S). apsnd (\<lambda>f'. (f', if n = BanSetName then S - set ips else S)) (DelFromIPSet fw n ips f),
     RestoreIPSet = \<lambda>n ips (f, S). apsnd (\<lambda>f'. (f', if n = BanSetName then set ips else S)) (RestoreIPSet fw n ips f),
     ApplyIPSetPortScope = \<lambda>n ports (f, S). apsnd (\<lambda>f'. (f', S)) (ApplyIPSetPortScope fw n ports f),
     fw_elapsed = fw_elapsed fw\<rparr>"

lemma booked_fw: "firewall_view (booked fw) fw fst"
  by unfold_locales (auto simp: booked_def apsnd_def map_prod_def split: prod.splits)

interpretation books: firewall_view "booked fw" fw fst for fw
  by (rule booked_fw)

text \<open>The addresses asked for.\<close>

definition asked :: "('f \<times> string set) BanExecutor \<Rightarrow> string set" where
  "asked e = snd (ex_fw e)"

lemma each_call_append:
  "each_call (xs @ ys) err f = (case each_call xs err f of (err', f1) \<Rightarrow> each_call ys err' f1)"
  by (induction xs arbitrary: err f) (auto split: prod.splits)

lemma booked_calls:
  "snd (snd (BlockIP (booked fw) ip r f)) = insert ip (snd f)" "snd (snd (UnblockIP (booked fw) ip f)) = snd f - {ip}"
  "snd (snd (BlockIPList (booked fw) ips f)) = snd f \<union> set ips"
  "snd (snd (AddToIPSet (booked fw) BanSetName ips f)) = snd f \<union> set ips"
  "snd (snd (DelFromIPSet (booked fw) BanSetName ips f)) = snd f - set ips"
  "snd (snd (RestoreIPSet (booked fw) BanSetName ips f)) = set ips"
  "snd (snd (ApplyIPSetPortScope (booked fw) n ports f)) = snd f"
  by (simp_all add: booked_def apsnd_def map_prod_def split: prod.splits)

lemma applyByRules_current:
  "ex_current (snd (applyByRules fw add del e)) = ex_current e" "ex_current (snd (applyIncremental fw now add del e)) = ex_current e"
  by (auto simp: executor_simps split: prod.splits)

lemma each_call_Block: "snd (snd (each_call (map (\<lambda>ip. BlockIP (booked fw) ip r) ips) err f)) = snd f \<union> set ips"
  by (induction ips arbitrary: err f) (auto simp: booked_calls case_prod_beta)

lemma each_call_Unblock: "snd (snd (each_call (map (UnblockIP (booked fw)) ips) err f)) = snd f - set ips"
  by (induction ips arbitrary: err f) (auto simp: booked_calls case_prod_beta)

lemma applyByRules_asked: "asked (snd (applyByRules (booked fw) add del e)) = (asked e \<union> set add) - set del"
  using each_call_Block [of fw rule_remark add] each_call_Unblock [of fw del]
  by (simp add: applyByRules_def asked_def each_call_append case_prod_beta)

lemma applyIncremental_asked: "asked (snd (applyIncremental (booked fw) now add del e)) = (asked e \<union> set add) - set del"
  by (auto simp: applyIncremental_def asked_def recordSync_def booked_calls case_prod_beta)

lemma FlushPending_asked: "asked (snd (FlushPending (booked fw) now e)) = (if ex_dirty e then set (ex_current e) else asked e)"
  by (simp add: FlushPending_def asked_def recordSync_def booked_calls case_prod_beta)

lemma exec_flags:
  "ex_dirty (snd (applyByRules fw add del e)) = ex_dirty e" "ex_syncTimer (snd (applyByRules fw add del e)) = ex_syncTimer e"
  "ex_dirty (snd (applyIncremental fw now add del e)) = ex_dirty e"
  "ex_syncTimer (snd (applyIncremental fw now add del e)) = ex_syncTimer e"
  "\<not> ex_dirty (snd (FlushPending fw now e))"
  by (auto simp: executor_simps FlushPending_def split: prod.splits)

text \<open>The invariant: without a pending rebuild the addresses asked for are the mirror, and a pending rebuild has a timer.\<close>

definition synced :: "('f \<times> string set) BanExecutor \<Rightarrow> bool" where
  "synced e \<longleftrightarrow> (if ex_dirty e then ex_syncTimer e \<noteq> None else asked e = set (ex_current e))"

lemma ex_Apply_changed:
  assumes "set (ex_current e) \<noteq> set (mirror_del (mirror_add (ex_current e) add) del)"
  shows "list_ex (\<lambda>ip. ip \<notin> set (ex_current e)) add \<or> list_ex (\<lambda>ip. ip \<in> set (mirror_add (ex_current e) add)) del"
  using assms by (auto simp: mirror_del_set mirror_add_set list_ex_iff)

lemma ex_Apply_cases:
  fixes e add del
  defines "e1 \<equiv> e\<lparr>ex_current := mirror_del (mirror_add (ex_current e) add) del\<rparr>"
  obtains (same) "snd (ex_Apply cfg fw now add del e) = e1" "set (ex_current e1) = set (ex_current e)"
  | (rules) "snd (ex_Apply cfg fw now add del e) = snd (applyByRules fw add del e1)"
  | (incr) "snd (ex_Apply cfg fw now add del e) = snd (applyIncremental fw now add del e1)"
  | (dirty) "snd (ex_Apply cfg fw now add del e) = markDirty cfg now e1"
proof (cases "add = [] \<and> del = []")
  case True
  then show thesis using same by (simp add: ex_Apply_def e1_def mirror_del_def)
next
  case False
  show thesis
  proof (cases "list_ex (\<lambda>ip. ip \<notin> set (ex_current e)) add \<or> list_ex (\<lambda>ip. ip \<in> set (mirror_add (ex_current e) add)) del")
    case True
    with False have "ex_Apply cfg fw now add del e = (if useRuleMode cfg fw then applyByRules fw add del e1
        else if useIncremental cfg fw then applyIncremental fw now add del e1 else (None, markDirty cfg now e1))"
      unfolding ex_Apply_def Let_def e1_def by (simp only: if_False if_True simp_thms)
    then show thesis using rules incr dirty by (cases "useRuleMode cfg fw"; cases "useIncremental cfg fw") simp_all
  next
    case False
    with \<open>\<not> (add = [] \<and> del = [])\<close> have "ex_Apply cfg fw now add del e = (None, e1)"
      unfolding ex_Apply_def Let_def e1_def by (simp only: if_False if_True simp_thms)
    moreover have "set (ex_current e1) = set (ex_current e)" using False ex_Apply_changed [of e add del] by (auto simp: e1_def)
    ultimately show thesis using same by simp
  qed
qed

lemma ex_Apply_synced:
  assumes "synced e"
  shows "synced (snd (ex_Apply cfg (booked fw) now add del e))"
proof (cases rule: ex_Apply_cases [where e = e and add = add and del = del and cfg = cfg and fw = "booked fw" and now = now])
  case rules
  then show ?thesis
    using assms applyByRules_asked [of fw add del "e\<lparr>ex_current := mirror_del (mirror_add (ex_current e) add) del\<rparr>"]
    by (cases "ex_dirty e") (simp_all add: synced_def exec_flags mirror_del_set mirror_add_set applyByRules_current asked_def)
next
  case incr
  then show ?thesis
    using assms applyIncremental_asked [of fw now add del "e\<lparr>ex_current := mirror_del (mirror_add (ex_current e) add) del\<rparr>"]
    by (cases "ex_dirty e") (simp_all add: synced_def exec_flags mirror_del_set mirror_add_set applyByRules_current asked_def)
next
  case same
  then show ?thesis using assms by (cases "ex_dirty e") (simp_all add: synced_def asked_def)
next
  case dirty
  then show ?thesis using assms by (cases "ex_dirty e") (simp_all add: synced_def markDirty_def)
qed

lemma FlushPending_synced: "synced e \<or> ex_dirty e \<Longrightarrow> synced (snd (FlushPending (booked fw) now e))"
  by (auto simp: synced_def exec_flags FlushPending_asked)

lemma timer_tick_synced: "synced e \<Longrightarrow> synced (timer_tick (booked fw) now e)"
  by (simp add: timer_tick_def FlushPending_synced split: option.split)

lemma ApplyPortScope_synced:
  assumes "synced e"
  shows "synced (snd (ApplyPortScope cfg (booked fw) detected now cur e))"
proof -
  have f: "synced (e\<lparr>ex_fw := snd (ApplyIPSetPortScope (booked fw) n ports (ex_fw e))\<rparr>)" for n ports
    using assms by (auto simp: synced_def asked_def booked_calls split: if_splits)
  have r: "synced (rebuildAfterScopeChange (booked fw) now x)" if "synced x" for x
    using that FlushPending_synced [of "x\<lparr>ex_dirty := True\<rparr>" fw now] by (simp add: rebuildAfterScopeChange_def)
  show ?thesis
    using assms f r by (simp add: ApplyPortScope_def case_prod_beta split: option.split)
qed

lemma exec_run_synced: "synced e \<Longrightarrow> synced (exec_run cfg (booked fw) ops e)"
proof (induction ops arbitrary: e)
  case (Cons x ops)
  have "synced (exec_step cfg (booked fw) x e)"
    using Cons.prems by (cases x) (simp_all add: ex_Apply_synced timer_tick_synced FlushPending_synced ApplyPortScope_synced)
  with Cons.IH show ?case by (simp add: exec_run_def)
qed (simp add: exec_run_def)

lemma ReplayOnStart_synced: "synced (snd (ReplayOnStart cfg (booked fw) now bans (GetBanExecutor (f, {}))))"
  by (auto simp: ReplayOnStart_def GetBanExecutor_def synced_def asked_def recordSync_def mirror_add_set booked_calls Let_def
      split: option.split sum.split prod.split dest: arg_cong [of _ _ "\<lambda>x. snd (snd x)"])

text \<open>Updates one after the other, each at its time.\<close>

fun ex_run :: "exec_config \<Rightarrow> 'f firewall \<Rightarrow> (int \<times> string list \<times> string list) list \<Rightarrow> 'f BanExecutor \<Rightarrow> 'f BanExecutor" where
  "ex_run cfg fw [] e = e"
| "ex_run cfg fw ((now, add, del) # steps) e = ex_run cfg fw steps (snd (ex_Apply cfg fw now add del e))"

definition after_updates :: "(int \<times> string list \<times> string list) list \<Rightarrow> string set \<Rightarrow> string set" where
  "after_updates steps S = fold (\<lambda>(now, add, del) S. (S \<union> set add) - set del) steps S"

lemma ex_run_current: "set (ex_current (ex_run cfg fw steps e)) = after_updates steps (set (ex_current e))"
  by (induction cfg fw steps e rule: ex_run.induct) (simp_all add: after_updates_def ex_Apply_set)

lemma ex_run_deadline:
  assumes "\<not> useRuleMode cfg fw" "\<not> useIncremental cfg fw" "ex_dirty e"
  shows "ex_dirty (ex_run cfg fw steps e) \<and> ex_syncTimer (ex_run cfg fw steps e) = ex_syncTimer e \<and>
    ex_fw (ex_run cfg fw steps e) = ex_fw e"
  using assms(3)
proof (induction steps arbitrary: e)
  case (Cons step steps)
  obtain now add del where step: "step = (now, add, del)" by (cases step)
  have "ex_dirty (snd (ex_Apply cfg fw now add del e)) \<and>
      ex_syncTimer (snd (ex_Apply cfg fw now add del e)) = ex_syncTimer e \<and>
      ex_fw (snd (ex_Apply cfg fw now add del e)) = ex_fw e"
    using assms(1,2) Cons.prems by (simp add: ex_Apply_def markDirty_def Let_def)
  with Cons.IH show ?case by (simp add: step)
qed simp

lemma ex_Apply_starts_timer:
  assumes "\<not> useRuleMode cfg fw" "\<not> useIncremental cfg fw" "\<not> ex_dirty e"
    "set (ex_current (snd (ex_Apply cfg fw now add del e))) \<noteq> set (ex_current e)"
  shows "ex_dirty (snd (ex_Apply cfg fw now add del e)) \<and>
    ex_syncTimer (snd (ex_Apply cfg fw now add del e)) = Some (now + debounce cfg) \<and>
    ex_fw (snd (ex_Apply cfg fw now add del e)) = ex_fw e"
proof -
  have "set (ex_current e) \<noteq> set (mirror_del (mirror_add (ex_current e) add) del)" using assms(4) by (simp add: ex_Apply_current)
  from ex_Apply_changed [OF this] assms(1-4) show ?thesis by (auto simp: ex_Apply_def Let_def markDirty_def)
qed

text \<open>A firewall kept as a plain set, incremental or not.\<close>

definition set_firewall :: "bool \<Rightarrow> string set firewall" where
  "set_firewall incr = \<lparr>SupportsIncrementalIPSet = incr, SupportsIPSet = True, SupportsPortScopedSet = True,
     BlockIP = \<lambda>ip rem f. (None, insert ip f), UnblockIP = \<lambda>ip f. (None, f - {ip}),
     BlockIPList = \<lambda>ips f. (None, f \<union> set ips), AddToIPSet = \<lambda>n ips f. (None, f \<union> set ips),
     DelFromIPSet = \<lambda>n ips f. (None, f - set ips), RestoreIPSet = \<lambda>n ips f. (None, set ips),
     ApplyIPSetPortScope = \<lambda>n ps f. (None, f), fw_elapsed = 0\<rparr>"

text \<open>A firewall all of whose calls fail; it counts them.\<close>

definition broken_firewall :: "nat firewall" where
  "broken_firewall = \<lparr>SupportsIncrementalIPSet = False, SupportsIPSet = True, SupportsPortScopedSet = True,
     BlockIP = \<lambda>ip rem f. (Some ''err'', f + 1), UnblockIP = \<lambda>ip f. (Some ''err'', f + 1),
     BlockIPList = \<lambda>ips f. (Some ''err'', f + 1), AddToIPSet = \<lambda>n ips f. (Some ''err'', f + 1),
     DelFromIPSet = \<lambda>n ips f. (Some ''err'', f + 1), RestoreIPSet = \<lambda>n ips f. (Some ''err'', f + 1),
     ApplyIPSetPortScope = \<lambda>n ps f. (Some ''err'', f + 1), fw_elapsed = 0\<rparr>"

definition auto_config :: exec_config where
  "auto_config = \<lparr>GCONFIG_HOST_GUARD_EXEC_MODE = ''auto'', GCONFIG_HOST_GUARD_DEBOUNCE_SEC = 5,
     GCONFIG_HOST_GUARD_PORT_SCOPE = ''all'', GCONFIG_HOST_GUARD_SSH_PORTS = [], GCONFIG_HOST_GUARD_RDP_PORTS = []\<rparr>"

lemma auto_config_modes:
  "\<not> useRuleMode auto_config (set_firewall b)" "useIncremental auto_config (set_firewall b) = b"
  "\<not> useRuleMode auto_config broken_firewall" "\<not> useIncremental auto_config broken_firewall"
  "debounce auto_config = 5 * second"
  by (simp_all add: useRuleMode_def useIncremental_def auto_config_def set_firewall_def broken_firewall_def debounce_def int64_id)

text \<open>
  A rebuild that failed is not tried again: the mark and the timer are cleared before the firewall is called, so the
  mirror and the firewall stay apart until the next change.
\<close>

lemma failed_rebuild_forgotten:
  assumes "e = snd (ex_Apply auto_config broken_firewall 0 [''1.2.3.4''] [] (GetBanExecutor 0))"
    "e' = timer_tick broken_firewall (5 * second) e"
  shows "fst (FlushPending broken_firewall (5 * second) e) = Some ''err'' \<and> ex_current e' = [''1.2.3.4''] \<and>
    \<not> ex_dirty e' \<and> (\<forall>t. timer_tick broken_firewall t e' = e' \<and> FlushPending broken_firewall t e' = (None, e'))"
proof -
  have "e = \<lparr>ex_current = [''1.2.3.4''], ex_dirty = True, ex_syncTimer = Some (5 * second), ex_lastSyncAt = 0, ex_lastSyncMs = 0, ex_fw = 0\<rparr>"
    using auto_config_modes(3-5) unfolding assms(1) by (simp add: ex_Apply_def GetBanExecutor_def markDirty_def mirror_del_def)
  then show ?thesis unfolding assms(2) by (simp add: timer_tick_def FlushPending_def broken_firewall_def recordSync_def)
qed

subsection \<open>Properties\<close>

text \<open>
  C20. The calls made add up to the mirror. From the start on, with the bans of the database replayed or not, under every
  sequence of updates, timers, forced rebuilds and changes of the ports, for every firewall and whether its
  calls fail or not: unless a rebuild is pending, the addresses the firewall has been asked to ban and not to release again are exactly
  those of the mirror, and a pending rebuild always has a timer. Keeping these books changes nothing: the executor is in the state
  it reaches on the firewall itself. What the firewall makes of the calls (it may leave out an address without an error) is its own.
\<close>

theorem calls_follow_mirror:
  assumes "e = exec_run cfg (booked fw) ops (snd (ReplayOnStart cfg (booked fw) now bans (GetBanExecutor (f, {}))))"
  shows "(if ex_dirty e then ex_syncTimer e \<noteq> None else asked e = set (ex_current e)) \<and>
    viewed fst e = exec_run cfg fw ops (snd (ReplayOnStart cfg fw now bans (GetBanExecutor f)))"
proof -
  have "synced e" unfolding assms by (intro exec_run_synced ReplayOnStart_synced)
  moreover have "viewed fst (GetBanExecutor (f, {} :: string set)) = GetBanExecutor f" by (simp add: GetBanExecutor_def viewed_def)
  then have "viewed fst e = exec_run cfg fw ops (snd (ReplayOnStart cfg fw now bans (GetBanExecutor f)))"
    unfolding assms books.exec_run_view [symmetric]
    using books.ReplayOnStart_view [of cfg fw now bans "GetBanExecutor (f, {})"] by simp
  ultimately show ?thesis by (simp add: synced_def)
qed

theorem calls_follow_mirror_witness:
  "asked (exec_run auto_config (booked (set_firewall True)) [OpApply 0 [''1.2.3.4'', ''5.6.7.8''] [], OpApply 1 [] [''1.2.3.4'']]
     (snd (ReplayOnStart auto_config (booked (set_firewall True)) 0 None (GetBanExecutor ({}, {}))))) = {''5.6.7.8''}"
proof -
  let ?e = "exec_run auto_config (booked (set_firewall True)) [OpApply 0 [''1.2.3.4'', ''5.6.7.8''] [], OpApply 1 [] [''1.2.3.4'']]
     (snd (ReplayOnStart auto_config (booked (set_firewall True)) 0 None (GetBanExecutor ({}, {}))))"
  have m: "\<not> useRuleMode auto_config (booked (set_firewall True))" "useIncremental auto_config (booked (set_firewall True))"
    using auto_config_modes(1,2) [of True] books.modes [of auto_config "set_firewall True"] by simp_all
  have "set (ex_current ?e) = {''5.6.7.8''}"
    by (auto simp: exec_run_def ex_Apply_set ReplayOnStart_def GetBanExecutor_def)
  moreover have "\<not> ex_dirty ?e"
    using m by (simp add: exec_run_def ex_Apply_def Let_def exec_flags ReplayOnStart_def GetBanExecutor_def)
  ultimately show ?thesis using calls_follow_mirror [OF refl, of auto_config "set_firewall True"
      "[OpApply 0 [''1.2.3.4'', ''5.6.7.8''] [], OpApply 1 [] [''1.2.3.4'']]" 0 None "{}"] by simp
qed

text \<open>
  C21. A rebuild cannot be starved. Where updates are merged into rebuilds, a first change of a clean mirror at time \<open>now\<close> is
  followed by a rebuild after the configured delay, however many further bans and releases come in
  between: until then no call is made, the deadline does not move, and at any time from the deadline on the timer makes one call, which
  hands the firewall the whole mirror with all of these changes, and leaves nothing pending. This says which call is made;
  whether the firewall can carry it out is its own.
\<close>

theorem debounce_not_starved:
  assumes "\<not> useRuleMode cfg fw" "\<not> useIncremental cfg fw" "\<not> ex_dirty e"
    "set (ex_current (snd (ex_Apply cfg fw now add del e))) \<noteq> set (ex_current e)"
    "e' = ex_run cfg fw steps (snd (ex_Apply cfg fw now add del e))"
  shows "ex_fw e' = ex_fw e \<and> ex_syncTimer e' = Some (now + debounce cfg) \<and>
    set (ex_current e') = after_updates ((now, add, del) # steps) (set (ex_current e)) \<and>
    (\<forall>t. if t < now + debounce cfg then timer_tick fw t e' = e'
         else ex_fw (timer_tick fw t e') = snd (RestoreIPSet fw BanSetName (ex_current e') (ex_fw e)) \<and>
           ex_current (timer_tick fw t e') = ex_current e' \<and> \<not> ex_dirty (timer_tick fw t e') \<and>
           ex_syncTimer (timer_tick fw t e') = None)"
proof -
  note start = ex_Apply_starts_timer [OF assms(1-4)]
  note run = ex_run_deadline [OF assms(1,2) conjunct1 [OF start], of steps, folded assms(5)]
  have "set (ex_current e') = after_updates ((now, add, del) # steps) (set (ex_current e))"
    unfolding assms(5) ex_run_current by (simp add: after_updates_def ex_Apply_set)
  moreover have "ex_fw e' = ex_fw e" "ex_syncTimer e' = Some (now + debounce cfg)" "ex_dirty e'" using run start by simp_all
  ultimately show ?thesis
    by (auto simp: timer_tick_def FlushPending_def recordSync_def case_prod_beta)
qed

theorem debounce_not_starved_witness:
  "ex_fw (timer_tick (set_firewall False) (6 * second)
     (ex_run auto_config (set_firewall False) [(4 * second, [''5.6.7.8''], [])]
        (snd (ex_Apply auto_config (set_firewall False) (1 * second) [''1.2.3.4''] [] (GetBanExecutor {}))))) =
   {''1.2.3.4'', ''5.6.7.8''}"
proof -
  let ?e = "ex_run auto_config (set_firewall False) [(4 * second, [''5.6.7.8''], [])]
        (snd (ex_Apply auto_config (set_firewall False) (1 * second) [''1.2.3.4''] [] (GetBanExecutor {})))"
  have n: "\<not> ex_dirty (GetBanExecutor ({} :: string set))"
    "set (ex_current (snd (ex_Apply auto_config (set_firewall False) (1 * second) [''1.2.3.4''] [] (GetBanExecutor {})))) \<noteq>
      set (ex_current (GetBanExecutor ({} :: string set)))"
    by (simp_all add: ex_Apply_set GetBanExecutor_def)
  have d: "\<not> 6 * second < 1 * second + debounce auto_config" by (simp add: auto_config_modes)
  have m: "\<not> useRuleMode auto_config (set_firewall False)" "\<not> useIncremental auto_config (set_firewall False)"
    by (simp_all add: auto_config_modes)
  note r = debounce_not_starved [OF m n refl, of "[(4 * second, [''5.6.7.8''], [])]"]
  from r have "\<forall>t. if t < 1 * second + debounce auto_config then timer_tick (set_firewall False) t ?e = ?e
      else ex_fw (timer_tick (set_firewall False) t ?e) = snd (RestoreIPSet (set_firewall False) BanSetName (ex_current ?e) (ex_fw (GetBanExecutor {}))) \<and>
           ex_current (timer_tick (set_firewall False) t ?e) = ex_current ?e \<and> \<not> ex_dirty (timer_tick (set_firewall False) t ?e) \<and>
           ex_syncTimer (timer_tick (set_firewall False) t ?e) = None" by blast
  from spec [OF this, of "6 * second"] d
  have "ex_fw (timer_tick (set_firewall False) (6 * second) ?e) = set (ex_current ?e)"
    by (simp add: set_firewall_def)
  also have "\<dots> = {''1.2.3.4'', ''5.6.7.8''}"
    unfolding ex_run_current ex_Apply_set by (simp add: after_updates_def GetBanExecutor_def insert_commute)
  finally show ?thesis .
qed

end
