(* ===== verification/Host_Whitelist.thy ===== *)
theory Host_Whitelist
  imports Match_Set Ip_Ban Ban_Executor
begin

text \<open>
  Package wafhostguard, files whitelist.go and localaddr.go: the six layers that exempt an address from
  being banned, with their caches. The addresses of the machine's interfaces (package net) are an
  argument. Reasons are constructors in place of the texts shown to the user.
\<close>

datatype white_reason =
  WhiteReasonInvalid | WhiteReasonLoopback | WhiteReasonLocal | WhiteReasonLAN
| WhiteReasonConfig | WhiteReasonManage | WhiteReasonAdminIP

record white_config =
  GCONFIG_HOST_GUARD_WHITELIST :: string
  GCONFIG_HOST_GUARD_AUTO_LAN :: int
  GWAF_IP_WHITELIST :: string

definition lanCIDRs :: "string list" where
  "lanCIDRs = [''10.0.0.0/8'', ''172.16.0.0/12'', ''192.168.0.0/16'', ''169.254.0.0/16'',
     ''100.64.0.0/10'', ''fc00::/7'', ''fe80::/10'']"

definition loopbackCIDRs :: "string list" where
  "loopbackCIDRs = [''127.0.0.0/8'', ''::1/128'']"

record whitelistSnapshot =
  wls_loopback :: MatchSet
  wls_local :: MatchSet
  wls_lan :: MatchSet
  wls_config :: MatchSet
  wls_manage :: MatchSet
  wls_builtAt :: int

text \<open>The state: the snapshot, the cached interface addresses and when they were read.\<close>

record white_state =
  whitelistCur :: "whitelistSnapshot option"
  localAddrCache :: "string list option"
  localAddrLoadAt :: int

definition whitelistTTL :: int where "whitelistTTL = 5 * minute"
definition localAddrCacheGC :: int where "localAddrCacheGC = 5 * minute"

subsection \<open>Local addresses\<close>

definition LocalAddrs :: "string list \<Rightarrow> int \<Rightarrow> white_state \<Rightarrow> string list \<times> white_state" where
  "LocalAddrs ifaces now w =
     (case localAddrCache w of
        Some addrs \<Rightarrow>
          if now - localAddrLoadAt w < localAddrCacheGC then (addrs, w)
          else (ifaces, w\<lparr>localAddrCache := Some ifaces, localAddrLoadAt := now\<rparr>)
      | None \<Rightarrow> (ifaces, w\<lparr>localAddrCache := Some ifaces, localAddrLoadAt := now\<rparr>))"

definition InvalidateLocalAddrs :: "white_state \<Rightarrow> white_state" where
  "InvalidateLocalAddrs w = w\<lparr>localAddrCache := None\<rparr>"

subsection \<open>The snapshot\<close>

definition dropCatchAll :: "string list \<Rightarrow> string list" where
  "dropCatchAll items =
     filter (\<lambda>item. case ParseCIDR item of
               Some ipNet \<Rightarrow> fst (Mask_Size (net_Mask ipNet)) \<noteq> 0
             | None \<Rightarrow> True) items"

definition InvalidateWhitelist :: "white_state \<Rightarrow> white_state" where
  "InvalidateWhitelist w = InvalidateLocalAddrs (w\<lparr>whitelistCur := None\<rparr>)"

definition buildWhitelist :: "white_config \<Rightarrow> string list \<Rightarrow> int \<Rightarrow> whitelistSnapshot" where
  "buildWhitelist cfg locals now =
     \<lparr>wls_loopback = BuildMatchSet loopbackCIDRs, wls_local = BuildMatchSet locals,
      wls_lan = BuildMatchSet lanCIDRs,
      wls_config = BuildMatchSet (splitList (GCONFIG_HOST_GUARD_WHITELIST cfg)),
      wls_manage = BuildMatchSet (dropCatchAll (splitList (GWAF_IP_WHITELIST cfg))),
      wls_builtAt = now\<rparr>"

definition getWhitelist :: "white_config \<Rightarrow> string list \<Rightarrow> int \<Rightarrow> white_state \<Rightarrow> whitelistSnapshot \<times> white_state" where
  "getWhitelist cfg ifaces now w =
     (let rebuild = (case LocalAddrs ifaces now w of
                       (locals, w') \<Rightarrow> (let snap = buildWhitelist cfg locals now
                                        in (snap, w'\<lparr>whitelistCur := Some snap\<rparr>)))
      in case whitelistCur w of
           Some snap \<Rightarrow> if now - wls_builtAt snap < whitelistTTL then (snap, w) else rebuild
         | None \<Rightarrow> rebuild)"

subsection \<open>Administrators\<close>

definition CACHE_HOST_GUARD_ADMIN_PRE :: string where
  "CACHE_HOST_GUARD_ADMIN_PRE = ''CACHE_HOST_GUARD_ADMIN_''"

definition adminIPTTL :: int where "adminIPTTL = 30 * minute"

text \<open>A nil cache is \<open>None\<close>.\<close>

definition TouchAdminIP :: "int \<Rightarrow> waf_cache option \<Rightarrow> string \<Rightarrow> waf_cache option" where
  "TouchAdminIP now cache ip =
     (let ip' = TrimSpace ip
      in case cache of
           None \<Rightarrow> None
         | Some c \<Rightarrow>
             if ip' = [] then cache
             else if ParseIP ip' = None then cache
             else Some (SetWithTTlRenewTime now c (CACHE_HOST_GUARD_ADMIN_PRE @ ip') (CInt 1) adminIPTTL))"

definition isActiveAdminIP :: "int \<Rightarrow> waf_cache option \<Rightarrow> string \<Rightarrow> bool \<times> waf_cache option" where
  "isActiveAdminIP now cache ip =
     (case cache of
        None \<Rightarrow> (False, None)
      | Some c \<Rightarrow> (case IsKeyExist now c (CACHE_HOST_GUARD_ADMIN_PRE @ ip) of (b, c') \<Rightarrow> (b, Some c')))"

text \<open>The set of addresses the loop over the listed keys collects; their order is the map's.\<close>

definition ActiveAdminIPs :: "int \<Rightarrow> waf_cache option \<Rightarrow> string set \<times> waf_cache option" where
  "ActiveAdminIPs now cache =
     (case cache of
        None \<Rightarrow> ({}, None)
      | Some c \<Rightarrow>
          (case ListAvailableKeysWithPrefix now c CACHE_HOST_GUARD_ADMIN_PRE of
             (keys, c') \<Rightarrow>
               ({ip \<in> (\<lambda>k. TrimPrefix k CACHE_HOST_GUARD_ADMIN_PRE) ` dom keys. ip \<noteq> [] \<and> ParseIP ip \<noteq> None}, Some c')))"

subsection \<open>The six layers\<close>

definition IsWhitelisted ::
  "white_config \<Rightarrow> string list \<Rightarrow> int \<Rightarrow> white_state \<Rightarrow> waf_cache option \<Rightarrow> string
     \<Rightarrow> white_reason option \<times> white_state \<times> waf_cache option" where
  "IsWhitelisted cfg ifaces now w cache ip =
     (case ParseIP ip of
        None \<Rightarrow> (Some WhiteReasonInvalid, w, cache)
      | Some parsed \<Rightarrow>
          (case getWhitelist cfg ifaces now w of
             (snap, w') \<Rightarrow>
               if ms_Contains (Some (wls_loopback snap)) (Some parsed) then (Some WhiteReasonLoopback, w', cache)
               else if ms_Contains (Some (wls_local snap)) (Some parsed) then (Some WhiteReasonLocal, w', cache)
               else if GCONFIG_HOST_GUARD_AUTO_LAN cfg = 1 \<and> ms_Contains (Some (wls_lan snap)) (Some parsed)
                 then (Some WhiteReasonLAN, w', cache)
               else if ms_Contains (Some (wls_config snap)) (Some parsed) then (Some WhiteReasonConfig, w', cache)
               else if ms_Contains (Some (wls_manage snap)) (Some parsed) then (Some WhiteReasonManage, w', cache)
               else (case isActiveAdminIP now cache ip of
                       (b, cache') \<Rightarrow> (if b then Some WhiteReasonAdminIP else None, w', cache'))))"

record AutoExcludeItem =
  ae_Entry :: string
  ae_Reason :: white_reason
  ae_Volatile :: bool

definition exclude_items :: "string list \<Rightarrow> white_reason \<Rightarrow> bool \<Rightarrow> AutoExcludeItem list" where
  "exclude_items items reason volatile =
     map (\<lambda>it. \<lparr>ae_Entry = it, ae_Reason = reason, ae_Volatile = volatile\<rparr>)
       (filter (\<lambda>it. it \<noteq> []) (map TrimSpace items))"

text \<open>\<open>admins\<close> is the list \<open>ActiveAdminIPs\<close> returns, in the iteration order of the map.\<close>

definition AutoExcludeSources ::
  "white_config \<Rightarrow> string list \<Rightarrow> int \<Rightarrow> white_state \<Rightarrow> string list \<Rightarrow> AutoExcludeItem list \<times> white_state" where
  "AutoExcludeSources cfg ifaces now w admins =
     (case LocalAddrs ifaces now w of
        (locals, w') \<Rightarrow>
          (exclude_items loopbackCIDRs WhiteReasonLoopback False @
           exclude_items locals WhiteReasonLocal False @
           (if GCONFIG_HOST_GUARD_AUTO_LAN cfg = 1 then exclude_items lanCIDRs WhiteReasonLAN False else []) @
           exclude_items (splitList (GCONFIG_HOST_GUARD_WHITELIST cfg)) WhiteReasonConfig False @
           exclude_items (dropCatchAll (splitList (GWAF_IP_WHITELIST cfg))) WhiteReasonManage False @
           exclude_items admins WhiteReasonAdminIP True, w'))"

subsection \<open>Lemmas\<close>

lemma list_matches_nil: "\<not> list_matches [[]] ip"
  by (simp add: list_matches_def ParsePatternLenient_def ParsePattern_def TrimSpace_def trim_by_stop)

lemma list_matches_append: "list_matches (xs @ ys) ip \<longleftrightarrow> list_matches xs ip \<or> list_matches ys ip"
  by (auto simp: list_matches_def)

text \<open>Trimming the entries and dropping the blank ones does not change what a list matches.\<close>

lemma list_matches_trim: "list_matches (filter (\<lambda>it. it \<noteq> []) (map TrimSpace items)) ip = list_matches items ip"
proof -
  have "(\<exists>p. ParsePatternLenient raw = Inr p \<and> Match p ip) \<Longrightarrow> TrimSpace raw \<noteq> []" for raw
    by (auto simp: ParsePatternLenient_def ParsePattern_def)
  then show ?thesis by (auto simp: list_matches_def ParsePatternLenient_trim)
qed

lemma exclude_entries: "list_matches (map ae_Entry (exclude_items items r v)) ip = list_matches items ip"
  by (simp add: exclude_items_def comp_def list_matches_trim)

lemma exclude_volatile: "item \<in> set (exclude_items items r v) \<Longrightarrow> ae_Volatile item = v"
  by (auto simp: exclude_items_def)

lemma filter_exclude: "filter (\<lambda>item. \<not> ae_Volatile item) (exclude_items items r v) = (if v then [] else exclude_items items r v)"
  by (auto simp: filter_empty_conv filter_id_conv dest: exclude_volatile)

lemma build_contains: "ms_Contains (Some (BuildMatchSet items)) ip = list_matches items ip"
  by (rule match_set.has_build)

definition exempt_lists :: "white_config \<Rightarrow> string list \<Rightarrow> string list" where
  "exempt_lists cfg ifaces =
     loopbackCIDRs @ ifaces @ (if GCONFIG_HOST_GUARD_AUTO_LAN cfg = 1 then lanCIDRs else []) @
     splitList (GCONFIG_HOST_GUARD_WHITELIST cfg) @ dropCatchAll (splitList (GWAF_IP_WHITELIST cfg))"

text \<open>
  What a lookup answers by: the lists the snapshot was built from, or, when there is none or it is too old, the current ones;
  the switch for the private networks is always the current one.
\<close>

definition effective ::
  "(white_config \<times> string list \<times> int) option \<Rightarrow> white_config \<Rightarrow> string list \<Rightarrow> int \<Rightarrow> white_state \<Rightarrow> white_config \<times> string list" where
  "effective snap cfg ifaces now w =
     (case snap of
        Some (cfg0, locals0, t0) \<Rightarrow>
          if now - t0 < whitelistTTL
          then (cfg0\<lparr>GCONFIG_HOST_GUARD_AUTO_LAN := GCONFIG_HOST_GUARD_AUTO_LAN cfg\<rparr>, locals0)
          else (cfg, fst (LocalAddrs ifaces now w))
      | None \<Rightarrow> (cfg, fst (LocalAddrs ifaces now w)))"

text \<open>Snapshots are built in one place, so the one present is that of some configuration, addresses and time.\<close>

definition snapshot_from :: "(white_config \<times> string list \<times> int) option \<Rightarrow> white_state \<Rightarrow> bool" where
  "snapshot_from snap w \<longleftrightarrow> whitelistCur w = map_option (\<lambda>(cfg0, locals0, t0). buildWhitelist cfg0 locals0 t0) snap"

lemma snapshot_from_kept:
  assumes "snapshot_from snap w"
  shows "snapshot_from None (InvalidateWhitelist w)" "\<exists>snap'. snapshot_from snap' (snd (getWhitelist cfg ifaces now w))"
    "snapshot_from snap (snd (LocalAddrs ifaces now w))"
proof -
  have "\<exists>snap'. snapshot_from snap' (w'\<lparr>whitelistCur := Some (buildWhitelist cfg locals now)\<rparr>)" for w' :: white_state and locals
    by (rule exI [of _ "Some (cfg, locals, now)"]) (simp add: snapshot_from_def)
  with assms show "\<exists>snap'. snapshot_from snap' (snd (getWhitelist cfg ifaces now w))"
    by (auto simp: getWhitelist_def Let_def split: option.split prod.split)
qed (use assms in \<open>simp_all add: snapshot_from_def InvalidateWhitelist_def InvalidateLocalAddrs_def LocalAddrs_def split: option.split\<close>)

lemma getWhitelist_effective:
  assumes "snapshot_from snap w" "effective snap cfg ifaces now w = (cfg', locals)"
  shows "\<exists>cfg0 t. fst (getWhitelist cfg ifaces now w) = buildWhitelist cfg0 locals t \<and>
    cfg' = cfg0\<lparr>GCONFIG_HOST_GUARD_AUTO_LAN := GCONFIG_HOST_GUARD_AUTO_LAN cfg\<rparr>"
proof (cases "\<exists>cfg0 locals0 t0. snap = Some (cfg0, locals0, t0) \<and> now - t0 < whitelistTTL")
  case True
  then obtain cfg0 locals0 t0 where s: "snap = Some (cfg0, locals0, t0)" and t: "now - t0 < whitelistTTL" by blast
  have "whitelistCur w = Some (buildWhitelist cfg0 locals0 t0)" using assms(1) s by (simp add: snapshot_from_def)
  moreover have "wls_builtAt (buildWhitelist cfg0 locals0 t0) = t0" by (simp add: buildWhitelist_def)
  ultimately have "fst (getWhitelist cfg ifaces now w) = buildWhitelist cfg0 locals0 t0" using t by (simp add: getWhitelist_def)
  with assms(2) s t show ?thesis by (auto simp: effective_def)
next
  case False
  then have "fst (getWhitelist cfg ifaces now w) = buildWhitelist cfg (fst (LocalAddrs ifaces now w)) now"
    using assms(1) by (cases snap) (auto simp: getWhitelist_def snapshot_from_def buildWhitelist_def Let_def case_prod_beta)
  moreover have "cfg' = cfg" "locals = fst (LocalAddrs ifaces now w)"
    using False assms(2) by (auto simp: effective_def split: option.splits if_splits)
  ultimately show ?thesis by auto
qed

lemma IsWhitelisted_snapshot:
  assumes "ParseIP ip = Some parsed" "snapshot_from snap w" "effective snap cfg ifaces now w = (cfg', locals)"
  shows "fst (IsWhitelisted cfg ifaces now w (Some c) ip) \<in> {None, Some WhiteReasonAdminIP} \<longleftrightarrow>
      \<not> list_matches (exempt_lists cfg' locals) (Some parsed)"
    "fst (IsWhitelisted cfg ifaces now w (Some c) ip) = None \<longleftrightarrow>
      \<not> list_matches (exempt_lists cfg' locals) (Some parsed) \<and> visible now c (CACHE_HOST_GUARD_ADMIN_PRE @ ip) = None"
proof -
  obtain cfg0 t where "fst (getWhitelist cfg ifaces now w) = buildWhitelist cfg0 locals t"
    and cfg: "cfg' = cfg0\<lparr>GCONFIG_HOST_GUARD_AUTO_LAN := GCONFIG_HOST_GUARD_AUTO_LAN cfg\<rparr>"
    using getWhitelist_effective [OF assms(2,3)] by blast
  then obtain w' where "getWhitelist cfg ifaces now w = (buildWhitelist cfg0 locals t, w')" by (metis prod.collapse)
  note facts = assms(1) this
  have none: "\<not> list_matches [] x" for x by (simp add: list_matches_def)
  obtain c' where admin: "IsKeyExist now c (CACHE_HOST_GUARD_ADMIN_PRE @ ip) =
      (visible now c (CACHE_HOST_GUARD_ADMIN_PRE @ ip) \<noteq> None, c')"
    using IsKeyExist_visible [of now c "CACHE_HOST_GUARD_ADMIN_PRE @ ip"]
    by (cases "IsKeyExist now c (CACHE_HOST_GUARD_ADMIN_PRE @ ip)") simp
  show "fst (IsWhitelisted cfg ifaces now w (Some c) ip) \<in> {None, Some WhiteReasonAdminIP} \<longleftrightarrow>
      \<not> list_matches (exempt_lists cfg' locals) (Some parsed)"
    using facts by (simp add: IsWhitelisted_def buildWhitelist_def build_contains exempt_lists_def cfg
        list_matches_append none isActiveAdminIP_def split: prod.splits)
  show "fst (IsWhitelisted cfg ifaces now w (Some c) ip) = None \<longleftrightarrow>
      \<not> list_matches (exempt_lists cfg' locals) (Some parsed) \<and> visible now c (CACHE_HOST_GUARD_ADMIN_PRE @ ip) = None"
    using facts admin
    by (simp add: IsWhitelisted_def buildWhitelist_def build_contains exempt_lists_def cfg
        list_matches_append none isActiveAdminIP_def)
qed

lemma effective_invalidated: "effective None cfg ifaces now (InvalidateWhitelist w) = (cfg, ifaces)"
  by (simp add: effective_def LocalAddrs_def InvalidateWhitelist_def InvalidateLocalAddrs_def)

lemma snapshot_invalidated: "snapshot_from None (InvalidateWhitelist w)"
  by (simp add: snapshot_from_def InvalidateWhitelist_def InvalidateLocalAddrs_def)

lemmas IsWhitelisted_invalidated = IsWhitelisted_snapshot [OF _ snapshot_invalidated effective_invalidated]

text \<open>
  The management list is changed without dropping the snapshot: an address taken off it stays exempt, and one put on it
  can be banned, until the snapshot is five minutes old.
\<close>

lemma management_list_stale:
  assumes "ParseIP ip = Some parsed" "whitelistCur w = Some (buildWhitelist cfg0 locals t0)" "now - t0 < 5 * minute"
    "cfg = cfg0\<lparr>GWAF_IP_WHITELIST := new\<rparr>"
  shows "fst (IsWhitelisted cfg ifaces now w (Some c) ip) = None \<longleftrightarrow>
    \<not> list_matches (exempt_lists cfg0 locals) (Some parsed) \<and> visible now c (CACHE_HOST_GUARD_ADMIN_PRE @ ip) = None"
proof -
  have "snapshot_from (Some (cfg0, locals, t0)) w" using assms(2) by (simp add: snapshot_from_def)
  moreover have "effective (Some (cfg0, locals, t0)) cfg ifaces now w = (cfg0, locals)"
    using assms(3,4) by (simp add: effective_def whitelistTTL_def)
  ultimately show ?thesis using IsWhitelisted_snapshot(2) [OF assms(1)] by blast
qed

subsection \<open>Properties\<close>

text \<open>
  C19. Who is exempt. Whatever snapshot is present, an address is exempt exactly when it is no address at all, or an entry of the
  effective lists matches it (the loopback list, the interfaces, the private networks if they are enabled now, the configured
  list, the management list without its catch-all entries), or it used the management interface within the time to live of that
  mark. The effective lists are those the snapshot was built from while it is younger than five minutes, and the
  current ones otherwise (of the interfaces, the ones read last); right after the snapshot was dropped they are the current ones.
\<close>

theorem IsWhitelisted_exact:
  assumes "snapshot_from snap w" "effective snap cfg ifaces now w = (cfg', locals)"
  shows "(fst (IsWhitelisted cfg ifaces now w (Some c) ip) = None \<longleftrightarrow>
      ParseIP ip \<noteq> None \<and> \<not> list_matches (exempt_lists cfg' locals) (ParseIP ip) \<and>
      visible now c (CACHE_HOST_GUARD_ADMIN_PRE @ ip) = None) \<and>
    (fst (IsWhitelisted cfg ifaces now (InvalidateWhitelist w) (Some c) ip) = None \<longleftrightarrow>
      ParseIP ip \<noteq> None \<and> \<not> list_matches (exempt_lists cfg ifaces) (ParseIP ip) \<and>
      visible now c (CACHE_HOST_GUARD_ADMIN_PRE @ ip) = None)"
proof (cases "ParseIP ip")
  case None
  then show ?thesis by (simp add: IsWhitelisted_def)
next
  case (Some parsed)
  from IsWhitelisted_snapshot(2) [OF this assms, of c] IsWhitelisted_invalidated(2) [OF this, of cfg ifaces now w c] Some
  show ?thesis by (simp only: option.simps) simp
qed

text \<open>
  The two features that decide who is one of us agree: the lasting entries enumerated for the threat
  feed exclusion, compiled into a set, contain an address exactly when the ban whitelist
  exempts it for a reason other than an active administrator session.
\<close>

theorem AutoExclude_agrees:
  assumes "ParseIP ip = Some parsed"
  shows "ms_Contains (Some (BuildMatchSet (map ae_Entry (filter (\<lambda>item. \<not> ae_Volatile item)
      (fst (AutoExcludeSources cfg ifaces now (InvalidateWhitelist w) admins)))))) (Some parsed) \<longleftrightarrow>
    fst (IsWhitelisted cfg ifaces now (InvalidateWhitelist w) (Some c) ip) \<notin> {None, Some WhiteReasonAdminIP}"
proof -
  have "fst (AutoExcludeSources cfg ifaces now (InvalidateWhitelist w) admins) =
      exclude_items loopbackCIDRs WhiteReasonLoopback False @ exclude_items ifaces WhiteReasonLocal False @
      (if GCONFIG_HOST_GUARD_AUTO_LAN cfg = 1 then exclude_items lanCIDRs WhiteReasonLAN False else []) @
      exclude_items (splitList (GCONFIG_HOST_GUARD_WHITELIST cfg)) WhiteReasonConfig False @
      exclude_items (dropCatchAll (splitList (GWAF_IP_WHITELIST cfg))) WhiteReasonManage False @
      exclude_items admins WhiteReasonAdminIP True"
    by (simp add: AutoExcludeSources_def InvalidateWhitelist_def InvalidateLocalAddrs_def LocalAddrs_def)
  then have "list_matches (map ae_Entry (filter (\<lambda>item. \<not> ae_Volatile item)
      (fst (AutoExcludeSources cfg ifaces now (InvalidateWhitelist w) admins)))) (Some parsed) \<longleftrightarrow>
    list_matches (exempt_lists cfg ifaces) (Some parsed)"
    by (simp add: filter_exclude exclude_entries list_matches_append exempt_lists_def)
  with IsWhitelisted_invalidated(1) [OF assms, of cfg ifaces now w c]
  show ?thesis unfolding build_contains by blast
qed

definition lan_off :: white_config where
  "lan_off = \<lparr>GCONFIG_HOST_GUARD_WHITELIST = [], GCONFIG_HOST_GUARD_AUTO_LAN = 0, GWAF_IP_WHITELIST = []\<rparr>"

text \<open>A snapshot of an earlier configuration, one minute old.\<close>

theorem IsWhitelisted_exact_witness:
  "fst (IsWhitelisted lan_off [] minute \<lparr>whitelistCur = Some (buildWhitelist lan_off [''1.2.3.4''] 0), localAddrCache = None, localAddrLoadAt = 0\<rparr>
      (Some InitWafCache) ''1.2.3.4'') \<noteq> None"
proof -
  let ?w = "\<lparr>whitelistCur = Some (buildWhitelist lan_off [''1.2.3.4''] 0), localAddrCache = None, localAddrLoadAt = 0\<rparr>"
  have "snapshot_from (Some (lan_off, [''1.2.3.4''], 0)) ?w" by (simp add: snapshot_from_def)
  moreover have "effective (Some (lan_off, [''1.2.3.4''], 0)) lan_off [] minute ?w = (lan_off, [''1.2.3.4''])"
    by (simp add: effective_def whitelistTTL_def lan_off_def)
  moreover have "case ParsePatternLenient ''1.2.3.4'' of Inr p \<Rightarrow> Match p (ParseIP ''1.2.3.4'') | Inl e \<Rightarrow> False" by code_simp
  then have "list_matches (exempt_lists lan_off [''1.2.3.4'']) (ParseIP ''1.2.3.4'')"
    by (auto simp: exempt_lists_def list_matches_append list_matches_def split: sum.splits)
  ultimately show ?thesis using IsWhitelisted_exact [of "Some (lan_off, [''1.2.3.4''], 0)" ?w lan_off "[]" minute] by blast
qed

theorem AutoExclude_agrees_witness:
  "ms_Contains (Some (BuildMatchSet (map ae_Entry (filter (\<lambda>item. \<not> ae_Volatile item)
      (fst (AutoExcludeSources lan_off [''1.2.3.4''] 0
         (InvalidateWhitelist \<lparr>whitelistCur = None, localAddrCache = None, localAddrLoadAt = 0\<rparr>) [])))))) (ParseIP ''1.2.3.4'') \<longleftrightarrow>
    fst (IsWhitelisted lan_off [''1.2.3.4''] 0
      (InvalidateWhitelist \<lparr>whitelistCur = None, localAddrCache = None, localAddrLoadAt = 0\<rparr>) (Some InitWafCache) ''1.2.3.4'')
      \<notin> {None, Some WhiteReasonAdminIP}"
proof -
  have p: "ParseIP ''1.2.3.4'' = Some (v4InV6Prefix @ [1, 2, 3, 4])"
    by (simp add: ParseIP_def ParseAddr_def parseIPv4_def is_digit_def)
  show ?thesis using AutoExclude_agrees [OF p] by (simp only: p)
qed

end
