(* ===== verification/Host_Guard.thy ===== *)
theory Host_Guard
  imports Host_Whitelist
begin

text \<open>
  Package wafhostguard, files event.go, ladder.go, subnet.go, decide.go, action.go and the handling part
  of engine.go, and the operations of service/waf_service/waf_host_guard_service.go that change state:
  from a failed remote login to a ban, its release and its expiry.

  The state is one record: the cache, the ban executor with the firewall, the three tables of
  the local database (rows in primary key order), the caches of the package, the buffer of
  login events and the queue of notifications. What the code takes from outside is the record
  \<open>hg_env\<close>: the configuration, the clock, fresh identifiers, the location of an address, the minute stamp
  of the local time zone, which handles are nil and which database calls fail. Times are in
  nanoseconds, database times in seconds. Refusals are constructors in place of their texts; the
  texts written to the tables are given byte for byte (UTF-8).
\<close>

subsection \<open>Events\<close>

datatype FailKind =
  FailPassword | FailPublicKey | FailInvalidUser | FailMaxAuthTries | FailNotAllowed
| FailPamAuth | FailPreauthClose | FailScanProbe | FailRdpLogon

definition SourceSSH :: string where "SourceSSH = ''ssh''"
definition SourceRDP :: string where "SourceRDP = ''rdp''"

fun IsHard :: "FailKind \<Rightarrow> bool" where
  "IsHard FailPreauthClose = False"
| "IsHard FailInvalidUser = False"
| "IsHard FailPamAuth = False"
| "IsHard FailScanProbe = False"
| "IsHard _ = True"

definition IsScanProbe :: "FailKind \<Rightarrow> bool" where
  "IsScanProbe k \<longleftrightarrow> k = FailScanProbe"

record LoginFailEvent =
  ev_Source :: string
  ev_IP :: string
  ev_Port :: int
  ev_User :: string
  ev_Kind :: FailKind
  ev_LogonType :: string
  ev_Raw :: string
  ev_At :: "int option"

definition RawLimit :: nat where "RawLimit = 500"

definition TruncRaw :: "string \<Rightarrow> string" where
  "TruncRaw s = (if length s \<le> RawLimit then s else take RawLimit s)"

subsection \<open>Texts\<close>

definition utf8 :: "nat list \<Rightarrow> string" where
  "utf8 bs = map char_of bs"

fun FailKind_string :: "FailKind \<Rightarrow> string" where
  "FailKind_string FailPassword = ''failed_password''"
| "FailKind_string FailPublicKey = ''failed_publickey''"
| "FailKind_string FailInvalidUser = ''invalid_user''"
| "FailKind_string FailMaxAuthTries = ''max_auth_tries''"
| "FailKind_string FailNotAllowed = ''not_allowed''"
| "FailKind_string FailPamAuth = ''pam_auth_failure''"
| "FailKind_string FailPreauthClose = ''preauth_close''"
| "FailKind_string FailScanProbe = ''scan_probe''"
| "FailKind_string FailRdpLogon = ''rdp_logon_failed''"

fun FailKindName :: "FailKind \<Rightarrow> string" where
  "FailKindName FailPassword = utf8 [229, 175, 134, 231, 160, 129, 233, 148, 153, 232, 175, 175]"
| "FailKindName FailPublicKey = utf8 [229, 133, 172, 233, 146, 165, 232, 174, 164, 232, 175, 129, 229, 164, 177, 232, 180, 165]"
| "FailKindName FailInvalidUser = utf8 [231, 148, 168, 230, 136, 183, 229, 144, 141, 228, 184, 141, 229, 173, 152, 229, 156, 168]"
| "FailKindName FailMaxAuthTries = utf8 [229, 141, 149, 232, 191, 158, 230, 142, 165, 229, 134, 133, 229, 176, 157, 232, 175, 149, 230,
     172, 161, 230, 149, 176, 232, 182, 133, 233, 153, 144]"
| "FailKindName FailNotAllowed = utf8 [232, 180, 166, 229, 143, 183, 228, 184, 141, 229, 156, 168, 229, 133, 129, 232, 174, 184, 229,
     136, 151, 232, 161, 168]"
| "FailKindName FailPamAuth = ''PAM'' @ utf8 [232, 174, 164, 232, 175, 129, 229, 164, 177, 232, 180, 165]"
| "FailKindName FailPreauthClose = utf8 [232, 174, 164, 232, 175, 129, 229, 137, 141, 230, 150, 173, 229, 188, 128, 232, 191, 158, 230,
     142, 165]"
| "FailKindName FailScanProbe = FailKind_string FailScanProbe"
| "FailKindName FailRdpLogon = utf8 [232, 191, 156, 231, 168, 139, 230, 161, 140, 233, 157, 162, 231, 153, 187, 229, 189, 149, 229,
     164, 177, 232, 180, 165]"

definition txt_forever :: string where
  "txt_forever = utf8 [230, 176, 184, 228, 185, 133]"
definition txt_minutes :: string where
  "txt_minutes = utf8 [229, 136, 134, 233, 146, 159]"
definition txt_hours :: string where
  "txt_hours = utf8 [229, 176, 143, 230, 151, 182]"
definition txt_days :: string where
  "txt_days = utf8 [229, 164, 169]"
definition txt_brute :: string where
  "txt_brute = utf8 [231, 153, 187, 229, 189, 149, 231, 136, 134, 231, 160, 180, 239, 188, 154]"
definition txt_failed :: string where
  "txt_failed = utf8 [229, 136, 134, 233, 146, 159, 229, 134, 133, 229, 164, 177, 232, 180, 165]"
definition txt_times :: string where
  "txt_times = utf8 [230, 172, 161]"
definition txt_open :: string where
  "txt_open = utf8 [239, 188, 136]"
definition txt_close :: string where
  "txt_close = utf8 [239, 188, 137]"
definition txt_level :: string where
  "txt_level = utf8 [239, 188, 140, 231, 172, 172]"
definition txt_ban :: string where
  "txt_ban = utf8 [231, 186, 167, 229, 176, 129, 231, 166, 129]"
definition txt_remark_fw :: string where
  "txt_remark_fw = utf8 [228, 184, 139, 229, 143, 145, 231, 179, 187, 231, 187, 159, 233, 152, 178, 231, 129, 171, 229,
     162, 153, 229, 164, 177, 232, 180, 165, 239, 188, 154]"
definition txt_remark_evict :: string where
  "txt_remark_evict = utf8 [229, 176, 129, 231, 166, 129, 233, 155, 134, 229, 144, 136, 232, 190, 190, 229, 136, 176, 229,
     174, 185, 233, 135, 143, 228, 184, 138, 233, 153, 144, 239, 188, 140, 230, 140, 137, 229, 137, 169,
     228, 189, 153, 230, 151, 182, 233, 151, 180, 230, 156, 128, 231, 159, 173, 228, 188, 152, 229, 133,
     136, 230, 183, 152, 230, 177, 176]"
definition txt_hint1 :: string where
  "txt_hint1 = utf8 [227, 128, 130, 229, 166, 130, 232, 175, 175, 229, 176, 129, 233, 156, 128, 230, 137, 139, 229,
     183, 165, 232, 167, 163, 233, 153, 164, 239, 188, 154] @ ''Linux '' @ utf8 [230, 137, 167, 232, 161,
     140] @ '' `ipset del ''"
definition txt_hint2 :: string where
  "txt_hint2 = ''`'' @ utf8 [239, 188, 140] @ ''Windows '' @ utf8 [229, 156, 168, 233, 171, 152, 231, 186, 167,
     229, 174, 137, 229, 133, 168, 233, 152, 178, 231, 129, 171, 229, 162, 153, 228, 184, 173, 229, 136,
     160, 233, 153, 164, 229, 175, 185, 229, 186, 148, 232, 167, 132, 229, 136, 153]"
definition txt_account :: string where
  "txt_account = utf8 [239, 188, 140, 230, 156, 128, 232, 191, 145, 229, 176, 157, 232, 175, 149, 232, 180, 166, 229,
     143, 183] @ '' ''"
definition txt_released :: string where
  "txt_released = utf8 [231, 174, 161, 231, 144, 134, 229, 145, 152, 230, 137, 139, 229, 183, 165, 232, 167, 163, 229,
     176, 129]"
definition txt_promoted :: string where
  "txt_promoted = utf8 [231, 174, 161, 231, 144, 134, 229, 145, 152, 230, 137, 139, 229, 183, 165, 230, 143, 144, 229,
     141, 135, 228, 184, 186, 230, 176, 184, 228, 185, 133, 229, 176, 129, 231, 166, 129]"
definition txt_manual :: string where
  "txt_manual = utf8 [231, 174, 161, 231, 144, 134, 229, 145, 152, 230, 137, 139, 229, 183, 165, 229, 176, 129, 231,
     166, 129]"
definition txt_ladder_reset :: string where
  "txt_ladder_reset = utf8 [231, 174, 161, 231, 144, 134, 229, 145, 152, 230, 137, 139, 229, 183, 165, 233, 135, 141, 231,
     189, 174, 233, 152, 182, 230, 162, 175]"

definition describeEvent :: "LoginFailEvent \<Rightarrow> string" where
  "describeEvent ev =
     (let kindName = FailKindName (ev_Kind ev)
      in if ev_User ev = [] then kindName else kindName @ txt_account @ ev_User ev)"

definition humanDuration :: "int \<Rightarrow> string" where
  "humanDuration minutes =
     (if minutes \<le> 0 then txt_forever
      else if minutes < 60 then Itoa minutes @ txt_minutes
      else if minutes < 1440 then Itoa (minutes div 60) @ txt_hours
      else Itoa (minutes div 1440) @ txt_days)"

subsection \<open>Tables\<close>

record HostGuardBan =
  ban_Id :: string
  ban_IP :: string
  ban_Source :: string
  ban_Level :: int
  ban_BanMinutes :: int
  ban_StartTime :: int
  ban_ExpireTime :: int
  ban_Reason :: string
  ban_Status :: string
  ban_ExecMode :: string
  ban_IsSubnet :: int
  ban_HitCount :: int
  ban_Location :: string
  ban_Remarks :: string

definition HostBanStatusActive :: string where "HostBanStatusActive = ''active''"
definition HostBanStatusExpired :: string where "HostBanStatusExpired = ''expired''"
definition HostBanStatusReleased :: string where "HostBanStatusReleased = ''released''"

record HostGuardOffender =
  of_Id :: string
  of_IP :: string
  of_Source :: string
  of_BanCount :: int
  of_CurrentLevel :: int
  of_FirstBanTime :: int
  of_LastBanTime :: int
  of_TotalFailCount :: int
  of_LastReason :: string
  of_Location :: string

record HostGuardBanLadder =
  ld_Level :: int
  ld_BanMinutes :: int
  ld_Enable :: int

definition ladder :: "int \<Rightarrow> int \<Rightarrow> HostGuardBanLadder" where
  "ladder lv m = \<lparr>ld_Level = lv, ld_BanMinutes = m, ld_Enable = 1\<rparr>"

definition DefaultBanLadders :: "HostGuardBanLadder list" where
  "DefaultBanLadders = [ladder 1 5, ladder 2 15, ladder 3 60, ladder 4 1440, ladder 5 0]"

record HostLoginEvent =
  le_Source :: string
  le_IP :: string
  le_Port :: int
  le_UserName :: string
  le_FailKind :: string
  le_LogonType :: string
  le_Location :: string
  le_Action :: string
  le_HitCount :: int
  le_RawLine :: string
  le_EventTime :: int

definition HostEventActionObserve :: string where "HostEventActionObserve = ''observe''"
definition HostEventActionCounted :: string where "HostEventActionCounted = ''counted''"
definition HostEventActionSkipped :: string where "HostEventActionSkipped = ''skipped''"
definition HostEventActionBanned :: string where "HostEventActionBanned = ''banned''"

record IPBanMessageInfo =
  msg_Ip :: string
  msg_Reason :: string
  msg_Duration :: int
  msg_RemainingSeconds :: int
  msg_Time :: int

subsection \<open>Configuration, environment and state\<close>

record hg_config =
  GCONFIG_HOST_GUARD_FORCE_DISABLE :: bool
  GCONFIG_HOST_GUARD_MODE :: string
  GCONFIG_HOST_GUARD_FIND_TIME :: int
  GCONFIG_HOST_GUARD_MAX_RETRY :: int
  GCONFIG_HOST_GUARD_OFFENDER_RESET_DAY :: int
  GCONFIG_HOST_GUARD_COUNT_SOFT_FAIL :: int
  GCONFIG_HOST_GUARD_MAX_BAN_ENTRIES :: int
  GCONFIG_HOST_GUARD_BAN_RATE_LIMIT :: int
  GCONFIG_HOST_GUARD_SUBNET_AGGREGATE :: int
  GCONFIG_HOST_GUARD_SUBNET_THRESHOLD :: int
  GCONFIG_HOST_GUARD_NOTIFY :: int

record 'f hg_env =
  env_cfg :: hg_config
  env_white :: white_config
  env_exec :: exec_config
  env_fw :: "'f firewall"
  env_clock :: int
  env_minute :: "int \<Rightarrow> string"
  env_locate :: "string \<Rightarrow> string"
  env_ifaces :: "string list"
  env_ban_id :: string
  env_offender_id :: string
  env_db_nil :: bool
  env_logdb_nil :: bool
  env_mgr_nil :: bool
  env_sink_nil :: bool
  env_queue_nil :: bool
  env_err_ladders :: bool
  env_err_victims :: bool
  env_err_create :: go_error
  env_err_offender :: bool

record 'f hg_state =
  st_cache :: "waf_cache option"
  st_exec :: "'f BanExecutor"
  st_bans :: "HostGuardBan list"
  st_offenders :: "HostGuardOffender list"
  st_ladders :: "HostGuardBanLadder list"
  st_ladderCache :: "HostGuardBanLadder list option"
  st_ladderLoadAt :: int
  st_white :: white_state
  st_buf :: "HostLoginEvent list"
  st_flushTimer :: "int option"
  st_eventLog :: "HostLoginEvent list"
  st_messages :: "IPBanMessageInfo list"

definition Unix :: "int \<Rightarrow> int" where
  "Unix t = t div second"

subsection \<open>The ladder\<close>

definition ladderCacheTTL :: int where "ladderCacheTTL = minute"

definition InvalidateLadder :: "'f hg_state \<Rightarrow> 'f hg_state" where
  "InvalidateLadder s = s\<lparr>st_ladderCache := None\<rparr>"

definition readLadders :: "'f hg_env \<Rightarrow> 'f hg_state \<Rightarrow> HostGuardBanLadder list" where
  "readLadders env s =
     (let rows = (if env_db_nil env \<or> env_err_ladders env then []
                  else filter (\<lambda>l. ld_Enable l = 1) (st_ladders s));
          rows' = (if rows = [] then DefaultBanLadders else rows)
      in sort_key ld_Level rows')"

definition loadLadders :: "'f hg_env \<Rightarrow> 'f hg_state \<Rightarrow> HostGuardBanLadder list \<times> 'f hg_state" where
  "loadLadders env s =
     (let reload = (readLadders env s,
                    s\<lparr>st_ladderCache := Some (readLadders env s), st_ladderLoadAt := env_clock env\<rparr>)
      in case st_ladderCache s of
           Some l \<Rightarrow> if env_clock env - st_ladderLoadAt s < ladderCacheTTL then (l, s) else reload
         | None \<Rightarrow> reload)"

record LadderDecision =
  dec_Level :: int
  dec_BanMinutes :: int
  dec_BanCount :: int
  dec_Reset :: bool

text \<open>The idle time in days is compared exactly; the code compares its floating point quotient.\<close>

definition ladder_reset :: "hg_config \<Rightarrow> HostGuardOffender \<Rightarrow> int \<Rightarrow> bool" where
  "ladder_reset cfg offender now \<longleftrightarrow>
     0 < GCONFIG_HOST_GUARD_OFFENDER_RESET_DAY cfg \<and> 0 < of_LastBanTime offender \<and>
     GCONFIG_HOST_GUARD_OFFENDER_RESET_DAY cfg * (24 * hour) < now - of_LastBanTime offender * second"

definition DecideLadder :: "'f hg_env \<Rightarrow> HostGuardOffender option \<Rightarrow> int \<Rightarrow> 'f hg_state \<Rightarrow> LadderDecision \<times> 'f hg_state" where
  "DecideLadder env offender now s =
     (case loadLadders env s of
        (ladders, s') \<Rightarrow>
          (let (banCount, reset) =
                 (case offender of
                    None \<Rightarrow> (1, False)
                  | Some o' \<Rightarrow>
                      if 0 < of_BanCount o' then
                        (if ladder_reset (env_cfg env) o' now then (1, True) else (of_BanCount o' + 1, False))
                      else (1, False));
               idx = banCount - 1;
               idx' = (if int (length ladders) \<le> idx then int (length ladders) - 1 else idx);
               idx'' = (if idx' < 0 then 0 else idx');
               chosen = ladders ! nat idx''
           in (\<lparr>dec_Level = ld_Level chosen, dec_BanMinutes = ld_BanMinutes chosen,
                dec_BanCount = banCount, dec_Reset = reset\<rparr>, s')))"

subsection \<open>Subnets\<close>

definition v4_string :: "gobytes \<Rightarrow> string" where
  "v4_string b = concat (map (\<lambda>i. (if i = 0 then [] else ''.'') @ Itoa (uint (b ! i))) [0..<4])"

definition subnetOf :: "string \<Rightarrow> string option" where
  "subnetOf ip =
     (case ParseIP ip of
        None \<Rightarrow> None
      | Some parsed \<Rightarrow>
          (case To4 parsed of
             None \<Rightarrow> None
           | Some v4 \<Rightarrow> (case IP_Mask v4 (CIDRMask 24 32) of
                           None \<Rightarrow> None | Some masked \<Rightarrow> Some (v4_string masked @ ''/24''))))"

definition active_ban :: "HostGuardBan \<Rightarrow> bool" where
  "active_ban b \<longleftrightarrow> ban_Status b = HostBanStatusActive"

text \<open>\<open>None\<close>: no upgrade. The pattern of the \<open>LIKE\<close> holds digits and dots only: it is a prefix test.\<close>

definition ShouldAggregateSubnet :: "'f hg_env \<Rightarrow> string \<Rightarrow> 'f hg_state \<Rightarrow> string option" where
  "ShouldAggregateSubnet env ip s =
     (if GCONFIG_HOST_GUARD_SUBNET_AGGREGATE (env_cfg env) \<noteq> 1 then None
      else case subnetOf ip of
        None \<Rightarrow> None
      | Some cidr \<Rightarrow>
          if env_db_nil env then None
          else
            (let threshold = (if GCONFIG_HOST_GUARD_SUBNET_THRESHOLD (env_cfg env) \<le> 0 then 10
                              else GCONFIG_HOST_GUARD_SUBNET_THRESHOLD (env_cfg env));
                 subnetBanned = length (filter (\<lambda>b. ban_IP b = cidr \<and> active_ban b) (st_bans s));
                 pre = take (length cidr - length ''0/24'') cidr;
                 cnt = length (filter (\<lambda>b. active_ban b \<and> ban_IsSubnet b = 0 \<and> HasPrefix (ban_IP b) pre) (st_bans s))
             in if 0 < subnetBanned then None
                else if threshold \<le> int cnt + 1 then Some cidr else None))"

subsection \<open>Requests and results\<close>

record BanRequest =
  rq_IP :: string
  rq_Source :: string
  rq_HitCount :: int
  rq_FailKinds :: string
  rq_Manual :: bool
  rq_ManualMin :: int
  rq_Reason :: string

datatype skip_reason =
  NotSkipped | SkipForceDisable | SkipWhitelisted white_reason | SkipAlreadyBanned
| SkipRateLimit | SkipCapacity | SkipCreateFailed string | SkipFirewallFailed string

record BanResult =
  res_Banned :: bool
  res_Observed :: bool
  res_Skipped :: skip_reason
  res_Level :: int
  res_BanMinutes :: int
  res_ExpireTime :: int
  res_IsSubnet :: bool
  res_TargetIP :: string

definition new_result :: "string \<Rightarrow> BanResult" where
  "new_result ip = \<lparr>res_Banned = False, res_Observed = False, res_Skipped = NotSkipped, res_Level = 0,
     res_BanMinutes = 0, res_ExpireTime = 0, res_IsSubnet = False, res_TargetIP = ip\<rparr>"

definition buildReason :: "hg_config \<Rightarrow> BanRequest \<Rightarrow> int \<Rightarrow> int \<Rightarrow> string" where
  "buildReason cfg req level banMinutes =
     (if rq_Source req = SourceRDP then ''RDP'' else ''SSH'') @ txt_brute @
     Itoa (GCONFIG_HOST_GUARD_FIND_TIME cfg) @ txt_failed @ Itoa (rq_HitCount req) @ txt_times @
     (if rq_FailKinds req \<noteq> [] then txt_open @ rq_FailKinds req @ txt_close else []) @
     txt_level @ Itoa level @ txt_ban @ humanDuration banMinutes"

subsection \<open>Gates\<close>

definition white_check :: "'f hg_env \<Rightarrow> string \<Rightarrow> 'f hg_state \<Rightarrow> white_reason option \<times> 'f hg_state" where
  "white_check env ip s =
     (case IsWhitelisted (env_white env) (env_ifaces env) (env_clock env) (st_white s) (st_cache s) ip of
        (r, w, c) \<Rightarrow> (r, s\<lparr>st_white := w, st_cache := c\<rparr>))"

definition CACHE_HOST_GUARD_BANNED_PRE :: string where "CACHE_HOST_GUARD_BANNED_PRE = ''CACHE_HOST_GUARD_BANNED_''"
definition CACHE_HOST_GUARD_RATE :: string where "CACHE_HOST_GUARD_RATE = ''CACHE_HOST_GUARD_RATE''"

definition allowBanRate :: "'f hg_env \<Rightarrow> 'f hg_state \<Rightarrow> bool \<times> 'f hg_state" where
  "allowBanRate env s =
     (let limit = GCONFIG_HOST_GUARD_BAN_RATE_LIMIT (env_cfg env)
      in case st_cache s of
           None \<Rightarrow> (True, s)
         | Some c \<Rightarrow>
             if limit \<le> 0 then (True, s)
             else
               (let key = CACHE_HOST_GUARD_RATE @ '':'' @ env_minute env (env_clock env)
                in case GetInt (env_clock env) c key of
                     ((cur, err), c') \<Rightarrow>
                       if limit \<le> cur then (False, s\<lparr>st_cache := Some c'\<rparr>)
                       else (True, s\<lparr>st_cache := Some (SetWithTTl (env_clock env) c' key (CInt (cur + 1)) (2 * minute))\<rparr>)))"

definition exec_apply :: "'f hg_env \<Rightarrow> string list \<Rightarrow> string list \<Rightarrow> 'f hg_state \<Rightarrow> go_error \<times> 'f hg_state" where
  "exec_apply env add del s =
     (case ex_Apply (env_exec env) (env_fw env) (env_clock env) add del (st_exec s) of
        (err, e) \<Rightarrow> (err, s\<lparr>st_exec := e\<rparr>))"

definition exec_flush :: "'f hg_env \<Rightarrow> 'f hg_state \<Rightarrow> go_error \<times> 'f hg_state" where
  "exec_flush env s =
     (case FlushPending (env_fw env) (env_clock env) (st_exec s) of (err, e) \<Rightarrow> (err, s\<lparr>st_exec := e\<rparr>))"

definition evictBatch :: nat where "evictBatch = 16"

definition victims :: "HostGuardBan list \<Rightarrow> HostGuardBan list" where
  "victims bans = take evictBatch (sort_key ban_ExpireTime (filter (\<lambda>b. active_ban b \<and> 0 < ban_ExpireTime b) bans))"

text \<open>An update of the rows with given identifiers.\<close>

definition update_ids :: "string list \<Rightarrow> (HostGuardBan \<Rightarrow> HostGuardBan) \<Rightarrow> HostGuardBan list \<Rightarrow> HostGuardBan list" where
  "update_ids ids f bans = map (\<lambda>b. if ban_Id b \<in> set ids then f b else b) bans"

definition ensureCapacity :: "'f hg_env \<Rightarrow> 'f hg_state \<Rightarrow> bool \<times> 'f hg_state" where
  "ensureCapacity env s =
     (let limit = GCONFIG_HOST_GUARD_MAX_BAN_ENTRIES (env_cfg env)
      in if limit \<le> 0 then (True, s)
         else if ex_Count (st_exec s) < limit then (True, s)
         else if env_db_nil env then (False, s)
         else
           (let vs = victims (st_bans s)
            in if env_err_victims env \<or> vs = [] then (False, s)
               else (case exec_apply env [] (map ban_IP vs) s of
                       (err, s') \<Rightarrow>
                         (True, s'\<lparr>st_bans := update_ids (map ban_Id vs)
                            (\<lambda>b. b\<lparr>ban_Status := HostBanStatusReleased, ban_Remarks := txt_remark_evict\<rparr>) (st_bans s')\<rparr>))))"

text \<open>The gates before any decision: \<open>NotSkipped\<close> lets the request through.\<close>

definition ban_gate :: "'f hg_env \<Rightarrow> BanRequest \<Rightarrow> 'f hg_state \<Rightarrow> skip_reason \<times> 'f hg_state" where
  "ban_gate env req s =
     (if GCONFIG_HOST_GUARD_FORCE_DISABLE (env_cfg env) then (SkipForceDisable, s)
      else
        (let (white, s1) = (if rq_Manual req then (None, s) else white_check env (rq_IP req) s)
         in case white of
              Some reason \<Rightarrow> (SkipWhitelisted reason, s1)
            | None \<Rightarrow>
                if ex_Contains (st_exec s1) (rq_IP req) then (SkipAlreadyBanned, s1)
                else if rq_Manual req then (NotSkipped, s1)
                else (case allowBanRate env s1 of
                        (ok, s2) \<Rightarrow>
                          if \<not> ok then (SkipRateLimit, s2)
                          else (case ensureCapacity env s2 of
                                  (room, s3) \<Rightarrow> (if \<not> room then SkipCapacity else NotSkipped, s3)))))"

subsection \<open>The decision\<close>

definition loadOffender :: "'f hg_env \<Rightarrow> string \<Rightarrow> 'f hg_state \<Rightarrow> HostGuardOffender option" where
  "loadOffender env ip s = (if env_db_nil env then None else find (\<lambda>o'. of_IP o' = ip) (st_offenders s))"

record ban_plan =
  pl_Level :: int
  pl_BanMinutes :: int
  pl_BanCount :: int
  pl_Target :: string
  pl_IsSubnet :: bool
  pl_ExpireTime :: int
  pl_Reason :: string

definition plan_ban :: "'f hg_env \<Rightarrow> BanRequest \<Rightarrow> int \<Rightarrow> 'f hg_state \<Rightarrow> ban_plan \<times> 'f hg_state" where
  "plan_ban env req now s =
     (let offender = loadOffender env (rq_IP req) s;
          ((level, banMinutes, banCount), s') =
            (if rq_Manual req
             then ((0, rq_ManualMin req, case offender of None \<Rightarrow> 1 | Some o' \<Rightarrow> of_BanCount o' + 1), s)
             else (case DecideLadder env offender now s of
                     (d, s1) \<Rightarrow> ((dec_Level d, dec_BanMinutes d, dec_BanCount d), s1)));
          agg = (if rq_Manual req then None else ShouldAggregateSubnet env (rq_IP req) s');
          reason = (if rq_Reason req = [] then buildReason (env_cfg env) req level banMinutes else rq_Reason req)
      in (\<lparr>pl_Level = level, pl_BanMinutes = banMinutes, pl_BanCount = banCount,
           pl_Target = (case agg of None \<Rightarrow> rq_IP req | Some cidr \<Rightarrow> cidr),
           pl_IsSubnet = (agg \<noteq> None),
           pl_ExpireTime = (if 0 < banMinutes then Unix (now + int64 (banMinutes * minute)) else 0),
           pl_Reason = reason\<rparr>, s'))"

subsection \<open>The ban\<close>

definition upsertOffender :: "'f hg_env \<Rightarrow> BanRequest \<Rightarrow> ban_plan \<Rightarrow> int \<Rightarrow> 'f hg_state \<Rightarrow> 'f hg_state" where
  "upsertOffender env req p now s =
     (if env_db_nil env then s
      else case loadOffender env (rq_IP req) s of
        None \<Rightarrow>
          if env_err_offender env then s
          else s\<lparr>st_offenders := st_offenders s @
            [\<lparr>of_Id = env_offender_id env, of_IP = rq_IP req, of_Source = rq_Source req, of_BanCount = pl_BanCount p,
              of_CurrentLevel = pl_Level p, of_FirstBanTime = Unix now, of_LastBanTime = Unix now,
              of_TotalFailCount = rq_HitCount req, of_LastReason = pl_Reason p,
              of_Location = env_locate env (rq_IP req)\<rparr>]\<rparr>
      | Some existing \<Rightarrow>
          if env_err_offender env then s
          else s\<lparr>st_offenders := map (\<lambda>o'. if of_Id o' = of_Id existing
             then o'\<lparr>of_Source := rq_Source req, of_BanCount := pl_BanCount p, of_CurrentLevel := pl_Level p,
                    of_LastBanTime := Unix now, of_TotalFailCount := of_TotalFailCount existing + rq_HitCount req,
                    of_LastReason := pl_Reason p\<rparr>
             else o') (st_offenders s)\<rparr>)"

definition markBanned :: "'f hg_env \<Rightarrow> string \<Rightarrow> int \<Rightarrow> 'f hg_state \<Rightarrow> 'f hg_state" where
  "markBanned env ip banMinutes s =
     (case st_cache s of
        None \<Rightarrow> s
      | Some c \<Rightarrow>
          (let ttl = (if 0 < banMinutes then int64 (banMinutes * minute) else 24 * hour)
           in s\<lparr>st_cache := Some (SetWithTTl (env_clock env) c (CACHE_HOST_GUARD_BANNED_PRE @ ip) (CInt 1) ttl)\<rparr>))"

definition notifyBan :: "'f hg_env \<Rightarrow> ban_plan \<Rightarrow> int \<Rightarrow> 'f hg_state \<Rightarrow> 'f hg_state" where
  "notifyBan env p now s =
     (if GCONFIG_HOST_GUARD_NOTIFY (env_cfg env) \<noteq> 1 \<or> env_queue_nil env then s
      else s\<lparr>st_messages := st_messages s @
        [\<lparr>msg_Ip = pl_Target p, msg_Reason = pl_Reason p @ txt_hint1 @ BanSetName @ '' '' @ pl_Target p @ txt_hint2,
          msg_Duration = pl_BanMinutes p,
          msg_RemainingSeconds = (if 0 < pl_ExpireTime p then pl_ExpireTime p - Unix now else 0),
          msg_Time = now\<rparr>]\<rparr>)"

definition ban_row :: "'f hg_env \<Rightarrow> BanRequest \<Rightarrow> ban_plan \<Rightarrow> int \<Rightarrow> HostGuardBan" where
  "ban_row env req p now =
     \<lparr>ban_Id = env_ban_id env, ban_IP = pl_Target p, ban_Source = rq_Source req, ban_Level = pl_Level p,
      ban_BanMinutes = pl_BanMinutes p, ban_StartTime = Unix now, ban_ExpireTime = pl_ExpireTime p,
      ban_Reason = pl_Reason p, ban_Status = HostBanStatusActive,
      ban_ExecMode = ExecMode (env_exec env) (env_fw env), ban_IsSubnet = (if pl_IsSubnet p then 1 else 0),
      ban_HitCount = rq_HitCount req, ban_Location = env_locate env (rq_IP req), ban_Remarks = []\<rparr>"

definition commit_ban :: "'f hg_env \<Rightarrow> BanRequest \<Rightarrow> ban_plan \<Rightarrow> int \<Rightarrow> BanResult \<Rightarrow> 'f hg_state \<Rightarrow> BanResult \<times> 'f hg_state" where
  "commit_ban env req p now res s =
     (if \<not> env_db_nil env \<and> env_err_create env \<noteq> None
      then (res\<lparr>res_Skipped := SkipCreateFailed (the (env_err_create env))\<rparr>, s)
      else
        (let s1 = (if env_db_nil env then s else s\<lparr>st_bans := st_bans s @ [ban_row env req p now]\<rparr>)
         in case exec_apply env [pl_Target p] [] s1 of
              (Some err, s2) \<Rightarrow>
                (res\<lparr>res_Skipped := SkipFirewallFailed err\<rparr>,
                 if env_db_nil env then s2
                 else s2\<lparr>st_bans := update_ids [env_ban_id env]
                   (\<lambda>b. b\<lparr>ban_Status := HostBanStatusReleased, ban_Remarks := txt_remark_fw @ err\<rparr>) (st_bans s2)\<rparr>)
            | (None, s2) \<Rightarrow>
                (res\<lparr>res_Banned := True\<rparr>,
                 notifyBan env p now (markBanned env (pl_Target p) (pl_BanMinutes p) (upsertOffender env req p now s2)))))"

definition plan_result :: "BanRequest \<Rightarrow> ban_plan \<Rightarrow> BanResult" where
  "plan_result req p = (new_result (rq_IP req))\<lparr>res_Level := pl_Level p, res_BanMinutes := pl_BanMinutes p,
     res_IsSubnet := pl_IsSubnet p, res_TargetIP := pl_Target p, res_ExpireTime := pl_ExpireTime p\<rparr>"

definition ApplyBan :: "'f hg_env \<Rightarrow> BanRequest \<Rightarrow> int \<Rightarrow> 'f hg_state \<Rightarrow> BanResult \<times> 'f hg_state" where
  "ApplyBan env req now s =
     (case ban_gate env req s of
        (NotSkipped, s1) \<Rightarrow>
          (case plan_ban env req now s1 of
             (p, s2) \<Rightarrow>
               (let res = plan_result req p
                in if \<not> rq_Manual req \<and> GCONFIG_HOST_GUARD_MODE (env_cfg env) \<noteq> ''block''
                   then (res\<lparr>res_Observed := True\<rparr>, s2)
                   else commit_ban env req p now res s2))
      | (why, s1) \<Rightarrow> ((new_result (rq_IP req))\<lparr>res_Skipped := why\<rparr>, s1))"

subsection \<open>The decision on an event\<close>

definition eventFlushSize :: nat where "eventFlushSize = 50"
definition eventFlushInterval :: int where "eventFlushInterval = second"

definition FlushEvents :: "'f hg_env \<Rightarrow> 'f hg_state \<Rightarrow> 'f hg_state" where
  "FlushEvents env s =
     (if st_buf s = [] then s\<lparr>st_flushTimer := None\<rparr>
      else (let batch = st_buf s; s' = s\<lparr>st_buf := [], st_flushTimer := None\<rparr>
            in if env_logdb_nil env then s' else s'\<lparr>st_eventLog := st_eventLog s @ batch\<rparr>))"

definition RecordEvent :: "'f hg_env \<Rightarrow> HostLoginEvent \<Rightarrow> 'f hg_state \<Rightarrow> 'f hg_state" where
  "RecordEvent env ev s =
     (let s1 = s\<lparr>st_buf := st_buf s @ [ev],
              st_flushTimer := (case st_flushTimer s of None \<Rightarrow> Some (env_clock env + eventFlushInterval) | t \<Rightarrow> t)\<rparr>
      in if eventFlushSize \<le> length (st_buf s1) then FlushEvents env s1 else s1)"

definition mgr_record :: "'f hg_env \<Rightarrow> LoginFailEvent \<Rightarrow> 'f hg_state \<Rightarrow> int \<times> 'f hg_state" where
  "mgr_record env ev s =
     (if env_mgr_nil env then (0, s)
      else case st_cache s of
        None \<Rightarrow> (0, s)
      | Some c \<Rightarrow>
          (let window = (if GCONFIG_HOST_GUARD_FIND_TIME (env_cfg env) \<le> 0 then 10
                         else GCONFIG_HOST_GUARD_FIND_TIME (env_cfg env))
           in case hl_Record (env_clock env) c (ev_Source ev) (ev_IP ev) window (window * 3) of
                (n, c') \<Rightarrow> (n, s\<lparr>st_cache := Some c'\<rparr>)))"

definition mgr_clear :: "'f hg_env \<Rightarrow> LoginFailEvent \<Rightarrow> 'f hg_state \<Rightarrow> 'f hg_state" where
  "mgr_clear env ev s =
     (if env_mgr_nil env then s
      else s\<lparr>st_cache := map_option (\<lambda>c. hl_Clear c (ev_Source ev) (ev_IP ev)) (st_cache s)\<rparr>)"

definition max_retry :: "hg_config \<Rightarrow> int" where
  "max_retry cfg = (if GCONFIG_HOST_GUARD_MAX_RETRY cfg \<le> 0 then 8 else GCONFIG_HOST_GUARD_MAX_RETRY cfg)"

definition event_request :: "LoginFailEvent \<Rightarrow> int \<Rightarrow> BanRequest" where
  "event_request ev hitCount =
     \<lparr>rq_IP = ev_IP ev, rq_Source = ev_Source ev, rq_HitCount = hitCount, rq_FailKinds = describeEvent ev,
      rq_Manual = False, rq_ManualMin = 0, rq_Reason = []\<rparr>"

definition Decide :: "'f hg_env \<Rightarrow> LoginFailEvent \<Rightarrow> 'f hg_state \<Rightarrow> BanResult \<times> 'f hg_state" where
  "Decide env ev s =
     (let now = (case ev_At ev of None \<Rightarrow> env_clock env | Some t \<Rightarrow> t)
      in if GCONFIG_HOST_GUARD_FORCE_DISABLE (env_cfg env)
         then ((new_result (ev_IP ev))\<lparr>res_Skipped := SkipForceDisable\<rparr>, s)
         else
           (case white_check env (ev_IP ev) s of
              (white, s1) \<Rightarrow>
                (let countable = ((IsHard (ev_Kind ev) \<or> GCONFIG_HOST_GUARD_COUNT_SOFT_FAIL (env_cfg env) = 1) \<and> white = None);
                     (hitCount, s2) = (if countable then mgr_record env ev s1 else (0, s1));
                     ((res, action), s3) =
                       (if countable \<and> max_retry (env_cfg env) \<le> hitCount
                        then (case ApplyBan env (event_request ev hitCount) now s2 of
                                (r, s') \<Rightarrow>
                                  if res_Banned r then ((r, HostEventActionBanned), mgr_clear env ev s')
                                  else if res_Observed r then ((r, HostEventActionObserve), s')
                                  else ((r, HostEventActionSkipped), s'))
                        else ((new_result (ev_IP ev), if countable then HostEventActionCounted else HostEventActionSkipped), s2));
                     row = \<lparr>le_Source = ev_Source ev, le_IP = ev_IP ev, le_Port = ev_Port ev, le_UserName = ev_User ev,
                        le_FailKind = FailKind_string (ev_Kind ev), le_LogonType = ev_LogonType ev,
                        le_Location = env_locate env (ev_IP ev), le_Action = action, le_HitCount = hitCount,
                        le_RawLine = ev_Raw ev, le_EventTime = Unix now\<rparr>
                 in (res, if env_sink_nil env then s3 else RecordEvent env row s3))))"

subsection \<open>The operations of the administrator\<close>

datatype service_error =
  SvcNotFound | SvcNotActive | SvcFirewall string | SvcEmptyIP | SvcSkipped skip_reason | SvcNotBanned
| SvcNoLadder | SvcNegative | SvcNoneEnabled | SvcDb string | SvcListed

definition find_ban :: "string \<Rightarrow> 'f hg_state \<Rightarrow> HostGuardBan option" where
  "find_ban bid s = find (\<lambda>b. ban_Id b = bid) (st_bans s)"

definition ReleaseBan :: "'f hg_env \<Rightarrow> string \<Rightarrow> 'f hg_state \<Rightarrow> service_error option \<times> 'f hg_state" where
  "ReleaseBan env bid s =
     (case find_ban bid s of
        None \<Rightarrow> (Some SvcNotFound, s)
      | Some ban \<Rightarrow>
          if ban_Status ban \<noteq> HostBanStatusActive then (Some SvcNotActive, s)
          else (case exec_apply env [] [ban_IP ban] s of
                  (Some err, s1) \<Rightarrow> (Some (SvcFirewall err), s1)
                | (None, s1) \<Rightarrow>
                    (let s2 = snd (exec_flush env s1)
                     in (None, s2\<lparr>st_bans := update_ids [bid]
                          (\<lambda>b. b\<lparr>ban_Status := HostBanStatusReleased, ban_Remarks := txt_released\<rparr>) (st_bans s2)\<rparr>))))"

definition PromoteToPermanent :: "string \<Rightarrow> 'f hg_state \<Rightarrow> service_error option \<times> 'f hg_state" where
  "PromoteToPermanent bid s =
     (case find_ban bid s of
        None \<Rightarrow> (Some SvcNotFound, s)
      | Some ban \<Rightarrow>
          if ban_Status ban \<noteq> HostBanStatusActive then (Some SvcNotActive, s)
          else (None, s\<lparr>st_bans := update_ids [bid]
                 (\<lambda>b. b\<lparr>ban_ExpireTime := 0, ban_BanMinutes := 0, ban_Remarks := txt_promoted\<rparr>) (st_bans s)\<rparr>))"

definition ManualBan :: "'f hg_env \<Rightarrow> string \<Rightarrow> string \<Rightarrow> int \<Rightarrow> string \<Rightarrow> 'f hg_state \<Rightarrow> service_error option \<times> 'f hg_state" where
  "ManualBan env reqIP reqSource banMinutes reqReason s =
     (let ip = TrimSpace reqIP
      in if ip = [] then (Some SvcEmptyIP, s)
         else
           (case ApplyBan env \<lparr>rq_IP = ip, rq_Source = (if reqSource = [] then SourceSSH else reqSource), rq_HitCount = 0,
                    rq_FailKinds = [], rq_Manual = True, rq_ManualMin = banMinutes,
                    rq_Reason = (if reqReason = [] then txt_manual else reqReason)\<rparr> (env_clock env) s of
              (res, s1) \<Rightarrow>
                if \<not> res_Banned res
                then (Some (if res_Skipped res \<noteq> NotSkipped then SvcSkipped (res_Skipped res) else SvcNotBanned), s1)
                else (None, snd (exec_flush env s1))))"

definition ResetOffender :: "string \<Rightarrow> 'f hg_state \<Rightarrow> 'f hg_state" where
  "ResetOffender bid s = s\<lparr>st_offenders := map (\<lambda>o'. if of_Id o' = bid
     then o'\<lparr>of_BanCount := 0, of_CurrentLevel := 0, of_LastReason := txt_ladder_reset\<rparr> else o') (st_offenders s)\<rparr>"

definition DeleteOffender :: "string \<Rightarrow> 'f hg_state \<Rightarrow> 'f hg_state" where
  "DeleteOffender bid s = s\<lparr>st_offenders := filter (\<lambda>o'. of_Id o' \<noteq> bid) (st_offenders s)\<rparr>"

text \<open>\<open>txErr\<close> is the error of a statement of the transaction or of its commit: everything is rolled back.\<close>

fun renumber :: "int \<Rightarrow> HostGuardBanLadder list \<Rightarrow> HostGuardBanLadder list" where
  "renumber i [] = []"
| "renumber i (l # ls) = l\<lparr>ld_Level := (if ld_Level l \<le> 0 then i + 1 else ld_Level l)\<rparr> # renumber (i + 1) ls"

definition SaveLadders :: "go_error \<Rightarrow> HostGuardBanLadder list \<Rightarrow> 'f hg_state \<Rightarrow> service_error option \<times> 'f hg_state" where
  "SaveLadders txErr ls s =
     (if ls = [] then (Some SvcNoLadder, s)
      else if list_ex (\<lambda>l. ld_BanMinutes l < 0) ls then (Some SvcNegative, s)
      else if \<not> list_ex (\<lambda>l. ld_Enable l = 1) ls then (Some SvcNoneEnabled, s)
      else case txErr of
             Some err \<Rightarrow> (Some (SvcDb err), s)
           | None \<Rightarrow> (None, InvalidateLadder (s\<lparr>st_ladders := renumber 0 ls\<rparr>)))"

definition expired_bans :: "int \<Rightarrow> HostGuardBan list \<Rightarrow> HostGuardBan list" where
  "expired_bans now bans = filter (\<lambda>b. active_ban b \<and> 0 < ban_ExpireTime b \<and> ban_ExpireTime b \<le> now) bans"

text \<open>\<open>findErr\<close> and \<open>updErr\<close> are the errors of the query and of the final update.\<close>

definition CleanExpiredBans :: "'f hg_env \<Rightarrow> go_error \<Rightarrow> go_error \<Rightarrow> 'f hg_state \<Rightarrow> (string + nat) \<times> 'f hg_state" where
  "CleanExpiredBans env findErr updErr s =
     (case findErr of
        Some err \<Rightarrow> (Inl err, s)
      | None \<Rightarrow>
          (let expd = expired_bans (Unix (env_clock env)) (st_bans s)
           in if expd = [] then (Inr 0, s)
              else (case exec_apply env [] (map ban_IP expd) s of
                      (Some err, s1) \<Rightarrow> (Inl err, s1)
                    | (None, s1) \<Rightarrow>
                        (let s2 = snd (exec_flush env s1)
                         in case updErr of
                              Some err \<Rightarrow> (Inl err, s2)
                            | None \<Rightarrow> (Inr (length expd), s2\<lparr>st_bans := update_ids (map ban_Id expd)
                                (\<lambda>b. b\<lparr>ban_Status := HostBanStatusExpired\<rparr>) (st_bans s2)\<rparr>)))))"

fun release_all :: "'f hg_env \<Rightarrow> string list \<Rightarrow> 'f hg_state \<Rightarrow> 'f hg_state" where
  "release_all env [] s = s"
| "release_all env (bid # ids) s = release_all env ids (snd (ReleaseBan env bid s))"

text \<open>\<open>cfgErr\<close> is the error of the configuration service; the new configuration is returned.\<close>

definition AddToWhitelist :: "'f hg_env \<Rightarrow> go_error \<Rightarrow> string \<Rightarrow> 'f hg_state \<Rightarrow> (service_error + white_config) \<times> 'f hg_state" where
  "AddToWhitelist env cfgErr reqIP s =
     (let ip = TrimSpace reqIP;
          current = TrimSpace (GCONFIG_HOST_GUARD_WHITELIST (env_white env))
      in if ip = [] then (Inl SvcEmptyIP, s)
         else if list_ex (\<lambda>item. TrimSpace item = ip) (StrSplit (CHR '','') current) then (Inl SvcListed, s)
         else case cfgErr of
                Some err \<Rightarrow> (Inl (SvcDb err), s)
              | None \<Rightarrow>
                  (Inr ((env_white env)\<lparr>GCONFIG_HOST_GUARD_WHITELIST := (if current \<noteq> [] then current @ '','' @ ip else ip)\<rparr>),
                   release_all env (map ban_Id (filter (\<lambda>b. ban_IP b = ip \<and> active_ban b) (st_bans s)))
                     (s\<lparr>st_white := InvalidateWhitelist (st_white s)\<rparr>)))"

definition TestWhitelist :: "'f hg_env \<Rightarrow> string \<Rightarrow> 'f hg_state \<Rightarrow> white_reason option" where
  "TestWhitelist env ip s = fst (white_check env (TrimSpace ip) s)"

subsection \<open>Frames\<close>

lemmas [guard_simps] =
  white_check_def allowBanRate_def exec_apply_def exec_flush_def ensureCapacity_def ban_gate_def
  plan_ban_def commit_ban_def ApplyBan_def RecordEvent_def FlushEvents_def Let_def

lemma white_check_frame:
  "white_check env ip s = (r, s') \<Longrightarrow>
     st_exec s' = st_exec s \<and> st_bans s' = st_bans s \<and> st_offenders s' = st_offenders s \<and>
     st_messages s' = st_messages s \<and> st_ladderCache s' = st_ladderCache s"
  by (auto simp: white_check_def split: prod.splits)

lemma white_check_cache:
  assumes "white_check env ip s = (r, s')" "env_clock env \<le> t" "st_cache s = Some c"
  shows "\<exists>c'. st_cache s' = Some c' \<and> visible t c' k = visible t c k"
  using assms IsKeyExist_keeps [OF assms(2), of c "CACHE_HOST_GUARD_ADMIN_PRE @ ip" k]
  by (auto simp: white_check_def IsWhitelisted_def isActiveAdminIP_def split: prod.splits option.splits if_splits)

lemma RecordEvent_frame:
  "st_exec (RecordEvent env ev s) = st_exec s" "st_bans (RecordEvent env ev s) = st_bans s"
  "st_offenders (RecordEvent env ev s) = st_offenders s" "st_messages (RecordEvent env ev s) = st_messages s"
  "st_cache (RecordEvent env ev s) = st_cache s"
  by (simp_all add: RecordEvent_def FlushEvents_def Let_def)

lemma mgr_frame:
  "mgr_record env ev s = (n, s') \<Longrightarrow> st_exec s' = st_exec s \<and> st_bans s' = st_bans s \<and>
     st_offenders s' = st_offenders s \<and> st_messages s' = st_messages s"
  "st_exec (mgr_clear env ev s) = st_exec s" "st_bans (mgr_clear env ev s) = st_bans s"
  "st_offenders (mgr_clear env ev s) = st_offenders s" "st_messages (mgr_clear env ev s) = st_messages s"
  by (auto simp: mgr_record_def mgr_clear_def Let_def split: if_splits option.splits prod.splits)

lemma allowBanRate_frame:
  "allowBanRate env s = (ok, s') \<Longrightarrow> st_exec s' = st_exec s \<and> st_bans s' = st_bans s \<and>
     st_offenders s' = st_offenders s \<and> st_messages s' = st_messages s"
  by (auto simp: allowBanRate_def Let_def split: if_splits option.splits prod.splits)

lemma DecideLadder_frame:
  "DecideLadder env off now s = (d, s') \<Longrightarrow> st_exec s' = st_exec s \<and> st_bans s' = st_bans s \<and>
     st_offenders s' = st_offenders s \<and> st_messages s' = st_messages s \<and> st_cache s' = st_cache s"
  by (auto simp: DecideLadder_def loadLadders_def Let_def split: if_splits option.splits prod.splits)

lemma plan_ban_frame:
  assumes "plan_ban env req now s = (p, s')"
  shows "st_exec s' = st_exec s \<and> st_bans s' = st_bans s \<and>
     st_offenders s' = st_offenders s \<and> st_messages s' = st_messages s \<and> st_cache s' = st_cache s"
proof (cases "rq_Manual req")
  case True
  with assms show ?thesis by (auto simp: plan_ban_def Let_def)
next
  case False
  obtain d s1 where "DecideLadder env (loadOffender env (rq_IP req) s) now s = (d, s1)" by fastforce
  with assms False DecideLadder_frame [OF this] show ?thesis by (auto simp: plan_ban_def Let_def)
qed

lemma exec_apply_frame:
  assumes "exec_apply env add del s = (err, s')"
  shows "st_bans s' = st_bans s \<and> st_offenders s' = st_offenders s \<and>
     st_messages s' = st_messages s \<and> st_cache s' = st_cache s \<and>
     (\<forall>ip. ex_Contains (st_exec s') ip \<longleftrightarrow> (ex_Contains (st_exec s) ip \<or> ip \<in> set add) \<and> ip \<notin> set del)"
proof -
  have "s' = s\<lparr>st_exec := snd (ex_Apply (env_exec env) (env_fw env) (env_clock env) add del (st_exec s))\<rparr>"
    using assms by (simp add: exec_apply_def split: prod.splits)
  then show ?thesis by (simp add: executor.has_upd)
qed

lemma update_ids_length [simp]: "length (update_ids ids f bans) = length bans"
  by (simp add: update_ids_def)

text \<open>Making room: what it evicts, and that it adds nothing.\<close>

lemma ensureCapacity_frame:
  assumes "ensureCapacity env s = (ok, s')"
  shows "st_offenders s' = st_offenders s \<and> st_messages s' = st_messages s \<and> length (st_bans s') = length (st_bans s) \<and>
    (\<forall>ip. ex_Contains (st_exec s') ip \<longrightarrow> ex_Contains (st_exec s) ip)"
    and "GCONFIG_HOST_GUARD_MAX_BAN_ENTRIES (env_cfg env) \<le> 0 \<or>
      ex_Count (st_exec s) < GCONFIG_HOST_GUARD_MAX_BAN_ENTRIES (env_cfg env) \<Longrightarrow> s' = s"
proof -
  obtain err s1 where e: "exec_apply env [] (map ban_IP (victims (st_bans s))) s = (err, s1)" by fastforce
  from exec_apply_frame [OF this] assms show "st_offenders s' = st_offenders s \<and> st_messages s' = st_messages s \<and>
      length (st_bans s') = length (st_bans s) \<and> (\<forall>ip. ex_Contains (st_exec s') ip \<longrightarrow> ex_Contains (st_exec s) ip)"
    unfolding ensureCapacity_def Let_def e by (auto split: if_split_asm)
  show "GCONFIG_HOST_GUARD_MAX_BAN_ENTRIES (env_cfg env) \<le> 0 \<or>
      ex_Count (st_exec s) < GCONFIG_HOST_GUARD_MAX_BAN_ENTRIES (env_cfg env) \<Longrightarrow> s' = s"
    using assms unfolding ensureCapacity_def Let_def by (auto split: if_split_asm)
qed

lemma ban_gate_frame:
  assumes "ban_gate env req s = (why, s')"
  shows "st_offenders s' = st_offenders s \<and> st_messages s' = st_messages s \<and> length (st_bans s') = length (st_bans s) \<and>
    (\<forall>ip. ex_Contains (st_exec s') ip \<longrightarrow> ex_Contains (st_exec s) ip)"
    and "GCONFIG_HOST_GUARD_MAX_BAN_ENTRIES (env_cfg env) \<le> 0 \<or>
      ex_Count (st_exec s) < GCONFIG_HOST_GUARD_MAX_BAN_ENTRIES (env_cfg env) \<Longrightarrow>
      st_exec s' = st_exec s \<and> st_bans s' = st_bans s"
proof -
  obtain r s1 where w: "white_check env (rq_IP req) s = (r, s1)" by fastforce
  obtain ok s2 where a: "allowBanRate env s1 = (ok, s2)" by fastforce
  obtain room s3 where c: "ensureCapacity env s2 = (room, s3)" by fastforce
  note frames = white_check_frame [OF w] allowBanRate_frame [OF a]
  note split = assms [unfolded ban_gate_def w Let_def]
  show "st_offenders s' = st_offenders s \<and> st_messages s' = st_messages s \<and> length (st_bans s') = length (st_bans s) \<and>
    (\<forall>ip. ex_Contains (st_exec s') ip \<longrightarrow> ex_Contains (st_exec s) ip)"
    using split frames ensureCapacity_frame(1) [OF c] by (auto simp: a c split: if_split_asm option.split_asm)
  show "GCONFIG_HOST_GUARD_MAX_BAN_ENTRIES (env_cfg env) \<le> 0 \<or>
      ex_Count (st_exec s) < GCONFIG_HOST_GUARD_MAX_BAN_ENTRIES (env_cfg env) \<Longrightarrow>
      st_exec s' = st_exec s \<and> st_bans s' = st_bans s"
    using split frames ensureCapacity_frame(2) [OF c] by (auto simp: a c split: if_split_asm option.split_asm)
qed

text \<open>The three ways out of \<open>ApplyBan\<close>.\<close>

lemma ApplyBan_cases:
  assumes "ApplyBan env req now s = (res, s')"
  obtains (skipped) why where "ban_gate env req s = (why, s')" "why \<noteq> NotSkipped"
      "res = (new_result (rq_IP req))\<lparr>res_Skipped := why\<rparr>"
    | (observed) s1 p where "ban_gate env req s = (NotSkipped, s1)" "plan_ban env req now s1 = (p, s')"
      "\<not> rq_Manual req" "GCONFIG_HOST_GUARD_MODE (env_cfg env) \<noteq> ''block''" "\<not> res_Banned res" "res_Observed res"
    | (committed) s1 p s2 where "ban_gate env req s = (NotSkipped, s1)" "plan_ban env req now s1 = (p, s2)"
      "rq_Manual req \<or> GCONFIG_HOST_GUARD_MODE (env_cfg env) = ''block''"
      "commit_ban env req p now (plan_result req p) s2 = (res, s')"
proof -
  obtain why s1 where g: "ban_gate env req s = (why, s1)" by fastforce
  obtain p s2 where p: "plan_ban env req now s1 = (p, s2)" by fastforce
  show thesis
  proof (cases "why = NotSkipped")
    case False
    then show thesis using assms g skipped [of why] by (auto simp: ApplyBan_def split: skip_reason.splits)
  next
    case True
    with assms g p show thesis
      using observed [of s1 p] committed [of s1 p s2]
      by (auto simp: ApplyBan_def plan_result_def new_result_def Let_def split: if_split_asm)
  qed
qed

lemma Decide_cases:
  assumes "Decide env ev s = (res, s')"
  obtains (off) "GCONFIG_HOST_GUARD_FORCE_DISABLE (env_cfg env)" "\<not> res_Banned res" "s' = s"
    | (quiet) r s1 row where "white_check env (ev_IP ev) s = (r, s1)" "\<not> res_Banned res"
      "r \<noteq> None \<or> \<not> IsHard (ev_Kind ev) \<and> GCONFIG_HOST_GUARD_COUNT_SOFT_FAIL (env_cfg env) \<noteq> 1"
      "s' = (if env_sink_nil env then s1 else RecordEvent env row s1)"
    | (counted) s1 n s2 row where "white_check env (ev_IP ev) s = (None, s1)" "mgr_record env ev s1 = (n, s2)"
      "n < max_retry (env_cfg env)" "\<not> res_Banned res" "s' = (if env_sink_nil env then s2 else RecordEvent env row s2)"
    | (tried) s1 n s2 now s3 row where "white_check env (ev_IP ev) s = (None, s1)" "mgr_record env ev s1 = (n, s2)"
      "max_retry (env_cfg env) \<le> n" "IsHard (ev_Kind ev) \<or> GCONFIG_HOST_GUARD_COUNT_SOFT_FAIL (env_cfg env) = 1"
      "ApplyBan env (event_request ev n) now s2 = (res, s3)"
      "s' = (let s4 = (if res_Banned res then mgr_clear env ev s3 else s3)
             in if env_sink_nil env then s4 else RecordEvent env row s4)"
proof -
  obtain r s1 where w: "white_check env (ev_IP ev) s = (r, s1)" by fastforce
  obtain n s2 where m: "mgr_record env ev s1 = (n, s2)" by fastforce
  define now where "now = (case ev_At ev of None \<Rightarrow> env_clock env | Some t \<Rightarrow> t)"
  obtain r' s3 where a: "ApplyBan env (event_request ev n) now s2 = (r', s3)" by fastforce
  have nb: "\<not> res_Banned (new_result ip)" for ip by (simp add: new_result_def)
  let ?soft = "\<not> IsHard (ev_Kind ev) \<and> GCONFIG_HOST_GUARD_COUNT_SOFT_FAIL (env_cfg env) \<noteq> 1"
  note D = assms [unfolded Decide_def Let_def now_def [symmetric] w]
  consider "GCONFIG_HOST_GUARD_FORCE_DISABLE (env_cfg env)" | "\<not> GCONFIG_HOST_GUARD_FORCE_DISABLE (env_cfg env)" "r \<noteq> None \<or> ?soft"
    | "\<not> GCONFIG_HOST_GUARD_FORCE_DISABLE (env_cfg env)" "r = None" "\<not> ?soft" "n < max_retry (env_cfg env)"
    | "\<not> GCONFIG_HOST_GUARD_FORCE_DISABLE (env_cfg env)" "r = None" "\<not> ?soft" "max_retry (env_cfg env) \<le> n"
    by linarith
  then show thesis
  proof cases
    case 1
    with D nb show thesis using off by auto
  next
    case 2
    with D nb show thesis using quiet [OF w] by auto
  next
    case 3
    with D nb m show thesis using counted [of s1 n s2] w by auto
  next
    case 4
    with D m a show thesis using tried [of s1 n s2 now s3] w by (auto split: if_split_asm)
  qed
qed

lemma ParseIP_nonempty: "ParseIP ip = Some b \<Longrightarrow> ip \<noteq> []"
  by (auto simp: ParseIP_def ParseAddr_def)

lemma white_check_None: "white_check env ip s = (None, s') \<Longrightarrow> ip \<noteq> []"
  by (cases "ParseIP ip") (auto simp: white_check_def IsWhitelisted_def dest: ParseIP_nonempty)

lemma hl_GetCount_cong:
  "visible t c' (hostLoginKey source ip) = visible t c (hostLoginKey source ip) \<Longrightarrow>
   hl_GetCount t c' source ip w = hl_GetCount t c source ip w"
  by (simp add: hl_GetCount_def load_visible)

lemma hl_Record_step:
  assumes "ip \<noteq> []" "hl_Record now c source ip w r = (n, c')" "0 < w" "w \<le> r"
  shows "n = hl_GetCount now c source ip w + 1"
proof -
  have "now - r * minute \<le> now - w * minute" using assms(4) by simp
  then have "filter (\<lambda>t. now - w * minute < t) (filter (\<lambda>t. now - r * minute < t) (es @ [now])) =
      filter (\<lambda>t. now - w * minute < t) es @ [now]" for es :: "int list"
    unfolding filter_filter using assms(3) by (auto intro: filter_cong)
  then show ?thesis
    using assms by (auto simp: hl_Record_def hl_GetCount_def hl_window_def hl_retention_def Let_def
        simp del: filter_append filter_filter split: option.splits)
qed

definition guard_window :: "hg_config \<Rightarrow> int" where
  "guard_window cfg = (if GCONFIG_HOST_GUARD_FIND_TIME cfg \<le> 0 then 10 else GCONFIG_HOST_GUARD_FIND_TIME cfg)"

lemma mgr_record_count:
  assumes "mgr_record env ev s = (n, s')" "0 < n" "ev_IP ev \<noteq> []"
  shows "\<exists>c. st_cache s = Some c \<and> \<not> env_mgr_nil env \<and>
    n = hl_GetCount (env_clock env) c (ev_Source ev) (ev_IP ev) (guard_window (env_cfg env)) + 1"
proof -
  from assms(1,2) obtain c c' where "st_cache s = Some c" "\<not> env_mgr_nil env"
      "hl_Record (env_clock env) c (ev_Source ev) (ev_IP ev) (guard_window (env_cfg env)) (guard_window (env_cfg env) * 3) = (n, c')"
    unfolding mgr_record_def guard_window_def [symmetric] by (auto simp: Let_def split: if_splits option.splits prod.splits)
  with hl_Record_step [OF assms(3) this(3)] show ?thesis by (auto simp: guard_window_def)
qed

lemma max_retry_pos: "0 < max_retry cfg"
  by (simp add: max_retry_def)

lemma commit_ban_banned:
  assumes "commit_ban env req p now (plan_result req p) s = (res, s')" "res_Banned res"
  shows "ex_Contains (st_exec s') (pl_Target p) \<and> res_TargetIP res = pl_Target p \<and> \<not> res_Observed res \<and>
    (\<not> env_db_nil env \<longrightarrow> st_bans s' = st_bans s @ [ban_row env req p now])"
proof -
  have nb: "\<not> res_Banned (plan_result req p)" "res_TargetIP (plan_result req p) = pl_Target p" "\<not> res_Observed (plan_result req p)"
    by (simp_all add: plan_result_def new_result_def)
  define s1 where "s1 = (if env_db_nil env then s else s\<lparr>st_bans := st_bans s @ [ban_row env req p now]\<rparr>)"
  obtain err s2 where e: "exec_apply env [pl_Target p] [] s1 = (err, s2)" by fastforce
  have ok: "err = None" "res = (plan_result req p)\<lparr>res_Banned := True\<rparr>"
      "s' = notifyBan env p now (markBanned env (pl_Target p) (pl_BanMinutes p) (upsertOffender env req p now s2))"
    using assms nb e unfolding commit_ban_def Let_def s1_def [symmetric]
    by (auto split: if_split_asm option.split_asm)
  have "st_exec s' = st_exec s2 \<and> st_bans s' = st_bans s2"
    by (simp add: ok(3) notifyBan_def markBanned_def upsertOffender_def Let_def split: option.split)
  with exec_apply_frame [OF e] ok nb show ?thesis by (simp add: s1_def)
qed

subsection \<open>The rate limit over a minute\<close>

fun rate_run :: "'f hg_env \<Rightarrow> int list \<Rightarrow> 'f hg_state \<Rightarrow> bool list" where
  "rate_run env [] s = []"
| "rate_run env (t # ts) s = (case allowBanRate (env\<lparr>env_clock := t\<rparr>) s of (ok, s') \<Rightarrow> ok # rate_run env ts s')"

definition rate_key :: "string \<Rightarrow> string" where
  "rate_key stamp = CACHE_HOST_GUARD_RATE @ '':'' @ stamp"

lemma allowBanRate_step:
  assumes "st_cache s = Some c" "0 < GCONFIG_HOST_GUARD_BAN_RATE_LIMIT (env_cfg env)" "env_minute env t = stamp"
    "c (rate_key stamp) = Some item \<and> t - ci_createTime item \<le> ci_ttl item \<and> ci_value item = CInt v \<and> t0 = ci_createTime item
       \<or> c (rate_key stamp) = None \<and> v = -1 \<and> t0 = t"
  shows "allowBanRate (env\<lparr>env_clock := t\<rparr>) s =
    (if GCONFIG_HOST_GUARD_BAN_RATE_LIMIT (env_cfg env) \<le> v then (False, s)
     else (True, s\<lparr>st_cache := Some (c(rate_key stamp \<mapsto> mk_item (CInt (v + 1)) t0 (2 * minute)))\<rparr>))"
proof -
  have "GetInt t c (rate_key stamp) = ((v, if c (rate_key stamp) = None then Some ErrCacheMiss else None), c)"
    using assms(4) by (auto simp: GetInt_def wc_Get_def expired_def)
  moreover have "SetWithTTl t c (rate_key stamp) x d = c(rate_key stamp \<mapsto> mk_item x t0 d)" for x :: "waf_rec cval" and d
    using assms(4) by (auto simp: SetWithTTl_def Let_def)
  ultimately show ?thesis
    using assms(1,2,3) by (simp add: allowBanRate_def rate_key_def Let_def)
qed

lemma map_range_Cons: "map f [0..<length (x # xs)] = f 0 # map (\<lambda>i. f (Suc i)) [0..<length xs]"
  by (simp add: map_upt_Suc del: upt_Suc)

lemma rate_run_from:
  assumes "st_cache s = Some c" "0 < GCONFIG_HOST_GUARD_BAN_RATE_LIMIT (env_cfg env)"
    "c (rate_key stamp) = Some (mk_item (CInt v) t0 (2 * minute))"
    "\<forall>t \<in> set ts. env_minute env t = stamp \<and> t \<le> t0 + 2 * minute"
  shows "rate_run env ts s = map (\<lambda>i. v + int i < GCONFIG_HOST_GUARD_BAN_RATE_LIMIT (env_cfg env)) [0..<length ts]"
  using assms(1,3,4)
proof (induction ts arbitrary: s c v)
  case (Cons t ts)
  let ?lim = "GCONFIG_HOST_GUARD_BAN_RATE_LIMIT (env_cfg env)"
  have step: "allowBanRate (env\<lparr>env_clock := t\<rparr>) s = (if ?lim \<le> v then (False, s)
      else (True, s\<lparr>st_cache := Some (c(rate_key stamp \<mapsto> mk_item (CInt (v + 1)) t0 (2 * minute)))\<rparr>))"
    using Cons.prems by (intro allowBanRate_step [OF _ assms(2), where item = "mk_item (CInt v) t0 (2 * minute)"])
      (auto simp: mk_item_def)
  show ?case
  proof (cases "?lim \<le> v")
    case True
    with Cons.IH [OF Cons.prems(1,2)] Cons.prems(3) step show ?thesis unfolding map_range_Cons by simp
  next
    case False
    have "rate_run env ts (s\<lparr>st_cache := Some (c(rate_key stamp \<mapsto> mk_item (CInt (v + 1)) t0 (2 * minute)))\<rparr>) =
        map (\<lambda>i. (v + 1) + int i < ?lim) [0..<length ts]"
      using Cons.prems(3) by (intro Cons.IH [where c = "c(rate_key stamp \<mapsto> mk_item (CInt (v + 1)) t0 (2 * minute))"]) auto
    with False step show ?thesis unfolding map_range_Cons by (simp add: algebra_simps)
  qed
qed simp

subsection \<open>Sample states for the witnesses\<close>

definition no_match_snapshot :: whitelistSnapshot where
  "no_match_snapshot = \<lparr>wls_loopback = newMatchSet, wls_local = newMatchSet, wls_lan = newMatchSet,
     wls_config = newMatchSet, wls_manage = newMatchSet, wls_builtAt = 0\<rparr>"

definition demo_env :: "string \<Rightarrow> int \<Rightarrow> string set hg_env" where
  "demo_env mode cap = \<lparr>env_cfg = \<lparr>GCONFIG_HOST_GUARD_FORCE_DISABLE = False, GCONFIG_HOST_GUARD_MODE = mode,
       GCONFIG_HOST_GUARD_FIND_TIME = 10, GCONFIG_HOST_GUARD_MAX_RETRY = 1, GCONFIG_HOST_GUARD_OFFENDER_RESET_DAY = 7,
       GCONFIG_HOST_GUARD_COUNT_SOFT_FAIL = 0, GCONFIG_HOST_GUARD_MAX_BAN_ENTRIES = cap,
       GCONFIG_HOST_GUARD_BAN_RATE_LIMIT = 2, GCONFIG_HOST_GUARD_SUBNET_AGGREGATE = 0,
       GCONFIG_HOST_GUARD_SUBNET_THRESHOLD = 10, GCONFIG_HOST_GUARD_NOTIFY = 1\<rparr>,
     env_white = lan_off, env_exec = auto_config, env_fw = set_firewall True, env_clock = 0, env_minute = (\<lambda>_. ''m''),
     env_locate = (\<lambda>_. []), env_ifaces = [], env_ban_id = ''b9'', env_offender_id = ''o9'', env_db_nil = False,
     env_logdb_nil = False, env_mgr_nil = False, env_sink_nil = False, env_queue_nil = False,
     env_err_ladders = False, env_err_victims = False, env_err_create = None, env_err_offender = False\<rparr>"

definition demo_ban :: HostGuardBan where
  "demo_ban = \<lparr>ban_Id = ''b1'', ban_IP = ''5.6.7.8'', ban_Source = ''ssh'', ban_Level = 1, ban_BanMinutes = 5,
     ban_StartTime = 0, ban_ExpireTime = 300, ban_Reason = [], ban_Status = HostBanStatusActive, ban_ExecMode = ''ipset'',
     ban_IsSubnet = 0, ban_HitCount = 8, ban_Location = [], ban_Remarks = []\<rparr>"

definition demo_state :: "string set hg_state" where
  "demo_state = \<lparr>st_cache = Some InitWafCache,
     st_exec = (GetBanExecutor {''5.6.7.8''})\<lparr>ex_current := [''5.6.7.8'']\<rparr>, st_bans = [demo_ban], st_offenders = [],
     st_ladders = [], st_ladderCache = Some DefaultBanLadders, st_ladderLoadAt = 0,
     st_white = \<lparr>whitelistCur = Some no_match_snapshot, localAddrCache = None, localAddrLoadAt = 0\<rparr>,
     st_buf = [], st_flushTimer = None, st_eventLog = [], st_messages = []\<rparr>"

definition demo_event :: "string \<Rightarrow> LoginFailEvent" where
  "demo_event ip = \<lparr>ev_Source = ''ssh'', ev_IP = ip, ev_Port = 22, ev_User = [], ev_Kind = FailPassword,
     ev_LogonType = [], ev_Raw = [], ev_At = None\<rparr>"

lemma demo_ip: "ParseIP ''9.9.9.9'' = Some (v4InV6Prefix @ [9, 9, 9, 9])"
  by (simp add: ParseIP_def ParseAddr_def parseIPv4_def is_digit_def)

lemma demo_white:
  assumes "ParseIP ip = Some b" "c (CACHE_HOST_GUARD_ADMIN_PRE @ ip) = None"
  shows "white_check (demo_env mode cap) ip (demo_state\<lparr>st_cache := Some c\<rparr>) = (None, demo_state\<lparr>st_cache := Some c\<rparr>)"
  using assms
  by (simp add: white_check_def IsWhitelisted_def getWhitelist_def demo_state_def demo_env_def no_match_snapshot_def
      whitelistTTL_def ms_Contains_new isActiveAdminIP_def IsKeyExist_def)

lemma demo_state_cache: "demo_state = demo_state\<lparr>st_cache := Some InitWafCache\<rparr>"
  by (simp add: demo_state_def)

lemma demo_record:
  "\<exists>c. mgr_record (demo_env mode cap) (demo_event ''9.9.9.9'') demo_state = (1, demo_state\<lparr>st_cache := Some c\<rparr>) \<and>
     (\<forall>k. k \<noteq> hostLoginKey ''ssh'' ''9.9.9.9'' \<longrightarrow> c k = None)"
  by (simp add: mgr_record_def demo_env_def demo_event_def demo_state_def hl_Record_def hl_window_def hl_retention_def
      loadHostLogin_def wc_Get_def InitWafCache_def SetWithTTlRenewTime_def Let_def)

lemma demo_gate:
  assumes "\<forall>k. k \<noteq> hostLoginKey ''ssh'' ''9.9.9.9'' \<longrightarrow> c k = None"
  shows "\<exists>c'. ban_gate (demo_env mode 100) (event_request (demo_event ''9.9.9.9'') 1) (demo_state\<lparr>st_cache := Some c\<rparr>) =
      (NotSkipped, demo_state\<lparr>st_cache := Some c'\<rparr>)"
proof -
  have k: "c (CACHE_HOST_GUARD_ADMIN_PRE @ ''9.9.9.9'') = None" "c (CACHE_HOST_GUARD_RATE @ '':m'') = None"
    using assms by (simp_all add: CACHE_HOST_GUARD_ADMIN_PRE_def CACHE_HOST_GUARD_RATE_def hostLoginKey_def CACHE_HOST_LOGIN_FAIL_PRE_def)
  have w: "white_check (demo_env mode 100) ''9.9.9.9'' (demo_state\<lparr>st_cache := Some c\<rparr>) = (None, demo_state\<lparr>st_cache := Some c\<rparr>)"
    by (rule demo_white [where c = c, OF demo_ip k(1)])
  have "\<exists>c'. allowBanRate (demo_env mode 100) (demo_state\<lparr>st_cache := Some c\<rparr>) = (True, demo_state\<lparr>st_cache := Some c'\<rparr>)"
    using k(2) by (auto simp: allowBanRate_def GetInt_def wc_Get_def demo_env_def Let_def)
  moreover have "ensureCapacity (demo_env mode 100) (demo_state\<lparr>st_cache := Some c'\<rparr>) = (True, demo_state\<lparr>st_cache := Some c'\<rparr>)" for c'
    by (simp add: ensureCapacity_def demo_env_def demo_state_def ex_Count_def)
  moreover have "\<not> ex_Contains (st_exec (demo_state\<lparr>st_cache := Some c\<rparr>)) ''9.9.9.9''"
    by (simp add: demo_state_def ex_Contains_def)
  moreover have "\<not> GCONFIG_HOST_GUARD_FORCE_DISABLE (env_cfg (demo_env mode 100))" by (simp add: demo_env_def)
  ultimately show ?thesis by (auto simp: ban_gate_def w event_request_def demo_event_def)
qed

lemma demo_commit:
  "res_Banned (fst (commit_ban (demo_env ''block'' 100) req p now res s))"
  by (simp add: commit_ban_def demo_env_def exec_apply_def ex_Apply_def applyIncremental_def applyByRules_def set_firewall_def
      auto_config_def useRuleMode_def useIncremental_def Let_def split: prod.splits)

lemma demo_banned: "res_Banned (fst (Decide (demo_env ''block'' 100) (demo_event ''9.9.9.9'') demo_state))"
proof -
  let ?env = "demo_env ''block'' 100" and ?ev = "demo_event ''9.9.9.9''"
  obtain c where r: "mgr_record ?env ?ev demo_state = (1, demo_state\<lparr>st_cache := Some c\<rparr>)"
      and c: "\<forall>k. k \<noteq> hostLoginKey ''ssh'' ''9.9.9.9'' \<longrightarrow> c k = None" using demo_record by blast
  obtain c' where g: "ban_gate ?env (event_request ?ev 1) (demo_state\<lparr>st_cache := Some c\<rparr>) =
      (NotSkipped, demo_state\<lparr>st_cache := Some c'\<rparr>)" using demo_gate [OF c] by blast
  obtain p s2 where p: "plan_ban ?env (event_request ?ev 1) 0 (demo_state\<lparr>st_cache := Some c'\<rparr>) = (p, s2)" by fastforce
  have "ApplyBan ?env (event_request ?ev 1) 0 (demo_state\<lparr>st_cache := Some c\<rparr>) =
      commit_ban ?env (event_request ?ev 1) p 0 (plan_result (event_request ?ev 1) p) s2"
    by (simp add: ApplyBan_def g p Let_def) (simp add: demo_env_def)
  then have a: "res_Banned (fst (ApplyBan ?env (event_request ?ev 1) 0 (demo_state\<lparr>st_cache := Some c\<rparr>)))"
    by (simp add: demo_commit)
  have w: "white_check ?env (ev_IP ?ev) demo_state = (None, demo_state)"
    using demo_white [OF demo_ip, of InitWafCache "''block''" 100] demo_state_cache
    by (simp add: demo_event_def InitWafCache_def)
  have cfg: "\<not> GCONFIG_HOST_GUARD_FORCE_DISABLE (env_cfg ?env)" "max_retry (env_cfg ?env) = 1" "env_clock ?env = 0"
      "IsHard (ev_Kind ?ev)" "ev_At ?ev = None"
    by (simp_all add: demo_env_def demo_event_def max_retry_def)
  obtain res s3 where ap: "ApplyBan ?env (event_request ?ev 1) 0 (demo_state\<lparr>st_cache := Some c\<rparr>) = (res, s3)" by fastforce
  with a have "res_Banned res" by simp
  then show ?thesis by (simp add: Decide_def w r cfg Let_def ap)
qed

subsection \<open>Properties\<close>

text \<open>
  C17. An exempt address is never touched: whatever the event and the configuration, if the whitelist
  exempts its address then handling the event bans nobody, changes neither the firewall nor the ledger nor the
  offender files, sends no notification and counts nothing.
\<close>

theorem Decide_exempt:
  assumes "Decide env ev s = (res, s')" "fst (white_check env (ev_IP ev) s) \<noteq> None"
  shows "\<not> res_Banned res \<and> st_exec s' = st_exec s \<and> st_bans s' = st_bans s \<and> st_offenders s' = st_offenders s \<and>
    st_messages s' = st_messages s \<and>
    (\<forall>c t source ip w. st_cache s = Some c \<longrightarrow> env_clock env \<le> t \<longrightarrow>
       (\<exists>c'. st_cache s' = Some c' \<and> hl_GetCount t c' source ip w = hl_GetCount t c source ip w))"
  using assms(1)
proof (cases rule: Decide_cases)
  case (quiet r s1 row)
  have "st_cache s' = st_cache s1" by (simp add: quiet(4) RecordEvent_frame)
  moreover have "\<exists>c'. st_cache s1 = Some c' \<and> hl_GetCount t c' source ip w = hl_GetCount t c source ip w"
    if "st_cache s = Some c" "env_clock env \<le> t" for c t source ip w
    using white_check_cache [OF quiet(1) that(2,1), of "hostLoginKey source ip"] hl_GetCount_cong by blast
  ultimately show ?thesis
    using quiet white_check_frame [OF quiet(1)] by (simp add: RecordEvent_frame)
qed (use assms(2) in auto)

theorem Decide_exempt_witness:
  "\<not> res_Banned (fst (Decide (demo_env ''block'' 100) (demo_event ''not-an-ip'') demo_state))"
proof -
  have "ParseIP ''not-an-ip'' = None" by (simp add: ParseIP_def ParseAddr_def)
  then have "fst (white_check (demo_env ''block'' 100) (ev_IP (demo_event ''not-an-ip'')) demo_state) \<noteq> None"
    by (simp add: white_check_def IsWhitelisted_def demo_event_def)
  then show ?thesis
    using Decide_exempt [of "demo_env ''block'' 100" "demo_event ''not-an-ip''" demo_state] by (metis prod.collapse)
qed

text \<open>
  C18. No ban without cause: an event that leads to a ban comes from an address that is not exempt, is of a
  kind that counts, and is at least the configured number-th failure of that source and address inside the
  window; and afterwards the counter of that source and address is empty, so that the failures before the ban
  cannot ban the address again when it is released.
\<close>

theorem Decide_ban_justified:
  assumes "Decide env ev s = (res, s')" "res_Banned res" "st_cache s = Some c"
  shows "fst (white_check env (ev_IP ev) s) = None \<and>
    (IsHard (ev_Kind ev) \<or> GCONFIG_HOST_GUARD_COUNT_SOFT_FAIL (env_cfg env) = 1) \<and>
    max_retry (env_cfg env) \<le>
      hl_GetCount (env_clock env) c (ev_Source ev) (ev_IP ev) (guard_window (env_cfg env)) + 1 \<and>
    (\<forall>c' t w. st_cache s' = Some c' \<longrightarrow> hl_GetCount t c' (ev_Source ev) (ev_IP ev) w = 0)"
  using assms(1)
proof (cases rule: Decide_cases)
  case (tried s1 n s2 now s3 row)
  have ip: "ev_IP ev \<noteq> []" by (rule white_check_None [OF tried(1)])
  have "0 < n" using tried(3) max_retry_pos [of "env_cfg env"] by linarith
  then obtain c1 where c1: "st_cache s1 = Some c1" "\<not> env_mgr_nil env"
      "n = hl_GetCount (env_clock env) c1 (ev_Source ev) (ev_IP ev) (guard_window (env_cfg env)) + 1"
    using mgr_record_count [OF tried(2) _ ip] by blast
  have "n = hl_GetCount (env_clock env) c (ev_Source ev) (ev_IP ev) (guard_window (env_cfg env)) + 1"
  proof -
    have "visible (env_clock env) c1 (hostLoginKey (ev_Source ev) (ev_IP ev)) =
        visible (env_clock env) c (hostLoginKey (ev_Source ev) (ev_IP ev))"
      using white_check_cache [OF tried(1) order_refl assms(3), of "hostLoginKey (ev_Source ev) (ev_IP ev)"] c1(1) by auto
    from hl_GetCount_cong [OF this] c1(3) show ?thesis by simp
  qed
  moreover have "hl_GetCount t c' (ev_Source ev) (ev_IP ev) w = 0" if ca: "st_cache s' = Some c'" for c' t w
  proof -
    have "st_cache s' = st_cache (mgr_clear env ev s3)" using tried(6) assms(2) by (simp add: RecordEvent_frame Let_def)
    then obtain c3 where "c' = hl_Clear c3 (ev_Source ev) (ev_IP ev)"
      using ca c1(2) by (cases "st_cache s3") (auto simp: mgr_clear_def)
    then show ?thesis using ip by (simp add: hl_Clear_def hl_GetCount_def load_visible visible_remove)
  qed
  ultimately show ?thesis using tried by simp
qed (use assms(2) in auto)

theorem Decide_ban_justified_witness:
  "res_Banned (fst (Decide (demo_env ''block'' 100) (demo_event ''9.9.9.9'') demo_state)) \<and>
   1 \<le> hl_GetCount 0 InitWafCache ''ssh'' ''9.9.9.9'' 10 + 1"
proof -
  have "st_cache demo_state = Some InitWafCache" by (simp add: demo_state_def)
  from Decide_ban_justified [OF prod.collapse [symmetric] demo_banned this]
  show ?thesis using demo_banned by (simp add: demo_event_def demo_env_def max_retry_def guard_window_def)
qed

text \<open>
  Observation mode. With a mode other than block, handling an event bans no address, writes no
  row to the ledger, changes no offender file and sends no notification; and while the ban set has
  room, neither the firewall, its mirror nor the ledger change at all.
\<close>

theorem Decide_observe_mode:
  assumes "Decide env ev s = (res, s')" "GCONFIG_HOST_GUARD_MODE (env_cfg env) \<noteq> ''block''"
  shows "\<not> res_Banned res \<and> st_offenders s' = st_offenders s \<and> st_messages s' = st_messages s \<and>
    length (st_bans s') = length (st_bans s) \<and> (\<forall>ip. ex_Contains (st_exec s') ip \<longrightarrow> ex_Contains (st_exec s) ip) \<and>
    (GCONFIG_HOST_GUARD_MAX_BAN_ENTRIES (env_cfg env) \<le> 0 \<or>
       ex_Count (st_exec s) < GCONFIG_HOST_GUARD_MAX_BAN_ENTRIES (env_cfg env) \<longrightarrow>
     st_exec s' = st_exec s \<and> st_bans s' = st_bans s)"
  using assms(1)
proof (cases rule: Decide_cases)
  case (quiet r s1 row)
  with white_check_frame [OF quiet(1)] show ?thesis by (simp add: RecordEvent_frame)
next
  case (counted s1 n s2 row)
  with white_check_frame [OF counted(1)] mgr_frame(1) [OF counted(2)] show ?thesis by (simp add: RecordEvent_frame)
next
  case (tried s1 n s2 now s3 row)
  have pre: "st_exec s2 = st_exec s" "st_bans s2 = st_bans s" "st_offenders s2 = st_offenders s" "st_messages s2 = st_messages s"
    using white_check_frame [OF tried(1)] mgr_frame(1) [OF tried(2)] by auto
  from tried(5) have post: "\<not> res_Banned res \<and> st_offenders s3 = st_offenders s \<and> st_messages s3 = st_messages s \<and>
      length (st_bans s3) = length (st_bans s) \<and> (\<forall>ip. ex_Contains (st_exec s3) ip \<longrightarrow> ex_Contains (st_exec s) ip) \<and>
      (GCONFIG_HOST_GUARD_MAX_BAN_ENTRIES (env_cfg env) \<le> 0 \<or>
         ex_Count (st_exec s) < GCONFIG_HOST_GUARD_MAX_BAN_ENTRIES (env_cfg env) \<longrightarrow>
       st_exec s3 = st_exec s \<and> st_bans s3 = st_bans s)"
  proof (cases rule: ApplyBan_cases)
    case (skipped why)
    then show ?thesis using ban_gate_frame [OF skipped(1)] pre by (simp add: new_result_def)
  next
    case (observed s4 p)
    then show ?thesis using ban_gate_frame [OF observed(1)] plan_ban_frame [OF observed(2)] pre by simp
  next
    case (committed s4 p s5)
    then show ?thesis using assms(2) by (simp add: event_request_def)
  qed
  then show ?thesis using tried(6) by (simp add: RecordEvent_frame Let_def)
qed simp

theorem Decide_observe_mode_witness:
  "\<not> res_Banned (fst (Decide (demo_env ''observe'' 100) (demo_event ''9.9.9.9'') demo_state))"
  using Decide_observe_mode [OF prod.collapse [symmetric], of "demo_env ''observe'' 100" "demo_event ''9.9.9.9''" demo_state]
  by (simp add: demo_env_def)

text \<open>
  Observation mode at full capacity releases bans. When the ban set has reached its capacity, a
  request that is only observed has nevertheless made room first: an active ban of the ledger is no
  longer in the mirror, and nothing took its place.
\<close>

theorem observe_mode_evicts:
  assumes "ApplyBan env req now s = (res, s')" "res_Observed res"
    "0 < GCONFIG_HOST_GUARD_MAX_BAN_ENTRIES (env_cfg env)"
    "GCONFIG_HOST_GUARD_MAX_BAN_ENTRIES (env_cfg env) \<le> ex_Count (st_exec s)"
  shows "\<exists>b \<in> set (st_bans s). active_ban b \<and> \<not> ex_Contains (st_exec s') (ban_IP b)"
  using assms(1)
proof (cases rule: ApplyBan_cases)
  case (skipped why)
  then show ?thesis using assms(2) by (simp add: new_result_def)
next
  case (observed s1 p)
  obtain r s2 where w: "white_check env (rq_IP req) s = (r, s2)" by fastforce
  obtain ok s3 where a: "allowBanRate env s2 = (ok, s3)" by fastforce
  obtain room s4 where c: "ensureCapacity env s3 = (room, s4)" by fastforce
  have g: "s1 = s4" "room"
    using observed(1,3) by (auto simp: ban_gate_def w a c Let_def split: option.split_asm if_split_asm)
  have pre: "st_exec s3 = st_exec s" "st_bans s3 = st_bans s"
    using white_check_frame [OF w] allowBanRate_frame [OF a] by auto
  obtain err s5 where e: "exec_apply env [] (map ban_IP (victims (st_bans s))) s3 = (err, s5)" by fastforce
  have "victims (st_bans s) \<noteq> []" "st_exec s4 = st_exec s5"
    using c g(2) assms(3,4) by (auto simp: ensureCapacity_def Let_def pre e split: if_split_asm)
  moreover obtain b where b: "b \<in> set (victims (st_bans s))" using calculation(1) by (meson last_in_set)
  ultimately have "\<not> ex_Contains (st_exec s1) (ban_IP b)" using exec_apply_frame [OF e] g(1) by auto
  moreover have "b \<in> set (st_bans s)" "active_ban b" using b by (auto simp: victims_def dest!: in_set_takeD)
  ultimately show ?thesis using plan_ban_frame [OF observed(2)] by metis
next
  case (committed s1 p s2)
  then have "\<not> res_Observed res"
    by (auto simp: commit_ban_def plan_result_def new_result_def Let_def split: if_split_asm prod.split_asm option.split_asm)
  with assms(2) show ?thesis by simp
qed

theorem observe_mode_evicts_witness:
  "\<exists>res s'. ApplyBan (demo_env ''observe'' 1) (event_request (demo_event ''9.9.9.9'') 1) 0 demo_state = (res, s') \<and>
     res_Observed res \<and> (\<exists>b \<in> set (st_bans demo_state). active_ban b \<and> \<not> ex_Contains (st_exec s') (ban_IP b))"
proof -
  let ?env = "demo_env ''observe'' 1" and ?req = "event_request (demo_event ''9.9.9.9'') 1"
  obtain res s' where ap: "ApplyBan ?env ?req 0 demo_state = (res, s')" by fastforce
  have cap: "0 < GCONFIG_HOST_GUARD_MAX_BAN_ENTRIES (env_cfg ?env)"
    "GCONFIG_HOST_GUARD_MAX_BAN_ENTRIES (env_cfg ?env) \<le> ex_Count (st_exec demo_state)"
    by (simp_all add: demo_env_def demo_state_def ex_Count_def)
  have w: "white_check ?env ''9.9.9.9'' demo_state = (None, demo_state)"
    using demo_white [OF demo_ip, of InitWafCache "''observe''" 1] demo_state_cache by (simp add: InitWafCache_def)
  obtain s1 where a: "allowBanRate ?env demo_state = (True, s1)" "st_exec s1 = st_exec demo_state" "st_bans s1 = st_bans demo_state"
    by (simp add: allowBanRate_def GetInt_def wc_Get_def demo_env_def demo_state_def InitWafCache_def Let_def)
  have v: "victims (st_bans s1) = [demo_ban]"
    by (simp add: a(3) victims_def demo_state_def demo_ban_def active_ban_def evictBatch_def)
  obtain err s2 where e: "exec_apply ?env [] [''5.6.7.8''] s1 = (err, s2)" by fastforce
  have flags: "\<not> env_db_nil ?env" "\<not> env_err_victims ?env" by (simp_all add: demo_env_def)
  have ips: "map ban_IP [demo_ban] = [''5.6.7.8'']" by (simp add: demo_ban_def)
  have "\<exists>s3. ensureCapacity ?env s1 = (True, s3)"
    using cap unfolding ensureCapacity_def Let_def a(2) v ips e by (simp add: flags)
  moreover have "\<not> ex_Contains (st_exec demo_state) ''9.9.9.9''" "\<not> GCONFIG_HOST_GUARD_FORCE_DISABLE (env_cfg ?env)"
    by (simp_all add: demo_state_def ex_Contains_def demo_env_def)
  ultimately obtain s3 where "ban_gate ?env ?req demo_state = (NotSkipped, s3)"
    by (auto simp: ban_gate_def event_request_def demo_event_def w a(1))
  moreover have "GCONFIG_HOST_GUARD_MODE (env_cfg ?env) \<noteq> ''block''" "\<not> rq_Manual ?req"
    by (simp_all add: demo_env_def event_request_def)
  ultimately have "res_Observed res" by (rule_tac ApplyBan_cases [OF ap]) auto
  from observe_mode_evicts [OF ap this cap] ap this show ?thesis by blast
qed

text \<open>
  A ban the firewall refused cannot be retried. When the firewall rejects a ban, its row of the ledger is
  marked released, so that no active row of that ban remains; but the address stays in the mirror,
  and every later request for it, by an event or by the administrator, is skipped as already banned.
\<close>

theorem failed_ban_blocks_retry:
  assumes "ApplyBan env req now s = (res, s')" "res_Skipped res = SkipFirewallFailed err"
    "rq_Manual req' \<or> fst (white_check env' (rq_IP req') s') = None" "\<not> GCONFIG_HOST_GUARD_FORCE_DISABLE (env_cfg env')"
    "rq_IP req' = res_TargetIP res"
  shows "(\<forall>b \<in> set (st_bans s'). ban_Id b = env_ban_id env \<longrightarrow> env_db_nil env \<or> \<not> active_ban b) \<and>
    res_Skipped (fst (ApplyBan env' req' now' s')) = SkipAlreadyBanned"
  using assms(1)
proof (cases rule: ApplyBan_cases)
  case (skipped why)
  then have "why = SkipFirewallFailed err" using assms(2) by simp
  moreover have "fst (ban_gate env req s) \<noteq> SkipFirewallFailed err"
    by (auto simp: ban_gate_def Let_def split: prod.splits option.splits)
  ultimately show ?thesis using skipped(1) by simp
next
  case (observed s1 p)
  then show ?thesis using assms(1,2)
    by (auto simp: ApplyBan_def plan_result_def new_result_def Let_def split: if_split_asm)
next
  case (committed s1 p s2)
  define s3 where "s3 = (if env_db_nil env then s2 else s2\<lparr>st_bans := st_bans s2 @ [ban_row env req p now]\<rparr>)"
  obtain er s4 where e: "exec_apply env [pl_Target p] [] s3 = (er, s4)" by fastforce
  have r: "res_TargetIP res = pl_Target p" "er = Some err" "s' = (if env_db_nil env then s4
      else s4\<lparr>st_bans := update_ids [env_ban_id env]
         (\<lambda>b. b\<lparr>ban_Status := HostBanStatusReleased, ban_Remarks := txt_remark_fw @ err\<rparr>) (st_bans s4)\<rparr>)"
    using committed(4) assms(2) unfolding commit_ban_def Let_def s3_def [symmetric] e
    by (auto simp: plan_result_def new_result_def split: if_split_asm option.split_asm)
  have c: "ex_Contains (st_exec s') (rq_IP req')" using exec_apply_frame [OF e] r assms(5) by simp
  obtain w s5 where ws: "white_check env' (rq_IP req') s' = (w, s5)" by fastforce
  have "\<exists>s6. ban_gate env' req' s' = (SkipAlreadyBanned, s6)"
    using assms(3,4) c white_check_frame [OF ws] by (auto simp: ban_gate_def ws Let_def)
  then have "res_Skipped (fst (ApplyBan env' req' now' s')) = SkipAlreadyBanned"
    by (auto simp: ApplyBan_def)
  moreover have "\<forall>b \<in> set (st_bans s'). ban_Id b = env_ban_id env \<longrightarrow> env_db_nil env \<or> \<not> active_ban b"
    using r(3) by (auto simp: update_ids_def active_ban_def HostBanStatusActive_def HostBanStatusReleased_def)
  ultimately show ?thesis by blast
qed

definition broken_env :: "string set hg_env" where
  "broken_env = (demo_env ''block'' 100)\<lparr>env_fw := (set_firewall True)\<lparr>AddToIPSet := \<lambda>n ips f. (Some ''e'', f)\<rparr>\<rparr>"

definition manual_request :: BanRequest where
  "manual_request = \<lparr>rq_IP = ''9.9.9.9'', rq_Source = ''ssh'', rq_HitCount = 0, rq_FailKinds = [], rq_Manual = True,
     rq_ManualMin = 0, rq_Reason = ''x''\<rparr>"

theorem failed_ban_blocks_retry_witness:
  "res_Skipped (fst (ApplyBan (demo_env ''block'' 100) manual_request 1
     (snd (ApplyBan broken_env manual_request 0 demo_state)))) = SkipAlreadyBanned"
proof -
  obtain res s' where ap: "ApplyBan broken_env manual_request 0 demo_state = (res, s')" by fastforce
  have g: "ban_gate broken_env manual_request demo_state = (NotSkipped, demo_state)"
    by (simp add: ban_gate_def manual_request_def broken_env_def demo_env_def demo_state_def ex_Contains_def)
  obtain p where p: "plan_ban broken_env manual_request 0 demo_state = (p, demo_state)" "pl_Target p = ''9.9.9.9''"
    by (simp add: plan_ban_def manual_request_def Let_def)
  have ex: "exec_apply broken_env [''9.9.9.9''] [] s = (Some ''e'', s\<lparr>st_exec := snd (ex_Apply (env_exec broken_env)
      (env_fw broken_env) 0 [''9.9.9.9''] [] (st_exec s))\<rparr>)" if "st_exec s = st_exec demo_state" for s
    using that by (simp add: exec_apply_def ex_Apply_def broken_env_def demo_env_def demo_state_def auto_config_def
        set_firewall_def useRuleMode_def useIncremental_def applyIncremental_def GetBanExecutor_def Let_def)
  have flags: "\<not> env_db_nil broken_env" "env_err_create broken_env = None" "rq_Manual manual_request"
    by (simp_all add: broken_env_def demo_env_def manual_request_def)
  have r: "res_Skipped res = SkipFirewallFailed ''e''" "res_TargetIP res = ''9.9.9.9''"
    using ap by (auto simp: ApplyBan_def g p commit_ban_def ex flags plan_result_def new_result_def Let_def)
  have "rq_Manual manual_request \<or> fst (white_check (demo_env ''block'' 100) (rq_IP manual_request) s') = None"
    "\<not> GCONFIG_HOST_GUARD_FORCE_DISABLE (env_cfg (demo_env ''block'' 100))" "rq_IP manual_request = res_TargetIP res"
    using r(2) by (simp_all add: manual_request_def demo_env_def)
  from failed_ban_blocks_retry [OF ap r(1) this, of 1] ap show ?thesis by simp
qed

text \<open>
  Every rung is reached and none is skipped. The ladder in use is never empty, so the choice cannot
  fail; the first ban and a ban after the memory period take the first rung, the ban after \<open>k\<close> bans
  takes rung \<open>k + 1\<close>, and beyond the last rung the last one is kept.
\<close>

theorem DecideLadder_rung:
  assumes "st_ladderCache s \<noteq> Some []"
  shows "\<exists>ladders. ladders \<noteq> [] \<and> fst (loadLadders env s) = ladders \<and>
    (let d = fst (DecideLadder env off now s);
         k = (case off of None \<Rightarrow> 0 | Some o' \<Rightarrow> if ladder_reset (env_cfg env) o' now then 0 else nat (of_BanCount o'))
     in dec_BanCount d = int k + 1 \<and>
        dec_Level d = ld_Level (ladders ! min k (length ladders - 1)) \<and>
        dec_BanMinutes d = ld_BanMinutes (ladders ! min k (length ladders - 1)))"
proof -
  obtain ladders s' where l: "loadLadders env s = (ladders, s')" by fastforce
  have "DefaultBanLadders \<noteq> []" by (simp add: DefaultBanLadders_def)
  then have "readLadders env s \<noteq> []"
    by (auto simp: readLadders_def Let_def) (metis length_0_conv length_sort)+
  with l assms have ne: "ladders \<noteq> []"
    by (auto simp: loadLadders_def Let_def split: option.split_asm if_split_asm)
  have last: "nat (int (length ladders) - 1) = length ladders - Suc 0" using ne by (cases ladders) auto
  show ?thesis
    using ne by (auto simp: DecideLadder_def l last min_def Let_def split: option.split)
qed

theorem DecideLadder_rung_witness:
  "dec_BanMinutes (fst (DecideLadder (demo_env ''block'' 1) (Some \<lparr>of_Id = [], of_IP = [], of_Source = [], of_BanCount = 3,
      of_CurrentLevel = 3, of_FirstBanTime = 0, of_LastBanTime = 0, of_TotalFailCount = 0, of_LastReason = [],
      of_Location = []\<rparr>) 0 demo_state)) = 1440"
proof -
  have "st_ladderCache demo_state \<noteq> Some []" by (simp add: demo_state_def DefaultBanLadders_def)
  from DecideLadder_rung [OF this, of "demo_env ''block'' 1" "Some \<lparr>of_Id = [], of_IP = [], of_Source = [], of_BanCount = 3,
      of_CurrentLevel = 3, of_FirstBanTime = 0, of_LastBanTime = 0, of_TotalFailCount = 0, of_LastReason = [],
      of_Location = []\<rparr>" 0]
  show ?thesis
    by (simp add: Let_def ladder_reset_def demo_env_def demo_state_def loadLadders_def ladderCacheTTL_def
        DefaultBanLadders_def ladder_def min_def numeral_3_eq_3)
qed

text \<open>
  Making room spares what matters. Rows that the capacity check changes were active bans with an
  end, at most sixteen, and none of them ends later than an active ban with an end that it keeps;
  permanent bans stay as they are, in the ledger and, unless their address also has such a row, in the mirror.
\<close>

theorem ensureCapacity_spares:
  assumes "ensureCapacity env s = (ok, s')" "distinct (map ban_Id (st_bans s))"
  shows "\<exists>vs. length vs \<le> 16 \<and> set vs \<subseteq> set (st_bans s) \<and>
    (\<forall>b \<in> set vs. active_ban b \<and> 0 < ban_ExpireTime b \<and>
       (\<forall>k \<in> set (st_bans s) - set vs. active_ban k \<longrightarrow> 0 < ban_ExpireTime k \<longrightarrow> ban_ExpireTime b \<le> ban_ExpireTime k)) \<and>
    (\<forall>k \<in> set (st_bans s) - set vs. k \<in> set (st_bans s') \<and>
       (ban_IP k \<notin> ban_IP ` set vs \<longrightarrow> ex_Contains (st_exec s') (ban_IP k) = ex_Contains (st_exec s) (ban_IP k)))"
proof (cases "s' = s")
  case True
  then show ?thesis by (intro exI [of _ "[]"]) simp
next
  case False
  let ?tmp = "filter (\<lambda>b. active_ban b \<and> 0 < ban_ExpireTime b) (st_bans s)" and ?vs = "victims (st_bans s)"
  obtain err s1 where e: "exec_apply env [] (map ban_IP ?vs) s = (err, s1)" by fastforce
  have s': "s' = s1\<lparr>st_bans := update_ids (map ban_Id ?vs)
      (\<lambda>b. b\<lparr>ban_Status := HostBanStatusReleased, ban_Remarks := txt_remark_evict\<rparr>) (st_bans s1)\<rparr>"
    using assms(1) False by (auto simp: ensureCapacity_def Let_def e split: if_split_asm)
  have split: "sort_key ban_ExpireTime ?tmp = ?vs @ drop evictBatch (sort_key ban_ExpireTime ?tmp)"
    by (simp add: victims_def)
  have sub: "set ?vs \<subseteq> set ?tmp" by (auto simp: victims_def dest: in_set_takeD)
  have short: "ban_ExpireTime b \<le> ban_ExpireTime k" if "b \<in> set ?vs" "k \<in> set ?tmp - set ?vs" for b k
  proof -
    have "sorted (map ban_ExpireTime (?vs @ drop evictBatch (sort_key ban_ExpireTime ?tmp)))"
      unfolding split [symmetric] by (rule sorted_sort_key)
    moreover have "k \<in> set (drop evictBatch (sort_key ban_ExpireTime ?tmp))"
      using that(2) arg_cong [OF split, of set] by auto
    ultimately show ?thesis using that(1) by (auto simp: sorted_append)
  qed
  have ids: "ban_Id k \<notin> ban_Id ` set ?vs" if "k \<in> set (st_bans s) - set ?vs" for k
    using that sub assms(2) by (auto simp: distinct_map dest: inj_onD)
  have "k \<in> set (st_bans s')" if "k \<in> set (st_bans s) - set ?vs" for k
    using ids [OF that] that exec_apply_frame [OF e] by (auto simp: s' update_ids_def image_iff)
  moreover have "ex_Contains (st_exec s') ip = ex_Contains (st_exec s) ip" if "ip \<notin> ban_IP ` set ?vs" for ip
    using exec_apply_frame [OF e] that by (simp add: s')
  ultimately show ?thesis
    using sub short by (intro exI [of _ ?vs]) (auto simp: victims_def evictBatch_def)
qed

theorem ensureCapacity_spares_witness:
  "\<exists>vs. length vs \<le> 16 \<and> set vs \<subseteq> {demo_ban} \<and> (\<forall>b \<in> set vs. active_ban b)"
proof -
  obtain ok s' where "ensureCapacity (demo_env ''block'' 1) demo_state = (ok, s')" by fastforce
  from ensureCapacity_spares [OF this] show ?thesis by (auto simp: demo_state_def)
qed

text \<open>
  Expiry. When the periodic clean-up succeeds, exactly the active bans whose time has come are
  marked expired and counted, their addresses have left the mirror, and every other row and address is kept.
\<close>

theorem CleanExpiredBans_exact:
  assumes "CleanExpiredBans env findErr updErr s = (Inr n, s')" "distinct (map ban_Id (st_bans s))"
  shows "n = length (expired_bans (Unix (env_clock env)) (st_bans s)) \<and>
    st_bans s' = map (\<lambda>b. if b \<in> set (expired_bans (Unix (env_clock env)) (st_bans s))
       then b\<lparr>ban_Status := HostBanStatusExpired\<rparr> else b) (st_bans s) \<and>
    expired_bans (Unix (env_clock env)) (st_bans s') = [] \<and>
    (\<forall>ip. ex_Contains (st_exec s') ip \<longleftrightarrow>
       ex_Contains (st_exec s) ip \<and> ip \<notin> ban_IP ` set (expired_bans (Unix (env_clock env)) (st_bans s)))"
proof -
  let ?now = "Unix (env_clock env)"
  let ?ex = "expired_bans ?now (st_bans s)"
  let ?upd = "map (\<lambda>b. if b \<in> set ?ex then b\<lparr>ban_Status := HostBanStatusExpired\<rparr> else b) (st_bans s)"
  have fresh: "expired_bans ?now ?upd = []"
    by (auto simp: expired_bans_def filter_empty_conv active_ban_def HostBanStatusExpired_def HostBanStatusActive_def)
  have ids: "ban_Id b \<in> set (map ban_Id ?ex) \<longleftrightarrow> b \<in> set ?ex" if "b \<in> set (st_bans s)" for b
    using that assms(2) by (auto simp: expired_bans_def distinct_map inj_on_def)
  show ?thesis
  proof (cases "?ex = []")
    case True
    then have "s' = s" "n = 0" using assms(1) by (auto simp: CleanExpiredBans_def Let_def split: option.split_asm)
    with True show ?thesis by simp
  next
    case False
    obtain err s1 where e: "exec_apply env [] (map ban_IP ?ex) s = (err, s1)" by fastforce
    have r: "n = length ?ex" "s' = (snd (exec_flush env s1))\<lparr>st_bans := update_ids (map ban_Id ?ex)
        (\<lambda>b. b\<lparr>ban_Status := HostBanStatusExpired\<rparr>) (st_bans (snd (exec_flush env s1)))\<rparr>"
      using assms(1) False by (auto simp: CleanExpiredBans_def Let_def e split: option.split_asm)
    have fl: "st_bans (snd (exec_flush env s1)) = st_bans s1" "ex_current (st_exec (snd (exec_flush env s1))) = ex_current (st_exec s1)"
      by (auto simp: exec_flush_def split: prod.split) (metis FlushPending_current snd_conv)
    have "st_bans s' = ?upd"
      using ids exec_apply_frame [OF e] by (auto simp: r(2) fl update_ids_def)
    moreover have "ex_Contains (st_exec s') ip \<longleftrightarrow> ex_Contains (st_exec s) ip \<and> ip \<notin> ban_IP ` set ?ex" for ip
      using exec_apply_frame [OF e] by (simp add: r(2) ex_Contains_def fl)
    ultimately show ?thesis using r(1) fresh by simp
  qed
qed

definition late_env :: "string set hg_env" where
  "late_env = (demo_env ''block'' 100)\<lparr>env_clock := 300 * second\<rparr>"

theorem CleanExpiredBans_exact_witness:
  "\<exists>s'. CleanExpiredBans late_env None None demo_state = (Inr 1, s') \<and> \<not> ex_Contains (st_exec s') ''5.6.7.8''"
proof -
  have x: "expired_bans (Unix (env_clock late_env)) (st_bans demo_state) = [demo_ban]"
    by (simp add: expired_bans_def late_env_def demo_state_def demo_ban_def active_ban_def Unix_def)
  have "fst (exec_apply late_env [] [''5.6.7.8''] demo_state) = None"
    by (simp add: exec_apply_def ex_Apply_def late_env_def demo_env_def demo_state_def auto_config_def set_firewall_def
        useRuleMode_def useIncremental_def applyIncremental_def GetBanExecutor_def Let_def)
  then obtain s1 where e: "exec_apply late_env [] [''5.6.7.8''] demo_state = (None, s1)" by (metis prod.collapse)
  have ip: "map ban_IP [demo_ban] = [''5.6.7.8'']" by (simp add: demo_ban_def)
  obtain s' where r: "CleanExpiredBans late_env None None demo_state = (Inr 1, s')"
    unfolding CleanExpiredBans_def Let_def x ip e by simp
  have "distinct (map ban_Id (st_bans demo_state))" by (simp add: demo_state_def)
  from CleanExpiredBans_exact [OF r this] r show ?thesis unfolding x by (auto simp: demo_ban_def)
qed

text \<open>
  The limit on new bans per minute admits one more than configured: among the requests of a minute
  whose counter does not exist yet, exactly the first \<open>limit + 1\<close> are admitted (a missing counter reads as -1).
\<close>

theorem allowBanRate_admits:
  assumes "st_cache s = Some c" "0 < GCONFIG_HOST_GUARD_BAN_RATE_LIMIT (env_cfg env)"
    "c (CACHE_HOST_GUARD_RATE @ '':'' @ stamp) = None"
    "\<forall>t \<in> set (t0 # ts). env_minute env t = stamp \<and> t \<le> t0 + 2 * minute"
  shows "rate_run env (t0 # ts) s =
    map (\<lambda>i. int i < GCONFIG_HOST_GUARD_BAN_RATE_LIMIT (env_cfg env) + 1) [0..<length (t0 # ts)]"
proof -
  have "allowBanRate (env\<lparr>env_clock := t0\<rparr>) s =
      (True, s\<lparr>st_cache := Some (c(rate_key stamp \<mapsto> mk_item (CInt 0) t0 (2 * minute)))\<rparr>)"
    using allowBanRate_step [OF assms(1,2), of t0 stamp undefined "-1" t0] assms(2,3,4) by (simp add: rate_key_def)
  moreover have "rate_run env ts (s\<lparr>st_cache := Some (c(rate_key stamp \<mapsto> mk_item (CInt 0) t0 (2 * minute)))\<rparr>) =
      map (\<lambda>i. 0 + int i < GCONFIG_HOST_GUARD_BAN_RATE_LIMIT (env_cfg env)) [0..<length ts]"
    using assms(2,4) by (intro rate_run_from [where c = "c(rate_key stamp \<mapsto> mk_item (CInt 0) t0 (2 * minute))"]) auto
  ultimately show ?thesis using assms(2) unfolding map_range_Cons by (simp, intro ballI, linarith)
qed

theorem allowBanRate_admits_witness:
  "rate_run (demo_env ''block'' 100) [0, 1, 2, 3] demo_state = [True, True, True, False]"
proof -
  have "rate_run (demo_env ''block'' 100) (0 # [1, 2, 3]) demo_state = map (\<lambda>i. int i <
      GCONFIG_HOST_GUARD_BAN_RATE_LIMIT (env_cfg (demo_env ''block'' 100)) + 1) [0..<length (0 # [1, 2, 3::int])]"
    by (rule allowBanRate_admits [where c = InitWafCache and stamp = "''m''"])
       (auto simp: demo_state_def demo_env_def InitWafCache_def)
  then show ?thesis by (simp add: demo_env_def upt_rec)
qed

end
