(* ===== verification/Http_Model.thy ===== *)
theory Http_Model
  imports Go_Net
begin

text \<open>
  What the detection code of package wafenginecore reads of a request and of its log entry: the fields of
  \<open>http.Request\<close> (headers, cookies and query parameters as the lists net/http parses them into), the
  fields of \<open>innerbean.WebLog\<close>, the result of a detection (package model/detection) and
  the choice of the client address by the site's mode (model/hosts.go).
\<close>

subsection \<open>Requests\<close>

record http_request =
  hr_Method :: string
  hr_Host :: string
  hr_Path :: string
  hr_RawQuery :: string
  hr_TLS :: bool
  hr_Header :: "(string \<times> string) list"
  hr_Cookies :: "(string \<times> string) list"
  hr_Query :: "(string \<times> string) list"

text \<open>
  \<open>Header.Values\<close> and \<open>Header.Get\<close> compare names in canonical form, which for the names HTTP allows is
  comparison up to the case of letters. \<open>Request.Cookie\<close> and \<open>url.Values\<close> compare exactly.
\<close>

definition Header_Values :: "http_request \<Rightarrow> string \<Rightarrow> string list" where
  "Header_Values r name = map snd (filter (\<lambda>(n, v). EqualFold n name) (hr_Header r))"

definition Header_Get :: "http_request \<Rightarrow> string \<Rightarrow> string" where
  "Header_Get r name = (case Header_Values r name of [] \<Rightarrow> [] | v # _ \<Rightarrow> v)"

definition Request_Cookie :: "http_request \<Rightarrow> string \<Rightarrow> string option" where
  "Request_Cookie r name = map_option snd (find (\<lambda>(n, v). n = name) (hr_Cookies r))"

definition Query_Values :: "http_request \<Rightarrow> string \<Rightarrow> string list" where
  "Query_Values r name = map snd (filter (\<lambda>(n, v). n = name) (hr_Query r))"

definition Query_Get :: "http_request \<Rightarrow> string \<Rightarrow> string" where
  "Query_Get r name = (case Query_Values r name of [] \<Rightarrow> [] | v # _ \<Rightarrow> v)"

text \<open>\<open>path.Ext\<close>: the last element from its last dot on.\<close>

definition path_Ext :: "string \<Rightarrow> string" where
  "path_Ext p =
     (let t = takeWhile (\<lambda>c. c \<noteq> CHR ''/'') (rev p)
      in if CHR ''.'' \<in> set t then CHR ''.'' # rev (takeWhile (\<lambda>c. c \<noteq> CHR ''.'') t) else [])"

subsection \<open>Log entries\<close>

record WebLog =
  lg_SRC_IP :: string
  lg_NetSrcIp :: string
  lg_URL :: string
  lg_COUNTRY :: string
  lg_PROVINCE :: string
  lg_CITY :: string
  lg_IsBot :: int
  lg_BotVerifyStrong :: int
  lg_CONTENT_LENGTH :: int
  lg_ResHeader :: string
  lg_STATUS_CODE :: int
  lg_RES_CONTENT_LENGTH :: int
  lg_TimeSpent :: int
  lg_BodyFields :: "string list"
  lg_BodyValues :: "string list"
  lg_RISK_LEVEL :: int
  lg_RULE :: string
  lg_GUEST_IDENTIFICATION :: string
  lg_LogOnlyMode :: int
  lg_GeoUnresolved :: bool

subsection \<open>Detection results\<close>

record detection_Result =
  dr_JumpGuardResult :: bool
  dr_IsBlock :: bool
  dr_Title :: string
  dr_Content :: string
  dr_IsLogOnly :: bool
  dr_IsRuleAllow :: bool
  dr_SkipModules :: "string list"

definition no_result :: detection_Result where
  "no_result = \<lparr>dr_JumpGuardResult = False, dr_IsBlock = False, dr_Title = [], dr_Content = [],
     dr_IsLogOnly = False, dr_IsRuleAllow = False, dr_SkipModules = []\<rparr>"

subsection \<open>The client address\<close>

definition GetClientIPByMode :: "string \<Rightarrow> string \<Rightarrow> string \<Rightarrow> string" where
  "GetClientIPByMode ipMode netSrcIp srcIP = (if ipMode = ''proxy'' then srcIP else netSrcIp)"

text \<open>Texts outside ASCII are given by their UTF-8 bytes.\<close>

definition utf8_text :: "nat list \<Rightarrow> string" where
  "utf8_text bs = map char_of bs"

end
