(* ===== verification/Cc_Rule.thy ===== *)
theory Cc_Rule
  imports Http_Model
begin

text \<open>
  The rules of the CC protection: model/anti_cc_condition.go and model/anti_cc_rule.go (the stored rule, its
  conditions and their validation) and package ccrule (compilation into a form that is evaluated per request, the
  scope of what counts and the value a request is counted under).

  Two libraries are arguments: \<open>rx\<close>, the regular expression compiler (\<open>None\<close> is a compile error, a
  compiled expression is its \<open>MatchString\<close>), and \<open>parse\<close>, the syntactic part of encoding/json, from a text to
  a JSON value; the conversion of the value into the Go types is here. A log entry may be nil.
\<close>

subsection \<open>Conditions\<close>

record MatchCondition =
  mc_Field :: string
  mc_Key :: string
  mc_Op :: string
  mc_Value :: "string list"

datatype cc_error =
    BadField string | BadOp string
  | KeyEmpty | KeyTooLong | KeyChars
  | NotNumeric | NeedOneValue | NeedValues int | RegexTooLong
  | NoConditions | TooManyConditions
  | BadJson | BadRegex | BadNumber

record ccFieldSpec =
  NeedKey :: bool
  Numeric :: bool
  RespPhase :: bool
  Multivalue :: bool

definition plain_spec :: ccFieldSpec where
  "plain_spec = \<lparr>NeedKey = False, Numeric = False, RespPhase = False, Multivalue = False\<rparr>"

definition ccFieldSpecs :: "(string \<times> ccFieldSpec) list" where
  "ccFieldSpecs =
    [(''uri'', plain_spec), (''query_str'', plain_spec), (''method'', plain_spec), (''host'', plain_spec),
     (''ext'', plain_spec), (''scheme'', plain_spec), (''user_agent'', plain_spec), (''referer'', plain_spec),
     (''header'', plain_spec\<lparr>NeedKey := True, Multivalue := True\<rparr>),
     (''cookie'', plain_spec\<lparr>NeedKey := True\<rparr>),
     (''query'', plain_spec\<lparr>NeedKey := True, Multivalue := True\<rparr>),
     (''body'', plain_spec\<lparr>NeedKey := True, Multivalue := True\<rparr>),
     (''client_ip'', plain_spec), (''country'', plain_spec), (''province'', plain_spec), (''city'', plain_spec),
     (''is_bot'', plain_spec\<lparr>Numeric := True\<rparr>),
     (''body_length'', plain_spec\<lparr>Numeric := True\<rparr>),
     (''resp_content_type'', plain_spec\<lparr>RespPhase := True\<rparr>),
     (''status_code'', plain_spec\<lparr>Numeric := True, RespPhase := True\<rparr>),
     (''resp_length'', plain_spec\<lparr>Numeric := True, RespPhase := True\<rparr>),
     (''upstream_cost'', plain_spec\<lparr>Numeric := True, RespPhase := True\<rparr>)]"

text \<open>How many values an operator takes; -1 is any number.\<close>

definition ccOpArity :: "(string \<times> int) list" where
  "ccOpArity =
    [(''eq'', 1), (''ne'', 1), (''contains'', 1), (''not_contains'', 1), (''prefix'', 1), (''suffix'', 1),
     (''regex'', 1), (''gt'', 1), (''lt'', 1), (''in'', -1), (''not_in'', -1), (''between'', 2),
     (''exists'', 0), (''not_exists'', 0)]"

definition ccNumericOps :: "string list" where
  "ccNumericOps = [''gt'', ''lt'', ''between'']"

definition field_spec :: "string \<Rightarrow> ccFieldSpec" where
  "field_spec f = (case map_of ccFieldSpecs f of None \<Rightarrow> plain_spec | Some s \<Rightarrow> s)"

definition IsValidCCField :: "string \<Rightarrow> bool" where "IsValidCCField f \<longleftrightarrow> map_of ccFieldSpecs f \<noteq> None"
definition IsValidCCOp :: "string \<Rightarrow> bool" where "IsValidCCOp oper \<longleftrightarrow> map_of ccOpArity oper \<noteq> None"
definition CCFieldNeedsKey :: "string \<Rightarrow> bool" where "CCFieldNeedsKey f = NeedKey (field_spec f)"
definition CCFieldIsResponsePhase :: "string \<Rightarrow> bool" where "CCFieldIsResponsePhase f = RespPhase (field_spec f)"

definition CCOpValueArity :: "string \<Rightarrow> int" where
  "CCOpValueArity oper = (case map_of ccOpArity oper of None \<Rightarrow> 0 | Some n \<Rightarrow> n)"

definition ccFieldKeyMaxLen :: nat where "ccFieldKeyMaxLen = 64"
definition ccRegexMaxLen :: nat where "ccRegexMaxLen = 512"

definition key_char :: "char \<Rightarrow> bool" where
  "key_char ch \<longleftrightarrow>
     97 \<le> char_code ch \<and> char_code ch \<le> 122 \<or> 65 \<le> char_code ch \<and> char_code ch \<le> 90 \<or>
     48 \<le> char_code ch \<and> char_code ch \<le> 57 \<or> ch = CHR ''-'' \<or> ch = CHR ''_''"

definition ValidateCCFieldKey :: "string \<Rightarrow> cc_error option" where
  "ValidateCCFieldKey k =
     (let key = TrimSpace k
      in if key = [] then Some KeyEmpty
         else if ccFieldKeyMaxLen < length key then Some KeyTooLong
         else if list_all key_char key then None else Some KeyChars)"

text \<open>The method updates the condition in place; here the updated condition is the result.\<close>

definition Validate :: "MatchCondition \<Rightarrow> cc_error + MatchCondition" where
  "Validate c =
     (let f = TrimSpace (mc_Field c); oper = TrimSpace (mc_Op c); key = TrimSpace (mc_Key c); vs = mc_Value c
      in case map_of ccFieldSpecs f of
           None \<Rightarrow> Inl (BadField f)
         | Some spec \<Rightarrow>
             if \<not> IsValidCCOp oper then Inl (BadOp oper)
             else
               (case (if NeedKey spec then ValidateCCFieldKey key else None) of
                  Some err \<Rightarrow> Inl err
                | None \<Rightarrow>
                    (let arity = CCOpValueArity oper
                     in if oper \<in> set ccNumericOps \<and> \<not> Numeric spec then Inl NotNumeric
                        else if arity = -1 \<and> vs = [] then Inl NeedOneValue
                        else if 0 < arity \<and> int (length vs) < arity then Inl (NeedValues arity)
                        else
                          (let v = (if arity = 0 then [] else if arity = -1 then vs else take (nat arity) vs)
                           in if oper = ''regex'' \<and> v \<noteq> [] \<and> ccRegexMaxLen < length (hd v) then Inl RegexTooLong
                              else Inr \<lparr>mc_Field = f, mc_Key = (if NeedKey spec then key else []), mc_Op = oper,
                                        mc_Value = v\<rparr>))))"

text \<open>The decimal digits, as the error text of \<open>Validate\<close> shows the arity.\<close>

function itoa_loop :: "int \<Rightarrow> string \<Rightarrow> string" where
  "itoa_loop n digits = (if 0 < n then itoa_loop (n div 10) (char_of (nat (48 + n mod 10)) # digits) else digits)"
  by pat_completeness auto
termination
  by (relation "measure (\<lambda>(n, digits). nat n)") auto

declare itoa_loop.simps [simp del]

definition itoa :: "int \<Rightarrow> string" where
  "itoa n = (if n = 0 then ''0'' else itoa_loop n [])"

fun validate_all :: "MatchCondition list \<Rightarrow> cc_error + MatchCondition list" where
  "validate_all [] = Inr []"
| "validate_all (c # cs) =
     (case Validate c of
        Inl err \<Rightarrow> Inl err
      | Inr c' \<Rightarrow> (case validate_all cs of Inl err \<Rightarrow> Inl err | Inr cs' \<Rightarrow> Inr (c' # cs')))"

definition ValidateCCConditions :: "MatchCondition list \<Rightarrow> cc_error + MatchCondition list" where
  "ValidateCCConditions conds =
     (if conds = [] then Inl NoConditions
      else if 20 < length conds then Inl TooManyConditions else validate_all conds)"

definition CCConditionsNeedResponsePhase :: "MatchCondition list \<Rightarrow> bool" where
  "CCConditionsNeedResponsePhase conds = list_ex (\<lambda>c. CCFieldIsResponsePhase (mc_Field c)) conds"

subsection \<open>Reading conditions from JSON\<close>

datatype json = JNull | JBool bool | JNum string | JStr string | JArr "json list" | JObj "(string \<times> json) list"

text \<open>Decoding into a Go string and into a slice of strings: null leaves the zero value.\<close>

fun json_string :: "string \<Rightarrow> json \<Rightarrow> string option" where
  "json_string old (JStr s) = Some s"
| "json_string old JNull = Some old"
| "json_string old _ = None"

fun json_strings :: "json list \<Rightarrow> string list option" where
  "json_strings [] = Some []"
| "json_strings (j # js) =
     (case json_string [] j of None \<Rightarrow> None | Some s \<Rightarrow> map_option ((#) s) (json_strings js))"

fun CCCondVal_UnmarshalJSON :: "json \<Rightarrow> string list option" where
  "CCCondVal_UnmarshalJSON JNull = Some []"
| "CCCondVal_UnmarshalJSON (JArr js) = json_strings js"
| "CCCondVal_UnmarshalJSON j = map_option (\<lambda>s. [s]) (json_string [] j)"

definition CCCondVal_MarshalJSON :: "string list \<Rightarrow> json" where
  "CCCondVal_MarshalJSON v = JArr (map JStr v)"

text \<open>Members of an object in their order; names match up to case, unknown ones are skipped.\<close>

fun decode_condition :: "MatchCondition \<Rightarrow> (string \<times> json) list \<Rightarrow> MatchCondition option" where
  "decode_condition c [] = Some c"
| "decode_condition c ((name, j) # ms) =
     (if EqualFold name ''field'' then
        (case json_string (mc_Field c) j of None \<Rightarrow> None | Some s \<Rightarrow> decode_condition (c\<lparr>mc_Field := s\<rparr>) ms)
      else if EqualFold name ''key'' then
        (case json_string (mc_Key c) j of None \<Rightarrow> None | Some s \<Rightarrow> decode_condition (c\<lparr>mc_Key := s\<rparr>) ms)
      else if EqualFold name ''op'' then
        (case json_string (mc_Op c) j of None \<Rightarrow> None | Some s \<Rightarrow> decode_condition (c\<lparr>mc_Op := s\<rparr>) ms)
      else if EqualFold name ''value'' then
        (case CCCondVal_UnmarshalJSON j of None \<Rightarrow> None | Some v \<Rightarrow> decode_condition (c\<lparr>mc_Value := v\<rparr>) ms)
      else decode_condition c ms)"

definition empty_condition :: MatchCondition where
  "empty_condition = \<lparr>mc_Field = [], mc_Key = [], mc_Op = [], mc_Value = []\<rparr>"

fun decode_conditions :: "json list \<Rightarrow> MatchCondition list option" where
  "decode_conditions [] = Some []"
| "decode_conditions (JObj ms # js) =
     (case decode_condition empty_condition ms of None \<Rightarrow> None | Some c \<Rightarrow> map_option ((#) c) (decode_conditions js))"
| "decode_conditions (JNull # js) = map_option ((#) empty_condition) (decode_conditions js)"
| "decode_conditions (_ # js) = None"

fun unmarshal_conditions :: "json \<Rightarrow> MatchCondition list option" where
  "unmarshal_conditions JNull = Some []"
| "unmarshal_conditions (JArr js) = decode_conditions js"
| "unmarshal_conditions _ = None"

subsection \<open>Rules\<close>

record AntiCCRule =
  ar_Id :: string
  ar_HostCode :: string
  ar_RuleCode :: string
  ar_RuleName :: string
  ar_Priority :: int
  ar_IsEnable :: int
  ar_MatchMode :: string
  ar_MatchJson :: string
  ar_MatchExpr :: string
  ar_CountPhase :: string
  ar_CountScope :: string
  ar_ExcludeExts :: string
  ar_StatDim :: string
  ar_StatDimField :: string
  ar_Algo :: string
  ar_WindowSec :: int
  ar_Threshold :: int
  ar_Burst :: int
  ar_Action :: string
  ar_ActionSeconds :: int
  ar_BanScope :: string
  ar_StopGlobal :: int
  ar_BotExempt :: int
  ar_Remarks :: string

definition CCDefaultExcludeExts :: "string list" where
  "CCDefaultExcludeExts =
    [''.js'', ''.css'', ''.jpg'', ''.jpeg'', ''.png'', ''.gif'', ''.ico'', ''.svg'', ''.webp'',
     ''.woff'', ''.woff2'', ''.ttf'', ''.otf'', ''.eot'', ''.map'', ''.mp4'', ''.webm'', ''.mp3'', ''.bmp'', ''.avif'']"

definition CCStatDimNeedsField :: "string \<Rightarrow> bool" where
  "CCStatDimNeedsField dim \<longleftrightarrow> dim \<in> set [''header'', ''cookie'', ''query'', ''body'']"

definition CCStatDimForgeable :: "string \<Rightarrow> bool" where
  "CCStatDimForgeable dim \<longleftrightarrow> dim \<in> set [''header'', ''cookie'', ''query'', ''body'', ''session'']"

definition IsValidCCMatchMode :: "string \<Rightarrow> bool" where
  "IsValidCCMatchMode v \<longleftrightarrow> v \<in> set [''all'', ''simple'', ''expr'']"
definition IsValidCCCountPhase :: "string \<Rightarrow> bool" where
  "IsValidCCCountPhase v \<longleftrightarrow> v \<in> set [''request'', ''response'']"
definition IsValidCCCountScope :: "string \<Rightarrow> bool" where
  "IsValidCCCountScope v \<longleftrightarrow> v \<in> set [''all'', ''dynamic'', ''document'', ''origin_only'']"
definition IsValidCCStatDim :: "string \<Rightarrow> bool" where
  "IsValidCCStatDim v \<longleftrightarrow>
     v \<in> set [''ip'', ''ip_uri'', ''session'', ''header'', ''cookie'', ''query'', ''body'', ''host_total'']"
definition IsValidCCAlgo :: "string \<Rightarrow> bool" where
  "IsValidCCAlgo v \<longleftrightarrow> v \<in> set [''window'', ''token_bucket'']"
definition IsValidCCAction :: "string \<Rightarrow> bool" where
  "IsValidCCAction v \<longleftrightarrow> v \<in> set [''observe'', ''deny'', ''captcha'', ''ban'']"

definition ext_sep :: "char \<Rightarrow> bool" where
  "ext_sep c \<longleftrightarrow> c \<in> set '',; '' \<or> char_code c = 10 \<or> char_code c = 13 \<or> char_code c = 9"

definition normal_ext :: "string \<Rightarrow> string" where
  "normal_ext item = (if HasPrefix item ''.'' then item else CHR ''.'' # item)"

definition ExcludeExtList :: "AntiCCRule \<Rightarrow> string list" where
  "ExcludeExtList r =
     (let raw = TrimSpace (ar_ExcludeExts r)
      in if raw = [] then CCDefaultExcludeExts
         else
           (let items = filter (\<lambda>item. item \<noteq> []) (map (\<lambda>item. ToLower (TrimSpace item)) (FieldsFunc ext_sep [] raw));
                out = map normal_ext items
            in if out = [] then CCDefaultExcludeExts else out))"

definition Conditions :: "(string \<Rightarrow> json option) \<Rightarrow> AntiCCRule \<Rightarrow> cc_error + MatchCondition list" where
  "Conditions parse r =
     (if ar_MatchMode r \<noteq> ''simple'' \<or> TrimSpace (ar_MatchJson r) = [] then Inr []
      else
        (case parse (ar_MatchJson r) of
           None \<Rightarrow> Inl BadJson
         | Some j \<Rightarrow> (case unmarshal_conditions j of None \<Rightarrow> Inl BadJson | Some cs \<Rightarrow> Inr cs)))"

subsection \<open>Compiled rules\<close>

record compiledCond =
  cc_field :: string
  cc_key :: string
  cc_op :: string
  cc_values :: "string list"
  cc_lowered :: "string list"
  cc_re :: "(string \<Rightarrow> bool) option"
  cc_num :: "int list"

record CompiledRule =
  cr_Rule :: AntiCCRule
  cr_conds :: "compiledCond list"
  cr_excludeExts :: "string list"
  cr_hasResponseField :: bool

fun parse_nums :: "string list \<Rightarrow> int list option" where
  "parse_nums [] = Some []"
| "parse_nums (v # vs) =
     (case ParseInt (TrimSpace v) of None \<Rightarrow> None | Some n \<Rightarrow> map_option ((#) n) (parse_nums vs))"

definition compile_cond :: "(string \<Rightarrow> (string \<Rightarrow> bool) option) \<Rightarrow> MatchCondition \<Rightarrow> cc_error + compiledCond" where
  "compile_cond rx c0 =
     (case Validate c0 of
        Inl err \<Rightarrow> Inl err
      | Inr c \<Rightarrow>
          (let cc = \<lparr>cc_field = mc_Field c, cc_key = mc_Key c, cc_op = mc_Op c, cc_values = mc_Value c,
                     cc_lowered = map ToLower (mc_Value c), cc_re = None, cc_num = []\<rparr>
           in if mc_Op c = ''regex'' \<and> mc_Value c \<noteq> [] \<and> rx (hd (mc_Value c)) = None then Inl BadRegex
              else
                (let cc' = (if mc_Op c = ''regex'' \<and> mc_Value c \<noteq> [] then cc\<lparr>cc_re := rx (hd (mc_Value c))\<rparr> else cc)
                 in if mc_Op c \<in> set ccNumericOps
                    then (case parse_nums (mc_Value c) of None \<Rightarrow> Inl BadNumber | Some ns \<Rightarrow> Inr (cc'\<lparr>cc_num := ns\<rparr>))
                    else Inr cc')))"

fun compile_conds :: "(string \<Rightarrow> (string \<Rightarrow> bool) option) \<Rightarrow> MatchCondition list \<Rightarrow> cc_error + compiledCond list" where
  "compile_conds rx [] = Inr []"
| "compile_conds rx (c # cs) =
     (case compile_cond rx c of
        Inl err \<Rightarrow> Inl err
      | Inr cc \<Rightarrow> (case compile_conds rx cs of Inl err \<Rightarrow> Inl err | Inr ccs \<Rightarrow> Inr (cc # ccs)))"

definition Compile ::
  "(string \<Rightarrow> json option) \<Rightarrow> (string \<Rightarrow> (string \<Rightarrow> bool) option) \<Rightarrow> AntiCCRule \<Rightarrow> cc_error + CompiledRule" where
  "Compile parse rx rule =
     (case Conditions parse rule of
        Inl err \<Rightarrow> Inl err
      | Inr conds \<Rightarrow>
          (case compile_conds rx conds of
             Inl err \<Rightarrow> Inl err
           | Inr ccs \<Rightarrow>
               Inr \<lparr>cr_Rule = rule, cr_conds = ccs,
                    cr_excludeExts = (if ar_CountScope rule = ''dynamic'' then ExcludeExtList rule else []),
                    cr_hasResponseField = list_ex (\<lambda>cc. CCFieldIsResponsePhase (cc_field cc)) ccs\<rparr>))"

definition NeedsResponsePhase :: "CompiledRule \<Rightarrow> bool" where
  "NeedsResponsePhase cr \<longleftrightarrow> cr_hasResponseField cr \<or> ar_CountPhase (cr_Rule cr) = ''response''"

subsection \<open>Field values\<close>

definition nonEmpty :: "string \<Rightarrow> string list" where
  "nonEmpty v = (if v = [] then [] else [v])"

definition logField :: "WebLog option \<Rightarrow> (WebLog \<Rightarrow> string) \<Rightarrow> string list" where
  "logField log get = (case log of None \<Rightarrow> [] | Some l \<Rightarrow> nonEmpty (get l))"

definition bodyFieldValues :: "WebLog option \<Rightarrow> string \<Rightarrow> string list" where
  "bodyFieldValues log key =
     (case log of
        None \<Rightarrow> []
      | Some l \<Rightarrow> map snd (filter (\<lambda>(f, v). EqualFold f key) (zip (lg_BodyFields l) (lg_BodyValues l))))"

definition trim_right_cr :: "string \<Rightarrow> string" where
  "trim_right_cr s = rev (dropWhile (\<lambda>c. char_code c = 13) (rev s))"

fun header_in_lines :: "string \<Rightarrow> string list \<Rightarrow> string" where
  "header_in_lines lowerName [] = []"
| "header_in_lines lowerName (line # ls) =
     (case StrCut (CHR '':'') line of
        None \<Rightarrow> header_in_lines lowerName ls
      | Some (before, after) \<Rightarrow>
          if before = [] then header_in_lines lowerName ls
          else if ToLower (TrimSpace before) = lowerName then TrimSpace (trim_right_cr after)
          else header_in_lines lowerName ls)"

definition headerFromRaw :: "string \<Rightarrow> string \<Rightarrow> string" where
  "headerFromRaw raw name = (if raw = [] then [] else header_in_lines (ToLower name) (StrSplit (char_of (10::nat)) raw))"

definition log_text :: "WebLog option \<Rightarrow> (WebLog \<Rightarrow> string) \<Rightarrow> string list" where
  "log_text log get = (case log of None \<Rightarrow> [] | Some l \<Rightarrow> [get l])"

definition fieldValues :: "compiledCond \<Rightarrow> http_request \<Rightarrow> WebLog option \<Rightarrow> string list" where
  "fieldValues c r log =
     (let f = cc_field c
      in if f = ''uri'' then [hr_Path r]
         else if f = ''query_str'' then [hr_RawQuery r]
         else if f = ''method'' then [hr_Method r]
         else if f = ''host'' then [hr_Host r]
         else if f = ''ext'' then [ToLower (path_Ext (hr_Path r))]
         else if f = ''scheme'' then [if hr_TLS r then ''https'' else ''http'']
         else if f = ''user_agent'' then nonEmpty (Header_Get r ''User-Agent'')
         else if f = ''referer'' then nonEmpty (Header_Get r ''Referer'')
         else if f = ''header'' then Header_Values r (cc_key c)
         else if f = ''cookie'' then (case Request_Cookie r (cc_key c) of None \<Rightarrow> [] | Some v \<Rightarrow> nonEmpty v)
         else if f = ''query'' then Query_Values r (cc_key c)
         else if f = ''body'' then bodyFieldValues log (cc_key c)
         else if f = ''client_ip'' then logField log lg_SRC_IP
         else if f = ''country'' then logField log lg_COUNTRY
         else if f = ''province'' then logField log lg_PROVINCE
         else if f = ''city'' then logField log lg_CITY
         else if f = ''is_bot'' then log_text log (\<lambda>l. Itoa (lg_IsBot l))
         else if f = ''body_length'' then log_text log (\<lambda>l. Itoa (lg_CONTENT_LENGTH l))
         else if f = ''resp_content_type'' then logField log (\<lambda>l. headerFromRaw (lg_ResHeader l) ''Content-Type'')
         else if f = ''status_code'' then log_text log (\<lambda>l. Itoa (lg_STATUS_CODE l))
         else if f = ''resp_length'' then log_text log (\<lambda>l. Itoa (lg_RES_CONTENT_LENGTH l))
         else if f = ''upstream_cost'' then log_text log (\<lambda>l. Itoa (lg_TimeSpent l))
         else [])"

subsection \<open>Evaluation\<close>

definition maxFieldValueLen :: nat where "maxFieldValueLen = 8 * 1024"

definition num_at :: "int list \<Rightarrow> (int \<Rightarrow> bool) \<Rightarrow> bool" where
  "num_at ns p = (case ns of [] \<Rightarrow> False | n # _ \<Rightarrow> p n)"

definition matchOne :: "compiledCond \<Rightarrow> string \<Rightarrow> bool" where
  "matchOne c v =
     (let lv = ToLower v; oper = cc_op c; low = cc_lowered c
      in if oper = ''eq'' \<or> oper = ''ne'' then low \<noteq> [] \<and> lv = hd low
         else if oper = ''contains'' \<or> oper = ''not_contains'' then low \<noteq> [] \<and> StrContains lv (hd low)
         else if oper = ''prefix'' then low \<noteq> [] \<and> HasPrefix lv (hd low)
         else if oper = ''suffix'' then low \<noteq> [] \<and> HasSuffix lv (hd low)
         else if oper = ''regex'' then (case cc_re c of None \<Rightarrow> False | Some re \<Rightarrow> re v)
         else if oper = ''in'' \<or> oper = ''not_in'' then list_ex (\<lambda>want. lv = want) low
         else if oper = ''gt'' \<or> oper = ''lt'' \<or> oper = ''between'' then
           (case ParseInt (TrimSpace v) of
              None \<Rightarrow> False
            | Some n \<Rightarrow>
                if oper = ''gt'' then num_at (cc_num c) (\<lambda>m. m < n)
                else if oper = ''lt'' then num_at (cc_num c) (\<lambda>m. n < m)
                else 1 < length (cc_num c) \<and> cc_num c ! 0 \<le> n \<and> n \<le> cc_num c ! 1)
         else False)"

definition negated_op :: "string \<Rightarrow> bool" where
  "negated_op oper \<longleftrightarrow> oper = ''ne'' \<or> oper = ''not_contains'' \<or> oper = ''not_in''"

fun eval_values :: "compiledCond \<Rightarrow> bool \<Rightarrow> string list \<Rightarrow> bool" where
  "eval_values c negated [] = negated"
| "eval_values c negated (v # vs) =
     (let hit = matchOne c (take maxFieldValueLen v)
      in if negated \<and> hit then False else if \<not> negated \<and> hit then True else eval_values c negated vs)"

definition cond_eval :: "compiledCond \<Rightarrow> http_request \<Rightarrow> WebLog option \<Rightarrow> bool" where
  "cond_eval c r log =
     (let values = fieldValues c r log
      in if cc_op c = ''exists'' then values \<noteq> []
         else if cc_op c = ''not_exists'' then values = []
         else eval_values c (negated_op (cc_op c)) values)"

definition Matches :: "CompiledRule \<Rightarrow> http_request \<Rightarrow> WebLog option \<Rightarrow> bool" where
  "Matches cr r log =
     (if ar_MatchMode (cr_Rule cr) = ''all'' then True
      else if ar_MatchMode (cr_Rule cr) = ''simple'' then list_all (\<lambda>c. cond_eval c r log) (cr_conds cr)
      else True)"

definition InCountScope :: "CompiledRule \<Rightarrow> http_request \<Rightarrow> bool" where
  "InCountScope cr r =
     (let scope = ar_CountScope (cr_Rule cr)
      in if scope = ''dynamic'' then ToLower (path_Ext (hr_Path r)) \<notin> set (cr_excludeExts cr)
         else if scope = ''document'' then
           (let dest = Header_Get r ''Sec-Fetch-Dest''
            in if dest \<noteq> [] then dest = ''document'' else StrContains (Header_Get r ''Accept'') ''text/html'')
         else True)"

subsection \<open>Dimensions\<close>

definition hostTotalDimValue :: string where "hostTotalDimValue = ''__host_total__''"

definition dim_candidate :: "CompiledRule \<Rightarrow> http_request \<Rightarrow> WebLog option \<Rightarrow> string" where
  "dim_candidate cr r log =
     (let dim = ar_StatDim (cr_Rule cr); field = ar_StatDimField (cr_Rule cr)
      in if dim = ''header'' then TrimSpace (Header_Get r field)
         else if dim = ''cookie'' \<or> dim = ''session'' then
           (case Request_Cookie r (if field = [] then ''SESSION'' else field) of None \<Rightarrow> [] | Some v \<Rightarrow> TrimSpace v)
         else if dim = ''query'' then TrimSpace (Query_Get r field)
         else if dim = ''body'' then (case bodyFieldValues log field of [] \<Rightarrow> [] | v # _ \<Rightarrow> TrimSpace v)
         else [])"

definition DimValue :: "CompiledRule \<Rightarrow> http_request \<Rightarrow> WebLog option \<Rightarrow> string \<Rightarrow> string \<times> bool" where
  "DimValue cr r log clientIP =
     (let dim = ar_StatDim (cr_Rule cr)
      in if dim = ''host_total'' then (hostTotalDimValue, False)
         else if dim = ''ip_uri'' then (clientIP @ ''|'' @ hr_Path r, False)
         else if dim_candidate cr r log \<noteq> [] then (dim_candidate cr r log, False)
         else (clientIP, dim \<noteq> ''ip''))"

subsection \<open>Well-formed conditions\<close>

text \<open>What the per-request code relies on: the guards on missing values are never needed.\<close>

definition arity_ok :: "string \<Rightarrow> string list \<Rightarrow> bool" where
  "arity_ok oper vs \<longleftrightarrow>
     (let a = CCOpValueArity oper
      in if a = -1 then vs \<noteq> [] else int (length vs) = a)"

definition key_ok :: "string \<Rightarrow> string \<Rightarrow> bool" where
  "key_ok field key \<longleftrightarrow>
     (if CCFieldNeedsKey field
      then key \<noteq> [] \<and> length key \<le> ccFieldKeyMaxLen \<and> list_all key_char key else key = [])"

definition wf_cond :: "MatchCondition \<Rightarrow> bool" where
  "wf_cond c \<longleftrightarrow>
     IsValidCCField (mc_Field c) \<and> IsValidCCOp (mc_Op c) \<and> key_ok (mc_Field c) (mc_Key c) \<and>
     arity_ok (mc_Op c) (mc_Value c) \<and>
     (mc_Op c \<in> set ccNumericOps \<longrightarrow> Numeric (field_spec (mc_Field c))) \<and>
     (mc_Op c = ''regex'' \<longrightarrow> length (hd (mc_Value c)) \<le> ccRegexMaxLen)"

definition trimmed :: "MatchCondition \<Rightarrow> bool" where
  "trimmed c \<longleftrightarrow> TrimSpace (mc_Field c) = mc_Field c \<and> TrimSpace (mc_Op c) = mc_Op c \<and> TrimSpace (mc_Key c) = mc_Key c"

lemma arity_range: "CCOpValueArity oper \<in> {-1, 0, 1, 2}"
  by (simp add: CCOpValueArity_def ccOpArity_def)

lemma ValidateCCFieldKey_None:
  "ValidateCCFieldKey k = None \<longleftrightarrow>
     TrimSpace k \<noteq> [] \<and> length (TrimSpace k) \<le> ccFieldKeyMaxLen \<and> list_all key_char (TrimSpace k)"
  by (auto simp: ValidateCCFieldKey_def Let_def)

text \<open>The checks of \<open>Validate\<close> in their order, and what it returns when all pass.\<close>

lemma Validate_InrD:
  fixes c c'
  defines "f \<equiv> TrimSpace (mc_Field c)" and "oper \<equiv> TrimSpace (mc_Op c)" and "key \<equiv> TrimSpace (mc_Key c)"
  defines "a \<equiv> CCOpValueArity oper" and "vs \<equiv> mc_Value c"
  assumes "Validate c = Inr c'"
  shows "IsValidCCField f" "IsValidCCOp oper" "CCFieldNeedsKey f \<Longrightarrow> ValidateCCFieldKey key = None"
    "oper \<in> set ccNumericOps \<Longrightarrow> Numeric (field_spec f)" "a = -1 \<Longrightarrow> vs \<noteq> []" "0 < a \<Longrightarrow> a \<le> int (length vs)"
    "c' = \<lparr>mc_Field = f, mc_Key = (if CCFieldNeedsKey f then key else []), mc_Op = oper,
           mc_Value = (if a = 0 then [] else if a = -1 then vs else take (nat a) vs)\<rparr>"
    "oper = ''regex'' \<Longrightarrow> mc_Value c' \<noteq> [] \<Longrightarrow> length (hd (mc_Value c')) \<le> ccRegexMaxLen"
proof -
  show vf: "IsValidCCField f"
    using assms by (auto simp: Validate_def Let_def IsValidCCField_def split: option.splits)
  then obtain spec where spec: "map_of ccFieldSpecs f = Some spec" by (auto simp: IsValidCCField_def)
  have fs: "field_spec f = spec" "CCFieldNeedsKey f = NeedKey spec" by (simp_all add: field_spec_def CCFieldNeedsKey_def spec)
  have V: "Validate c = (if \<not> IsValidCCOp oper then Inl (BadOp oper)
     else (case (if NeedKey spec then ValidateCCFieldKey key else None) of
        Some err \<Rightarrow> Inl err
      | None \<Rightarrow> (if oper \<in> set ccNumericOps \<and> \<not> Numeric spec then Inl NotNumeric
          else if a = -1 \<and> vs = [] then Inl NeedOneValue
          else if 0 < a \<and> int (length vs) < a then Inl (NeedValues a)
          else (let v = (if a = 0 then [] else if a = -1 then vs else take (nat a) vs)
            in if oper = ''regex'' \<and> v \<noteq> [] \<and> ccRegexMaxLen < length (hd v) then Inl RegexTooLong
               else Inr \<lparr>mc_Field = f, mc_Key = (if NeedKey spec then key else []), mc_Op = oper, mc_Value = v\<rparr>))))"
    using spec unfolding Validate_def f_def oper_def key_def a_def vs_def Let_def by simp
  show o: "IsValidCCOp oper" using assms(6) V by (auto split: if_splits)
  show k: "ValidateCCFieldKey key = None" if "CCFieldNeedsKey f"
    using assms(6) V o that fs by (auto split: option.splits)
  have k': "(if NeedKey spec then ValidateCCFieldKey key else None) = None" using k fs by simp
  note W = V [unfolded k' option.case]
  show "oper \<in> set ccNumericOps \<Longrightarrow> Numeric (field_spec f)" using assms(6) W o fs by (auto split: if_splits)
  show "a = -1 \<Longrightarrow> vs \<noteq> []" using assms(6) W o by (auto split: if_splits)
  show "0 < a \<Longrightarrow> a \<le> int (length vs)" using assms(6) W o by (auto split: if_splits)
  define v where "v = (if a = 0 then [] else if a = -1 then vs else take (nat a) vs)"
  have "c' = \<lparr>mc_Field = f, mc_Key = (if NeedKey spec then key else []), mc_Op = oper, mc_Value = v\<rparr> \<and>
      \<not> (oper = ''regex'' \<and> v \<noteq> [] \<and> ccRegexMaxLen < length (hd v))"
    using assms(6) W o unfolding v_def [symmetric] Let_def by (metis Inr_not_Inl sum.inject(2))
  then show "c' = \<lparr>mc_Field = f, mc_Key = (if CCFieldNeedsKey f then key else []), mc_Op = oper,
        mc_Value = (if a = 0 then [] else if a = -1 then vs else take (nat a) vs)\<rparr>"
    "oper = ''regex'' \<Longrightarrow> mc_Value c' \<noteq> [] \<Longrightarrow> length (hd (mc_Value c')) \<le> ccRegexMaxLen"
    by (simp_all add: v_def fs(2))
qed

lemma Validate_wf:
  assumes "Validate c = Inr c'"
  shows "wf_cond c' \<and> trimmed c'"
proof -
  note D = Validate_InrD [OF assms]
  have r: "CCOpValueArity ''regex'' = 1" by (simp add: CCOpValueArity_def ccOpArity_def)
  have ar: "CCOpValueArity (TrimSpace (mc_Op c)) \<in> {-1, 0, 1, 2}" by (rule arity_range)
  then have a: "arity_ok (mc_Op c') (mc_Value c')" using D(5-7) by (auto simp: arity_ok_def)
  then have "mc_Op c' = ''regex'' \<Longrightarrow> mc_Value c' \<noteq> []" by (auto simp: arity_ok_def r)
  moreover have "key_ok (mc_Field c') (mc_Key c')"
    using D(3,7) by (auto simp: key_ok_def ValidateCCFieldKey_None)
  moreover have "TrimSpace [] = []" by (simp add: TrimSpace_def trim_by.simps)
  ultimately show ?thesis using a D(1,2,4,7,8) by (auto simp: wf_cond_def trimmed_def)
qed

text \<open>A well-formed condition passes unchanged.\<close>

lemma Validate_fixed:
  assumes "wf_cond c" "trimmed c"
  shows "Validate c = Inr c"
proof -
  obtain spec where spec: "map_of ccFieldSpecs (mc_Field c) = Some spec"
    using assms(1) by (auto simp: wf_cond_def IsValidCCField_def)
  have fs: "field_spec (mc_Field c) = spec" by (simp add: field_spec_def spec)
  have t: "TrimSpace (mc_Field c) = mc_Field c" "TrimSpace (mc_Op c) = mc_Op c" "TrimSpace (mc_Key c) = mc_Key c"
    using assms(2) by (simp_all add: trimmed_def)
  have k: "(if NeedKey spec then ValidateCCFieldKey (mc_Key c) else None) = None"
    using assms(1) t(3) by (simp add: wf_cond_def key_ok_def CCFieldNeedsKey_def fs ValidateCCFieldKey_None)
  have v: "\<not> (CCOpValueArity (mc_Op c) = -1 \<and> mc_Value c = [])"
    "\<not> (0 < CCOpValueArity (mc_Op c) \<and> int (length (mc_Value c)) < CCOpValueArity (mc_Op c))"
    using assms(1) by (auto simp: wf_cond_def arity_ok_def Let_def split: if_splits)
  have val: "(if CCOpValueArity (mc_Op c) = 0 then []
      else if CCOpValueArity (mc_Op c) = -1 then mc_Value c
      else take (nat (CCOpValueArity (mc_Op c))) (mc_Value c)) = mc_Value c"
    using assms(1) by (auto simp: wf_cond_def arity_ok_def Let_def split: if_splits)
  have key: "(if NeedKey spec then mc_Key c else []) = mc_Key c"
    using assms(1) by (simp add: wf_cond_def key_ok_def CCFieldNeedsKey_def fs split: if_splits)
  have n: "\<not> (mc_Op c \<in> set ccNumericOps \<and> \<not> Numeric spec)" "IsValidCCOp (mc_Op c)"
    "\<not> (mc_Op c = ''regex'' \<and> mc_Value c \<noteq> [] \<and> ccRegexMaxLen < length (hd (mc_Value c)))"
    using assms(1) by (auto simp: wf_cond_def fs)
  show ?thesis
    unfolding Validate_def Let_def t key val spec option.case k
    using n v by simp
qed

lemma validate_all_map:
  "validate_all cs = Inr cs' \<Longrightarrow> list_all2 (\<lambda>c c'. Validate c = Inr c') cs cs'"
  by (induction cs arbitrary: cs') (auto split: sum.splits)

lemma validate_all_fixed: "list_all (\<lambda>c. Validate c = Inr c) cs \<Longrightarrow> validate_all cs = Inr cs"
  by (induction cs) auto

subsection \<open>Properties\<close>

text \<open>
  A validated condition is well formed (known field and operator, a name exactly where the field takes one, the
  number of values the operator takes, numbers compared only on numeric fields) and validating it again changes
  nothing: what is saved is what the loader compiles.
\<close>

theorem Validate_stable:
  assumes "Validate c = Inr c'"
  shows "wf_cond c' \<and> Validate c' = Inr c'"
  using Validate_wf [OF assms] Validate_fixed by blast

definition demo_cond :: MatchCondition where
  "demo_cond = \<lparr>mc_Field = '' header'', mc_Key = ''X-Api '', mc_Op = ''ne'', mc_Value = [''A'', ''B'']\<rparr>"

theorem Validate_stable_witness:
  "Validate \<lparr>mc_Field = ''header'', mc_Key = ''X-Api'', mc_Op = ''ne'', mc_Value = [''A'']\<rparr> =
     Inr \<lparr>mc_Field = ''header'', mc_Key = ''X-Api'', mc_Op = ''ne'', mc_Value = [''A'']\<rparr>"
proof -
  have "Validate demo_cond = Inr \<lparr>mc_Field = ''header'', mc_Key = ''X-Api'', mc_Op = ''ne'', mc_Value = [''A'']\<rparr>"
    by code_simp
  from Validate_stable [OF this] show ?thesis by simp
qed

lemma eval_values_any: "eval_values c False vs \<longleftrightarrow> (\<exists>v \<in> set vs. matchOne c (take maxFieldValueLen v))"
  by (induction vs) (auto simp: Let_def)

lemma eval_values_none: "eval_values c True vs \<longleftrightarrow> (\<forall>v \<in> set vs. \<not> matchOne c (take maxFieldValueLen v))"
  by (induction vs) (auto simp: Let_def)

lemma fieldValues_op [simp]: "fieldValues (c\<lparr>cc_op := oper\<rparr>) r log = fieldValues c r log"
proof -
  have "cc_field (c\<lparr>cc_op := oper\<rparr>) = cc_field c" "cc_key (c\<lparr>cc_op := oper\<rparr>) = cc_key c" by simp_all
  then show ?thesis unfolding fieldValues_def by (simp only:)
qed

text \<open>
  Each negative operator is the negation of its positive one on every request, also on a field with several
  values and on a field that is absent: \<open>ne\<close> of \<open>eq\<close>, \<open>not_contains\<close> of \<open>contains\<close>, \<open>not_in\<close> of \<open>in\<close>,
  \<open>not_exists\<close> of \<open>exists\<close>.
\<close>

theorem cond_eval_negation:
  "cond_eval (c\<lparr>cc_op := ''ne''\<rparr>) r log = (\<not> cond_eval (c\<lparr>cc_op := ''eq''\<rparr>) r log) \<and>
   cond_eval (c\<lparr>cc_op := ''not_contains''\<rparr>) r log = (\<not> cond_eval (c\<lparr>cc_op := ''contains''\<rparr>) r log) \<and>
   cond_eval (c\<lparr>cc_op := ''not_in''\<rparr>) r log = (\<not> cond_eval (c\<lparr>cc_op := ''in''\<rparr>) r log) \<and>
   cond_eval (c\<lparr>cc_op := ''not_exists''\<rparr>) r log = (\<not> cond_eval (c\<lparr>cc_op := ''exists''\<rparr>) r log)"
  by (simp add: cond_eval_def negated_op_def eval_values_any eval_values_none matchOne_def)

lemma parse_nums_length: "parse_nums vs = Some ns \<Longrightarrow> length ns = length vs"
  by (induction vs arbitrary: ns) (auto split: option.splits)

text \<open>What a compiled condition has of the source condition.\<close>

definition compiled_ok :: "compiledCond \<Rightarrow> bool" where
  "compiled_ok cc \<longleftrightarrow>
     wf_cond \<lparr>mc_Field = cc_field cc, mc_Key = cc_key cc, mc_Op = cc_op cc, mc_Value = cc_values cc\<rparr> \<and>
     cc_lowered cc = map ToLower (cc_values cc) \<and>
     (cc_op cc = ''regex'' \<longrightarrow> cc_re cc \<noteq> None) \<and>
     (cc_op cc \<in> set ccNumericOps \<longrightarrow> length (cc_num cc) = length (cc_values cc))"

lemma compile_cond_ok: "compile_cond rx c = Inr cc \<Longrightarrow> compiled_ok cc"
proof -
  assume a: "compile_cond rx c = Inr cc"
  then obtain c' where v: "Validate c = Inr c'" by (auto simp: compile_cond_def split: sum.splits)
  have w: "wf_cond c'" using Validate_wf [OF v] by simp
  then have "mc_Op c' = ''regex'' \<Longrightarrow> mc_Value c' \<noteq> []"
    by (auto simp: wf_cond_def arity_ok_def CCOpValueArity_def ccOpArity_def)
  then show ?thesis
    using a v w parse_nums_length
    by (cases c') (auto simp: compile_cond_def compiled_ok_def Let_def ccNumericOps_def split: if_splits option.splits)
qed

lemma compile_conds_ok: "compile_conds rx cs = Inr ccs \<Longrightarrow> list_all compiled_ok ccs"
  by (induction cs arbitrary: ccs) (auto split: sum.splits dest: compile_cond_ok)

text \<open>The comparison a one-value operator stands for, up to the case of letters.\<close>

definition compares :: "string \<Rightarrow> string \<Rightarrow> string \<Rightarrow> bool" where
  "compares oper v want \<longleftrightarrow>
     (if oper = ''eq'' then EqualFold v want
      else if oper = ''contains'' then (\<exists>a b. ToLower v = a @ ToLower want @ b)
      else if oper = ''prefix'' then prefix (ToLower want) (ToLower v)
      else suffix (ToLower want) (ToLower v))"

lemma HasSuffix_iff: "HasSuffix s p \<longleftrightarrow> suffix p s"
  unfolding HasSuffix_def suffix_def
  by (metis append_take_drop_id diff_diff_cancel diff_le_self length_append length_drop append_eq_conv_conj
      diff_add_inverse2 le_add2)

lemma matchOne_compares:
  "cc_lowered c = [ToLower want] \<Longrightarrow> cc_op c \<in> {''eq'', ''contains'', ''prefix'', ''suffix''} \<Longrightarrow>
   matchOne c v \<longleftrightarrow> compares (cc_op c) v want"
  unfolding matchOne_def compares_def Let_def
  by (elim insertE emptyE) (simp_all add: EqualFold_def HasPrefix_iff HasSuffix_iff StrContains_iff)

text \<open>
  A rule that compiles has only well-formed conditions with their regular expression and numbers ready, and a
  condition with a positive one-value operator has that one value and holds exactly when some value of the field,
  cut to 8192 bytes, is equal to, contains, starts or ends with it up to case.
\<close>

theorem Compile_sound:
  assumes "Compile parse rx rule = Inr cr" "cc \<in> set (cr_conds cr)"
  shows "compiled_ok cc \<and>
    (cc_op cc \<in> {''eq'', ''contains'', ''prefix'', ''suffix''} \<longrightarrow>
      (\<exists>want. cc_values cc = [want] \<and>
        (cond_eval cc r log \<longleftrightarrow>
          (\<exists>v \<in> set (fieldValues cc r log). compares (cc_op cc) (take maxFieldValueLen v) want))))"
proof (intro conjI impI)
  show ok: "compiled_ok cc"
    using assms compile_conds_ok by (fastforce simp: Compile_def list_all_iff split: sum.splits)
  assume oper: "cc_op cc \<in> {''eq'', ''contains'', ''prefix'', ''suffix''}"
  then have "int (length (cc_values cc)) = 1"
    using ok by (auto simp: compiled_ok_def wf_cond_def arity_ok_def CCOpValueArity_def ccOpArity_def)
  then obtain want where w: "cc_values cc = [want]" by (auto simp: length_Suc_conv)
  have "cc_lowered cc = [ToLower want]" using ok w by (simp add: compiled_ok_def)
  from matchOne_compares [OF this oper]
  have "cond_eval cc r log \<longleftrightarrow> (\<exists>v \<in> set (fieldValues cc r log). compares (cc_op cc) (take maxFieldValueLen v) want)"
    using oper by (auto simp: cond_eval_def eval_values_any negated_op_def Let_def)
  with w show "\<exists>want. cc_values cc = [want] \<and>
      (cond_eval cc r log \<longleftrightarrow> (\<exists>v \<in> set (fieldValues cc r log). compares (cc_op cc) (take maxFieldValueLen v) want))"
    by blast
qed

definition demo_parse :: "string \<Rightarrow> json option" where
  "demo_parse s = (if s = ''[..]'' then Some (JArr [JObj [(''field'', JStr ''uri''), (''op'', JStr ''prefix''), (''value'', JStr ''/Api'')]])
     else None)"

definition demo_rule :: AntiCCRule where
  "demo_rule = \<lparr>ar_Id = ''r1'', ar_HostCode = ''h1'', ar_RuleCode = ''CC-2'', ar_RuleName = ''n'', ar_Priority = 50, ar_IsEnable = 1,
     ar_MatchMode = ''simple'', ar_MatchJson = ''[..]'', ar_MatchExpr = [], ar_CountPhase = ''request'', ar_CountScope = ''all'',
     ar_ExcludeExts = [], ar_StatDim = ''ip'', ar_StatDimField = [], ar_Algo = ''window'', ar_WindowSec = 60, ar_Threshold = 2,
     ar_Burst = 0, ar_Action = ''deny'', ar_ActionSeconds = 300, ar_BanScope = ''host'', ar_StopGlobal = 0, ar_BotExempt = 0, ar_Remarks = []\<rparr>"

definition demo_compiled :: compiledCond where
  "demo_compiled = \<lparr>cc_field = ''uri'', cc_key = [], cc_op = ''prefix'', cc_values = [''/Api''], cc_lowered = [''/api''],
     cc_re = None, cc_num = []\<rparr>"

definition demo_request :: "string \<Rightarrow> http_request" where
  "demo_request p = \<lparr>hr_Method = ''GET'', hr_Host = ''a'', hr_Path = p, hr_RawQuery = [], hr_TLS = False,
     hr_Header = [(''Accept'', ''text/html'')], hr_Cookies = [], hr_Query = []\<rparr>"

definition plain_rule :: "AntiCCRule \<Rightarrow> CompiledRule" where
  "plain_rule r = \<lparr>cr_Rule = r, cr_conds = [], cr_excludeExts = [], cr_hasResponseField = False\<rparr>"

lemma demo_compile_cond:
  "compile_cond rx \<lparr>mc_Field = ''uri'', mc_Key = [], mc_Op = ''prefix'', mc_Value = [''/Api'']\<rparr> = Inr demo_compiled"
proof -
  have "Validate \<lparr>mc_Field = ''uri'', mc_Key = [], mc_Op = ''prefix'', mc_Value = [''/Api'']\<rparr> =
      Inr \<lparr>mc_Field = ''uri'', mc_Key = [], mc_Op = ''prefix'', mc_Value = [''/Api'']\<rparr>" by code_simp
  moreover have "ToLower ''/Api'' = ''/api''" by code_simp
  ultimately show ?thesis by (simp add: compile_cond_def demo_compiled_def ccNumericOps_def)
qed

lemma demo_conditions:
  "Conditions demo_parse demo_rule = Inr [\<lparr>mc_Field = ''uri'', mc_Key = [], mc_Op = ''prefix'', mc_Value = [''/Api'']\<rparr>]"
  by code_simp

lemma demo_compile:
  "Compile demo_parse rx demo_rule = Inr ((plain_rule demo_rule)\<lparr>cr_conds := [demo_compiled]\<rparr>)"
  unfolding Compile_def demo_conditions sum.case compile_conds.simps demo_compile_cond
  by (simp add: plain_rule_def demo_rule_def demo_compiled_def CCFieldIsResponsePhase_def field_spec_def
      ccFieldSpecs_def plain_spec_def)

theorem Compile_sound_witness:
  "cond_eval demo_compiled (demo_request ''/API/users'') None \<and> \<not> cond_eval demo_compiled (demo_request ''/x'') None"
proof -
  have m: "demo_compiled \<in> set (cr_conds ((plain_rule demo_rule)\<lparr>cr_conds := [demo_compiled]\<rparr>))" by simp
  have oper: "cc_op demo_compiled = ''prefix''" "cc_values demo_compiled = [''/Api'']" by (simp_all add: demo_compiled_def)
  have fv: "fieldValues demo_compiled (demo_request p) None = [p]" for p
    by (simp add: fieldValues_def demo_compiled_def demo_request_def)
  have "cond_eval demo_compiled (demo_request p) None \<longleftrightarrow> prefix (ToLower ''/Api'') (ToLower (take maxFieldValueLen p))" for p
    using Compile_sound [OF demo_compile m, of "demo_request p" None] unfolding oper fv by (simp add: compares_def)
  moreover have "prefix (ToLower ''/Api'') (ToLower (take maxFieldValueLen ''/API/users''))"
    "\<not> prefix (ToLower ''/Api'') (ToLower (take maxFieldValueLen ''/x''))" by code_simp+
  ultimately show ?thesis by simp
qed

text \<open>
  In the mode \<open>expr\<close> the compiled rule matches every request: the expression is stored with the rule and
  neither compilation nor matching reads it.
\<close>

theorem expr_mode_matches_all:
  assumes "ar_MatchMode rule = ''expr''"
  shows "\<exists>cr. Compile parse rx rule = Inr cr \<and> Matches cr r log \<and>
    (\<forall>e. Compile parse rx (rule\<lparr>ar_MatchExpr := e\<rparr>) = Inr (cr\<lparr>cr_Rule := rule\<lparr>ar_MatchExpr := e\<rparr>\<rparr>))"
proof -
  have "Conditions parse rule = Inr []" "Conditions parse (rule\<lparr>ar_MatchExpr := e\<rparr>) = Inr []" for e
    using assms by (simp_all add: Conditions_def)
  then show ?thesis using assms by (simp add: Compile_def Matches_def ExcludeExtList_def)
qed

theorem expr_mode_matches_all_witness:
  "\<exists>cr. Compile demo_parse Map.empty (demo_rule\<lparr>ar_MatchMode := ''expr'', ar_MatchExpr := ''false''\<rparr>) = Inr cr \<and>
     Matches cr (demo_request ''/'') None"
  using expr_mode_matches_all [of "demo_rule\<lparr>ar_MatchMode := ''expr'', ar_MatchExpr := ''false''\<rparr>" demo_parse Map.empty
      "demo_request ''/''" None]
  by auto

text \<open>
  A request is never counted under an empty value: when the client address is known the dimension value is not
  empty, and it is the address itself whenever the field of the dimension is missing. Two clients without the field
  are counted apart.
\<close>

theorem DimValue_total:
  assumes "clientIP \<noteq> []"
  shows "fst (DimValue cr r log clientIP) \<noteq> [] \<and>
    (snd (DimValue cr r log clientIP) \<longrightarrow> fst (DimValue cr r log clientIP) = clientIP)"
  using assms by (simp add: DimValue_def hostTotalDimValue_def Let_def)

theorem DimValue_total_witness:
  "DimValue (plain_rule (demo_rule\<lparr>ar_StatDim := ''header'', ar_StatDimField := ''X-Key''\<rparr>)) (demo_request ''/'') None ''10.0.0.1''
     = (''10.0.0.1'', True)"
proof -
  have "snd (DimValue (plain_rule (demo_rule\<lparr>ar_StatDim := ''header'', ar_StatDimField := ''X-Key''\<rparr>)) (demo_request ''/'') None ''10.0.0.1'')"
    by code_simp
  moreover note DimValue_total [of "''10.0.0.1''"
    "plain_rule (demo_rule\<lparr>ar_StatDim := ''header'', ar_StatDimField := ''X-Key''\<rparr>)" "demo_request ''/''" None]
  ultimately show ?thesis by (simp add: prod_eq_iff)
qed

text \<open>
  Values of the client and addresses share one key space: a client that sends the address of another one in the
  header, cookie or query parameter of the dimension is counted in the bucket of that other client when the latter
  sends no such field.
\<close>

theorem DimValue_collision:
  assumes "ar_StatDim (cr_Rule cr) \<in> {''header'', ''cookie'', ''session'', ''query'', ''body''}"
    "dim_candidate cr r1 log1 = victim" "victim \<noteq> []" "dim_candidate cr r2 log2 = []"
  shows "fst (DimValue cr r1 log1 attacker) = fst (DimValue cr r2 log2 victim)"
  using assms by (auto simp: DimValue_def Let_def)

theorem DimValue_collision_witness:
  "fst (DimValue (plain_rule (demo_rule\<lparr>ar_StatDim := ''header'', ar_StatDimField := ''X-Key''\<rparr>))
      ((demo_request ''/'')\<lparr>hr_Header := [(''x-key'', ''10.0.0.1'')]\<rparr>) None ''6.6.6.6'') =
   fst (DimValue (plain_rule (demo_rule\<lparr>ar_StatDim := ''header'', ar_StatDimField := ''X-Key''\<rparr>))
      (demo_request ''/'') None ''10.0.0.1'')"
proof -
  let ?cr = "plain_rule (demo_rule\<lparr>ar_StatDim := ''header'', ar_StatDimField := ''X-Key''\<rparr>)"
  have "ar_StatDim (cr_Rule ?cr) = ''header''" by (simp add: plain_rule_def)
  moreover have "dim_candidate ?cr ((demo_request ''/'')\<lparr>hr_Header := [(''x-key'', ''10.0.0.1'')]\<rparr>) None = ''10.0.0.1''"
    "dim_candidate ?cr (demo_request ''/'') None = []" by code_simp+
  ultimately show ?thesis
    using DimValue_collision [of ?cr "(demo_request ''/'')\<lparr>hr_Header := [(''x-key'', ''10.0.0.1'')]\<rparr>" None "''10.0.0.1''"
        "demo_request ''/''" None "''6.6.6.6''"] by simp
qed

lemma lower_char_idem [simp]: "lower_char (lower_char c) = lower_char c"
  by (auto simp: lower_char_def)

lemma ToLower_idem [simp]: "ToLower (ToLower s) = ToLower s"
  by (simp add: ToLower_def)

lemma normal_ext_ok: "ToLower item = item \<Longrightarrow> HasPrefix (normal_ext item) ''.'' \<and> ToLower (normal_ext item) = normal_ext item"
  by (auto simp: normal_ext_def HasPrefix_def ToLower_def lower_char_def)

lemma path_Ext_shape: "path_Ext p = [] \<or> HasPrefix (path_Ext p) ''.''"
  by (simp add: path_Ext_def HasPrefix_def Let_def)

text \<open>
  Whatever text the administrator enters, the list of static suffixes is not empty, and each of its entries is in
  lower case with a leading dot, the form in which the suffix of a request is looked up: the comparison does
  not depend on the case of either side nor on a dot that was left out.
\<close>

theorem ExcludeExtList_normal:
  "ExcludeExtList r \<noteq> [] \<and> list_all (\<lambda>e. HasPrefix e ''.'' \<and> ToLower e = e) (ExcludeExtList r)"
proof -
  have d: "CCDefaultExcludeExts \<noteq> []" "list_all (\<lambda>e. HasPrefix e ''.'' \<and> ToLower e = e) CCDefaultExcludeExts"
    by code_simp+
  have "list_all (\<lambda>e. HasPrefix e ''.'' \<and> ToLower e = e)
      (map normal_ext (filter (\<lambda>item. item \<noteq> []) (map (\<lambda>item. ToLower (TrimSpace item)) items)))" for items
    using normal_ext_ok by (induction items) auto
  then show ?thesis using d unfolding ExcludeExtList_def Let_def by auto
qed

lemma itoa_loop_format: "0 < n \<Longrightarrow> itoa_loop n digits = format_nat 10 (nat n) @ digits"
proof (induction n digits rule: itoa_loop.induct)
  case (1 n digits)
  let ?c = "char_of (nat (48 + n mod 10)) :: char"
  have c: "?c = char_of (48 + nat n mod 10)" using 1(2) by (simp add: nat_add_distrib nat_mod_distrib)
  have s: "itoa_loop n digits = itoa_loop (n div 10) (?c # digits)" using 1(2) by (subst itoa_loop.simps) simp
  show ?case
  proof (cases "n < 10")
    case True
    then have "n div 10 = 0" using 1(2) by simp
    moreover have "itoa_loop 0 ds = ds" for ds by (subst itoa_loop.simps) simp
    moreover have "nat n < 10" "nat n mod 10 = nat n" using True 1(2) by auto
    ultimately show ?thesis unfolding s using c by (subst format_nat.simps) (simp add: Let_def)
  next
    case False
    then have p: "0 < n div 10" by simp
    have "itoa_loop (n div 10) (?c # digits) = format_nat 10 (nat (n div 10)) @ ?c # digits"
      using 1(1) [OF 1(2) p] .
    moreover have "format_nat 10 (nat n) = format_nat 10 (nat n div 10) @ [char_of (48 + nat n mod 10)]"
      using False by (subst format_nat.simps) (simp add: Let_def)
    moreover have "nat (n div 10) = nat n div 10" using 1(2) by (simp add: nat_div_distrib)
    ultimately show ?thesis unfolding s c by simp
  qed
qed

text \<open>
  The hand-written decimal conversion terminates and agrees with \<open>strconv.Itoa\<close> on every number that is
  not negative; a negative number prints as the empty text.
\<close>

theorem itoa_correct: "itoa n = (if 0 \<le> n then Itoa n else [])"
proof -
  have "n < 0 \<Longrightarrow> itoa_loop n [] = []" by (subst itoa_loop.simps) simp
  moreover have "Itoa 0 = ''0''" by code_simp
  ultimately show ?thesis using itoa_loop_format [of n "[]"] by (auto simp: itoa_def Itoa_def)
qed

end
