(* ===== verification/Cc_Rule_Service.thy ===== *)
theory Cc_Rule_Service
  imports Cc_Rule
begin

text \<open>
  The administration of the CC rules, service/waf_service/waf_anticc_rule.go, and their loading into the engine,
  \<open>LoadCompiledCCRules\<close> of wafenginecore/anticc_limiter.go.

  The table of rules is a list of rows in the order of insertion. Whether a read or a write of the database
  succeeds, the fresh identifiers and the random bytes are fields of an environment record. \<open>print\<close> is the
  syntactic part of \<open>json.Marshal\<close>, the counterpart of \<open>parse\<close>. Update times are left out.
\<close>

subsection \<open>Requests\<close>

record WafAntiCCRuleAddReq =
  rq_HostCode :: string
  rq_RuleName :: string
  rq_Priority :: int
  rq_IsEnable :: int
  rq_MatchMode :: string
  rq_Conditions :: "MatchCondition list"
  rq_MatchExpr :: string
  rq_CountPhase :: string
  rq_CountScope :: string
  rq_ExcludeExts :: string
  rq_StatDim :: string
  rq_StatDimField :: string
  rq_Algo :: string
  rq_WindowSec :: int
  rq_Threshold :: int
  rq_Burst :: int
  rq_Action :: string
  rq_ActionSeconds :: int
  rq_BanScope :: string
  rq_StopGlobal :: int
  rq_BotExempt :: "int option"
  rq_Remarks :: string

datatype svc_error =
    NameEmpty | BadMode | BadPhase | BadScope | BadDim | BadAlgo | BadAction | BadBanScope
  | BadWindow | BadThreshold | BadBurst | CondError cc_error | ExprEmpty
  | TooManyRules | DbError | NotFound | SortEmpty | SortMismatch

definition or_default :: "string \<Rightarrow> string \<Rightarrow> string" where
  "or_default v d = (if v = [] then d else v)"

text \<open>\<open>json.Marshal\<close> of a condition: an empty name and an empty list of values are left out.\<close>

definition marshal_condition :: "MatchCondition \<Rightarrow> json" where
  "marshal_condition c =
     JObj ([(''field'', JStr (mc_Field c))] @
           (if mc_Key c = [] then [] else [(''key'', JStr (mc_Key c))]) @
           [(''op'', JStr (mc_Op c))] @
           (if mc_Value c = [] then [] else [(''value'', CCCondVal_MarshalJSON (mc_Value c))]))"

text \<open>The rule of a request with the defaults of a new rule.\<close>

definition with_defaults :: "WafAntiCCRuleAddReq \<Rightarrow> AntiCCRule" where
  "with_defaults req =
     \<lparr>ar_Id = [], ar_HostCode = TrimSpace (rq_HostCode req), ar_RuleCode = [], ar_RuleName = TrimSpace (rq_RuleName req),
      ar_Priority = rq_Priority req, ar_IsEnable = rq_IsEnable req,
      ar_MatchMode = or_default (rq_MatchMode req) ''all'', ar_MatchJson = [], ar_MatchExpr = rq_MatchExpr req,
      ar_CountPhase = or_default (rq_CountPhase req) ''request'', ar_CountScope = or_default (rq_CountScope req) ''dynamic'',
      ar_ExcludeExts = rq_ExcludeExts req, ar_StatDim = or_default (rq_StatDim req) ''ip'',
      ar_StatDimField = TrimSpace (rq_StatDimField req), ar_Algo = or_default (rq_Algo req) ''window'',
      ar_WindowSec = rq_WindowSec req, ar_Threshold = rq_Threshold req, ar_Burst = rq_Burst req,
      ar_Action = or_default (rq_Action req) ''captcha'',
      ar_ActionSeconds = (if rq_ActionSeconds req \<le> 0 then 300 else rq_ActionSeconds req),
      ar_BanScope = or_default (rq_BanScope req) ''host'', ar_StopGlobal = rq_StopGlobal req,
      ar_BotExempt = (case rq_BotExempt req of None \<Rightarrow> 1 | Some b \<Rightarrow> if b = 1 then 1 else 0),
      ar_Remarks = rq_Remarks req\<rparr>"

fun first_error :: "(bool \<times> svc_error) list \<Rightarrow> svc_error option" where
  "first_error [] = None"
| "first_error ((ok, err) # cs) = (if ok then first_error cs else Some err)"

definition field_checks :: "AntiCCRule \<Rightarrow> (bool \<times> svc_error) list" where
  "field_checks rule =
    [(ar_RuleName rule \<noteq> [], NameEmpty),
     (IsValidCCMatchMode (ar_MatchMode rule), BadMode),
     (IsValidCCCountPhase (ar_CountPhase rule), BadPhase),
     (IsValidCCCountScope (ar_CountScope rule), BadScope),
     (IsValidCCStatDim (ar_StatDim rule), BadDim),
     (IsValidCCAlgo (ar_Algo rule), BadAlgo),
     (IsValidCCAction (ar_Action rule), BadAction),
     (ar_BanScope rule = ''host'' \<or> ar_BanScope rule = ''global'', BadBanScope),
     (0 < ar_WindowSec rule \<and> ar_WindowSec rule \<le> 86400, BadWindow),
     (0 < ar_Threshold rule, BadThreshold),
     (0 \<le> ar_Burst rule, BadBurst)]"

definition check_match :: "(json \<Rightarrow> string) \<Rightarrow> MatchCondition list \<Rightarrow> AntiCCRule \<Rightarrow> svc_error + AntiCCRule" where
  "check_match print conditions rule =
     (if ar_MatchMode rule = ''simple'' then
        (case ValidateCCConditions conditions of
           Inl err \<Rightarrow> Inl (CondError err)
         | Inr conds \<Rightarrow>
             Inr (rule\<lparr>ar_MatchJson := print (JArr (map marshal_condition conds)), ar_MatchExpr := [],
                       ar_CountPhase := (if CCConditionsNeedResponsePhase conds then ''response'' else ar_CountPhase rule)\<rparr>))
      else if ar_MatchMode rule = ''expr'' then
        (if TrimSpace (ar_MatchExpr rule) = [] then Inl ExprEmpty else Inr (rule\<lparr>ar_MatchJson := []\<rparr>))
      else Inr (rule\<lparr>ar_MatchJson := [], ar_MatchExpr := []\<rparr>))"

definition normalizeAndValidate :: "(json \<Rightarrow> string) \<Rightarrow> WafAntiCCRuleAddReq \<Rightarrow> svc_error + AntiCCRule" where
  "normalizeAndValidate print req =
     (let rule = with_defaults req
      in case first_error (field_checks rule) of
           Some err \<Rightarrow> Inl err
         | None \<Rightarrow>
             (if CCStatDimNeedsField (ar_StatDim rule)
              then (case ValidateCCFieldKey (ar_StatDimField rule) of
                      Some err \<Rightarrow> Inl (CondError err)
                    | None \<Rightarrow> check_match print (rq_Conditions req) rule)
              else check_match print (rq_Conditions req) (rule\<lparr>ar_StatDimField := []\<rparr>)))"

subsection \<open>Codes\<close>

definition ccCodeAlphabet :: string where
  "ccCodeAlphabet = ''23456789ABCDEFGHJKMNPQRSTUVWXYZ''"

text \<open>The random source gives six bytes or fails; the time in nanoseconds is the fallback.\<close>

definition GenCCRuleCode :: "nat list option \<Rightarrow> int \<Rightarrow> string" where
  "GenCCRuleCode rnd n =
     (let buf = (case rnd of Some bs \<Rightarrow> take 6 bs
                 | None \<Rightarrow> map (\<lambda>i. nat ((n div 2 ^ (8 * (i mod 8))) mod 256)) [0 ..< 6])
      in ''CC-'' @ map (\<lambda>b. ccCodeAlphabet ! (b mod length ccCodeAlphabet)) buf)"

text \<open>The candidates are the codes the (at most eight) rounds of the loop draw.\<close>

fun alloc_loop :: "bool \<Rightarrow> AntiCCRule list \<Rightarrow> string list \<Rightarrow> string option" where
  "alloc_loop read_ok db [] = None"
| "alloc_loop read_ok db (code # codes) =
     (if \<not> read_ok then Some code
      else if code \<notin> ar_RuleCode ` set db then Some code else alloc_loop read_ok db codes)"

record cc_env =
  ce_read_ok :: bool
  ce_write_ok :: bool
  ce_uuid :: string
  ce_codes :: "string list"

definition AllocCCRuleCode :: "cc_env \<Rightarrow> AntiCCRule list \<Rightarrow> string" where
  "AllocCCRuleCode env db =
     (case alloc_loop (ce_read_ok env) db (take 8 (ce_codes env)) of
        Some code \<Rightarrow> code
      | None \<Rightarrow> ''CC-'' @ take 6 (ce_uuid env))"

subsection \<open>Operations\<close>

definition maxRulesPerHost :: nat where "maxRulesPerHost = 20"

definition host_rules :: "string \<Rightarrow> AntiCCRule list \<Rightarrow> AntiCCRule list" where
  "host_rules host db = filter (\<lambda>r. ar_HostCode r = host) db"

text \<open>A failed count reads as zero.\<close>

definition count_rules :: "cc_env \<Rightarrow> string \<Rightarrow> AntiCCRule list \<Rightarrow> nat" where
  "count_rules env host db = (if ce_read_ok env then length (host_rules host db) else 0)"

definition AddApi ::
  "(json \<Rightarrow> string) \<Rightarrow> cc_env \<Rightarrow> WafAntiCCRuleAddReq \<Rightarrow> AntiCCRule list \<Rightarrow> (svc_error + AntiCCRule) \<times> AntiCCRule list" where
  "AddApi print env req db =
     (case normalizeAndValidate print req of
        Inl err \<Rightarrow> (Inl err, db)
      | Inr rule \<Rightarrow>
          if maxRulesPerHost \<le> count_rules env (ar_HostCode rule) db then (Inl TooManyRules, db)
          else
            (let rule' = rule\<lparr>ar_Id := ce_uuid env, ar_RuleCode := AllocCCRuleCode env db\<rparr>
             in if ce_write_ok env then (Inr rule', db @ [rule']) else (Inl DbError, db)))"

definition find_rule :: "cc_env \<Rightarrow> string \<Rightarrow> AntiCCRule list \<Rightarrow> svc_error + AntiCCRule" where
  "find_rule env rid db =
     (if \<not> ce_read_ok env then Inl DbError
      else case find (\<lambda>r. ar_Id r = rid) db of None \<Rightarrow> Inl NotFound | Some r \<Rightarrow> Inr r)"

definition update_rule :: "string \<Rightarrow> (AntiCCRule \<Rightarrow> AntiCCRule) \<Rightarrow> AntiCCRule list \<Rightarrow> AntiCCRule list" where
  "update_rule rid f db = map (\<lambda>r. if ar_Id r = rid then f r else r) db"

definition ModifyApi ::
  "(json \<Rightarrow> string) \<Rightarrow> cc_env \<Rightarrow> string \<Rightarrow> WafAntiCCRuleAddReq \<Rightarrow> AntiCCRule list \<Rightarrow> (svc_error + string) \<times> AntiCCRule list" where
  "ModifyApi print env rid req db =
     (case find_rule env rid db of
        Inl err \<Rightarrow> (Inl err, db)
      | Inr old \<Rightarrow>
          (case normalizeAndValidate print req of
             Inl err \<Rightarrow> (Inl err, db)
           | Inr rule \<Rightarrow>
               if \<not> ce_write_ok env then (Inl DbError, db)
               else (Inr (ar_HostCode old),
                     update_rule rid (\<lambda>r. rule\<lparr>ar_Id := ar_Id r, ar_RuleCode := ar_RuleCode r\<rparr>) db)))"

definition DelApi :: "cc_env \<Rightarrow> string \<Rightarrow> AntiCCRule list \<Rightarrow> (svc_error + string) \<times> AntiCCRule list" where
  "DelApi env rid db =
     (case find_rule env rid db of
        Inl err \<Rightarrow> (Inl err, db)
      | Inr rule \<Rightarrow>
          if \<not> ce_write_ok env then (Inl DbError, db)
          else (Inr (ar_HostCode rule), filter (\<lambda>r. ar_Id r \<noteq> rid) db))"

definition ToggleApi :: "cc_env \<Rightarrow> string \<Rightarrow> int \<Rightarrow> AntiCCRule list \<Rightarrow> (svc_error + string) \<times> AntiCCRule list" where
  "ToggleApi env rid isEnable db =
     (case find_rule env rid db of
        Inl err \<Rightarrow> (Inl err, db)
      | Inr rule \<Rightarrow>
          if \<not> ce_write_ok env then (Inl DbError, db)
          else (Inr (ar_HostCode rule), update_rule rid (\<lambda>r. r\<lparr>ar_IsEnable := (if isEnable = 1 then 1 else 0)\<rparr>) db))"

text \<open>Slots that are not strictly increasing are raised one after the other.\<close>

fun bump_slots :: "int list \<Rightarrow> int list" where
  "bump_slots (a # b # xs) = a # bump_slots ((if b \<le> a then a + 1 else b) # xs)"
| "bump_slots xs = xs"

definition set_priority :: "string \<Rightarrow> string \<times> int \<Rightarrow> AntiCCRule list \<Rightarrow> AntiCCRule list" where
  "set_priority host p db =
     map (\<lambda>r. if ar_Id r = fst p \<and> ar_HostCode r = host then r\<lparr>ar_Priority := snd p\<rparr> else r) db"

definition submitted :: "string \<Rightarrow> string list \<Rightarrow> AntiCCRule list \<Rightarrow> AntiCCRule list" where
  "submitted host ids db = filter (\<lambda>r. ar_HostCode r = host \<and> ar_Id r \<in> set ids) db"

definition SortApi :: "cc_env \<Rightarrow> string \<Rightarrow> string list \<Rightarrow> AntiCCRule list \<Rightarrow> svc_error option \<times> AntiCCRule list" where
  "SortApi env host ids db =
     (if ids = [] then (Some SortEmpty, db)
      else if \<not> ce_read_ok env then (Some DbError, db)
      else if length (submitted host ids db) \<noteq> length ids then (Some SortMismatch, db)
      else if \<not> ce_write_ok env then (Some DbError, db)
      else (None, fold (set_priority host) (zip ids (bump_slots (sort (map ar_Priority (submitted host ids db))))) db))"

definition GetAllByHost :: "string \<Rightarrow> AntiCCRule list \<Rightarrow> AntiCCRule list" where
  "GetAllByHost host db = sort_key ar_Priority (host_rules host db)"

subsection \<open>The rules of a new site\<close>

definition default_template :: AntiCCRule where
  "default_template =
     \<lparr>ar_Id = [], ar_HostCode = [], ar_RuleCode = [],
      ar_RuleName = utf8_text [229, 138, 168, 230, 128, 129, 230, 142, 165, 229, 143, 163, 233, 162, 145, 230, 172, 161],
      ar_Priority = 50, ar_IsEnable = 1, ar_MatchMode = ''all'', ar_MatchJson = [], ar_MatchExpr = [],
      ar_CountPhase = ''request'', ar_CountScope = ''dynamic'', ar_ExcludeExts = [], ar_StatDim = ''ip'', ar_StatDimField = [],
      ar_Algo = ''window'', ar_WindowSec = 60, ar_Threshold = 600, ar_Burst = 0, ar_Action = ''captcha'',
      ar_ActionSeconds = 300, ar_BanScope = ''host'', ar_StopGlobal = 0, ar_BotExempt = 1,
      ar_Remarks =
        utf8_text [230, 142, 146, 233, 153, 164, 233, 157, 153, 230, 128, 129, 232, 181, 132, 230, 186, 144, 229, 144,
        142, 230, 140, 137] @ ''IP'' @ utf8_text [233, 153, 144, 233, 162, 145, 239, 188, 140, 232, 182, 133, 233,
        153, 144, 232, 189, 172, 228, 186, 186, 230, 156, 186, 233, 170, 140, 232, 175, 129]\<rparr>"

definition default_templates :: "AntiCCRule list" where
  "default_templates =
    [default_template,
     default_template\<lparr>ar_RuleName := utf8_text [229, 133, 168, 231, 171, 153, 229, 133, 156, 229, 186, 149],
       ar_Priority := 90, ar_CountScope := ''all'', ar_Threshold := 3000, ar_Action := ''ban'', ar_ActionSeconds := 600,
       ar_Remarks :=
        utf8_text [229, 144, 171, 233, 157, 153, 230, 128, 129, 232, 181, 132, 230, 186, 144, 231, 154, 132, 230, 149,
        180, 231, 171, 153, 229, 133, 156, 229, 186, 149, 233, 152, 136, 229, 128, 188, 239, 188, 140, 228, 187, 133,
        229, 176, 129, 231, 166, 129, 230, 156, 172, 231, 171, 153, 231, 130, 185]\<rparr>]"

text \<open>One environment per row: each takes its own identifier and draws its own code. A failed write ends the loop.\<close>

fun create_rows :: "string \<Rightarrow> (cc_env \<times> AntiCCRule) list \<Rightarrow> AntiCCRule list \<Rightarrow> svc_error option \<times> AntiCCRule list" where
  "create_rows host [] db = (None, db)"
| "create_rows host ((env, t) # ts) db =
     (if ce_write_ok env
      then create_rows host ts
             (db @ [t\<lparr>ar_HostCode := host, ar_RuleCode := AllocCCRuleCode env db, ar_Id := ce_uuid env\<rparr>])
      else (Some DbError, db))"

definition CreateDefaultRules :: "cc_env \<Rightarrow> cc_env \<Rightarrow> string \<Rightarrow> AntiCCRule list \<Rightarrow> svc_error option \<times> AntiCCRule list" where
  "CreateDefaultRules env1 env2 host db =
     (if TrimSpace host = [] then (None, db)
      else if 0 < count_rules env1 host db then (None, db)
      else create_rows host (zip [env1, env2] default_templates) db)"

subsection \<open>Loading\<close>

definition compile_ok :: "(string \<Rightarrow> json option) \<Rightarrow> (string \<Rightarrow> (string \<Rightarrow> bool) option) \<Rightarrow> AntiCCRule \<Rightarrow> CompiledRule option" where
  "compile_ok parse rx r = (case Compile parse rx r of Inl _ \<Rightarrow> None | Inr cr \<Rightarrow> Some cr)"

definition LoadCompiledCCRules ::
  "(string \<Rightarrow> json option) \<Rightarrow> (string \<Rightarrow> (string \<Rightarrow> bool) option) \<Rightarrow> cc_env \<Rightarrow> string \<Rightarrow> AntiCCRule list \<Rightarrow> CompiledRule list" where
  "LoadCompiledCCRules parse rx env host db =
     (if host = [] \<or> \<not> ce_read_ok env then []
      else List.map_filter (compile_ok parse rx)
             (sort_key ar_Priority (filter (\<lambda>r. ar_HostCode r = host \<and> ar_IsEnable r = 1) db)))"

subsection \<open>Reading back what was written\<close>

lemma EqualFold_names [simp]:
  "EqualFold ''field'' ''field''" "EqualFold ''key'' ''key''" "EqualFold ''op'' ''op''" "EqualFold ''value'' ''value''"
  "\<not> EqualFold ''key'' ''field''" "\<not> EqualFold ''op'' ''field''" "\<not> EqualFold ''op'' ''key''"
  "\<not> EqualFold ''value'' ''field''" "\<not> EqualFold ''value'' ''key''" "\<not> EqualFold ''value'' ''op''"
  by code_simp+

lemma json_strings_JStr [simp]: "json_strings (map JStr vs) = Some vs"
  by (induction vs) auto

lemma CCCondVal_roundtrip [simp]: "CCCondVal_UnmarshalJSON (CCCondVal_MarshalJSON vs) = Some vs"
  by (simp add: CCCondVal_MarshalJSON_def)

lemma decode_marshal [simp]:
  "decode_conditions (marshal_condition c # js) = map_option ((#) c) (decode_conditions js)"
  by (cases c) (simp add: marshal_condition_def empty_condition_def)

lemma decode_conditions_marshal [simp]: "decode_conditions (map marshal_condition cs) = Some cs"
  by (induction cs) auto

lemma first_error_None: "first_error cs = None \<longleftrightarrow> list_all fst cs"
  by (induction cs rule: first_error.induct) auto

lemma normalize_simple:
  assumes "normalizeAndValidate print req = Inr rule" "ar_MatchMode rule = ''simple''"
  obtains conds where "ValidateCCConditions (rq_Conditions req) = Inr conds"
    "ar_MatchJson rule = print (JArr (map marshal_condition conds))"
    "CCConditionsNeedResponsePhase conds \<Longrightarrow> ar_CountPhase rule = ''response''"
proof -
  obtain rule0 where "check_match print (rq_Conditions req) rule0 = Inr rule"
    using assms(1) by (auto simp: normalizeAndValidate_def Let_def split: option.splits if_splits)
  then have "\<exists>conds. ValidateCCConditions (rq_Conditions req) = Inr conds \<and>
      ar_MatchJson rule = print (JArr (map marshal_condition conds)) \<and>
      (CCConditionsNeedResponsePhase conds \<longrightarrow> ar_CountPhase rule = ''response'')"
    using assms(2) by (auto simp: check_match_def split: if_splits sum.splits)
  then show ?thesis using that by blast
qed

lemma list_all2_set2: "list_all2 P xs ys \<Longrightarrow> y \<in> set ys \<Longrightarrow> \<exists>x. P x y"
  by (induction rule: list_all2_induct) auto

lemma ValidateCCConditions_fixed:
  assumes "ValidateCCConditions cs = Inr conds"
  shows "list_all (\<lambda>c. Validate c = Inr c) conds" "conds \<noteq> []"
proof -
  have v: "validate_all cs = Inr conds" "cs \<noteq> []" using assms by (auto simp: ValidateCCConditions_def split: if_splits)
  then have l: "list_all2 (\<lambda>c c'. Validate c = Inr c') cs conds" by (simp add: validate_all_map)
  then show "conds \<noteq> []" using v(2) by auto
  have "\<exists>c. Validate c = Inr c'" if "c' \<in> set conds" for c'
    using list_all2_set2 [OF l that] .
  then show "list_all (\<lambda>c. Validate c = Inr c) conds"
    unfolding list_all_iff using Validate_wf Validate_fixed by blast
qed

subsection \<open>Properties\<close>

text \<open>
  C22. A rule that the service accepts has a name; every enumeration of it is in its white list (mode, phase, scope, dimension, algorithm, action, scope of the ban); its window
  is 1 to 86400 seconds, its threshold positive, its burst not negative and its time positive; the exemption of crawlers is 0 or 1; and it has
  a field for a dimension that needs one and none otherwise. Its match part fits its mode: in simple mode it is the text of the validated conditions
  of the request and no expression, and with conditions on the response the rule is marked for the response phase; in
  expression mode it is the expression of the request, which is not blank, and no conditions; otherwise both are empty.
\<close>

theorem normalizeAndValidate_valid:
  assumes "normalizeAndValidate print req = Inr rule"
  shows "ar_RuleName rule \<noteq> [] \<and> IsValidCCMatchMode (ar_MatchMode rule) \<and> IsValidCCCountPhase (ar_CountPhase rule) \<and>
    IsValidCCCountScope (ar_CountScope rule) \<and> IsValidCCStatDim (ar_StatDim rule) \<and> IsValidCCAlgo (ar_Algo rule) \<and> IsValidCCAction (ar_Action rule) \<and>
    ar_BanScope rule \<in> {''host'', ''global''} \<and> ar_WindowSec rule \<in> {1..86400} \<and> 0 < ar_ActionSeconds rule \<and>
    0 < ar_Threshold rule \<and> 0 \<le> ar_Burst rule \<and> ar_BotExempt rule \<in> {0, 1} \<and>
    (if CCStatDimNeedsField (ar_StatDim rule)
     then ar_StatDimField rule \<noteq> [] \<and> list_all key_char (ar_StatDimField rule) else ar_StatDimField rule = []) \<and>
    (if ar_MatchMode rule = ''simple''
     then (\<exists>conds. ValidateCCConditions (rq_Conditions req) = Inr conds \<and> ar_MatchJson rule = print (JArr (map marshal_condition conds)) \<and>
             ar_MatchExpr rule = [] \<and> (CCConditionsNeedResponsePhase conds \<longrightarrow> ar_CountPhase rule = ''response''))
     else if ar_MatchMode rule = ''expr'' then TrimSpace (rq_MatchExpr req) \<noteq> [] \<and> ar_MatchExpr rule = rq_MatchExpr req \<and> ar_MatchJson rule = []
     else ar_MatchExpr rule = [] \<and> ar_MatchJson rule = [])"
proof -
  let ?r = "with_defaults req"
  have c: "list_all fst (field_checks ?r)"
    using assms by (auto simp: normalizeAndValidate_def Let_def simp flip: first_error_None split: option.splits)
  have ts: "TrimSpace (ar_StatDimField ?r) = ar_StatDimField ?r" by (simp add: with_defaults_def)
  have k: "CCStatDimNeedsField (ar_StatDim ?r) \<Longrightarrow> ValidateCCFieldKey (ar_StatDimField ?r) = None"
    using assms by (auto simp: normalizeAndValidate_def Let_def split: option.splits)
  define r' where "r' = (if CCStatDimNeedsField (ar_StatDim ?r) then ?r else ?r\<lparr>ar_StatDimField := []\<rparr>)"
  have m: "check_match print (rq_Conditions req) r' = Inr rule"
    using assms k unfolding r'_def normalizeAndValidate_def Let_def by (auto split: option.splits if_splits)
  then obtain j e ph where r: "rule = r'\<lparr>ar_MatchJson := j, ar_MatchExpr := e, ar_CountPhase := ph\<rparr>"
    and ph: "ph = ar_CountPhase r' \<or> ph = ''response''"
    by (cases r') (auto simp: check_match_def split: if_splits sum.splits)
  have "ar_MatchExpr r' = rq_MatchExpr req" by (simp add: r'_def with_defaults_def)
  moreover have "ar_MatchMode r' = ar_MatchMode rule" by (simp add: r)
  ultimately have part: "if ar_MatchMode rule = ''simple''
     then (\<exists>conds. ValidateCCConditions (rq_Conditions req) = Inr conds \<and> ar_MatchJson rule = print (JArr (map marshal_condition conds)) \<and>
             ar_MatchExpr rule = [] \<and> (CCConditionsNeedResponsePhase conds \<longrightarrow> ar_CountPhase rule = ''response''))
     else if ar_MatchMode rule = ''expr'' then TrimSpace (rq_MatchExpr req) \<noteq> [] \<and> ar_MatchExpr rule = rq_MatchExpr req \<and> ar_MatchJson rule = []
     else ar_MatchExpr rule = [] \<and> ar_MatchJson rule = []"
    using m by (auto simp: check_match_def split: if_splits sum.splits)
  have "ar_CountPhase r' = ar_CountPhase ?r" by (simp add: r'_def)
  with ph c have v: "IsValidCCCountPhase ph" by (auto simp: field_checks_def IsValidCCCountPhase_def)
  have a: "0 < ar_ActionSeconds ?r" "ar_BotExempt ?r \<in> {0, 1}" by (simp_all add: with_defaults_def split: option.split)
  have "ar_RuleName rule \<noteq> [] \<and> IsValidCCMatchMode (ar_MatchMode rule) \<and> IsValidCCCountPhase (ar_CountPhase rule) \<and>
    IsValidCCCountScope (ar_CountScope rule) \<and> IsValidCCStatDim (ar_StatDim rule) \<and> IsValidCCAlgo (ar_Algo rule) \<and> IsValidCCAction (ar_Action rule) \<and>
    ar_BanScope rule \<in> {''host'', ''global''} \<and> ar_WindowSec rule \<in> {1..86400} \<and> 0 < ar_ActionSeconds rule \<and>
    0 < ar_Threshold rule \<and> 0 \<le> ar_Burst rule \<and> ar_BotExempt rule \<in> {0, 1} \<and>
    (if CCStatDimNeedsField (ar_StatDim rule)
     then ar_StatDimField rule \<noteq> [] \<and> list_all key_char (ar_StatDimField rule) else ar_StatDimField rule = [])"
    using c k v ts a unfolding r r'_def by (simp add: field_checks_def ValidateCCFieldKey_None)
  with part show ?thesis by blast
qed

definition demo_req :: WafAntiCCRuleAddReq where
  "demo_req = \<lparr>rq_HostCode = ''h1'', rq_RuleName = ''n'', rq_Priority = 10, rq_IsEnable = 1, rq_MatchMode = ''simple'',
     rq_Conditions = [\<lparr>mc_Field = '' uri'', mc_Key = ''x'', mc_Op = ''prefix'', mc_Value = [''/a'', ''/b'']\<rparr>], rq_MatchExpr = ''e'',
     rq_CountPhase = [], rq_CountScope = [], rq_ExcludeExts = [], rq_StatDim = ''header'', rq_StatDimField = '' X-Key'',
     rq_Algo = [], rq_WindowSec = 60, rq_Threshold = 5, rq_Burst = 1, rq_Action = [], rq_ActionSeconds = 0,
     rq_BanScope = [], rq_StopGlobal = 0, rq_BotExempt = None, rq_Remarks = []\<rparr>"

text \<open>A printer for the examples: the field of the first condition is enough.\<close>

definition demo_print :: "json \<Rightarrow> string" where
  "demo_print j = (if j = JArr [] then ''[]'' else ''[..]'')"

definition demo_saved :: AntiCCRule where
  "demo_saved = (case normalizeAndValidate demo_print demo_req of Inl _ \<Rightarrow> default_template | Inr r \<Rightarrow> r)"

definition demo_saved_cond :: MatchCondition where
  "demo_saved_cond = \<lparr>mc_Field = ''uri'', mc_Key = [], mc_Op = ''prefix'', mc_Value = [''/a'']\<rparr>"

lemma demo_normalized: "normalizeAndValidate demo_print demo_req = Inr demo_saved"
proof -
  have "\<not> isl (normalizeAndValidate demo_print demo_req)" by code_simp
  then show ?thesis by (auto simp: demo_saved_def split: sum.splits)
qed

theorem normalizeAndValidate_valid_witness:
  "0 < ar_Threshold demo_saved \<and> IsValidCCAlgo (ar_Algo demo_saved) \<and> IsValidCCAction (ar_Action demo_saved)"
  using normalizeAndValidate_valid [OF demo_normalized] by simp

text \<open>
  C23. What is saved is what is loaded: the conditions the service validated, written as JSON text into the rule and
  read back by the engine, are the same conditions, in the same order, and validating them again changes nothing.
\<close>

theorem saved_conditions_roundtrip:
  assumes "normalizeAndValidate print req = Inr rule" "ar_MatchMode rule = ''simple''"
    "ValidateCCConditions (rq_Conditions req) = Inr conds"
    "parse (print (JArr (map marshal_condition conds))) = Some (JArr (map marshal_condition conds))"
    "TrimSpace (print (JArr (map marshal_condition conds))) \<noteq> []"
  shows "Conditions parse rule = Inr conds \<and> ValidateCCConditions conds = Inr conds"
proof -
  obtain conds' where c: "ValidateCCConditions (rq_Conditions req) = Inr conds'"
    "ar_MatchJson rule = print (JArr (map marshal_condition conds'))"
    using normalize_simple [OF assms(1,2)] by blast
  then have "Conditions parse rule = Inr conds" using assms by (simp add: Conditions_def)
  moreover have "length conds \<le> 20"
    using assms(3) validate_all_map list_all2_lengthD by (fastforce simp: ValidateCCConditions_def split: if_splits)
  then have "ValidateCCConditions conds = Inr conds"
    using ValidateCCConditions_fixed [OF assms(3)] validate_all_fixed by (simp add: ValidateCCConditions_def)
  ultimately show ?thesis by blast
qed

definition demo_parse2 :: "string \<Rightarrow> json option" where
  "demo_parse2 s = (if s = ''[..]'' then Some (JArr [marshal_condition demo_saved_cond]) else None)"

lemma demo_saved_conds: "ValidateCCConditions (rq_Conditions demo_req) = Inr [demo_saved_cond]"
proof -
  have "Validate \<lparr>mc_Field = '' uri'', mc_Key = ''x'', mc_Op = ''prefix'', mc_Value = [''/a'', ''/b'']\<rparr> = Inr demo_saved_cond"
    by code_simp
  then show ?thesis by (simp add: ValidateCCConditions_def demo_req_def)
qed

lemma demo_saved_mode: "ar_MatchMode demo_saved = ''simple''"
  by code_simp

theorem saved_conditions_roundtrip_witness: "Conditions demo_parse2 demo_saved = Inr [demo_saved_cond]"
proof -
  have "TrimSpace ''[..]'' \<noteq> []" by code_simp
  then show ?thesis
    using saved_conditions_roundtrip [OF demo_normalized demo_saved_mode demo_saved_conds, of demo_parse2]
    by (simp add: demo_print_def demo_parse2_def)
qed

subsection \<open>The order of the rules\<close>

lemma bump_slots_hd: "bump_slots (a # xs) \<noteq> [] \<and> hd (bump_slots (a # xs)) = a"
  by (cases xs) simp_all

lemma bump_slots_strict: "sorted_wrt (<) (bump_slots xs)"
proof (induction xs rule: bump_slots.induct)
  case (1 a b xs)
  define b' where "b' = (if b \<le> a then a + 1 else b)"
  have lt: "a < b'" by (simp add: b'_def)
  obtain ys where y: "bump_slots (b' # xs) = b' # ys"
    using bump_slots_hd [of b' xs] by (cases "bump_slots (b' # xs)") auto
  have s: "sorted_wrt (<) (b' # ys)" using 1 unfolding b'_def [symmetric] y .
  have "\<forall>z \<in> set (b' # ys). a < z" using lt s by (auto dest: less_trans)
  then have "sorted_wrt (<) (a # b' # ys)" using s by simp
  then show ?case unfolding bump_slots.simps(1) b'_def [symmetric] y .
qed simp_all

lemma bump_slots_length [simp]: "length (bump_slots xs) = length xs"
  by (induction xs rule: bump_slots.induct) auto

lemma bump_slots_id: "sorted_wrt (<) xs \<Longrightarrow> bump_slots xs = xs"
  by (induction xs rule: bump_slots.induct) auto

text \<open>What the loop of updates does to each row.\<close>

definition moved :: "string \<Rightarrow> (string \<rightharpoonup> int) \<Rightarrow> AntiCCRule \<Rightarrow> AntiCCRule" where
  "moved host m r =
     (if ar_HostCode r = host then (case m (ar_Id r) of None \<Rightarrow> r | Some p \<Rightarrow> r\<lparr>ar_Priority := p\<rparr>) else r)"

lemma fold_set_priority:
  "distinct (map fst ps) \<Longrightarrow> fold (set_priority host) ps db = map (moved host (map_of ps)) db"
proof (induction ps arbitrary: db)
  case Nil
  have "moved host (map_of []) = (\<lambda>r. r)" by (simp add: moved_def fun_eq_iff)
  then show ?case by simp
next
  case (Cons p ps)
  have n: "map_of ps (fst p) = None" using Cons.prems by (auto simp: map_of_eq_None_iff)
  have "moved host (map_of ps) (if ar_Id r = fst p \<and> ar_HostCode r = host then r\<lparr>ar_Priority := snd p\<rparr> else r) =
      moved host (map_of (p # ps)) r" for r
    using n by (cases p) (auto simp: moved_def)
  then have "map (moved host (map_of ps)) (set_priority host p db) = map (moved host (map_of (p # ps))) db"
    unfolding set_priority_def map_map comp_def by (intro map_cong refl)
  moreover have "fold (set_priority host) (p # ps) db = map (moved host (map_of ps)) (set_priority host p db)"
    using Cons by simp
  ultimately show ?case by (rule trans [rotated])
qed

lemma moved_keeps [simp]:
  "ar_Id (moved host m r) = ar_Id r" "ar_HostCode (moved host m r) = ar_HostCode r" "ar_IsEnable (moved host m r) = ar_IsEnable r"
  by (auto simp: moved_def split: option.splits)

lemma compile_ok_moved: "compile_ok parse rx (moved host m r) = None \<longleftrightarrow> compile_ok parse rx r = None"
proof -
  have "Conditions parse (r\<lparr>ar_Priority := p\<rparr>) = Conditions parse r" for p by (simp add: Conditions_def)
  then show ?thesis
    by (auto simp: moved_def compile_ok_def Compile_def ExcludeExtList_def split: option.splits sum.splits)
qed

lemma compile_ok_Rule: "compile_ok parse rx r = Some cr \<Longrightarrow> cr_Rule cr = r"
  by (auto simp: compile_ok_def Compile_def split: sum.splits)

text \<open>An accepted request names each of its rows once.\<close>

lemma SortApi_ids:
  assumes "distinct (map ar_Id db)" "SortApi env host ids db = (None, db')"
  shows "distinct ids" "ar_Id ` set (submitted host ids db) = set ids"
    "db' = map (moved host (map_of (zip ids (bump_slots (sort (map ar_Priority (submitted host ids db))))))) db"
proof -
  have l: "length (submitted host ids db) = length ids"
    and d: "db' = fold (set_priority host) (zip ids (bump_slots (sort (map ar_Priority (submitted host ids db))))) db"
    using assms(2) by (auto simp: SortApi_def split: if_splits)
  have "distinct (map ar_Id (submitted host ids db))"
    using assms(1) by (simp add: submitted_def distinct_map_filter)
  then have c: "card (ar_Id ` set (submitted host ids db)) = length ids" using l distinct_card by fastforce
  have sub: "ar_Id ` set (submitted host ids db) \<subseteq> set ids" by (auto simp: submitted_def)
  then have "length ids \<le> card (set ids)" using c by (metis card_mono List.finite_set)
  then show di: "distinct ids" using card_length [of ids] by (simp add: card_distinct)
  show "ar_Id ` set (submitted host ids db) = set ids"
    using sub c di by (simp add: card_subset_eq distinct_card)
  show "db' = map (moved host (map_of (zip ids (bump_slots (sort (map ar_Priority (submitted host ids db))))))) db"
    unfolding d using di l by (intro fold_set_priority) (simp add: map_fst_zip)
qed

lemma filter_map_filter: "map g (filter P (List.map_filter f xs)) = map (\<lambda>x. g (the (f x))) (filter (\<lambda>x. f x \<noteq> None \<and> P (the (f x))) xs)"
  by (induction xs) (auto simp: map_filter_def)

lemma strict_list_unique:
  assumes "sorted (map f xs)" "distinct xs" "sorted_wrt (<) (map f ys)" "set xs = set ys"
  shows "xs = (ys :: 'a list)"
proof -
  have dy: "distinct (map f ys)" using assms(3) by (simp add: strict_sorted_iff)
  then have inj: "inj_on f (set ys)" by (simp add: distinct_map)
  then have "distinct (map f xs)" using assms(2,4) by (simp add: distinct_map)
  then have "map f xs = map f ys"
    using assms dy by (intro sorted_distinct_set_unique) (auto simp: strict_sorted_iff)
  then show ?thesis using inj assms(4) map_inj_on by (metis Un_absorb)
qed

text \<open>
  Sorting and loading agree: after a successful request to sort, the engine loads the submitted rules in exactly the
  submitted order, those that are enabled and compile; the rows that were not submitted are not touched.
\<close>

theorem SortApi_loaded_order:
  assumes "distinct (map ar_Id db)" "SortApi env host ids db = (None, db')" "host \<noteq> []" "ce_read_ok env'"
  shows "filter (\<lambda>i. i \<in> set ids) (map (\<lambda>cr. ar_Id (cr_Rule cr)) (LoadCompiledCCRules parse rx env' host db')) =
      filter (\<lambda>i. list_ex (\<lambda>r. ar_Id r = i \<and> ar_HostCode r = host \<and> ar_IsEnable r = 1 \<and> compile_ok parse rx r \<noteq> None) db) ids \<and>
    filter (\<lambda>r. \<not> (ar_HostCode r = host \<and> ar_Id r \<in> set ids)) db' =
      filter (\<lambda>r. \<not> (ar_HostCode r = host \<and> ar_Id r \<in> set ids)) db"
proof
  note I = SortApi_ids [OF assms(1,2)]
  let ?slots = "bump_slots (sort (map ar_Priority (submitted host ids db)))"
  let ?m = "map_of (zip ids ?slots)"
  have len: "length ?slots = length ids" using assms(2) by (auto simp: SortApi_def split: if_splits)
  have m_None: "?m i = None \<longleftrightarrow> i \<notin> set ids" for i using len by (simp add: map_of_zip_is_None)
  define f where "f i = the (?m i)" for i
  have fi: "map f ids = ?slots"
    using map_of_zip_map len I(1) unfolding f_def
    by (auto intro!: nth_equalityI simp: map_of_zip_nth)
  define R where "R = filter (\<lambda>r. compile_ok parse rx r \<noteq> None \<and> ar_Id r \<in> set ids)
     (sort_key ar_Priority (filter (\<lambda>r. ar_HostCode r = host \<and> ar_IsEnable r = 1) db'))"
  have L: "filter (\<lambda>i. i \<in> set ids) (map (\<lambda>cr. ar_Id (cr_Rule cr)) (LoadCompiledCCRules parse rx env' host db')) = map ar_Id R"
  proof -
    have "ar_Id (cr_Rule (the (compile_ok parse rx r))) = ar_Id r" if "compile_ok parse rx r \<noteq> None" for r
      using that compile_ok_Rule by fastforce
    moreover have "LoadCompiledCCRules parse rx env' host db' = List.map_filter (compile_ok parse rx)
        (sort_key ar_Priority (filter (\<lambda>r. ar_HostCode r = host \<and> ar_IsEnable r = 1) db'))"
      using assms(3,4) by (simp add: LoadCompiledCCRules_def)
    ultimately show ?thesis
      unfolding R_def filter_map comp_def by (simp only: filter_map_filter) (auto intro!: map_cong filter_cong dest: compile_ok_Rule)
  qed
  have prio: "ar_Priority r = f (ar_Id r)" if "r \<in> set R" for r
    using that I(3) m_None by (auto simp: R_def moved_def f_def split: option.splits)
  have "sorted (map ar_Priority R)" unfolding R_def by (simp add: sorted_filter)
  then have s1: "sorted (map f (map ar_Id R))" using prio by (simp cong: map_cong)
  have "distinct (map ar_Id db')" using assms(1) I(3) by (simp add: comp_def)
  then have dR: "distinct (map ar_Id R)"
    unfolding R_def by (intro distinct_map_filter) (simp add: distinct_map distinct_map_filter inj_on_def)
  let ?P = "\<lambda>i. list_ex (\<lambda>r. ar_Id r = i \<and> ar_HostCode r = host \<and> ar_IsEnable r = 1 \<and> compile_ok parse rx r \<noteq> None) db"
  have s2: "sorted_wrt (<) (map f (filter ?P ids))"
    using bump_slots_strict [of "sort (map ar_Priority (submitted host ids db))"] unfolding fi [symmetric]
    by (simp add: sorted_wrt_map sorted_wrt_filter)
  have st: "set (map ar_Id R) = set (filter ?P ids)"
  proof -
    define Q where "Q r \<longleftrightarrow> compile_ok parse rx r \<noteq> None" for r
    have Q: "Q (moved h m r) \<longleftrightarrow> Q r" for h m r by (simp only: Q_def compile_ok_moved)
    have "set R = moved host ?m ` {r \<in> set db. ar_HostCode r = host \<and> ar_IsEnable r = 1 \<and> Q r \<and> ar_Id r \<in> set ids}"
      unfolding R_def I(3) Q_def [symmetric] by (auto simp: Q)
    then show ?thesis unfolding Q_def [symmetric] by (auto simp: list_ex_iff image_image)
  qed
  show "filter (\<lambda>i. i \<in> set ids) (map (\<lambda>cr. ar_Id (cr_Rule cr)) (LoadCompiledCCRules parse rx env' host db')) = filter ?P ids"
    unfolding L by (rule strict_list_unique [OF s1 dR s2 st])
  show "filter (\<lambda>r. \<not> (ar_HostCode r = host \<and> ar_Id r \<in> set ids)) db' =
      filter (\<lambda>r. \<not> (ar_HostCode r = host \<and> ar_Id r \<in> set ids)) db"
  proof -
    have "moved host ?m r = r" if "\<not> (ar_HostCode r = host \<and> ar_Id r \<in> set ids)" for r
    proof (cases "ar_HostCode r = host")
      case True
      then have "?m (ar_Id r) = None" using that m_None [of "ar_Id r"] by simp
      then show ?thesis by (simp add: moved_def)
    qed (simp add: moved_def)
    then show ?thesis unfolding I(3) filter_map comp_def moved_keeps by (intro map_idI) simp
  qed
qed

definition demo_env :: cc_env where
  "demo_env = \<lparr>ce_read_ok = True, ce_write_ok = True, ce_uuid = ''00112233'', ce_codes = [''CC-AAAAAA'', ''CC-BBBBBB'']\<rparr>"

definition demo_row :: "string \<Rightarrow> int \<Rightarrow> AntiCCRule" where
  "demo_row rid p = default_template\<lparr>ar_Id := rid, ar_HostCode := ''h1'', ar_Priority := p\<rparr>"

definition demo_db :: "AntiCCRule list" where
  "demo_db = [demo_row ''a'' 10, demo_row ''b'' 20, demo_row ''c'' 30]"

lemma demo_row_simps [simp]:
  "ar_Id (demo_row rid p) = rid" "ar_HostCode (demo_row rid p) = ''h1''" "ar_Priority (demo_row rid p) = p"
  "ar_IsEnable (demo_row rid p) = 1" "(demo_row rid p)\<lparr>ar_Priority := q\<rparr> = demo_row rid q"
  by (simp_all add: demo_row_def default_template_def)

lemma demo_row_compiles: "compile_ok parse rx (demo_row rid p) \<noteq> None"
  by (simp add: compile_ok_def Compile_def Conditions_def demo_row_def default_template_def)

lemma SortApi_demo:
  "SortApi demo_env ''h1'' [''c'', ''a''] demo_db = (None, [demo_row ''a'' 30, demo_row ''b'' 20, demo_row ''c'' 10])"
  by (simp add: SortApi_def demo_env_def demo_db_def submitted_def set_priority_def)

theorem SortApi_loaded_order_witness:
  "filter (\<lambda>i. i \<in> {''c'', ''a''})
     (map (\<lambda>cr. ar_Id (cr_Rule cr)) (LoadCompiledCCRules demo_parse Map.empty demo_env ''h1''
       [demo_row ''a'' 30, demo_row ''b'' 20, demo_row ''c'' 10])) = [''c'', ''a'']"
  using SortApi_loaded_order [OF _ SortApi_demo, of demo_env demo_parse Map.empty] demo_row_compiles
  by (simp add: demo_db_def demo_env_def)

text \<open>
  When several of the submitted rules share a priority, raising the slots can step over a rule that was not
  submitted: with two rules at 100 and a third at 101 that was behind both, sorting the two puts the second of them
  level with the third, and with three at 100 the last one lands behind it.
\<close>

theorem SortApi_steps_over:
  "map (\<lambda>r. (ar_Id r, ar_Priority r)) (GetAllByHost ''h1''
     (snd (SortApi demo_env ''h1'' [''a'', ''b'', ''c''] [demo_row ''a'' 100, demo_row ''b'' 100, demo_row ''c'' 100, demo_row ''d'' 101]))) =
   [(''a'', 100), (''b'', 101), (''d'', 101), (''c'', 102)]"
  by (simp add: SortApi_def demo_env_def submitted_def set_priority_def GetAllByHost_def host_rules_def sort_key_def)

definition regex_cond :: "string \<Rightarrow> MatchCondition" where
  "regex_cond pat = \<lparr>mc_Field = ''uri'', mc_Key = [], mc_Op = ''regex'', mc_Value = [pat]\<rparr>"

definition regex_req :: "string \<Rightarrow> WafAntiCCRuleAddReq" where
  "regex_req pat = demo_req\<lparr>rq_Conditions := [regex_cond pat]\<rparr>"

lemma Validate_regex:
  "length pat \<le> 512 \<Longrightarrow> Validate (regex_cond pat) =
     Inr (regex_cond pat)"
proof (rule Validate_fixed)
  have "TrimSpace ''uri'' = ''uri''" "TrimSpace ''regex'' = ''regex''" "TrimSpace [] = []" by code_simp+
  then show "trimmed (regex_cond pat)" by (simp add: trimmed_def regex_cond_def)
qed (simp add: wf_cond_def regex_cond_def IsValidCCField_def IsValidCCOp_def key_ok_def CCFieldNeedsKey_def field_spec_def arity_ok_def
    CCOpValueArity_def ccOpArity_def ccFieldSpecs_def plain_spec_def ccNumericOps_def ccRegexMaxLen_def)

lemma regex_req_accepted:
  assumes "length pat \<le> 512"
  shows "\<exists>rule. normalizeAndValidate print (regex_req pat) = Inr rule \<and> ar_MatchMode rule = ''simple'' \<and> ar_IsEnable rule = 1 \<and>
    ar_HostCode rule = ''h1'' \<and>
    ar_MatchJson rule = print (JArr [marshal_condition (regex_cond pat)])"
proof -
  have w: "with_defaults (regex_req pat) = with_defaults demo_req"
    by (simp add: with_defaults_def regex_req_def demo_req_def)
  have f: "first_error (field_checks (with_defaults demo_req)) = None" by code_simp
  have k: "CCStatDimNeedsField (ar_StatDim (with_defaults demo_req))"
    "ValidateCCFieldKey (ar_StatDimField (with_defaults demo_req)) = None"
    "ar_MatchMode (with_defaults demo_req) = ''simple''" "ar_IsEnable (with_defaults demo_req) = 1"
    "ar_HostCode (with_defaults demo_req) = ''h1''" by code_simp+
  have v: "ValidateCCConditions (rq_Conditions (regex_req pat)) =
      Inr [regex_cond pat]"
    using Validate_regex [OF assms] by (simp add: ValidateCCConditions_def regex_req_def)
  show ?thesis
    unfolding normalizeAndValidate_def Let_def w f using k v by (simp add: check_match_def)
qed

text \<open>
  The service accepts a regular expression that does not compile: it checks only the length. Such a rule is
  stored as enabled and the engine leaves it out when it loads the site.
\<close>

theorem bad_regex_accepted_then_dropped:
  assumes "rx pat = None" "length pat \<le> 512"
    "parse (print (JArr [marshal_condition (regex_cond pat)])) = Some (JArr [marshal_condition (regex_cond pat)])"
    "TrimSpace (print (JArr [marshal_condition (regex_cond pat)])) \<noteq> []"
  shows "\<exists>rule. normalizeAndValidate print (regex_req pat) = Inr rule \<and> ar_IsEnable rule = 1 \<and>
    LoadCompiledCCRules parse rx env (ar_HostCode rule) [rule] = []"
proof -
  let ?c = "regex_cond pat"
  obtain rule where r: "normalizeAndValidate print (regex_req pat) = Inr rule" "ar_MatchMode rule = ''simple''"
    "ar_IsEnable rule = 1" "ar_MatchJson rule = print (JArr [marshal_condition ?c])"
    using regex_req_accepted [OF assms(2)] by blast
  have "Conditions parse rule = Inr [?c]"
    using r assms(3,4) by (simp add: Conditions_def)
  then have "Compile parse rx rule = Inl BadRegex"
    using Validate_regex [OF assms(2)] assms(1) by (simp add: Compile_def compile_cond_def) (simp add: regex_cond_def)
  then have "LoadCompiledCCRules parse rx env (ar_HostCode rule) [rule] = []"
    by (simp add: LoadCompiledCCRules_def compile_ok_def map_filter_def)
  with r show ?thesis by blast
qed

theorem bad_regex_accepted_then_dropped_witness:
  "\<exists>rule. normalizeAndValidate demo_print (regex_req ''('') = Inr rule \<and> ar_IsEnable rule = 1 \<and>
     LoadCompiledCCRules (\<lambda>s. if s = ''[..]'' then Some (JArr [marshal_condition (regex_cond ''('')]) else None) Map.empty
       demo_env (ar_HostCode rule) [rule] = []"
proof -
  have "TrimSpace ''[..]'' \<noteq> []" by code_simp
  then show ?thesis
    by (intro bad_regex_accepted_then_dropped) (simp_all add: demo_print_def)
qed

lemma AllocCCRuleCode_fresh:
  assumes "ce_read_ok env" "\<exists>c \<in> set (take 8 (ce_codes env)). c \<notin> ar_RuleCode ` set db"
  shows "AllocCCRuleCode env db \<notin> ar_RuleCode ` set db"
proof -
  have "alloc_loop True db cs = Some code \<Longrightarrow> code \<notin> ar_RuleCode ` set db" for cs code
    by (induction cs) (auto split: if_splits)
  moreover have "\<exists>c \<in> set cs. c \<notin> ar_RuleCode ` set db \<Longrightarrow> alloc_loop True db cs \<noteq> None" for cs
    by (induction cs) auto
  ultimately show ?thesis
    using assms by (cases "alloc_loop True db (take 8 (ce_codes env))") (fastforce simp: AllocCCRuleCode_def)+
qed

definition full_site :: "AntiCCRule list" where
  "full_site = map (\<lambda>n. demo_row (replicate (Suc n) (CHR ''r'')) (int n)) [0 ..< 20] @ [(demo_row ''x'' 1)\<lparr>ar_HostCode := ''h2''\<rparr>]"

text \<open>
  The limit of twenty rules per site holds for new rules and not for moved ones: adding never takes a site beyond
  twenty, while editing a rule of another site into a full site is accepted.
\<close>

theorem rule_limit_add_and_move:
  "(\<forall>print env req db. ce_read_ok env \<and> length (host_rules host db) \<le> maxRulesPerHost \<longrightarrow>
      length (host_rules host (snd (AddApi print env req db))) \<le> maxRulesPerHost) \<and>
   length (host_rules ''h1'' full_site) = maxRulesPerHost \<and>
   length (host_rules ''h1'' (snd (ModifyApi demo_print demo_env ''x'' demo_req full_site))) = maxRulesPerHost + 1"
proof (intro conjI allI impI)
  fix print and env :: cc_env and req db
  assume a: "ce_read_ok env \<and> length (host_rules host db) \<le> maxRulesPerHost"
  show "length (host_rules host (snd (AddApi print env req db))) \<le> maxRulesPerHost"
  proof (cases "normalizeAndValidate print req")
    case (Inl err)
    with a show ?thesis by (simp add: AddApi_def)
  next
    case (Inr rule)
    with a show ?thesis by (auto simp: AddApi_def count_rules_def host_rules_def Let_def)
  qed
next
  show "length (host_rules ''h1'' full_site) = maxRulesPerHost"
    by (simp add: host_rules_def full_site_def maxRulesPerHost_def filter_map comp_def)
next
  have h: "ar_HostCode demo_saved = ''h1''" by code_simp
  have f: "find (\<lambda>r. ar_Id r = ''x'') full_site = Some ((demo_row ''x'' 1)\<lparr>ar_HostCode := ''h2''\<rparr>)"
    by (simp add: full_site_def upt_rec)
  have m: "snd (ModifyApi demo_print demo_env ''x'' demo_req full_site) =
      update_rule ''x'' (\<lambda>r. demo_saved\<lparr>ar_Id := ar_Id r, ar_RuleCode := ar_RuleCode r\<rparr>) full_site"
    using f by (simp add: ModifyApi_def find_rule_def demo_normalized demo_env_def)
  have "length (host_rules host (update_rule ''x'' f rows)) = length (filter (\<lambda>r. ar_HostCode (if ar_Id r = ''x'' then f r else r) = host) rows)"
    for host f rows by (simp add: host_rules_def update_rule_def filter_map comp_def)
  moreover have "filter (\<lambda>r. ar_HostCode (if ar_Id r = ''x'' then demo_saved\<lparr>ar_Id := ar_Id r, ar_RuleCode := ar_RuleCode r\<rparr> else r) = ''h1'') full_site
      = full_site" using h by (auto simp: full_site_def filter_id_conv)
  ultimately show "length (host_rules ''h1'' (snd (ModifyApi demo_print demo_env ''x'' demo_req full_site))) = maxRulesPerHost + 1"
    unfolding m by (simp add: full_site_def maxRulesPerHost_def)
qed

theorem rule_limit_add_and_move_witness:
  "length (host_rules ''h1'' (snd (AddApi demo_print demo_env demo_req demo_db))) \<le> maxRulesPerHost"
  using rule_limit_add_and_move [of "''h1''"]
  by (auto simp: demo_env_def demo_db_def host_rules_def maxRulesPerHost_def)

text \<open>
  A new site gets its two rules once: on a site without rules both are stored and loaded in the order of their
  priority, with captcha at 600 and a ban of the site at 3000 requests a minute, and a second call changes nothing.
\<close>

theorem CreateDefaultRules_once:
  assumes "TrimSpace host \<noteq> []" "host_rules host db = []"
    "ce_read_ok env1" "ce_write_ok env1" "ce_write_ok env2" "ce_read_ok env"
    "CreateDefaultRules env1 env2 host db = (res, db')"
  shows "res = None \<and> CreateDefaultRules env1 env2 host db' = (None, db') \<and>
    map (\<lambda>cr. (ar_Action (cr_Rule cr), ar_Threshold (cr_Rule cr), ar_BanScope (cr_Rule cr)))
      (LoadCompiledCCRules parse rx env host db') = [(''captcha'', 600, ''host''), (''ban'', 3000, ''host'')]"
proof -
  have hn: "host \<noteq> []" using assms(1) by (auto simp: TrimSpace_def trim_by.simps)
  obtain t1 t2 where db': "db' = db @ [t1, t2]" and res: "res = None"
    and t: "\<exists>c1 c2 i1 i2. t1 = default_template\<lparr>ar_HostCode := host, ar_RuleCode := c1, ar_Id := i1\<rparr> \<and>
       t2 = (default_templates ! 1)\<lparr>ar_HostCode := host, ar_RuleCode := c2, ar_Id := i2\<rparr>"
    using assms by (auto simp: CreateDefaultRules_def count_rules_def default_templates_def)
  have h: "filter (\<lambda>r. ar_HostCode r = host \<and> ar_IsEnable r = 1) db' = [t1, t2]"
    using assms(2) t unfolding db' by (auto simp: host_rules_def default_template_def default_templates_def filter_empty_conv)
  have "ar_HostCode t1 = host" using t by auto
  then have "0 < count_rules env1 host db'" using assms(3) unfolding db' by (simp add: count_rules_def host_rules_def)
  moreover have "sort_key ar_Priority [t1, t2] = [t1, t2]"
    using t by (auto simp: default_template_def default_templates_def)
  moreover have "Compile parse rx t1 = Inr (plain_rule t1\<lparr>cr_excludeExts := CCDefaultExcludeExts\<rparr>)" "Compile parse rx t2 = Inr (plain_rule t2)"
    using t by (auto simp: Compile_def Conditions_def plain_rule_def default_template_def default_templates_def ExcludeExtList_def TrimSpace_def trim_by.simps)
  ultimately show ?thesis
    using assms(1,6) hn res h t
    by (auto simp: CreateDefaultRules_def LoadCompiledCCRules_def compile_ok_def map_filter_def plain_rule_def default_template_def default_templates_def)
qed

theorem CreateDefaultRules_once_witness:
  "\<exists>db'. CreateDefaultRules demo_env demo_env ''h9'' demo_db = (None, db') \<and>
     CreateDefaultRules demo_env demo_env ''h9'' db' = (None, db')"
proof -
  have "TrimSpace ''h9'' \<noteq> []" by code_simp
  moreover have "host_rules ''h9'' demo_db = []" by (simp add: host_rules_def demo_db_def)
  moreover obtain res db' where "CreateDefaultRules demo_env demo_env ''h9'' demo_db = (res, db')" by fastforce
  ultimately show ?thesis
    using CreateDefaultRules_once [of "''h9''" demo_db demo_env demo_env demo_env res db'] by (auto simp: demo_env_def)
qed

end
