(* ===== verification/Cc_Counter.thy ===== *)
theory Cc_Counter
  imports Waf_Prelude "HOL-Library.Multiset"
begin

text \<open>
  Package cccounter, files counter.go and store.go: the sharded request counter of the CC
  protection, with a ring of ten buckets per key, a limit on the number of keys and a quota of
  keys per rule.

  A shard's Go map is an association list with distinct keys (the order stands for the unspecified
  iteration order of the map). The clock (Unix seconds) is an argument. Each operation runs
  under its locks and is one step; the counters of 32 bits are words, the rest are integers.

  The theorems give the exact content of a ring after any sequence of hits, the window that follows
  in seconds, the key invariants and bounds under every sequence of operations (through the
  locale \<open>counter_store\<close>), that keys of different rules never collide, and what happens
  when the window of a rule is enlarged while its rings are alive.
\<close>

subsection \<open>Constants and state\<close>

definition numBuckets :: nat where "numBuckets = 10"
definition shardCount :: nat where "shardCount = 64"
definition maxDimValueLen :: nat where "maxDimValueLen = 128"
definition defaultMaxKeys :: int where "defaultMaxKeys = 200000"
definition defaultRuleQuota :: int where "defaultRuleQuota = 50000"

record bucketRing =
  counts :: "32 word list"
  ring_slot :: nat
  lastSeen :: nat
  ring_rule :: string

type_synonym shard = "(string \<times> bucketRing) list"

record Counter =
  shards :: "shard list"
  ruleKeys :: "string \<rightharpoonup> int"
  totalKeys :: int
  maxKeys :: int
  ruleQuota :: int
  degradedCount :: int
  evictedCount :: int
  rejectedCount :: int

record Result =
  r_Count :: int
  r_Degraded :: bool
  r_Rejected :: bool

definition New :: "int \<Rightarrow> int \<Rightarrow> Counter" where
  "New mk rq =
     \<lparr>shards = replicate shardCount [], ruleKeys = Map.empty, totalKeys = 0,
      maxKeys = (if mk \<le> 0 then defaultMaxKeys else mk),
      ruleQuota = (if rq \<le> 0 then defaultRuleQuota else rq),
      degradedCount = 0, evictedCount = 0, rejectedCount = 0\<rparr>"

subsection \<open>Keys\<close>

text \<open>FNV-1a in 64 and in 32 bits (package hash/fnv).\<close>

definition fnv64a :: "string \<Rightarrow> 64 word" where
  "fnv64a s = fold (\<lambda>c h. (h XOR of_nat (char_code c)) * 1099511628211) s 14695981039346656037"

definition fnv32a :: "string \<Rightarrow> 32 word" where
  "fnv32a s = fold (\<lambda>c h. (h XOR of_nat (char_code c)) * 16777619) s 2166136261"

definition buildKey :: "string \<Rightarrow> string \<Rightarrow> string" where
  "buildKey ruleID dimValue =
     (let d = (if maxDimValueLen < length dimValue then take maxDimValueLen dimValue else dimValue)
      in ruleID @ '':'' @ format_nat 16 (unat (fnv64a d)))"

definition shardFor :: "string \<Rightarrow> nat" where
  "shardFor key = unat (fnv32a key) mod shardCount"

subsection \<open>The ring\<close>

definition ring_advance :: "bucketRing \<Rightarrow> nat \<Rightarrow> bucketRing" where
  "ring_advance ring slot =
     (if ring_slot ring < slot then
        (let delta = slot - ring_slot ring
         in ring\<lparr>counts :=
                 (if numBuckets \<le> delta then replicate numBuckets 0
                  else fold (\<lambda>i cs. cs[(ring_slot ring + i) mod numBuckets := 0])
                         [1..<Suc delta] (counts ring)),
               ring_slot := slot\<rparr>)
      else ring)"

definition ring_hit :: "bucketRing \<Rightarrow> nat \<Rightarrow> nat \<Rightarrow> bucketRing" where
  "ring_hit ring slot now =
     (let r = ring_advance ring slot; i = slot mod numBuckets
      in r\<lparr>counts := (counts r)[i := counts r ! i + 1], lastSeen := now\<rparr>)"

definition ring_sum :: "bucketRing \<Rightarrow> int" where
  "ring_sum ring = sum_list (map sint (counts ring))"

definition new_ring :: "string \<Rightarrow> nat \<Rightarrow> bucketRing" where
  "new_ring ruleID slot =
     \<lparr>counts = replicate numBuckets 0, ring_slot = slot, lastSeen = 0, ring_rule = ruleID\<rparr>"

subsection \<open>The operations\<close>

definition rule_count :: "Counter \<Rightarrow> string \<Rightarrow> int" where
  "rule_count c ruleID = (case ruleKeys c ruleID of None \<Rightarrow> 0 | Some n \<Rightarrow> n)"

definition reserveKey :: "Counter \<Rightarrow> string \<Rightarrow> bool \<times> Counter" where
  "reserveKey c ruleID =
     (if maxKeys c \<le> totalKeys c then (False, c\<lparr>rejectedCount := rejectedCount c + 1\<rparr>)
      else if ruleQuota c \<le> rule_count c ruleID then
        (False, c\<lparr>degradedCount := degradedCount c + 1\<rparr>)
      else (True, c\<lparr>ruleKeys := (ruleKeys c)(ruleID \<mapsto> rule_count c ruleID + 1),
                    totalKeys := totalKeys c + 1\<rparr>))"

definition releaseKey :: "string \<Rightarrow> Counter \<Rightarrow> Counter" where
  "releaseKey ruleID c =
     (let n = rule_count c ruleID;
          rk = (if n \<le> 1 then (ruleKeys c)(ruleID := None) else (ruleKeys c)(ruleID \<mapsto> n - 1))
      in c\<lparr>ruleKeys := rk, totalKeys := totalKeys c - 1, evictedCount := evictedCount c + 1\<rparr>)"

definition bucket_width :: "int \<Rightarrow> nat" where
  "bucket_width windowSec =
     (let w = (if windowSec \<le> 0 then 1 else windowSec); b = w div int numBuckets
      in if b \<le> 0 then 1 else nat b)"

text \<open>A write to a Go map: the entry is replaced in place, or added.\<close>

fun put :: "string \<Rightarrow> bucketRing \<Rightarrow> shard \<Rightarrow> shard" where
  "put k v [] = [(k, v)]"
| "put k v ((k', v') # es) = (if k' = k then (k, v) # es else (k', v') # put k v es)"

definition Incr :: "nat \<Rightarrow> Counter \<Rightarrow> string \<Rightarrow> string \<Rightarrow> int \<Rightarrow> Result \<times> Counter" where
  "Incr now c ruleID dimValue windowSec =
     (let key = buildKey ruleID dimValue; i = shardFor key; sh = shards c ! i;
          slot = now div bucket_width windowSec;
          finish = (\<lambda>c ring.
            (let ring' = ring_hit ring slot now
             in (\<lparr>r_Count = ring_sum ring', r_Degraded = False, r_Rejected = False\<rparr>,
                 c\<lparr>shards := (shards c)[i := put key ring' (shards c ! i)]\<rparr>)))
      in case map_of sh key of
           Some ring \<Rightarrow> finish c ring
         | None \<Rightarrow>
             (case reserveKey c ruleID of
                (True, c') \<Rightarrow> finish c' (new_ring ruleID slot)
              | (False, c') \<Rightarrow>
                  if maxKeys c' \<le> totalKeys c'
                  then (\<lparr>r_Count = 0, r_Degraded = False, r_Rejected = True\<rparr>, c')
                  else (\<lparr>r_Count = 0, r_Degraded = True, r_Rejected = False\<rparr>, c')))"

text \<open>The loop over the entries of one shard: those selected are deleted and their key released.\<close>

fun sweep :: "(bucketRing \<Rightarrow> bool) \<Rightarrow> shard \<Rightarrow> Counter \<Rightarrow> shard \<times> Counter \<times> nat" where
  "sweep sel [] c = ([], c, 0)"
| "sweep sel ((k, r) # es) c =
     (if sel r then (let (es', c', n) = sweep sel es (releaseKey (ring_rule r) c) in (es', c', Suc n))
      else (let (es', c', n) = sweep sel es c in ((k, r) # es', c', n)))"

fun sweep_shards :: "(bucketRing \<Rightarrow> bool) \<Rightarrow> shard list \<Rightarrow> Counter \<Rightarrow> shard list \<times> Counter \<times> nat" where
  "sweep_shards sel [] c = ([], c, 0)"
| "sweep_shards sel (sh # shs) c =
     (let (sh', c1, n) = sweep sel sh c; (shs', c2, m) = sweep_shards sel shs c1
      in (sh' # shs', c2, n + m))"

text \<open>The cutoff is a signed difference in the source; \<open>lastSeen + idle \<le> now\<close> is that test.\<close>

definition Cleanup :: "nat \<Rightarrow> Counter \<Rightarrow> int \<Rightarrow> nat \<times> Counter" where
  "Cleanup now c idleSeconds =
     (let idle = (if idleSeconds \<le> 0 then 300 else idleSeconds); cutoff = int now - idle;
          (shs, c', n) = sweep_shards (\<lambda>r. int (lastSeen r) \<le> cutoff) (shards c) c
      in (n, c'\<lparr>shards := shs\<rparr>))"

definition DropRule :: "Counter \<Rightarrow> string \<Rightarrow> Counter" where
  "DropRule c ruleID =
     (let (shs, c', n) = sweep_shards (\<lambda>r. ring_rule r = ruleID) (shards c) c
      in c'\<lparr>shards := shs\<rparr>)"

definition Reset :: "Counter \<Rightarrow> Counter" where
  "Reset c = c\<lparr>shards := map (\<lambda>_. []) (shards c), ruleKeys := Map.empty, totalKeys := 0\<rparr>"

definition counter_Stats :: "Counter \<Rightarrow> (string \<times> int) list" where
  "counter_Stats c =
     [(''active_keys'', totalKeys c), (''max_keys'', maxKeys c),
      (''tracked_rules'', int (card (dom (ruleKeys c)))), (''degraded_count'', degradedCount c),
      (''evicted_count'', evictedCount c), (''rejected_count'', rejectedCount c)]"

definition ActiveKeys :: "Counter \<Rightarrow> int" where
  "ActiveKeys c = totalKeys c"

subsection \<open>The content of a ring\<close>

text \<open>How many hits of a history of slots fall in bucket \<open>j\<close> of the ten slots up to \<open>s\<close>.\<close>

definition bucket_hits :: "nat \<Rightarrow> nat list \<Rightarrow> nat \<Rightarrow> nat" where
  "bucket_hits s hs j = length (filter (\<lambda>h. h \<le> s \<and> s < h + numBuckets \<and> h mod numBuckets = j) hs)"

definition window_hits :: "nat \<Rightarrow> nat list \<Rightarrow> nat" where
  "window_hits s hs = length (filter (\<lambda>h. h \<le> s \<and> s < h + numBuckets) hs)"

definition ring_holds :: "nat list \<Rightarrow> bucketRing \<Rightarrow> bool" where
  "ring_holds hs r \<longleftrightarrow>
     length (counts r) = numBuckets \<and> (\<forall>h \<in> set hs. h \<le> ring_slot r) \<and>
     (\<forall>j < numBuckets. counts r ! j = of_nat (bucket_hits (ring_slot r) hs j))"

lemma numBuckets_pos [simp]: "0 < numBuckets"
  by (simp add: numBuckets_def)

lemma fold_clear_length:
  "length (fold (\<lambda>i cs. cs[(f i) := (0 :: 32 word)]) is cs) = length cs"
  by (induction "is" arbitrary: cs) auto

lemma fold_clear_nth:
  "j < length cs \<Longrightarrow> fold (\<lambda>i cs. cs[(f i) := (0 :: 32 word)]) is cs ! j =
     (if j \<in> f ` set is then 0 else cs ! j)"
  by (induction "is" arbitrary: cs) (auto simp: nth_list_update)

text \<open>Moving from slot \<open>a\<close> to slot \<open>s\<close> crosses a slot of bucket \<open>j\<close>.\<close>

definition crossed :: "nat \<Rightarrow> nat \<Rightarrow> nat \<Rightarrow> bool" where
  "crossed a s j \<longleftrightarrow> (\<exists>t. a < t \<and> t \<le> s \<and> t mod numBuckets = j)"

text \<open>The slot of the ten up to \<open>s\<close> that lives in bucket \<open>j\<close> is unique.\<close>

lemma window_slot_unique:
  assumes "(a :: nat) \<le> s" "s < a + n" "b \<le> s" "s < b + n" "a mod n = b mod n"
  shows "a = b"
proof -
  have "n dvd a - b" "n dvd b - a"
    using assms(5) by (metis mod_eq_dvd_iff_nat nat_le_linear diff_is_0_eq dvd_0_right)+
  moreover have "a - b < n" "b - a < n" using assms by linarith+
  ultimately show ?thesis by (metis dvd_imp_le diff_is_0_eq le_antisym neq0_conv not_le)
qed

lemma residue_in_window:
  assumes "(j :: nat) < n"
  shows "\<exists>t. a \<le> t \<and> t < a + n \<and> t mod n = j"
proof -
  let ?t = "a + (j + n * a - a) mod n"
  have "a * 1 \<le> a * n" using assms by (intro mult_le_mono) auto
  then have "a \<le> j + n * a" by (simp only: mult.commute [of n a] mult_1_right trans_le_add2)
  then have "a + (j + n * a - a) = j + n * a" by simp
  then have "?t mod n = (j + n * a) mod n" by (metis mod_add_right_eq)
  with assms show ?thesis by (intro exI [of _ ?t]) simp
qed

lemma advance_nth:
  assumes "ring_slot r < s" "length (counts r) = numBuckets" "j < numBuckets"
  shows "counts (ring_advance r s) ! j =
    (if crossed (ring_slot r) s j then 0 else counts r ! j)"
proof (cases "numBuckets \<le> s - ring_slot r")
  case True
  from residue_in_window [OF assms(3), of "Suc (ring_slot r)"] obtain t where
    "Suc (ring_slot r) \<le> t" "t < Suc (ring_slot r) + numBuckets" "t mod numBuckets = j" by blast
  with True assms(1) have "crossed (ring_slot r) s j"
    unfolding crossed_def by (intro exI [of _ t]) auto
  with True assms show ?thesis by (simp add: ring_advance_def)
next
  case False
  have "j \<in> (\<lambda>i. (ring_slot r + i) mod numBuckets) ` {1..<Suc (s - ring_slot r)} \<longleftrightarrow>
      crossed (ring_slot r) s j"
  proof
    assume "j \<in> (\<lambda>i. (ring_slot r + i) mod numBuckets) ` {1..<Suc (s - ring_slot r)}"
    then obtain i where "1 \<le> i" "i \<le> s - ring_slot r" "j = (ring_slot r + i) mod numBuckets" by auto
    then show "crossed (ring_slot r) s j"
      using assms(1) unfolding crossed_def by (intro exI [of _ "ring_slot r + i"]) auto
  next
    assume "crossed (ring_slot r) s j"
    then obtain t where "ring_slot r < t" "t \<le> s" "t mod numBuckets = j"
      unfolding crossed_def by blast
    then show "j \<in> (\<lambda>i. (ring_slot r + i) mod numBuckets) ` {1..<Suc (s - ring_slot r)}"
      by (intro image_eqI [of _ _ "t - ring_slot r"]) auto
  qed
  with False assms show ?thesis
    by (simp add: ring_advance_def Let_def fold_clear_nth [where f = "\<lambda>i. (ring_slot r + i) mod numBuckets"]
        del: upt_Suc)
qed

lemma advance_shape:
  "length (counts r) = numBuckets \<Longrightarrow> length (counts (ring_advance r s)) = numBuckets"
  "ring_slot r \<le> s \<Longrightarrow> ring_slot (ring_advance r s) = s"
  by (auto simp: ring_advance_def Let_def fold_clear_length)

lemma bucket_hits_advance:
  assumes "\<forall>h \<in> set hs. h \<le> a" "a < s"
  shows "bucket_hits s hs j =
    (if crossed a s j then 0 else bucket_hits a hs j)"
proof -
  have win: "(h \<le> s \<and> s < h + numBuckets \<and> h mod numBuckets = j) \<longleftrightarrow>
      \<not> crossed a s j \<and>
      (h \<le> a \<and> a < h + numBuckets \<and> h mod numBuckets = j)" if "h \<le> a" for h
  proof
    assume l: "h \<le> s \<and> s < h + numBuckets \<and> h mod numBuckets = j"
    have "\<not> (a < t \<and> t \<le> s \<and> t mod numBuckets = j)" for t
      using window_slot_unique [of h s numBuckets t] l that by auto
    then have "\<not> crossed a s j" by (auto simp: crossed_def)
    with l that assms(2) show "\<not> crossed a s j \<and>
      (h \<le> a \<and> a < h + numBuckets \<and> h mod numBuckets = j)" by auto
  next
    assume r: "\<not> crossed a s j \<and>
      (h \<le> a \<and> a < h + numBuckets \<and> h mod numBuckets = j)"
    then have "\<not> h + numBuckets \<le> s" by (auto simp: crossed_def dest: spec [of _ "h + numBuckets"])
    with r assms(2) show "h \<le> s \<and> s < h + numBuckets \<and> h mod numBuckets = j" by auto
  qed
  have "filter (\<lambda>h. h \<le> s \<and> s < h + numBuckets \<and> h mod numBuckets = j) hs =
      filter (\<lambda>h. \<not> crossed a s j \<and>
        (h \<le> a \<and> a < h + numBuckets \<and> h mod numBuckets = j)) hs"
    using assms(1) win by (intro filter_cong) auto
  then show ?thesis by (simp add: bucket_hits_def)
qed

lemma ring_holds_advance:
  assumes "ring_holds hs r" "ring_slot r \<le> s"
  shows "ring_holds hs (ring_advance r s)"
proof (cases "ring_slot r = s")
  case True
  with assms show ?thesis by (simp add: ring_advance_def)
next
  case False
  with assms(2) have lt: "ring_slot r < s" by simp
  from assms have len: "length (counts r) = numBuckets" and le: "\<forall>h \<in> set hs. h \<le> ring_slot r"
    and c: "\<And>j. j < numBuckets \<Longrightarrow> counts r ! j = of_nat (bucket_hits (ring_slot r) hs j)"
    by (auto simp: ring_holds_def)
  have "counts (ring_advance r s) ! j = of_nat (bucket_hits s hs j)" if "j < numBuckets" for j
    unfolding advance_nth [OF lt len that] bucket_hits_advance [OF le lt] by (simp add: c [OF that])
  with len le assms(2) show ?thesis
    by (auto simp: ring_holds_def advance_shape)
qed

lemma ring_holds_hit:
  assumes "ring_holds hs r" "ring_slot r \<le> s"
  shows "ring_holds (hs @ [s]) (ring_hit r s now) \<and> ring_slot (ring_hit r s now) = s"
proof -
  note a = ring_holds_advance [OF assms] and sl = advance_shape(2) [OF assms(2)]
  have "bucket_hits s (hs @ [s]) j = bucket_hits s hs j + (if j = s mod numBuckets then 1 else 0)" for j
    by (auto simp: bucket_hits_def numBuckets_def)
  with a sl show ?thesis
    by (auto simp: ring_holds_def ring_hit_def Let_def nth_list_update)
qed

lemma sum_bucket_hits: "(\<Sum>j<numBuckets. bucket_hits s hs j) = window_hits s hs"
proof (induction hs)
  case Nil
  then show ?case by (simp add: bucket_hits_def window_hits_def)
next
  case (Cons h hs)
  have "bucket_hits s (h # hs) j =
      (if h \<le> s \<and> s < h + numBuckets \<and> h mod numBuckets = j then 1 else 0) + bucket_hits s hs j" for j
    by (simp add: bucket_hits_def)
  moreover have "(\<Sum>j<numBuckets. if h \<le> s \<and> s < h + numBuckets \<and> h mod numBuckets = j then 1 else 0) =
      (if h \<le> s \<and> s < h + numBuckets then 1 else (0 :: nat))"
  proof (cases "h \<le> s \<and> s < h + numBuckets")
    case True
    then show ?thesis by simp
  next
    case False
    then show ?thesis by (intro trans [OF sum.neutral]) auto
  qed
  ultimately show ?case using Cons by (simp add: sum.distrib window_hits_def)
qed

lemma bucket_hits_le: "bucket_hits s hs j \<le> length hs"
  by (simp add: bucket_hits_def)

lemma sint_of_nat_small: "n < 2 ^ 31 \<Longrightarrow> sint (of_nat n :: 32 word) = int n"
  by (simp add: signed_of_nat signed_take_bit_int_eq_self)

text \<open>The value the ring reports: the hits of the ten slots up to the current one.\<close>

lemma ring_sum_holds:
  assumes "ring_holds hs r" "length hs < 2 ^ 31"
  shows "ring_sum r = int (window_hits (ring_slot r) hs)"
proof -
  have len: "length (counts r) = numBuckets" using assms(1) by (simp add: ring_holds_def)
  have "ring_sum r = (\<Sum>j<numBuckets. sint (counts r ! j))"
    by (simp add: ring_sum_def sum_list_sum_nth len atLeast0LessThan)
  also have "\<dots> = (\<Sum>j<numBuckets. int (bucket_hits (ring_slot r) hs j))"
  proof (rule sum.cong [OF refl])
    fix j assume "j \<in> {..<numBuckets}"
    moreover have "bucket_hits (ring_slot r) hs j < 2 ^ 31"
      using bucket_hits_le [of "ring_slot r" hs j] assms(2) by linarith
    ultimately show "sint (counts r ! j) = int (bucket_hits (ring_slot r) hs j)"
      using assms(1) by (simp add: ring_holds_def sint_of_nat_small)
  qed
  also have "\<dots> = int (window_hits (ring_slot r) hs)"
    unfolding sum_bucket_hits [symmetric] by simp
  finally show ?thesis .
qed

lemma ring_holds_new: "ring_holds [] (new_ring ruleID s)"
  by (simp add: ring_holds_def new_ring_def bucket_hits_def)

subsection \<open>The key accounting\<close>

text \<open>The rules of the live keys, with multiplicity.\<close>

definition shard_rules :: "shard \<Rightarrow> string multiset" where
  "shard_rules es = mset (map (\<lambda>e. ring_rule (snd e)) es)"

definition live_rules :: "shard list \<Rightarrow> string multiset" where
  "live_rules shs = shard_rules (concat shs)"

definition meta_ok :: "Counter \<Rightarrow> string multiset \<Rightarrow> bool" where
  "meta_ok c M \<longleftrightarrow>
     totalKeys c = int (size M) \<and> (\<forall>rule. rule_count c rule = int (count M rule)) \<and>
     (\<forall>rule n. ruleKeys c rule = Some n \<longrightarrow> 0 < n) \<and>
     (\<forall>rule. int (count M rule) \<le> ruleQuota c) \<and> int (size M) \<le> maxKeys c"

definition shard_ok :: "nat \<Rightarrow> shard \<Rightarrow> bool" where
  "shard_ok i es \<longleftrightarrow>
     distinct (map fst es) \<and>
     (\<forall>(k, r) \<in> set es. shardFor k = i \<and> length (counts r) = numBuckets)"

definition counter_ok :: "Counter \<Rightarrow> bool" where
  "counter_ok c \<longleftrightarrow>
     length (shards c) = shardCount \<and> (\<forall>i < shardCount. shard_ok i (shards c ! i)) \<and>
     meta_ok c (live_rules (shards c))"

lemma shard_rules_simps [simp]:
  "shard_rules [] = {#}" "shard_rules (e # es) = add_mset (ring_rule (snd e)) (shard_rules es)"
  "shard_rules (es @ fs) = shard_rules es + shard_rules fs"
  by (simp_all add: shard_rules_def)

lemma live_rules_simps [simp]:
  "live_rules [] = {#}" "live_rules (sh # shs) = shard_rules sh + live_rules shs"
  by (simp_all add: live_rules_def)

lemma live_rules_update:
  assumes "i < length shs"
  shows "live_rules (shs[i := x]) + shard_rules (shs ! i) = live_rules shs + shard_rules x"
proof -
  have "live_rules (as @ bs) = live_rules as + live_rules bs" for as bs
    by (simp add: live_rules_def)
  moreover have "shs = take i shs @ shs ! i # drop (Suc i) shs" using assms by (rule id_take_nth_drop)
  moreover have "shs[i := x] = take i shs @ x # drop (Suc i) shs" using assms by (rule upd_conv_take_nth_drop)
  ultimately have "live_rules (shs[i := x]) = live_rules (take i shs) + (shard_rules x + live_rules (drop (Suc i) shs))"
    "live_rules shs = live_rules (take i shs) + (shard_rules (shs ! i) + live_rules (drop (Suc i) shs))"
    by (metis live_rules_simps(2))+
  then show ?thesis by (simp add: ac_simps)
qed

lemma meta_ok_reserve:
  assumes "meta_ok c M" "reserveKey c rule = (True, c')"
  shows "meta_ok c' (add_mset rule M)"
proof -
  from assms(2) have lt: "totalKeys c < maxKeys c" "rule_count c rule < ruleQuota c"
    and c': "c' = c\<lparr>ruleKeys := (ruleKeys c)(rule \<mapsto> rule_count c rule + 1), totalKeys := totalKeys c + 1\<rparr>"
    by (auto simp: reserveKey_def split: if_splits)
  from assms(1) have m: "totalKeys c = int (size M)" "\<And>x. rule_count c x = int (count M x)"
    "\<And>x n. ruleKeys c x = Some n \<Longrightarrow> 0 < n" "\<And>x. int (count M x) \<le> ruleQuota c"
    by (auto simp: meta_ok_def)
  have "rule_count c' x = int (count (add_mset rule M) x)" for x
    using m(2) [of x] by (auto simp: c' rule_count_def m(2) [of rule])
  with lt m show ?thesis by (auto simp: meta_ok_def c' split: if_splits)
qed

lemma meta_ok_release:
  assumes "meta_ok c (add_mset rule M)"
  shows "meta_ok (releaseKey rule c) M"
proof -
  let ?n = "rule_count c rule"
  have n: "?n = int (count M rule) + 1" using assms by (simp add: meta_ok_def)
  have "rule_count (releaseKey rule c) x = int (count M x)" for x
  proof (cases "x = rule")
    case True
    with n show ?thesis by (simp add: releaseKey_def rule_count_def Let_def)
  next
    case False
    moreover have "rule_count c x = int (count M x)" using assms False by (simp add: meta_ok_def)
    ultimately show ?thesis by (simp add: releaseKey_def rule_count_def Let_def)
  qed
  moreover have "int (count M x) \<le> ruleQuota c" for x
  proof -
    have "int (count (add_mset rule M) x) \<le> ruleQuota c" using assms by (simp only: meta_ok_def)
    then show ?thesis by (simp split: if_splits)
  qed
  moreover have "0 < k" if "ruleKeys (releaseKey rule c) x = Some k" for x k
    using that assms n by (auto simp: releaseKey_def meta_ok_def Let_def split: if_splits)
  moreover have "totalKeys (releaseKey rule c) = int (size M)" "int (size M) \<le> maxKeys c"
    using assms by (auto simp: meta_ok_def releaseKey_def Let_def)
  moreover have "maxKeys (releaseKey rule c) = maxKeys c" "ruleQuota (releaseKey rule c) = ruleQuota c"
    by (simp_all add: releaseKey_def Let_def)
  ultimately show ?thesis unfolding meta_ok_def by metis
qed

lemma sweep_spec:
  "meta_ok c (shard_rules es + N) \<Longrightarrow> sweep sel es c = (es', c', n) \<Longrightarrow>
   es' = filter (\<lambda>e. \<not> sel (snd e)) es \<and> meta_ok c' (shard_rules es' + N) \<and>
   n + length es' = length es \<and> maxKeys c' = maxKeys c \<and> ruleQuota c' = ruleQuota c"
proof (induction sel es c arbitrary: es' c' n N rule: sweep.induct)
  case (1 sel c)
  then show ?case by simp
next
  case (2 sel k r es c)
  show ?case
  proof (cases "sel r")
    case True
    obtain es2 c2 n2 where s: "sweep sel es (releaseKey (ring_rule r) c) = (es2, c2, n2)"
      by (cases "sweep sel es (releaseKey (ring_rule r) c)")
    have "meta_ok (releaseKey (ring_rule r) c) (shard_rules es + N)"
      using "2.prems"(1) by (intro meta_ok_release) simp
    from "2.IH"(1) [OF True this s] "2.prems"(2) True s show ?thesis
      by (auto simp: releaseKey_def Let_def)
  next
    case False
    obtain es2 c2 n2 where s: "sweep sel es c = (es2, c2, n2)" by (cases "sweep sel es c")
    have "meta_ok c (shard_rules es + add_mset (ring_rule r) N)" using "2.prems"(1) by simp
    from "2.IH"(2) [OF False this s] "2.prems"(2) False s show ?thesis by auto
  qed
qed

lemma sweep_shards_spec:
  "meta_ok c (live_rules shs + N) \<Longrightarrow> sweep_shards sel shs c = (shs', c', n) \<Longrightarrow>
   shs' = map (filter (\<lambda>e. \<not> sel (snd e))) shs \<and> meta_ok c' (live_rules shs' + N) \<and>
   n + length (concat shs') = length (concat shs) \<and> maxKeys c' = maxKeys c \<and> ruleQuota c' = ruleQuota c"
proof (induction sel shs c arbitrary: shs' c' n N rule: sweep_shards.induct)
  case (1 sel c)
  then show ?case by simp
next
  case (2 sel sh shs c)
  obtain sh1 c1 n1 where s1: "sweep sel sh c = (sh1, c1, n1)" by (cases "sweep sel sh c")
  obtain shs2 c2 n2 where s2: "sweep_shards sel shs c1 = (shs2, c2, n2)"
    by (cases "sweep_shards sel shs c1")
  have "meta_ok c (shard_rules sh + (live_rules shs + N))"
    using "2.prems"(1) by (simp add: ac_simps)
  note A = sweep_spec [OF this s1]
  moreover have "shard_rules sh1 + (live_rules shs + N) = live_rules shs + (shard_rules sh1 + N)"
    by (simp add: ac_simps)
  ultimately have "meta_ok c1 (live_rules shs + (shard_rules sh1 + N))" by metis
  note B = "2.IH" [OF s1 [symmetric] refl refl this s2]
  from A B "2.prems"(2) s1 s2 show ?case by (auto simp: ac_simps)
qed

lemma shard_ok_filter: "shard_ok i es \<Longrightarrow> shard_ok i (filter P es)"
  by (auto simp: shard_ok_def distinct_map_filter)

lemma meta_ok_shards [simp]: "meta_ok (c\<lparr>shards := x\<rparr>) M = meta_ok c M"
  by (simp add: meta_ok_def rule_count_def)

lemma counter_ok_sweep:
  assumes "counter_ok c" "sweep_shards sel (shards c) c = (shs, c', n)"
  shows "counter_ok (c'\<lparr>shards := shs\<rparr>)" "maxKeys c' = maxKeys c" "ruleQuota c' = ruleQuota c"
proof -
  have "meta_ok c (live_rules (shards c) + {#})" using assms(1) by (simp add: counter_ok_def)
  note s = sweep_shards_spec [OF this assms(2)]
  with assms(1) show "counter_ok (c'\<lparr>shards := shs\<rparr>)"
    by (auto simp: counter_ok_def shard_ok_filter)
  from s show "maxKeys c' = maxKeys c" "ruleQuota c' = ruleQuota c" by auto
qed

subsection \<open>Writes to a shard\<close>

lemma map_of_put [simp]: "map_of (put k v es) = (map_of es)(k \<mapsto> v)"
  by (induction k v es rule: put.induct) (auto simp: fun_eq_iff)

lemma keys_put: "map fst (put k v es) = (if k \<in> fst ` set es then map fst es else map fst es @ [k])"
  by (induction k v es rule: put.induct) (auto simp: image_iff)

lemma set_put: "set (put k v es) \<subseteq> insert (k, v) (set es)"
  by (induction k v es rule: put.induct) auto

lemma shard_rules_put:
  "distinct (map fst es) \<Longrightarrow> (\<And>r. map_of es k = Some r \<Longrightarrow> ring_rule r = ring_rule v) \<Longrightarrow>
   shard_rules (put k v es) =
     (if map_of es k = None then add_mset (ring_rule v) (shard_rules es) else shard_rules es)"
  by (induction k v es rule: put.induct) (auto simp: map_of_eq_None_iff image_iff split: if_splits)

lemma shard_ok_put:
  assumes "shard_ok i es" "shardFor k = i" "length (counts v) = numBuckets"
  shows "shard_ok i (put k v es)"
proof -
  have "distinct (map fst (put k v es))"
    using assms(1) by (auto simp: shard_ok_def keys_put image_iff)
  with assms set_put [of k v es] show ?thesis by (fastforce simp: shard_ok_def)
qed

lemma shardFor_lt: "shardFor k < shardCount"
  by (simp add: shardFor_def shardCount_def)

lemma ring_hit_shape [simp]:
  "ring_rule (ring_hit r s now) = ring_rule r"
  "length (counts r) = numBuckets \<Longrightarrow> length (counts (ring_hit r s now)) = numBuckets"
  by (auto simp: ring_hit_def ring_advance_def Let_def fold_clear_length)

text \<open>The ring of a key, and the write of a ring.\<close>

definition lookup_ring :: "Counter \<Rightarrow> string \<Rightarrow> bucketRing option" where
  "lookup_ring c key = map_of (shards c ! shardFor key) key"

definition store_ring :: "Counter \<Rightarrow> string \<Rightarrow> bucketRing \<Rightarrow> Counter" where
  "store_ring c key r = c\<lparr>shards := (shards c)[shardFor key := put key r (shards c ! shardFor key)]\<rparr>"

lemma lookup_store:
  "length (shards c) = shardCount \<Longrightarrow>
   lookup_ring (store_ring c key r) k = (if k = key then Some r else lookup_ring c k)"
  using shardFor_lt [of key]
  by (cases "shardFor k = shardFor key") (auto simp: lookup_ring_def store_ring_def)

text \<open>The four outcomes of \<open>Incr\<close>.\<close>

lemma Incr_cases:
  assumes "Incr now c rule dim w = (res, c')"
  obtains (hit) ring where "lookup_ring c (buildKey rule dim) = Some ring"
      "c' = store_ring c (buildKey rule dim) (ring_hit ring (now div bucket_width w) now)"
      "res = \<lparr>r_Count = ring_sum (ring_hit ring (now div bucket_width w) now),
              r_Degraded = False, r_Rejected = False\<rparr>"
  | (fresh) c1 where "lookup_ring c (buildKey rule dim) = None" "reserveKey c rule = (True, c1)"
      "c' = store_ring c1 (buildKey rule dim)
         (ring_hit (new_ring rule (now div bucket_width w)) (now div bucket_width w) now)"
      "res = \<lparr>r_Count = ring_sum (ring_hit (new_ring rule (now div bucket_width w))
                 (now div bucket_width w) now), r_Degraded = False, r_Rejected = False\<rparr>"
  | (rejected) "lookup_ring c (buildKey rule dim) = None" "maxKeys c \<le> totalKeys c"
      "c' = c\<lparr>rejectedCount := rejectedCount c + 1\<rparr>"
      "res = \<lparr>r_Count = 0, r_Degraded = False, r_Rejected = True\<rparr>"
  | (degraded) "lookup_ring c (buildKey rule dim) = None" "totalKeys c < maxKeys c"
      "ruleQuota c \<le> rule_count c rule" "c' = c\<lparr>degradedCount := degradedCount c + 1\<rparr>"
      "res = \<lparr>r_Count = 0, r_Degraded = True, r_Rejected = False\<rparr>"
proof (cases "lookup_ring c (buildKey rule dim)")
  case (Some ring)
  with assms show thesis
    by (intro hit [OF Some]) (auto simp: Incr_def Let_def lookup_ring_def store_ring_def)
next
  case None
  obtain b c1 where r: "reserveKey c rule = (b, c1)" by fastforce
  show thesis
  proof (cases b)
    case True
    have "shards c1 = shards c" using r True by (auto simp: reserveKey_def split: if_splits)
    with assms None r True show thesis
      by (intro fresh [OF None]) (auto simp: Incr_def Let_def lookup_ring_def store_ring_def)
  next
    case False
    show thesis
    proof (cases "maxKeys c \<le> totalKeys c")
      case True
      with assms None r False show thesis
        by (intro rejected [OF None]) (auto simp: Incr_def Let_def lookup_ring_def reserveKey_def)
    next
      case gt: False
      with assms None r False show thesis
        by (intro degraded [OF None])
           (auto simp: Incr_def Let_def lookup_ring_def reserveKey_def split: if_splits)
    qed
  qed
qed

lemma counter_ok_store:
  assumes "length (shards c) = shardCount" "\<forall>i < shardCount. shard_ok i (shards c ! i)"
    "length (counts v) = numBuckets" "\<And>r. lookup_ring c k = Some r \<Longrightarrow> ring_rule r = ring_rule v"
    "meta_ok c (if lookup_ring c k = None then add_mset (ring_rule v) (live_rules (shards c))
                else live_rules (shards c))"
  shows "counter_ok (store_ring c k v)"
proof -
  let ?i = "shardFor k"
  have i: "?i < length (shards c)" using assms(1) shardFor_lt by simp
  have ok: "shard_ok ?i (shards c ! ?i)" using assms(2) shardFor_lt by simp
  have "live_rules ((shards c)[?i := put k v (shards c ! ?i)]) + shard_rules (shards c ! ?i) =
      live_rules (shards c) + shard_rules (put k v (shards c ! ?i))"
    using i by (rule live_rules_update)
  moreover have "shard_rules (put k v (shards c ! ?i)) =
      (if lookup_ring c k = None then add_mset (ring_rule v) (shard_rules (shards c ! ?i))
       else shard_rules (shards c ! ?i))"
    using shard_rules_put [of "shards c ! ?i" k v] ok assms(4)
    by (simp add: shard_ok_def lookup_ring_def)
  ultimately have "live_rules ((shards c)[?i := put k v (shards c ! ?i)]) =
      (if lookup_ring c k = None then add_mset (ring_rule v) (live_rules (shards c))
       else live_rules (shards c))"
    by (auto split: if_splits)
  moreover have "shard_ok j ((shards c)[?i := put k v (shards c ! ?i)] ! j)" if "j < shardCount" for j
    using that assms(1,2) shard_ok_put [OF ok refl assms(3)] by (cases "j = ?i") simp_all
  ultimately show ?thesis using assms(1,5) by (simp add: counter_ok_def store_ring_def)
qed

text \<open>Every live ring belongs to the rule of its key: keys of different rules never collide.\<close>

lemma format_nat_no_colon: "base \<le> 16 \<Longrightarrow> CHR '':'' \<notin> set (format_nat base n)"
proof (induction base n rule: format_nat.induct)
  case (1 base n)
  have "char_of (if d < 10 then 48 + d else 87 + d) \<noteq> CHR '':''" if "d < 16" for d :: nat
  proof
    assume "char_of (if d < 10 then 48 + d else 87 + d) = CHR '':''"
    then have "of_char (char_of (if d < 10 then 48 + d else 87 + d)) = (58 :: nat)" by simp
    with that show False by (simp split: if_splits)
  qed
  from this [of "n mod base"] 1 show ?case
    by (subst format_nat.simps) (auto simp: Let_def order_less_le_trans [OF mod_less_divisor])
qed

lemma split_last_sep:
  fixes c :: char
  assumes "a @ c # x = b @ c # y" "c \<notin> set x" "c \<notin> set y"
  shows "a = b"
proof -
  have "rev (a @ c # x) = rev (b @ c # y)" by (simp only: assms(1))
  moreover have "rev (u @ c # z) = rev z @ c # rev u" for u z :: string by simp
  ultimately have "StrCut c (rev x @ c # rev a) = StrCut c (rev y @ c # rev b)" by metis
  moreover have "StrCut c (rev x @ c # rev a) = Some (rev x, rev a)"
    using assms(2) by (intro StrCut_append) simp
  moreover have "StrCut c (rev y @ c # rev b) = Some (rev y, rev b)"
    using assms(3) by (intro StrCut_append) simp
  ultimately have "rev a = rev b" by (metis option.inject prod.inject)
  then show ?thesis by simp
qed

lemma buildKey_rule: "buildKey r d = buildKey r' d' \<Longrightarrow> r = r'"
  by (auto simp: buildKey_def Let_def format_nat_no_colon dest!: split_last_sep split: if_splits)

text \<open>The rings of a well-formed counter are under keys of their own rule.\<close>

definition rings_owned :: "Counter \<Rightarrow> bool" where
  "rings_owned c \<longleftrightarrow> (\<forall>k r. lookup_ring c k = Some r \<longrightarrow> (\<exists>d. k = buildKey (ring_rule r) d))"

definition counter_inv :: "Counter \<Rightarrow> bool" where
  "counter_inv c \<longleftrightarrow> counter_ok c \<and> rings_owned c"

lemma reserve_frame:
  "reserveKey c rule = (True, c1) \<Longrightarrow> shards c1 = shards c \<and> maxKeys c1 = maxKeys c \<and> ruleQuota c1 = ruleQuota c"
  by (auto simp: reserveKey_def split: if_splits)

lemma lookup_ring_shards: "shards c = shards c' \<Longrightarrow> lookup_ring c = lookup_ring c'"
  by (simp add: lookup_ring_def fun_eq_iff)

lemma lookup_length:
  "counter_ok c \<Longrightarrow> lookup_ring c k = Some r \<Longrightarrow> length (counts r) = numBuckets"
  using shardFor_lt [of k] by (fastforce simp: counter_ok_def shard_ok_def lookup_ring_def dest: map_of_SomeD)

lemma counter_inv_Incr:
  assumes "counter_inv c" "Incr now c rule dim w = (res, c')"
  shows "counter_inv c' \<and> maxKeys c' = maxKeys c \<and> ruleQuota c' = ruleQuota c"
proof -
  let ?k = "buildKey rule dim"
  from assms(1) have ok: "counter_ok c" and own: "rings_owned c" by (auto simp: counter_inv_def)
  then have sh: "length (shards c) = shardCount" "\<forall>i < shardCount. shard_ok i (shards c ! i)"
    "meta_ok c (live_rules (shards c))" by (auto simp: counter_ok_def)
  from assms(2) show ?thesis
  proof (cases rule: Incr_cases)
    case (hit ring)
    let ?r = "ring_hit ring (now div bucket_width w) now"
    have "counter_ok (store_ring c ?k ?r)"
      using sh hit(1) lookup_length [OF ok hit(1)] by (intro counter_ok_store) auto
    moreover have "rings_owned (store_ring c ?k ?r)"
      using own hit(1) by (auto simp: rings_owned_def lookup_store [OF sh(1)])
    ultimately show ?thesis using hit(2) by (simp add: counter_inv_def store_ring_def)
  next
    case (fresh c1)
    let ?r = "ring_hit (new_ring rule (now div bucket_width w)) (now div bucket_width w) now"
    note fr = reserve_frame [OF fresh(2)]
    have lk: "lookup_ring c1 = lookup_ring c" using fr by (intro lookup_ring_shards) simp
    have rr: "ring_rule ?r = rule" "length (counts ?r) = numBuckets"
      by (simp_all add: new_ring_def)
    have "counter_ok (store_ring c1 ?k ?r)"
      using sh fr lk fresh(1) rr meta_ok_reserve [OF sh(3) fresh(2)] by (intro counter_ok_store) auto
    moreover have "rings_owned (store_ring c1 ?k ?r)"
      using own fresh(1) rr fr lk sh(1) by (auto simp: rings_owned_def lookup_store)
    ultimately show ?thesis using fresh(3) fr by (simp add: counter_inv_def store_ring_def)
  next
    case rejected
    then show ?thesis
      using ok own by (auto simp: counter_inv_def counter_ok_def meta_ok_def rule_count_def
          rings_owned_def lookup_ring_def)
  next
    case degraded
    then show ?thesis
      using ok own by (auto simp: counter_inv_def counter_ok_def meta_ok_def rule_count_def
          rings_owned_def lookup_ring_def)
  qed
qed

lemma map_of_filter_Some: "map_of (filter (\<lambda>e. P (snd e)) es) k = Some r \<Longrightarrow> distinct (map fst es) \<Longrightarrow> map_of es k = Some r"
  by (auto dest!: map_of_SomeD)

lemma map_of_filter_distinct:
  "distinct (map fst es) \<Longrightarrow>
   map_of (filter (\<lambda>e. P (snd e)) es) k =
     (case map_of es k of None \<Rightarrow> None | Some r \<Rightarrow> if P r then Some r else None)"
  by (induction es) (auto simp: map_of_eq_None_iff split: option.splits)

lemma counter_inv_sweep:
  assumes "counter_inv c" "sweep_shards sel (shards c) c = (shs, c', n)"
  shows "counter_inv (c'\<lparr>shards := shs\<rparr>) \<and> maxKeys c' = maxKeys c \<and> ruleQuota c' = ruleQuota c"
proof -
  from assms(1) have ok: "counter_ok c" and own: "rings_owned c" by (auto simp: counter_inv_def)
  have "meta_ok c (live_rules (shards c) + {#})" using ok by (simp add: counter_ok_def)
  from sweep_shards_spec [OF this assms(2)] have shs: "shs = map (filter (\<lambda>e. \<not> sel (snd e))) (shards c)"
    by simp
  have "rings_owned (c'\<lparr>shards := shs\<rparr>)"
    unfolding rings_owned_def
  proof (intro allI impI)
    fix k r assume "lookup_ring (c'\<lparr>shards := shs\<rparr>) k = Some r"
    then have "map_of (filter (\<lambda>e. \<not> sel (snd e)) (shards c ! shardFor k)) k = Some r"
      using ok shardFor_lt [of k] by (simp add: lookup_ring_def shs counter_ok_def)
    moreover have "distinct (map fst (shards c ! shardFor k))"
      using ok shardFor_lt [of k] by (simp add: counter_ok_def shard_ok_def)
    ultimately have "lookup_ring c k = Some r"
      unfolding lookup_ring_def by (rule map_of_filter_Some)
    with own show "\<exists>d. k = buildKey (ring_rule r) d" by (auto simp: rings_owned_def)
  qed
  with counter_ok_sweep [OF ok assms(2)] show ?thesis by (simp add: counter_inv_def)
qed

lemma live_rules_empty: "live_rules (map (\<lambda>_. []) shs) = {#}"
  by (induction shs) auto

lemma counter_inv_New: "counter_inv (New mk rq)"
proof -
  have "live_rules (replicate n []) = {#}" for n by (induction n) auto
  then show ?thesis
    by (auto simp: counter_inv_def counter_ok_def shard_ok_def meta_ok_def rings_owned_def
        lookup_ring_def New_def rule_count_def shardFor_lt defaultMaxKeys_def defaultRuleQuota_def)
qed

lemma counter_inv_Reset:
  assumes "counter_inv c"
  shows "counter_inv (Reset c)"
proof -
  have "0 \<le> ruleQuota c" "0 \<le> maxKeys c"
    using assms by (auto simp: counter_inv_def counter_ok_def meta_ok_def intro: order_trans)
  with assms show ?thesis
    by (auto simp: counter_inv_def counter_ok_def shard_ok_def meta_ok_def rings_owned_def
        lookup_ring_def Reset_def rule_count_def live_rules_empty shardFor_lt)
qed

subsection \<open>The interface of a counting store\<close>

text \<open>The operations of the Go interface \<open>Store\<close> that change state (and \<open>Reset\<close>), as data.\<close>

datatype store_op =
    OpIncr nat string string int
  | OpCleanup nat int
  | OpDropRule string
  | OpReset

fun apply_op :: "Counter \<Rightarrow> store_op \<Rightarrow> Counter" where
  "apply_op c (OpIncr now rule dim w) = snd (Incr now c rule dim w)"
| "apply_op c (OpCleanup now idle) = snd (Cleanup now c idle)"
| "apply_op c (OpDropRule rule) = DropRule c rule"
| "apply_op c OpReset = Reset c"

locale counter_store =
  fixes inv :: "'s \<Rightarrow> bool"
    and apply_step :: "'s \<Rightarrow> 'op \<Rightarrow> 's"
    and limits :: "'s \<Rightarrow> 'l"
    and within :: "'l \<Rightarrow> 's \<Rightarrow> bool"
  assumes inv_step: "inv s \<Longrightarrow> inv (apply_step s x)"
    and limits_step: "inv s \<Longrightarrow> limits (apply_step s x) = limits s"
    and inv_within: "inv s \<Longrightarrow> within (limits s) s"
begin

lemma inv_run: "inv s \<Longrightarrow> inv (foldl apply_step s xs) \<and> limits (foldl apply_step s xs) = limits s"
  by (induction xs arbitrary: s) (auto simp: inv_step limits_step)

text \<open>Whatever the operations and their order, the store stays within its limits.\<close>

lemma run_within: "inv s \<Longrightarrow> within (limits s) (foldl apply_step s xs)"
  using inv_run [of s xs] inv_within [of "foldl apply_step s xs"] by simp

end

definition counter_limits :: "Counter \<Rightarrow> int \<times> int" where
  "counter_limits c = (maxKeys c, ruleQuota c)"

definition within_limits :: "int \<times> int \<Rightarrow> Counter \<Rightarrow> bool" where
  "within_limits l c \<longleftrightarrow>
     int (size (live_rules (shards c))) \<le> fst l \<and> totalKeys c = int (size (live_rules (shards c))) \<and>
     (\<forall>rule. int (count (live_rules (shards c)) rule) \<le> snd l \<and>
             rule_count c rule = int (count (live_rules (shards c)) rule))"

lemma apply_op_inv:
  assumes "counter_inv c"
  shows "counter_inv (apply_op c x) \<and> counter_limits (apply_op c x) = counter_limits c"
proof (cases x)
  case (OpIncr now rule dim w)
  obtain res c' where "Incr now c rule dim w = (res, c')" by fastforce
  with counter_inv_Incr [OF assms this] OpIncr show ?thesis by (simp add: counter_limits_def)
next
  case (OpCleanup now idle)
  let ?i = "if idle \<le> 0 then 300 else idle"
  obtain shs c' n where s: "sweep_shards (\<lambda>r. int (lastSeen r) \<le> int now - ?i) (shards c) c = (shs, c', n)"
    by (metis prod_cases3)
  from counter_inv_sweep [OF assms this] OpCleanup s show ?thesis
    by (simp add: Cleanup_def Let_def counter_limits_def)
next
  case (OpDropRule rule)
  obtain shs c' n where s: "sweep_shards (\<lambda>r. ring_rule r = rule) (shards c) c = (shs, c', n)"
    by (metis prod_cases3)
  from counter_inv_sweep [OF assms this] OpDropRule s show ?thesis
    by (simp add: DropRule_def Let_def counter_limits_def)
next
  case OpReset
  with counter_inv_Reset [OF assms] show ?thesis by (simp add: counter_limits_def Reset_def)
qed

interpretation cc_store: counter_store counter_inv apply_op counter_limits within_limits
proof
  show "within_limits (counter_limits s) s" if "counter_inv s" for s
    using that by (auto simp: counter_inv_def counter_ok_def meta_ok_def within_limits_def counter_limits_def)
qed (simp_all add: apply_op_inv)

subsection \<open>The window in slots and in seconds\<close>

text \<open>The history of hits (times) a key's ring stands for; the clock does not run backwards.\<close>

definition key_holds :: "nat \<Rightarrow> nat list \<Rightarrow> Counter \<Rightarrow> string \<Rightarrow> bool" where
  "key_holds bw ts c key \<longleftrightarrow>
     (case lookup_ring c key of
        None \<Rightarrow> ts = []
      | Some r \<Rightarrow> ring_holds (map (\<lambda>t. t div bw) ts) r \<and> ring_slot r \<in> (\<lambda>t. t div bw) ` set ts)"

lemma bucket_width_pos [simp]: "0 < bucket_width w"
  by (auto simp: bucket_width_def Let_def)

lemma Incr_key_holds:
  assumes "counter_inv c" "key_holds (bucket_width w) ts c (buildKey rule dim)" "\<forall>t \<in> set ts. t \<le> now"
    "Incr now c rule dim w = (res, c')" "\<not> r_Rejected res" "\<not> r_Degraded res"
  shows "\<exists>r. lookup_ring c' (buildKey rule dim) = Some r \<and> r_Count res = ring_sum r \<and>
    ring_slot r = now div bucket_width w \<and> ring_holds (map (\<lambda>t. t div bucket_width w) (ts @ [now])) r"
proof -
  let ?bw = "bucket_width w" and ?k = "buildKey rule dim"
  have len: "length (shards c) = shardCount" using assms(1) by (simp add: counter_inv_def counter_ok_def)
  from assms(4) show ?thesis
  proof (cases rule: Incr_cases)
    case (hit ring)
    with assms(2) have h: "ring_holds (map (\<lambda>t. t div ?bw) ts) ring"
      "ring_slot ring \<in> (\<lambda>t. t div ?bw) ` set ts" by (auto simp: key_holds_def)
    then have "ring_slot ring \<le> now div ?bw" using assms(3) by (auto intro!: div_le_mono)
    from ring_holds_hit [OF h(1) this] hit len show ?thesis by (simp add: lookup_store)
  next
    case (fresh c1)
    with assms(2) have "ts = []" by (simp add: key_holds_def)
    moreover have "ring_slot (new_ring rule (now div ?bw)) = now div ?bw" by (simp add: new_ring_def)
    moreover have "length (shards c1) = shardCount" using reserve_frame [OF fresh(2)] len by simp
    ultimately show ?thesis
      using ring_holds_hit [OF ring_holds_new, of rule "now div ?bw" "now div ?bw" now] fresh
      by (simp add: lookup_store)
  qed (use assms(5,6) in simp_all)
qed

lemma Incr_other_keys:
  assumes "counter_inv c" "Incr now c rule dim w = (res, c')" "k \<noteq> buildKey rule dim"
  shows "lookup_ring c' k = lookup_ring c k"
proof -
  have len: "length (shards c) = shardCount" using assms(1) by (simp add: counter_inv_def counter_ok_def)
  from assms(2) show ?thesis
  proof (cases rule: Incr_cases)
    case (fresh c1)
    with reserve_frame [OF fresh(2)] len assms(3) show ?thesis
      by (simp add: lookup_store) (simp add: lookup_ring_def)
  qed (use len assms(3) in \<open>simp_all add: lookup_store, simp_all add: lookup_ring_def\<close>)
qed

lemma slot_window_lower: "0 < bw \<Longrightarrow> now \<le> t + 9 * bw \<Longrightarrow> now div bw < t div bw + (10 :: nat)"
proof -
  assume bw: "0 < bw" and le: "now \<le> t + 9 * bw"
  have "now div bw \<le> (t + bw * 9) div bw" using le by (intro div_le_mono) (simp add: mult.commute)
  also have "\<dots> = t div bw + 9" using bw by (simp add: div_mult_self4 add.commute)
  finally show ?thesis by simp
qed

lemma slot_window_upper:
  "0 < bw \<Longrightarrow> t \<le> now \<Longrightarrow> now div bw < t div bw + (10 :: nat) \<Longrightarrow> now < t + 10 * bw"
proof -
  assume bw: "0 < bw" and lt: "now div bw < t div bw + 10"
  have "now < (now div bw + 1) * bw" using bw by (metis Suc_eq_plus1 dividend_less_div_times mult.commute mult_Suc)
  also have "\<dots> \<le> (t div bw + 10) * bw" using lt by (intro mult_le_mono1) simp
  also have "\<dots> = t div bw * bw + 10 * bw" by (simp add: algebra_simps)
  also have "\<dots> \<le> t + 10 * bw" by simp
  finally show ?thesis .
qed

lemma length_filter_mono:
  "(\<And>x. x \<in> set xs \<Longrightarrow> P x \<Longrightarrow> Q x) \<Longrightarrow> length (filter P xs) \<le> length (filter Q xs)"
  by (induction xs) (auto intro: le_SucI)

subsection \<open>Rings whose slot lies in the future\<close>

text \<open>
  A ring's slot is in units of the bucket width of the rule at the time of the hit. With a larger
  width the slots are smaller numbers, so the ring looks ahead of the clock.
\<close>

definition counts_are :: "(nat \<Rightarrow> nat) \<Rightarrow> bucketRing \<Rightarrow> bool" where
  "counts_are f r \<longleftrightarrow>
     length (counts r) = numBuckets \<and> (\<forall>j < numBuckets. counts r ! j = of_nat (f j))"

lemma counts_are_sum:
  assumes "counts_are f r" "(\<Sum>j<numBuckets. f j) < 2 ^ 31"
  shows "ring_sum r = int (\<Sum>j<numBuckets. f j)"
proof -
  have "ring_sum r = (\<Sum>j<numBuckets. sint (counts r ! j))"
    using assms(1) by (simp add: ring_sum_def sum_list_sum_nth counts_are_def atLeast0LessThan)
  also have "\<dots> = (\<Sum>j<numBuckets. int (f j))"
  proof (rule sum.cong [OF refl])
    fix j assume j: "j \<in> {..<numBuckets}"
    have "f j \<le> (\<Sum>j<numBuckets. f j)" using j by (intro member_le_sum) auto
    with assms j show "sint (counts r ! j) = int (f j)"
      by (simp add: counts_are_def sint_of_nat_small)
  qed
  finally show ?thesis by simp
qed

lemma stale_hit:
  assumes "counts_are f r" "s \<le> ring_slot r"
  shows "counts_are (f(s mod numBuckets := f (s mod numBuckets) + 1)) (ring_hit r s now) \<and>
    ring_slot (ring_hit r s now) = ring_slot r"
  using assms by (auto simp: counts_are_def ring_hit_def ring_advance_def Let_def nth_list_update)

lemma stale_hits:
  "counts_are f r \<Longrightarrow> (\<And>s. s \<in> set ss \<Longrightarrow> s \<le> ring_slot r) \<Longrightarrow>
   \<exists>g. counts_are g (fold (\<lambda>s r. ring_hit r s now) ss r) \<and>
       (\<Sum>j<numBuckets. g j) = (\<Sum>j<numBuckets. f j) + length ss"
proof (induction ss arbitrary: f r)
  case Nil
  then show ?case by auto
next
  case (Cons s ss)
  define h where "h = f(s mod numBuckets := f (s mod numBuckets) + 1)"
  have "(\<Sum>j<numBuckets. h j) = (\<Sum>j<numBuckets. f j + (if j = s mod numBuckets then 1 else 0))"
    by (intro sum.cong) (auto simp: h_def)
  then have "(\<Sum>j<numBuckets. h j) = (\<Sum>j<numBuckets. f j) + 1" by (simp add: sum.distrib)
  moreover have "counts_are h (ring_hit r s now)" "ring_slot (ring_hit r s now) = ring_slot r"
    using stale_hit [OF Cons.prems(1), of s now] Cons.prems(2) by (simp_all add: h_def)
  ultimately show ?case
    using Cons.IH [of h "ring_hit r s now"] Cons.prems(2) by simp
qed

text \<open>The value a counted request returns: the hits of the ten slots up to the current one.\<close>

lemma Incr_count:
  assumes "counter_inv c" "key_holds (bucket_width w) ts c (buildKey rule dim)"
    "\<forall>t \<in> set ts. t \<le> now" "length ts + 1 < 2 ^ 31"
    "Incr now c rule dim w = (res, c')" "\<not> r_Rejected res" "\<not> r_Degraded res"
  shows "r_Count res = int (length (filter (\<lambda>t. now div bucket_width w < t div bucket_width w + 10) (ts @ [now]))) \<and>
    key_holds (bucket_width w) (ts @ [now]) c' (buildKey rule dim)"
proof -
  let ?bw = "bucket_width w"
  from Incr_key_holds [OF assms(1-3,5-7)] obtain r where r:
    "lookup_ring c' (buildKey rule dim) = Some r" "r_Count res = ring_sum r"
    "ring_slot r = now div ?bw" "ring_holds (map (\<lambda>t. t div ?bw) (ts @ [now])) r" by blast
  let ?P = "\<lambda>t. now div ?bw < t div ?bw + 10"
  have le: "\<forall>t \<in> set (ts @ [now]). t \<le> now" using assms(3) by auto
  have "window_hits (now div ?bw) (map (\<lambda>t. t div ?bw) (ts @ [now])) = length (filter ?P (ts @ [now]))"
  proof -
    have "filter (\<lambda>t. t div ?bw \<le> now div ?bw \<and> now div ?bw < t div ?bw + numBuckets) (ts @ [now]) =
        filter ?P (ts @ [now])"
      using le by (intro filter_cong) (auto simp: numBuckets_def intro!: div_le_mono)
    then show ?thesis by (simp only: window_hits_def filter_map length_map comp_def)
  qed
  then have "r_Count res = int (length (filter ?P (ts @ [now])))"
    using ring_sum_holds [OF r(4)] r(2,3) assms(4) by simp
  moreover have "key_holds ?bw (ts @ [now]) c' (buildKey rule dim)"
    using r by (auto simp: key_holds_def)
  ultimately show ?thesis by blast
qed

subsection \<open>Properties\<close>

text \<open>
  C11. The sliding window. When the clock does not run backwards and the key's ring stands for the
  hits at times \<open>ts\<close>, a counted request returns the number of hits whose slot is one of the ten
  up to the current one. In seconds: every hit of the last nine bucket widths is counted and no
  hit older than ten bucket widths is. The ring then stands for the hits with this one added.
\<close>

theorem Incr_window:
  assumes "counter_inv c" "key_holds (bucket_width w) ts c (buildKey rule dim)"
    "\<forall>t \<in> set ts. t \<le> now" "length ts + 1 < 2 ^ 31"
    "Incr now c rule dim w = (res, c')" "\<not> r_Rejected res" "\<not> r_Degraded res"
  shows "r_Count res = int (length (filter (\<lambda>t. now div bucket_width w < t div bucket_width w + 10) (ts @ [now]))) \<and>
    int (length (filter (\<lambda>t. now \<le> t + 9 * bucket_width w) (ts @ [now]))) \<le> r_Count res \<and>
    r_Count res \<le> int (length (filter (\<lambda>t. now < t + 10 * bucket_width w) (ts @ [now]))) \<and>
    key_holds (bucket_width w) (ts @ [now]) c' (buildKey rule dim)"
proof -
  let ?bw = "bucket_width w" and ?P = "\<lambda>t. now div bucket_width w < t div bucket_width w + 10"
  note cnt = Incr_count [OF assms]
  have le: "\<forall>t \<in> set (ts @ [now]). t \<le> now" using assms(3) by auto
  have "length (filter (\<lambda>t. now \<le> t + 9 * ?bw) (ts @ [now])) \<le> length (filter ?P (ts @ [now]))"
    by (intro length_filter_mono slot_window_lower) auto
  moreover have "length (filter ?P (ts @ [now])) \<le> length (filter (\<lambda>t. now < t + 10 * ?bw) (ts @ [now]))"
    using le by (intro length_filter_mono slot_window_upper) auto
  ultimately show ?thesis using cnt by linarith
qed

theorem Incr_window_witness:
  "\<exists>res c'. Incr 1000 (New 0 0) ''r1'' ''10.0.0.1'' 60 = (res, c') \<and> r_Count res = 1 \<and>
     key_holds (bucket_width 60) [1000] c' (buildKey ''r1'' ''10.0.0.1'')"
proof -
  obtain res c' where i: "Incr 1000 (New 0 0) ''r1'' ''10.0.0.1'' 60 = (res, c')" by fastforce
  have none: "lookup_ring (New 0 0) k = None" for k
    using shardFor_lt [of k] by (simp add: lookup_ring_def New_def)
  have nr: "\<not> r_Rejected res \<and> \<not> r_Degraded res"
    using i by (cases rule: Incr_cases)
      (auto simp: none New_def defaultMaxKeys_def defaultRuleQuota_def rule_count_def)
  have "key_holds (bucket_width 60) [] (New 0 0) (buildKey ''r1'' ''10.0.0.1'')"
    by (simp add: key_holds_def none)
  from Incr_window [OF counter_inv_New this _ _ i] nr i show ?thesis by simp
qed

text \<open>
  C15. The memory bound. Starting from a new counter, after any sequence of increments, clean-ups,
  rule removals and resets the number of live rings equals the key counter and is at most the key
  limit, and each rule's share equals its own counter and is at most the quota.
\<close>

theorem counter_run_within:
  "let c = foldl apply_op (New mk rq) ops; live = live_rules (shards c)
   in ActiveKeys c = int (size live) \<and> ActiveKeys c \<le> maxKeys (New mk rq) \<and>
      (\<forall>rule. rule_count c rule = int (count live rule) \<and>
              int (count live rule) \<le> ruleQuota (New mk rq))"
  using cc_store.run_within [OF counter_inv_New, of mk rq ops]
  by (simp add: within_limits_def counter_limits_def ActiveKeys_def Let_def)

text \<open>
  Keys of different rules never collide, whatever the client-controlled dimension value is:
  the hash of the value is written without the separator.
\<close>

theorem buildKey_separates:
  assumes "ruleA \<noteq> ruleB"
  shows "buildKey ruleA dimA \<noteq> buildKey ruleB dimB"
  using buildKey_rule assms by blast

theorem buildKey_separates_witness: "buildKey ''r1'' ''x:y'' \<noteq> buildKey ''r1:2'' ''z''"
  by (rule buildKey_separates) simp

text \<open>
  A counted request changes the ring of its own key alone: no other client and no other rule
  gains or loses a hit.
\<close>

theorem Incr_isolated:
  assumes "counter_inv c" "Incr now c rule dim w = (res, c')" "k \<noteq> buildKey rule dim"
  shows "counter_inv c' \<and> lookup_ring c' k = lookup_ring c k"
  using counter_inv_Incr [OF assms(1,2)] Incr_other_keys [OF assms] by simp

theorem Incr_isolated_witness:
  "\<exists>res c'. Incr 5 (New 0 0) ''a'' ''x'' 10 = (res, c') \<and> lookup_ring c' (buildKey ''b'' ''x'') = None"
proof -
  obtain res c' where i: "Incr 5 (New 0 0) ''a'' ''x'' 10 = (res, c')" by fastforce
  have ne: "buildKey ''b'' ''x'' \<noteq> buildKey ''a'' ''x''" by (auto dest: buildKey_rule)
  from Incr_isolated [OF counter_inv_New i ne] i show ?thesis
    using shardFor_lt [of "buildKey ''b'' ''x''"] by (simp add: lookup_ring_def New_def)
qed

text \<open>
  After the window of a rule is enlarged, the rings it already has carry slots ahead of the
  new clock and nothing expires any more: every further hit whose slot is not beyond the ring's
  own is added to the count for good, however far apart the hits are in time.
\<close>

theorem enlarged_window_never_expires:
  assumes "counts_are f r" "\<forall>t \<in> set ts. t div bucket_width w \<le> ring_slot r"
    "(\<Sum>j<numBuckets. f j) + length ts < 2 ^ 31"
  shows "ring_sum (fold (\<lambda>s r. ring_hit r s now) (map (\<lambda>t. t div bucket_width w) ts) r) =
         ring_sum r + int (length ts)"
proof -
  from stale_hits [OF assms(1), of "map (\<lambda>t. t div bucket_width w) ts" now] assms(2) obtain g where
    g: "counts_are g (fold (\<lambda>s r. ring_hit r s now) (map (\<lambda>t. t div bucket_width w) ts) r)"
    "(\<Sum>j<numBuckets. g j) = (\<Sum>j<numBuckets. f j) + length ts" by auto
  with counts_are_sum [OF g(1)] counts_are_sum [OF assms(1)] assms(3) show ?thesis by simp
qed

text \<open>The window grows from 60 to 600 seconds; three hits a day apart are all counted.\<close>

theorem enlarged_window_never_expires_witness:
  "ring_sum (fold (\<lambda>s r. ring_hit r s 0) (map (\<lambda>t. t div bucket_width 600)
      [1700000000, 1700086400, 1700172800]) (new_ring ''r1'' (1700000000 div bucket_width 60))) = 3"
proof -
  let ?r = "new_ring ''r1'' (1700000000 div bucket_width 60)"
  have "counts_are (\<lambda>_. 0) ?r" by (simp add: counts_are_def new_ring_def)
  moreover have "\<forall>t \<in> set [1700000000, 1700086400, 1700172800]. t div bucket_width 600 \<le> ring_slot ?r"
    by (simp add: new_ring_def bucket_width_def numBuckets_def)
  ultimately show ?thesis
    using enlarged_window_never_expires [of "\<lambda>_. 0" ?r "[1700000000, 1700086400, 1700172800]" 600 0]
    by (simp add: ring_sum_def new_ring_def numBuckets_def sum_list_replicate)
qed

text \<open>
  \<open>Cleanup\<close> removes exactly the rings idle for the given time: such a key reads as absent
  afterwards, every other ring is kept unchanged, and the number returned is that of the keys
  released.
\<close>

theorem Cleanup_exact:
  assumes "counter_inv c" "Cleanup now c idle = (n, c')" "0 < idle"
  shows "counter_inv c' \<and> int n = ActiveKeys c - ActiveKeys c' \<and>
    (\<forall>k. lookup_ring c' k =
       (case lookup_ring c k of None \<Rightarrow> None
        | Some r \<Rightarrow> if int (lastSeen r) + idle \<le> int now then None else Some r))"
proof -
  let ?sel = "\<lambda>r. int (lastSeen r) \<le> int now - idle"
  obtain shs c1 m where s: "sweep_shards ?sel (shards c) c = (shs, c1, m)" by (metis prod_cases3)
  with assms(2,3) have eq: "c' = c1\<lparr>shards := shs\<rparr>" "n = m" by (auto simp: Cleanup_def Let_def)
  have ok: "counter_ok c" using assms(1) by (simp add: counter_inv_def)
  then have "meta_ok c (live_rules (shards c) + {#})" by (simp add: counter_ok_def)
  note sp = sweep_shards_spec [OF this s]
  have inv: "counter_inv c'" using counter_inv_sweep [OF assms(1) s] eq by simp
  have "lookup_ring c' k = (case lookup_ring c k of None \<Rightarrow> None
        | Some r \<Rightarrow> if int (lastSeen r) + idle \<le> int now then None else Some r)" for k
  proof -
    have "distinct (map fst (shards c ! shardFor k))" "shardFor k < length (shards c)"
      using ok shardFor_lt [of k] by (auto simp: counter_ok_def shard_ok_def)
    with sp eq show ?thesis
      by (auto simp: lookup_ring_def
          map_of_filter_distinct [where P = "\<lambda>r. \<not> int (lastSeen r) \<le> int now - idle"]
          split: option.splits)
  qed
  moreover have "int n = ActiveKeys c - ActiveKeys c'"
  proof -
    have "totalKeys c = int (length (concat (shards c)))" "totalKeys c1 = int (length (concat shs))"
      using ok sp by (auto simp: counter_ok_def meta_ok_def live_rules_def shard_rules_def)
    moreover have "m + length (concat shs) = length (concat (shards c))" using sp by blast
    ultimately show ?thesis using eq by (simp add: ActiveKeys_def)
  qed
  ultimately show ?thesis using inv by blast
qed

theorem Cleanup_exact_witness:
  "\<exists>n c'. Cleanup 1000 (New 0 0) 300 = (n, c') \<and> n = 0 \<and> counter_inv c'"
proof -
  obtain n c' where r: "Cleanup 1000 (New 0 0) 300 = (n, c')" by fastforce
  have "fst (snd (sweep_shards sel (replicate k []) c)) = c" for sel k c
    by (induction k) (auto simp: Let_def split: prod.splits)
  then have "ActiveKeys c' = 0" using r
    by (auto simp: Cleanup_def New_def ActiveKeys_def Let_def split: prod.splits) (metis (no_types, lifting) Counter.select_convs(3) fst_conv snd_conv)
  with Cleanup_exact [OF counter_inv_New r] r show ?thesis by (simp add: ActiveKeys_def New_def)
qed

end
