(* ===== verification/Cc_Stats.thy ===== *)
theory Cc_Stats
  imports Main "HOL-Library.Product_Lexorder" "HOL-Library.List_Lexorder" "HOL-Library.Char_ord" "HOL-Library.AList"
begin

text \<open>
  Package ccstats (hits.go): which CC rules fired and for whom, in memory and bounded, for the board of hits.

  A Go map with its size is an association list with distinct keys. Times are in seconds and an argument; each method
  runs under the tracker's lock. The comparison of the board is the lexicographic order on the negated count, the
  negated time and the text, compared byte by byte.
\<close>

subsection \<open>State\<close>

definition maxRules :: nat where "maxRules = 500"
definition maxClientsPerRule :: nat where "maxClientsPerRule = 200"
definition TopDefault :: int where "TopDefault = 50"

record clientCell =
  cl_count :: int
  cl_lastAt :: int

record ruleCell =
  rc_total :: int
  rc_byAction :: "(string \<times> int) list"
  rc_firstAt :: int
  rc_lastAt :: int
  rc_clients :: "(string \<times> clientCell) list"
  rc_truncated :: bool

record Tracker =
  tr_rules :: "(string \<times> ruleCell) list"
  tr_startedAt :: int

record ClientStat =
  cst_DimValue :: string
  cst_Count :: int
  cst_LastAt :: int

record RuleStat =
  rs_RuleId :: string
  rs_Total :: int
  rs_ByAction :: "(string \<times> int) list"
  rs_FirstAt :: int
  rs_LastAt :: int
  rs_Clients :: "ClientStat list"
  rs_Truncated :: bool

definition tracker_New :: "int \<Rightarrow> Tracker" where
  "tracker_New now = \<lparr>tr_rules = [], tr_startedAt = now\<rparr>"

subsection \<open>Operations\<close>

definition new_cell :: "int \<Rightarrow> ruleCell" where
  "new_cell now =
     \<lparr>rc_total = 0, rc_byAction = [], rc_firstAt = now, rc_lastAt = 0, rc_clients = [], rc_truncated = False\<rparr>"

definition bump_action :: "string \<Rightarrow> (string \<times> int) list \<Rightarrow> (string \<times> int) list" where
  "bump_action action m = AList.update action ((case map_of m action of None \<Rightarrow> 0 | Some n \<Rightarrow> n) + 1) m"

definition record_client :: "int \<Rightarrow> string \<Rightarrow> ruleCell \<Rightarrow> ruleCell" where
  "record_client now dimValue rc =
     (if dimValue = [] then rc
      else
        (case map_of (rc_clients rc) dimValue of
           Some cc \<Rightarrow>
             rc\<lparr>rc_clients := AList.update dimValue \<lparr>cl_count = cl_count cc + 1, cl_lastAt = now\<rparr> (rc_clients rc)\<rparr>
         | None \<Rightarrow>
             if maxClientsPerRule \<le> length (rc_clients rc) then rc\<lparr>rc_truncated := True\<rparr>
             else rc\<lparr>rc_clients := AList.update dimValue \<lparr>cl_count = 1, cl_lastAt = now\<rparr> (rc_clients rc)\<rparr>))"

definition record_hit :: "int \<Rightarrow> string \<Rightarrow> string \<Rightarrow> ruleCell \<Rightarrow> ruleCell" where
  "record_hit now action dimValue rc =
     record_client now dimValue
       (rc\<lparr>rc_total := rc_total rc + 1, rc_lastAt := now,
           rc_byAction := (if action = [] then rc_byAction rc else bump_action action (rc_byAction rc))\<rparr>)"

definition Record :: "int \<Rightarrow> string \<Rightarrow> string \<Rightarrow> string \<Rightarrow> Tracker \<Rightarrow> Tracker" where
  "Record now ruleId action dimValue t =
     (if ruleId = [] then t
      else
        (case map_of (tr_rules t) ruleId of
           Some rc \<Rightarrow> t\<lparr>tr_rules := AList.update ruleId (record_hit now action dimValue rc) (tr_rules t)\<rparr>
         | None \<Rightarrow>
             if maxRules \<le> length (tr_rules t) then t
             else t\<lparr>tr_rules := AList.update ruleId (record_hit now action dimValue (new_cell now)) (tr_rules t)\<rparr>))"

definition Counts :: "Tracker \<Rightarrow> (string \<times> int) list" where
  "Counts t = map (\<lambda>(rid, rc). (rid, rc_total rc)) (tr_rules t)"

definition board_key :: "ClientStat \<Rightarrow> int \<times> int \<times> string" where
  "board_key c = (- cst_Count c, - cst_LastAt c, cst_DimValue c)"

definition client_stats :: "ruleCell \<Rightarrow> ClientStat list" where
  "client_stats rc =
     map (\<lambda>(dim, cc). \<lparr>cst_DimValue = dim, cst_Count = cl_count cc, cst_LastAt = cl_lastAt cc\<rparr>) (rc_clients rc)"

definition Board :: "Tracker \<Rightarrow> string \<Rightarrow> int \<Rightarrow> RuleStat" where
  "Board t ruleId topN =
     (case map_of (tr_rules t) ruleId of
        None \<Rightarrow> \<lparr>rs_RuleId = ruleId, rs_Total = 0, rs_ByAction = [], rs_FirstAt = 0, rs_LastAt = 0, rs_Clients = [],
                 rs_Truncated = False\<rparr>
      | Some rc \<Rightarrow>
          \<lparr>rs_RuleId = ruleId, rs_Total = rc_total rc, rs_ByAction = rc_byAction rc, rs_FirstAt = rc_firstAt rc,
           rs_LastAt = rc_lastAt rc,
           rs_Clients = take (nat (if topN \<le> 0 then TopDefault else topN)) (sort_key board_key (client_stats rc)),
           rs_Truncated = rc_truncated rc\<rparr>)"

definition StartedAt :: "Tracker \<Rightarrow> int" where "StartedAt t = tr_startedAt t"

definition tracker_Drop :: "string \<Rightarrow> Tracker \<Rightarrow> Tracker" where
  "tracker_Drop ruleId t = t\<lparr>tr_rules := AList.delete ruleId (tr_rules t)\<rparr>"

definition tracker_Reset :: "int \<Rightarrow> Tracker \<Rightarrow> Tracker" where
  "tracker_Reset now t = \<lparr>tr_rules = [], tr_startedAt = now\<rparr>"

definition tracker_Stats :: "Tracker \<Rightarrow> (string \<times> int) list" where
  "tracker_Stats t =
    [(''rules'', int (length (tr_rules t))),
     (''clients'', sum_list (map (\<lambda>(rid, rc). int (length (rc_clients rc))) (tr_rules t))),
     (''truncated_rules'', int (length (filter (\<lambda>(rid, rc). rc_truncated rc) (tr_rules t)))),
     (''max_rules'', int maxRules), (''max_clients_rule'', int maxClientsPerRule), (''started_at'', tr_startedAt t)]"

subsection \<open>Invariant\<close>

definition client_total :: "ruleCell \<Rightarrow> int" where
  "client_total rc = sum_list (map (cl_count \<circ> snd) (rc_clients rc))"

text \<open>
  Distinct keys within the limits; every listed client fired at least once; no more hits are attributed to clients
  than there were, and a full table is the only reason besides hits without a value that some are not.
\<close>

definition cell_ok :: "ruleCell \<Rightarrow> bool" where
  "cell_ok rc \<longleftrightarrow>
     distinct (map fst (rc_clients rc)) \<and> length (rc_clients rc) \<le> maxClientsPerRule \<and>
     list_all (\<lambda>(dim, cc). dim \<noteq> [] \<and> 1 \<le> cl_count cc) (rc_clients rc) \<and>
     client_total rc \<le> rc_total rc \<and>
     (rc_truncated rc \<longrightarrow> length (rc_clients rc) = maxClientsPerRule)"

definition tracker_ok :: "Tracker \<Rightarrow> bool" where
  "tracker_ok t \<longleftrightarrow>
     distinct (map fst (tr_rules t)) \<and> length (tr_rules t) \<le> maxRules \<and> list_all (\<lambda>(rid, rc). cell_ok rc) (tr_rules t)"

lemma update_length: "length (AList.update k v m) = length m + (if k \<in> fst ` set m then 0 else 1)"
  by (induction m) auto

lemma update_present_length: "map_of m k = Some w \<Longrightarrow> length (AList.update k v m) = length m"
  by (auto simp: update_length dest: map_of_SomeD) (metis fst_conv image_eqI map_of_SomeD)

lemma update_list_all:
  assumes "list_all P m" "P (k, v)"
  shows "list_all P (AList.update k v m)"
  using assms by (induction m) auto

lemma update_absent: "map_of m k = None \<Longrightarrow> AList.update k v m = m @ [(k, v)]"
  by (induction m) auto

lemma update_sum:
  assumes "map_of m k = Some w"
  shows "sum_list (map (f \<circ> snd) (AList.update k v m)) = sum_list (map (f \<circ> snd) m) - f w + (f v :: int)"
  using assms by (induction m) (auto split: if_splits)

lemma record_client_ok:
  assumes "cell_ok rc" "client_total rc < rc_total rc"
  shows "cell_ok (record_client now dim rc)"
proof (cases "dim = [] \<or> map_of (rc_clients rc) dim = None \<and> maxClientsPerRule \<le> length (rc_clients rc)")
  case True
  then show ?thesis
    using assms by (auto simp: record_client_def cell_ok_def client_total_def)
next
  case False
  show ?thesis
  proof (cases "map_of (rc_clients rc) dim")
    case None
    then have "dim \<notin> fst ` set (rc_clients rc)" by (simp add: map_of_eq_None_iff)
    with None False assms show ?thesis
      by (auto simp: record_client_def cell_ok_def client_total_def update_absent)
  next
    case (Some cc)
    with assms have "1 \<le> cl_count cc" by (auto simp: cell_ok_def list_all_iff dest!: map_of_SomeD)
    with Some False assms show ?thesis
      by (auto simp: record_client_def cell_ok_def client_total_def update_present_length update_sum distinct_update
          intro!: update_list_all)
  qed
qed

lemma record_hit_ok:
  assumes "cell_ok rc"
  shows "cell_ok (record_hit now action dim rc)"
  unfolding record_hit_def by (rule record_client_ok) (use assms in \<open>auto simp: cell_ok_def client_total_def\<close>)

lemma new_cell_ok: "cell_ok (new_cell now)"
  by (simp add: cell_ok_def new_cell_def client_total_def)

text \<open>
  The memory of the tracker is bounded and its numbers are consistent, whatever is recorded: at most 500 rules and
  200 clients per rule, each client once, no more hits attributed to clients than counted, and \<open>truncated\<close> set
  only when the table of clients is full.
\<close>

theorem Record_keeps_bounds:
  assumes "tracker_ok t"
  shows "tracker_ok (Record now ruleId action dim t) \<and> tracker_ok (tracker_Drop ruleId t) \<and> tracker_ok (tracker_Reset now t)"
proof (intro conjI)
  show "tracker_ok (Record now ruleId action dim t)"
  proof (cases "map_of (tr_rules t) ruleId")
    case None
    then have "ruleId \<notin> fst ` set (tr_rules t)" by (simp add: map_of_eq_None_iff)
    with None show ?thesis
      using assms by (simp add: Record_def tracker_ok_def update_absent record_hit_ok new_cell_ok)
  next
    case (Some rc)
    then have "cell_ok rc" using assms by (auto simp: tracker_ok_def list_all_iff dest!: map_of_SomeD)
    with Some show ?thesis
      using assms
      by (auto simp: Record_def tracker_ok_def distinct_update update_present_length record_hit_ok intro!: update_list_all)
  qed
  have "length (AList.delete ruleId (tr_rules t)) \<le> length (tr_rules t)" by (simp add: AList.delete_eq)
  moreover have "set (AList.delete ruleId (tr_rules t)) \<subseteq> set (tr_rules t)" by (auto simp: AList.delete_eq)
  ultimately show "tracker_ok (tracker_Drop ruleId t)"
    using assms unfolding tracker_ok_def tracker_Drop_def list_all_iff by (force simp: distinct_delete)
  show "tracker_ok (tracker_Reset now t)" by (simp add: tracker_ok_def tracker_Reset_def)
qed

theorem Record_keeps_bounds_witness:
  "tracker_ok (Record 5 ''r'' ''deny'' ''1.1.1.1'' (tracker_New 0))"
proof -
  have "tracker_ok (tracker_New 0)" by (simp add: tracker_ok_def tracker_New_def)
  from Record_keeps_bounds [OF this, of 5 "''r''" "''deny''" "''1.1.1.1''"] show ?thesis by simp
qed

subsection \<open>The board\<close>

text \<open>
  The board shows the worst clients: at most the requested number (50 by default), in descending order of
  hits, and every client that is listed in the tracker and not shown fired at most as often as each one shown.
\<close>

theorem Board_top:
  assumes "map_of (tr_rules t) ruleId = Some rc" "c \<in> set (client_stats rc)"
    "s \<in> set (rs_Clients (Board t ruleId topN))" "c \<notin> set (rs_Clients (Board t ruleId topN))"
  shows "cst_Count c \<le> cst_Count s \<and> length (rs_Clients (Board t ruleId topN)) \<le> nat (if topN \<le> 0 then TopDefault else topN)"
proof -
  define n where "n = nat (if topN \<le> 0 then TopDefault else topN)"
  define L where "L = sort_key board_key (client_stats rc)"
  have B: "rs_Clients (Board t ruleId topN) = take n L" using assms(1) by (simp add: Board_def n_def L_def)
  have "c \<in> set L" using assms(2) by (simp add: L_def)
  then have c: "c \<in> set (drop n L)" using assms(4) unfolding B by (metis Un_iff append_take_drop_id set_append)
  have "sorted (map board_key (take n L @ drop n L))" by (simp add: L_def)
  then have "board_key s \<le> board_key c"
    using c assms(3) unfolding B by (simp only: map_append sorted_append set_map) blast
  then show ?thesis unfolding B by (auto simp: board_key_def less_eq_prod_def n_def)
qed

theorem Board_top_witness:
  "let t = Record 9 ''r'' ''deny'' ''b'' (Record 8 ''r'' ''deny'' ''b'' (Record 7 ''r'' ''deny'' ''a'' (tracker_New 0)))
   in map cst_DimValue (rs_Clients (Board t ''r'' 1)) = [''b''] \<and> cst_Count (hd (client_stats (the (map_of (tr_rules t) ''r'')))) \<le> 2"
proof -
  define t where "t = Record 9 ''r'' ''deny'' ''b'' (Record 8 ''r'' ''deny'' ''b'' (Record 7 ''r'' ''deny'' ''a'' (tracker_New 0)))"
  define rc where "rc = the (map_of (tr_rules t) ''r'')"
  have r: "map_of (tr_rules t) ''r'' = Some rc" unfolding t_def rc_def by code_simp
  have cs: "client_stats rc = [\<lparr>cst_DimValue = ''a'', cst_Count = 1, cst_LastAt = 7\<rparr>, \<lparr>cst_DimValue = ''b'', cst_Count = 2, cst_LastAt = 9\<rparr>]"
    unfolding t_def rc_def by code_simp
  have b: "rs_Clients (Board t ''r'' 1) = [\<lparr>cst_DimValue = ''b'', cst_Count = 2, cst_LastAt = 9\<rparr>]"
    unfolding t_def by code_simp
  show ?thesis
    using Board_top [OF r, of "\<lparr>cst_DimValue = ''a'', cst_Count = 1, cst_LastAt = 7\<rparr>" "\<lparr>cst_DimValue = ''b'', cst_Count = 2, cst_LastAt = 9\<rparr>" 1]
    unfolding t_def [symmetric] Let_def rc_def [symmetric] cs b by simp
qed

end
