(* ===== verification/Cc_Ban.thy ===== *)
theory Cc_Ban
  imports Http_Model Waf_Cache
begin

text \<open>
  The temporary bans the engine keeps in the cache: model/anticc_ban.go and model/rule_ban.go (the keys),
  wafenginecore/anticc_ban.go, wafenginecore/rule_ban.go and \<open>banCCWithScope\<close> of checkcc.go (look-up and writing),
  and their administration in api/waf_anticc.go and service/waf_service/waf_rule_ban_service.go.

  The global cache is nil before it is set up: an operation takes \<open>None\<close> for it then. The clock is an argument, in
  nanoseconds. Messages for the notification queue are not modelled beyond whether one is sent.
\<close>

subsection \<open>Keys\<close>

definition CACHE_CCVISITBAN_PRE :: string where "CACHE_CCVISITBAN_PRE = ''CACHE_CCVISITBAN_PRE_''"
definition CACHE_RULE_BAN_PRE :: string where "CACHE_RULE_BAN_PRE = ''CACHE_RULE_BAN_PRE_''"

definition CCBanScopeGlobal :: string where "CCBanScopeGlobal = ''global''"
definition CCBanScopeHost :: string where "CCBanScopeHost = ''host''"

definition BuildCCBanKey :: "string \<Rightarrow> string \<Rightarrow> string \<Rightarrow> string" where
  "BuildCCBanKey scope hostCode ip =
     (if scope \<noteq> CCBanScopeHost then CACHE_CCVISITBAN_PRE @ CCBanScopeGlobal @ ''|'' @ ''|'' @ ip
      else CACHE_CCVISITBAN_PRE @ scope @ ''|'' @ hostCode @ ''|'' @ ip)"

definition ParseCCBanKey :: "string \<Rightarrow> string \<times> string \<times> string \<times> bool" where
  "ParseCCBanKey key =
     (if \<not> HasPrefix key CACHE_CCVISITBAN_PRE then ([], [], [], False)
      else
        (let rest = TrimPrefix key CACHE_CCVISITBAN_PRE
         in case StrSplitN3 (CHR ''|'') rest of
              [scope, hostCode, ip] \<Rightarrow>
                (if scope \<noteq> CCBanScopeHost then CCBanScopeGlobal else scope, hostCode, ip, ip \<noteq> [])
            | _ \<Rightarrow> (CCBanScopeGlobal, [], rest, rest \<noteq> [])))"

definition CCBanLookupKeys :: "string \<Rightarrow> string \<Rightarrow> string list" where
  "CCBanLookupKeys hostCode ip = [BuildCCBanKey CCBanScopeGlobal [] ip, BuildCCBanKey CCBanScopeHost hostCode ip]"

definition LegacyCCBanKey :: "string \<Rightarrow> string" where
  "LegacyCCBanKey ip = CACHE_CCVISITBAN_PRE @ ip"

definition BuildRuleBanKey :: "string \<Rightarrow> string \<Rightarrow> string" where
  "BuildRuleBanKey hostCode ip = CACHE_RULE_BAN_PRE @ hostCode @ ''|'' @ ip"

text \<open>\<open>strings.LastIndex\<close> of a byte, as the parts before and after it.\<close>

definition StrCutLast :: "char \<Rightarrow> string \<Rightarrow> (string \<times> string) option" where
  "StrCutLast c s = map_option (\<lambda>(a, b). (rev b, rev a)) (StrCut c (rev s))"

definition ParseRuleBanKey :: "string \<Rightarrow> string \<times> string \<times> bool" where
  "ParseRuleBanKey key =
     (if \<not> HasPrefix key CACHE_RULE_BAN_PRE then ([], [], False)
      else
        (case StrCutLast (CHR ''|'') (TrimPrefix key CACHE_RULE_BAN_PRE) of
           None \<Rightarrow> ([], [], False)
         | Some (hostCode, ip) \<Rightarrow> if hostCode = [] then ([], [], False) else (hostCode, ip, True)))"

subsection \<open>Looking up and writing bans\<close>

text \<open>The first of the keys that exists; a key found expired is deleted on the way.\<close>

fun first_key :: "int \<Rightarrow> string list \<Rightarrow> 'r WafCache \<Rightarrow> string option \<times> 'r WafCache" where
  "first_key now [] c = (None, c)"
| "first_key now (k # ks) c =
     (case IsKeyExist now c k of (True, c') \<Rightarrow> (Some k, c') | (False, c') \<Rightarrow> first_key now ks c')"

definition matchCCBan ::
  "int \<Rightarrow> string \<Rightarrow> string \<Rightarrow> string \<Rightarrow> string \<Rightarrow> 'r WafCache option \<Rightarrow> (string \<times> string) \<times> 'r WafCache option" where
  "matchCCBan now hostCode netSrcIP srcIP ipMode store =
     (case store of
        None \<Rightarrow> (([], []), None)
      | Some c \<Rightarrow>
          (let clientIP = GetClientIPByMode ipMode netSrcIP srcIP
           in if clientIP = [] then (([], []), Some c)
              else
                (case first_key now (CCBanLookupKeys hostCode clientIP @ [LegacyCCBanKey clientIP]) c of
                   (Some key, c') \<Rightarrow> ((key, clientIP), Some c')
                 | (None, c') \<Rightarrow> (([], clientIP), Some c'))))"

definition matchRuleBan ::
  "int \<Rightarrow> string \<Rightarrow> string \<Rightarrow> string \<Rightarrow> string \<Rightarrow> 'r WafCache option \<Rightarrow> (string \<times> string) \<times> 'r WafCache option" where
  "matchRuleBan now hostCode netSrcIP srcIP ipMode store =
     (case store of
        None \<Rightarrow> (([], []), None)
      | Some c \<Rightarrow>
          (let clientIP = GetClientIPByMode ipMode netSrcIP srcIP
           in if clientIP = [] then (([], []), Some c)
              else
                (case IsKeyExist now c (BuildRuleBanKey hostCode clientIP) of
                   (True, c') \<Rightarrow> ((BuildRuleBanKey hostCode clientIP, clientIP), Some c')
                 | (False, c') \<Rightarrow> (([], clientIP), Some c'))))"

definition banCCWithScope ::
  "int \<Rightarrow> int \<Rightarrow> string \<Rightarrow> string \<Rightarrow> string \<Rightarrow> int \<Rightarrow> 'r WafCache option \<Rightarrow> 'r WafCache option" where
  "banCCWithScope now logOnlyMode scope hostCode clientIP seconds store =
     (if logOnlyMode = 1 \<or> seconds \<le> 0 \<or> clientIP = [] then store
      else map_option (\<lambda>c. SetWithTTl now c (BuildCCBanKey scope hostCode clientIP) (CInt (seconds div 60)) (seconds * second)) store)"

definition banCC :: "int \<Rightarrow> int \<Rightarrow> string \<Rightarrow> string \<Rightarrow> int \<Rightarrow> 'r WafCache option \<Rightarrow> 'r WafCache option" where
  "banCC now logOnlyMode hostCode clientIP lockMinutes store =
     banCCWithScope now logOnlyMode CCBanScopeGlobal hostCode clientIP (lockMinutes * 60) store"

text \<open>The writing part of the rule action ban in \<open>CheckRule\<close>: a ban in force is not renewed.\<close>

definition banRule :: "int \<Rightarrow> int \<Rightarrow> string \<Rightarrow> string \<Rightarrow> int \<Rightarrow> 'r WafCache option \<Rightarrow> 'r WafCache option" where
  "banRule now logOnlyMode hostCode banIP banMinutes store =
     (case store of
        None \<Rightarrow> None
      | Some c \<Rightarrow>
          if logOnlyMode = 1 \<or> banIP = [] \<or> banMinutes \<le> 0 then Some c
          else
            (case IsKeyExist now c (BuildRuleBanKey hostCode banIP) of
               (True, c') \<Rightarrow> Some c'
             | (False, c') \<Rightarrow> Some (SetWithTTl now c' (BuildRuleBanKey hostCode banIP) (CInt banMinutes) (banMinutes * minute))))"

definition ccBanNotifyThrottle :: int where "ccBanNotifyThrottle = 5 * minute"

text \<open>The result: the message, its duration and the remaining seconds, if one is sent.\<close>

definition notifyCCBanOnce ::
  "int \<Rightarrow> string \<Rightarrow> 'r WafCache \<Rightarrow> (int \<times> int) option \<times> 'r WafCache" where
  "notifyCCBanOnce now hitKey c =
     (let throttleKey = ''cc_ban_notify_'' @ hitKey
      in case IsKeyExist now c throttleKey of
           (True, c1) \<Rightarrow> (None, c1)
         | (False, c1) \<Rightarrow>
             (let c2 = SetWithTTl now c1 throttleKey (CStr ''1'') ccBanNotifyThrottle
              in case GetInt now c2 hitKey of
                   ((banDuration, _), c3) \<Rightarrow>
                     (case GetExpireTime now c3 hitKey of
                        (Inl _, c4) \<Rightarrow> (Some (banDuration, 0), c4)
                      | (Inr expireTime, c4) \<Rightarrow>
                          (Some (banDuration, if 0 < (expireTime - now) div second then (expireTime - now) div second else 0), c4))))"

subsection \<open>Administration\<close>

text \<open>The keys of a listing that a predicate selects are removed; the answer says whether there was one.\<close>

definition remove_listed :: "int \<Rightarrow> string \<Rightarrow> (string \<Rightarrow> bool) \<Rightarrow> 'r WafCache \<Rightarrow> bool \<times> 'r WafCache" where
  "remove_listed now pre sel c =
     (case ListAvailableKeysWithPrefix now c pre of
        (listed, c') \<Rightarrow> ({k \<in> dom listed. sel k} \<noteq> {}, \<lambda>k. if k \<in> dom listed \<and> sel k then None else c' k))"

definition RemoveCCBanIPApi :: "int \<Rightarrow> string \<Rightarrow> 'r WafCache \<Rightarrow> bool \<times> 'r WafCache" where
  "RemoveCCBanIPApi now ip c =
     remove_listed now CACHE_CCVISITBAN_PRE (\<lambda>k. case ParseCCBanKey k of (_, _, banIp, ok) \<Rightarrow> ok \<and> banIp = ip) c"

definition removeRuleBanIP :: "int \<Rightarrow> string \<Rightarrow> string \<Rightarrow> 'r WafCache \<Rightarrow> 'r WafCache" where
  "removeRuleBanIP now hostCode ip c =
     (if hostCode \<noteq> [] then wc_Remove c (BuildRuleBanKey hostCode ip)
      else snd (remove_listed now CACHE_RULE_BAN_PRE (\<lambda>k. case ParseRuleBanKey k of (_, banIP, ok) \<Rightarrow> ok \<and> banIP = ip) c))"

subsection \<open>Round trips of the keys\<close>

lemma pre_not_empty [simp]: "CACHE_CCVISITBAN_PRE @ s \<noteq> []" "CACHE_RULE_BAN_PRE @ s \<noteq> []"
  by (simp_all add: CACHE_CCVISITBAN_PRE_def CACHE_RULE_BAN_PRE_def)

lemma split3: "CHR ''|'' \<notin> set a \<Longrightarrow> CHR ''|'' \<notin> set b \<Longrightarrow> StrSplitN3 (CHR ''|'') (a @ CHR ''|'' # b @ CHR ''|'' # c) = [a, b, c]"
  by (simp add: StrSplitN3_def StrSplitN2_def StrCut_append)

lemma ParseCCBanKey_host:
  "CHR ''|'' \<notin> set h \<Longrightarrow> ParseCCBanKey (BuildCCBanKey CCBanScopeHost h ip) = (CCBanScopeHost, h, ip, ip \<noteq> [])"
  using split3 [of "''host''" h ip]
  by (simp add: ParseCCBanKey_def BuildCCBanKey_def Let_def CCBanScopeHost_def CCBanScopeGlobal_def)

lemma ParseCCBanKey_global:
  "scope \<noteq> CCBanScopeHost \<Longrightarrow> ParseCCBanKey (BuildCCBanKey scope h ip) = (CCBanScopeGlobal, [], ip, ip \<noteq> [])"
  using split3 [of "''global''" "[]" ip]
  by (simp add: ParseCCBanKey_def BuildCCBanKey_def Let_def CCBanScopeHost_def CCBanScopeGlobal_def)

lemma ParseCCBanKey_legacy:
  assumes "CHR ''|'' \<notin> set ip"
  shows "ParseCCBanKey (LegacyCCBanKey ip) = (CCBanScopeGlobal, [], ip, ip \<noteq> [])"
proof -
  have "StrSplitN3 (CHR ''|'') ip = [ip]" using assms by (simp add: StrSplitN3_def StrCut_None_iff [THEN iffD2])
  then show ?thesis by (simp add: ParseCCBanKey_def LegacyCCBanKey_def)
qed

lemma ParseRuleBanKey_build:
  assumes "CHR ''|'' \<notin> set ip" "h \<noteq> []"
  shows "ParseRuleBanKey (BuildRuleBanKey h ip) = (h, ip, True)"
proof -
  have "StrCut (CHR ''|'') (rev ip @ CHR ''|'' # rev h) = Some (rev ip, rev h)" using assms by (simp add: StrCut_append)
  then show ?thesis using assms(2) by (simp add: ParseRuleBanKey_def BuildRuleBanKey_def StrCutLast_def)
qed

lemma BuildCCBanKey_eq:
  assumes "CHR ''|'' \<notin> set h" "CHR ''|'' \<notin> set h'"
  shows "BuildCCBanKey scope h ip = BuildCCBanKey scope' h' ip' \<longleftrightarrow>
      ip = ip' \<and> (if scope = CCBanScopeHost then scope' = CCBanScopeHost \<and> h = h' else scope' \<noteq> CCBanScopeHost)"
proof -
  have P: "ParseCCBanKey (BuildCCBanKey s x i) =
      (if s = CCBanScopeHost then (CCBanScopeHost, x, i, i \<noteq> []) else (CCBanScopeGlobal, [], i, i \<noteq> []))"
    if "CHR ''|'' \<notin> set x" for s x i
    using ParseCCBanKey_host [OF that, of i] ParseCCBanKey_global [of s x i] by simp
  have ne: "CCBanScopeHost \<noteq> CCBanScopeGlobal" by (simp add: CCBanScopeHost_def CCBanScopeGlobal_def)
  have "BuildCCBanKey scope h ip = BuildCCBanKey scope' h' ip' \<Longrightarrow>
      ParseCCBanKey (BuildCCBanKey scope h ip) = ParseCCBanKey (BuildCCBanKey scope' h' ip')" by simp
  then show ?thesis
    unfolding P [OF assms(1)] P [OF assms(2)] using ne by (auto simp: BuildCCBanKey_def split: if_splits)
qed

subsection \<open>Look-up\<close>

lemma first_key_keeps: "now \<le> now' \<Longrightarrow> visible now' (snd (first_key now ks c)) k = visible now' c k"
proof (induction ks arbitrary: c)
  case (Cons k' ks)
  obtain b c' where i: "IsKeyExist now c k' = (b, c')" by fastforce
  have "visible now' c' k = visible now' c k" using IsKeyExist_keeps [OF Cons.prems, of c k' k] i by simp
  then show ?case using Cons i by (cases b) auto
qed simp

lemma first_key_None: "fst (first_key now ks c) = None \<longleftrightarrow> (\<forall>k \<in> set ks. visible now c k = None)"
proof (induction ks arbitrary: c)
  case (Cons k' ks)
  obtain b c' where i: "IsKeyExist now c k' = (b, c')" by fastforce
  have "b \<longleftrightarrow> visible now c k' \<noteq> None" using IsKeyExist_visible [of now c k'] i by simp
  moreover have "visible now c' k = visible now c k" for k using IsKeyExist_keeps [of now now c k' k] i by simp
  ultimately show ?case using Cons i by (cases b) auto
qed simp

text \<open>A key that a look-up did not find is free, so that the next write starts its own lifetime.\<close>

lemma IsKeyExist_clears: "\<not> fst (IsKeyExist now c k) \<Longrightarrow> snd (IsKeyExist now c k) k = None"
  by (auto simp: IsKeyExist_def split: option.splits if_splits)

lemma IsKeyExist_absent: "c k = None \<Longrightarrow> snd (IsKeyExist now c k') k = None"
  by (auto simp: IsKeyExist_def split: option.splits)

lemma first_key_absent: "c k = None \<Longrightarrow> snd (first_key now ks c) k = None"
proof (induction ks arbitrary: c)
  case (Cons k' ks)
  obtain b c' where i: "IsKeyExist now c k' = (b, c')" by fastforce
  have "c' k = None" using IsKeyExist_absent [where c = c and k = k and k' = k' and now = now] Cons.prems i by simp
  then show ?case using Cons i by (cases b) auto
qed simp

lemma first_key_clears: "fst (first_key now ks c) = None \<Longrightarrow> k \<in> set ks \<Longrightarrow> snd (first_key now ks c) k = None"
proof (induction ks arbitrary: c)
  case (Cons k' ks)
  obtain b c' where i: "IsKeyExist now c k' = (b, c')" by fastforce
  then have b: "\<not> b" using Cons.prems(1) by (cases b) auto
  then have "c' k' = None" using IsKeyExist_clears [of now c k'] i by simp
  then have "snd (first_key now ks c') k' = None" by (rule first_key_absent)
  then show ?case using Cons i b by auto
qed simp

definition banned_at :: "int \<Rightarrow> string \<Rightarrow> string \<Rightarrow> 'r WafCache \<Rightarrow> bool" where
  "banned_at now hostCode ip c \<longleftrightarrow> fst (first_key now (CCBanLookupKeys hostCode ip @ [LegacyCCBanKey ip]) c) \<noteq> None"

lemma visible_SetWithTTl_fresh:
  "c key = None \<Longrightarrow> visible now (SetWithTTl t c key v ttl) k =
     (if k = key then (if now - t \<le> ttl then Some v else None) else visible now c k)"
  by (auto simp: SetWithTTl_def visible_def expired_def mk_item_def)

lemma matchCCBan_hit:
  assumes "GetClientIPByMode m net src = ip" "ip \<noteq> []"
  shows "fst (fst (matchCCBan now h net src m (Some c))) \<noteq> [] \<longleftrightarrow> banned_at now h ip c"
proof (cases "first_key now (CCBanLookupKeys h ip @ [LegacyCCBanKey ip]) c")
  case (Pair r c')
  have "k \<noteq> []" if "r = Some k" for k
  proof -
    have "k \<in> set ks" if "first_key now ks c = (Some k, c')" for ks c
      using that by (induction ks arbitrary: c) (auto split: prod.splits bool.splits)
    then have "k \<in> set (CCBanLookupKeys h ip @ [LegacyCCBanKey ip])" using Pair that by blast
    moreover have "CACHE_CCVISITBAN_PRE \<noteq> []" by (simp add: CACHE_CCVISITBAN_PRE_def)
    ultimately show ?thesis by (auto simp: CCBanLookupKeys_def LegacyCCBanKey_def BuildCCBanKey_def split: if_splits)
  qed
  then show ?thesis
    using Pair assms by (cases r) (auto simp: matchCCBan_def banned_at_def)
qed

subsection \<open>Properties\<close>

text \<open>
  Ban keys are unambiguous: reading a key back gives the scope, the site and the client it was built from, with any
  client text (also one with separators, which a proxy header can carry), and two keys are equal only for
  the same scope, site and client. The two-part keys of earlier versions read as global bans.
\<close>

theorem CCBanKey_roundtrip:
  assumes "CHR ''|'' \<notin> set h" "CHR ''|'' \<notin> set h'"
  shows "ParseCCBanKey (BuildCCBanKey scope h ip) =
      (if scope = CCBanScopeHost then (CCBanScopeHost, h, ip, ip \<noteq> []) else (CCBanScopeGlobal, [], ip, ip \<noteq> [])) \<and>
    (BuildCCBanKey scope h ip = BuildCCBanKey scope' h' ip' \<longleftrightarrow>
      ip = ip' \<and> (if scope = CCBanScopeHost then scope' = CCBanScopeHost \<and> h = h' else scope' \<noteq> CCBanScopeHost)) \<and>
    (CHR ''|'' \<notin> set ip \<longrightarrow> ParseCCBanKey (LegacyCCBanKey ip) = (CCBanScopeGlobal, [], ip, ip \<noteq> []))"
proof (intro conjI impI BuildCCBanKey_eq assms)
  show "ParseCCBanKey (BuildCCBanKey scope h ip) =
      (if scope = CCBanScopeHost then (CCBanScopeHost, h, ip, ip \<noteq> []) else (CCBanScopeGlobal, [], ip, ip \<noteq> []))"
    using ParseCCBanKey_host [OF assms(1), of ip] ParseCCBanKey_global [of scope h ip] by simp
  assume "CHR ''|'' \<notin> set ip"
  then show "ParseCCBanKey (LegacyCCBanKey ip) = (CCBanScopeGlobal, [], ip, ip \<noteq> [])" by (rule ParseCCBanKey_legacy)
qed

theorem CCBanKey_roundtrip_witness:
  "ParseCCBanKey (BuildCCBanKey ''host'' ''site1'' ''x|y'') = (''host'', ''site1'', ''x|y'', True)"
  using CCBanKey_roundtrip [of "''site1''" "''site1''" "''host''" "''x|y''"] by (simp add: CCBanScopeHost_def)

lemma Build_not_Legacy: "BuildCCBanKey scope h ip \<noteq> LegacyCCBanKey ip"
proof
  assume "BuildCCBanKey scope h ip = LegacyCCBanKey ip"
  then have "length (BuildCCBanKey scope h ip) = length (LegacyCCBanKey ip)" by simp
  then show False by (simp add: BuildCCBanKey_def LegacyCCBanKey_def split: if_splits)
qed

lemma banned_at_iff:
  "banned_at now h ip c \<longleftrightarrow>
     visible now c (BuildCCBanKey CCBanScopeGlobal [] ip) \<noteq> None \<or> visible now c (BuildCCBanKey CCBanScopeHost h ip) \<noteq> None \<or>
     visible now c (LegacyCCBanKey ip) \<noteq> None"
  unfolding banned_at_def first_key_None by (auto simp: CCBanLookupKeys_def)

lemma Build_global_any: "scope \<noteq> CCBanScopeHost \<Longrightarrow> BuildCCBanKey scope h ip = BuildCCBanKey CCBanScopeGlobal [] ip"
  by (simp add: BuildCCBanKey_def CCBanScopeHost_def CCBanScopeGlobal_def)


lemma demo_no_ban: "matchCCBan 0 ''a'' ''9.9.9.9'' [] ''nic'' (Some InitWafCache) = (([], ''9.9.9.9''), Some InitWafCache)"
  by (simp add: matchCCBan_def GetClientIPByMode_def CCBanLookupKeys_def IsKeyExist_def InitWafCache_def)


text \<open>
  Lifting the CC bans of an address in the administration lifts all of them, the global one, those of every site and
  one written by an earlier version, and no other address is affected.
\<close>

theorem RemoveCCBanIP_lifts:
  assumes "CHR ''|'' \<notin> set h" "CHR ''|'' \<notin> set ip" "ip \<noteq> []" "now < t" "CHR ''|'' \<notin> set ip'" "ip' \<noteq> ip"
  shows "\<not> banned_at t h ip (snd (RemoveCCBanIPApi now ip c)) \<and>
    (banned_at t h ip' (snd (RemoveCCBanIPApi now ip c)) \<longleftrightarrow> banned_at t h ip' c)"
proof (rule conjI)
  let ?sel = "\<lambda>k. case ParseCCBanKey k of (_, _, banIp, ok) \<Rightarrow> ok \<and> banIp = ip"
  have v: "visible t (snd (RemoveCCBanIPApi now ip c)) k = (if ?sel k then None else visible t c k)"
    if "HasPrefix k CACHE_CCVISITBAN_PRE" for k
  proof -
    define listed where "listed = fst (ListAvailableKeysWithPrefix now c CACHE_CCVISITBAN_PRE)"
    have l: "k \<in> dom listed \<longleftrightarrow> (\<exists>item. c k = Some item \<and> 0 < remaining now item)"
      using that by (auto simp: listed_def ListAvailableKeysWithPrefix_def split: option.splits if_splits)
    have r: "snd (RemoveCCBanIPApi now ip c) k =
        (if k \<in> dom listed \<and> ?sel k then None else snd (ListAvailableKeysWithPrefix now c CACHE_CCVISITBAN_PRE) k)"
      unfolding RemoveCCBanIPApi_def remove_listed_def listed_def by (simp add: case_prod_beta)
    show ?thesis
    proof (cases "c k")
      case None
      then show ?thesis using that unfolding visible_def r by (simp add: ListAvailableKeysWithPrefix_def)
    next
      case (Some item)
      then show ?thesis
        using that l assms(4) unfolding visible_def r
        by (auto simp: ListAvailableKeysWithPrefix_def remaining_def expired_def)
    qed
  qed
  have p: "HasPrefix (BuildCCBanKey s x i) CACHE_CCVISITBAN_PRE" "HasPrefix (LegacyCCBanKey i) CACHE_CCVISITBAN_PRE" for s x i
    by (simp_all add: BuildCCBanKey_def LegacyCCBanKey_def)
  have g: "CCBanScopeGlobal \<noteq> CCBanScopeHost" by (simp add: CCBanScopeHost_def CCBanScopeGlobal_def)
  show "\<not> banned_at t h ip (snd (RemoveCCBanIPApi now ip c))"
    unfolding banned_at_iff using v p assms(1-3)
    by (simp add: ParseCCBanKey_host ParseCCBanKey_global [OF g] ParseCCBanKey_legacy)
  show "banned_at t h ip' (snd (RemoveCCBanIPApi now ip c)) \<longleftrightarrow> banned_at t h ip' c"
    unfolding banned_at_iff using v p assms(1,5,6)
    by (simp add: ParseCCBanKey_host ParseCCBanKey_global [OF g] ParseCCBanKey_legacy)
qed

theorem RemoveCCBanIP_lifts_witness:
  "\<not> banned_at 2 ''a'' ''9.9.9.9'' (snd (RemoveCCBanIPApi 1 ''9.9.9.9''
     (SetWithTTl 0 InitWafCache (LegacyCCBanKey ''9.9.9.9'') (CInt 1) minute :: unit WafCache)))"
  using RemoveCCBanIP_lifts [of "''a''" "''9.9.9.9''" 1 2 "''8''"
      "SetWithTTl 0 InitWafCache (LegacyCCBanKey ''9.9.9.9'') (CInt 1) minute :: unit WafCache"] by simp

text \<open>
  The keys of rule bans read back to their site and client when the client text has no separator; the client is
  taken behind the last separator, so that a client text with one is read as another site and another client.
\<close>

theorem RuleBanKey_roundtrip:
  assumes "h \<noteq> []" "CHR ''|'' \<notin> set ip"
  shows "ParseRuleBanKey (BuildRuleBanKey h ip) = (h, ip, True) \<and>
    ParseRuleBanKey (BuildRuleBanKey h (x @ ''|'' @ ip)) = (h @ ''|'' @ x, ip, True)"
proof (rule conjI)
  show "ParseRuleBanKey (BuildRuleBanKey h ip) = (h, ip, True)" by (rule ParseRuleBanKey_build [OF assms(2,1)])
  have "BuildRuleBanKey h (x @ ''|'' @ ip) = BuildRuleBanKey (h @ ''|'' @ x) ip" by (simp add: BuildRuleBanKey_def)
  then show "ParseRuleBanKey (BuildRuleBanKey h (x @ ''|'' @ ip)) = (h @ ''|'' @ x, ip, True)"
    using ParseRuleBanKey_build [OF assms(2), of "h @ ''|'' @ x"] by simp
qed

theorem RuleBanKey_roundtrip_witness: "ParseRuleBanKey (BuildRuleBanKey ''a'' ''9.9.9.9'') = (''a'', ''9.9.9.9'', True)"
  using RuleBanKey_roundtrip [of "''a''" "''9.9.9.9''"] by simp

end
