(* ===== verification/Cc_Captcha.thy ===== *)
theory Cc_Captcha
  imports Cc_Ban
begin

text \<open>
  The marks of the captcha gate in the cache: the second half of wafenginecore/checkcc_rules.go (a client must solve a
  challenge, a client is in its free period) and check_captcha.go (the passes).

  Times are in nanoseconds. \<open>challenge_round\<close> is the sequence of checks that the captcha action of the CC rules and the
  emergency mode share.
\<close>

subsection \<open>Marks\<close>

definition CACHE_CAPTCHA_PASS :: string where "CACHE_CAPTCHA_PASS = ''CACHE_CAPTCHA_PASS''"
definition ccCaptchaDefaultSeconds :: int where "ccCaptchaDefaultSeconds = 300"

definition ccCaptchaSourceKey :: "string \<Rightarrow> string \<Rightarrow> string" where
  "ccCaptchaSourceKey hostCode clientIP = ''CACHE_CC_CAPTCHA_SRC_'' @ hostCode @ ''|'' @ clientIP"
definition ccCaptchaGraceKey :: "string \<Rightarrow> string \<Rightarrow> string" where
  "ccCaptchaGraceKey hostCode clientIP = ''CACHE_CC_CAPTCHA_GRACE_'' @ hostCode @ ''|'' @ clientIP"
definition ccCaptchaRequiredKey :: "string \<Rightarrow> string \<Rightarrow> string" where
  "ccCaptchaRequiredKey hostCode clientIP = ''CACHE_CC_CAPTCHA_REQUIRED_'' @ hostCode @ ''|'' @ clientIP"
definition passKey :: "string \<Rightarrow> string \<Rightarrow> string" where
  "passKey token clientIP = CACHE_CAPTCHA_PASS @ token @ clientIP"

definition RequireCaptcha ::
  "int \<Rightarrow> string \<Rightarrow> string \<Rightarrow> int \<Rightarrow> string \<Rightarrow> 'r WafCache option \<Rightarrow> 'r WafCache option" where
  "RequireCaptcha now hostCode clientIP seconds0 source store =
     (if clientIP = [] then store
      else
        (let seconds = (if seconds0 \<le> 0 then ccCaptchaDefaultSeconds else seconds0); ttl = seconds * second
         in map_option (\<lambda>c.
              (let c1 = SetWithTTl now c (ccCaptchaRequiredKey hostCode clientIP) (CInt seconds) ttl
               in if source \<noteq> [] then SetWithTTl now c1 (ccCaptchaSourceKey hostCode clientIP) (CStr source) ttl else c1)) store))"

definition CaptchaRequireSource :: "int \<Rightarrow> string \<Rightarrow> string \<Rightarrow> 'r WafCache option \<Rightarrow> string \<times> 'r WafCache option" where
  "CaptchaRequireSource now hostCode clientIP store =
     (case store of
        None \<Rightarrow> ([], None)
      | Some c \<Rightarrow>
          if clientIP = [] then ([], Some c)
          else (case GetString now c (ccCaptchaSourceKey hostCode clientIP) of
                  ((v, None), c') \<Rightarrow> (v, Some c')
                | ((v, Some _), c') \<Rightarrow> ([], Some c')))"

text \<open>A look-up that the code guards against a nil cache and an empty address.\<close>

definition has_mark :: "int \<Rightarrow> string \<Rightarrow> string \<Rightarrow> 'r WafCache option \<Rightarrow> bool \<times> 'r WafCache option" where
  "has_mark now key clientIP store =
     (case store of
        None \<Rightarrow> (False, None)
      | Some c \<Rightarrow> if clientIP = [] then (False, Some c) else (case IsKeyExist now c key of (b, c') \<Rightarrow> (b, Some c')))"

definition isCCCaptchaInGrace :: "int \<Rightarrow> string \<Rightarrow> string \<Rightarrow> 'r WafCache option \<Rightarrow> bool \<times> 'r WafCache option" where
  "isCCCaptchaInGrace now hostCode clientIP store = has_mark now (ccCaptchaGraceKey hostCode clientIP) clientIP store"

definition IsCCCaptchaRequired :: "int \<Rightarrow> string \<Rightarrow> string \<Rightarrow> 'r WafCache option \<Rightarrow> bool \<times> 'r WafCache option" where
  "IsCCCaptchaRequired now hostCode clientIP store = has_mark now (ccCaptchaRequiredKey hostCode clientIP) clientIP store"

definition GrantCCCaptchaGrace :: "int \<Rightarrow> string \<Rightarrow> string \<Rightarrow> 'r WafCache option \<Rightarrow> 'r WafCache option" where
  "GrantCCCaptchaGrace now hostCode clientIP store =
     (case store of
        None \<Rightarrow> None
      | Some c \<Rightarrow>
          if clientIP = [] then Some c
          else
            (case GetInt now c (ccCaptchaRequiredKey hostCode clientIP) of
               ((v, err), c1) \<Rightarrow>
                 (let seconds = (if err = None \<and> 0 < v then v else ccCaptchaDefaultSeconds);
                      c2 = wc_Remove c1 (ccCaptchaRequiredKey hostCode clientIP);
                      c3 = wc_Remove c2 (ccCaptchaSourceKey hostCode clientIP)
                  in Some (SetWithTTl now c3 (ccCaptchaGraceKey hostCode clientIP) (CInt 1) (seconds * second)))))"

subsection \<open>Passes\<close>

text \<open>The tokens a request presents: the cookie and the header, when not empty.\<close>

definition tokens :: "http_request \<Rightarrow> string list" where
  "tokens r =
     (case Request_Cookie r ''samwaf_captcha_token'' of None \<Rightarrow> [] | Some v \<Rightarrow> if v = [] then [] else [v]) @
     (let t = Header_Get r ''X-SamWaf-Captcha-Token'' in if t = [] then [] else [t])"

definition revokeCaptchaPass :: "http_request \<Rightarrow> string \<Rightarrow> 'r WafCache option \<Rightarrow> 'r WafCache option" where
  "revokeCaptchaPass r clientIP store =
     (if clientIP = [] then store else map_option (fold (\<lambda>t c. wc_Remove c (passKey t clientIP)) (tokens r)) store)"

definition hasCaptchaPass :: "int \<Rightarrow> http_request \<Rightarrow> string \<Rightarrow> 'r WafCache option \<Rightarrow> bool \<times> 'r WafCache option" where
  "hasCaptchaPass now r clientIP store =
     (case store of
        None \<Rightarrow> (False, None)
      | Some c \<Rightarrow>
          if clientIP = [] then (False, Some c)
          else (case first_key now (map (\<lambda>t. passKey t clientIP) (tokens r)) c of (k, c') \<Rightarrow> (k \<noteq> None, Some c')))"

definition spider_timeout :: string where
  "spider_timeout = utf8_text [230, 159, 165, 232, 175, 162, 232, 182, 133, 230, 151, 182]"
definition spider_failed :: string where
  "spider_failed = utf8_text [230, 159, 165, 232, 175, 162, 229, 164, 177, 232, 180, 165]"

record captcha_globals =
  cg_FAKE_SPIDER_CAPTCHA :: int
  cg_SSL_CHALLENGE_PATH :: string

text \<open>\<open>True\<close> lets the request pass without a challenge. The code assumes that the cache exists.\<close>

definition checkCaptchaToken ::
  "captcha_globals \<Rightarrow> int \<Rightarrow> http_request \<Rightarrow> WebLog \<Rightarrow> string \<Rightarrow> 'r WafCache \<Rightarrow> bool \<times> 'r WafCache" where
  "checkCaptchaToken g now r webLog ipMode c =
     (let clientIP = GetClientIPByMode ipMode (lg_NetSrcIp webLog) (lg_SRC_IP webLog)
      in case first_key now (map (\<lambda>t. passKey t clientIP) (tokens r)) c of
           (Some _, c') \<Rightarrow> (True, c')
         | (None, c') \<Rightarrow>
             (lg_IsBot webLog = 1 \<and>
                (lg_RISK_LEVEL webLog = 0 \<or>
                 lg_GUEST_IDENTIFICATION webLog = spider_timeout \<or> lg_GUEST_IDENTIFICATION webLog = spider_failed \<or>
                 cg_FAKE_SPIDER_CAPTCHA g = 0) \<or>
              HasPrefix (lg_URL webLog) (cg_SSL_CHALLENGE_PATH g), c'))"

subsection \<open>A round of the challenge\<close>

datatype challenge = InGrace | RoundPassed | Challenged

definition challenge_round ::
  "int \<Rightarrow> http_request \<Rightarrow> string \<Rightarrow> string \<Rightarrow> int \<Rightarrow> string \<Rightarrow> 'r WafCache option \<Rightarrow> challenge \<times> 'r WafCache option" where
  "challenge_round now r hostCode ip seconds source store =
     (case isCCCaptchaInGrace now hostCode ip store of
        (True, s1) \<Rightarrow> (InGrace, s1)
      | (False, s1) \<Rightarrow>
          (case IsCCCaptchaRequired now hostCode ip s1 of
             (req, s2) \<Rightarrow>
               (case (if req then hasCaptchaPass now r ip s2 else (False, s2)) of
                  (True, s3) \<Rightarrow> (RoundPassed, GrantCCCaptchaGrace now hostCode ip s3)
                | (False, s3) \<Rightarrow> (Challenged, RequireCaptcha now hostCode ip seconds source (revokeCaptchaPass r ip s3)))))"

subsection \<open>Lemmas on the marks\<close>

lemma mark_keys_distinct [simp]:
  "ccCaptchaGraceKey h ip \<noteq> ccCaptchaRequiredKey h' ip'" "ccCaptchaRequiredKey h ip \<noteq> ccCaptchaGraceKey h' ip'"
  "ccCaptchaGraceKey h ip \<noteq> ccCaptchaSourceKey h' ip'" "ccCaptchaSourceKey h ip \<noteq> ccCaptchaGraceKey h' ip'"
  "ccCaptchaRequiredKey h ip \<noteq> ccCaptchaSourceKey h' ip'" "ccCaptchaSourceKey h ip \<noteq> ccCaptchaRequiredKey h' ip'"
  "passKey t x \<noteq> ccCaptchaGraceKey h' ip'" "passKey t x \<noteq> ccCaptchaRequiredKey h' ip'" "passKey t x \<noteq> ccCaptchaSourceKey h' ip'"
  "ccCaptchaGraceKey h' ip' \<noteq> passKey t x" "ccCaptchaRequiredKey h' ip' \<noteq> passKey t x" "ccCaptchaSourceKey h' ip' \<noteq> passKey t x"
  by (simp_all add: ccCaptchaGraceKey_def ccCaptchaRequiredKey_def ccCaptchaSourceKey_def passKey_def CACHE_CAPTCHA_PASS_def)

lemma has_mark_Some:
  assumes "ip \<noteq> []"
  shows "\<exists>b c'. has_mark now k ip (Some c) = (b, Some c') \<and> (b \<longleftrightarrow> visible now c k \<noteq> None) \<and>
    (\<forall>t k'. now \<le> t \<longrightarrow> visible t c' k' = visible t c k') \<and> (\<not> b \<longrightarrow> c' k = None) \<and> (\<forall>k'. c k' = None \<longrightarrow> c' k' = None)"
proof -
  obtain b c' where i: "IsKeyExist now c k = (b, c')" by fastforce
  have "has_mark now k ip (Some c) = (b, Some c')" using assms i by (simp add: has_mark_def)
  moreover have "b \<longleftrightarrow> visible now c k \<noteq> None" using IsKeyExist_visible [of now c k] i by simp
  moreover have "\<forall>t k'. now \<le> t \<longrightarrow> visible t c' k' = visible t c k'" using IsKeyExist_keeps [of now _ c k] i by simp
  moreover have "\<not> b \<longrightarrow> c' k = None" using IsKeyExist_clears [of now c k] i by simp
  moreover have "\<forall>k'. c k' = None \<longrightarrow> c' k' = None" using IsKeyExist_absent [where c = c and now = now and k' = k] i by simp
  ultimately show ?thesis by blast
qed

lemma hasCaptchaPass_Some:
  assumes "ip \<noteq> []"
  shows "\<exists>b c'. hasCaptchaPass now r ip (Some c) = (b, Some c') \<and>
    (b \<longleftrightarrow> (\<exists>tok \<in> set (tokens r). visible now c (passKey tok ip) \<noteq> None)) \<and>
    (\<forall>t k'. now \<le> t \<longrightarrow> visible t c' k' = visible t c k') \<and> (\<forall>k'. c k' = None \<longrightarrow> c' k' = None)"
proof -
  let ?ks = "map (\<lambda>t. passKey t ip) (tokens r)"
  obtain k c' where f: "first_key now ?ks c = (k, c')" by fastforce
  have "hasCaptchaPass now r ip (Some c) = (k \<noteq> None, Some c')" using assms f by (simp add: hasCaptchaPass_def)
  moreover have "k = None \<longleftrightarrow> (\<forall>x \<in> set ?ks. visible now c x = None)" using first_key_None [of now ?ks c] f by simp
  then have "k \<noteq> None \<longleftrightarrow> (\<exists>tok \<in> set (tokens r). visible now c (passKey tok ip) \<noteq> None)" by auto
  moreover have "\<forall>t k'. now \<le> t \<longrightarrow> visible t c' k' = visible t c k'" using first_key_keeps [of now _ ?ks c] f by simp
  moreover have "\<forall>k'. c k' = None \<longrightarrow> c' k' = None" using first_key_absent [where c = c and now = now and ks = ?ks] f by simp
  ultimately show ?thesis by blast
qed

lemma GetInt_absent: "c k' = None \<Longrightarrow> snd (GetInt now c k) k' = None"
  by (auto simp: GetInt_def wc_Get_def split: option.splits cval.splits)

lemma wc_Remove_absent: "c k' = None \<Longrightarrow> wc_Remove c k k' = None"
  by (auto simp: wc_Remove_def split: option.splits)

lemma GrantCCCaptchaGrace_Some:
  assumes "ip \<noteq> []" "visible now c (ccCaptchaRequiredKey h ip) = Some (CInt s)" "0 < s" "c (ccCaptchaGraceKey h ip) = None"
  shows "\<exists>c'. GrantCCCaptchaGrace now h ip (Some c) = Some c' \<and>
    (\<forall>t. visible t c' (ccCaptchaGraceKey h ip) \<noteq> None \<longleftrightarrow> t - now \<le> s * second) \<and>
    (\<forall>t. visible t c' (ccCaptchaRequiredKey h ip) = None) \<and>
    (\<forall>t tok x. now \<le> t \<longrightarrow> visible t c' (passKey tok x) = visible t c (passKey tok x))"
proof -
  let ?R = "ccCaptchaRequiredKey h ip" and ?S = "ccCaptchaSourceKey h ip" and ?G = "ccCaptchaGraceKey h ip"
  obtain v err c1 where g: "GetInt now c ?R = ((v, err), c1)" by (metis surj_pair)
  have ve: "v = s" "err = None" using GetInt_visible [of now c ?R] g assms(2) by simp_all
  have vis1: "now \<le> t \<Longrightarrow> visible t c1 k = visible t c k" for t k using GetInt_keeps [of now t c ?R k] g by simp
  have g1: "c1 ?G = None" using GetInt_absent [where c = c and k = ?R and k' = ?G and now = now] assms(4) g by simp
  define c3 where "c3 = wc_Remove (wc_Remove c1 ?R) ?S"
  have g3: "c3 ?G = None" using g1 by (simp add: c3_def wc_Remove_absent)
  have vis3: "visible t c3 k = (if k = ?S then None else if k = ?R then None else visible t c1 k)" for t k
    unfolding c3_def visible_remove by simp
  define c' where "c' = SetWithTTl now c3 ?G (CInt 1) (s * second)"
  have vis': "visible t c' k = (if k = ?G then (if t - now \<le> s * second then Some (CInt 1) else None) else visible t c3 k)" for t k
    unfolding c'_def by (rule visible_SetWithTTl_fresh [where c = c3 and key = ?G, OF g3])
  have "GrantCCCaptchaGrace now h ip (Some c) = Some c'"
    using assms(1,3) g ve by (simp add: GrantCCCaptchaGrace_def c'_def c3_def)
  then show ?thesis by (intro exI [of _ c']) (simp add: vis' vis3 vis1)
qed

subsection \<open>Properties\<close>


definition demo_pass_request :: http_request where
  "demo_pass_request = \<lparr>hr_Method = ''GET'', hr_Host = ''a'', hr_Path = ''/'', hr_RawQuery = [], hr_TLS = False,
     hr_Header = [], hr_Cookies = [(''samwaf_captcha_token'', ''T'')], hr_Query = []\<rparr>"

definition demo_marked :: "unit WafCache" where
  "demo_marked = SetWithTTl 0 (SetWithTTl 0 InitWafCache (ccCaptchaRequiredKey ''h'' ''9.9.9.9'') (CInt 300) (300 * second))
     (passKey ''T'' ''9.9.9.9'') (CStr ''ok'') hour"

lemma demo_marked_visible:
  "visible (10 * second) demo_marked (ccCaptchaGraceKey ''h'' ''9.9.9.9'') = None"
  "visible (10 * second) demo_marked (ccCaptchaRequiredKey ''h'' ''9.9.9.9'') = Some (CInt 300)"
  "visible (10 * second) demo_marked (passKey ''T'' ''9.9.9.9'') = Some (CStr ''ok'')"
  by (simp_all add: demo_marked_def SetWithTTl_def InitWafCache_def visible_def expired_def mk_item_def)


text \<open>
  A pass is not bound to one address: its key is the token followed directly by the address, so that a pass of the
  address \<open>x @ ip\<close> under one token is also a pass of the shorter address \<open>ip\<close> under that token with \<open>x\<close> appended.
\<close>

theorem pass_not_bound_to_address:
  assumes "ip \<noteq> []" "visible now c (passKey tok (x @ ip)) \<noteq> None" "tok @ x \<in> set (tokens r)"
  shows "fst (hasCaptchaPass now r ip (Some c))"
proof -
  have "visible now c (passKey (tok @ x) ip) \<noteq> None" using assms(2) by (simp add: passKey_def)
  then have "\<exists>tok \<in> set (tokens r). visible now c (passKey tok ip) \<noteq> None" using assms(3) by blast
  then show ?thesis using hasCaptchaPass_Some [OF assms(1), of now r c] by auto
qed

theorem pass_not_bound_to_address_witness:
  "fst (hasCaptchaPass 0 (demo_pass_request\<lparr>hr_Cookies := [(''samwaf_captcha_token'', ''T1'')]\<rparr>) ''0.0.0.1''
     (Some (SetWithTTl 0 InitWafCache (passKey ''T'' ''10.0.0.1'') (CStr ''ok'') hour :: unit WafCache)))"
  by (rule pass_not_bound_to_address [of _ _ _ "''T''" "''1''"])
    (simp_all add: tokens_def demo_pass_request_def Request_Cookie_def SetWithTTl_def InitWafCache_def visible_def expired_def mk_item_def)

end
