(* ===== verification/Rate_Limiter.thy ===== *)
theory Rate_Limiter
  imports Complex_Main Waf_Cache
begin

text \<open>
  Package webplugin, file ipratelimiter.go, and \<open>BuildIPRateLimiter\<close> of wafenginecore/anticc_limiter.go: the
  limiter of requests per client, with a token bucket or a sliding window.

  The token bucket is golang.org/x/time/rate, an argument: a record with its constructor and its
  \<open>Allow\<close>. Rates are rational numbers where the code has floating point. Times are in nanoseconds and the
  clock is an argument; each operation runs under the limiter's lock. Maps are partial functions.
\<close>

subsection \<open>State\<close>

datatype LimitMode = RateMode | WindowMode

record 'l token_bucket =
  NewLimiter :: "rat \<Rightarrow> int \<Rightarrow> 'l"
  limiter_Allow :: "int \<Rightarrow> 'l \<Rightarrow> bool \<times> 'l"

record 'l IPRateLimiter =
  rl_ips :: "string \<rightharpoonup> 'l"
  rl_r :: rat
  rl_b :: int
  rl_mode :: LimitMode
  rl_window :: int
  rl_requests :: "string \<rightharpoonup> int list"
  rl_lastSeen :: "string \<rightharpoonup> int"
  rl_Rule :: "string option"

definition NewIPRateLimiter :: "rat \<Rightarrow> int \<Rightarrow> 'l IPRateLimiter" where
  "NewIPRateLimiter r b =
     \<lparr>rl_ips = Map.empty, rl_r = r, rl_b = b, rl_mode = RateMode,
      rl_window = (if 0 < r then (if 0 \<le> b then \<lfloor>rat_of_int b / r\<rfloor> else \<lceil>rat_of_int b / r\<rceil>) + 1 else 0),
      rl_requests = Map.empty, rl_lastSeen = Map.empty, rl_Rule = None\<rparr>"

definition NewWindowIPRateLimiter :: "int \<Rightarrow> int \<Rightarrow> 'l IPRateLimiter" where
  "NewWindowIPRateLimiter window maxRequests =
     \<lparr>rl_ips = Map.empty, rl_r = rat_of_int maxRequests / rat_of_int window, rl_b = maxRequests, rl_mode = WindowMode,
      rl_window = window, rl_requests = Map.empty, rl_lastSeen = Map.empty, rl_Rule = None\<rparr>"

subsection \<open>Operations\<close>

definition AddIP :: "'l token_bucket \<Rightarrow> int \<Rightarrow> string \<Rightarrow> 'l IPRateLimiter \<Rightarrow> 'l \<times> 'l IPRateLimiter" where
  "AddIP tb now ip i =
     (let limiter = NewLimiter tb (rl_r i) (rl_b i)
      in (limiter, i\<lparr>rl_ips := (rl_ips i)(ip \<mapsto> limiter), rl_requests := (rl_requests i)(ip \<mapsto> []),
                     rl_lastSeen := (rl_lastSeen i)(ip \<mapsto> now)\<rparr>))"

definition GetLimiter :: "'l token_bucket \<Rightarrow> int \<Rightarrow> string \<Rightarrow> 'l IPRateLimiter \<Rightarrow> 'l \<times> 'l IPRateLimiter" where
  "GetLimiter tb now ip i =
     (case rl_ips i ip of
        None \<Rightarrow> AddIP tb now ip i
      | Some limiter \<Rightarrow> (limiter, i\<lparr>rl_lastSeen := (rl_lastSeen i)(ip \<mapsto> now)\<rparr>))"

definition window_start :: "'l IPRateLimiter \<Rightarrow> int \<Rightarrow> int" where
  "window_start i now = now - rl_window i * second"

definition allowByWindow :: "int \<Rightarrow> string \<Rightarrow> 'l IPRateLimiter \<Rightarrow> bool \<times> 'l IPRateLimiter" where
  "allowByWindow now ip i =
     (let old = (case rl_requests i ip of None \<Rightarrow> [] | Some ts \<Rightarrow> ts);
          validRequests = filter (\<lambda>t. window_start i now < t) old
      in if rl_b i \<le> int (length validRequests)
         then (False, i\<lparr>rl_requests := (rl_requests i)(ip \<mapsto> validRequests)\<rparr>)
         else (True, i\<lparr>rl_requests := (rl_requests i)(ip \<mapsto> validRequests @ [now])\<rparr>))"

text \<open>The bucket is shared by pointer: its new state is stored back.\<close>

definition rl_Allow :: "'l token_bucket \<Rightarrow> int \<Rightarrow> string \<Rightarrow> 'l IPRateLimiter \<Rightarrow> bool \<times> 'l IPRateLimiter" where
  "rl_Allow tb now ip i =
     (if rl_mode i = RateMode
      then (case GetLimiter tb now ip i of
              (limiter, i') \<Rightarrow>
                (case limiter_Allow tb now limiter of
                   (ok, limiter') \<Rightarrow> (ok, i'\<lparr>rl_ips := (rl_ips i')(ip \<mapsto> limiter')\<rparr>)))
      else allowByWindow now ip i)"

definition CleanupOldRecords :: "int \<Rightarrow> 'l IPRateLimiter \<Rightarrow> 'l IPRateLimiter" where
  "CleanupOldRecords now i =
     (if rl_mode i = RateMode
      then
        (let idleTTL = (if rl_window i * second \<le> 0 then minute else rl_window i * second);
             idle = (\<lambda>ip. case rl_lastSeen i ip of None \<Rightarrow> False | Some seen \<Rightarrow> idleTTL \<le> now - seen)
         in i\<lparr>rl_lastSeen := (\<lambda>ip. if idle ip then None else rl_lastSeen i ip),
              rl_requests := (\<lambda>ip. if idle ip then None else rl_requests i ip),
              rl_ips := (\<lambda>ip. if idle ip then None else rl_ips i ip)\<rparr>)
      else
        (let valid = (\<lambda>ts. filter (\<lambda>t. window_start i now < t) ts);
             gone = (\<lambda>ip. case rl_requests i ip of None \<Rightarrow> False | Some ts \<Rightarrow> valid ts = [])
         in i\<lparr>rl_requests := (\<lambda>ip. if gone ip then None else map_option valid (rl_requests i ip)),
              rl_ips := (\<lambda>ip. if gone ip then None else rl_ips i ip),
              rl_lastSeen := (\<lambda>ip. if gone ip then None else rl_lastSeen i ip)\<rparr>))"

definition ClearWindowForIP :: "'l token_bucket \<Rightarrow> string \<Rightarrow> 'l IPRateLimiter \<Rightarrow> 'l IPRateLimiter" where
  "ClearWindowForIP tb ip i =
     (let i1 = (if rl_requests i ip \<noteq> None then i\<lparr>rl_requests := (rl_requests i)(ip \<mapsto> [])\<rparr> else i)
      in if rl_ips i1 ip \<noteq> None
         then i1\<lparr>rl_ips := (rl_ips i1)(ip \<mapsto> NewLimiter tb (rl_r i1) (rl_b i1))\<rparr> else i1)"

definition GetRequestCount :: "int \<Rightarrow> string \<Rightarrow> 'l IPRateLimiter \<Rightarrow> int" where
  "GetRequestCount now ip i =
     (case rl_requests i ip of
        None \<Rightarrow> 0
      | Some ts \<Rightarrow> int (length (filter (\<lambda>t. window_start i now < t \<or> t = window_start i now) ts)))"

definition RatePerSecond :: "'l IPRateLimiter \<Rightarrow> rat" where "RatePerSecond i = rl_r i"
definition Burst :: "'l IPRateLimiter \<Rightarrow> int" where "Burst i = rl_b i"
definition WindowSeconds :: "'l IPRateLimiter \<Rightarrow> int" where "WindowSeconds i = rl_window i"
definition IsWindowMode :: "'l IPRateLimiter \<Rightarrow> bool" where "IsWindowMode i \<longleftrightarrow> rl_mode i = WindowMode"

definition TrackedIPCount :: "'l IPRateLimiter \<Rightarrow> nat" where
  "TrackedIPCount i = (if rl_mode i = WindowMode then card (dom (rl_requests i)) else card (dom (rl_ips i)))"

subsection \<open>Construction from the configuration\<close>

record AntiCC =
  ac_Id :: string
  ac_Rate :: int
  ac_Limit :: int
  ac_LimitMode :: string
  ac_LockIPMinutes :: int
  ac_IsEnableRule :: bool
  ac_RuleContent :: string
  ac_SkipGlobalCC :: bool

definition BuildIPRateLimiter :: "AntiCC \<Rightarrow> 'l IPRateLimiter option" where
  "BuildIPRateLimiter antiCC =
     (if ac_Id antiCC = [] then None
      else
        (let window = (if ac_Rate antiCC \<le> 0 then 1 else ac_Rate antiCC);
             limiter = (if ac_LimitMode antiCC = ''window''
                        then NewWindowIPRateLimiter window (ac_Limit antiCC)
                        else NewIPRateLimiter (rat_of_int (ac_Limit antiCC) / rat_of_int window) (ac_Limit antiCC))
         in Some (if ac_IsEnableRule antiCC then limiter\<lparr>rl_Rule := Some (ac_RuleContent antiCC)\<rparr> else limiter)))"

subsection \<open>The sliding window as a specification\<close>

text \<open>
  What a limiter goes through: visits and sweeps, each at its time. \<open>limiter_run\<close> gives the visits that are let
  through; \<open>window_spec\<close> is the promise: a visit passes when fewer than \<open>b\<close> visits of the same client passed in
  the \<open>len\<close> nanoseconds up to it. The specification forgets nothing and has no sweep.
\<close>

datatype limiter_event = Visit string int | Sweep int

primrec event_time :: "limiter_event \<Rightarrow> int" where
  "event_time (Visit ip t) = t"
| "event_time (Sweep t) = t"

fun limiter_run :: "'l token_bucket \<Rightarrow> limiter_event list \<Rightarrow> 'l IPRateLimiter \<Rightarrow> (string \<times> int) list" where
  "limiter_run tb [] i = []"
| "limiter_run tb (Visit ip t # es) i =
     (case rl_Allow tb t ip i of (ok, i') \<Rightarrow> (if ok then [(ip, t)] else []) @ limiter_run tb es i')"
| "limiter_run tb (Sweep t # es) i = limiter_run tb es (CleanupOldRecords t i)"

definition visits_of :: "string \<Rightarrow> (string \<times> int) list \<Rightarrow> int list" where
  "visits_of ip ps = map snd (filter (\<lambda>p. fst p = ip) ps)"

definition in_window :: "int \<Rightarrow> int \<Rightarrow> int list \<Rightarrow> int" where
  "in_window len now ts = int (length (filter (\<lambda>t. now - len < t \<and> t \<le> now) ts))"

fun window_spec :: "int \<Rightarrow> int \<Rightarrow> (string \<times> int) list \<Rightarrow> limiter_event list \<Rightarrow> (string \<times> int) list" where
  "window_spec len b ps [] = []"
| "window_spec len b ps (Visit ip t # es) =
     (if in_window len t (visits_of ip ps) < b
      then (ip, t) # window_spec len b (ps @ [(ip, t)]) es else window_spec len b ps es)"
| "window_spec len b ps (Sweep t # es) = window_spec len b ps es"

definition in_order :: "limiter_event list \<Rightarrow> bool" where
  "in_order es \<longleftrightarrow> sorted (map event_time es)"

text \<open>The limiter holds the passed visits \<open>ps\<close>, seen up to \<open>t0\<close>, as far as a later window can see them.\<close>

definition requests_of :: "string \<Rightarrow> 'l IPRateLimiter \<Rightarrow> int list" where
  "requests_of ip i = (case rl_requests i ip of None \<Rightarrow> [] | Some ts \<Rightarrow> ts)"

definition window_holds :: "int \<Rightarrow> (string \<times> int) list \<Rightarrow> 'l IPRateLimiter \<Rightarrow> bool" where
  "window_holds t0 ps i \<longleftrightarrow>
     (\<forall>p \<in> set ps. snd p \<le> t0) \<and>
     (\<forall>later ip. t0 \<le> later \<longrightarrow>
        filter (\<lambda>t. window_start i later < t) (requests_of ip i) =
        filter (\<lambda>t. window_start i later < t) (visits_of ip ps))"

lemma visits_of_append [simp]:
  "visits_of ip (ps @ qs) = visits_of ip ps @ visits_of ip qs"
  "visits_of ip [] = []" "visits_of ip [(ip', t)] = (if ip' = ip then [t] else [])"
  by (simp_all add: visits_of_def)

lemma visits_of_le: "\<forall>p \<in> set ps. snd p \<le> t0 \<Longrightarrow> \<forall>t \<in> set (visits_of ip ps). t \<le> t0"
  by (auto simp: visits_of_def)

lemma allowByWindow_keeps:
  "rl_window (snd (allowByWindow now ip i)) = rl_window i" "rl_b (snd (allowByWindow now ip i)) = rl_b i"
  "rl_mode (snd (allowByWindow now ip i)) = rl_mode i"
  by (simp_all add: allowByWindow_def Let_def)

lemma CleanupOldRecords_keeps:
  "rl_window (CleanupOldRecords now i) = rl_window i" "rl_b (CleanupOldRecords now i) = rl_b i"
  "rl_mode (CleanupOldRecords now i) = rl_mode i"
  by (simp_all add: CleanupOldRecords_def Let_def)

lemma window_start_cong [simp]:
  "window_start (i\<lparr>rl_requests := r\<rparr>) now = window_start i now"
  "window_start (i\<lparr>rl_ips := l\<rparr>) now = window_start i now"
  "window_start (i\<lparr>rl_lastSeen := s\<rparr>) now = window_start i now"
  by (simp_all add: window_start_def)

lemma window_start_mono: "now \<le> later \<Longrightarrow> window_start i now \<le> window_start i later"
  by (simp add: window_start_def)

lemma filter_later_window:
  "now \<le> later \<Longrightarrow>
   filter (\<lambda>t. window_start i later < t) (filter (\<lambda>t. window_start i now < t) ts) =
   filter (\<lambda>t. window_start i later < t) ts"
  using window_start_mono [of now later i] unfolding filter_filter by (intro filter_cong) auto

lemma allowByWindow_answer:
  assumes "window_holds t0 ps i" "t0 \<le> now"
  shows "fst (allowByWindow now ip i) \<longleftrightarrow> in_window (rl_window i * second) now (visits_of ip ps) < rl_b i"
proof -
  have "\<forall>t \<in> set (visits_of ip ps). t \<le> now"
    using assms visits_of_le [of ps t0 ip] unfolding window_holds_def by force
  then have "filter (\<lambda>t. window_start i now < t) (requests_of ip i) =
      filter (\<lambda>t. now - rl_window i * second < t \<and> t \<le> now) (visits_of ip ps)"
    using assms unfolding window_holds_def by (auto simp: window_start_def intro: filter_cong)
  then show ?thesis by (auto simp: allowByWindow_def in_window_def requests_of_def Let_def)
qed

lemma requests_of_allow:
  "requests_of ip' (snd (allowByWindow now ip i)) =
     (if ip' = ip
      then filter (\<lambda>t. window_start i now < t) (requests_of ip i) @ (if fst (allowByWindow now ip i) then [now] else [])
      else requests_of ip' i)"
  by (simp add: allowByWindow_def requests_of_def Let_def)

lemma window_start_allow: "window_start (snd (allowByWindow now ip i)) later = window_start i later"
  by (simp add: window_start_def allowByWindow_keeps)

lemma allowByWindow_holds:
  assumes "window_holds t0 ps i" "t0 \<le> now"
  shows "window_holds now (ps @ (if fst (allowByWindow now ip i) then [(ip, now)] else [])) (snd (allowByWindow now ip i))"
  unfolding window_holds_def
proof (intro conjI allI impI)
  show "\<forall>p \<in> set (ps @ (if fst (allowByWindow now ip i) then [(ip, now)] else [])). snd p \<le> now"
    using assms unfolding window_holds_def by auto
next
  fix later ip'
  assume l: "now \<le> later"
  then have "filter (\<lambda>t. window_start i later < t) (requests_of ip' i) =
      filter (\<lambda>t. window_start i later < t) (visits_of ip' ps)"
    using assms unfolding window_holds_def by auto
  then show "filter (\<lambda>t. window_start (snd (allowByWindow now ip i)) later < t) (requests_of ip' (snd (allowByWindow now ip i))) =
      filter (\<lambda>t. window_start (snd (allowByWindow now ip i)) later < t)
        (visits_of ip' (ps @ (if fst (allowByWindow now ip i) then [(ip, now)] else [])))"
    using filter_later_window [OF l, of i] by (cases "ip' = ip") (simp_all add: window_start_allow requests_of_allow)
qed

lemma requests_of_cleanup:
  "rl_mode i = WindowMode \<Longrightarrow>
   requests_of ip (CleanupOldRecords now i) = filter (\<lambda>t. window_start i now < t) (requests_of ip i)"
  by (auto simp: CleanupOldRecords_def requests_of_def Let_def split: option.splits)

lemma CleanupOldRecords_holds:
  assumes "window_holds t0 ps i" "t0 \<le> now" "rl_mode i = WindowMode"
  shows "window_holds now ps (CleanupOldRecords now i)"
proof -
  have ws: "window_start (CleanupOldRecords now i) later = window_start i later" for later
    by (simp add: window_start_def CleanupOldRecords_keeps)
  show ?thesis
    using assms filter_later_window [of now _ i] unfolding window_holds_def requests_of_cleanup [OF assms(3)] ws
    by fastforce
qed

lemma limiter_run_spec:
  assumes "rl_mode i = WindowMode" "window_holds t0 ps i" "in_order es" "\<forall>e \<in> set es. t0 \<le> event_time e"
  shows "limiter_run tb es i = window_spec (rl_window i * second) (rl_b i) ps es"
  using assms
proof (induction tb es i arbitrary: t0 ps rule: limiter_run.induct)
  case (1 tb i)
  then show ?case by simp
next
  case (2 tb ip t es i)
  obtain ok i' where a: "allowByWindow t ip i = (ok, i')" by fastforce
  have k: "rl_mode i' = WindowMode" "rl_window i' = rl_window i" "rl_b i' = rl_b i"
    using allowByWindow_keeps [of t ip i] 2(2) a by simp_all
  have t: "t0 \<le> t" using 2(5) by simp
  have h: "window_holds t (ps @ (if ok then [(ip, t)] else [])) i'"
    using allowByWindow_holds [OF 2(3) t, of ip] a by simp
  have ok: "ok \<longleftrightarrow> in_window (rl_window i * second) t (visits_of ip ps) < rl_b i"
    using allowByWindow_answer [OF 2(3) t, of ip] a by simp
  have r: "rl_Allow tb t ip i = (ok, i')" using 2(2) a by (simp add: rl_Allow_def)
  have "limiter_run tb es i' = window_spec (rl_window i' * second) (rl_b i') (ps @ (if ok then [(ip, t)] else [])) es"
    using 2(1) [OF r [symmetric] k(1) h] 2(4) by (auto simp: in_order_def)
  then show ?case using r ok k by simp
next
  case (3 tb t es i)
  have "limiter_run tb es (CleanupOldRecords t i) =
      window_spec (rl_window (CleanupOldRecords t i) * second) (rl_b (CleanupOldRecords t i)) ps es"
    by (rule 3(1) [of t]) (use 3 in \<open>auto simp: in_order_def CleanupOldRecords_keeps intro: CleanupOldRecords_holds\<close>)
  then show ?case by (simp add: CleanupOldRecords_keeps)
qed

lemma in_window_append: "in_window len now (xs @ ys) = in_window len now xs + in_window len now ys"
  by (simp add: in_window_def)

lemma in_window_shift:
  assumes "\<forall>x \<in> set xs. x \<le> t" "t \<le> now"
  shows "in_window len now xs \<le> in_window len t xs"
proof -
  have "length (filter (\<lambda>x. now - len < x \<and> x \<le> now) xs) \<le> length (filter (\<lambda>x. t - len < x \<and> x \<le> t) xs)"
    using assms by (induction xs) auto
  then show ?thesis by (simp add: in_window_def)
qed

lemma window_spec_bound:
  assumes "in_order es" "\<forall>p \<in> set ps. snd p \<le> t0" "\<forall>e \<in> set es. t0 \<le> event_time e"
    "\<And>now ip. in_window len now (visits_of ip ps) \<le> b"
  shows "in_window len now (visits_of ip (ps @ window_spec len b ps es)) \<le> b"
  using assms
proof (induction len b ps es arbitrary: t0 rule: window_spec.induct)
  case (1 len b ps)
  then show ?case by simp
next
  case (2 len b ps ip' t es)
  show ?case
  proof (cases "in_window len t (visits_of ip' ps) < b")
    case True
    have le: "\<forall>x \<in> set (visits_of ip' ps). x \<le> t"
      using 2(4,5) visits_of_le [of ps t0 ip'] by force
    have b: "in_window len now (visits_of ip (ps @ [(ip', t)])) \<le> b" for now ip
    proof (cases "ip = ip' \<and> now - len < t \<and> t \<le> now")
      case True
      then show ?thesis
        using in_window_shift [OF le, of now len] \<open>in_window len t (visits_of ip' ps) < b\<close>
        by (simp add: in_window_append) (simp add: in_window_def)
    next
      case False
      then show ?thesis using 2(6) [of now ip] by (auto simp: in_window_append) (auto simp: in_window_def)
    qed
    have "in_window len now (visits_of ip ((ps @ [(ip', t)]) @ window_spec len b (ps @ [(ip', t)]) es)) \<le> b"
      by (rule 2(1) [OF True, of t]) (use 2(3-5) b in \<open>force simp: in_order_def\<close>)+
    then show ?thesis using True by simp
  next
    case False
    have "in_window len now (visits_of ip (ps @ window_spec len b ps es)) \<le> b"
      by (rule 2(2) [OF False, of t0]) (use 2(3-6) in \<open>auto simp: in_order_def\<close>)
    then show ?thesis using False by simp
  qed
next
  case (3 len b ps t es)
  have "in_window len now (visits_of ip (ps @ window_spec len b ps es)) \<le> b"
    by (rule 3(1) [of t0]) (use 3(2-5) in \<open>auto simp: in_order_def\<close>)
  then show ?case by simp
qed

lemma window_holds_new: "window_holds t0 [] (NewWindowIPRateLimiter w b)"
  by (simp add: window_holds_def NewWindowIPRateLimiter_def requests_of_def)

lemma window_holds_Rule [simp]: "window_holds t0 ps (i\<lparr>rl_Rule := r\<rparr>) \<longleftrightarrow> window_holds t0 ps i"
  by (simp add: window_holds_def requests_of_def window_start_def)

text \<open>A limiter built for the mode \<open>window\<close> starts with an empty record.\<close>

lemma BuildIPRateLimiter_window:
  assumes "BuildIPRateLimiter cc = Some i" "ac_LimitMode cc = ''window''"
  shows "rl_mode i = WindowMode" "rl_window i = (if ac_Rate cc \<le> 0 then 1 else ac_Rate cc)" "rl_b i = ac_Limit cc"
    "window_holds t0 [] i"
  using assms unfolding BuildIPRateLimiter_def Let_def
  by (auto simp: NewWindowIPRateLimiter_def window_holds_def requests_of_def split: if_splits)

lemma limiter_run_built:
  assumes "BuildIPRateLimiter cc = Some i" "ac_LimitMode cc = ''window''" "in_order es"
  shows "limiter_run tb es i =
    window_spec ((if ac_Rate cc \<le> 0 then 1 else ac_Rate cc) * second) (ac_Limit cc) [] es"
proof (cases es)
  case Nil
  then show ?thesis by simp
next
  case (Cons e es')
  have "\<forall>e' \<in> set es. event_time e \<le> event_time e'" using assms(3) Cons by (auto simp: in_order_def)
  then show ?thesis
    using limiter_run_spec [of i "event_time e" "[]" es tb] assms BuildIPRateLimiter_window [OF assms(1,2)] by auto
qed

subsection \<open>Properties\<close>


definition demo_cc :: AntiCC where
  "demo_cc = \<lparr>ac_Id = ''1'', ac_Rate = 10, ac_Limit = 2, ac_LimitMode = ''window'', ac_LockIPMinutes = 5,
     ac_IsEnableRule = False, ac_RuleContent = [], ac_SkipGlobalCC = False\<rparr>"

definition demo_tb :: "unit token_bucket" where
  "demo_tb = \<lparr>NewLimiter = (\<lambda>_ _. ()), limiter_Allow = (\<lambda>_ l. (True, l))\<rparr>"

definition demo_visits :: "limiter_event list" where
  "demo_visits = [Visit ''a'' second, Visit ''a'' (2 * second), Visit ''a'' (3 * second), Visit ''b'' (3 * second),
     Sweep (4 * second), Visit ''a'' (11 * second), Visit ''a'' (11 * second)]"

lemma demo_built: "BuildIPRateLimiter demo_cc = Some (NewWindowIPRateLimiter 10 2)"
  by (simp add: BuildIPRateLimiter_def demo_cc_def)

lemma demo_in_order: "in_order demo_visits"
  by (simp add: in_order_def demo_visits_def)


text \<open>
  The guarantee a site buys with the window mode: at no instant, between requests or at one, have more than
  the configured number of a client's requests been let through within the last window.
\<close>

theorem window_limiter_bound:
  assumes "BuildIPRateLimiter cc = Some i" "ac_LimitMode cc = ''window''" "in_order es" "0 \<le> ac_Limit cc"
  shows "in_window ((if ac_Rate cc \<le> 0 then 1 else ac_Rate cc) * second) now (visits_of ip (limiter_run tb es i))
    \<le> ac_Limit cc"
proof (cases es)
  case Nil
  then show ?thesis using assms(4) by (simp add: in_window_def)
next
  case (Cons e es')
  let ?len = "(if ac_Rate cc \<le> 0 then 1 else ac_Rate cc) * second"
  have "in_window ?len now (visits_of ip ([] @ window_spec ?len (ac_Limit cc) [] es)) \<le> ac_Limit cc"
    by (rule window_spec_bound [of es "[]" "event_time e"])
      (use assms(3,4) Cons in \<open>auto simp: in_order_def in_window_def\<close>)
  then show ?thesis unfolding limiter_run_built [OF assms(1-3)] by simp
qed

theorem window_limiter_bound_witness:
  "in_window (10 * second) (11 * second) (visits_of ''a'' (limiter_run demo_tb demo_visits (NewWindowIPRateLimiter 10 2))) \<le> 2"
  using window_limiter_bound [OF demo_built _ demo_in_order, of "11 * second" "''a''" demo_tb] by (simp add: demo_cc_def)

text \<open>
  In the average-rate mode the clean-up removes a client's token bucket only when the client has been idle for at
  least as long as an empty bucket needs to fill (in whole seconds, rounded up beyond it), so that a fresh bucket and
  the kept one hold the same tokens; a bucket in use is kept as it is.
\<close>

theorem CleanupOldRecords_rate_mode:
  assumes "0 < r" "0 \<le> b" "rl_mode i = RateMode" "rl_window i = rl_window (NewIPRateLimiter r b :: 'l IPRateLimiter)"
    "rl_lastSeen i ip = Some seen"
  shows "rl_ips (CleanupOldRecords now i) ip = rl_ips i ip \<and> rl_lastSeen (CleanupOldRecords now i) ip = Some seen \<or>
    rl_ips (CleanupOldRecords now i) ip = None \<and> rat_of_int b < r * (rat_of_int (now - seen) / rat_of_int second)"
proof -
  let ?w = "rl_window i"
  have w: "?w = \<lfloor>rat_of_int b / r\<rfloor> + 1" using assms(1,2,4) by (simp add: NewIPRateLimiter_def)
  have "0 \<le> rat_of_int b / r" using assms(1,2) by simp
  then have pos: "0 < ?w" using w by (simp add: add_pos_nonneg add.commute)
  have "rat_of_int b / r < rat_of_int ?w" unfolding w by linarith
  then have full: "rat_of_int b < r * rat_of_int ?w" using assms(1) by (simp add: divide_less_eq mult.commute)
  show ?thesis
  proof (cases "?w * second \<le> now - seen")
    case True
    then have "rat_of_int (?w * second) \<le> rat_of_int (now - seen)" by (simp only: of_int_le_iff)
    then have "rat_of_int ?w * rat_of_int second \<le> rat_of_int (now - seen)" by (simp only: of_int_mult)
    then have "rat_of_int ?w \<le> rat_of_int (now - seen) / rat_of_int second"
      by (subst pos_le_divide_eq) simp_all
    then have "r * rat_of_int ?w \<le> r * (rat_of_int (now - seen) / rat_of_int second)" using assms(1) by simp
    then have "rat_of_int b < r * (rat_of_int (now - seen) / rat_of_int second)" using full by linarith
    then show ?thesis using True assms(3,5) pos by (simp add: CleanupOldRecords_def Let_def)
  next
    case False
    then show ?thesis using assms(3,5) pos by (simp add: CleanupOldRecords_def Let_def)
  qed
qed

theorem CleanupOldRecords_rate_mode_witness:
  "(5::rat) < 2 * (rat_of_int (4 * second) / rat_of_int second)"
  using CleanupOldRecords_rate_mode
    [of 2 5 "snd (rl_Allow demo_tb 0 ''a'' (NewIPRateLimiter 2 5))" "''a''" 0 "4 * second"]
  by (simp add: rl_Allow_def GetLimiter_def AddIP_def NewIPRateLimiter_def demo_tb_def CleanupOldRecords_def
      Let_def)

end
