(* ===== verification/Cc_Check.thy ===== *)
theory Cc_Check
  imports Cc_Rule Cc_Counter Cc_Stats Cc_Captcha Rate_Limiter
begin

text \<open>
  The CC detection of a request: wafenginecore/checkcc_rules.go (the rule sets of the site and of the global site),
  checkcc.go (the entry and the older single limit) and cc_emergency.go, over the rules, the counter, the hit board,
  the bans and the captcha marks.

  The state is a record of what these share; the log entry of the request, which the checks write to, is part of it.
  Limiters are objects of their sites: the state holds them by site code, so that a site and the global site may be
  the same object. The rule engine of the older limit is an argument that gives the number of matching rules, \<open>None\<close>
  when none is loaded or it fails. The compiled rules of a site are never nil, as the loader appends only
  compiled ones.
\<close>

subsection \<open>State\<close>

record cc_host =
  ch_Code :: string
  ch_IPMode :: string
  ch_GUARD_STATUS :: int
  ch_LogOnlyMode :: int
  ch_EmergencyMode :: int
  ch_EmergencyUntil :: int
  ch_CCRules :: "CompiledRule list"
  ch_AntiCC :: AntiCC

record ('r, 'l) cc_world =
  cw_cache :: "'r WafCache option"
  cw_counter :: Counter
  cw_stats :: Tracker
  cw_limiters :: "string \<rightharpoonup> 'l IPRateLimiter"
  cw_log :: WebLog

definition unix :: "int \<Rightarrow> int" where "unix now = now div second"

definition client_ip :: "cc_host \<Rightarrow> ('r, 'l) cc_world \<Rightarrow> string" where
  "client_ip h w = GetClientIPByMode (ch_IPMode h) (lg_NetSrcIp (cw_log w)) (lg_SRC_IP (cw_log w))"

definition set_RULE :: "string \<Rightarrow> ('r, 'l) cc_world \<Rightarrow> ('r, 'l) cc_world" where
  "set_RULE s w = w\<lparr>cw_log := (cw_log w)\<lparr>lg_RULE := s\<rparr>\<rparr>"

definition set_risk :: "('r, 'l) cc_world \<Rightarrow> ('r, 'l) cc_world" where
  "set_risk w = w\<lparr>cw_log := (cw_log w)\<lparr>lg_RISK_LEVEL := 1\<rparr>\<rparr>"

definition blocked :: "string \<Rightarrow> detection_Result" where
  "blocked title = no_result\<lparr>dr_IsBlock := True, dr_Title := title,
     dr_Content := utf8_text [230, 130, 168, 231, 154, 132, 232, 174, 191, 233, 151, 174, 232, 162, 171, 233, 152, 187, 230, 173, 162,
       232, 182, 133, 233, 135, 143, 228, 186, 134]\<rparr>"

subsection \<open>Emergency mode\<close>

definition IsEmergencyActive :: "int \<Rightarrow> cc_host \<Rightarrow> bool" where
  "IsEmergencyActive nowUnix h \<longleftrightarrow> ch_EmergencyMode h = 1 \<and> (ch_EmergencyUntil h \<le> 0 \<or> nowUnix < ch_EmergencyUntil h)"

definition isEmergencyOn :: "int \<Rightarrow> cc_host \<Rightarrow> cc_host option \<Rightarrow> bool" where
  "isEmergencyOn now h globalHost \<longleftrightarrow>
     IsEmergencyActive (unix now) h \<or> (case globalHost of None \<Rightarrow> False | Some g \<Rightarrow> IsEmergencyActive (unix now) g)"

definition emergencyGraceSeconds :: int where "emergencyGraceSeconds = 1800"

definition emergency_name :: string where
  "emergency_name = utf8_text [231, 180, 167, 230, 128, 165, 230, 168, 161, 229, 188, 143]"
definition grace_text :: string where
  "grace_text = ''-'' @ utf8_text [229, 133, 141, 230, 140, 145, 230, 136, 152, 230, 156, 159, 229, 134, 133, 230, 148, 190, 232, 161, 140]"
definition passed_text :: string where
  "passed_text = ''-'' @ utf8_text [230, 156, 172, 232, 189, 174, 229, 183, 178, 233, 128, 154, 232, 191, 135]"

definition applyEmergencyCaptcha :: "int \<Rightarrow> http_request \<Rightarrow> cc_host \<Rightarrow> ('r, 'l) cc_world \<Rightarrow> ('r, 'l) cc_world" where
  "applyEmergencyCaptcha now r h w =
     (let ip = (if client_ip h w = [] then lg_SRC_IP (cw_log w) else client_ip h w)
      in if ip = [] then w
         else
           (case challenge_round now r (ch_Code h) ip emergencyGraceSeconds emergency_name (cw_cache w) of
              (outcome, store) \<Rightarrow>
                set_RULE (''CC'' @ emergency_name @
                    (case outcome of InGrace \<Rightarrow> grace_text | RoundPassed \<Rightarrow> passed_text | Challenged \<Rightarrow> []))
                  (w\<lparr>cw_cache := store\<rparr>)))"

text \<open>The administration of the switch (service/waf_service/waf_cc_emergency.go): 24 hours at most, 0 for no end.\<close>

definition ccEmergencyMaxMinutes :: int where "ccEmergencyMaxMinutes = 24 * 60"

definition SetEmergency :: "int \<Rightarrow> int \<Rightarrow> int \<Rightarrow> cc_host \<Rightarrow> cc_host" where
  "SetEmergency now enable durationMin h =
     (if enable = 1
      then (let d = min (max durationMin 0) ccEmergencyMaxMinutes
            in h\<lparr>ch_EmergencyMode := 1, ch_EmergencyUntil := (if 0 < d then unix (now + d * minute) else 0)\<rparr>)
      else h\<lparr>ch_EmergencyMode := 0, ch_EmergencyUntil := 0\<rparr>)"

subsection \<open>Actions of a rule\<close>

definition rule_label :: "AntiCCRule \<Rightarrow> string" where
  "rule_label rule = (if ar_RuleCode rule \<noteq> [] then ar_RuleName rule @ ''['' @ ar_RuleCode rule @ '']'' else ar_RuleName rule)"

definition captcha_text :: string where
  "captcha_text = ''CC'' @ utf8_text [228, 186, 186, 230, 156, 186, 233, 170, 140, 232, 175, 129]"

definition applyCCAction ::
  "int \<Rightarrow> http_request \<Rightarrow> CompiledRule \<Rightarrow> cc_host \<Rightarrow> string \<Rightarrow> string \<Rightarrow> ('r, 'l) cc_world
     \<Rightarrow> (detection_Result \<times> bool) \<times> ('r, 'l) cc_world" where
  "applyCCAction now r cr h clientIP ruleHostCode w =
     (let rule = cr_Rule cr; label = rule_label rule;
          title = utf8_text [232, 167, 166, 229, 143, 145] @ ''CC'' @
            utf8_text [233, 152, 178, 230, 138, 164, 232, 167, 132, 229, 136, 153] @ '':'' @ label
      in if ar_Action rule = ''observe'' then
           ((no_result, False), set_RULE (''CC'' @ utf8_text [232, 167, 130, 229, 175, 159] @ '':'' @ label) w)
         else if ar_Action rule = ''captcha'' then
           (let w1 = set_risk w; captchaIP = (if client_ip h w1 = [] then clientIP else client_ip h w1)
            in case challenge_round now r (ch_Code h) captchaIP (ar_ActionSeconds rule)
                      (''CC'' @ utf8_text [232, 167, 132, 229, 136, 153] @ '' '' @ label) (cw_cache w1) of
                 (outcome, store) \<Rightarrow>
                   ((no_result, True),
                    set_RULE (captcha_text @
                        (case outcome of InGrace \<Rightarrow> grace_text | RoundPassed \<Rightarrow> passed_text | Challenged \<Rightarrow> []) @ '':'' @ label)
                      (w1\<lparr>cw_cache := store\<rparr>)))
         else if ar_Action rule = ''ban'' then
           (let w1 = set_risk w;
                scope = (if ar_BanScope rule \<noteq> CCBanScopeHost then CCBanScopeGlobal else ar_BanScope rule)
            in ((blocked title, True),
                w1\<lparr>cw_cache := banCCWithScope now (ch_LogOnlyMode h) scope ruleHostCode clientIP (ar_ActionSeconds rule) (cw_cache w1)\<rparr>))
         else ((blocked title, True), set_risk w))"

definition ccBotExempt :: "CompiledRule \<Rightarrow> WebLog \<Rightarrow> bool" where
  "ccBotExempt cr lg \<longleftrightarrow>
     ar_BotExempt (cr_Rule cr) = 1 \<and> ar_Action (cr_Rule cr) \<noteq> ''observe'' \<and>
     lg_IsBot lg = 1 \<and> lg_RISK_LEVEL lg = 0 \<and> lg_BotVerifyStrong lg = 1"

subsection \<open>Rule sets\<close>

text \<open>Whether a rule is evaluated at all on this request, and counting under its dimension.\<close>

definition rule_applies :: "CompiledRule \<Rightarrow> http_request \<Rightarrow> WebLog \<Rightarrow> bool" where
  "rule_applies cr r lg \<longleftrightarrow>
     ar_IsEnable (cr_Rule cr) = 1 \<and> \<not> NeedsResponsePhase cr \<and> InCountScope cr r \<and> Matches cr r (Some lg) \<and>
     \<not> ccBotExempt cr lg"

definition count_request ::
  "int \<Rightarrow> http_request \<Rightarrow> CompiledRule \<Rightarrow> string \<Rightarrow> WebLog \<Rightarrow> Counter \<Rightarrow> (Result \<times> string) \<times> Counter" where
  "count_request now r cr clientIP lg c =
     (let rid = ar_Id (cr_Rule cr); window = ar_WindowSec (cr_Rule cr); dimValue = fst (DimValue cr r (Some lg) clientIP)
      in case Incr (nat (unix now)) c rid dimValue window of
           (res, c1) \<Rightarrow>
             if r_Degraded res
             then (case Incr (nat (unix now)) c1 rid clientIP window of (res', c2) \<Rightarrow> ((res', clientIP), c2))
             else ((res, dimValue), c1))"

definition exceeds :: "CompiledRule \<Rightarrow> Result \<Rightarrow> bool" where
  "exceeds cr res \<longleftrightarrow>
     (let threshold = ar_Threshold (cr_Rule cr) + ar_Burst (cr_Rule cr)
      in \<not> r_Rejected res \<and> 0 < threshold \<and> threshold < r_Count res)"

fun runCCRuleSet ::
  "int \<Rightarrow> http_request \<Rightarrow> cc_host \<Rightarrow> string \<Rightarrow> string \<Rightarrow> CompiledRule list \<Rightarrow> ('r, 'l) cc_world
     \<Rightarrow> (detection_Result \<times> bool) \<times> ('r, 'l) cc_world" where
  "runCCRuleSet now r h clientIP ruleHostCode [] w = ((no_result, False), w)"
| "runCCRuleSet now r h clientIP ruleHostCode (cr # rules) w =
     (if \<not> rule_applies cr r (cw_log w) then runCCRuleSet now r h clientIP ruleHostCode rules w
      else
        (case count_request now r cr clientIP (cw_log w) (cw_counter w) of
           ((res, dimValue), c) \<Rightarrow>
             (let w1 = w\<lparr>cw_counter := c\<rparr>
              in if \<not> exceeds cr res then runCCRuleSet now r h clientIP ruleHostCode rules w1
                 else
                   (let w2 = w1\<lparr>cw_stats := Record (unix now) (ar_Id (cr_Rule cr)) (ar_Action (cr_Rule cr)) dimValue (cw_stats w1)\<rparr>
                    in case applyCCAction now r cr h clientIP ruleHostCode w2 of
                         ((hit, stop), w3) \<Rightarrow>
                           if stop then ((hit, True), w3)
                           else runCCRuleSet now r h clientIP ruleHostCode rules w3))))"

text \<open>An observing rule leaves the empty result behind, which is also the result of the loop when it ends.\<close>

definition global_rules :: "cc_host \<Rightarrow> cc_host option \<Rightarrow> CompiledRule list" where
  "global_rules h globalHost =
     (case globalHost of
        None \<Rightarrow> []
      | Some g \<Rightarrow> if ch_Code g \<noteq> ch_Code h \<and> ch_GUARD_STATUS g = 1 then ch_CCRules g else [])"

definition checkCCByRules ::
  "int \<Rightarrow> http_request \<Rightarrow> cc_host \<Rightarrow> cc_host option \<Rightarrow> ('r, 'l) cc_world \<Rightarrow> (detection_Result \<times> bool) \<times> ('r, 'l) cc_world" where
  "checkCCByRules now r h globalHost w =
     (let rules = ch_CCRules h; globalRules = global_rules h globalHost
      in if rules = [] \<and> globalRules = [] then ((no_result, False), w)
         else
           (let clientIP = client_ip h w
            in case runCCRuleSet now r h clientIP (ch_Code h) rules w of
                 ((res, True), w1) \<Rightarrow> ((res, True), w1)
               | ((res, False), w1) \<Rightarrow>
                   (case runCCRuleSet now r h clientIP (case globalHost of None \<Rightarrow> [] | Some g \<Rightarrow> ch_Code g) globalRules w1 of
                      ((res', True), w2) \<Rightarrow> ((res', True), w2)
                    | ((res', False), w2) \<Rightarrow> ((no_result, True), w2))))"

subsection \<open>The single limit of earlier versions\<close>

definition limit_title :: "nat list \<Rightarrow> string" where
  "limit_title where_text =
     utf8_text (where_text @ [232, 167, 166, 229, 143, 145]) @ ''IP'' @
     utf8_text [233, 162, 145, 230, 172, 161, 232, 174, 191, 233, 151, 174, 233, 153, 144, 229, 136, 182]"

definition local_mark :: "nat list" where "local_mark = [227, 128, 144, 229, 177, 128, 233, 131, 168, 227, 128, 145]"
definition global_mark :: "nat list" where "global_mark = [227, 128, 144, 229, 133, 168, 229, 177, 128, 227, 128, 145]"

text \<open>Ask the limiter of a site; a refusal bans the client. \<open>None\<close> when it is let through.\<close>

definition limit_by ::
  "'l token_bucket \<Rightarrow> int \<Rightarrow> cc_host \<Rightarrow> cc_host \<Rightarrow> nat list \<Rightarrow> string \<Rightarrow> ('r, 'l) cc_world
     \<Rightarrow> detection_Result option \<times> ('r, 'l) cc_world" where
  "limit_by tb now h owner where_text clientIP w =
     (case cw_limiters w (ch_Code owner) of
        None \<Rightarrow> (None, w)
      | Some limiter \<Rightarrow>
          (case rl_Allow tb now clientIP limiter of
             (True, limiter') \<Rightarrow> (None, w\<lparr>cw_limiters := (cw_limiters w)(ch_Code owner \<mapsto> limiter')\<rparr>)
           | (False, limiter') \<Rightarrow>
               (let w1 = set_risk (w\<lparr>cw_limiters := (cw_limiters w)(ch_Code owner \<mapsto> limiter')\<rparr>)
                in (Some (blocked (limit_title where_text)),
                    w1\<lparr>cw_cache := banCC now (ch_LogOnlyMode h) (ch_Code owner) clientIP (ac_LockIPMinutes (ch_AntiCC owner)) (cw_cache w1)\<rparr>))))"

definition in_local_scope :: "(string \<Rightarrow> WebLog \<Rightarrow> nat option) \<Rightarrow> cc_host \<Rightarrow> 'l IPRateLimiter \<Rightarrow> WebLog \<Rightarrow> bool" where
  "in_local_scope engine h limiter lg \<longleftrightarrow>
     (if ac_IsEnableRule (ch_AntiCC h)
      then (case rl_Rule limiter of
              None \<Rightarrow> False
            | Some content \<Rightarrow> (case engine content lg of None \<Rightarrow> False | Some n \<Rightarrow> 0 < n))
      else True)"

definition global_limit ::
  "'l token_bucket \<Rightarrow> int \<Rightarrow> cc_host \<Rightarrow> cc_host option \<Rightarrow> string \<Rightarrow> ('r, 'l) cc_world \<Rightarrow> detection_Result \<times> ('r, 'l) cc_world" where
  "global_limit tb now h globalHost clientIP w =
     (case globalHost of
        None \<Rightarrow> (no_result, w)
      | Some g \<Rightarrow>
          if ch_GUARD_STATUS g = 1
          then (case limit_by tb now h g global_mark clientIP w of (None, w') \<Rightarrow> (no_result, w') | (Some res, w') \<Rightarrow> (res, w'))
          else (no_result, w))"

definition CheckCC ::
  "'l token_bucket \<Rightarrow> (string \<Rightarrow> WebLog \<Rightarrow> nat option) \<Rightarrow> int \<Rightarrow> http_request \<Rightarrow> cc_host \<Rightarrow> cc_host option \<Rightarrow> ('r, 'l) cc_world
     \<Rightarrow> detection_Result \<times> ('r, 'l) cc_world" where
  "CheckCC tb engine now r h globalHost w0 =
     (let w = (if isEmergencyOn now h globalHost then applyEmergencyCaptcha now r h w0 else w0)
      in case checkCCByRules now r h globalHost w of
           ((res, True), w1) \<Rightarrow> (res, w1)
         | ((_, False), w1) \<Rightarrow>
             (let clientIP = client_ip h w1
              in case cw_limiters w1 (ch_Code h) of
                   None \<Rightarrow> global_limit tb now h globalHost clientIP w1
                 | Some limiter \<Rightarrow>
                     if in_local_scope engine h limiter (cw_log w1)
                     then (case limit_by tb now h h local_mark clientIP w1 of
                             (Some res, w2) \<Rightarrow> (res, w2)
                           | (None, w2) \<Rightarrow>
                               if ac_SkipGlobalCC (ch_AntiCC h) then (no_result, w2)
                               else global_limit tb now h globalHost clientIP w2)
                     else global_limit tb now h globalHost clientIP w1))"

subsection \<open>Lemmas\<close>

text \<open>The rule text of the log entry, which an observing rule writes, is not read by any condition.\<close>

lemma fieldValues_RULE: "fieldValues cc r (Some (l\<lparr>lg_RULE := s\<rparr>)) = fieldValues cc r (Some l)"
proof -
  have sel: "lg_SRC_IP (l\<lparr>lg_RULE := s\<rparr>) = lg_SRC_IP l" "lg_COUNTRY (l\<lparr>lg_RULE := s\<rparr>) = lg_COUNTRY l"
    "lg_PROVINCE (l\<lparr>lg_RULE := s\<rparr>) = lg_PROVINCE l" "lg_CITY (l\<lparr>lg_RULE := s\<rparr>) = lg_CITY l"
    "lg_IsBot (l\<lparr>lg_RULE := s\<rparr>) = lg_IsBot l" "lg_CONTENT_LENGTH (l\<lparr>lg_RULE := s\<rparr>) = lg_CONTENT_LENGTH l"
    "lg_ResHeader (l\<lparr>lg_RULE := s\<rparr>) = lg_ResHeader l" "lg_STATUS_CODE (l\<lparr>lg_RULE := s\<rparr>) = lg_STATUS_CODE l"
    "lg_RES_CONTENT_LENGTH (l\<lparr>lg_RULE := s\<rparr>) = lg_RES_CONTENT_LENGTH l" "lg_TimeSpent (l\<lparr>lg_RULE := s\<rparr>) = lg_TimeSpent l"
    "lg_BodyFields (l\<lparr>lg_RULE := s\<rparr>) = lg_BodyFields l" "lg_BodyValues (l\<lparr>lg_RULE := s\<rparr>) = lg_BodyValues l" by simp_all
  show ?thesis
    unfolding fieldValues_def Let_def logField_def log_text_def bodyFieldValues_def option.case sel by (rule refl)
qed

lemma rule_applies_RULE [simp]: "rule_applies cr r (l\<lparr>lg_RULE := s\<rparr>) = rule_applies cr r l"
  by (simp add: rule_applies_def Matches_def cond_eval_def fieldValues_RULE ccBotExempt_def)

lemma count_request_RULE [simp]: "count_request now r cr ip (l\<lparr>lg_RULE := s\<rparr>) c = count_request now r cr ip l c"
proof -
  have b: "bodyFieldValues (Some (l\<lparr>lg_RULE := s\<rparr>)) = bodyFieldValues (Some l)"
    by (rule ext) (simp add: bodyFieldValues_def)
  have d: "dim_candidate cr r (Some (l\<lparr>lg_RULE := s\<rparr>)) = dim_candidate cr r (Some l)"
    unfolding dim_candidate_def b by (rule refl)
  show ?thesis unfolding count_request_def DimValue_def d by (rule refl)
qed

lemma applyCCAction_cases:
  "ar_Action (cr_Rule cr) = ''observe'' \<Longrightarrow>
     \<exists>s. applyCCAction now r cr h ip code w = ((no_result, False), set_RULE s w)"
  "ar_Action (cr_Rule cr) = ''captcha'' \<Longrightarrow> \<exists>w'. applyCCAction now r cr h ip code w = ((no_result, True), w')"
  "ar_Action (cr_Rule cr) \<notin> {''observe'', ''captcha''} \<Longrightarrow>
     \<exists>title w'. applyCCAction now r cr h ip code w = ((blocked title, True), w')"
  by (auto simp: applyCCAction_def Let_def split: prod.splits)

lemma no_result_simps [simp]: "\<not> dr_IsBlock no_result" "dr_IsBlock (blocked title)"
  by (simp_all add: no_result_def blocked_def)

subsection \<open>Properties\<close>

text \<open>
  A block by a rule set is justified: there is a rule of the set that is enabled, is evaluated at request time, has the
  request in its scope and its conditions true, does not exempt the client as a verified crawler, whose action is
  neither to observe nor a captcha, and which counted this request beyond its limit and its burst together.
\<close>

theorem runCCRuleSet_block_justified:
  assumes "runCCRuleSet now r h ip code rules w = ((res, stop), w')" "dr_IsBlock res"
  shows "stop \<and> (\<exists>cr \<in> set rules. \<exists>c cnt dim c'. rule_applies cr r (cw_log w) \<and>
    ar_Action (cr_Rule cr) \<notin> {''observe'', ''captcha''} \<and>
    count_request now r cr ip (cw_log w) c = ((cnt, dim), c') \<and>
    ar_Threshold (cr_Rule cr) + ar_Burst (cr_Rule cr) < r_Count cnt)"
  using assms
proof (induction now r h ip code rules w rule: runCCRuleSet.induct)
  case (1 now r h ip code w)
  then show ?case by auto
next
  case (2 now r h ip code cr rules w)
  show ?case
  proof (cases "rule_applies cr r (cw_log w)")
    case False
    then show ?thesis using 2(1) [OF False] 2(4,5) by auto
  next
    case app: True
    obtain cnt dim c' where cr: "count_request now r cr ip (cw_log w) (cw_counter w) = ((cnt, dim), c')" by (metis surj_pair)
    show ?thesis
    proof (cases "exceeds cr cnt")
      case False
      then show ?thesis using 2(2) [of "(cnt, dim)" c' cnt dim] app cr 2(4,5) by auto
    next
      case exc: True
      define w2 where "w2 = (w\<lparr>cw_counter := c'\<rparr>)\<lparr>cw_stats := Record (unix now) (ar_Id (cr_Rule cr)) (ar_Action (cr_Rule cr)) dim (cw_stats w)\<rparr>"
      have run: "runCCRuleSet now r h ip code (cr # rules) w =
          (case applyCCAction now r cr h ip code w2 of
             ((hit, stop), w3) \<Rightarrow> if stop then ((hit, True), w3) else runCCRuleSet now r h ip code rules w3)"
        using app cr exc by (simp add: w2_def)
      have lim: "ar_Threshold (cr_Rule cr) + ar_Burst (cr_Rule cr) < r_Count cnt" using exc by (simp add: exceeds_def Let_def)
      consider "ar_Action (cr_Rule cr) = ''observe''" | "ar_Action (cr_Rule cr) = ''captcha''"
        | "ar_Action (cr_Rule cr) \<notin> {''observe'', ''captcha''}" by blast
      then show ?thesis
      proof cases
        case 1
        then obtain s where a: "applyCCAction now r cr h ip code w2 = ((no_result, False), set_RULE s w2)"
          using applyCCAction_cases(1) by blast
        have "cw_log (set_RULE s w2) = (cw_log w)\<lparr>lg_RULE := s\<rparr>" by (simp add: set_RULE_def w2_def)
        then show ?thesis
          using 2(3) [of "(cnt, dim)" c' cnt dim "w\<lparr>cw_counter := c'\<rparr>" w2 "(no_result, False)" "set_RULE s w2" no_result False]
            app cr exc a run 2(4,5) by (auto simp: w2_def)
      next
        case 2
        then show ?thesis using applyCCAction_cases(2) [OF 2, of now r h ip code w2] run \<open>runCCRuleSet now r h ip code (cr # rules) w = ((res, stop), w')\<close> \<open>dr_IsBlock res\<close> by auto
      next
        case 3
        then have "stop" using applyCCAction_cases(3) [OF 3, of now r h ip code w2] run \<open>runCCRuleSet now r h ip code (cr # rules) w = ((res, stop), w')\<close> by auto
        then show ?thesis using app cr lim 3 by fastforce
      qed
    qed
  qed
qed

text \<open>
  Rules for the response phase have no effect: the loop over a set of rules gives the same result and leaves the
  same state as the loop over the set without the rules that count at the response, that refer to a field of
  the response, or that are disabled.
\<close>

theorem runCCRuleSet_ignores_response_rules:
  fixes w :: "('r, 'l) cc_world"
  shows "runCCRuleSet now r h ip code rules w =
   runCCRuleSet now r h ip code (filter (\<lambda>cr. ar_IsEnable (cr_Rule cr) = 1 \<and> \<not> NeedsResponsePhase cr) rules) w"
proof (induction rules arbitrary: w)
  case (Cons cr rules)
  show ?case
  proof (cases "ar_IsEnable (cr_Rule cr) = 1 \<and> \<not> NeedsResponsePhase cr")
    case True
    let ?live = "\<lambda>cr. ar_IsEnable (cr_Rule cr) = 1 \<and> \<not> NeedsResponsePhase cr"
    have IH: "(runCCRuleSet now r h ip code rules :: ('r, 'l) cc_world \<Rightarrow> _) = runCCRuleSet now r h ip code (filter ?live rules)"
      by (rule ext) (rule Cons.IH)
    have f: "filter ?live (cr # rules) = cr # filter ?live rules" using True by simp
    show ?thesis unfolding f runCCRuleSet.simps(2) IH by (rule refl)
  next
    case False
    then have "\<not> rule_applies cr r (cw_log w)" by (auto simp: rule_applies_def)
    then have "runCCRuleSet now r h ip code (cr # rules) w = runCCRuleSet now r h ip code rules w" by simp
    moreover have "filter (\<lambda>cr. ar_IsEnable (cr_Rule cr) = 1 \<and> \<not> NeedsResponsePhase cr) (cr # rules) =
        filter (\<lambda>cr. ar_IsEnable (cr_Rule cr) = 1 \<and> \<not> NeedsResponsePhase cr) rules" using False by (simp only: filter.simps if_False)
    ultimately show ?thesis using Cons.IH by (simp only:)
  qed
qed simp

lemma Incr_known:
  assumes "key_holds bw ts c (buildKey rid dv)" "ts \<noteq> []" "Incr now c rid dv window = (res, c')"
  shows "\<not> r_Rejected res" "\<not> r_Degraded res"
  using assms(3,1,2) by (cases rule: Incr_cases; simp add: key_holds_def)+

lemma deny_rule_count:
  fixes cr :: CompiledRule and w :: "('r, 'l) cc_world"
  defines "rid \<equiv> ar_Id (cr_Rule cr)" and "bw \<equiv> bucket_width (ar_WindowSec (cr_Rule cr))" and "limit \<equiv> ar_Threshold (cr_Rule cr) + ar_Burst (cr_Rule cr)"
  assumes "counter_inv (cw_counter w)" "key_holds bw ts (cw_counter w) (buildKey rid ip)" "ts \<noteq> []"
    "\<forall>t \<in> set ts. t \<le> nat (unix now)" "length ts + 1 < 2 ^ 31"
    "rule_applies cr r (cw_log w)" "ar_StatDim (cr_Rule cr) = ''ip''" "ar_Action (cr_Rule cr) = ''deny''" "0 < limit"
    "runCCRuleSet now r h ip code [cr] w = ((res, stop), w')"
  shows "(dr_IsBlock res \<longleftrightarrow>
      limit < int (length (filter (\<lambda>t. nat (unix now) div bw < t div bw + 10) (ts @ [nat (unix now)])))) \<and>
    key_holds bw (ts @ [nat (unix now)]) (cw_counter w') (buildKey rid ip)"
proof -
  obtain cnt c' where i: "Incr (nat (unix now)) (cw_counter w) rid ip (ar_WindowSec (cr_Rule cr)) = (cnt, c')" by fastforce
  note k = Incr_known [OF assms(5,6) i]
  note cnt = Incr_count [OF assms(4) assms(5) [unfolded bw_def] assms(7,8) i k]
  have "dim_candidate cr r (Some (cw_log w)) = []" using assms(10) by (simp add: dim_candidate_def)
  then have d: "DimValue cr r (Some (cw_log w)) ip = (ip, False)" using assms(10) by (simp add: DimValue_def)
  have cr: "count_request now r cr ip (cw_log w) (cw_counter w) = ((cnt, ip), c')"
    using i k d by (simp add: count_request_def rid_def)
  have ex: "exceeds cr cnt \<longleftrightarrow> limit < r_Count cnt" using k assms(12) by (simp add: exceeds_def limit_def Let_def)
  have "(dr_IsBlock res \<longleftrightarrow> exceeds cr cnt) \<and> cw_counter w' = c'"
  proof (cases "exceeds cr cnt")
    case True
    define v where "v = w\<lparr>cw_counter := c', cw_stats := Record (unix now) (ar_Id (cr_Rule cr)) (ar_Action (cr_Rule cr)) ip (cw_stats w)\<rparr>"
    obtain t where a: "applyCCAction now r cr h ip code v = ((blocked t, True), set_risk v)"
      using assms(11) by (simp add: applyCCAction_def Let_def)
    have "runCCRuleSet now r h ip code [cr] w = ((blocked t, True), set_risk v)"
      using assms(9) cr True a by (simp add: v_def)
    then show ?thesis using assms(13) True by (auto simp: set_risk_def v_def)
  next
    case False
    then show ?thesis using assms(13,9) cr by auto
  qed
  then show ?thesis using cnt ex by (simp add: bw_def)
qed

text \<open>
  C8. What a rule that counts by client address and refuses lets through: once the client is known to the counter, a
  request is blocked exactly when the requests of the ten slots up to now, this one included, exceed the limit
  and the burst together; otherwise it passes, and in both cases it is counted.
\<close>

theorem deny_rule_exact:
  fixes cr :: CompiledRule and w :: "('r, 'l) cc_world"
  defines "rid \<equiv> ar_Id (cr_Rule cr)" and "bw \<equiv> bucket_width (ar_WindowSec (cr_Rule cr))" and "limit \<equiv> ar_Threshold (cr_Rule cr) + ar_Burst (cr_Rule cr)"
  assumes "counter_inv (cw_counter w)" "key_holds bw ts (cw_counter w) (buildKey rid ip)" "ts \<noteq> []"
    "\<forall>t \<in> set ts. t \<le> nat (unix now)" "length ts + 1 < 2 ^ 31"
    "rule_applies cr r (cw_log w)" "ar_StatDim (cr_Rule cr) = ''ip''" "ar_Action (cr_Rule cr) = ''deny''" "0 < limit"
    "runCCRuleSet now r h ip code [cr] w = ((res, stop), w')"
  shows "(dr_IsBlock res \<longleftrightarrow>
      limit < int (length (filter (\<lambda>t. nat (unix now) div bw < t div bw + 10) (ts @ [nat (unix now)])))) \<and>
    key_holds bw (ts @ [nat (unix now)]) (cw_counter w') (buildKey rid ip)"
  using deny_rule_count [OF assms(4) assms(5) [unfolded bw_def rid_def] assms(6-11) assms(12) [unfolded limit_def] assms(13)]
  unfolding bw_def rid_def limit_def .

text \<open>The site, the rule and the state of the examples: a limit of two requests in sixty seconds.\<close>

definition demo_host :: cc_host where
  "demo_host = \<lparr>ch_Code = ''h1'', ch_IPMode = ''nic'', ch_GUARD_STATUS = 1, ch_LogOnlyMode = 0, ch_EmergencyMode = 0,
     ch_EmergencyUntil = 0, ch_CCRules = [], ch_AntiCC = demo_cc\<rparr>"

definition demo_log :: WebLog where
  "demo_log = \<lparr>lg_SRC_IP = ''9.9.9.9'', lg_NetSrcIp = ''9.9.9.9'', lg_URL = ''/'', lg_COUNTRY = [], lg_PROVINCE = [], lg_CITY = [],
     lg_IsBot = 0, lg_BotVerifyStrong = 0, lg_CONTENT_LENGTH = 0, lg_ResHeader = [], lg_STATUS_CODE = 0, lg_RES_CONTENT_LENGTH = 0,
     lg_TimeSpent = 0, lg_BodyFields = [], lg_BodyValues = [], lg_RISK_LEVEL = 0, lg_RULE = [], lg_GUEST_IDENTIFICATION = [],
     lg_LogOnlyMode = 0, lg_GeoUnresolved = False\<rparr>"

definition demo_deny :: CompiledRule where
  "demo_deny = plain_rule (demo_rule\<lparr>ar_MatchMode := ''all''\<rparr>)"

definition demo_world :: "Counter \<Rightarrow> (unit, unit) cc_world" where
  "demo_world c = \<lparr>cw_cache = Some InitWafCache, cw_counter = c, cw_stats = tracker_New 0, cw_limiters = Map.empty, cw_log = demo_log\<rparr>"

lemma demo_deny_applies: "rule_applies demo_deny r demo_log"
  by (simp add: rule_applies_def demo_deny_def plain_rule_def demo_rule_def demo_log_def NeedsResponsePhase_def InCountScope_def
      Matches_def ccBotExempt_def)

text \<open>The counter after one request of the client.\<close>

definition demo_counted :: Counter where
  "demo_counted = snd (Incr 1000 (New 0 0) ''r1'' ''9.9.9.9'' 60)"

lemma demo_bw: "bucket_width 60 = 6"
  by (simp add: bucket_width_def numBuckets_def)

lemma demo_counted_inv: "counter_inv demo_counted \<and> key_holds (bucket_width 60) [1000] demo_counted (buildKey ''r1'' ''9.9.9.9'')"
proof -
  obtain res c' where i: "Incr 1000 (New 0 0) ''r1'' ''9.9.9.9'' 60 = (res, c')" by fastforce
  have none: "lookup_ring (New 0 0) k = None" for k using shardFor_lt [of k] by (simp add: lookup_ring_def New_def)
  have nr: "\<not> r_Rejected res" "\<not> r_Degraded res"
    using i by (cases rule: Incr_cases; auto simp: none New_def defaultMaxKeys_def defaultRuleQuota_def rule_count_def)+
  have "key_holds (bucket_width 60) [] (New 0 0) (buildKey ''r1'' ''9.9.9.9'')" by (simp add: key_holds_def none)
  from Incr_count [OF counter_inv_New this _ _ i nr] counter_inv_Incr [OF counter_inv_New i] i
  show ?thesis by (simp add: demo_counted_def)
qed

theorem deny_rule_exact_witness:
  "\<not> dr_IsBlock (fst (fst (runCCRuleSet (1010 * second) (demo_request ''/'') demo_host ''9.9.9.9'' ''h1'' [demo_deny] (demo_world demo_counted))))"
proof -
  obtain res stop w' where run: "runCCRuleSet (1010 * second) (demo_request ''/'') demo_host ''9.9.9.9'' ''h1'' [demo_deny] (demo_world demo_counted)
      = ((res, stop), w')" by (metis surj_pair)
  have "unix (1010 * second) = 1010" by (simp add: unix_def)
  then have "\<not> dr_IsBlock res"
    using deny_rule_exact [OF _ _ _ _ _ _ _ _ _ run, of "[1000]"] demo_counted_inv demo_deny_applies
    by (simp add: demo_world_def demo_deny_def plain_rule_def demo_rule_def demo_bw)
  then show ?thesis using run by simp
qed

definition demo_strict :: CompiledRule where
  "demo_strict = plain_rule (demo_rule\<lparr>ar_MatchMode := ''all'', ar_Threshold := 1\<rparr>)"

lemma demo_strict_blocks:
  "\<exists>res stop w'. runCCRuleSet (1010 * second) (demo_request ''/'') demo_host ''9.9.9.9'' ''h1'' [demo_strict] (demo_world demo_counted)
      = ((res, stop), w') \<and> dr_IsBlock res"
proof -
  obtain res stop w' where run: "runCCRuleSet (1010 * second) (demo_request ''/'') demo_host ''9.9.9.9'' ''h1'' [demo_strict] (demo_world demo_counted)
      = ((res, stop), w')" by (metis surj_pair)
  have ap: "rule_applies demo_strict r demo_log" for r
    by (simp add: rule_applies_def demo_strict_def plain_rule_def demo_rule_def demo_log_def NeedsResponsePhase_def InCountScope_def
        Matches_def ccBotExempt_def)
  have "unix (1010 * second) = 1010" by (simp add: unix_def)
  then have "dr_IsBlock res"
    using deny_rule_count [OF _ _ _ _ _ _ _ _ _ run, of "[1000]"] demo_counted_inv ap
    by (simp add: demo_world_def demo_strict_def plain_rule_def demo_rule_def demo_bw)
  then show ?thesis using run by blast
qed

theorem runCCRuleSet_block_justified_witness:
  "\<exists>c cnt dv c'. count_request (1010 * second) (demo_request ''/'') demo_strict ''9.9.9.9'' demo_log c = ((cnt, dv), c') \<and> 1 < r_Count cnt"
proof -
  obtain res stop w' where run: "runCCRuleSet (1010 * second) (demo_request ''/'') demo_host ''9.9.9.9'' ''h1'' [demo_strict] (demo_world demo_counted)
      = ((res, stop), w')" "dr_IsBlock res" using demo_strict_blocks by blast
  have "ar_Threshold (cr_Rule demo_strict) + ar_Burst (cr_Rule demo_strict) = 1" "cw_log (demo_world demo_counted) = demo_log"
    by (simp_all add: demo_strict_def plain_rule_def demo_rule_def demo_world_def)
  then show ?thesis using runCCRuleSet_block_justified [OF run] by auto
qed

subsection \<open>What the detection does to the bans\<close>

definition see :: "int \<Rightarrow> string \<Rightarrow> 'r WafCache option \<Rightarrow> 'r cval option" where
  "see t k store = (case store of None \<Rightarrow> None | Some c \<Rightarrow> visible t c k)"

definition is_ban_key :: "string \<Rightarrow> bool" where
  "is_ban_key k \<longleftrightarrow> HasPrefix k CACHE_CCVISITBAN_PRE"

lemma ban_key_other:
  assumes "is_ban_key k"
  shows "k \<noteq> ccCaptchaGraceKey h ip" "k \<noteq> ccCaptchaRequiredKey h ip" "k \<noteq> ccCaptchaSourceKey h ip" "k \<noteq> passKey t ip"
  using assms
  by (auto simp: is_ban_key_def HasPrefix_def CACHE_CCVISITBAN_PRE_def ccCaptchaGraceKey_def ccCaptchaRequiredKey_def
      ccCaptchaSourceKey_def passKey_def CACHE_CAPTCHA_PASS_def)

lemma visible_SetWithTTl_other: "k \<noteq> key \<Longrightarrow> visible t (SetWithTTl now c key v ttl) k = visible t c k"
  by (simp add: SetWithTTl_def visible_def Let_def)

lemma see_has_mark: "now \<le> t \<Longrightarrow> see t k (snd (has_mark now m ip store)) = see t k store"
  by (simp add: has_mark_def see_def case_prod_beta IsKeyExist_keeps split: option.splits)

lemma see_hasCaptchaPass: "now \<le> t \<Longrightarrow> see t k (snd (hasCaptchaPass now r ip store)) = see t k store"
  by (simp add: hasCaptchaPass_def see_def case_prod_beta first_key_keeps split: option.splits)

lemma see_revoke:
  assumes "is_ban_key k"
  shows "see t k (revokeCaptchaPass r ip store) = see t k store"
proof -
  have "visible t (fold (\<lambda>t c. wc_Remove c (passKey t ip)) ts c) k = visible t c k" for ts and c :: "'a WafCache"
    using ban_key_other(4) [OF assms] by (induction ts arbitrary: c) (simp_all add: visible_remove)
  then show ?thesis by (auto simp: revokeCaptchaPass_def see_def split: option.splits)
qed

lemma see_require:
  "is_ban_key k \<Longrightarrow> see t k (RequireCaptcha now h ip secs src store) = see t k store"
  using ban_key_other [of k h ip]
  by (auto simp: RequireCaptcha_def see_def visible_SetWithTTl_other Let_def split: option.splits)

lemma see_grant:
  assumes "is_ban_key k" "now \<le> t"
  shows "see t k (GrantCCCaptchaGrace now h ip store) = see t k store"
proof (cases store)
  case (Some c)
  obtain v err c1 where g: "GetInt now c (ccCaptchaRequiredKey h ip) = ((v, err), c1)" by (metis surj_pair)
  have "visible t c1 k = visible t c k" using GetInt_keeps [OF assms(2), of c "ccCaptchaRequiredKey h ip" k] g by simp
  then show ?thesis
    using Some g ban_key_other [OF assms(1), of h ip]
    by (simp add: GrantCCCaptchaGrace_def see_def visible_SetWithTTl_other visible_remove Let_def)
qed (simp add: GrantCCCaptchaGrace_def)

lemma see_challenge_round:
  assumes "is_ban_key k" "now \<le> t"
  shows "see t k (snd (challenge_round now r h ip secs src store)) = see t k store"
proof -
  obtain b1 s1 where m1: "isCCCaptchaInGrace now h ip store = (b1, s1)" by fastforce
  obtain b2 s2 where m2: "IsCCCaptchaRequired now h ip s1 = (b2, s2)" by fastforce
  obtain b3 s3 where m3: "(if b2 then hasCaptchaPass now r ip s2 else (False, s2)) = (b3, s3)" by fastforce
  have "see t k s1 = see t k store" using see_has_mark [OF assms(2)] m1 by (metis isCCCaptchaInGrace_def snd_conv)
  moreover have "see t k s2 = see t k s1" using see_has_mark [OF assms(2)] m2 by (metis IsCCCaptchaRequired_def snd_conv)
  moreover have "see t k s3 = see t k s2" using see_hasCaptchaPass [OF assms(2), of k r ip s2] m3 by (auto split: if_splits)
  ultimately have s: "see t k s1 = see t k store" "see t k s3 = see t k store" by simp_all
  show ?thesis
    unfolding challenge_round_def m1 prod.case
    using s m2 m3
    by (cases b1; cases b3) (simp_all add: see_grant [OF assms] see_require [OF assms(1)] see_revoke [OF assms(1)])
qed

text \<open>Nothing but the ban keys of one client may change, and not even these in log-only mode.\<close>

definition spared :: "cc_host \<Rightarrow> string \<Rightarrow> string \<Rightarrow> bool" where
  "spared h ip k \<longleftrightarrow> is_ban_key k \<and> (ch_LogOnlyMode h = 1 \<or> (\<forall>scope code. k \<noteq> BuildCCBanKey scope code ip))"

lemma see_ban:
  "spared h ip k \<Longrightarrow> see t k (banCCWithScope now (ch_LogOnlyMode h) scope code ip secs store) = see t k store"
  by (auto simp: banCCWithScope_def spared_def see_def visible_SetWithTTl_other split: option.splits)

lemma see_applyCCAction:
  assumes "spared h ip k" "now \<le> t"
  shows "see t k (cw_cache (snd (applyCCAction now r cr h ip code w))) = see t k (cw_cache w)"
proof -
  have "is_ban_key k" using assms(1) by (simp add: spared_def)
  then show ?thesis
    by (simp add: applyCCAction_def set_RULE_def set_risk_def Let_def case_prod_beta see_ban [OF assms(1)]
        see_challenge_round [OF _ assms(2)])
qed

lemma see_runCCRuleSet:
  assumes "spared h ip k" "now \<le> t"
  shows "see t k (cw_cache (snd (runCCRuleSet now r h ip code rules w))) = see t k (cw_cache w)"
proof (induction rules arbitrary: w)
  case (Cons cr rules)
  obtain cnt dv c' where cr: "count_request now r cr ip (cw_log w) (cw_counter w) = ((cnt, dv), c')" by (metis surj_pair)
  define w2 where "w2 = (w\<lparr>cw_counter := c'\<rparr>)\<lparr>cw_stats := Record (unix now) (ar_Id (cr_Rule cr)) (ar_Action (cr_Rule cr)) dv (cw_stats w)\<rparr>"
  obtain hit stop w3 where a: "applyCCAction now r cr h ip code w2 = ((hit, stop), w3)" by (metis surj_pair)
  have "see t k (cw_cache w3) = see t k (cw_cache w)"
    using see_applyCCAction [OF assms, of r cr code w2] a by (simp add: w2_def)
  then show ?case
    using Cons cr a by (cases "rule_applies cr r (cw_log w)"; cases "exceeds cr cnt"; cases stop) (simp_all add: w2_def)
qed simp

lemma see_limit_by:
  "spared h ip k \<Longrightarrow> see t k (cw_cache (snd (limit_by tb now h g m ip w))) = see t k (cw_cache w)"
  by (simp add: limit_by_def banCC_def set_risk_def Let_def see_ban split: option.splits prod.splits bool.splits)

lemma client_ip_keeps [simp]: "client_ip h (set_RULE s w) = client_ip h w" "client_ip h (w\<lparr>cw_cache := x\<rparr>) = client_ip h w"
  by (simp_all add: client_ip_def set_RULE_def)

lemma emergency_frame:
  assumes "is_ban_key k" "now \<le> t"
  shows "see t k (cw_cache (applyEmergencyCaptcha now r h w)) = see t k (cw_cache w)" "client_ip h (applyEmergencyCaptcha now r h w) = client_ip h w"
  by (simp_all add: applyEmergencyCaptcha_def set_RULE_def client_ip_def Let_def case_prod_beta see_challenge_round [OF assms])

lemma applyCCAction_ip: "client_ip h (snd (applyCCAction now r cr h' ip code w)) = client_ip h w"
  by (auto simp: applyCCAction_def set_RULE_def set_risk_def client_ip_def Let_def split: prod.splits)

lemma runCCRuleSet_ip: "client_ip h (snd (runCCRuleSet now r h' ip code rules w)) = client_ip h w"
proof (induction rules arbitrary: w)
  case (Cons cr rules)
  obtain cnt dv c' where cr: "count_request now r cr ip (cw_log w) (cw_counter w) = ((cnt, dv), c')" by (metis surj_pair)
  define w2 where "w2 = (w\<lparr>cw_counter := c'\<rparr>)\<lparr>cw_stats := Record (unix now) (ar_Id (cr_Rule cr)) (ar_Action (cr_Rule cr)) dv (cw_stats w)\<rparr>"
  obtain hit stop w3 where a: "applyCCAction now r cr h' ip code w2 = ((hit, stop), w3)" by (metis surj_pair)
  have "client_ip h w3 = client_ip h w" "client_ip h (w\<lparr>cw_counter := c'\<rparr>) = client_ip h w"
    using applyCCAction_ip [of h now r cr h' ip code w2] a by (simp_all add: w2_def client_ip_def)
  then show ?case
    using Cons cr a by (cases "rule_applies cr r (cw_log w)"; cases "exceeds cr cnt"; cases stop) (simp_all add: w2_def)
qed simp

lemma checkCCByRules_frame:
  assumes "spared h (client_ip h w) k" "now \<le> t"
  shows "see t k (cw_cache (snd (checkCCByRules now r h g w))) = see t k (cw_cache w)"
    "client_ip h (snd (checkCCByRules now r h g w)) = client_ip h w"
proof -
  obtain res fin w1 where r1: "runCCRuleSet now r h (client_ip h w) (ch_Code h) (ch_CCRules h) w = ((res, fin), w1)" by (metis surj_pair)
  let ?code = "case g of None \<Rightarrow> [] | Some g \<Rightarrow> ch_Code g"
  obtain res' fin' w2 where r2: "runCCRuleSet now r h (client_ip h w) ?code (global_rules h g) w1 = ((res', fin'), w2)" by (metis surj_pair)
  have s: "see t k (cw_cache w1) = see t k (cw_cache w)" "see t k (cw_cache w2) = see t k (cw_cache w1)"
    using see_runCCRuleSet [OF assms, of r "ch_Code h" "ch_CCRules h" w] see_runCCRuleSet [OF assms, of r ?code "global_rules h g" w1] r1 r2 by simp_all
  have i: "client_ip h w1 = client_ip h w" "client_ip h w2 = client_ip h w1"
    using runCCRuleSet_ip [of h now r h "client_ip h w" "ch_Code h" "ch_CCRules h" w]
      runCCRuleSet_ip [of h now r h "client_ip h w" ?code "global_rules h g" w1] r1 r2 by simp_all
  show "see t k (cw_cache (snd (checkCCByRules now r h g w))) = see t k (cw_cache w)"
    "client_ip h (snd (checkCCByRules now r h g w)) = client_ip h w"
    using s i r1 r2 by (cases fin; cases fin'; simp add: checkCCByRules_def Let_def)+
qed

lemma see_global_limit:
  "spared h ip k \<Longrightarrow> see t k (cw_cache (snd (global_limit tb now h g ip w))) = see t k (cw_cache w)"
  by (simp add: global_limit_def case_prod_beta see_limit_by split: option.splits)

text \<open>
  C25. The CC detection bans nobody but the client of the request: a ban key that is not one of this client keeps what it
  shows at every later time, through the emergency mode, both rule sets and both limiters; in log-only mode that
  holds for every ban key, so that nobody is banned at all.
\<close>

theorem CheckCC_bans_only_client:
  assumes "is_ban_key k" "ch_LogOnlyMode h = 1 \<or> (\<forall>scope code. k \<noteq> BuildCCBanKey scope code (client_ip h w))" "now \<le> t"
  shows "see t k (cw_cache (snd (CheckCC tb engine now r h g w))) = see t k (cw_cache w)"
proof -
  define v where "v = (if isEmergencyOn now h g then applyEmergencyCaptcha now r h w else w)"
  have v: "see t k (cw_cache v) = see t k (cw_cache w)" "client_ip h v = client_ip h w"
    by (simp_all add: v_def emergency_frame [OF assms(1,3)])
  have sp: "spared h (client_ip h v) k" using assms v by (simp add: spared_def)
  obtain res handled w1 where c: "checkCCByRules now r h g v = ((res, handled), w1)" by (metis surj_pair)
  have f: "see t k (cw_cache w1) = see t k (cw_cache w)" "client_ip h w1 = client_ip h v"
    using checkCCByRules_frame [OF sp assms(3), of r g] c v by simp_all
  obtain lr w2 where l: "limit_by tb now h h local_mark (client_ip h w1) w1 = (lr, w2)" by fastforce
  have s2: "see t k (cw_cache w2) = see t k (cw_cache w)"
    using see_limit_by [OF sp, of t tb now h local_mark w1] l f by simp
  have g1: "see t k (cw_cache (snd (global_limit tb now h g (client_ip h w1) w'))) = see t k (cw_cache w')" for w' :: "('a, 'b) cc_world"
    using see_global_limit [OF sp] f(2) by simp
  show ?thesis
    unfolding CheckCC_def v_def [symmetric] Let_def c
    using f s2 g1 l by (auto split: option.splits bool.splits)
qed

theorem CheckCC_bans_only_client_witness:
  "see 5 (LegacyCCBanKey ''1.1.1.1'') (cw_cache (snd (CheckCC demo_tb (\<lambda>_ _. None) 0 (demo_request ''/'')
      (demo_host\<lparr>ch_LogOnlyMode := 1, ch_CCRules := [demo_strict]\<rparr>) None (demo_world demo_counted)))) =
   see 5 (LegacyCCBanKey ''1.1.1.1'') (cw_cache (demo_world demo_counted))"
  by (rule CheckCC_bans_only_client) (simp_all add: is_ban_key_def LegacyCCBanKey_def)

end
