(* ===== verification/Rule_Action.thy ===== *)
theory Rule_Action
  imports Waf_Prelude "HOL-Library.List_Lexorder" "HOL-Library.Char_ord"
begin

text \<open>
  utils/rule_action.go: what a custom rule does when it matches, read from the text of the rule. A lexer blanks
  string literals and comments (\<open>BuildGrlSkeleton\<close>), rule blocks and action marks are found on that skeleton, and
  their arguments are taken from the original text at the same positions.

  The regular expressions of the file are the five fixed ones below, each modelled by a matcher at a position
  (\<open>find_all\<close> is the left-most, non-overlapping search of package regexp). \<open>strings.ToUpper\<close> is exact on ASCII and
  on the two other letters whose upper case is ASCII; other letters are kept, and no module name has them.
\<close>

subsection \<open>Actions\<close>

definition RuleActionDeny :: string where "RuleActionDeny = ''deny''"
definition RuleActionAllow :: string where "RuleActionAllow = ''allow''"
definition RuleActionLog :: string where "RuleActionLog = ''log''"
definition RuleActionBan :: string where "RuleActionBan = ''ban''"
definition RuleSkipAll :: string where "RuleSkipAll = ''ALL''"

definition ruleSkipModules :: "string list" where
  "ruleSkipModules =
     [''BOT'', ''SQLI'', ''XSS'', ''SCAN'', ''RCE'', ''DIR'', ''CC'', ''AI'', ''SENSITIVE'', ''OWASP'', ''ANTILEECH'',
      ''CSRF'', ''UPLOAD'', ''CAPTCHA'', RuleSkipAll]"

definition RuleSkipModules :: "string list" where "RuleSkipModules = ruleSkipModules"

record RuleActionInfo =
  ri_Action :: string
  ri_SkipModules :: "string list"
  ri_BanMinutes :: int

definition plain_action :: "string \<Rightarrow> RuleActionInfo" where
  "plain_action a = \<lparr>ri_Action = a, ri_SkipModules = [], ri_BanMinutes = 0\<rparr>"

definition SkipAll :: "RuleActionInfo \<Rightarrow> bool" where
  "SkipAll info \<longleftrightarrow> list_ex (\<lambda>m. m = RuleSkipAll) (ri_SkipModules info)"

subsection \<open>The skeleton\<close>

datatype lex_state = stCode | stDQuote | stSQuote | stLineComment | stBlockComment

abbreviation dquote :: char where "dquote \<equiv> CHR 0x22"
abbreviation squote :: char where "squote \<equiv> CHR 0x27"
abbreviation backslash :: char where "backslash \<equiv> CHR 0x5C"
abbreviation newline :: char where "newline \<equiv> CHR 0x0A"

definition blank :: "char \<Rightarrow> char" where
  "blank c = (if c = newline \<or> c = CHR 0x0D then c else CHR '' '')"

definition next_is :: "char \<Rightarrow> string \<Rightarrow> bool" where
  "next_is c s \<longleftrightarrow> (case s of [] \<Rightarrow> False | d # _ \<Rightarrow> d = c)"

text \<open>The loop over the bytes; an escape or a doubled quote consumes two of them.\<close>

fun skeleton_loop :: "lex_state \<Rightarrow> string \<Rightarrow> string" where
  "skeleton_loop st [] = []"
| "skeleton_loop stCode (c # cs) =
     (if c = dquote then c # skeleton_loop stDQuote cs
      else if c = squote then c # skeleton_loop stSQuote cs
      else if c = CHR ''/'' \<and> next_is (CHR ''/'') cs then blank c # skeleton_loop stLineComment cs
      else if c = CHR ''/'' \<and> next_is (CHR ''*'') cs then blank c # skeleton_loop stBlockComment cs
      else c # skeleton_loop stCode cs)"
| "skeleton_loop stDQuote (c # cs) =
     (if c = backslash \<and> cs \<noteq> [] then blank c # blank (hd cs) # skeleton_loop stDQuote (tl cs)
      else if c = dquote then
        (if next_is dquote cs then blank c # blank (hd cs) # skeleton_loop stDQuote (tl cs)
         else c # skeleton_loop stCode cs)
      else blank c # skeleton_loop stDQuote cs)"
| "skeleton_loop stSQuote (c # cs) =
     (if c = backslash \<and> cs \<noteq> [] then blank c # blank (hd cs) # skeleton_loop stSQuote (tl cs)
      else if c = squote then
        (if next_is squote cs then blank c # blank (hd cs) # skeleton_loop stSQuote (tl cs)
         else c # skeleton_loop stCode cs)
      else blank c # skeleton_loop stSQuote cs)"
| "skeleton_loop stLineComment (c # cs) =
     (if c = newline then c # skeleton_loop stCode cs else blank c # skeleton_loop stLineComment cs)"
| "skeleton_loop stBlockComment (c # cs) =
     (if c = CHR ''*'' \<and> next_is (CHR ''/'') cs then blank c # blank (hd cs) # skeleton_loop stCode (tl cs)
      else blank c # skeleton_loop stBlockComment cs)"

definition BuildGrlSkeleton :: "string \<Rightarrow> string" where
  "BuildGrlSkeleton ruleText = skeleton_loop stCode ruleText"

subsection \<open>Regular expressions\<close>

definition word_char :: "char \<Rightarrow> bool" where
  "word_char c \<longleftrightarrow> is_digit c \<or> 65 \<le> char_code c \<and> char_code c \<le> 90 \<or> 97 \<le> char_code c \<and> char_code c \<le> 122 \<or> c = CHR ''_''"

definition re_space :: "char \<Rightarrow> bool" where
  "re_space c \<longleftrightarrow> char_code c \<in> {9, 10, 12, 13, 32}"

text \<open>
  A matcher takes whether a word character stands before the position and the rest of the text; it answers the
  number of matched bytes less one (no expression here matches the empty text) and what the groups matched.
  \<open>find_all\<close> gives the matches with their positions.
\<close>

fun find_all :: "(bool \<Rightarrow> string \<Rightarrow> (nat \<times> 'm) option) \<Rightarrow> nat \<Rightarrow> bool \<Rightarrow> string \<Rightarrow> (nat \<times> nat \<times> 'm) list" where
  "find_all m i prev [] = []"
| "find_all m i prev (c # cs) =
     (case m prev (c # cs) of
        None \<Rightarrow> find_all m (Suc i) (word_char c) cs
      | Some (k, x) \<Rightarrow>
          (i, Suc k, x) # find_all m (i + Suc k) (word_char (last (take (Suc k) (c # cs)))) (drop k cs))"

definition spaces :: "string \<Rightarrow> nat" where
  "spaces s = length (takeWhile re_space s)"

text \<open>\<open>\brule\s+([A-Za-z0-9_]+)\<close>: the group is the name, with its offset.\<close>

definition ruleBlockRegex :: "bool \<Rightarrow> string \<Rightarrow> (nat \<times> string) option" where
  "ruleBlockRegex prev s =
     (let r = drop 4 s; a = spaces r; name = takeWhile word_char (drop a r)
      in if \<not> prev \<and> HasPrefix s ''rule'' \<and> 0 < a \<and> name \<noteq> [] then Some (3 + a + length name, name) else None)"

text \<open>\<open>\bthen\b\<close>\<close>

definition ruleThenRegex :: "bool \<Rightarrow> string \<Rightarrow> (nat \<times> unit) option" where
  "ruleThenRegex prev s =
     (let r = drop 4 s
      in if \<not> prev \<and> HasPrefix s ''then'' \<and> (r = [] \<or> \<not> word_char (hd r)) then Some (3, ()) else None)"

text \<open>
  \<open>RF\s*\.\s*(AllowAll|Allow|Deny|Log|Ban)\s*\(([^)]*)\)\<close>: the groups are the function and the offsets of its arguments.
  After a function name the match continues in one way only, so that the first name that fits is the match.
\<close>

definition action_names :: "string list" where
  "action_names = [''AllowAll'', ''Allow'', ''Deny'', ''Log'', ''Ban'']"

definition call_args :: "string \<Rightarrow> (nat \<times> nat) option" where
  "call_args r =
     (let a = spaces r; t = drop a r
      in if next_is (CHR ''('') t \<and> CHR '')'' \<in> set t then Some (a + 1, a + length (takeWhile (\<lambda>c. c \<noteq> CHR '')'') t)) else None)"

definition ruleActionRegex :: "bool \<Rightarrow> string \<Rightarrow> (nat \<times> string \<times> nat \<times> nat) option" where
  "ruleActionRegex prev s =
     (let a = 2 + spaces (drop 2 s); b = a + 1 + spaces (drop (a + 1) s); r = drop b s
      in if \<not> HasPrefix s ''RF'' \<or> \<not> next_is (CHR ''.'') (drop a s) then None
         else case find (\<lambda>f. HasPrefix r f \<and> call_args (drop (length f) r) \<noteq> None) action_names of
                None \<Rightarrow> None
              | Some f \<Rightarrow>
                  (case call_args (drop (length f) r) of None \<Rightarrow> None
                   | Some (x, y) \<Rightarrow> (let o1 = b + length f in Some (o1 + y, f, o1 + x, o1 + y))))"

text \<open>\<open>\bsalience\s+(\d+)\<close>\<close>

definition ruleSalienceRegex :: "bool \<Rightarrow> string \<Rightarrow> (nat \<times> string) option" where
  "ruleSalienceRegex prev s =
     (let r = drop 8 s; a = spaces r; ds = takeWhile is_digit (drop a r)
      in if \<not> prev \<and> HasPrefix s ''salience'' \<and> 0 < a \<and> ds \<noteq> [] then Some (7 + a + length ds, ds) else None)"

subsection \<open>Blocks and actions\<close>

record ruleBlock =
  rb_Name :: string
  rb_Start :: nat
  rb_End :: nat

fun blocks_of :: "nat \<Rightarrow> (nat \<times> nat \<times> string) list \<Rightarrow> ruleBlock list" where
  "blocks_of len [] = []"
| "blocks_of len ((i, k, name) # locs) =
     \<lparr>rb_Name = name, rb_Start = i, rb_End = (case locs of [] \<Rightarrow> len | (j, _) # _ \<Rightarrow> j)\<rparr> # blocks_of len locs"

definition splitRuleBlocks :: "string \<Rightarrow> ruleBlock list" where
  "splitRuleBlocks skeleton = blocks_of (length skeleton) (find_all ruleBlockRegex 0 False skeleton)"

definition slice :: "nat \<Rightarrow> nat \<Rightarrow> string \<Rightarrow> string" where
  "slice a b s = take (b - a) (drop a s)"

definition upper_char :: "char \<Rightarrow> char" where
  "upper_char c = (if 97 \<le> char_code c \<and> char_code c \<le> 122 then char_of (char_code c - 32) else c)"

fun ToUpper :: "string \<Rightarrow> string" where
  "ToUpper [] = []"
| "ToUpper (c # cs) =
     (if char_code c = 196 \<and> next_is (char_of (177 :: nat)) cs then CHR ''I'' # ToUpper (tl cs)
      else if char_code c = 197 \<and> next_is (char_of (191 :: nat)) cs then CHR ''S'' # ToUpper (tl cs)
      else upper_char c # ToUpper cs)"

definition unquote :: "string \<Rightarrow> string" where
  "unquote v =
     (if 2 \<le> length v \<and> (hd v = dquote \<or> hd v = squote) \<and> last v = hd v then butlast (tl v) else v)"

fun args_loop :: "string list \<Rightarrow> string list \<times> string list \<Rightarrow> string list \<times> string list" where
  "args_loop [] acc = acc"
| "args_loop (part # parts) (modules, invalid) =
     (let v = TrimSpace part; u = ToUpper (TrimSpace (unquote v))
      in if v = [] \<or> u = [] then args_loop parts (modules, invalid)
         else if u \<notin> set ruleSkipModules then args_loop parts (modules, invalid @ [u])
         else if u \<in> set modules then args_loop parts (modules, invalid)
         else args_loop parts (modules @ [u], invalid))"

definition parseActionArgs :: "string \<Rightarrow> string list \<times> string list" where
  "parseActionArgs argsRaw = (case args_loop (StrSplit (CHR '','') argsRaw) ([], []) of (modules, invalid) \<Rightarrow> (sort modules, invalid))"

text \<open>
  One mark: the action, the unknown module names and whether the minutes are refused. Minutes that cannot be read
  are refused in any case, here with 0.
\<close>

definition maxBanMinutes :: int where "maxBanMinutes = (2 ^ 63 - 1) div 60000000000"

definition mark_action :: "string \<Rightarrow> string \<Rightarrow> RuleActionInfo \<times> string list \<times> bool" where
  "mark_action fnName argsRaw =
     (if fnName = ''Deny'' then (plain_action RuleActionDeny, [], False)
      else if fnName = ''Log'' then (plain_action RuleActionLog, [], False)
      else if fnName = ''AllowAll'' then ((plain_action RuleActionAllow)\<lparr>ri_SkipModules := [RuleSkipAll]\<rparr>, [], False)
      else if fnName = ''Allow'' then
        (case parseActionArgs argsRaw of (mods, bad) \<Rightarrow> ((plain_action RuleActionAllow)\<lparr>ri_SkipModules := mods\<rparr>, bad, False))
      else
        (case ParseInt (TrimSpace argsRaw) of
           None \<Rightarrow> (plain_action RuleActionBan, [], True)
         | Some minutes \<Rightarrow>
             ((plain_action RuleActionBan)\<lparr>ri_BanMinutes := minutes\<rparr>, [], minutes \<le> 0 \<or> maxBanMinutes < minutes)))"

definition action_marks :: "string \<Rightarrow> (nat \<times> nat \<times> string \<times> nat \<times> nat) list" where
  "action_marks block =
     (case find_all ruleThenRegex 0 False block of
        [] \<Rightarrow> []
      | (i, k, _) # _ \<Rightarrow>
          (let offset = i + k
           in map (\<lambda>(j, n, f, a, b). (offset + j, n, f, offset + j + a, offset + j + b))
                (find_all ruleActionRegex 0 False (drop offset block))))"

definition extractBlockAction :: "string \<Rightarrow> string \<Rightarrow> RuleActionInfo \<times> nat \<times> string list \<times> bool" where
  "extractBlockAction skeletonBlock rawBlock =
     (let acts = map (\<lambda>(_, _, f, a, b). mark_action f (slice a b rawBlock)) (action_marks skeletonBlock)
      in (case acts of [] \<Rightarrow> plain_action RuleActionDeny | (info, _) # _ \<Rightarrow> info,
          length acts, concat (map (\<lambda>(_, bad, _). bad) acts), list_ex (\<lambda>(_, _, e). e) acts))"

definition runtime_action :: "RuleActionInfo \<times> nat \<times> string list \<times> bool \<Rightarrow> RuleActionInfo option" where
  "runtime_action x =
     (case x of (info, count, _, banErr) \<Rightarrow>
        if count = 0 then None
        else if ri_Action info = RuleActionBan \<and> (banErr \<or> ri_BanMinutes info \<le> 0) then Some (plain_action RuleActionDeny)
        else Some info)"

definition block_action :: "string \<Rightarrow> string \<Rightarrow> ruleBlock \<Rightarrow> RuleActionInfo \<times> nat \<times> string list \<times> bool" where
  "block_action skeleton ruleText b =
     extractBlockAction (slice (rb_Start b) (rb_End b) skeleton) (slice (rb_Start b) (rb_End b) ruleText)"

definition ExtractRuleActions :: "string \<Rightarrow> string \<rightharpoonup> RuleActionInfo" where
  "ExtractRuleActions ruleText =
     (let skeleton = BuildGrlSkeleton ruleText
      in fold (\<lambda>b result. case runtime_action (block_action skeleton ruleText b) of
                            None \<Rightarrow> result | Some info \<Rightarrow> result(rb_Name b \<mapsto> info))
           (splitRuleBlocks skeleton) Map.empty)"

subsection \<open>The check when a rule is saved\<close>

datatype action_error = NoRule | UnknownModules "string list" | BadBanMinutes string | SeveralActions string

text \<open>\<open>strings.Join(strings.Fields(s), "")\<close>: the text without white space.\<close>

function join_fields :: "string \<Rightarrow> string" where
  "join_fields [] = []"
| "join_fields (c # cs) =
     (case space_len (map char_code (c # cs)) of 0 \<Rightarrow> c # join_fields cs | Suc k \<Rightarrow> join_fields (drop k cs))"
  by pat_completeness auto
termination
  by (relation "measure length") auto

definition hasSingleAction :: "string \<Rightarrow> bool" where
  "hasSingleAction skeletonBlock =
     (case map (\<lambda>(i, k, _). join_fields (take k (drop i skeletonBlock))) (action_marks skeletonBlock) of
        [] \<Rightarrow> True
      | first # others \<Rightarrow> list_all (\<lambda>m. m = first) others)"

fun check_blocks :: "string \<Rightarrow> string \<Rightarrow> RuleActionInfo \<Rightarrow> ruleBlock list \<Rightarrow> action_error + RuleActionInfo" where
  "check_blocks skeleton ruleText info [] = Inr info"
| "check_blocks skeleton ruleText info (b # bs) =
     (case block_action skeleton ruleText b of (blockInfo, count, invalid, banErr) \<Rightarrow>
        if invalid \<noteq> [] then Inl (UnknownModules invalid)
        else if ri_Action blockInfo = RuleActionBan \<and> banErr then Inl (BadBanMinutes (rb_Name b))
        else if 1 < count \<and> \<not> hasSingleAction (slice (rb_Start b) (rb_End b) skeleton) then Inl (SeveralActions (rb_Name b))
        else check_blocks skeleton ruleText blockInfo bs)"

definition ExtractRuleActionForCheck :: "string \<Rightarrow> action_error + RuleActionInfo" where
  "ExtractRuleActionForCheck ruleText =
     (let skeleton = BuildGrlSkeleton ruleText; blocks = splitRuleBlocks skeleton
      in if blocks = [] then Inl NoRule else check_blocks skeleton ruleText (plain_action RuleActionDeny) blocks)"

definition CountRuleBlocks :: "string \<Rightarrow> nat" where
  "CountRuleBlocks ruleText = length (splitRuleBlocks (BuildGrlSkeleton ruleText))"

definition ExtractRuleSalience :: "string \<Rightarrow> int" where
  "ExtractRuleSalience ruleText =
     (case find_all ruleSalienceRegex 0 False (BuildGrlSkeleton ruleText) of
        [] \<Rightarrow> 0
      | (_, _, ds) # _ \<Rightarrow> (case ParseInt ds of None \<Rightarrow> 0 | Some v \<Rightarrow> v))"

definition ExtractRuleNamesFromText :: "string \<Rightarrow> string list" where
  "ExtractRuleNamesFromText ruleText = map rb_Name (splitRuleBlocks (BuildGrlSkeleton ruleText))"

subsection \<open>The table of actions\<close>

definition GetRuleAction :: "(string \<rightharpoonup> RuleActionInfo) \<Rightarrow> string \<Rightarrow> RuleActionInfo" where
  "GetRuleAction ruleActions ruleName =
     (case ruleActions ruleName of
        Some info \<Rightarrow> if ri_Action info \<noteq> [] then info else plain_action RuleActionDeny
      | None \<Rightarrow> plain_action RuleActionDeny)"

definition mergeRuleActions :: "(string \<rightharpoonup> RuleActionInfo) \<Rightarrow> string \<Rightarrow> (string \<rightharpoonup> RuleActionInfo)" where
  "mergeRuleActions ruleActions ruleContent = ruleActions ++ ExtractRuleActions ruleContent"

section \<open>Properties\<close>

subsection \<open>What the skeleton keeps\<close>

text \<open>
  A rule text as its author means it: code, literals in either kind of quotes with escapes and doubled quotes, and
  comments. \<open>shape_of\<close> is what a reader of the comment on \<open>BuildGrlSkeleton\<close> expects of each.
\<close>

datatype piece = Code string | Literal char string | LineComment string | BlockComment string

fun text_of :: "piece \<Rightarrow> string" where
  "text_of (Code s) = s"
| "text_of (Literal q v) = q # v @ [q]"
| "text_of (LineComment v) = ''//'' @ v @ [newline]"
| "text_of (BlockComment v) = ''/*'' @ v @ ''*/''"

fun shape_of :: "piece \<Rightarrow> string" where
  "shape_of (Code s) = s"
| "shape_of (Literal q v) = q # map blank v @ [q]"
| "shape_of (LineComment v) = ''  '' @ map blank v @ [newline]"
| "shape_of (BlockComment v) = ''  '' @ map blank v @ ''  ''"

fun literal_body :: "char \<Rightarrow> string \<Rightarrow> bool" where
  "literal_body q [] = True"
| "literal_body q (c # cs) =
     (if c = backslash then cs \<noteq> [] \<and> literal_body q (tl cs)
      else if c = q then next_is q cs \<and> literal_body q (tl cs)
      else literal_body q cs)"

fun code_body :: "string \<Rightarrow> bool" where
  "code_body [] = True"
| "code_body (c # cs) =
     (c \<noteq> dquote \<and> c \<noteq> squote \<and> (c = CHR ''/'' \<longrightarrow> cs \<noteq> [] \<and> hd cs \<noteq> CHR ''/'' \<and> hd cs \<noteq> CHR ''*'') \<and> code_body cs)"

fun block_body :: "string \<Rightarrow> bool" where
  "block_body [] = True"
| "block_body (c # cs) = ((c = CHR ''*'' \<longrightarrow> \<not> next_is (CHR ''/'') cs) \<and> block_body cs)"

fun pieces_ok :: "piece list \<Rightarrow> bool" where
  "pieces_ok [] = True"
| "pieces_ok (p # ps) =
     ((case p of
         Code s \<Rightarrow> code_body s
       | Literal q v \<Rightarrow> (q = dquote \<or> q = squote) \<and> literal_body q v \<and> \<not> next_is q (concat (map text_of ps))
       | LineComment v \<Rightarrow> newline \<notin> set v
       | BlockComment v \<Rightarrow> block_body v \<and> \<not> next_is (CHR ''/'') v) \<and> pieces_ok ps)"

lemma blank_code [simp]: "blank (CHR ''/'') = CHR '' ''" "blank (CHR ''*'') = CHR '' ''"
  by (simp_all add: blank_def)

lemma next_is_simps [simp]: "next_is c [] = False" "next_is c (d # s) \<longleftrightarrow> d = c"
  by (simp_all add: next_is_def)

lemma skeleton_code: "code_body s \<Longrightarrow> skeleton_loop stCode (s @ t) = s @ skeleton_loop stCode t"
proof (induction s)
  case (Cons c cs)
  then show ?case by (cases cs) auto
qed simp

lemma skeleton_dquote:
  "literal_body q v \<Longrightarrow> q = dquote \<Longrightarrow> \<not> next_is q t \<Longrightarrow>
   skeleton_loop stDQuote (v @ q # t) = map blank v @ q # skeleton_loop stCode t"
proof (induction q v rule: literal_body.induct)
  case (2 q c cs)
  show ?case
  proof (cases cs)
    case Nil
    with "2.prems" "2.IH"(3) show ?thesis by (simp split: if_splits)
  next
    case (Cons d ds)
    consider "c = backslash" | "c = q" "c \<noteq> backslash" | "c \<noteq> backslash" "c \<noteq> q" by blast
    then show ?thesis using Cons "2.prems" "2.IH" by cases (simp_all split: if_splits)
  qed
qed simp

lemma skeleton_squote:
  "literal_body q v \<Longrightarrow> q = squote \<Longrightarrow> \<not> next_is q t \<Longrightarrow>
   skeleton_loop stSQuote (v @ q # t) = map blank v @ q # skeleton_loop stCode t"
proof (induction q v rule: literal_body.induct)
  case (2 q c cs)
  show ?case
  proof (cases cs)
    case Nil
    with "2.prems" "2.IH"(3) show ?thesis by (simp split: if_splits)
  next
    case (Cons d ds)
    consider "c = backslash" | "c = q" "c \<noteq> backslash" | "c \<noteq> backslash" "c \<noteq> q" by blast
    then show ?thesis using Cons "2.prems" "2.IH" by cases (simp_all split: if_splits)
  qed
qed simp

lemma skeleton_line:
  "newline \<notin> set v \<Longrightarrow> skeleton_loop stLineComment (v @ newline # t) = map blank v @ newline # skeleton_loop stCode t"
  by (induction v) auto

lemma skeleton_block:
  "block_body v \<Longrightarrow> skeleton_loop stBlockComment (v @ ''*/'' @ t) = map blank v @ ''  '' @ skeleton_loop stCode t"
proof (induction v)
  case (Cons c cs)
  then show ?case by (cases cs) auto
qed simp

lemma skeleton_piece:
  assumes "pieces_ok (p # ps)"
  shows "skeleton_loop stCode (text_of p @ concat (map text_of ps)) = shape_of p @ skeleton_loop stCode (concat (map text_of ps))"
proof (cases p)
  case (Code s)
  with assms show ?thesis by (simp add: skeleton_code)
next
  case (Literal q v)
  with assms show ?thesis using skeleton_dquote [of q v] skeleton_squote [of q v] by auto
next
  case (LineComment v)
  with assms show ?thesis by (auto simp: skeleton_line)
next
  case (BlockComment v)
  with assms skeleton_block [of v] show ?thesis by (cases v) auto
qed

lemma skeleton_pieces:
  "pieces_ok ps \<Longrightarrow> BuildGrlSkeleton (concat (map text_of ps)) = concat (map shape_of ps)"
proof (induction ps)
  case (Cons p ps)
  then show ?case using skeleton_piece [OF Cons.prems] by (simp add: BuildGrlSkeleton_def)
qed (simp add: BuildGrlSkeleton_def)

lemma next_is_nonempty: "next_is c s \<Longrightarrow> s \<noteq> []"
  by auto

lemma skeleton_loop_length: "length (skeleton_loop st s) = length s"
  by (induction st s rule: skeleton_loop.induct) (auto dest: next_is_nonempty)

lemma skeleton_length [simp]: "length (BuildGrlSkeleton s) = length s"
  by (simp add: BuildGrlSkeleton_def skeleton_loop_length)

subsection \<open>Actions read from the same skeleton\<close>

text \<open>What decides about a request: whether the action lets it pass and whether it only records it.\<close>

definition same_kind :: "RuleActionInfo \<Rightarrow> RuleActionInfo \<Rightarrow> bool" where
  "same_kind i i' \<longleftrightarrow> (ri_Action i = RuleActionAllow \<longleftrightarrow> ri_Action i' = RuleActionAllow) \<and>
     (ri_Action i = RuleActionLog \<longleftrightarrow> ri_Action i' = RuleActionLog)"

lemmas action_values = RuleActionDeny_def RuleActionAllow_def RuleActionLog_def RuleActionBan_def

lemma plain_action_simps [simp]:
  "ri_Action (plain_action a) = a" "ri_SkipModules (plain_action a) = []" "ri_BanMinutes (plain_action a) = 0"
  by (simp_all add: plain_action_def)

lemma mark_action_kind:
  "ri_Action (fst (mark_action f a)) =
     (if f = ''Deny'' then RuleActionDeny else if f = ''Log'' then RuleActionLog
      else if f = ''AllowAll'' \<or> f = ''Allow'' then RuleActionAllow else RuleActionBan)"
  by (simp add: mark_action_def split: prod.splits option.splits)

lemma extractBlockAction_count: "fst (snd (extractBlockAction sk raw)) = length (action_marks sk)"
  by (simp add: extractBlockAction_def Let_def)

lemma extractBlockAction_info:
  "fst (extractBlockAction sk raw) =
     (case action_marks sk of [] \<Rightarrow> plain_action RuleActionDeny | (_, _, f, a, b) # _ \<Rightarrow> fst (mark_action f (slice a b raw)))"
proof (cases "action_marks sk")
  case Nil
  then show ?thesis by (simp add: extractBlockAction_def Let_def)
next
  case (Cons m ms)
  obtain i k f a b where m: "m = (i, k, f, a, b)" by (metis surj_pair)
  show ?thesis by (cases "mark_action f (slice a b raw)") (simp add: Cons m extractBlockAction_def Let_def)
qed

lemma extractBlockAction_kind:
  "ri_Action (fst (extractBlockAction sk raw)) = ri_Action (fst (extractBlockAction sk raw'))"
  by (simp add: extractBlockAction_info mark_action_kind split: list.splits prod.splits)

lemma runtime_action_kind:
  "rel_option same_kind (runtime_action (extractBlockAction sk raw)) (runtime_action (extractBlockAction sk raw'))"
proof -
  obtain i n bad e where x: "extractBlockAction sk raw = (i, n, bad, e)" by (metis surj_pair)
  obtain i' n' bad' e' where y: "extractBlockAction sk raw' = (i', n', bad', e')" by (metis surj_pair)
  have "n = n'" "ri_Action i = ri_Action i'"
    using extractBlockAction_count [of sk raw] extractBlockAction_count [of sk raw'] extractBlockAction_kind [of sk raw raw'] x y by simp_all
  then show ?thesis by (simp add: x y runtime_action_def same_kind_def action_values)
qed

lemma rel_map_upd:
  "rel_option R x x' \<Longrightarrow> (\<And>n. rel_option R (m n) (m' n)) \<Longrightarrow>
   rel_option R ((case x of None \<Rightarrow> m | Some i \<Rightarrow> m(k \<mapsto> i)) n) ((case x' of None \<Rightarrow> m' | Some i \<Rightarrow> m'(k \<mapsto> i)) n)"
  by (cases x; cases x') auto

lemma fold_same_kind:
  "(\<And>n. rel_option R (m n) (m' n)) \<Longrightarrow> (\<And>b. rel_option R (f b) (f' b)) \<Longrightarrow>
   rel_option R (fold (\<lambda>b m. case f b of None \<Rightarrow> m | Some i \<Rightarrow> m(g b \<mapsto> i)) bs m n)
     (fold (\<lambda>b m. case f' b of None \<Rightarrow> m | Some i \<Rightarrow> m(g b \<mapsto> i)) bs m' n)"
proof (induction bs arbitrary: m m')
  case (Cons b bs)
  show ?case
    using Cons.IH [OF rel_map_upd [OF Cons.prems(2) Cons.prems(1)] Cons.prems(2)] by simp
qed simp

lemma same_skeleton_same_kind:
  assumes "BuildGrlSkeleton t = BuildGrlSkeleton t'"
  shows "rel_option same_kind (ExtractRuleActions t n) (ExtractRuleActions t' n)"
  unfolding ExtractRuleActions_def Let_def assms
  by (rule fold_same_kind) (simp_all add: block_action_def runtime_action_kind)

subsection \<open>Well-formed actions\<close>

definition action_ok :: "RuleActionInfo \<Rightarrow> bool" where
  "action_ok i \<longleftrightarrow>
     ri_Action i \<in> {RuleActionDeny, RuleActionAllow, RuleActionLog, RuleActionBan} \<and>
     (if ri_Action i = RuleActionBan then 0 < ri_BanMinutes i \<and> ri_BanMinutes i \<le> maxBanMinutes else ri_BanMinutes i = 0) \<and>
     (if ri_Action i = RuleActionAllow then sorted (ri_SkipModules i) \<and> distinct (ri_SkipModules i) \<and>
        set (ri_SkipModules i) \<subseteq> set ruleSkipModules else ri_SkipModules i = [])"

lemma args_loop_ok:
  "distinct (fst acc) \<Longrightarrow> set (fst acc) \<subseteq> set ruleSkipModules \<Longrightarrow>
   distinct (fst (args_loop parts acc)) \<and> set (fst (args_loop parts acc)) \<subseteq> set ruleSkipModules"
  by (induction parts acc rule: args_loop.induct) (simp_all add: Let_def)

lemma parseActionArgs_ok:
  "parseActionArgs a = (mods, bad) \<Longrightarrow> sorted mods \<and> distinct mods \<and> set mods \<subseteq> set ruleSkipModules"
  using args_loop_ok [of "([], [])" "StrSplit (CHR '','') a"]
  by (auto simp: parseActionArgs_def split: prod.splits)

lemma plain_action_ok [simp]: "action_ok (plain_action RuleActionDeny)" "action_ok (plain_action RuleActionLog)"
  by (simp_all add: action_ok_def action_values)

lemma mark_action_ok:
  assumes "mark_action f a = (i, bad, e)" "\<not> e"
  shows "action_ok i"
proof -
  have allow: "f = ''Allow'' \<Longrightarrow> ?thesis"
    using assms parseActionArgs_ok [of a] by (auto simp: mark_action_def action_ok_def action_values split: prod.splits)
  have "RuleSkipAll \<in> set ruleSkipModules" by (simp add: ruleSkipModules_def)
  with allow show ?thesis
    using assms by (cases "f = ''Allow''")
      (auto simp: mark_action_def action_ok_def action_values split: prod.splits option.splits if_splits)
qed

lemma mark_action_err: "mark_action f a = (i, bad, True) \<Longrightarrow> ri_Action i = RuleActionBan"
  by (auto simp: mark_action_def split: if_splits prod.splits option.splits)

lemma extractBlockAction_ok:
  assumes "extractBlockAction sk raw = (i, n, bad, e)" "\<not> (ri_Action i = RuleActionBan \<and> e)"
  shows "action_ok i"
proof (cases "action_marks sk")
  case Nil
  with assms extractBlockAction_info [of sk raw] show ?thesis by simp
next
  case (Cons m ms)
  obtain j k f a b where m: "m = (j, k, f, a, b)" by (metis surj_pair)
  obtain i0 bad0 e0 where t: "mark_action f (slice a b raw) = (i0, bad0, e0)" by (metis surj_pair)
  have i: "i = i0" using assms extractBlockAction_info [of sk raw] Cons m t by simp
  have "e0 \<longrightarrow> e" using assms Cons m t by (auto simp: extractBlockAction_def Let_def)
  then have "\<not> e0" using assms(2) i mark_action_err [of f "slice a b raw" i0 bad0] t by (cases e0) auto
  with mark_action_ok [OF t] i show ?thesis by simp
qed

lemma runtime_action_ok: "runtime_action (extractBlockAction sk raw) = Some i \<Longrightarrow> action_ok i"
  by (cases "extractBlockAction sk raw") (auto simp: runtime_action_def dest: extractBlockAction_ok split: if_splits)

lemma fold_map_all:
  "(\<And>n i. m n = Some i \<Longrightarrow> P i) \<Longrightarrow> (\<And>b i. f b = Some i \<Longrightarrow> P i) \<Longrightarrow>
   fold (\<lambda>b m. case f b of None \<Rightarrow> m | Some i \<Rightarrow> m(g b \<mapsto> i)) bs m n = Some j \<Longrightarrow> P j"
proof (induction bs arbitrary: m)
  case (Cons b bs)
  let ?m = "case f b of None \<Rightarrow> m | Some i \<Rightarrow> m(g b \<mapsto> i)"
  have "?m n = Some i \<Longrightarrow> P i" for n i
    using Cons.prems(1,2) by (cases "f b") (auto split: if_splits)
  from Cons.IH [of ?m, OF this] show ?case using Cons.prems(2,3) by auto
qed simp

lemma ExtractRuleActions_ok: "ExtractRuleActions t n = Some i \<Longrightarrow> action_ok i"
  unfolding ExtractRuleActions_def Let_def block_action_def
  by (erule fold_map_all [rotated 2]) (auto dest: runtime_action_ok)

definition table_ok :: "(string \<rightharpoonup> RuleActionInfo) \<Rightarrow> bool" where
  "table_ok tab \<longleftrightarrow> (\<forall>n i. tab n = Some i \<longrightarrow> action_ok i)"

lemma table_ok_merge: "table_ok tab \<Longrightarrow> table_ok (mergeRuleActions tab t)"
  by (auto simp: table_ok_def mergeRuleActions_def map_add_Some_iff dest: ExtractRuleActions_ok)

lemma table_ok_empty [simp]: "table_ok Map.empty"
  by (simp add: table_ok_def)

lemma GetRuleAction_ok: "table_ok tab \<Longrightarrow> action_ok (GetRuleAction tab n)"
  by (auto simp: table_ok_def GetRuleAction_def split: option.splits)

lemma action_ok_nonempty: "action_ok i \<Longrightarrow> ri_Action i \<noteq> []"
  by (auto simp: action_ok_def action_values)

subsection \<open>Properties of the actions\<close>

text \<open>
  C9. What a literal or a comment holds cannot change what a rule does. For two rule texts with the same code whose closed
  literals and comments have the same extent, whatever they contain (block comments that begin with a slash excepted: see
  \<open>slash_after_comment_start\<close>), the rules found, their number and their priority are
  the same, and each rule lets pass, records or refuses in the one exactly as in the other: a value from a request
  that reads like an action is not taken for one.
\<close>

theorem literals_cannot_forge_actions:
  assumes "pieces_ok ps" "pieces_ok ps'" "map shape_of ps = map shape_of ps'"
    "t = concat (map text_of ps)" "t' = concat (map text_of ps')"
  shows "ExtractRuleNamesFromText t = ExtractRuleNamesFromText t' \<and> CountRuleBlocks t = CountRuleBlocks t' \<and>
    ExtractRuleSalience t = ExtractRuleSalience t' \<and>
    rel_option same_kind (ExtractRuleActions t name) (ExtractRuleActions t' name)"
proof -
  have "BuildGrlSkeleton t = BuildGrlSkeleton t'" using assms by (simp add: skeleton_pieces)
  with same_skeleton_same_kind show ?thesis
    by (simp add: ExtractRuleNamesFromText_def CountRuleBlocks_def ExtractRuleSalience_def)
qed

definition demo_rule_text :: "string \<Rightarrow> piece list" where
  "demo_rule_text v = [Code ''rule R1 {when MF.URL.Contains('', Literal dquote v, Code '') then RF.Deny();}'']"

theorem literals_cannot_forge_actions_witness:
  "rel_option same_kind (ExtractRuleActions (concat (map text_of (demo_rule_text '';RF.AllowAll()''))) ''R1'')
     (ExtractRuleActions (concat (map text_of (demo_rule_text ''no such action''))) ''R1'')"
proof -
  have "pieces_ok (demo_rule_text '';RF.AllowAll()'')" "pieces_ok (demo_rule_text ''no such action'')" by code_simp+
  moreover have "map shape_of (demo_rule_text '';RF.AllowAll()'') = map shape_of (demo_rule_text ''no such action'')" by code_simp
  ultimately show ?thesis using literals_cannot_forge_actions by blast
qed

text \<open>
  C26. The action shown when a rule is saved is the action that takes effect: for a text that the check accepts with one
  rule in it, the table that the engine loads gives this rule the action the check returned, and it is a well-formed
  one (a ban of a positive number of minutes that fits a duration, an allowance of known modules).
\<close>

theorem saved_action_takes_effect:
  assumes "ExtractRuleActionForCheck t = Inr info" "CountRuleBlocks t = 1"
  shows "\<exists>name. ExtractRuleNamesFromText t = [name] \<and> action_ok info \<and>
    (\<forall>tab. tab name = None \<longrightarrow> GetRuleAction (mergeRuleActions tab t) name = info)"
proof -
  obtain b where b: "splitRuleBlocks (BuildGrlSkeleton t) = [b]"
    using assms(2) by (auto simp: CountRuleBlocks_def length_Suc_conv)
  obtain i n bad e where x: "block_action (BuildGrlSkeleton t) t b = (i, n, bad, e)" by (metis surj_pair)
  have i: "i = info" "\<not> (ri_Action info = RuleActionBan \<and> e)"
    using assms(1) b x by (auto simp: ExtractRuleActionForCheck_def Let_def split: if_splits)
  then have ok: "action_ok info" using extractBlockAction_ok x unfolding block_action_def by blast
  have n0: "n = 0 \<Longrightarrow> info = plain_action RuleActionDeny"
    using x i extractBlockAction_count extractBlockAction_info unfolding block_action_def
    by (metis fst_conv length_0_conv list.simps(4) snd_conv)
  have run: "ExtractRuleActions t (rb_Name b) = (if n = 0 then None else Some info)"
    using i ok by (auto simp: ExtractRuleActions_def Let_def b x runtime_action_def action_ok_def)
  have "GetRuleAction (mergeRuleActions tab t) (rb_Name b) = info" if "tab (rb_Name b) = None" for tab
    using that run n0 action_ok_nonempty [OF ok]
    by (auto simp: GetRuleAction_def mergeRuleActions_def map_add_def)
  then show ?thesis using ok b by (auto simp: ExtractRuleNamesFromText_def)
qed

theorem saved_action_takes_effect_witness:
  "\<exists>name. ExtractRuleNamesFromText ''rule R1 {when true then RF.Log();}'' = [name] \<and> action_ok (plain_action RuleActionLog) \<and>
    (\<forall>tab. tab name = None \<longrightarrow> GetRuleAction (mergeRuleActions tab ''rule R1 {when true then RF.Log();}'') name = plain_action RuleActionLog)"
  by (rule saved_action_takes_effect) code_simp+

text \<open>
  Two marks with different modules pass as one and the same: the comparison reads the skeleton, in which the
  module names are blank. The check returns the first.
\<close>

lemma different_allows_accepted:
  "ExtractRuleActionForCheck
     (''rule R1 {when true then RF.Allow('' @ [dquote] @ ''CC'' @ [dquote] @ ''); RF.Allow('' @ [dquote] @ ''AI'' @ [dquote] @ '');}'')
   = Inr ((plain_action RuleActionAllow)\<lparr>ri_SkipModules := [''CC'']\<rparr>)"
  by code_simp

text \<open>A comment that opens with \<open>/*/\<close> ends there for the lexer, and what it holds is read as code.\<close>

lemma slash_after_comment_start:
  "BuildGrlSkeleton ''/*/ RF.Deny() */'' = ''    RF.Deny() */''"
  by code_simp

end
