(* ===== verification/Check_Rule.thy ===== *)
theory Check_Rule
  imports Rule_Action Cc_Ban Ip_Ban
begin

text \<open>
  wafenginecore/checkrule.go, the custom rules of a site and of the global site, and the loading of
  rules in utils/rulehelper.go.

  The rule engine (grule) is an argument: a record with its builder and, for a knowledge base, the rules that match a log
  entry, \<open>None\<close> for an error. The code relies on one documented property of it, that the matching rules come in
  descending order of their salience. Go gives the keys of a map in no fixed order, so the order of \<open>SkipModules\<close> is not
  meaningful; it is the order of insertion here.
\<close>

subsection \<open>Rules and their loading\<close>

record RuleEntry =
  re_RuleName :: string
  re_RuleDescription :: string
  re_Salience :: int
  re_GrlText :: string

type_synonym matcher = "WebLog \<Rightarrow> RuleEntry list option"

record RuleHelper =
  rh_KnowledgeBase :: "matcher option"
  rh_ruleActions :: "string \<rightharpoonup> RuleActionInfo"

record 'kb grule =
  BuildRuleFromResource :: "string \<Rightarrow> 'kb \<Rightarrow> bool \<times> 'kb"
  RemoveRuleEntries :: "'kb \<Rightarrow> 'kb"
  NewKnowledgeBaseInstance :: "'kb \<Rightarrow> matcher option"

record Rules =
  ru_RuleStatus :: int
  ru_RuleContent :: string

fun load_loop :: "'kb grule \<Rightarrow> Rules list \<Rightarrow> string \<times> 'kb \<times> (string \<rightharpoonup> RuleActionInfo) \<Rightarrow> string \<times> 'kb \<times> (string \<rightharpoonup> RuleActionInfo)" where
  "load_loop gr [] acc = acc"
| "load_loop gr (v # vs) (rulestr, lib, tab) =
     (if ru_RuleStatus v \<noteq> 1 then load_loop gr vs (rulestr, lib, tab)
      else
        (case BuildRuleFromResource gr (ru_RuleContent v) lib of
           (False, lib') \<Rightarrow> load_loop gr vs (rulestr, lib', tab)
         | (True, lib') \<Rightarrow>
             load_loop gr vs
               (rulestr @ ru_RuleContent v @ '' '' @ [newline], lib', mergeRuleActions tab (ru_RuleContent v))))"

definition LoadRules :: "'kb grule \<Rightarrow> Rules list \<Rightarrow> 'kb \<Rightarrow> string \<times> RuleHelper" where
  "LoadRules gr ruleconfig lib =
     (case load_loop gr ruleconfig ([], snd (BuildRuleFromResource gr [] (RemoveRuleEntries gr lib)), Map.empty) of
        (rulestr, lib', tab) \<Rightarrow>
          (rulestr, \<lparr>rh_KnowledgeBase = NewKnowledgeBaseInstance gr lib', rh_ruleActions = tab\<rparr>))"

definition rh_Match :: "RuleHelper \<Rightarrow> matcher" where
  "rh_Match h lg = (case rh_KnowledgeBase h of None \<Rightarrow> None | Some m \<Rightarrow> m lg)"

subsection \<open>Thresholds in a rule text\<close>

text \<open>
  \<open>GetIPFailureCount\s*\(\s*(\d+)\s*\)\s*[>=]+\s*(\d+)\<close>: each part of the expression starts with characters that the part before it
  cannot take, so that the match is the sequence of the longest parts. \<open>take_part\<close> is one part, \<open>None\<close> without a character.
\<close>

definition take_part :: "(char \<Rightarrow> bool) \<Rightarrow> string \<Rightarrow> (string \<times> string) option" where
  "take_part P s = (let a = takeWhile P s in if a = [] then None else Some (a, dropWhile P s))"

definition skip_spaces :: "string \<Rightarrow> string" where
  "skip_spaces s = dropWhile re_space s"

definition thresholdRegex :: "bool \<Rightarrow> string \<Rightarrow> (nat \<times> string \<times> string) option" where
  "thresholdRegex prev s =
     (let r = skip_spaces (drop 17 s)
      in if \<not> HasPrefix s ''GetIPFailureCount'' \<or> \<not> next_is (CHR ''('') r then None
         else
           (case take_part is_digit (skip_spaces (tl r)) of
              None \<Rightarrow> None
            | Some (minutes, r1) \<Rightarrow>
                if \<not> next_is (CHR '')'') (skip_spaces r1) then None
                else
                  (case take_part (\<lambda>c. c = CHR ''>'' \<or> c = CHR ''='') (skip_spaces (tl (skip_spaces r1))) of
                     None \<Rightarrow> None
                   | Some (_, r2) \<Rightarrow>
                       (case take_part is_digit (skip_spaces r2) of
                          None \<Rightarrow> None
                        | Some (count, r3) \<Rightarrow> Some (length s - length r3 - 1, minutes, count)))))"

definition parseIPFailureThreshold :: "string \<Rightarrow> (int \<times> int) option" where
  "parseIPFailureThreshold ruleText =
     (case find_all thresholdRegex 0 False (BuildGrlSkeleton ruleText) of
        [] \<Rightarrow> None
      | (_, _, m, c) # _ \<Rightarrow>
          (case (ParseInt m, ParseInt c) of (Some minutes, Some count) \<Rightarrow> Some (minutes, count) | _ \<Rightarrow> None))"

text \<open>\<open>MF\s*\.\s*(COUNTRY|PROVINCE|CITY)\b\<close>\<close>

definition geoFieldRe :: "bool \<Rightarrow> string \<Rightarrow> (nat \<times> string) option" where
  "geoFieldRe prev s =
     (let a = 2 + spaces (drop 2 s); b = a + 1 + spaces (drop (a + 1) s); r = drop b s
      in if \<not> HasPrefix s ''MF'' \<or> \<not> next_is (CHR ''.'') (drop a s) then None
         else
           (case find (\<lambda>f. HasPrefix r f \<and> (let t = drop (length f) r in t = [] \<or> \<not> word_char (hd t))) [''COUNTRY'', ''PROVINCE'', ''CITY''] of
              None \<Rightarrow> None | Some f \<Rightarrow> Some (b + length f - 1, f)))"

definition isGeoRule :: "string \<Rightarrow> bool" where
  "isGeoRule grlText \<longleftrightarrow> find_all geoFieldRe 0 False (BuildGrlSkeleton grlText) \<noteq> []"

definition dropGeoRules :: "RuleEntry list \<Rightarrow> RuleEntry list" where
  "dropGeoRules ruleMatchs = filter (\<lambda>v. \<not> isGeoRule (re_GrlText v)) ruleMatchs"

subsection \<open>The action of a set of rules\<close>

definition rank :: "string \<Rightarrow> nat" where
  "rank a = (if a = RuleActionDeny \<or> a = RuleActionBan then 3 else if a = RuleActionAllow then 2
     else if a = RuleActionLog then 1 else 0)"

fun pick_loop :: "(string \<rightharpoonup> RuleActionInfo) \<Rightarrow> int \<Rightarrow> RuleEntry list \<Rightarrow> RuleActionInfo \<times> string list \<Rightarrow> RuleActionInfo \<times> string list" where
  "pick_loop tab tops [] acc = acc"
| "pick_loop tab tops (v # vs) (final, skip) =
     (if re_Salience v \<noteq> tops then (final, skip)
      else
        (let info = GetRuleAction tab (re_RuleName v);
             skip' = (if ri_Action info = RuleActionAllow then remdups (skip @ ri_SkipModules info) else skip);
             final' =
               (if ri_Action final = [] \<or> rank (ri_Action final) < rank (ri_Action info) then info
                else if rank (ri_Action info) = rank (ri_Action final) \<and> ri_Action info = RuleActionBan then
                  final\<lparr>ri_Action := RuleActionBan, ri_BanMinutes := max (ri_BanMinutes final) (ri_BanMinutes info)\<rparr>
                else final)
         in pick_loop tab tops vs (final', skip')))"

definition pickRuleAction :: "(string \<rightharpoonup> RuleActionInfo) \<Rightarrow> RuleEntry list \<Rightarrow> RuleActionInfo" where
  "pickRuleAction tab ruleMatchs =
     (case ruleMatchs of
        [] \<Rightarrow> plain_action RuleActionDeny
      | v # _ \<Rightarrow>
          (case pick_loop tab (re_Salience v) ruleMatchs (plain_action [], []) of
             (final, skip) \<Rightarrow>
               (let final' = (if ri_Action final = [] then final\<lparr>ri_Action := RuleActionDeny\<rparr> else final)
                in if ri_Action final' = RuleActionAllow then final'\<lparr>ri_SkipModules := skip\<rparr> else final')))"

record ruleMatchResult =
  mr_Action :: RuleActionInfo
  mr_Title :: string
  mr_TopSalience :: int

text \<open>
  The result of one side is \<open>None\<close> when its field \<open>Matched\<close> is false. \<open>matched_rules\<close> are the rules that take part; the thresholds
  of all of them are recorded.
\<close>

definition matched_rules :: "RuleHelper option \<Rightarrow> WebLog \<Rightarrow> RuleEntry list" where
  "matched_rules ruleHelper lg =
     (case ruleHelper of
        None \<Rightarrow> []
      | Some h \<Rightarrow>
          (case rh_Match h lg of
             None \<Rightarrow> []
           | Some ms \<Rightarrow> if lg_GeoUnresolved lg then dropGeoRules ms else ms))"

definition RecordIPFailureThreshold :: "ip_ban_config \<Rightarrow> int \<Rightarrow> WebLog \<Rightarrow> int \<times> int \<Rightarrow> waf_cache \<Rightarrow> waf_cache" where
  "RecordIPFailureThreshold cfg now lg mc c =
     (if lg_SRC_IP lg = [] \<or> (lg_IsBot lg = 1 \<and> lg_RISK_LEVEL lg = 0) \<or>
         (GSSL_HTTP_CHANGLE_PATH cfg \<noteq> [] \<and> HasPrefix (lg_URL lg) (GSSL_HTTP_CHANGLE_PATH cfg)) then c
      else RecordFailureThreshold cfg now c (lg_SRC_IP lg) (fst mc) (snd mc))"

definition record_thresholds :: "ip_ban_config \<Rightarrow> int \<Rightarrow> WebLog \<Rightarrow> RuleEntry list \<Rightarrow> waf_cache \<Rightarrow> waf_cache" where
  "record_thresholds cfg now lg ms c =
     fold (\<lambda>v c. case parseIPFailureThreshold (re_GrlText v) of
                   None \<Rightarrow> c | Some mc \<Rightarrow> RecordIPFailureThreshold cfg now lg mc c) ms c"

definition matchRules :: "ip_ban_config \<Rightarrow> int \<Rightarrow> RuleHelper option \<Rightarrow> string \<Rightarrow> waf_cache option \<times> WebLog \<Rightarrow> ruleMatchResult option \<times> (waf_cache option \<times> WebLog)" where
  "matchRules cfg now ruleHelper titlePrefix st =
     (case st of (store, lg) \<Rightarrow>
        (case matched_rules ruleHelper lg of
           [] \<Rightarrow> (None, st)
         | v # vs \<Rightarrow>
             (Some \<lparr>mr_Action = pickRuleAction (rh_ruleActions (the ruleHelper)) (v # vs),
                    mr_Title = titlePrefix @ concat (map (\<lambda>v. re_RuleDescription v @ '','') (v # vs)),
                    mr_TopSalience = re_Salience v\<rparr>,
              (map_option (record_thresholds cfg now lg (v # vs)) store, lg))))"

definition merge_results :: "ruleMatchResult \<Rightarrow> ruleMatchResult \<Rightarrow> ruleMatchResult" where
  "merge_results l g =
     (let la = mr_Action l; ga = mr_Action g;
          base = plain_action (ri_Action la);
          banned = (if ri_Action la = RuleActionBan \<or> ri_Action ga = RuleActionBan
                    then base\<lparr>ri_Action := RuleActionBan, ri_BanMinutes := max (ri_BanMinutes la) (ri_BanMinutes ga)\<rparr> else base);
          act = (if ri_Action banned = RuleActionAllow
                 then banned\<lparr>ri_SkipModules := sort (remdups (ri_SkipModules la @ ri_SkipModules ga))\<rparr> else banned)
      in \<lparr>mr_Action = act, mr_Title = mr_Title l @ mr_Title g, mr_TopSalience = mr_TopSalience l\<rparr>)"

definition arbitrate :: "ruleMatchResult option \<Rightarrow> ruleMatchResult option \<Rightarrow> ruleMatchResult option" where
  "arbitrate lr gr =
     (case (lr, gr) of
        (None, _) \<Rightarrow> gr
      | (Some l, None) \<Rightarrow> lr
      | (Some l, Some g) \<Rightarrow>
          (let rl = rank (ri_Action (mr_Action l)); rg = rank (ri_Action (mr_Action g))
           in if mr_TopSalience g < mr_TopSalience l then lr
              else if mr_TopSalience l < mr_TopSalience g then gr
              else if rg < rl then lr
              else if rl < rg then gr
              else Some (merge_results l g)))"

subsection \<open>The check\<close>

record rule_site =
  rs_Code :: string
  rs_IPMode :: string
  rs_GUARD_STATUS :: int
  rs_LogOnlyMode :: int
  rs_Rule :: "RuleHelper option"

definition global_rule_prefix :: string where
  "global_rule_prefix = utf8_text [227, 128, 144, 229, 133, 168, 229, 177, 128, 227, 128, 145]"

definition rule_block_text :: string where
  "rule_block_text = utf8_text [230, 130, 168, 231, 154, 132, 232, 174, 191, 233, 151, 174, 232, 162, 171, 233, 152, 187, 230, 173, 162,
     232, 167, 166, 229, 143, 145, 232, 167, 132, 229, 136, 153]"

definition global_rule :: "rule_site option \<Rightarrow> RuleHelper option" where
  "global_rule g = (case g of None \<Rightarrow> None | Some s \<Rightarrow> if rs_GUARD_STATUS s = 1 then rs_Rule s else None)"

definition apply_rule_action ::
  "int \<Rightarrow> rule_site \<Rightarrow> ruleMatchResult \<Rightarrow> waf_cache option \<times> WebLog \<Rightarrow> detection_Result \<times> (waf_cache option \<times> WebLog)" where
  "apply_rule_action now h final st =
     (case st of (store, lg) \<Rightarrow>
        let a = mr_Action final; t = mr_Title final
        in if ri_Action a = RuleActionDeny \<or> ri_Action a = RuleActionBan then
             (no_result\<lparr>dr_IsBlock := True, dr_Title := t, dr_Content := rule_block_text\<rparr>,
              (if ri_Action a = RuleActionBan
               then banRule now (rs_LogOnlyMode h) (rs_Code h) (GetClientIPByMode (rs_IPMode h) (lg_NetSrcIp lg) (lg_SRC_IP lg))
                      (ri_BanMinutes a) store
               else store, lg\<lparr>lg_RISK_LEVEL := 1\<rparr>))
           else if ri_Action a = RuleActionAllow then
             (if SkipAll a
              then no_result\<lparr>dr_IsRuleAllow := True, dr_Title := t, dr_JumpGuardResult := True, dr_SkipModules := [RuleSkipAll]\<rparr>
              else no_result\<lparr>dr_IsRuleAllow := True, dr_Title := t, dr_SkipModules := ri_SkipModules a\<rparr>, st)
           else if ri_Action a = RuleActionLog then
             (no_result\<lparr>dr_IsLogOnly := True, dr_Title := t\<rparr>, (store, lg\<lparr>lg_RISK_LEVEL := 1\<rparr>))
           else (no_result, st))"

definition CheckRule ::
  "ip_ban_config \<Rightarrow> int \<Rightarrow> rule_site \<Rightarrow> rule_site option \<Rightarrow> waf_cache option \<times> WebLog \<Rightarrow> detection_Result \<times> (waf_cache option \<times> WebLog)" where
  "CheckRule cfg now h g st =
     (case matchRules cfg now (rs_Rule h) [] st of (l, st1) \<Rightarrow>
        (case matchRules cfg now (global_rule g) global_rule_prefix st1 of (r, st2) \<Rightarrow>
           (case arbitrate l r of
              None \<Rightarrow> (no_result, st2)
            | Some final \<Rightarrow> apply_rule_action now h final st2)))"

section \<open>Properties\<close>

subsection \<open>The strongest action of a set\<close>

text \<open>
  The specification of the decision: among the actions of the highest priority a ban wins, with the longest time,
  then a refusal, then an allowance, with the modules of all allowances, and only records are left otherwise.
\<close>

definition bans :: "RuleActionInfo set \<Rightarrow> RuleActionInfo set" where "bans A = {a \<in> A. ri_Action a = RuleActionBan}"
definition denies :: "RuleActionInfo set \<Rightarrow> RuleActionInfo set" where "denies A = {a \<in> A. ri_Action a = RuleActionDeny}"
definition allows :: "RuleActionInfo set \<Rightarrow> RuleActionInfo set" where "allows A = {a \<in> A. ri_Action a = RuleActionAllow}"

definition ban_minutes :: "RuleActionInfo set \<Rightarrow> int" where "ban_minutes A = Max (ri_BanMinutes ` bans A)"
definition allowed_modules :: "RuleActionInfo set \<Rightarrow> string set" where "allowed_modules A = (\<Union>a \<in> allows A. set (ri_SkipModules a))"

definition strongest :: "RuleActionInfo set \<Rightarrow> RuleActionInfo \<Rightarrow> bool" where
  "strongest A i \<longleftrightarrow>
     (if bans A \<noteq> {} then ri_Action i = RuleActionBan \<and> ri_BanMinutes i = ban_minutes A
      else if denies A \<noteq> {} then ri_Action i = RuleActionDeny \<and> ri_BanMinutes i = 0
      else if allows A \<noteq> {} then ri_Action i = RuleActionAllow
      else ri_Action i = RuleActionLog)"

definition acts_ok :: "RuleActionInfo set \<Rightarrow> bool" where
  "acts_ok A \<longleftrightarrow> finite A \<and> A \<noteq> {} \<and> (\<forall>a \<in> A. action_ok a)"

lemma kinds_Un:
  "bans (A \<union> B) = bans A \<union> bans B" "denies (A \<union> B) = denies A \<union> denies B" "allows (A \<union> B) = allows A \<union> allows B"
  by (auto simp: bans_def denies_def allows_def)

lemma kinds_single:
  "bans {a} = (if ri_Action a = RuleActionBan then {a} else {})" "denies {a} = (if ri_Action a = RuleActionDeny then {a} else {})"
  "allows {a} = (if ri_Action a = RuleActionAllow then {a} else {})"
  by (auto simp: bans_def denies_def allows_def)

lemma finite_bans: "acts_ok A \<Longrightarrow> finite (bans A)"
  by (simp add: acts_ok_def bans_def)

lemma ban_minutes_pos: "acts_ok A \<Longrightarrow> bans A \<noteq> {} \<Longrightarrow> 0 < ban_minutes A"
proof -
  assume a: "acts_ok A" "bans A \<noteq> {}"
  then have "ban_minutes A \<in> ri_BanMinutes ` bans A" using finite_bans by (simp add: ban_minutes_def)
  then show ?thesis using a by (auto simp: acts_ok_def bans_def action_ok_def)
qed

lemma ban_minutes_Un:
  "acts_ok A \<Longrightarrow> acts_ok B \<Longrightarrow> bans A \<noteq> {} \<Longrightarrow> bans B \<noteq> {} \<Longrightarrow> ban_minutes (A \<union> B) = max (ban_minutes A) (ban_minutes B)"
  using finite_bans by (simp add: ban_minutes_def kinds_Un image_Un Max_Un)

lemma ban_minutes_Un_left: "bans B = {} \<Longrightarrow> ban_minutes (A \<union> B) = ban_minutes A"
  and ban_minutes_Un_right: "bans A = {} \<Longrightarrow> ban_minutes (A \<union> B) = ban_minutes B"
  by (simp_all add: ban_minutes_def kinds_Un)

text \<open>Joining two results of the same priority, as both loops do: the stronger one, or the longer ban.\<close>

definition join :: "RuleActionInfo \<Rightarrow> RuleActionInfo \<Rightarrow> RuleActionInfo \<Rightarrow> bool" where
  "join x y z \<longleftrightarrow>
     (if rank (ri_Action y) < rank (ri_Action x) then z = x
      else if rank (ri_Action x) < rank (ri_Action y) then z = y
      else if ri_Action x = RuleActionBan \<or> ri_Action y = RuleActionBan
      then ri_Action z = RuleActionBan \<and> ri_BanMinutes z = max (ri_BanMinutes x) (ri_BanMinutes y)
      else ri_Action z = ri_Action x \<and> (ri_Action x = RuleActionDeny \<longrightarrow> ri_BanMinutes z = ri_BanMinutes x))"

lemma strongest_cases:
  assumes "strongest A i" "acts_ok A"
  obtains (ban) "bans A \<noteq> {}" "ri_Action i = RuleActionBan" "ri_BanMinutes i = ban_minutes A" "0 < ban_minutes A"
  | (deny) "bans A = {}" "denies A \<noteq> {}" "ri_Action i = RuleActionDeny" "ri_BanMinutes i = 0"
  | (allow) "bans A = {}" "denies A = {}" "allows A \<noteq> {}" "ri_Action i = RuleActionAllow"
  | (log) "bans A = {}" "denies A = {}" "allows A = {}" "ri_Action i = RuleActionLog"
  using assms ban_minutes_pos unfolding strongest_def by (metis (no_types, lifting))

lemmas verdict_simps = strongest_def join_def kinds_Un rank_def ban_minutes_Un_left ban_minutes_Un_right action_values

lemma strongest_join:
  assumes "strongest A x" "strongest B y" "acts_ok A" "acts_ok B" "join x y z"
  shows "strongest (A \<union> B) z"
  using assms(1,3)
proof (cases rule: strongest_cases)
  case ban
  from assms(2,4) show ?thesis
  proof (cases rule: strongest_cases)
    case 2: ban
    show ?thesis using ban 2 assms(3,4,5) ban_minutes_Un [of A B] by (simp add: verdict_simps)
  qed (use ban assms(5) in \<open>simp_all add: verdict_simps\<close>)
next
  case deny
  from assms(2,4) show ?thesis
    by (cases rule: strongest_cases) (use deny assms(5) in \<open>simp_all add: verdict_simps\<close>)
next
  case allow
  from assms(2,4) show ?thesis
    by (cases rule: strongest_cases) (use allow assms(5) in \<open>simp_all add: verdict_simps\<close>)
next
  case log
  from assms(2,4) show ?thesis
    by (cases rule: strongest_cases) (use log assms(5) in \<open>simp_all add: verdict_simps\<close>)
qed

subsection \<open>One side\<close>

lemma strongest_single: "action_ok a \<Longrightarrow> strongest {a} a"
  by (auto simp: strongest_def kinds_single ban_minutes_def action_ok_def)

lemma pick_loop_strongest:
  assumes "table_ok tab" "acts_ok A" "strongest A final" "\<forall>v \<in> set vs. re_Salience v = tops"
    "pick_loop tab tops vs (final, skip) = (final', skip')" "set skip = allowed_modules A"
  shows "strongest (A \<union> (\<lambda>v. GetRuleAction tab (re_RuleName v)) ` set vs) final' \<and>
    set skip' = allowed_modules (A \<union> (\<lambda>v. GetRuleAction tab (re_RuleName v)) ` set vs)"
  using assms(2-6)
proof (induction vs arbitrary: A final skip)
  case (Cons v vs)
  let ?i = "GetRuleAction tab (re_RuleName v)"
  let ?skip = "if ri_Action ?i = RuleActionAllow then remdups (skip @ ri_SkipModules ?i) else skip"
  let ?f = "if ri_Action final = [] \<or> rank (ri_Action final) < rank (ri_Action ?i) then ?i
       else if rank (ri_Action ?i) = rank (ri_Action final) \<and> ri_Action ?i = RuleActionBan
       then final\<lparr>ri_Action := RuleActionBan, ri_BanMinutes := max (ri_BanMinutes final) (ri_BanMinutes ?i)\<rparr> else final"
  have ok: "action_ok ?i" using assms(1) GetRuleAction_ok by blast
  then have ok1: "acts_ok {?i}" by (simp add: acts_ok_def)
  have "ri_Action final \<noteq> []" using Cons.prems(2) by (auto simp: strongest_def action_values split: if_splits)
  moreover have "ri_Action final = RuleActionBan \<Longrightarrow> ri_Action ?i = RuleActionDeny \<Longrightarrow>
      ri_BanMinutes final = max (ri_BanMinutes final) (ri_BanMinutes ?i)"
    using Cons.prems(1,2) ok ban_minutes_pos [of A] by (auto simp: strongest_def action_ok_def action_values split: if_splits)
  moreover have "rank (ri_Action final) = rank (ri_Action ?i) \<Longrightarrow> ri_Action final = RuleActionBan \<Longrightarrow>
      ri_Action ?i = RuleActionBan \<or> ri_Action ?i = RuleActionDeny" by (auto simp: rank_def action_values split: if_splits)
  ultimately have "join final ?i ?f" by (auto simp: join_def)
  then have str: "strongest (A \<union> {?i}) ?f"
    using strongest_join [OF Cons.prems(2) strongest_single [OF ok] Cons.prems(1) ok1] by blast
  have A: "acts_ok (A \<union> {?i})" using Cons.prems(1) ok by (simp add: acts_ok_def)
  have sk: "set ?skip = allowed_modules (A \<union> {?i})" using Cons.prems(5) by (auto simp: allowed_modules_def allows_def)
  have run: "pick_loop tab tops vs (?f, ?skip) = (final', skip')" using Cons.prems(3,4) by (simp add: Let_def)
  have "A \<union> (\<lambda>v. GetRuleAction tab (re_RuleName v)) ` set (v # vs) = (A \<union> {?i}) \<union> (\<lambda>v. GetRuleAction tab (re_RuleName v)) ` set vs"
    by auto
  then show ?case using Cons.IH [OF A str _ run sk] Cons.prems(3) by simp
qed simp

lemma pick_loop_takeWhile:
  "pick_loop tab tops vs acc = pick_loop tab tops (takeWhile (\<lambda>v. re_Salience v = tops) vs) acc"
  by (induction tab tops vs acc rule: pick_loop.induct) (simp_all add: Let_def)

lemma pickRuleAction_strongest:
  assumes "table_ok tab" "ms = v # vs"
    "A = (\<lambda>v. GetRuleAction tab (re_RuleName v)) ` set (takeWhile (\<lambda>u. re_Salience u = re_Salience v) ms)"
  shows "strongest A (pickRuleAction tab ms) \<and> acts_ok A \<and>
    (ri_Action (pickRuleAction tab ms) = RuleActionAllow \<longrightarrow> set (ri_SkipModules (pickRuleAction tab ms)) = allowed_modules A)"
proof -
  let ?i = "GetRuleAction tab (re_RuleName v)" and ?ws = "takeWhile (\<lambda>u. re_Salience u = re_Salience v) vs"
  have ok: "action_ok ?i" using assms(1) GetRuleAction_ok by blast
  obtain final skip where run: "pick_loop tab (re_Salience v) ?ws (?i, if ri_Action ?i = RuleActionAllow then remdups (ri_SkipModules ?i) else []) = (final, skip)"
    by (metis surj_pair)
  have all: "\<forall>u \<in> set ?ws. re_Salience u = re_Salience v" by (auto dest: set_takeWhileD)
  have "set (if ri_Action ?i = RuleActionAllow then remdups (ri_SkipModules ?i) else []) = allowed_modules {?i}"
    by (simp add: allowed_modules_def kinds_single)
  from pick_loop_strongest [OF assms(1) _ strongest_single [OF ok] all run this] ok
  have res: "strongest A final" "set skip = allowed_modules A" by (simp_all add: assms(2,3) acts_ok_def)
  have "pick_loop tab (re_Salience v) ms (plain_action [], []) = (final, skip)"
    using run by (auto simp: assms(2) pick_loop_takeWhile [of tab "re_Salience v" vs] Let_def split: if_split_asm)
  moreover have "ri_Action final \<noteq> []" using res(1) by (auto simp: strongest_def action_values split: if_splits)
  ultimately have "pickRuleAction tab ms = (if ri_Action final = RuleActionAllow then final\<lparr>ri_SkipModules := skip\<rparr> else final)"
    by (simp add: pickRuleAction_def assms(2) Let_def)
  moreover have "acts_ok A" using assms GetRuleAction_ok by (auto simp: acts_ok_def)
  ultimately show ?thesis using res by (auto simp: strongest_def)
qed

subsection \<open>Both sides\<close>

lemma arbitrate_strongest:
  assumes "strongest A (mr_Action l)" "strongest B (mr_Action g)" "acts_ok A" "acts_ok B" "mr_TopSalience l = mr_TopSalience g"
    "arbitrate (Some l) (Some g) = Some f"
    "ri_Action (mr_Action l) = RuleActionAllow \<Longrightarrow> set (ri_SkipModules (mr_Action l)) = allowed_modules A"
    "ri_Action (mr_Action g) = RuleActionAllow \<Longrightarrow> set (ri_SkipModules (mr_Action g)) = allowed_modules B"
  shows "strongest (A \<union> B) (mr_Action f) \<and>
    (ri_Action (mr_Action f) = RuleActionAllow \<longrightarrow> set (ri_SkipModules (mr_Action f)) = allowed_modules (A \<union> B))"
proof -
  have "join (mr_Action l) (mr_Action g) (mr_Action f)"
  proof (cases "rank (ri_Action (mr_Action l)) = rank (ri_Action (mr_Action g))")
    case False
    with assms(5,6) show ?thesis by (auto simp: arbitrate_def join_def Let_def split: if_splits)
  next
    case True
    with assms(5,6) have f: "f = merge_results l g" by (simp add: arbitrate_def Let_def)
    have "ri_Action (mr_Action l) = RuleActionDeny \<Longrightarrow> ri_BanMinutes (mr_Action l) = 0"
      using assms(1) by (auto simp: strongest_def action_values split: if_splits)
    then show ?thesis using True by (auto simp: f join_def merge_results_def Let_def action_values)
  qed
  then have str: "strongest (A \<union> B) (mr_Action f)" using strongest_join assms(1-4) by blast
  have mods: "allowed_modules (A \<union> B) = allowed_modules A \<union> allowed_modules B" by (auto simp: allowed_modules_def kinds_Un)
  have none: "strongest C i \<Longrightarrow> ri_Action i = RuleActionLog \<Longrightarrow> allowed_modules C = {}" for C i
    by (auto simp: strongest_def allowed_modules_def action_values split: if_splits)
  have "set (ri_SkipModules (mr_Action f)) = allowed_modules (A \<union> B)" if a: "ri_Action (mr_Action f) = RuleActionAllow"
  proof (cases "rank (ri_Action (mr_Action l)) = rank (ri_Action (mr_Action g))")
    case True
    with assms(5,6) have f: "f = merge_results l g" by (simp add: arbitrate_def Let_def)
    with a have "ri_Action (mr_Action l) = RuleActionAllow" by (auto simp: merge_results_def Let_def action_values split: if_splits)
    moreover from this True have "ri_Action (mr_Action g) = RuleActionAllow" by (auto simp: rank_def action_values split: if_splits)
    ultimately show ?thesis using assms(7,8) by (simp add: f merge_results_def Let_def action_values mods)
  next
    case False
    then consider "f = l" "rank (ri_Action (mr_Action g)) < 2" | "f = g" "rank (ri_Action (mr_Action l)) < 2"
      using assms(5,6) a by (auto simp: arbitrate_def Let_def rank_def action_values split: if_splits)
    then show ?thesis
    proof cases
      case 1
      then have "ri_Action (mr_Action g) = RuleActionLog"
        using assms(2) by (auto simp: strongest_def rank_def action_values split: if_splits)
      then show ?thesis using 1 a assms(7) none [OF assms(2)] mods by simp
    next
      case 2
      then have "ri_Action (mr_Action l) = RuleActionLog"
        using assms(1) by (auto simp: strongest_def rank_def action_values split: if_splits)
      then show ?thesis using 2 a assms(8) none [OF assms(1)] mods by simp
    qed
  qed
  with str show ?thesis by blast
qed

definition candidates :: "RuleHelper option \<Rightarrow> WebLog \<Rightarrow> (int \<times> RuleActionInfo) list" where
  "candidates rh lg = map (\<lambda>v. (re_Salience v, GetRuleAction (rh_ruleActions (the rh)) (re_RuleName v))) (matched_rules rh lg)"

definition top_actions :: "(int \<times> RuleActionInfo) list \<Rightarrow> RuleActionInfo set" where
  "top_actions cs = snd ` {c \<in> set cs. \<forall>d \<in> set cs. fst d \<le> fst c}"

text \<open>What a side relies on: actions from \<open>ExtractRuleActions\<close> and matches in descending order of salience.\<close>

definition engine_ok :: "RuleHelper option \<Rightarrow> bool" where
  "engine_ok rh \<longleftrightarrow>
     (case rh of None \<Rightarrow> True
      | Some h \<Rightarrow> table_ok (rh_ruleActions h) \<and>
          (\<forall>lg ms. rh_Match h lg = Some ms \<longrightarrow> sorted_wrt (\<lambda>a b. re_Salience b \<le> re_Salience a) ms))"

lemma LoadRules_table_ok: "table_ok (rh_ruleActions (snd (LoadRules gr rules lib)))"
proof -
  have "table_ok tab \<Longrightarrow> table_ok (snd (snd (load_loop gr rules (s, l, tab))))" for s l tab
    by (induction gr rules "(s, l, tab)" arbitrary: s l tab rule: load_loop.induct)
       (auto simp: table_ok_merge split: prod.splits bool.splits)
  then show ?thesis by (auto simp: LoadRules_def split: prod.splits) (metis snd_conv table_ok_empty)
qed

lemma matched_rules_desc:
  "engine_ok rh \<Longrightarrow> sorted_wrt (\<lambda>a b. re_Salience b \<le> re_Salience a) (matched_rules rh lg)"
  by (auto simp: matched_rules_def engine_ok_def dropGeoRules_def sorted_wrt_filter split: option.splits)

lemma takeWhile_desc:
  assumes "sorted_wrt (\<lambda>a b. re_Salience b \<le> re_Salience a) (v # vs)"
  shows "set (takeWhile (\<lambda>u. re_Salience u = re_Salience v) (v # vs)) = {u \<in> set (v # vs). \<forall>w \<in> set (v # vs). re_Salience w \<le> re_Salience u}"
proof -
  have "sorted_wrt (\<lambda>a b. re_Salience b \<le> re_Salience a) ws \<Longrightarrow> \<forall>u \<in> set ws. re_Salience u \<le> t \<Longrightarrow>
      set (takeWhile (\<lambda>u. re_Salience u = t) ws) = {u \<in> set ws. re_Salience u = t}" for ws t
    by (induction ws) force+
  from this [OF assms, of "re_Salience v"] assms show ?thesis by auto
qed

definition side_ok :: "(int \<times> RuleActionInfo) list \<Rightarrow> ruleMatchResult \<Rightarrow> bool" where
  "side_ok cs r \<longleftrightarrow> strongest (top_actions cs) (mr_Action r) \<and> acts_ok (top_actions cs) \<and>
     (ri_Action (mr_Action r) = RuleActionAllow \<longrightarrow> set (ri_SkipModules (mr_Action r)) = allowed_modules (top_actions cs)) \<and>
     (\<forall>c \<in> set cs. fst c \<le> mr_TopSalience r) \<and> (\<exists>c \<in> set cs. fst c = mr_TopSalience r)"

lemma top_actions_map: "top_actions (map (\<lambda>v. (s v, f v)) ms) = f ` {u \<in> set ms. \<forall>w \<in> set ms. s w \<le> s u}"
proof -
  have "{c \<in> set (map (\<lambda>v. (s v, f v)) ms). \<forall>d \<in> set (map (\<lambda>v. (s v, f v)) ms). fst d \<le> fst c} =
      (\<lambda>v. (s v, f v)) ` {u \<in> set ms. \<forall>w \<in> set ms. s w \<le> s u}" by auto
  then show ?thesis by (simp add: top_actions_def image_comp comp_def)
qed

definition after_thresholds :: "ip_ban_config \<Rightarrow> int \<Rightarrow> WebLog \<Rightarrow> RuleHelper option \<Rightarrow> waf_cache option \<Rightarrow> waf_cache option" where
  "after_thresholds cfg now lg rh store = map_option (record_thresholds cfg now lg (matched_rules rh lg)) store"

lemma matchRules_side:
  assumes "engine_ok rh" "matchRules cfg now rh pre (store, lg) = (r, st')"
  shows "st' = (after_thresholds cfg now lg rh store, lg) \<and>
    (case r of None \<Rightarrow> candidates rh lg = [] | Some x \<Rightarrow> side_ok (candidates rh lg) x)"
proof (cases "matched_rules rh lg")
  case Nil
  then have "after_thresholds cfg now lg rh store = store"
    by (cases store) (simp_all add: after_thresholds_def record_thresholds_def)
  with Nil assms(2) show ?thesis by (auto simp: matchRules_def candidates_def)
next
  case (Cons v vs)
  then obtain h where h: "rh = Some h" by (cases rh) (auto simp: matched_rules_def)
  let ?tab = "rh_ruleActions h" and ?f = "\<lambda>v. GetRuleAction (rh_ruleActions h) (re_RuleName v)"
  have tab: "table_ok ?tab" using assms(1) h by (simp add: engine_ok_def)
  have desc: "sorted_wrt (\<lambda>a b. re_Salience b \<le> re_Salience a) (v # vs)" using matched_rules_desc [OF assms(1)] Cons by metis
  have c: "candidates rh lg = map (\<lambda>v. (re_Salience v, ?f v)) (v # vs)" unfolding candidates_def Cons by (simp add: h)
  have top: "top_actions (candidates rh lg) = ?f ` set (takeWhile (\<lambda>u. re_Salience u = re_Salience v) (v # vs))"
    unfolding c takeWhile_desc [OF desc] by (rule top_actions_map)
  obtain x where x: "r = Some x" "mr_Action x = pickRuleAction ?tab (v # vs)" "mr_TopSalience x = re_Salience v"
      "st' = (after_thresholds cfg now lg rh store, lg)"
    using assms(2) Cons h by (auto simp: matchRules_def after_thresholds_def)
  have "\<forall>c \<in> set (candidates rh lg). fst c \<le> re_Salience v" using desc by (auto simp: c)
  moreover have "\<exists>c \<in> set (candidates rh lg). fst c = re_Salience v" by (simp add: c)
  ultimately show ?thesis using pickRuleAction_strongest [OF tab refl top] x by (simp add: side_ok_def)
qed

lemma top_actions_append:
  assumes "\<forall>c \<in> set xs. fst c \<le> m" "\<exists>c \<in> set xs. fst c = m" "\<forall>c \<in> set ys. fst c \<le> n" "\<exists>c \<in> set ys. fst c = n"
  shows "top_actions (xs @ ys) =
    (if n < m then top_actions xs else if m < n then top_actions ys else top_actions xs \<union> top_actions ys)"
proof -
  have t: "top_actions zs = snd ` {c \<in> set zs. fst c = k}" if "\<forall>c \<in> set zs. fst c \<le> k" "\<exists>c \<in> set zs. fst c = k" for zs k
    using that by (force simp: top_actions_def)
  have "\<forall>c \<in> set (xs @ ys). fst c \<le> max m n" using assms by fastforce
  moreover have "\<exists>c \<in> set (xs @ ys). fst c = max m n" using assms by (auto simp: max_def)
  ultimately have "top_actions (xs @ ys) = snd ` {c \<in> set (xs @ ys). fst c = max m n}" by (rule t)
  moreover have "n < m \<Longrightarrow> {c \<in> set (xs @ ys). fst c = max m n} = {c \<in> set xs. fst c = m}" using assms(3) by auto
  moreover have "m < n \<Longrightarrow> {c \<in> set (xs @ ys). fst c = max m n} = {c \<in> set ys. fst c = n}" using assms(1) by auto
  moreover have "m = n \<Longrightarrow> {c \<in> set (xs @ ys). fst c = max m n} = {c \<in> set xs. fst c = m} \<union> {c \<in> set ys. fst c = n}" by auto
  ultimately show ?thesis unfolding t [OF assms(1,2)] t [OF assms(3,4)] by (cases m n rule: linorder_cases) (simp_all add: image_Un)
qed

lemma side_ok_append:
  "side_ok xs l \<Longrightarrow> top_actions (xs @ ys) = top_actions xs \<Longrightarrow> \<forall>c \<in> set ys. fst c \<le> mr_TopSalience l \<Longrightarrow> side_ok (xs @ ys) l"
  "side_ok ys g \<Longrightarrow> top_actions (xs @ ys) = top_actions ys \<Longrightarrow> \<forall>c \<in> set xs. fst c \<le> mr_TopSalience g \<Longrightarrow> side_ok (xs @ ys) g"
  by (auto simp: side_ok_def)

lemma arbitrate_Some: "\<exists>f. arbitrate (Some x) (Some y) = Some f"
  by (simp add: arbitrate_def Let_def)

lemma arbitrate_side:
  assumes "side_ok xs l" "side_ok ys g" "arbitrate (Some l) (Some g) = Some f"
  shows "side_ok (xs @ ys) f"
proof -
  note top = top_actions_append [of xs "mr_TopSalience l" ys "mr_TopSalience g"]
  have a: "\<forall>c \<in> set xs. fst c \<le> mr_TopSalience l" "\<exists>c \<in> set xs. fst c = mr_TopSalience l"
    "\<forall>c \<in> set ys. fst c \<le> mr_TopSalience g" "\<exists>c \<in> set ys. fst c = mr_TopSalience g"
    using assms(1,2) by (auto simp: side_ok_def)
  consider "mr_TopSalience g < mr_TopSalience l" "f = l" | "mr_TopSalience l < mr_TopSalience g" "f = g"
    | "mr_TopSalience l = mr_TopSalience g" "mr_TopSalience f = mr_TopSalience l"
    using assms(3) by (auto simp: arbitrate_def Let_def merge_results_def split: if_splits)
  then show ?thesis
  proof cases
    case 1
    then have "\<forall>c \<in> set ys. fst c \<le> mr_TopSalience l" using a(3) by (meson le_less_trans less_imp_le)
    with 1 top [OF a] side_ok_append(1) [OF assms(1)] show ?thesis by simp
  next
    case 2
    then have "\<forall>c \<in> set xs. fst c \<le> mr_TopSalience g" using a(1) by (meson le_less_trans less_imp_le)
    with 2 top [OF a] side_ok_append(2) [OF assms(2)] show ?thesis by simp
  next
    case 3
    have "strongest (top_actions xs \<union> top_actions ys) (mr_Action f) \<and>
        (ri_Action (mr_Action f) = RuleActionAllow \<longrightarrow> set (ri_SkipModules (mr_Action f)) = allowed_modules (top_actions xs \<union> top_actions ys))"
      using arbitrate_strongest [OF _ _ _ _ 3(1) assms(3)] assms(1,2) by (simp add: side_ok_def)
    with 3 top [OF a] assms(1,2) a show ?thesis by (auto simp: side_ok_def acts_ok_def)
  qed
qed

subsection \<open>The decision\<close>

text \<open>
  C3. The rules of the site and of the global site are judged as one set. With an engine that returns its matches in
  descending order of salience, a request is refused exactly when a rule of the highest priority among all that match, of
  either side, refuses or bans; it is let pass exactly when none of these does and one allows, skipping the modules that
  these allowances name together; it is only recorded when all of them only record. A ban is written for the longest
  time any of them orders, and for nothing else.
\<close>

theorem rules_judged_together:
  assumes "engine_ok (rs_Rule h)" "engine_ok (global_rule g)"
    "CheckRule cfg now h g (store, lg) = (res, store', lg')"
    "cs = candidates (rs_Rule h) lg @ candidates (global_rule g) lg" "T = top_actions cs" "cs \<noteq> []"
  shows "(dr_IsBlock res \<longleftrightarrow> bans T \<union> denies T \<noteq> {}) \<and>
    (dr_IsRuleAllow res \<longleftrightarrow> bans T \<union> denies T = {} \<and> allows T \<noteq> {}) \<and>
    (dr_IsLogOnly res \<longleftrightarrow> bans T \<union> denies T \<union> allows T = {}) \<and>
    (dr_IsRuleAllow res \<longrightarrow>
       (dr_JumpGuardResult res \<longleftrightarrow> RuleSkipAll \<in> allowed_modules T) \<and>
       (\<not> dr_JumpGuardResult res \<longrightarrow> set (dr_SkipModules res) = allowed_modules T)) \<and>
    store' =
       (let store1 = after_thresholds cfg now lg (global_rule g) (after_thresholds cfg now lg (rs_Rule h) store)
        in if bans T \<noteq> {} then banRule now (rs_LogOnlyMode h) (rs_Code h)
          (GetClientIPByMode (rs_IPMode h) (lg_NetSrcIp lg) (lg_SRC_IP lg)) (ban_minutes T) store1 else store1)"
proof -
  obtain l st1 where m1: "matchRules cfg now (rs_Rule h) [] (store, lg) = (l, st1)" by (metis surj_pair)
  note s1 = matchRules_side [OF assms(1) m1]
  then have st1: "st1 = (after_thresholds cfg now lg (rs_Rule h) store, lg)" by blast
  obtain r st2 where m2: "matchRules cfg now (global_rule g) global_rule_prefix st1 = (r, st2)" by (metis surj_pair)
  note s2 = matchRules_side [OF assms(2) m2 [unfolded st1]]
  let ?store = "after_thresholds cfg now lg (global_rule g) (after_thresholds cfg now lg (rs_Rule h) store)"
  have st2: "st2 = (?store, lg)" using s2 by blast
  have "\<exists>f. arbitrate l r = Some f \<and> side_ok cs f"
  proof (cases l; cases r)
    fix x y assume "l = Some x" "r = Some y"
    moreover obtain f where "arbitrate (Some x) (Some y) = Some f" using arbitrate_Some by blast
    ultimately show ?thesis using arbitrate_side s1 s2 assms(4) by auto
  qed (use s1 s2 assms(4,6) in \<open>auto simp: arbitrate_def\<close>)
  then obtain f where f: "arbitrate l r = Some f" "side_ok cs f" by blast
  have run: "apply_rule_action now h f (?store, lg) = (res, store', lg')"
    using assms(3) by (simp add: CheckRule_def m1 m2 f st2)
  have str: "strongest T (mr_Action f)" "acts_ok T"
    and mods: "ri_Action (mr_Action f) = RuleActionAllow \<Longrightarrow> set (ri_SkipModules (mr_Action f)) = allowed_modules T"
    using f(2) assms(5) by (auto simp: side_ok_def)
  have skip: "SkipAll i \<longleftrightarrow> RuleSkipAll \<in> set (ri_SkipModules i)" for i by (auto simp: SkipAll_def list_ex_iff)
  from str show ?thesis
  proof (cases rule: strongest_cases)
    case ban
    with run show ?thesis by (auto simp: apply_rule_action_def Let_def no_result_def action_values)
  next
    case deny
    with run show ?thesis by (auto simp: apply_rule_action_def Let_def no_result_def action_values)
  next
    case allow
    with run mods show ?thesis
      by (cases "SkipAll (mr_Action f)") (auto simp: apply_rule_action_def Let_def no_result_def action_values skip)
  next
    case log
    with run show ?thesis by (auto simp: apply_rule_action_def Let_def no_result_def action_values)
  qed
qed

definition demo_cfg :: ip_ban_config where
  "demo_cfg = \<lparr>GCONFIG_IP_FAILURE_BAN_ENABLED = 0, GCONFIG_IP_FAILURE_BAN_LOCK_TIME = 10, GCONFIG_IP_FAILURE_STATUS_CODES = [],
     GSSL_HTTP_CHANGLE_PATH = []\<rparr>"

definition demo_entry :: "string \<Rightarrow> int \<Rightarrow> RuleEntry" where
  "demo_entry n s = \<lparr>re_RuleName = n, re_RuleDescription = n, re_Salience = s, re_GrlText = []\<rparr>"

definition demo_helper :: "RuleEntry list \<Rightarrow> RuleHelper" where
  "demo_helper ms = \<lparr>rh_KnowledgeBase = Some (\<lambda>lg. Some ms),
     rh_ruleActions = [''RA'' \<mapsto> (plain_action RuleActionAllow)\<lparr>ri_SkipModules := [RuleSkipAll]\<rparr>]\<rparr>"

definition demo_site :: "RuleEntry list \<Rightarrow> rule_site" where
  "demo_site ms = \<lparr>rs_Code = ''h1'', rs_IPMode = ''nic'', rs_GUARD_STATUS = 1, rs_LogOnlyMode = 0, rs_Rule = Some (demo_helper ms)\<rparr>"

definition demo_weblog :: WebLog where
  "demo_weblog = \<lparr>lg_SRC_IP = ''9.9.9.9'', lg_NetSrcIp = ''9.9.9.9'', lg_URL = ''/'', lg_COUNTRY = [], lg_PROVINCE = [], lg_CITY = [],
     lg_IsBot = 0, lg_BotVerifyStrong = 0, lg_CONTENT_LENGTH = 0, lg_ResHeader = [], lg_STATUS_CODE = 0, lg_RES_CONTENT_LENGTH = 0,
     lg_TimeSpent = 0, lg_BodyFields = [], lg_BodyValues = [], lg_RISK_LEVEL = 0, lg_RULE = [], lg_GUEST_IDENTIFICATION = [],
     lg_LogOnlyMode = 0, lg_GeoUnresolved = False\<rparr>"

lemma demo_helper_ok:
  "sorted_wrt (\<lambda>a b. re_Salience b \<le> re_Salience a) ms \<Longrightarrow> engine_ok (Some (demo_helper ms))"
  by (auto simp: engine_ok_def demo_helper_def table_ok_def action_ok_def action_values rh_Match_def ruleSkipModules_def split: if_splits)

text \<open>An allowance of the site at priority 10 against a refusal of the global site at 20: the request is refused.\<close>

theorem rules_judged_together_witness:
  "dr_IsBlock (fst (CheckRule demo_cfg 0 (demo_site [demo_entry ''RA'' 10]) (Some (demo_site [demo_entry ''RD'' 20])) (None, demo_weblog)))"
proof -
  let ?h = "demo_site [demo_entry ''RA'' 10]" and ?g = "Some (demo_site [demo_entry ''RD'' 20])"
  let ?cs = "candidates (rs_Rule ?h) demo_weblog @ candidates (global_rule ?g) demo_weblog"
  obtain res st lg where run: "CheckRule demo_cfg 0 ?h ?g (None, demo_weblog) = (res, st, lg)" by (metis surj_pair)
  have ok: "engine_ok (rs_Rule ?h)" "engine_ok (global_rule ?g)" by (simp_all add: demo_site_def global_rule_def demo_helper_ok)
  have cs: "?cs = [(10, (plain_action RuleActionAllow)\<lparr>ri_SkipModules := [RuleSkipAll]\<rparr>), (20, plain_action RuleActionDeny)]"
    by (simp add: candidates_def matched_rules_def demo_site_def demo_helper_def rh_Match_def demo_weblog_def global_rule_def
        demo_entry_def GetRuleAction_def action_values)
  then have "plain_action RuleActionDeny \<in> top_actions ?cs"
    unfolding top_actions_def by (intro image_eqI [where x = "(20, plain_action RuleActionDeny)"]) simp_all
  then have "denies (top_actions ?cs) \<noteq> {}" by (auto simp: denies_def)
  with rules_judged_together [OF ok run refl refl] cs have "dr_IsBlock res" by simp
  with run show ?thesis by simp
qed

end
