(* ===== verification/Ip_Check.thy ===== *)
theory Ip_Check
  imports Match_Set Http_Model
begin

text \<open>
  The lists of a site and of the global site in wafenginecore: checkdenyip.go, checkallowip.go, checkdenyurl.go,
  checkallowurl.go and checkallowcallback.go, with the payment callbacks of wafbot/callback_ip.go and
  \<open>CheckIPInRanges\<close>, \<open>CheckIPInCIDR\<close> and \<open>MatchIPPattern\<close> of utils/common.go.

  The shared tables are a record: the store of compiled sets, the published snapshot of the IP groups, the published
  threat set and the cache of parsed patterns, which a look-up may fill.
\<close>

subsection \<open>Address lists\<close>

record ip_world =
  iw_store :: ms_store
  iw_groups :: group_state
  iw_threat :: ms_ptr
  iw_patterns :: pattern_cache

record list_site =
  ls_IPMode :: string
  ls_GUARD_STATUS :: int
  ls_IPBlockIndex :: "MatchSet option"
  ls_IPBlockGroupCodes :: "string list"
  ls_IPBlockLists :: "ip_list_row list"
  ls_IPWhiteIndex :: "MatchSet option"
  ls_IPWhiteGroupCodes :: "string list"
  ls_IPWhiteLists :: "ip_list_row list"
  ls_UrlBlockLists :: "(string \<times> string) list"
  ls_UrlWhiteLists :: "(string \<times> string) list"

definition MatchIPPattern :: "ip_world \<Rightarrow> string \<Rightarrow> string \<Rightarrow> bool \<times> ip_world" where
  "MatchIPPattern w ip pat = (case MatchPatternStrCached (iw_patterns w) ip pat of (b, c) \<Rightarrow> (b, w\<lparr>iw_patterns := c\<rparr>))"

fun rows_loop :: "ip_world \<Rightarrow> string \<Rightarrow> ip_list_row list \<Rightarrow> bool \<times> ip_world" where
  "rows_loop w clientIp [] = (False, w)"
| "rows_loop w clientIp (row # rows) =
     (if row_IpType row = IPEntryTypeGroup then rows_loop w clientIp rows
      else (case MatchIPPattern w clientIp (row_Ip row) of
              (True, w') \<Rightarrow> (True, w')
            | (False, w') \<Rightarrow> rows_loop w' clientIp rows))"

definition matchDenyIP ::
  "ip_world \<Rightarrow> string \<Rightarrow> gobytes option \<Rightarrow> MatchSet option \<Rightarrow> string list \<Rightarrow> ip_list_row list \<Rightarrow> bool \<times> ip_world" where
  "matchDenyIP w clientIp parsedIp index groupCodes rows =
     (case index of
        Some m \<Rightarrow>
          if ms_Contains (Some m) parsedIp then (True, w)
          else (matchIPGroups (iw_store w) (iw_groups w) groupCodes parsedIp, w)
      | None \<Rightarrow>
          (case rows_loop w clientIp rows of
             (True, w') \<Rightarrow> (True, w')
           | (False, w') \<Rightarrow> (matchIPGroups (iw_store w') (iw_groups w') groupCodes parsedIp, w')))"

definition matchAllowIP ::
  "ip_world \<Rightarrow> string \<Rightarrow> gobytes option \<Rightarrow> MatchSet option \<Rightarrow> string list \<Rightarrow> ip_list_row list \<Rightarrow> bool \<times> ip_world" where
  "matchAllowIP w clientIp parsedIp index groupCodes rows =
     (case index of
        Some m \<Rightarrow>
          if ms_Contains (Some m) parsedIp then (True, w)
          else (matchIPGroups (iw_store w) (iw_groups w) groupCodes parsedIp, w)
      | None \<Rightarrow>
          (case rows_loop w clientIp rows of
             (True, w') \<Rightarrow> (True, w')
           | (False, w') \<Rightarrow> (matchIPGroups (iw_store w') (iw_groups w') groupCodes parsedIp, w')))"

definition list_block :: "string \<Rightarrow> string \<Rightarrow> detection_Result" where
  "list_block title content = no_result\<lparr>dr_IsBlock := True, dr_Title := title, dr_Content := content\<rparr>"

definition global_mark :: string where
  "global_mark = utf8_text [227, 128, 144, 229, 133, 168, 229, 177, 128, 227, 128, 145]"
definition ip_list_title :: string where
  "ip_list_title = ''IP'' @ utf8_text [233, 187, 145, 229, 144, 141, 229, 141, 149]"
definition ip_list_text :: string where
  "ip_list_text = utf8_text [230, 130, 168, 231, 154, 132, 232, 174, 191, 233, 151, 174, 232, 162, 171, 233, 152, 187, 230, 173, 162, 228, 186, 134]
     @ ''IP'' @ utf8_text [233, 153, 144, 229, 136, 182]"
definition threat_title :: string where
  "threat_title = utf8_text [229, 168, 129, 232, 131, 129, 230, 131, 133, 230, 138, 165] @ ''IP''"
definition threat_text :: string where
  "threat_text = utf8_text [230, 130, 168, 231, 154, 132, 232, 174, 191, 233, 151, 174, 232, 162, 171, 233, 152, 187, 230, 173, 162, 228, 186, 134,
     229, 168, 129, 232, 131, 129, 230, 131, 133, 230, 138, 165] @ ''IP'' @ utf8_text [233, 153, 144, 229, 136, 182]"

definition guarded :: "list_site option \<Rightarrow> list_site option" where
  "guarded g = (case g of None \<Rightarrow> None | Some s \<Rightarrow> if ls_GUARD_STATUS s = 1 then Some s else None)"

definition risk :: "WebLog \<Rightarrow> WebLog" where
  "risk lg = lg\<lparr>lg_RISK_LEVEL := 1\<rparr>"

definition CheckDenyIP :: "list_site \<Rightarrow> list_site option \<Rightarrow> ip_world \<Rightarrow> WebLog \<Rightarrow> detection_Result \<times> ip_world \<times> WebLog" where
  "CheckDenyIP h g w lg =
     (let clientIp = GetClientIPByMode (ls_IPMode h) (lg_NetSrcIp lg) (lg_SRC_IP lg); parsedIp = ParseIP clientIp;
          threat = (\<lambda>w. if ms_Contains (deref (iw_store w) (GetGlobalThreatMatcher (iw_threat w))) parsedIp
                        then (list_block threat_title threat_text, w, risk lg) else (no_result, w, lg))
      in case matchDenyIP w clientIp parsedIp (ls_IPBlockIndex h) (ls_IPBlockGroupCodes h) (ls_IPBlockLists h) of
           (True, w1) \<Rightarrow> (list_block ip_list_title ip_list_text, w1, risk lg)
         | (False, w1) \<Rightarrow>
             (case guarded g of
                None \<Rightarrow> threat w1
              | Some s \<Rightarrow>
                  (case matchDenyIP w1 clientIp parsedIp (ls_IPBlockIndex s) (ls_IPBlockGroupCodes s) (ls_IPBlockLists s) of
                     (True, w2) \<Rightarrow> (list_block (global_mark @ ip_list_title) ip_list_text, w2, risk lg)
                   | (False, w2) \<Rightarrow> threat w2)))"

definition jump :: detection_Result where
  "jump = no_result\<lparr>dr_JumpGuardResult := True\<rparr>"

definition CheckAllowIP :: "list_site \<Rightarrow> list_site option \<Rightarrow> ip_world \<Rightarrow> WebLog \<Rightarrow> detection_Result \<times> ip_world" where
  "CheckAllowIP h g w lg =
     (let clientIp = GetClientIPByMode (ls_IPMode h) (lg_NetSrcIp lg) (lg_SRC_IP lg); parsedIp = ParseIP clientIp
      in case matchAllowIP w clientIp parsedIp (ls_IPWhiteIndex h) (ls_IPWhiteGroupCodes h) (ls_IPWhiteLists h) of
           (True, w1) \<Rightarrow> (jump, w1)
         | (False, w1) \<Rightarrow>
             (case guarded g of
                None \<Rightarrow> (no_result, w1)
              | Some s \<Rightarrow>
                  (case matchAllowIP w1 clientIp parsedIp (ls_IPWhiteIndex s) (ls_IPWhiteGroupCodes s) (ls_IPWhiteLists s) of
                     (True, w2) \<Rightarrow> (jump, w2)
                   | (False, w2) \<Rightarrow> (no_result, w2))))"

subsection \<open>Path lists\<close>

text \<open>A row is its kind of comparison and its text; the kinds are equal, prefix, suffix and substring.\<close>

definition cmp_equal :: string where "cmp_equal = utf8_text [231, 173, 137, 228, 186, 142]"
definition cmp_prefix :: string where "cmp_prefix = utf8_text [229, 137, 141, 231, 188, 128, 229, 140, 185, 233, 133, 141]"
definition cmp_suffix :: string where "cmp_suffix = utf8_text [229, 144, 142, 231, 188, 128, 229, 140, 185, 233, 133, 141]"
definition cmp_contains :: string where "cmp_contains = utf8_text [229, 140, 133, 229, 144, 171, 229, 140, 185, 233, 133, 141]"

definition url_row_matches :: "string \<Rightarrow> string \<times> string \<Rightarrow> bool" where
  "url_row_matches lowerURL row =
     (case row of (kind, rule) \<Rightarrow>
        let lowerRule = ToLower rule
        in (kind = cmp_equal \<and> lowerRule = lowerURL) \<or> (kind = cmp_prefix \<and> HasPrefix lowerURL lowerRule) \<or>
           (kind = cmp_suffix \<and> HasSuffix lowerURL lowerRule) \<or> (kind = cmp_contains \<and> StrContains lowerURL lowerRule))"

definition url_list_title :: string where
  "url_list_title = ''URL'' @ utf8_text [233, 187, 145, 229, 144, 141, 229, 141, 149]"
definition url_list_text :: string where
  "url_list_text = utf8_text [230, 130, 168, 231, 154, 132, 232, 174, 191, 233, 151, 174, 232, 162, 171, 233, 152, 187, 230, 173, 162, 228, 186, 134]
     @ ''URL'' @ utf8_text [233, 153, 144, 229, 136, 182]"

definition CheckDenyURL :: "list_site \<Rightarrow> list_site option \<Rightarrow> WebLog \<Rightarrow> detection_Result \<times> WebLog" where
  "CheckDenyURL h g lg =
     (let lowerURL = ToLower (lg_URL lg)
      in if list_ex (url_row_matches lowerURL) (ls_UrlBlockLists h) then (list_block url_list_title url_list_text, risk lg)
         else
           (case guarded g of
              None \<Rightarrow> (no_result, lg)
            | Some s \<Rightarrow>
                if list_ex (url_row_matches lowerURL) (ls_UrlBlockLists s)
                then (list_block (global_mark @ url_list_title) url_list_text, risk lg) else (no_result, lg)))"

definition CheckAllowURL :: "list_site \<Rightarrow> list_site option \<Rightarrow> WebLog \<Rightarrow> detection_Result" where
  "CheckAllowURL h g lg =
     (let lowerURL = ToLower (lg_URL lg);
          here = list_ex (url_row_matches lowerURL) (ls_UrlWhiteLists h);
          there = (case guarded g of None \<Rightarrow> False | Some s \<Rightarrow> list_ex (url_row_matches lowerURL) (ls_UrlWhiteLists s))
      in if here \<or> there then jump else no_result)"

subsection \<open>Payment callbacks\<close>

text \<open>\<open>IPNet.Contains\<close>; an IPv4 network may stand in an IPv6 one.\<close>

definition networkNumberAndMask :: "ip_net \<Rightarrow> (gobytes \<times> gobytes) option" where
  "networkNumberAndMask n =
     (case To4 (net_IP n) of
        Some v4 \<Rightarrow>
          if length (net_Mask n) = 4 then Some (v4, net_Mask n)
          else if length (net_Mask n) = 16 then Some (v4, drop 12 (net_Mask n)) else None
      | None \<Rightarrow> if length (net_IP n) = 16 \<and> length (net_Mask n) = 16 then Some (net_IP n, net_Mask n) else None)"

definition net_Contains :: "ip_net \<Rightarrow> gobytes \<Rightarrow> bool" where
  "net_Contains n ip =
     (let x = (case To4 ip of Some v4 \<Rightarrow> v4 | None \<Rightarrow> ip)
      in case networkNumberAndMask n of
           None \<Rightarrow> x = []
         | Some (nn, m) \<Rightarrow> length x = length nn \<and> and_bytes x m = and_bytes nn m)"

fun ranges_loop :: "gobytes \<Rightarrow> string list \<Rightarrow> bool" where
  "ranges_loop ip [] = False"
| "ranges_loop ip (r # rs) =
     (case ParseCIDR r of None \<Rightarrow> False | Some n \<Rightarrow> if net_Contains n ip then True else ranges_loop ip rs)"

definition CheckIPInRanges :: "string \<Rightarrow> string list \<Rightarrow> bool" where
  "CheckIPInRanges ip ipRanges = (case ParseIP ip of None \<Rightarrow> False | Some parsedIP \<Rightarrow> ranges_loop parsedIP ipRanges)"

definition CheckIPInCIDR :: "string \<Rightarrow> string \<Rightarrow> bool" where
  "CheckIPInCIDR ip ipRange =
     (if length (StrSplit (CHR ''/'') ipRange) \<noteq> 2 then ip = ipRange
      else (case ParseIP ip of None \<Rightarrow> False
            | Some parsedIP \<Rightarrow> (case ParseCIDR ipRange of None \<Rightarrow> False | Some n \<Rightarrow> net_Contains n parsedIP)))"

text \<open>The result is the name of the callback, \<open>None\<close> without one.\<close>

definition weixin_ips :: "string list" where
  "weixin_ips = [''175.24.214.208'', ''175.24.211.24'', ''175.24.213.135'', ''109.244.180.23'', ''114.132.203.119'', ''43.139.43.69'']"

definition weixin_ranges :: "string list" where
  "weixin_ranges = [''101.226.103.0/25'', ''140.207.54.0/25'', ''121.51.58.128/25'', ''183.3.234.0/25'', ''58.251.80.0/25'',
     ''121.51.30.128/25'', ''203.205.219.128/25'']"

definition WeixinPayBackIP :: "string \<Rightarrow> string option" where
  "WeixinPayBackIP ip =
     (if list_ex (\<lambda>v. ip = v) weixin_ips \<or> CheckIPInRanges ip weixin_ranges
      then Some (utf8_text [229, 190, 174, 228, 191, 161, 230, 148, 175, 228, 187, 152, 229, 155, 158, 232, 176, 131]) else None)"

definition alipay_ranges :: "string list" where
  "alipay_ranges = [''103.47.4.0/22'', ''103.52.196.0/22'', ''110.75.128.0/19'', ''110.75.224.0/19'', ''110.76.0.0/19'', ''110.76.48.0/20'',
     ''119.42.224.0/19'', ''203.209.224.0/19'', ''43.227.188.0/22'', ''45.113.40.0/22'', ''8.150.0.0/17'', ''2400:B200::/32'']"

definition AlipayPayBackIP :: "string \<Rightarrow> string option" where
  "AlipayPayBackIP ip =
     (if CheckIPInRanges ip alipay_ranges
      then Some (utf8_text [230, 148, 175, 228, 187, 152, 229, 174, 157, 229, 155, 158, 232, 176, 131]) else None)"

definition CheckCallBackIp :: "string \<Rightarrow> string option" where
  "CheckCallBackIp ip = (case WeixinPayBackIP ip of Some n \<Rightarrow> Some n | None \<Rightarrow> AlipayPayBackIP ip)"

definition CheckAllowCallBackIP :: "string \<Rightarrow> WebLog \<Rightarrow> detection_Result \<times> WebLog" where
  "CheckAllowCallBackIP proxyHeader lg =
     (case CheckCallBackIp (if proxyHeader = [] then lg_NetSrcIp lg else lg_SRC_IP lg) of
        None \<Rightarrow> (no_result, lg)
      | Some name \<Rightarrow> (jump, lg\<lparr>lg_GUEST_IDENTIFICATION := name\<rparr>))"

section \<open>Properties\<close>

lemma deny_allow_same: "matchAllowIP = matchDenyIP"
  by (intro ext) (simp add: matchAllowIP_def matchDenyIP_def)

definition same_tables :: "ip_world \<Rightarrow> ip_world \<Rightarrow> bool" where
  "same_tables w w' \<longleftrightarrow> iw_store w' = iw_store w \<and> iw_groups w' = iw_groups w \<and> iw_threat w' = iw_threat w"

lemma same_tables_simps [simp]: "same_tables w w" "same_tables w (w\<lparr>iw_patterns := c\<rparr>)"
  by (simp_all add: same_tables_def)

lemma same_tables_trans: "same_tables a b \<Longrightarrow> same_tables b c \<Longrightarrow> same_tables a c"
  by (simp add: same_tables_def)

lemma MatchIPPattern_ok:
  assumes "cache_ok (iw_patterns w)" "MatchIPPattern w ip raw = (b, w')" "TrimSpace ip = ip"
  shows "(b \<longleftrightarrow> (\<exists>p. ParsePatternLenient raw = Inr p \<and> Match p (ParseIP ip))) \<and> cache_ok (iw_patterns w') \<and> same_tables w w'"
proof -
  obtain m c where m: "MatchPatternStrCached (iw_patterns w) ip raw = (m, c)" by fastforce
  have "\<not> Match p None" for p by (simp add: Match_def)
  then show ?thesis
    using MatchPatternStrCached_ok [OF assms(1) m] assms(2,3) m
    by (cases "ParseIP ip") (auto simp: MatchIPPattern_def ParsePatternLenient_trim)
qed

lemma rows_loop_ok:
  "cache_ok (iw_patterns w) \<Longrightarrow> TrimSpace ip = ip \<Longrightarrow> rows_loop w ip rows = (b, w') \<Longrightarrow>
   (b \<longleftrightarrow> list_matches (row_ips rows) (ParseIP ip)) \<and> cache_ok (iw_patterns w') \<and> same_tables w w'"
proof (induction rows arbitrary: w)
  case Nil
  then show ?case by (simp add: list_matches_def row_ips_def)
next
  case (Cons row rows)
  show ?case
  proof (cases "row_IpType row = IPEntryTypeGroup")
    case True
    with Cons show ?thesis by (auto simp: list_matches_def row_ips_def)
  next
    case False
    obtain b1 w1 where m: "MatchIPPattern w ip (row_Ip row) = (b1, w1)" by fastforce
    note ok = MatchIPPattern_ok [OF Cons.prems(1) m Cons.prems(2)]
    show ?thesis
    proof (cases b1)
      case True
      with False Cons.prems(3) m ok show ?thesis by (auto simp: list_matches_def row_ips_def)
    next
      case no: False
      with False Cons.prems(3) m have "rows_loop w1 ip rows = (b, w')" by simp
      with Cons.IH [of w1] Cons.prems(2) ok no False show ?thesis
        by (auto simp: list_matches_def row_ips_def intro: same_tables_trans)
    qed
  qed
qed

text \<open>
  The specification of a list: an entry is a pattern that matches, or the list names a group whose published set contains
  the address. The lists of a site are in order when their index, where there is one, was built from the rows.
\<close>

definition listed :: "ip_world \<Rightarrow> ip_list_row list \<Rightarrow> gobytes option \<Rightarrow> bool" where
  "listed w rows ip \<longleftrightarrow> list_matches (row_ips rows) ip \<or>
     (\<exists>r \<in> set rows. row_IpType r = IPEntryTypeGroup \<and> row_GroupCode r \<noteq> [] \<and>
        ms_Contains (deref (iw_store w) (GetGroupMatcher (iw_groups w) (row_GroupCode r))) ip)"

definition block_lists_ok :: "list_site \<Rightarrow> bool" where
  "block_lists_ok s \<longleftrightarrow> (ls_IPBlockIndex s = None \<or> ls_IPBlockIndex s = BuildIPBlockIndex (ls_IPBlockLists s)) \<and>
     ls_IPBlockGroupCodes s = ExtractBlockGroupCodes (ls_IPBlockLists s)"

definition white_lists_ok :: "list_site \<Rightarrow> bool" where
  "white_lists_ok s \<longleftrightarrow> (ls_IPWhiteIndex s = None \<or> ls_IPWhiteIndex s = BuildIPAllowIndex (ls_IPWhiteLists s)) \<and>
     ls_IPWhiteGroupCodes s = ExtractAllowGroupCodes (ls_IPWhiteLists s)"

lemma listed_same: "same_tables w w' \<Longrightarrow> listed w' rows ip = listed w rows ip"
  by (simp add: listed_def same_tables_def)

lemma groups_listed:
  "matchIPGroups (iw_store w) (iw_groups w) (extract_codes rows []) ip \<longleftrightarrow>
   (\<exists>r \<in> set rows. row_IpType r = IPEntryTypeGroup \<and> row_GroupCode r \<noteq> [] \<and>
      ms_Contains (deref (iw_store w) (GetGroupMatcher (iw_groups w) (row_GroupCode r))) ip)"
  by (auto simp: matchIPGroups_def list_ex_iff extract_codes_set)

lemma matchDenyIP_listed:
  assumes "cache_ok (iw_patterns w)" "TrimSpace ip = ip"
    "index = None \<or> index = BuildIPBlockIndex rows" "codes = extract_codes rows []"
    "matchDenyIP w ip (ParseIP ip) index codes rows = (b, w')"
  shows "(b \<longleftrightarrow> listed w rows (ParseIP ip)) \<and> cache_ok (iw_patterns w') \<and> same_tables w w'"
proof (cases index)
  case None
  obtain b1 w1 where l: "rows_loop w ip rows = (b1, w1)" by fastforce
  note ok = rows_loop_ok [OF assms(1,2) l]
  show ?thesis
  proof (cases b1)
    case True
    with None l ok assms(5) show ?thesis by (simp add: matchDenyIP_def listed_def)
  next
    case False
    then have "b = matchIPGroups (iw_store w1) (iw_groups w1) codes (ParseIP ip)" "w' = w1"
      using None l assms(5) by (auto simp: matchDenyIP_def)
    with False ok assms(4) groups_listed [of w1 rows "ParseIP ip"] show ?thesis
      by (simp add: listed_def same_tables_def)
  qed
next
  case (Some m)
  then have m: "m = BuildMatchSet (row_ips rows)" using assms(3) by (auto simp: BuildIPBlockIndex_def split: if_splits)
  have w': "w' = w" and b: "b \<longleftrightarrow> ms_Contains (Some m) (ParseIP ip) \<or> matchIPGroups (iw_store w) (iw_groups w) codes (ParseIP ip)"
    using Some assms(5) by (auto simp: matchDenyIP_def split: if_splits)
  show ?thesis
    unfolding w' b m match_set.has_build assms(4) groups_listed using assms(1) by (simp add: listed_def)
qed

lemmas matchAllowIP_listed = matchDenyIP_listed [folded deny_allow_same]

lemma deny_side:
  assumes "block_lists_ok s" "cache_ok (iw_patterns v)" "same_tables w v" "TrimSpace ip = ip"
  shows "\<exists>b w'. matchDenyIP v ip (ParseIP ip) (ls_IPBlockIndex s) (ls_IPBlockGroupCodes s) (ls_IPBlockLists s) = (b, w') \<and>
      (b \<longleftrightarrow> listed w (ls_IPBlockLists s) (ParseIP ip)) \<and> cache_ok (iw_patterns w') \<and> same_tables w w'"
proof -
  obtain b w' where r: "matchDenyIP v ip (ParseIP ip) (ls_IPBlockIndex s) (ls_IPBlockGroupCodes s) (ls_IPBlockLists s) = (b, w')" by fastforce
  have "(b \<longleftrightarrow> listed v (ls_IPBlockLists s) (ParseIP ip)) \<and> cache_ok (iw_patterns w') \<and> same_tables v w'"
    using matchDenyIP_listed [OF assms(2,4) _ _ r] assms(1) by (simp add: block_lists_ok_def ExtractBlockGroupCodes_def)
  then show ?thesis using r listed_same [OF assms(3)] same_tables_trans [OF assms(3)] by auto
qed

lemma allow_side:
  assumes "white_lists_ok s" "cache_ok (iw_patterns v)" "same_tables w v" "TrimSpace ip = ip"
  shows "\<exists>b w'. matchAllowIP v ip (ParseIP ip) (ls_IPWhiteIndex s) (ls_IPWhiteGroupCodes s) (ls_IPWhiteLists s) = (b, w') \<and>
      (b \<longleftrightarrow> listed w (ls_IPWhiteLists s) (ParseIP ip)) \<and> cache_ok (iw_patterns w') \<and> same_tables w w'"
proof -
  have "BuildIPAllowIndex = BuildIPBlockIndex" by (intro ext) (simp add: BuildIPAllowIndex_def BuildIPBlockIndex_def)
  then have "block_lists_ok (s\<lparr>ls_IPBlockIndex := ls_IPWhiteIndex s, ls_IPBlockGroupCodes := ls_IPWhiteGroupCodes s, ls_IPBlockLists := ls_IPWhiteLists s\<rparr>)"
    using assms(1) by (simp add: block_lists_ok_def white_lists_ok_def ExtractAllowGroupCodes_def ExtractBlockGroupCodes_def)
  from deny_side [OF this assms(2-4)] show ?thesis by (simp add: deny_allow_same)
qed

lemma guarded_cases: "guarded g = Some s \<longleftrightarrow> g = Some s \<and> ls_GUARD_STATUS s = 1"
  by (auto simp: guarded_def split: option.splits)

lemma list_block_simps [simp]:
  "dr_IsBlock (list_block t c)" "\<not> dr_IsBlock no_result" "dr_JumpGuardResult jump" "\<not> dr_JumpGuardResult no_result"
  by (simp_all add: list_block_def no_result_def jump_def)

lemma CheckDenyIP_exact:
  assumes "cache_ok (iw_patterns w)" "block_lists_ok h" "\<forall>s. g = Some s \<longrightarrow> block_lists_ok s"
    "ip = GetClientIPByMode (ls_IPMode h) (lg_NetSrcIp lg) (lg_SRC_IP lg)" "TrimSpace ip = ip"
    "CheckDenyIP h g w lg = (res, w1, lg1)"
  shows "(dr_IsBlock res \<longleftrightarrow> listed w (ls_IPBlockLists h) (ParseIP ip) \<or>
      (\<exists>s. guarded g = Some s \<and> listed w (ls_IPBlockLists s) (ParseIP ip)) \<or>
      ms_Contains (deref (iw_store w) (iw_threat w)) (ParseIP ip)) \<and> same_tables w w1 \<and> cache_ok (iw_patterns w1)"
proof -
  obtain b v where l: "matchDenyIP w ip (ParseIP ip) (ls_IPBlockIndex h) (ls_IPBlockGroupCodes h) (ls_IPBlockLists h) = (b, v)"
    "b \<longleftrightarrow> listed w (ls_IPBlockLists h) (ParseIP ip)" "cache_ok (iw_patterns v)" "same_tables w v"
    using deny_side [OF assms(2,1) same_tables_simps(1) assms(5)] by blast
  have threat: "same_tables w u \<Longrightarrow> ms_Contains (deref (iw_store u) (GetGlobalThreatMatcher (iw_threat u))) (ParseIP ip) \<longleftrightarrow>
      ms_Contains (deref (iw_store w) (iw_threat w)) (ParseIP ip)" for u
    by (simp add: same_tables_def GetGlobalThreatMatcher_def)
  note run = assms(6) [unfolded CheckDenyIP_def Let_def assms(4) [symmetric]]
  show ?thesis
  proof (cases b)
    case True
    with run l show ?thesis by auto
  next
    case False
    show ?thesis
    proof (cases "guarded g")
      case None
      with run l False threat [OF l(4)] show ?thesis by (auto split: if_splits)
    next
      case (Some s)
      then have "block_lists_ok s" using assms(3) guarded_cases by metis
      then obtain c u where r: "matchDenyIP v ip (ParseIP ip) (ls_IPBlockIndex s) (ls_IPBlockGroupCodes s) (ls_IPBlockLists s) = (c, u)"
        "c \<longleftrightarrow> listed w (ls_IPBlockLists s) (ParseIP ip)" "cache_ok (iw_patterns u)" "same_tables w u"
        using deny_side [OF _ l(3,4) assms(5)] by blast
      with run l False Some threat [OF r(4)] show ?thesis by (cases c) (auto split: if_splits)
    qed
  qed
qed

lemma CheckAllowIP_exact:
  assumes "cache_ok (iw_patterns w)" "white_lists_ok h" "\<forall>s. g = Some s \<longrightarrow> white_lists_ok s"
    "ip = GetClientIPByMode (ls_IPMode h) (lg_NetSrcIp lg) (lg_SRC_IP lg)" "TrimSpace ip = ip"
    "CheckAllowIP h g w lg = (res, w1)"
  shows "(dr_JumpGuardResult res \<longleftrightarrow> listed w (ls_IPWhiteLists h) (ParseIP ip) \<or>
      (\<exists>s. guarded g = Some s \<and> listed w (ls_IPWhiteLists s) (ParseIP ip))) \<and> same_tables w w1 \<and> cache_ok (iw_patterns w1)"
proof -
  obtain b v where l: "matchAllowIP w ip (ParseIP ip) (ls_IPWhiteIndex h) (ls_IPWhiteGroupCodes h) (ls_IPWhiteLists h) = (b, v)"
    "b \<longleftrightarrow> listed w (ls_IPWhiteLists h) (ParseIP ip)" "cache_ok (iw_patterns v)" "same_tables w v"
    using allow_side [OF assms(2,1) same_tables_simps(1) assms(5)] by blast
  note run = assms(6) [unfolded CheckAllowIP_def Let_def assms(4) [symmetric]]
  show ?thesis
  proof (cases "b \<or> guarded g = None")
    case True
    with run l show ?thesis by (cases b) auto
  next
    case False
    then obtain s where s: "guarded g = Some s" by auto
    then have "white_lists_ok s" using assms(3) guarded_cases by metis
    then obtain c u where r: "matchAllowIP v ip (ParseIP ip) (ls_IPWhiteIndex s) (ls_IPWhiteGroupCodes s) (ls_IPWhiteLists s) = (c, u)"
      "c \<longleftrightarrow> listed w (ls_IPWhiteLists s) (ParseIP ip)" "cache_ok (iw_patterns u)" "same_tables w u"
      using allow_side [OF _ l(3,4) assms(5)] by blast
    with run l False s show ?thesis by (cases c) auto
  qed
qed

text \<open>
  C6. A client is refused by the address lists exactly when its address, taken by the site's mode, is listed by the
  site, by the global site while its protection is on, or in the published threat set: for compiled indexes and for the
  linear search alike, with patterns of all four kinds and with the groups as they are published at that moment, and
  the refusal changes no table. The white list answers by the same rule without the threat set.
\<close>

theorem address_lists_exact:
  assumes "cache_ok (iw_patterns w)" "block_lists_ok h" "white_lists_ok h"
    "\<forall>s. g = Some s \<longrightarrow> block_lists_ok s \<and> white_lists_ok s"
    "ip = GetClientIPByMode (ls_IPMode h) (lg_NetSrcIp lg) (lg_SRC_IP lg)" "TrimSpace ip = ip"
    "CheckDenyIP h g w lg = (res, w1, lg1)" "CheckAllowIP h g w lg = (ares, w2)"
  shows "(dr_IsBlock res \<longleftrightarrow> listed w (ls_IPBlockLists h) (ParseIP ip) \<or>
      (\<exists>s. g = Some s \<and> ls_GUARD_STATUS s = 1 \<and> listed w (ls_IPBlockLists s) (ParseIP ip)) \<or>
      ms_Contains (deref (iw_store w) (iw_threat w)) (ParseIP ip)) \<and>
    (dr_JumpGuardResult ares \<longleftrightarrow> listed w (ls_IPWhiteLists h) (ParseIP ip) \<or>
      (\<exists>s. g = Some s \<and> ls_GUARD_STATUS s = 1 \<and> listed w (ls_IPWhiteLists s) (ParseIP ip))) \<and>
    same_tables w w1 \<and> same_tables w w2 \<and> cache_ok (iw_patterns w1) \<and> cache_ok (iw_patterns w2)"
proof -
  have "\<forall>s. g = Some s \<longrightarrow> block_lists_ok s" "\<forall>s. g = Some s \<longrightarrow> white_lists_ok s" using assms(4) by simp_all
  with CheckDenyIP_exact [OF assms(1,2) _ assms(5-7)] CheckAllowIP_exact [OF assms(1,3) _ assms(5,6,8)]
  show ?thesis by (simp only: guarded_cases) blast
qed

definition demo_ip_row :: ip_list_row where
  "demo_ip_row = \<lparr>row_Ip = ''10.*.1.*'', row_IpType = [], row_GroupCode = []\<rparr>"

definition demo_list_site :: list_site where
  "demo_list_site = \<lparr>ls_IPMode = ''nic'', ls_GUARD_STATUS = 1, ls_IPBlockIndex = BuildIPBlockIndex [demo_ip_row], ls_IPBlockGroupCodes = [],
     ls_IPBlockLists = [demo_ip_row], ls_IPWhiteIndex = None, ls_IPWhiteGroupCodes = [], ls_IPWhiteLists = [],
     ls_UrlBlockLists = [], ls_UrlWhiteLists = []\<rparr>"

definition demo_ip_world :: ip_world where
  "demo_ip_world = \<lparr>iw_store = (\<lambda>_. newMatchSet), iw_groups = None, iw_threat = None, iw_patterns = \<lparr>pc_map = Map.empty, pc_n = 0\<rparr>\<rparr>"

definition demo_client :: WebLog where
  "demo_client = \<lparr>lg_SRC_IP = ''10.9.1.7'', lg_NetSrcIp = ''10.9.1.7'', lg_URL = ''/'', lg_COUNTRY = [], lg_PROVINCE = [], lg_CITY = [],
     lg_IsBot = 0, lg_BotVerifyStrong = 0, lg_CONTENT_LENGTH = 0, lg_ResHeader = [], lg_STATUS_CODE = 0, lg_RES_CONTENT_LENGTH = 0,
     lg_TimeSpent = 0, lg_BodyFields = [], lg_BodyValues = [], lg_RISK_LEVEL = 0, lg_RULE = [], lg_GUEST_IDENTIFICATION = [],
     lg_LogOnlyMode = 0, lg_GeoUnresolved = False\<rparr>"

theorem address_lists_exact_witness:
  "dr_IsBlock (fst (CheckDenyIP demo_list_site None demo_ip_world demo_client)) \<and>
   \<not> dr_JumpGuardResult (fst (CheckAllowIP demo_list_site None demo_ip_world demo_client))"
proof -
  obtain res w1 lg1 where d: "CheckDenyIP demo_list_site None demo_ip_world demo_client = (res, w1, lg1)" by (metis surj_pair)
  obtain ares w2 where a: "CheckAllowIP demo_list_site None demo_ip_world demo_client = (ares, w2)" by fastforce
  have c: "GetClientIPByMode (ls_IPMode demo_list_site) (lg_NetSrcIp demo_client) (lg_SRC_IP demo_client) = ''10.9.1.7''"
    by (simp add: GetClientIPByMode_def demo_list_site_def demo_client_def)
  have ok: "cache_ok (iw_patterns demo_ip_world)" "block_lists_ok demo_list_site" "white_lists_ok demo_list_site"
    by (simp_all add: demo_ip_world_def cache_ok_def block_lists_ok_def white_lists_ok_def demo_list_site_def
        ExtractBlockGroupCodes_def ExtractAllowGroupCodes_def demo_ip_row_def IPEntryTypeGroup_def)
  have t: "TrimSpace ''10.9.1.7'' = ''10.9.1.7''" by (simp add: go_str_simps)
  have ip: "ParseIP ''10.9.1.7'' = Some (v4InV6Prefix @ [10, 9, 1, 7])"
    by (simp add: ParseIP_def ParseAddr_def parseIPv4_def go_str_simps)
  have p: "ParsePatternLenient ''10.*.1.*'' = Inr (wildcard_pattern 4 [10, 0, 1, 0] [255, 0, 255, 0] ''10.*.1.*'')"
    by (simp add: ipset_simps go_str_simps)
  have "Match (wildcard_pattern 4 [10, 0, 1, 0] [255, 0, 255, 0] ''10.*.1.*'') (ParseIP ''10.9.1.7'')"
    by (simp add: ip Match_def wildcard_pattern_def family_bytes_def To4_def masked_match_def upt_rec)
  with p have "listed demo_ip_world (ls_IPBlockLists demo_list_site) (ParseIP ''10.9.1.7'')"
    by (auto simp: listed_def list_matches_def row_ips_def demo_list_site_def demo_ip_row_def IPEntryTypeGroup_def)
  moreover have "\<not> listed demo_ip_world (ls_IPWhiteLists demo_list_site) (ParseIP ''10.9.1.7'')"
    by (simp add: listed_def list_matches_def row_ips_def demo_list_site_def)
  ultimately show ?thesis
    using address_lists_exact [OF ok _ c [symmetric] t d a] d a by simp
qed

text \<open>
  The exemption of payment callbacks reads another address than all other checks: once a proxy header is configured for
  the program it takes the address from the header, also on a site whose mode is the network address.
\<close>

lemma callback_ignores_ip_mode:
  "lg_SRC_IP lg = ''175.24.214.208'' \<Longrightarrow> proxyHeader \<noteq> [] \<Longrightarrow> dr_JumpGuardResult (fst (CheckAllowCallBackIP proxyHeader lg))"
  by (simp add: CheckAllowCallBackIP_def CheckCallBackIp_def WeixinPayBackIP_def weixin_ips_def)

end
