(* ===== verification/Engine_Chain.thy ===== *)
theory Engine_Chain
  imports Cc_Check Check_Rule Ip_Check
begin

text \<open>
  The guard block of \<open>WafEngine.ServeHTTP\<close> in wafenginecore/wafengine.go: the order in which a request passes the
  plugins, the white lists, the bans in force, the black lists, the custom rules, the detectors and the captcha gate, and what each
  decision does.

  The black and white lists, the bans, the CC detection, the custom rules and the marks of the captcha gate are the models of
  the other theories. The remaining detectors (plugins, crawlers, the content detectors, the AI score, OWASP, referrer, CSRF and
  upload checks) are arguments, functions on the state, so that what is shown holds whatever they answer. Pages sent to the
  client and log entries written to the queue are not modelled; an outcome says which of them it is.
\<close>

subsection \<open>State and configuration\<close>

record HostsDefense =
  DEFENSE_BOT :: int
  DEFENSE_SQLI :: int
  DEFENSE_XSS :: int
  DEFENSE_SCAN :: int
  DEFENSE_RCE :: int
  DEFENSE_SENSITIVE :: int
  DEFENSE_DIR_TRAVERSAL :: int
  DEFENSE_OWASP_SET :: int
  DEFENSE_AI :: int

record CaptchaConfig =
  IsEnableCaptcha :: int
  PathPrefix :: string
  ExcludeURLs :: string

record HostSafe =
  hs_cc :: cc_host
  hs_Rule :: "RuleHelper option"
  hs_lists :: list_site
  hs_Defense :: HostsDefense
  hs_Captcha :: CaptchaConfig

record 'l engine_world =
  ew_cc :: "(waf_rec, 'l) cc_world"
  ew_ip :: ip_world

record engine_config =
  GCONFIG_RULE_CHAIN_MODE :: int
  GCONFIG_AI_ENABLE :: int
  GCONFIG_RECORD_ENABLE_OWASP :: int
  GCONFIG_RECORD_PROXY_HEADER :: string
  ec_ipban :: ip_ban_config
  ec_captcha :: captcha_globals

text \<open>The site's code, address mode, guard status and log-only mode stand in \<open>hs_cc\<close>; the other checks read them from there.\<close>

definition rule_site_of :: "HostSafe \<Rightarrow> rule_site" where
  "rule_site_of h = \<lparr>rs_Code = ch_Code (hs_cc h), rs_IPMode = ch_IPMode (hs_cc h), rs_GUARD_STATUS = ch_GUARD_STATUS (hs_cc h),
     rs_LogOnlyMode = ch_LogOnlyMode (hs_cc h), rs_Rule = hs_Rule h\<rparr>"

definition list_site_of :: "HostSafe \<Rightarrow> list_site" where
  "list_site_of h = (hs_lists h)\<lparr>ls_IPMode := ch_IPMode (hs_cc h), ls_GUARD_STATUS := ch_GUARD_STATUS (hs_cc h)\<rparr>"

definition ew_log :: "'l engine_world \<Rightarrow> WebLog" where "ew_log w = cw_log (ew_cc w)"
definition ew_cache :: "'l engine_world \<Rightarrow> waf_cache option" where "ew_cache w = cw_cache (ew_cc w)"

definition set_log :: "WebLog \<Rightarrow> 'l engine_world \<Rightarrow> 'l engine_world" where
  "set_log lg w = w\<lparr>ew_cc := (ew_cc w)\<lparr>cw_log := lg\<rparr>\<rparr>"

definition set_cache :: "waf_cache option \<Rightarrow> 'l engine_world \<Rightarrow> 'l engine_world" where
  "set_cache c w = w\<lparr>ew_cc := (ew_cc w)\<lparr>cw_cache := c\<rparr>\<rparr>"

definition engine_ip :: "HostSafe \<Rightarrow> 'l engine_world \<Rightarrow> string" where
  "engine_ip h w = GetClientIPByMode (ch_IPMode (hs_cc h)) (lg_NetSrcIp (ew_log w)) (lg_SRC_IP (ew_log w))"

type_synonym 'l detector = "'l engine_world \<Rightarrow> detection_Result \<times> 'l engine_world"

subsection \<open>The modelled checks as detectors\<close>

definition deny_ip :: "HostSafe \<Rightarrow> HostSafe option \<Rightarrow> 'l detector" where
  "deny_ip h g w =
     (case CheckDenyIP (list_site_of h) (map_option list_site_of g) (ew_ip w) (ew_log w) of
        (res, ip, lg) \<Rightarrow> (res, (set_log lg w)\<lparr>ew_ip := ip\<rparr>))"

definition deny_url :: "HostSafe \<Rightarrow> HostSafe option \<Rightarrow> 'l detector" where
  "deny_url h g w =
     (case CheckDenyURL (list_site_of h) (map_option list_site_of g) (ew_log w) of (res, lg) \<Rightarrow> (res, set_log lg w))"

definition allow_ip :: "HostSafe \<Rightarrow> HostSafe option \<Rightarrow> 'l detector" where
  "allow_ip h g w =
     (case CheckAllowIP (list_site_of h) (map_option list_site_of g) (ew_ip w) (ew_log w) of (res, ip) \<Rightarrow> (res, w\<lparr>ew_ip := ip\<rparr>))"

definition allow_url :: "HostSafe \<Rightarrow> HostSafe option \<Rightarrow> 'l detector" where
  "allow_url h g w = (CheckAllowURL (list_site_of h) (map_option list_site_of g) (ew_log w), w)"

definition allow_callback :: "engine_config \<Rightarrow> 'l detector" where
  "allow_callback cfg w =
     (case CheckAllowCallBackIP (GCONFIG_RECORD_PROXY_HEADER cfg) (ew_log w) of (res, lg) \<Rightarrow> (res, set_log lg w))"

definition rule_check :: "engine_config \<Rightarrow> int \<Rightarrow> HostSafe \<Rightarrow> HostSafe option \<Rightarrow> 'l detector" where
  "rule_check cfg now h g w =
     (case CheckRule (ec_ipban cfg) now (rule_site_of h) (map_option rule_site_of g) (ew_cache w, ew_log w) of
        (res, c, lg) \<Rightarrow> (res, set_cache c (set_log lg w)))"

definition cc_check ::
  "'l token_bucket \<Rightarrow> (string \<Rightarrow> WebLog \<Rightarrow> nat option) \<Rightarrow> int \<Rightarrow> http_request \<Rightarrow> HostSafe \<Rightarrow> HostSafe option \<Rightarrow> 'l detector" where
  "cc_check tb engine now r h g w =
     (case CheckCC tb engine now r (hs_cc h) (map_option hs_cc g) (ew_cc w) of (res, cc) \<Rightarrow> (res, w\<lparr>ew_cc := cc\<rparr>))"

subsection \<open>One check in the chain\<close>

record 'l chain =
  sk_All :: bool
  sk_Modules :: "string list"
  sk_world :: "'l engine_world"

definition ruleSkip :: "'l chain \<Rightarrow> string \<Rightarrow> bool" where
  "ruleSkip st m \<longleftrightarrow> sk_All st \<or> m \<in> set (sk_Modules st)"

definition with_log :: "(WebLog \<Rightarrow> WebLog) \<Rightarrow> 'l chain \<Rightarrow> 'l chain" where
  "with_log f st = st\<lparr>sk_world := set_log (f (ew_log (sk_world st))) (sk_world st)\<rparr>"

definition allow_text :: string where
  "allow_text = utf8_text [232, 135, 170, 229, 174, 154, 228, 185, 137, 232, 167, 132, 229, 136, 153, 230, 148, 190, 232, 161, 140] @ '':''"
definition record_text :: string where
  "record_text = utf8_text [232, 135, 170, 229, 174, 154, 228, 185, 137, 232, 167, 132, 229, 136, 153, 232, 174, 176, 229, 189, 149] @ '':''"

text \<open>\<open>Some\<close> result is a request that was refused, and the handler returns.\<close>

definition handleBlock :: "int \<Rightarrow> 'l detector \<Rightarrow> 'l chain \<Rightarrow> detection_Result option \<times> 'l chain" where
  "handleBlock logOnlyMode checkFunc st0 =
     (case checkFunc (sk_world st0) of (res, w) \<Rightarrow>
        let st = st0\<lparr>sk_world := w\<rparr>
        in if dr_IsRuleAllow res then
             (None,
              with_log (\<lambda>lg. lg\<lparr>lg_RULE := allow_text @ dr_Title res\<rparr>)
                (st\<lparr>sk_All := sk_All st \<or> dr_JumpGuardResult res \<or> RuleSkipAll \<in> set (dr_SkipModules res),
                    sk_Modules := sk_Modules st @ filter (\<lambda>m. m \<noteq> RuleSkipAll) (dr_SkipModules res)\<rparr>))
           else if dr_IsLogOnly res then (None, with_log (\<lambda>lg. lg\<lparr>lg_RULE := record_text @ dr_Title res\<rparr>) st)
           else if dr_IsBlock res then
             (if logOnlyMode = 1 then (None, with_log (\<lambda>lg. lg\<lparr>lg_LogOnlyMode := 1, lg_RULE := dr_Title res\<rparr>) st)
              else (Some res, st))
           else (None, st))"

fun run_steps :: "int \<Rightarrow> (('l chain \<Rightarrow> bool) \<times> 'l detector) list \<Rightarrow> 'l chain \<Rightarrow> detection_Result option \<times> 'l chain" where
  "run_steps logOnlyMode [] st = (None, st)"
| "run_steps logOnlyMode ((cond, d) # steps) st =
     (if cond st
      then (case handleBlock logOnlyMode d st of
              (Some res, st') \<Rightarrow> (Some res, st')
            | (None, st') \<Rightarrow> run_steps logOnlyMode steps st')
      else run_steps logOnlyMode steps st)"

subsection \<open>The chain\<close>

fun white_list :: "'l detector list \<Rightarrow> 'l engine_world \<Rightarrow> bool \<times> 'l engine_world" where
  "white_list [] w = (False, w)"
| "white_list (d # ds) w =
     (case d w of (res, w') \<Rightarrow> if dr_JumpGuardResult res then (True, w') else white_list ds w')"

text \<open>A module is run when it is enabled and no allowance of a rule has named it.\<close>

definition module :: "(string \<Rightarrow> 'l detector) \<Rightarrow> bool \<Rightarrow> string \<Rightarrow> ('l chain \<Rightarrow> bool) \<times> 'l detector" where
  "module dets enabled m = (\<lambda>st. enabled \<and> \<not> ruleSkip st m, dets m)"

definition content_steps :: "(string \<Rightarrow> 'l detector) \<Rightarrow> HostsDefense \<Rightarrow> (('l chain \<Rightarrow> bool) \<times> 'l detector) list" where
  "content_steps dets d =
     [module dets (DEFENSE_BOT d = 1) ''BOT'', module dets (DEFENSE_SQLI d = 1) ''SQLI'', module dets (DEFENSE_XSS d = 1) ''XSS'',
      module dets (DEFENSE_SCAN d = 1) ''SCAN'', module dets (DEFENSE_RCE d = 1) ''RCE'', module dets (DEFENSE_DIR_TRAVERSAL d = 1) ''DIR'']"

definition late_steps :: "(string \<Rightarrow> 'l detector) \<Rightarrow> engine_config \<Rightarrow> HostsDefense \<Rightarrow> (('l chain \<Rightarrow> bool) \<times> 'l detector) list" where
  "late_steps dets cfg d =
     [module dets (GCONFIG_AI_ENABLE cfg = 1 \<and> DEFENSE_AI d = 1) ''AI'', module dets (DEFENSE_SENSITIVE d = 1) ''SENSITIVE'',
      module dets (GCONFIG_RECORD_ENABLE_OWASP cfg = 1 \<or> DEFENSE_OWASP_SET d = 1) ''OWASP'',
      module dets True ''ANTILEECH'', module dets True ''CSRF'', module dets True ''UPLOAD'']"

definition always :: "'l detector \<Rightarrow> ('l chain \<Rightarrow> bool) \<times> 'l detector" where
  "always d = (\<lambda>st. True, d)"

text \<open>\<open>rules\<close> and \<open>cc\<close> are the checks of the custom rules and of the request rate.\<close>

definition check_steps ::
  "engine_config \<Rightarrow> HostsDefense \<Rightarrow> (string \<Rightarrow> 'l detector) \<Rightarrow> 'l detector \<Rightarrow> 'l detector \<Rightarrow> (('l chain \<Rightarrow> bool) \<times> 'l detector) list" where
  "check_steps cfg d dets rules cc =
     (if GCONFIG_RULE_CHAIN_MODE cfg = 1 then [always rules] else []) @ content_steps dets d @
     [(\<lambda>st. \<not> ruleSkip st ''CC'', cc)] @
     (if GCONFIG_RULE_CHAIN_MODE cfg = 1 then [] else [always rules]) @ late_steps dets cfg d"

text \<open>
  What the guard block does with a request. \<open>Passed\<close>: it ends without an answer of its own, and the access gate (\<open>DoAccessGate\<close>, theory
  \<open>Access_Gate\<close>) comes next; it may still stop the request, on a site in log-only mode too.
\<close>

datatype outcome =
    Passed | Refused detection_Result | CCBanned string | RuleBanned | CaptchaPage

subsection \<open>The captcha gate\<close>

definition url_excluded :: "string \<Rightarrow> string \<Rightarrow> bool" where
  "url_excluded currentURL excludeURLs \<longleftrightarrow>
     excludeURLs \<noteq> [] \<and>
     list_ex (\<lambda>u. let e = TrimSpace (ToLower u) in e \<noteq> [] \<and> HasPrefix currentURL e) (StrSplit newline excludeURLs)"

definition not_challenged_text :: string where
  "not_challenged_text = '' / '' @ utf8_text [229, 145, 189, 228, 184, 173, 233, 170, 140, 232, 175, 129, 231, 160, 129, 230, 142, 146, 233, 153, 164] @ ''URL'' @
     utf8_text [239, 188, 140, 230, 156, 172, 230, 172, 161, 230, 156, 170, 230, 140, 145, 230, 136, 152]"
definition source_text :: string where
  "source_text = '' / '' @ utf8_text [228, 186, 186, 230, 156, 186, 233, 170, 140, 232, 175, 129, 230, 157, 165, 230, 186, 144] @ '':''"

definition put_cache :: "waf_cache option \<Rightarrow> 'l chain \<Rightarrow> 'l chain" where
  "put_cache c st = st\<lparr>sk_world := set_cache c (sk_world st)\<rparr>"

text \<open>What happens to a request without a pass: the pages of the captcha, an excluded path, or the challenge.\<close>

definition captcha_page :: "int \<Rightarrow> http_request \<Rightarrow> HostSafe \<Rightarrow> bool \<Rightarrow> string \<Rightarrow> 'l chain \<Rightarrow> outcome \<times> 'l chain" where
  "captcha_page now r h need ip st =
     (let cap = hs_Captcha h; currentURL = ToLower (hr_Path r);
          prefix = (if PathPrefix cap = [] then ''/samwaf_captcha'' else PathPrefix cap)
      in if HasPrefix currentURL (prefix @ ''/'') \<or> currentURL = prefix then (CaptchaPage, st)
         else if url_excluded currentURL (ExcludeURLs cap) then
           (Passed, if need then with_log (\<lambda>lg. lg\<lparr>lg_RULE := lg_RULE lg @ not_challenged_text\<rparr>) st else st)
         else if need then
           (case CaptchaRequireSource now (ch_Code (hs_cc h)) ip (ew_cache (sk_world st)) of
              (src, c) \<Rightarrow>
                (CaptchaPage,
                 if src = [] then put_cache c st
                 else with_log (\<lambda>lg. lg\<lparr>lg_RULE := lg_RULE lg @ source_text @ src\<rparr>) (put_cache c st)))
         else (CaptchaPage, st))"

text \<open>The cache exists while the engine serves requests; \<open>checkCaptchaToken\<close> relies on it, and without it no pass is found here.\<close>

definition token_ok :: "engine_config \<Rightarrow> int \<Rightarrow> http_request \<Rightarrow> HostSafe \<Rightarrow> WebLog \<Rightarrow> waf_cache option \<Rightarrow> bool \<times> waf_cache option" where
  "token_ok cfg now r h lg store =
     (case store of None \<Rightarrow> (False, None)
      | Some c \<Rightarrow> (case checkCaptchaToken (ec_captcha cfg) now r lg (ch_IPMode (hs_cc h)) c of (b, c') \<Rightarrow> (b, Some c')))"

definition captcha_gate :: "engine_config \<Rightarrow> int \<Rightarrow> http_request \<Rightarrow> HostSafe \<Rightarrow> 'l chain \<Rightarrow> outcome \<times> 'l chain" where
  "captcha_gate cfg now r h st =
     (let w = sk_world st; code = ch_Code (hs_cc h); ip = engine_ip h w
      in case IsCCCaptchaRequired now code ip (ew_cache w) of
           (need, c1) \<Rightarrow>
             if (IsEnableCaptcha (hs_Captcha h) = 1 \<or> need) \<and> \<not> ruleSkip st ''CAPTCHA'' then
               (case (if need then hasCaptchaPass now r ip c1 else (False, c1)) of
                  (pass, c2) \<Rightarrow>
                    (case token_ok cfg now r h (ew_log w) (if need \<and> pass then GrantCCCaptchaGrace now code ip c2 else c2) of
                       (True, c3) \<Rightarrow> (Passed, put_cache c3 st)
                     | (False, c3) \<Rightarrow> captcha_page now r h need ip (put_cache c3 st)))
             else (Passed, put_cache c1 st))"

subsection \<open>The guard\<close>

definition cc_ban_text :: string where "cc_ban_text = ''CC'' @ utf8_text [229, 176, 129, 231, 166, 129]"
definition rule_ban_text :: string where "rule_ban_text = utf8_text [232, 167, 132, 229, 136, 153, 229, 176, 129, 231, 166, 129]"

definition ban_recorded :: "string \<Rightarrow> 'l engine_world \<Rightarrow> 'l engine_world" where
  "ban_recorded t w = set_log ((ew_log w)\<lparr>lg_LogOnlyMode := 1, lg_RULE := t\<rparr>) w"

definition ban_stage :: "int \<Rightarrow> HostSafe \<Rightarrow> 'l engine_world \<Rightarrow> outcome option \<times> 'l engine_world" where
  "ban_stage now h w =
     (let lg = ew_log w; code = ch_Code (hs_cc h); mode = ch_IPMode (hs_cc h); logOnly = (ch_LogOnlyMode (hs_cc h) = 1)
      in case matchCCBan now code (lg_NetSrcIp lg) (lg_SRC_IP lg) mode (ew_cache w) of
           ((hitKey, banIP), c1) \<Rightarrow>
             if hitKey \<noteq> [] \<and> \<not> logOnly then
               (Some (CCBanned banIP), set_cache (map_option (\<lambda>c. snd (notifyCCBanOnce now hitKey c)) c1) w)
             else
               (let w1 = set_cache c1 w; w2 = (if hitKey \<noteq> [] then ban_recorded cc_ban_text w1 else w1)
                in case matchRuleBan now code (lg_NetSrcIp lg) (lg_SRC_IP lg) mode (ew_cache w2) of
                     ((ruleKey, _), c2) \<Rightarrow>
                       if ruleKey \<noteq> [] \<and> \<not> logOnly then (Some RuleBanned, set_cache c2 w2)
                       else (None, if ruleKey \<noteq> [] then ban_recorded rule_ban_text (set_cache c2 w2) else set_cache c2 w2)))"

definition deny_steps :: "HostSafe \<Rightarrow> HostSafe option \<Rightarrow> (('l chain \<Rightarrow> bool) \<times> 'l detector) list" where
  "deny_steps h g = [always (deny_ip h g), always (deny_url h g)]"

definition white_checks :: "engine_config \<Rightarrow> HostSafe \<Rightarrow> HostSafe option \<Rightarrow> 'l detector list" where
  "white_checks cfg h g = [allow_ip h g, allow_url h g, allow_callback cfg]"

definition guard ::
  "engine_config \<Rightarrow> int \<Rightarrow> http_request \<Rightarrow> HostSafe \<Rightarrow> HostSafe option \<Rightarrow> (string \<Rightarrow> 'l detector) \<Rightarrow> 'l detector \<Rightarrow> 'l detector
     \<Rightarrow> 'l engine_world \<Rightarrow> outcome \<times> 'l engine_world" where
  "guard cfg now r h g dets rules cc w0 =
     (let logOnly = ch_LogOnlyMode (hs_cc h)
      in if ch_GUARD_STATUS (hs_cc h) \<noteq> 1 then (Passed, w0)
         else
           (case handleBlock logOnly (dets ''PLUGIN'') \<lparr>sk_All = False, sk_Modules = [], sk_world = w0\<rparr> of
              (Some res, st1) \<Rightarrow> (Refused res, sk_world st1)
            | (None, st1) \<Rightarrow>
                (case white_list (white_checks cfg h g) (sk_world st1) of
                   (True, w2) \<Rightarrow> (Passed, w2)
                 | (False, w2) \<Rightarrow>
                     (case ban_stage now h w2 of
                        (Some out, w3) \<Rightarrow> (out, w3)
                      | (None, w3) \<Rightarrow>
                          (case run_steps logOnly (deny_steps h g @ check_steps cfg (hs_Defense h) dets rules cc) (st1\<lparr>sk_world := w3\<rparr>) of
                             (Some res, st4) \<Rightarrow> (Refused res, sk_world st4)
                           | (None, st4) \<Rightarrow> (case captcha_gate cfg now r h st4 of (out, st5) \<Rightarrow> (out, sk_world st5)))))))"

text \<open>The guard of the engine, with the modelled checks in place.\<close>

definition serve_guard ::
  "engine_config \<Rightarrow> 'l token_bucket \<Rightarrow> (string \<Rightarrow> WebLog \<Rightarrow> nat option) \<Rightarrow> int \<Rightarrow> http_request \<Rightarrow> HostSafe \<Rightarrow> HostSafe option
     \<Rightarrow> (string \<Rightarrow> 'l detector) \<Rightarrow> 'l engine_world \<Rightarrow> outcome \<times> 'l engine_world" where
  "serve_guard cfg tb engine now r h g dets w = guard cfg now r h g dets (rule_check cfg now h g) (cc_check tb engine now r h g) w"

section \<open>Properties\<close>

lemma handleBlock_log_only: "fst (handleBlock 1 d st) = None"
  by (simp add: handleBlock_def Let_def split: prod.splits)

lemma run_steps_log_only: "fst (run_steps 1 steps st) = None"
proof (induction steps arbitrary: st)
  case (Cons s steps)
  then show ?case using handleBlock_log_only [of "snd s" st] by (cases s) (auto split: prod.splits option.splits)
qed simp

lemma captcha_page_outcome: "fst (captcha_page now r h need ip st) \<in> {Passed, CaptchaPage}"
  by (simp add: captcha_page_def Let_def split: prod.splits)

lemma captcha_gate_outcome: "fst (captcha_gate cfg now r h st) \<in> {Passed, CaptchaPage}"
  unfolding captcha_gate_def Let_def using captcha_page_outcome by (force split: prod.split bool.split)

lemma ban_stage_log_only: "ch_LogOnlyMode (hs_cc h) = 1 \<Longrightarrow> fst (ban_stage now h w) = None"
  by (simp add: ban_stage_def Let_def split: prod.splits)

lemma run_steps_append:
  "run_steps lo (xs @ ys) st = (case run_steps lo xs st of (Some r, st') \<Rightarrow> (Some r, st') | (None, st') \<Rightarrow> run_steps lo ys st')"
proof (induction xs arbitrary: st)
  case (Cons x xs)
  then show ?case by (cases x) (auto split: prod.splits option.splits)
qed simp

text \<open>
  C27. In log-only mode the guard block refuses nobody, whatever its lists, its rules, the bans in force and its detectors say: it ends
  without an answer, or with the captcha page. What comes after the block, the access gate above all, does not look at this mode and
  is not part of the statement.
\<close>

theorem log_only_refuses_nobody:
  assumes "ch_LogOnlyMode (hs_cc h) = 1"
  shows "fst (guard cfg now r h g dets rules cc w) \<in> {Passed, CaptchaPage}"
proof (cases "ch_GUARD_STATUS (hs_cc h) = 1")
  case True
  obtain b st1 where p: "handleBlock 1 (dets ''PLUGIN'') \<lparr>sk_All = False, sk_Modules = [], sk_world = w\<rparr> = (b, st1)" by fastforce
  obtain wh w2 where l: "white_list (white_checks cfg h g) (sk_world st1) = (wh, w2)" by fastforce
  obtain o3 w3 where s: "ban_stage now h w2 = (o3, w3)" by fastforce
  obtain x st4 where c: "run_steps 1 (deny_steps h g @ check_steps cfg (hs_Defense h) dets rules cc) (st1\<lparr>sk_world := w3\<rparr>) = (x, st4)" by fastforce
  have "b = None" using handleBlock_log_only p by (metis fst_conv)
  moreover have "o3 = None" using ban_stage_log_only [OF assms] s by (metis fst_conv)
  moreover have "x = None" using run_steps_log_only c by (metis fst_conv)
  moreover have "fst (captcha_gate cfg now r h st4) \<in> {Passed, CaptchaPage}" by (rule captcha_gate_outcome)
  ultimately show ?thesis using p l s c by (cases wh) (simp_all add: guard_def True assms case_prod_beta)
qed (simp add: guard_def)

subsection \<open>Bans\<close>

lemma ew_simps [simp]:
  "ew_cache (set_cache c w) = c" "ew_cache (set_log lg w) = ew_cache w" "ew_log (set_cache c w) = ew_log w" "ew_log (set_log lg w) = lg"
  by (simp_all add: ew_cache_def ew_log_def set_cache_def set_log_def)

lemma ban_stage_spec:
  assumes "ew_cache w = Some c" "engine_ip h w = ip" "ip \<noteq> []" "ch_LogOnlyMode (hs_cc h) \<noteq> 1" "code = ch_Code (hs_cc h)"
  shows "fst (ban_stage now h w) =
    (if banned_at now code ip c then Some (CCBanned ip)
     else if visible now c (BuildRuleBanKey code ip) \<noteq> None then Some RuleBanned else None)"
proof -
  let ?net = "lg_NetSrcIp (ew_log w)" and ?src = "lg_SRC_IP (ew_log w)" and ?mode = "ch_IPMode (hs_cc h)"
  let ?f = "first_key now (CCBanLookupKeys code ip @ [LegacyCCBanKey ip]) c"
  have ip: "GetClientIPByMode ?mode ?net ?src = ip" using assms(2) by (simp add: engine_ip_def)
  obtain r c1 where f: "?f = (r, c1)" by fastforce
  define key where "key = (case r of None \<Rightarrow> [] | Some k \<Rightarrow> k)"
  have m: "matchCCBan now code ?net ?src ?mode (Some c) = ((key, ip), Some c1)"
    using ip assms(3) f by (simp add: matchCCBan_def Let_def key_def split: option.split)
  have key: "key \<noteq> [] \<longleftrightarrow> banned_at now code ip c" using matchCCBan_hit [OF ip assms(3), of now code c] m by simp
  have "c1 = snd ?f" using f by simp
  then have v: "visible now c1 k = visible now c k" for k using first_key_keeps [of now now] by simp
  obtain b c2 where i: "IsKeyExist now c1 (BuildRuleBanKey code ip) = (b, c2)" by fastforce
  have b: "b \<longleftrightarrow> visible now c (BuildRuleBanKey code ip) \<noteq> None"
    using IsKeyExist_visible [of now c1 "BuildRuleBanKey code ip"] i v by simp
  have "BuildRuleBanKey code ip \<noteq> []" by (simp add: BuildRuleBanKey_def CACHE_RULE_BAN_PRE_def)
  then have r: "matchRuleBan now code ?net ?src ?mode (Some c1) = ((if b then BuildRuleBanKey code ip else [], ip), Some c2)"
    "(if b then BuildRuleBanKey code ip else []) \<noteq> [] \<longleftrightarrow> b"
    using i ip assms(3) by (auto simp: matchRuleBan_def Let_def split: bool.splits)
  show ?thesis
    using m key r b assms(4) by (auto simp: ban_stage_def Let_def assms(1,5))
qed

lemma guard_stages:
  assumes "ch_GUARD_STATUS (hs_cc h) = 1" "st0 = \<lparr>sk_All = False, sk_Modules = [], sk_world = w\<rparr>"
    "handleBlock (ch_LogOnlyMode (hs_cc h)) (dets ''PLUGIN'') st0 = (None, st1)"
    "white_list (white_checks cfg h g) (sk_world st1) = (False, w2)" "ban_stage now h w2 = (None, w3)"
  shows "guard cfg now r h g dets rules cc w =
    (case run_steps (ch_LogOnlyMode (hs_cc h)) (deny_steps h g @ check_steps cfg (hs_Defense h) dets rules cc) (st1\<lparr>sk_world := w3\<rparr>) of
       (Some res, st4) \<Rightarrow> (Refused res, sk_world st4)
     | (None, st4) \<Rightarrow> (case captcha_gate cfg now r h st4 of (out, st5) \<Rightarrow> (out, sk_world st5)))"
  using assms by (simp add: guard_def)

text \<open>
  C1. Bans are enforced, and nothing else looks like one. On a site under protection the guard block answers a request as banned exactly
  when the request reaches the ban stage (the plugins let it pass, it is on no white list, the site is not in log-only mode)
  and a ban of its client on that site is in force in the cache, and it names that client; it answers as banned by a rule exactly when
  the request reaches that stage, there is no such ban and the key of a rule ban is in force. A request the plugins refuse is answered by
  them, and a request they let pass and a white list names leaves the block without an answer, whatever bans,
  lists, rules and detectors say. (The access gate, which follows the block, is another theory's.)
\<close>

theorem bans_enforced:
  assumes "ch_GUARD_STATUS (hs_cc h) = 1"
    "handleBlock (ch_LogOnlyMode (hs_cc h)) (dets ''PLUGIN'') \<lparr>sk_All = False, sk_Modules = [], sk_world = w\<rparr> = (plugin, st1)"
    "white_list (white_checks cfg h g) (sk_world st1) = (wh, w2)"
    "ew_cache w2 = Some c" "engine_ip h w2 = ip" "ip \<noteq> []" "code = ch_Code (hs_cc h)"
    "reached \<longleftrightarrow> plugin = None \<and> \<not> wh \<and> ch_LogOnlyMode (hs_cc h) \<noteq> 1"
    "out = fst (guard cfg now r h g dets rules cc w)"
  shows "(\<forall>x. out = CCBanned x \<longleftrightarrow> x = ip \<and> reached \<and> banned_at now code ip c) \<and>
    (out = RuleBanned \<longleftrightarrow> reached \<and> \<not> banned_at now code ip c \<and> visible now c (BuildRuleBanKey code ip) \<noteq> None) \<and>
    (\<forall>res. plugin = Some res \<longrightarrow> out = Refused res) \<and> (plugin = None \<and> wh \<longrightarrow> out = Passed)"
proof (cases "plugin = None \<and> \<not> wh")
  case False
  then consider res where "plugin = Some res" | "plugin = None" "wh" by (cases plugin) auto
  then have "(\<forall>res. plugin = Some res \<longrightarrow> out = Refused res) \<and> (plugin = None \<and> wh \<longrightarrow> out = Passed)"
    using assms(1-3,9) by cases (simp_all add: guard_def)
  then show ?thesis using False assms(8) by (cases plugin) auto
next
  case True
  obtain o3 w3 where s: "ban_stage now h w2 = (o3, w3)" by fastforce
  have p: "handleBlock (ch_LogOnlyMode (hs_cc h)) (dets ''PLUGIN'') \<lparr>sk_All = False, sk_Modules = [], sk_world = w\<rparr> = (None, st1)"
    and l: "white_list (white_checks cfg h g) (sk_world st1) = (False, w2)" using assms(2,3) True by simp_all
  have spec: "o3 = (if ch_LogOnlyMode (hs_cc h) = 1 then None else if banned_at now code ip c then Some (CCBanned ip)
     else if visible now c (BuildRuleBanKey code ip) \<noteq> None then Some RuleBanned else None)"
    using ban_stage_spec [OF assms(4-6) _ assms(7), of now] ban_stage_log_only [of h now w2] s by (auto simp: split: if_splits)
  show ?thesis
  proof (cases o3)
    case None
    have n: "ban_stage now h w2 = (None, w3)" using s None by simp
    obtain x st4 where c: "run_steps (ch_LogOnlyMode (hs_cc h)) (deny_steps h g @ check_steps cfg (hs_Defense h) dets rules cc) (st1\<lparr>sk_world := w3\<rparr>) = (x, st4)"
      by fastforce
    have "guard cfg now r h g dets rules cc w = (case x of Some res \<Rightarrow> (Refused res, sk_world st4)
         | None \<Rightarrow> (case captcha_gate cfg now r h st4 of (out, st5) \<Rightarrow> (out, sk_world st5)))"
      using guard_stages [where dets = dets, OF assms(1) refl p l n] c
      by (simp split: option.splits)
    then have "(\<forall>y. out \<noteq> CCBanned y) \<and> out \<noteq> RuleBanned"
      using captcha_gate_outcome [of cfg now r h st4] assms(9) by (auto simp: case_prod_beta split: option.splits)
    with spec None show ?thesis using True assms(8) by (auto split: if_splits)
  next
    case (Some y)
    then have "out = y" using assms(1,9) p l s by (simp add: guard_def)
    with spec Some show ?thesis using True assms(8) by (auto split: if_splits)
  qed
qed

subsection \<open>What an allowance of a rule reaches\<close>

text \<open>A detector that finds nothing.\<close>

definition quiet :: "'l detector" where "quiet w = (no_result, w)"

lemma handleBlock_quiet: "handleBlock lo quiet st = (None, st)"
  by (simp add: handleBlock_def quiet_def no_result_def)

text \<open>
  The specification of an allowance: the modules in their order, each with whether it is enabled, and the detectors that are left when
  the modules M are taken out.
\<close>

definition module_list :: "engine_config \<Rightarrow> HostsDefense \<Rightarrow> (bool \<times> string) list" where
  "module_list cfg d =
     [(DEFENSE_BOT d = 1, ''BOT''), (DEFENSE_SQLI d = 1, ''SQLI''), (DEFENSE_XSS d = 1, ''XSS''), (DEFENSE_SCAN d = 1, ''SCAN''),
      (DEFENSE_RCE d = 1, ''RCE''), (DEFENSE_DIR_TRAVERSAL d = 1, ''DIR''), (True, ''CC''),
      (GCONFIG_AI_ENABLE cfg = 1 \<and> DEFENSE_AI d = 1, ''AI''), (DEFENSE_SENSITIVE d = 1, ''SENSITIVE''),
      (GCONFIG_RECORD_ENABLE_OWASP cfg = 1 \<or> DEFENSE_OWASP_SET d = 1, ''OWASP''), (True, ''ANTILEECH''), (True, ''CSRF''), (True, ''UPLOAD'')]"

definition with_cc :: "(string \<Rightarrow> 'l detector) \<Rightarrow> 'l detector \<Rightarrow> string \<Rightarrow> 'l detector" where
  "with_cc dets cc m = (if m = ''CC'' then cc else dets m)"

definition remaining ::
  "(bool \<times> string) list \<Rightarrow> string set \<Rightarrow> (string \<Rightarrow> 'l detector) \<Rightarrow> 'l detector \<Rightarrow> 'l detector list" where
  "remaining ms M dets cc = map (with_cc dets cc \<circ> snd) (filter (\<lambda>(e, m). e \<and> m \<notin> M) ms)"

text \<open>The checks before the custom rules and the modules after them, in the two positions the rules can be configured to take.\<close>

definition before_rules :: "engine_config \<Rightarrow> HostsDefense \<Rightarrow> (string \<Rightarrow> 'l detector) \<Rightarrow> 'l detector \<Rightarrow> (('l chain \<Rightarrow> bool) \<times> 'l detector) list" where
  "before_rules cfg d dets cc =
     (if GCONFIG_RULE_CHAIN_MODE cfg = 1 then [] else content_steps dets d @ [(\<lambda>st. \<not> ruleSkip st ''CC'', cc)])"

definition after_rules :: "engine_config \<Rightarrow> HostsDefense \<Rightarrow> (bool \<times> string) list" where
  "after_rules cfg d = (if GCONFIG_RULE_CHAIN_MODE cfg = 1 then module_list cfg d else drop 7 (module_list cfg d))"

definition never_allows :: "'l detector \<Rightarrow> bool" where
  "never_allows det \<longleftrightarrow> (\<forall>w. \<not> dr_IsRuleAllow (fst (det w)))"

lemma handleBlock_keeps_skips:
  assumes "never_allows d" "handleBlock lo d st = (r, st')"
  shows "sk_All st' = sk_All st \<and> sk_Modules st' = sk_Modules st"
proof -
  have "\<not> dr_IsRuleAllow (fst (d (sk_world st)))" using assms(1) by (simp add: never_allows_def)
  then show ?thesis using assms(2) by (auto simp: handleBlock_def Let_def with_log_def split: prod.splits if_splits)
qed

lemma run_steps_remaining:
  assumes "\<forall>m. never_allows (dets m)" "\<not> sk_All st" "set (sk_Modules st) = M"
  shows "run_steps lo (map (\<lambda>(e, m). module dets e m) ms) st =
    run_steps lo (map (always \<circ> dets \<circ> snd) (filter (\<lambda>(e, m). e \<and> m \<notin> M) ms)) st"
  using assms(2,3)
proof (induction ms arbitrary: st)
  case (Cons em ms)
  obtain e m where em: "em = (e, m)" by fastforce
  obtain r st' where h: "handleBlock lo (dets m) st = (r, st')" by fastforce
  have "\<not> sk_All st'" "set (sk_Modules st') = M" using handleBlock_keeps_skips [OF _ h] assms(1) Cons.prems by simp_all
  then show ?case using Cons em h by (simp add: module_def always_def ruleSkip_def comp_def split: option.split)
qed simp

lemma run_steps_all_skipped:
  assumes "sk_All st"
  shows "run_steps lo (map (\<lambda>(e, m). module dets e m) ms) st = (None, st)"
  using assms by (induction ms) (auto simp: module_def ruleSkip_def)

lemma run_steps_keeps_skips:
  assumes "\<forall>(c, d) \<in> set steps. never_allows d" "run_steps lo steps st = (r, st')"
  shows "sk_All st' = sk_All st \<and> sk_Modules st' = sk_Modules st"
  using assms
proof (induction steps arbitrary: st)
  case (Cons s steps)
  obtain c d where s: "s = (c, d)" by fastforce
  obtain r1 st1 where h: "handleBlock lo d st = (r1, st1)" by fastforce
  have "sk_All st1 = sk_All st \<and> sk_Modules st1 = sk_Modules st" using handleBlock_keeps_skips [OF _ h] Cons.prems(1) s by simp
  then show ?case using Cons s h by (auto split: if_splits option.splits)
qed simp

lemma before_rules_quiet:
  "\<forall>m. never_allows (dets m) \<Longrightarrow> never_allows cc \<Longrightarrow> \<forall>(c, det) \<in> set (before_rules cfg d dets cc). never_allows det"
  by (simp add: before_rules_def content_steps_def module_def)

lemma check_steps_split:
  "check_steps cfg d dets rules cc =
     before_rules cfg d dets cc @ [always rules] @ map (\<lambda>(e, m). module (with_cc dets cc) e m) (after_rules cfg d)"
  by (simp add: check_steps_def before_rules_def after_rules_def content_steps_def late_steps_def module_list_def module_def with_cc_def)

lemma captcha_page_world: "sk_world st = sk_world st' \<Longrightarrow> fst (captcha_page now r h need ip st) = fst (captcha_page now r h need ip st')"
  by (simp add: captcha_page_def Let_def split: prod.split)

lemma captcha_gate_skipped: "ruleSkip st ''CAPTCHA'' \<Longrightarrow> fst (captcha_gate cfg now r h st) = Passed"
  by (simp add: captcha_gate_def Let_def split: prod.split)

lemma captcha_gate_not_skipped:
  assumes "\<not> ruleSkip st ''CAPTCHA''"
  shows "fst (captcha_gate cfg now r h st) = fst (captcha_gate cfg now r h (st\<lparr>sk_All := False, sk_Modules := []\<rparr>))"
proof -
  have "\<not> ruleSkip (st\<lparr>sk_All := False, sk_Modules := []\<rparr>) ''CAPTCHA''" by (simp add: ruleSkip_def)
  moreover have "fst (captcha_page now r h need ip (put_cache c st)) =
      fst (captcha_page now r h need ip (put_cache c (st\<lparr>sk_All := False, sk_Modules := []\<rparr>)))" for need ip c
    by (rule captcha_page_world) (simp add: put_cache_def)
  ultimately show ?thesis using assms by (simp add: captcha_gate_def Let_def split: prod.split bool.split)
qed

lemma handleBlock_allow:
  assumes "d (sk_world st) = (res, w)" "dr_IsRuleAllow res" "\<not> sk_All st" "sk_Modules st = []"
  shows "\<exists>st'. handleBlock lo d st = (None, st') \<and> set (sk_Modules st') = set (dr_SkipModules res) - {RuleSkipAll} \<and>
    (sk_All st' \<longleftrightarrow> dr_JumpGuardResult res \<or> RuleSkipAll \<in> set (dr_SkipModules res))"
  using assms by (auto simp: handleBlock_def Let_def with_log_def)

text \<open>
  C4. An allowance of a custom rule reaches exactly as far as it says. In both positions the rules can be configured to take, first or
  behind the content detectors and the rate check (the default), let the checks before them refuse nothing. A rule that then allows the request for the
  modules M leaves exactly the enabled modules outside M that come after the rules: the decision and the state are those of these detectors, one
  after the other in their order, and no other. An allowance for all modules ends the checks there, and no further detector is consulted.
  The captcha gate at the end is passed when the allowance names it or names everything, and decides as if there were no allowance otherwise.
\<close>

theorem allowance_exact:
  assumes "\<not> sk_All st" "sk_Modules st = []" "\<forall>m. never_allows (dets m)" "never_allows cc"
    "run_steps lo (before_rules cfg d dets cc) st = (None, st1)"
    "rules (sk_world st1) = (res, w')" "dr_IsRuleAllow res" "everything \<longleftrightarrow> dr_JumpGuardResult res \<or> RuleSkipAll \<in> set (dr_SkipModules res)"
    "st2 = snd (handleBlock lo rules st1)" "M = set (dr_SkipModules res)"
    "result = run_steps lo (check_steps cfg d dets rules cc) st"
  shows "result = (if everything then (None, st2) else run_steps lo (map always (remaining (after_rules cfg d) M dets cc)) st2) \<and>
    fst (captcha_gate cfg now r h (snd result)) =
      (if everything \<or> ''CAPTCHA'' \<in> M then Passed
       else fst (captcha_gate cfg now r h ((snd result)\<lparr>sk_All := False, sk_Modules := []\<rparr>)))"
proof -
  have "sk_All st1 = sk_All st \<and> sk_Modules st1 = sk_Modules st"
    by (rule run_steps_keeps_skips [OF before_rules_quiet assms(5)]) (use assms(3,4) in simp_all)
  then have "\<not> sk_All st1" "sk_Modules st1 = []" using assms(1,2) by simp_all
  from handleBlock_allow [where d = rules, OF assms(6,7) this, of lo]
  obtain st' where st': "handleBlock lo rules st1 = (None, st')" "set (sk_Modules st') = M - {RuleSkipAll}"
      "sk_All st' \<longleftrightarrow> everything"
    using assms(8,10) by blast
  then have "st' = st2" using assms(9) by simp
  with st' have h: "handleBlock lo rules st1 = (None, st2)" and m: "set (sk_Modules st2) = M - {RuleSkipAll}"
    and a: "sk_All st2 \<longleftrightarrow> everything" by simp_all
  have run: "result = run_steps lo (map (\<lambda>(e, m). module (with_cc dets cc) e m) (after_rules cfg d)) st2"
    using h assms(5) by (simp add: assms(11) check_steps_split run_steps_append always_def)
  have dets: "\<forall>m. never_allows (with_cc dets cc m)" using assms(3,4) by (simp add: with_cc_def)
  then have "\<forall>(c, det) \<in> set (map (\<lambda>(e, m). module (with_cc dets cc) e m) (after_rules cfg d)). never_allows det"
    by (auto simp: module_def)
  from run_steps_keeps_skips [OF this, of lo st2 "fst result" "snd result"] run
  have "sk_All (snd result) = sk_All st2 \<and> sk_Modules (snd result) = sk_Modules st2" by simp
  then have skip: "ruleSkip (snd result) ''CAPTCHA'' \<longleftrightarrow> everything \<or> ''CAPTCHA'' \<in> M"
    using a m by (auto simp: ruleSkip_def RuleSkipAll_def)
  have "result = (if everything then (None, st2) else run_steps lo (map always (remaining (after_rules cfg d) M dets cc)) st2)"
  proof (cases everything)
    case True
    then show ?thesis using run run_steps_all_skipped a by simp
  next
    case False
    then have "set (sk_Modules st2) = M" using m assms(8,10) by blast
    then show ?thesis
      using run run_steps_remaining [OF dets _ _, of st2 M lo] a False
      by (simp add: remaining_def comp_def)
  qed
  moreover have "fst (captcha_gate cfg now r h (snd result)) =
      (if everything \<or> ''CAPTCHA'' \<in> M then Passed
       else fst (captcha_gate cfg now r h ((snd result)\<lparr>sk_All := False, sk_Modules := []\<rparr>)))"
    using skip captcha_gate_skipped [of "snd result"] captcha_gate_not_skipped [of "snd result"] by presburger
  ultimately show ?thesis by blast
qed

text \<open>
  C5. What no rule can override. Whatever the rules answer, a request refused by the black lists is refused, and, unless the rules are
  configured to come first, so is a request that a content detector or the rate check refuses: an allowance
  only skips what comes after it.
\<close>

theorem rules_cannot_override:
  assumes "ch_GUARD_STATUS (hs_cc h) = 1" "st0 = \<lparr>sk_All = False, sk_Modules = [], sk_world = w\<rparr>"
    "handleBlock (ch_LogOnlyMode (hs_cc h)) (dets ''PLUGIN'') st0 = (None, st1)"
    "white_list (white_checks cfg h g) (sk_world st1) = (False, w2)" "ban_stage now h w2 = (None, w3)"
    "before = deny_steps h g @ (if GCONFIG_RULE_CHAIN_MODE cfg = 1 then []
       else content_steps dets (hs_Defense h) @ [(\<lambda>st. \<not> ruleSkip st ''CC'', cc)])"
    "run_steps (ch_LogOnlyMode (hs_cc h)) before (st1\<lparr>sk_world := w3\<rparr>) = (Some res, st4)"
  shows "guard cfg now r h g dets rules cc w = (Refused res, sk_world st4)"
proof -
  obtain after where "deny_steps h g @ check_steps cfg (hs_Defense h) dets rules cc = before @ after"
    unfolding check_steps_def assms(6) by (cases "GCONFIG_RULE_CHAIN_MODE cfg = 1") auto
  then have "run_steps (ch_LogOnlyMode (hs_cc h)) (deny_steps h g @ check_steps cfg (hs_Defense h) dets rules cc) (st1\<lparr>sk_world := w3\<rparr>) =
      (Some res, st4)" using assms(7) by (simp add: run_steps_append del: append_assoc)
  then show ?thesis using guard_stages [where dets = dets, OF assms(1-5)] by simp
qed

subsection \<open>A site of the examples\<close>

definition demo_safe :: "int \<Rightarrow> (string \<times> string) list \<Rightarrow> HostSafe" where
  "demo_safe lo urls =
     \<lparr>hs_cc = demo_host\<lparr>ch_LogOnlyMode := lo\<rparr>, hs_Rule = None,
      hs_lists = \<lparr>ls_IPMode = ''nic'', ls_GUARD_STATUS = 1, ls_IPBlockIndex = None, ls_IPBlockGroupCodes = [], ls_IPBlockLists = [],
        ls_IPWhiteIndex = None, ls_IPWhiteGroupCodes = [], ls_IPWhiteLists = [], ls_UrlBlockLists = urls, ls_UrlWhiteLists = []\<rparr>,
      hs_Defense = \<lparr>DEFENSE_BOT = 0, DEFENSE_SQLI = 1, DEFENSE_XSS = 1, DEFENSE_SCAN = 0, DEFENSE_RCE = 0, DEFENSE_SENSITIVE = 0,
        DEFENSE_DIR_TRAVERSAL = 0, DEFENSE_OWASP_SET = 0, DEFENSE_AI = 0\<rparr>,
      hs_Captcha = \<lparr>IsEnableCaptcha = 0, PathPrefix = [], ExcludeURLs = []\<rparr>\<rparr>"

definition demo_config :: "int \<Rightarrow> engine_config" where
  "demo_config mode =
     \<lparr>GCONFIG_RULE_CHAIN_MODE = mode, GCONFIG_AI_ENABLE = 0, GCONFIG_RECORD_ENABLE_OWASP = 0, GCONFIG_RECORD_PROXY_HEADER = [],
      ec_ipban = demo_cfg, ec_captcha = \<lparr>cg_FAKE_SPIDER_CAPTCHA = 0, cg_SSL_CHALLENGE_PATH = []\<rparr>\<rparr>"

text \<open>A client on the local link; its address carries a zone and is no \<open>net.IP\<close>.\<close>

definition link_local :: string where "link_local = ''fe80::1%eth0''"
definition demo_peer :: WebLog where "demo_peer = demo_weblog\<lparr>lg_SRC_IP := link_local, lg_NetSrcIp := link_local\<rparr>"

definition demo_engine :: "waf_cache \<Rightarrow> unit engine_world" where
  "demo_engine c =
     \<lparr>ew_cc = \<lparr>cw_cache = Some c, cw_counter = New 0 0, cw_stats = tracker_New 0, cw_limiters = Map.empty, cw_log = demo_peer\<rparr>,
      ew_ip = demo_ip_world\<rparr>"

lemma demo_engine_simps [simp]:
  "ew_log (demo_engine c) = demo_peer" "ew_cache (demo_engine c) = Some c" "ew_ip (demo_engine c) = demo_ip_world"
  "engine_ip (demo_safe lo urls) (demo_engine c) = link_local"
  by (simp_all add: ew_log_def ew_cache_def demo_engine_def engine_ip_def GetClientIPByMode_def demo_peer_def demo_safe_def demo_host_def)

lemma demo_peer_net: "lg_NetSrcIp demo_peer = link_local"
  by (simp add: demo_peer_def)

lemma demo_engine_updates [simp]:
  "set_cache (Some c') (demo_engine c) = demo_engine c'" "set_log demo_peer (demo_engine c) = demo_engine c"
  "(demo_engine c)\<lparr>ew_ip := demo_ip_world\<rparr> = demo_engine c"
  by (simp_all add: demo_engine_def set_cache_def set_log_def)

lemma demo_not_white: "white_list (white_checks (demo_config m) (demo_safe lo urls) None) (demo_engine c) = (False, demo_engine c)"
proof -
  have "ParseIP link_local = None" by code_simp
  then have p: "CheckCallBackIp link_local = None"
    by (simp add: CheckCallBackIp_def WeixinPayBackIP_def AlipayPayBackIP_def CheckIPInRanges_def weixin_ips_def link_local_def)
  have "allow_ip (demo_safe lo urls) None (demo_engine c) = (no_result, demo_engine c)"
    by (simp add: allow_ip_def CheckAllowIP_def Let_def matchAllowIP_def list_site_of_def demo_safe_def guarded_def matchIPGroups_def)
  moreover have "allow_url (demo_safe lo urls) None (demo_engine c) = (no_result, demo_engine c)"
    by (simp add: allow_url_def CheckAllowURL_def list_site_of_def demo_safe_def guarded_def)
  moreover have "allow_callback (demo_config m) (demo_engine c) = (no_result, demo_engine c)"
    using p by (simp add: allow_callback_def CheckAllowCallBackIP_def demo_config_def demo_peer_net)
  ultimately show ?thesis by (simp add: white_checks_def no_result_def)
qed

definition demo_ban_cache :: waf_cache where
  "demo_ban_cache = SetWithTTl 0 InitWafCache (LegacyCCBanKey link_local) (CInt 10) (600 * second)"

lemma demo_plugin: "handleBlock lo ((\<lambda>_. quiet) ''PLUGIN'') st = (None, st)"
  by (simp add: handleBlock_quiet)

lemma demo_protected [simp]:
  "ch_GUARD_STATUS (hs_cc (demo_safe lo urls)) = 1" "ch_LogOnlyMode (hs_cc (demo_safe lo urls)) = lo" "ch_Code (hs_cc (demo_safe lo urls)) = ''h1''"
  by (simp_all add: demo_safe_def demo_host_def)

theorem log_only_refuses_nobody_witness:
  "fst (guard (demo_config 0) second (demo_request ''/'') (demo_safe 1 [(''eq'', ''/'')]) None (\<lambda>_. quiet) quiet quiet (demo_engine demo_ban_cache))
     \<in> {Passed, CaptchaPage}"
  by (rule log_only_refuses_nobody) simp

theorem bans_enforced_witness:
  "fst (guard (demo_config 0) second (demo_request ''/'') (demo_safe 0 []) None (\<lambda>_. quiet) quiet quiet (demo_engine demo_ban_cache)) =
     CCBanned link_local"
proof -
  have "banned_at second ''h1'' link_local demo_ban_cache"
    by (simp add: banned_at_iff visible_def demo_ban_cache_def SetWithTTl_def InitWafCache_def mk_item_def expired_def)
  then show ?thesis
    using bans_enforced [where dets = "\<lambda>_. quiet" and h = "demo_safe 0 []" and w = "demo_engine demo_ban_cache" and cfg = "demo_config 0" and
        g = None and wh = False and ?w2.0 = "demo_engine demo_ban_cache" and ip = link_local and now = second and r = "demo_request ''/''" and
        rules = quiet and cc = quiet and reached = True, OF _ demo_plugin _ _ _ _ refl _ refl]
      demo_not_white [of 0 0 "[]" demo_ban_cache]
    by (simp add: link_local_def)
qed

text \<open>A rule that allows the request for one module: the next detector still refuses it.\<close>

definition demo_allow :: "unit detector" where
  "demo_allow w = (no_result\<lparr>dr_IsRuleAllow := True, dr_SkipModules := [''SQLI'']\<rparr>, w)"

theorem allowance_exact_witness:
  "fst (run_steps 0 (check_steps (demo_config 1) (hs_Defense (demo_safe 0 [])) (\<lambda>m w. (blocked m, w)) demo_allow quiet)
      \<lparr>sk_All = False, sk_Modules = [], sk_world = demo_engine InitWafCache\<rparr>) = Some (blocked ''XSS'')"
proof -
  let ?st = "\<lparr>sk_All = False, sk_Modules = [], sk_world = demo_engine InitWafCache\<rparr>"
  have "never_allows (\<lambda>w :: unit engine_world. (blocked m, w))" for m by (simp add: never_allows_def blocked_def no_result_def)
  moreover have "never_allows (quiet :: unit detector)" by (simp add: never_allows_def quiet_def no_result_def)
  moreover have "run_steps 0 (before_rules (demo_config 1) (hs_Defense (demo_safe 0 [])) (\<lambda>m w. (blocked m, w)) quiet) ?st = (None, ?st)"
    by (simp add: before_rules_def demo_config_def)
  ultimately have "run_steps 0 (check_steps (demo_config 1) (hs_Defense (demo_safe 0 [])) (\<lambda>m w. (blocked m, w)) demo_allow quiet) ?st =
      run_steps 0 (map always (remaining (after_rules (demo_config 1) (hs_Defense (demo_safe 0 []))) {''SQLI''} (\<lambda>m w. (blocked m, w)) quiet))
        (snd (handleBlock 0 demo_allow ?st))"
    using allowance_exact [where rules = demo_allow and st = ?st and ?st1.0 = ?st and cfg = "demo_config 1" and dets = "\<lambda>m w. (blocked m, w)" and cc = quiet and
        everything = False and lo = 0 and d = "hs_Defense (demo_safe 0 [])" and M = "{''SQLI''}", OF _ _ _ _ _ _ _ _ refl _ refl]
    by (simp add: demo_allow_def RuleSkipAll_def no_result_def)
  then show ?thesis
    by (simp add: remaining_def after_rules_def module_list_def demo_config_def demo_safe_def always_def with_cc_def handleBlock_def blocked_def no_result_def)
qed

text \<open>A path on the black list, and a rule that allows everything.\<close>

theorem rules_cannot_override_witness:
  "\<exists>res. fst (guard (demo_config 1) second (demo_request ''/'') (demo_safe 0 [(cmp_equal, ''/'')]) None (\<lambda>_. quiet)
      (\<lambda>w. (no_result\<lparr>dr_IsRuleAllow := True, dr_SkipModules := [RuleSkipAll]\<rparr>, w)) quiet (demo_engine InitWafCache)) = Refused res"
proof -
  let ?h = "demo_safe 0 [(cmp_equal, ''/'')]" and ?w = "demo_engine InitWafCache"
  let ?st = "\<lparr>sk_All = False, sk_Modules = [], sk_world = ?w\<rparr> :: unit chain"
  have t: "ms_Contains (deref (\<lambda>_. newMatchSet) (GetGlobalThreatMatcher None)) x = False" for x
    by (simp add: deref_def GetGlobalThreatMatcher_def ms_Contains_def)
  have i: "deny_ip ?h None ?w = (no_result, ?w)"
    unfolding deny_ip_def by (simp add: CheckDenyIP_def Let_def matchDenyIP_def list_site_of_def demo_safe_def guarded_def matchIPGroups_def
        demo_ip_world_def t)
  have "url_row_matches (ToLower ''/'') (cmp_equal, ''/'')" by (simp add: url_row_matches_def)
  then have u: "deny_url ?h None ?w = (list_block url_list_title url_list_text, set_log (risk demo_peer) ?w)"
    by (simp add: deny_url_def CheckDenyURL_def list_site_of_def demo_safe_def demo_peer_def demo_weblog_def)
  have b: "ban_stage second ?h ?w = (None, ?w)"
    by (simp add: ban_stage_def Let_def matchCCBan_def matchRuleBan_def CCBanLookupKeys_def IsKeyExist_def InitWafCache_def)
  have "run_steps 0 (deny_steps ?h None) ?st = (Some (list_block url_list_title url_list_text), ?st\<lparr>sk_world := set_log (risk demo_peer) ?w\<rparr>)"
    using i u by (simp add: deny_steps_def always_def handleBlock_def Let_def no_result_def list_block_def)
  then show ?thesis
    using rules_cannot_override [where dets = "\<lambda>_. quiet" and h = ?h and w = ?w and cfg = "demo_config 1" and g = None and ?w2.0 = ?w and
        ?w3.0 = ?w and now = second, OF _ refl demo_plugin _ _ refl]
      demo_not_white [of 1 0 _ InitWafCache] b
    by (simp add: demo_config_def)
qed

end
