(* ===== verification/Client_Ip.thy ===== *)
theory Client_Ip
  imports Ip_Check
begin

text \<open>
  Whose request is it: wafenginecore/clientip.go with clientip/providers.go and \<open>getClientIP\<close> of wafengine.go for the
  sites, and utils/manageclientip.go for the administration pages, where the address decides on login locks, the address white
  list and the binding of tokens.

  A request arrives from its network peer and may carry addresses in headers that proxies write and clients can forge. The text
  \<open>RemoteAddr\<close> and the peer of the administration pages (gin's \<open>RemoteIP\<close>) are arguments. The compiled ranges of
  the CDN providers are a map from provider codes. Warnings to the program's log are kept as a list of the sites warned about.

  The theorems say what a client that forges headers can and cannot reach: proxies append what they saw to the right, so the
  decision must not depend on what stands left of it.
\<close>

subsection \<open>Package net\<close>

text \<open>\<open>net.SplitHostPort\<close>, \<open>None\<close> for its errors.\<close>

definition SplitHostPort :: "string \<Rightarrow> (string \<times> string) option" where
  "SplitHostPort s =
     (if CHR '':'' \<notin> set s then None
      else
        (let port = rev (takeWhile (\<lambda>c. c \<noteq> CHR '':'') (rev s)); before = butlast (rev (dropWhile (\<lambda>c. c \<noteq> CHR '':'') (rev s)))
         in if hd s = CHR ''['' then
              (case StrCut (CHR '']'') (tl s) of
                 None \<Rightarrow> None
               | Some (host, after) \<Rightarrow>
                   if after \<noteq> CHR '':'' # port then None
                   else if CHR ''['' \<in> set (tl s) \<or> CHR '']'' \<in> set after then None
                   else Some (host, port))
            else if CHR '':'' \<in> set before then None
            else if CHR ''['' \<in> set s \<or> CHR '']'' \<in> set s then None
            else Some (before, port)))"

text \<open>\<open>IP.String\<close>: dotted decimals, or groups of hexadecimal digits with the longest run of at least two zero groups shortened.\<close>

definition ipv4_text :: "gobytes \<Rightarrow> string" where
  "ipv4_text b = concat (map (\<lambda>i. (if i = 0 then [] else ''.'') @ format_nat 10 (unat (b ! i))) [0..<4])"

definition hex_digit :: "nat \<Rightarrow> char" where
  "hex_digit d = char_of (if d < 10 then 48 + d else 87 + d)"

definition appendHex :: "nat \<Rightarrow> string" where
  "appendHex x =
     (if 4096 \<le> x then [hex_digit (x div 4096)] else []) @ (if 256 \<le> x then [hex_digit (x div 256 mod 16)] else []) @
     (if 16 \<le> x then [hex_digit (x div 16 mod 16)] else []) @ [hex_digit (x mod 16)]"

definition v6_groups :: "gobytes \<Rightarrow> nat list" where
  "v6_groups b = map (\<lambda>i. unat (b ! (2 * i)) * 256 + unat (b ! (2 * i + 1))) [0..<8]"

definition zero_run :: "nat list \<Rightarrow> nat \<Rightarrow> nat" where
  "zero_run gs i = length (takeWhile (\<lambda>g. g = 0) (drop i gs))"

definition longest_zeros :: "nat list \<Rightarrow> (nat \<times> nat) option" where
  "longest_zeros gs =
     fold (\<lambda>i best. let l = zero_run gs i
             in if 2 \<le> l \<and> (case best of None \<Rightarrow> 0 | Some (s, e) \<Rightarrow> e - s) < l then Some (i, i + l) else best)
       [0..<8] None"

definition join_groups :: "nat list \<Rightarrow> string" where
  "join_groups gs = concat (map (\<lambda>(i, g). (if i = 0 then [] else '':'') @ appendHex g) (enumerate 0 gs))"

definition ipv6_text :: "gobytes \<Rightarrow> string" where
  "ipv6_text b =
     (let gs = v6_groups b
      in case longest_zeros gs of
           None \<Rightarrow> join_groups gs
         | Some (s, e) \<Rightarrow> join_groups (take s gs) @ ''::'' @ join_groups (drop e gs))"

definition IP_String :: "gobytes \<Rightarrow> string" where
  "IP_String ip = (case To4 ip of Some v4 \<Rightarrow> ipv4_text v4 | None \<Rightarrow> ipv6_text ip)"

subsection \<open>Shared helpers\<close>

definition IsValidIPv4 :: "string \<Rightarrow> bool" where
  "IsValidIPv4 ip \<longleftrightarrow> (case ParseIP ip of None \<Rightarrow> False | Some a \<Rightarrow> To4 a \<noteq> None)"

definition IsValidIPv6 :: "string \<Rightarrow> bool" where
  "IsValidIPv6 ip \<longleftrightarrow> (case ParseIP ip of None \<Rightarrow> False | Some a \<Rightarrow> CHR '':'' \<in> set ip \<and> To4 a = None)"

definition valid_ip :: "string \<Rightarrow> bool" where
  "valid_ip ip \<longleftrightarrow> IsValidIPv4 ip \<or> IsValidIPv6 ip"

definition ipInCIDRList :: "string \<Rightarrow> string \<Rightarrow> bool" where
  "ipInCIDRList ip csv =
     list_ex (\<lambda>entry. entry \<noteq> [] \<and> CheckIPInCIDR ip entry) (map TrimSpace (StrSplit (CHR '','') csv))"

type_synonym provider_ranges = "string \<rightharpoonup> MatchSet option"

definition SetProviderRanges :: "string \<Rightarrow> MatchSet option \<Rightarrow> provider_ranges \<Rightarrow> provider_ranges" where
  "SetProviderRanges code m ps = ps(code \<mapsto> m)"

definition GetProviderRanges :: "provider_ranges \<Rightarrow> string \<Rightarrow> MatchSet option" where
  "GetProviderRanges ps code = (case ps code of None \<Rightarrow> None | Some m \<Rightarrow> m)"

definition IsProviderIP :: "provider_ranges \<Rightarrow> string \<Rightarrow> string \<Rightarrow> bool" where
  "IsProviderIP ps code ip = ms_ContainsStr (GetProviderRanges ps code) ip"

definition Providers :: "(string \<times> string) list" where
  "Providers =
     [(''cloudflare'', ''CF-Connecting-IP''), (''fastly'', ''Fastly-Client-IP''), (''cloudfront'', ''CloudFront-Viewer-Address''),
      (''edgeone'', ''EO-Connecting-IP''), (''aliyun'', ''Ali-Cdn-Real-Ip''), (''akamai'', ''True-Client-IP'')]"

definition DefaultHeader :: "string \<Rightarrow> string" where
  "DefaultHeader code = (case map_of Providers code of None \<Rightarrow> [] | Some h \<Rightarrow> h)"

subsection \<open>The client of a site\<close>

record ip_source =
  is_Code :: string
  is_IPSourceMode :: string
  is_IPRealHeader :: string
  is_IPTrustProxies :: string
  is_IPTrustDepth :: int
  is_CDNProvider :: string

record warn_state =
  ws_warnAt :: "string \<rightharpoonup> int"
  ws_warned :: "string list"

text \<open>An address with its port, \<open>None\<close> for an error.\<close>

type_synonym client_addr = "(string \<times> string) option"

definition splitRemoteAddr :: "string \<Rightarrow> client_addr" where
  "splitRemoteAddr remoteAddr = SplitHostPort remoteAddr"

fun getClientIP :: "http_request \<Rightarrow> string \<Rightarrow> string list \<Rightarrow> client_addr" where
  "getClientIP r remote [] =
     (case SplitHostPort remote of
        None \<Rightarrow> None
      | Some (ip, port) \<Rightarrow>
          if IsValidIPv4 ip then Some (ip, port)
          else if CHR '':'' \<in> set ip \<and> IsValidIPv6 ip then Some (ip, port)
          else None)"
| "getClientIP r remote (header # headers) =
     (let ip = Header_Get r header
      in if ip = [] then getClientIP r remote headers
         else (let trimmedIP = TrimSpace (hd (StrSplit (CHR '','') ip))
               in if IsValidIPv4 trimmedIP then Some (trimmedIP, ''0'')
                  else if IsValidIPv6 trimmedIP then Some (trimmedIP, ''0'')
                  else None))"

definition headerFirstValidIP :: "http_request \<Rightarrow> string \<Rightarrow> string" where
  "headerFirstValidIP r header0 =
     (let header = TrimSpace header0; val = Header_Get r header
      in if header = [] \<or> val = [] then []
         else (case find valid_ip (map TrimSpace (StrSplit (CHR '','') val)) of None \<Rightarrow> [] | Some ip \<Rightarrow> ip))"

definition extractXFFDepth :: "http_request \<Rightarrow> ip_source \<Rightarrow> string" where
  "extractXFFDepth r h =
     (let header = (if TrimSpace (is_IPRealHeader h) = [] then ''X-Forwarded-For'' else is_IPRealHeader h);
          parts = filter valid_ip (map TrimSpace (StrSplit (CHR '','') (Header_Get r header)));
          trusted = TrimSpace (is_IPTrustProxies h)
      in if Header_Get r header = [] \<or> parts = [] then []
         else if trusted \<noteq> [] then
           (case find (\<lambda>p. \<not> ipInCIDRList p trusted) (rev parts) of None \<Rightarrow> [] | Some p \<Rightarrow> p)
         else
           (let depth = (if is_IPTrustDepth h < 1 then 1 else is_IPTrustDepth h); idx = int (length parts) - depth
            in if idx < 0 \<or> int (length parts) \<le> idx then [] else parts ! nat idx))"

definition warnCDNPresetNoTrustSource :: "int \<Rightarrow> ip_source \<Rightarrow> warn_state \<Rightarrow> warn_state" where
  "warnCDNPresetNoTrustSource now h ws =
     (case ws_warnAt ws (is_Code h) of
        Some t \<Rightarrow>
          if now - t < 600 then ws
          else ws\<lparr>ws_warnAt := (ws_warnAt ws)(is_Code h \<mapsto> now), ws_warned := ws_warned ws @ [is_Code h]\<rparr>
      | None \<Rightarrow> ws\<lparr>ws_warnAt := (ws_warnAt ws)(is_Code h \<mapsto> now), ws_warned := ws_warned ws @ [is_Code h]\<rparr>)"

definition extractCDNPreset ::
  "provider_ranges \<Rightarrow> int \<Rightarrow> http_request \<Rightarrow> string \<Rightarrow> ip_source \<Rightarrow> warn_state \<Rightarrow> client_addr \<times> warn_state" where
  "extractCDNPreset ps now r remote h ws =
     (case splitRemoteAddr remote of
        None \<Rightarrow> (None, ws)
      | Some (netIP, _) \<Rightarrow>
          (let sourceTrusted = IsProviderIP ps (is_CDNProvider h) netIP \<or>
                 (TrimSpace (is_IPTrustProxies h) \<noteq> [] \<and> ipInCIDRList netIP (is_IPTrustProxies h));
               header = (if TrimSpace (is_IPRealHeader h) = [] then DefaultHeader (is_CDNProvider h) else is_IPRealHeader h);
               ip = headerFirstValidIP r header
           in if sourceTrusted \<and> ip \<noteq> [] then (Some (ip, ''0''), ws)
              else (Some (netIP, ''0''),
                    if ms_Len (GetProviderRanges ps (is_CDNProvider h)) = 0 \<and> TrimSpace (is_IPTrustProxies h) = []
                    then warnCDNPresetNoTrustSource now h ws else ws)))"

definition getBizClientIP ::
  "provider_ranges \<Rightarrow> string \<Rightarrow> int \<Rightarrow> http_request \<Rightarrow> string \<Rightarrow> ip_source \<Rightarrow> warn_state \<Rightarrow> client_addr \<times> warn_state" where
  "getBizClientIP ps proxyHeader now r remote h ws =
     (if is_IPSourceMode h = ''nic'' then (splitRemoteAddr remote, ws)
      else if is_IPSourceMode h = ''header'' then
        (let trusted = TrimSpace (is_IPTrustProxies h); ip = headerFirstValidIP r (is_IPRealHeader h);
             from_header = (if ip \<noteq> [] then Some (ip, ''0'') else splitRemoteAddr remote)
         in (if trusted \<noteq> [] then
               (case splitRemoteAddr remote of
                  None \<Rightarrow> None
                | Some (netIP, netPort) \<Rightarrow> if ipInCIDRList netIP trusted then from_header else Some (netIP, netPort))
             else from_header, ws))
      else if is_IPSourceMode h = ''xff_depth'' then
        (let ip = extractXFFDepth r h in (if ip \<noteq> [] then Some (ip, ''0'') else splitRemoteAddr remote, ws))
      else if is_IPSourceMode h = ''cdn_preset'' then extractCDNPreset ps now r remote h ws
      else (getClientIP r remote (StrSplit (CHR '','') proxyHeader), ws))"

subsection \<open>The client of the administration pages\<close>

record manage_config =
  GCONFIG_MANAGE_PROXY_HEADER :: string
  GCONFIG_MANAGE_TRUSTED_PROXIES :: string
  GCONFIG_MANAGE_CDN_PROVIDER :: string

text \<open>Which entry made an address a trusted proxy.\<close>

datatype trusted_by = by_nothing | by_cdn string | by_private ip_net | by_cidr string | by_ip string

definition maxManageProxyHops :: nat where "maxManageProxyHops = 64"
definition maxManageProxyHeaderEcho :: nat where "maxManageProxyHeaderEcho = 512"
definition maxManageProxyHopEcho :: nat where "maxManageProxyHopEcho = 64"

definition manageTrustedPrivateCIDRs :: "ip_net list" where
  "manageTrustedPrivateCIDRs =
     List.map_filter ParseCIDR [''10.0.0.0/8'', ''172.16.0.0/12'', ''192.168.0.0/16'', ''127.0.0.0/8'', ''::1/128'', ''fc00::/7'']"

definition isOverBroadProxyCIDR :: "ip_net \<Rightarrow> bool" where
  "isOverBroadProxyCIDR n = (case Mask_Size (net_Mask n) of (ones, bits) \<Rightarrow> if bits = 32 then ones \<le> 4 else ones \<le> 3)"

text \<open>\<open>IP.Equal\<close>: an IPv4 address equals its mapped form.\<close>

definition IP_Equal :: "gobytes \<Rightarrow> gobytes \<Rightarrow> bool" where
  "IP_Equal a b \<longleftrightarrow> (if length a = length b then a = b else To16 a = To16 b \<and> To16 a \<noteq> None)"

text \<open>The loop over the entries; \<open>broad\<close> is the last entry that matched and is too wide.\<close>

fun entries_loop :: "gobytes \<Rightarrow> trusted_by \<Rightarrow> bool \<Rightarrow> string list \<Rightarrow> bool \<times> trusted_by \<times> bool" where
  "entries_loop parsed by matched [] = (matched, by, False)"
| "entries_loop parsed by matched (entry # es) =
     (if entry = [] then entries_loop parsed by matched es
      else if EqualFold entry ''private'' then
        (case find (\<lambda>n. net_Contains n parsed) manageTrustedPrivateCIDRs of
           Some n \<Rightarrow> (True, by_private n, True)
         | None \<Rightarrow> entries_loop parsed by matched es)
      else if CHR ''/'' \<in> set entry then
        (case ParseCIDR entry of
           None \<Rightarrow> entries_loop parsed by matched es
         | Some n \<Rightarrow>
             if \<not> net_Contains n parsed then entries_loop parsed by matched es
             else if \<not> isOverBroadProxyCIDR n then (True, by_cidr entry, True)
             else entries_loop parsed (by_cidr entry) True es)
      else
        (case ParseIP entry of
           Some single \<Rightarrow> if IP_Equal single parsed then (True, by_ip entry, True) else entries_loop parsed by matched es
         | None \<Rightarrow> entries_loop parsed by matched es))"

definition trustManageProxy :: "provider_ranges \<Rightarrow> manage_config \<Rightarrow> string \<Rightarrow> bool \<times> trusted_by \<times> bool" where
  "trustManageProxy ps cfg ip0 =
     (let ip = TrimSpace ip0
      in if GCONFIG_MANAGE_CDN_PROVIDER cfg \<noteq> [] \<and> IsProviderIP ps (GCONFIG_MANAGE_CDN_PROVIDER cfg) ip
         then (True, by_cdn (GCONFIG_MANAGE_CDN_PROVIDER cfg), True)
         else if GCONFIG_MANAGE_TRUSTED_PROXIES cfg = [] then (False, by_nothing, False)
         else (case ParseIP ip of
                 None \<Rightarrow> (False, by_nothing, False)
               | Some parsed \<Rightarrow>
                   entries_loop parsed by_nothing False (map TrimSpace (StrSplit (CHR '','') (GCONFIG_MANAGE_TRUSTED_PROXIES cfg)))))"

definition normalizeIPText :: "string \<Rightarrow> string" where
  "normalizeIPText ip = (case ParseIP (TrimSpace ip) of None \<Rightarrow> ip | Some parsed \<Rightarrow> IP_String parsed)"

record ManageClientIPHop =
  hop_IP :: string
  hop_Valid :: bool
  hop_Trusted :: bool
  hop_TrustedBy :: trusted_by

record ManageClientIPHeaderTrace =
  ht_Name :: string
  ht_Value :: string
  ht_Hops :: "ManageClientIPHop list"
  ht_Used :: bool
  ht_TooLong :: bool

datatype manage_ip_reason =
  NoProxyHeader | PeerUntrusted | NoValidHeader | OverBroadGate | RightmostUntrusted | AllTrustedLeftmost

record ManageClientIPTrace =
  tr_RemoteIP :: string
  tr_PeerTrusted :: bool
  tr_PeerTrustedBy :: trusted_by
  tr_GateOverBroad :: bool
  tr_Headers :: "ManageClientIPHeaderTrace list"
  tr_ClientIP :: string
  tr_Reason :: manage_ip_reason

definition manage_hop :: "provider_ranges \<Rightarrow> manage_config \<Rightarrow> string \<Rightarrow> ManageClientIPHop" where
  "manage_hop ps cfg part =
     (let ip = TrimSpace part; valid = IsValidIPv4 ip \<or> IsValidIPv6 ip; (trusted, by, narrow) = trustManageProxy ps cfg ip;
          infra = valid \<and> trusted \<and> narrow
      in \<lparr>hop_IP = take maxManageProxyHopEcho ip, hop_Valid = valid, hop_Trusted = infra, hop_TrustedBy = (if infra then by else by_nothing)\<rparr>)"

definition buildManageHeaderTrace :: "provider_ranges \<Rightarrow> manage_config \<Rightarrow> http_request \<Rightarrow> string \<Rightarrow> ManageClientIPHeaderTrace" where
  "buildManageHeaderTrace ps cfg r header =
     (let raw = Header_Get r header; tooLong = maxManageProxyHops \<le> count_list raw (CHR '','')
      in \<lparr>ht_Name = header, ht_Value = take maxManageProxyHeaderEcho raw,
          ht_Hops = (if raw = [] \<or> tooLong then [] else map (manage_hop ps cfg) (StrSplit (CHR '','') raw)),
          ht_Used = False, ht_TooLong = (raw \<noteq> [] \<and> tooLong)\<rparr>)"

text \<open>The first header with a hop of the given kind, the hop being looked for in the given order; the header is marked as used.\<close>

fun first_hop ::
  "(ManageClientIPHop list \<Rightarrow> ManageClientIPHop option) \<Rightarrow> ManageClientIPHeaderTrace list \<Rightarrow> (ManageClientIPHop \<times> ManageClientIPHeaderTrace list) option" where
  "first_hop pick [] = None"
| "first_hop pick (h # hs) =
     (case pick (ht_Hops h) of
        Some hop \<Rightarrow> Some (hop, h\<lparr>ht_Used := True\<rparr> # hs)
      | None \<Rightarrow> map_option (\<lambda>(hop, hs'). (hop, h # hs')) (first_hop pick hs))"

definition TraceManageClientIP :: "provider_ranges \<Rightarrow> manage_config \<Rightarrow> http_request \<Rightarrow> string \<Rightarrow> ManageClientIPTrace" where
  "TraceManageClientIP ps cfg r remoteIP =
     (let trace = \<lparr>tr_RemoteIP = remoteIP, tr_PeerTrusted = False, tr_PeerTrustedBy = by_nothing, tr_GateOverBroad = False, tr_Headers = [],
                   tr_ClientIP = remoteIP, tr_Reason = NoProxyHeader\<rparr>
      in if TrimSpace (GCONFIG_MANAGE_PROXY_HEADER cfg) = [] then trace
         else (case trustManageProxy ps cfg remoteIP of
                 (trusted, by, narrow) \<Rightarrow>
                   let trace = trace\<lparr>tr_PeerTrusted := trusted, tr_PeerTrustedBy := by\<rparr>
                   in if \<not> trusted then trace\<lparr>tr_Reason := PeerUntrusted\<rparr>
                      else if \<not> narrow then trace\<lparr>tr_GateOverBroad := True, tr_Reason := OverBroadGate\<rparr>
                      else
                        (let hs = map (buildManageHeaderTrace ps cfg r)
                                    (filter (\<lambda>h. h \<noteq> []) (map TrimSpace (StrSplit (CHR '','') (GCONFIG_MANAGE_PROXY_HEADER cfg))))
                         in case first_hop (\<lambda>hops. find (\<lambda>hop. hop_Valid hop \<and> \<not> hop_Trusted hop) (rev hops)) hs of
                              Some (hop, hs') \<Rightarrow>
                                trace\<lparr>tr_Headers := hs', tr_ClientIP := normalizeIPText (hop_IP hop), tr_Reason := RightmostUntrusted\<rparr>
                            | None \<Rightarrow>
                                (case first_hop (find hop_Valid) hs of
                                   Some (hop, hs') \<Rightarrow>
                                     trace\<lparr>tr_Headers := hs', tr_ClientIP := normalizeIPText (hop_IP hop), tr_Reason := AllTrustedLeftmost\<rparr>
                                 | None \<Rightarrow> trace\<lparr>tr_Headers := hs, tr_Reason := NoValidHeader\<rparr>))))"

definition GetManageClientIP :: "provider_ranges \<Rightarrow> manage_config \<Rightarrow> http_request \<Rightarrow> string \<Rightarrow> string" where
  "GetManageClientIP ps cfg r remoteIP = tr_ClientIP (TraceManageClientIP ps cfg r remoteIP)"

definition IsValidManageTrustedProxyEntry :: "string \<Rightarrow> bool" where
  "IsValidManageTrustedProxyEntry entry0 =
     (let entry = TrimSpace entry0
      in if entry = [] \<or> EqualFold entry ''private'' then True
         else if CHR ''/'' \<in> set entry then ParseCIDR entry \<noteq> None
         else ParseIP entry \<noteq> None)"

definition ManageTrustedProxiesHasOverBroad :: "string \<Rightarrow> string option" where
  "ManageTrustedProxiesHasOverBroad trustedProxies =
     find (\<lambda>entry. entry \<noteq> [] \<and> CHR ''/'' \<in> set entry \<and> (case ParseCIDR entry of None \<Rightarrow> False | Some n \<Rightarrow> isOverBroadProxyCIDR n))
       (map TrimSpace (StrSplit (CHR '','') trustedProxies))"

section \<open>Properties\<close>

subsection \<open>Lengths of addresses\<close>

text \<open>The limit on the echoed text of a hop never cuts an address.\<close>

definition field_ok :: "nat \<Rightarrow> nat \<Rightarrow> bool" where
  "field_ok val dig \<longleftrightarrow> val \<le> 255 \<and> (dig = 0 \<and> val = 0 \<or> dig = 1 \<and> val < 10 \<or> dig = 2 \<and> 10 \<le> val \<or> dig = 3 \<and> 100 \<le> val)"

lemma ipv4_fields_text: "ipv4_fields prev val dig acc s = Some b \<Longrightarrow> field_ok val dig \<Longrightarrow> length acc \<le> 3 \<Longrightarrow>
   length s + dig + 4 * length acc \<le> 15"
proof (induction prev val dig acc s rule: ipv4_fields.induct)
  case (2 prev val dig acc c cs)
  show ?case
  proof (cases "is_digit c")
    case True
    define v where "v = val * 10 + (char_code c - 48)"
    have c: "char_code c - 48 < 10" using True unfolding is_digit_def by linarith
    have n: "\<not> (dig = 1 \<and> val = 0)" "v \<le> 255" and r: "ipv4_fields (Some c) v (Suc dig) acc cs = Some b"
      using 2(3) True by (auto simp: Let_def v_def split: if_splits)
    have "field_ok v (Suc dig)" using 2(4) n c by (auto simp: field_ok_def v_def)
    then show ?thesis using 2(1) [OF True _ v_def] n r 2(5) by (auto simp: Let_def)
  next
    case False
    then have "length acc \<noteq> 3" "ipv4_fields (Some c) 0 0 (acc @ [of_nat val]) cs = Some b" and c: "c = CHR ''.''"
      using 2(3) by (auto split: if_splits)
    then have "length cs + 4 * Suc (length acc) \<le> 15" using 2(2) [OF False c] 2(3,5) False by (auto simp: field_ok_def split: if_splits)
    then show ?thesis using 2(4) by (auto simp: field_ok_def)
  qed
qed (auto simp: field_ok_def split: if_splits)

lemma parseIPv4_text: "parseIPv4 s = Some b \<Longrightarrow> length s \<le> 15"
  using ipv4_fields_text [of None 0 0 "[]" s b] by (simp add: parseIPv4_def field_ok_def)

lemma ipv6_loop_text:
  "ipv6_loop ell acc s = Some (b, e, []) \<Longrightarrow> even (length acc) \<Longrightarrow>
   length s \<le> 5 * ((16 - length acc) div 2) + 15 + (if ell = None then 1 else 0)"
proof (induction ell acc s rule: ipv6_loop.induct)
  case (1 ell acc s)
  define ds where "ds = takeWhile is_hex s"
  define rest where "rest = dropWhile is_hex s"
  define acc' where "acc' = acc @ hex_group ds"
  have s: "length s = length ds + length rest" unfolding ds_def rest_def by (metis length_append takeWhile_dropWhile_id)
  have even: "even (length acc')" using 1(4) by (simp add: acc'_def hex_group_def Let_def)
  show ?case
  proof (cases "16 \<le> length acc")
    case True
    then show ?thesis using 1(3) by (auto simp: ipv6_loop.simps)
  next
    case False
    obtain b where b: "length acc = 2 * b" using 1(4) by (auto elim!: evenE)
    have "16 - 2 * b = 2 * (8 - b)" "14 - 2 * b = 2 * (7 - b)" "b < 8" using False b by simp_all
    then have g: "5 * ((16 - length acc) div 2) = 5 * ((16 - length acc') div 2) + 5"
      by (simp add: acc'_def hex_group_def Let_def b)
    have len: "length ds \<le> 4" "ds \<noteq> []" using 1(3) False by (auto simp: ipv6_loop.simps [of ell acc s] Let_def ds_def split: if_splits)
    show ?thesis
    proof (cases rest)
      case Nil
      then show ?thesis using s len g by simp
    next
      case (Cons c r)
      show ?thesis
      proof (cases "c = CHR ''.''")
        case True
        then have "parseIPv4 s \<noteq> None"
          using 1(3) False Cons len by (auto simp: ipv6_loop.simps [of ell acc s] Let_def ds_def rest_def split: if_splits option.splits)
        then show ?thesis using parseIPv4_text by fastforce
      next
        case dot: False
        then have c: "c = CHR '':''" "r \<noteq> []"
          using 1(3) False Cons len by (auto simp: ipv6_loop.simps [of ell acc s] Let_def ds_def rest_def split: if_splits)
        have step: "ipv6_loop ell acc s = (if hd r = CHR '':'' then
            (if ell \<noteq> None then None else if tl r = [] then Some (acc', Some (length acc'), []) else ipv6_loop (Some (length acc')) acc' (tl r))
            else ipv6_loop ell acc' r)"
          using False Cons len c by (subst ipv6_loop.simps) (simp add: Let_def ds_def rest_def acc'_def)
        obtain x r' where r: "r = x # r'" using c(2) by (cases r) simp_all
        show ?thesis
        proof (cases "hd r = CHR '':''")
          case True
          then show ?thesis
            using 1(1) [OF False ds_def rest_def acc'_def _ Cons dot _ c(2) True] 1(3) step even len s g Cons c r
            by (auto split: if_splits)
        next
          case colon: False
          then show ?thesis
            using 1(2) [OF False ds_def rest_def acc'_def _ Cons dot _ c(2) colon] 1(3) step even len s g Cons c r
            by (auto split: if_splits)
        qed
      qed
    qed
  qed
qed

lemma ParseIP_text:
  assumes "ParseIP s = Some a"
  shows "length s \<le> 64"
proof -
  have "length s \<le> 60" if p: "parseIPv6 s = Some b" for b
  proof (cases "HasPrefix s ''::''")
    case True
    show ?thesis
    proof (cases "length s = 2")
      case False
      then obtain c e where "ipv6_loop (Some 0) [] (drop 2 s) = Some (c, e, [])"
        using p True by (auto simp: parseIPv6_def ipv6_finish_def bind_eq_Some_conv split: if_splits)
      from ipv6_loop_text [OF this] show ?thesis by simp
    qed simp
  next
    case False
    then obtain c e where "ipv6_loop None [] s = Some (c, e, [])"
      using p False by (auto simp: parseIPv6_def ipv6_finish_def bind_eq_Some_conv split: if_splits)
    from ipv6_loop_text [OF this] show ?thesis by simp
  qed
  then show ?thesis
    using assms parseIPv4_text by (fastforce simp: ParseIP_def ParseAddr_def split: option.splits if_splits)
qed

subsection \<open>Lists of hops\<close>

lemma StrSplit_single: "c \<notin> set s \<Longrightarrow> StrSplit c s = [s]"
  by (induction s) auto

lemma valid_ip_text: "valid_ip ip \<Longrightarrow> length ip \<le> 64 \<and> ip \<noteq> []"
  using ParseIP_text [of ip]
  by (cases "ip = []") (auto simp: valid_ip_def IsValidIPv4_def IsValidIPv6_def ParseIP_def ParseAddr_def split: option.splits)

lemma find_rev_first: "P x \<Longrightarrow> \<forall>y \<in> set ys. \<not> P y \<Longrightarrow> find P (rev (xs @ x # ys)) = Some x"
proof -
  assume "P x" "\<forall>y \<in> set ys. \<not> P y"
  then have "find P (zs @ x # ws) = Some x" if "set zs \<subseteq> set ys" for zs ws using that by (induction zs) auto
  then show ?thesis by simp
qed

text \<open>An address of the infrastructure: a trusted proxy by an entry that is not too wide.\<close>

definition infra :: "provider_ranges \<Rightarrow> manage_config \<Rightarrow> string \<Rightarrow> bool" where
  "infra ps cfg ip = (case trustManageProxy ps cfg ip of (trusted, by, narrow) \<Rightarrow> trusted \<and> narrow)"

definition proxy_headers :: "manage_config \<Rightarrow> string list" where
  "proxy_headers cfg = filter (\<lambda>h. h \<noteq> []) (map TrimSpace (StrSplit (CHR '','') (GCONFIG_MANAGE_PROXY_HEADER cfg)))"

lemma manage_hop_simps:
  "hop_Valid (manage_hop ps cfg part) \<longleftrightarrow> valid_ip (TrimSpace part)"
  "hop_Trusted (manage_hop ps cfg part) \<longleftrightarrow> valid_ip (TrimSpace part) \<and> infra ps cfg (TrimSpace part)"
  "valid_ip (TrimSpace part) \<Longrightarrow> hop_IP (manage_hop ps cfg part) = TrimSpace part"
  using valid_ip_text [of "TrimSpace part"]
  by (auto simp: manage_hop_def Let_def valid_ip_def infra_def maxManageProxyHopEcho_def split: prod.splits)

lemma Trace_not_infra:
  assumes "\<not> infra ps cfg remoteIP"
  shows "GetManageClientIP ps cfg r remoteIP = remoteIP"
  using assms by (auto simp: GetManageClientIP_def TraceManageClientIP_def infra_def Let_def split: prod.splits)

lemma Trace_infra:
  assumes "infra ps cfg remoteIP" "TrimSpace (GCONFIG_MANAGE_PROXY_HEADER cfg) \<noteq> []" "proxy_headers cfg = header # others"
    "find (\<lambda>hop. hop_Valid hop \<and> \<not> hop_Trusted hop) (rev (ht_Hops (buildManageHeaderTrace ps cfg r header))) = Some hop"
  shows "GetManageClientIP ps cfg r remoteIP = normalizeIPText (hop_IP hop)"
proof -
  obtain b where "trustManageProxy ps cfg remoteIP = (True, b, True)" using assms(1) by (auto simp: infra_def split: prod.splits)
  then show ?thesis
    using assms(2-4) by (simp add: GetManageClientIP_def TraceManageClientIP_def proxy_headers_def Let_def)
qed

text \<open>A header value that ends with \<open>own\<close>: nothing stands before it, or a text that ends with a comma.\<close>

definition ends_with_hops :: "string \<Rightarrow> string \<Rightarrow> bool" where
  "ends_with_hops own val \<longleftrightarrow> HasSuffix val own \<and> (length val = length own \<or> val ! (length val - length own - 1) = CHR '','')"

lemma ends_with_hops_split:
  assumes "ends_with_hops own val"
  obtains hops where "StrSplit (CHR '','') val = hops @ StrSplit (CHR '','') own"
proof (cases "length val = length own")
  case True
  then have "StrSplit (CHR '','') val = [] @ StrSplit (CHR '','') own" using assms by (simp add: ends_with_hops_def HasSuffix_def)
  then show thesis by (rule that)
next
  case False
  define n where "n = length val - length own - 1"
  have "length own \<le> length val" using assms by (simp add: ends_with_hops_def HasSuffix_def)
  then have l: "length val = Suc (n + length own)" using False unfolding n_def by arith
  have "val = take n val @ val ! n # drop (Suc n) val" using l by (intro id_take_nth_drop) simp
  moreover have "drop (Suc n) val = own" "val ! n = CHR '',''" using l False assms by (simp_all add: ends_with_hops_def HasSuffix_def)
  ultimately have "val = take n val @ CHR '','' # own" by simp
  then have "StrSplit (CHR '','') val = StrSplit (CHR '','') (take n val) @ StrSplit (CHR '','') own" using StrSplit_append by metis
  then show thesis by (rule that)
qed

lemma header_hops:
  assumes "ends_with_hops own (Header_Get r header)" "own \<noteq> []" "count_list (Header_Get r header) (CHR '','') < maxManageProxyHops"
  obtains hops where "ht_Hops (buildManageHeaderTrace ps cfg r header) =
    map (manage_hop ps cfg) hops @ map (manage_hop ps cfg) (StrSplit (CHR '','') own)"
proof -
  obtain hops where h: "StrSplit (CHR '','') (Header_Get r header) = hops @ StrSplit (CHR '','') own"
    using ends_with_hops_split [OF assms(1)] by blast
  have "Header_Get r header \<noteq> []" using assms(1,2) by (auto simp: ends_with_hops_def HasSuffix_def)
  then have "ht_Hops (buildManageHeaderTrace ps cfg r header) = map (manage_hop ps cfg) hops @ map (manage_hop ps cfg) (StrSplit (CHR '','') own)"
    using assms(3) h by (simp add: buildManageHeaderTrace_def Let_def not_le)
  then show thesis by (rule that)
qed

text \<open>
  C28. The administration pages cannot be deceived about the client by forged headers. A request whose network peer is not a
  trusted proxy, or is one only by an entry too wide to mean anything, is attributed to its peer, whatever headers it
  carries. Behind a trusted proxy, let the first configured header hold fewer than 64 commas and end with an address that is not
  of the infrastructure and what the own proxies appended after it: then the client is that address, the last one in
  the header that is not one of them, whatever the client has written before it. (A header with 64 commas or more is not covered:
  lemma \<open>too_long_header_falls_through\<close>.)
\<close>

theorem manage_ip_not_forged:
  "(\<not> infra ps cfg remoteIP \<longrightarrow> GetManageClientIP ps cfg r remoteIP = remoteIP) \<and>
   (infra ps cfg remoteIP \<and> TrimSpace (GCONFIG_MANAGE_PROXY_HEADER cfg) \<noteq> [] \<and> proxy_headers cfg = header # others \<and>
    ends_with_hops own (Header_Get r header) \<and> count_list (Header_Get r header) (CHR '','') < maxManageProxyHops \<and>
    map TrimSpace (StrSplit (CHR '','') own) = client # proxies \<and> valid_ip client \<and> \<not> infra ps cfg client \<and>
    (\<forall>p \<in> set proxies. valid_ip p \<longrightarrow> infra ps cfg p) \<longrightarrow>
      GetManageClientIP ps cfg r remoteIP = normalizeIPText client)"
proof (intro conjI impI; (elim conjE)?)
  assume peer: "infra ps cfg remoteIP" and conf: "TrimSpace (GCONFIG_MANAGE_PROXY_HEADER cfg) \<noteq> []" "proxy_headers cfg = header # others"
    and val: "ends_with_hops own (Header_Get r header)" "count_list (Header_Get r header) (CHR '','') < maxManageProxyHops"
    and hops: "map TrimSpace (StrSplit (CHR '','') own) = client # proxies"
    and client: "valid_ip client" "\<not> infra ps cfg client" and proxies: "\<forall>p \<in> set proxies. valid_ip p \<longrightarrow> infra ps cfg p"
  obtain c cs where own: "StrSplit (CHR '','') own = c # cs" using hops by (cases "StrSplit (CHR '','') own") auto
  then have c: "TrimSpace c = client" and cs: "map TrimSpace cs = proxies" using hops by simp_all
  have "own \<noteq> []" using c own valid_ip_text [OF client(1)] by (auto simp: TrimSpace_def trim_by_stop)
  then obtain pre where t: "ht_Hops (buildManageHeaderTrace ps cfg r header) =
      map (manage_hop ps cfg) pre @ map (manage_hop ps cfg) (StrSplit (CHR '','') own)" using header_hops [OF val(1) _ val(2)] by blast
  let ?P = "\<lambda>hop. hop_Valid hop \<and> \<not> hop_Trusted hop"
  have "\<not> ?P (manage_hop ps cfg x)" if "x \<in> set cs" for x
  proof -
    have "TrimSpace x \<in> set proxies" using that cs by auto
    then show ?thesis using proxies by (simp add: manage_hop_simps)
  qed
  then have "find ?P (rev (map (manage_hop ps cfg) pre @ manage_hop ps cfg c # map (manage_hop ps cfg) cs)) = Some (manage_hop ps cfg c)"
    using client c by (intro find_rev_first) (auto simp: manage_hop_simps)
  then have "GetManageClientIP ps cfg r remoteIP = normalizeIPText (hop_IP (manage_hop ps cfg c))"
    using Trace_infra [OF peer conf] t own by simp
  then show "GetManageClientIP ps cfg r remoteIP = normalizeIPText client" using c client(1) by (simp add: manage_hop_simps)
qed (simp add: Trace_not_infra)

text \<open>
  The limit on the number of hops opens a way around: a header with too many hops is dropped as a whole, and the next configured header
  is read, which the proxies may not maintain.
\<close>

lemma too_long_header_falls_through:
  assumes "TrimSpace (GCONFIG_MANAGE_PROXY_HEADER cfg) \<noteq> []" "proxy_headers cfg = header # next_header # others" "infra ps cfg remoteIP"
    "maxManageProxyHops \<le> count_list (Header_Get r header) (CHR '','')" "Header_Get r next_header = forged"
    "CHR '','' \<notin> set forged" "TrimSpace forged = forged" "valid_ip forged" "\<not> infra ps cfg forged"
  shows "GetManageClientIP ps cfg r remoteIP = normalizeIPText forged"
proof -
  obtain b where t: "trustManageProxy ps cfg remoteIP = (True, b, True)" using assms(3) by (auto simp: infra_def split: prod.splits)
  have h: "hop_Valid (manage_hop ps cfg forged)" "\<not> hop_Trusted (manage_hop ps cfg forged)" "hop_IP (manage_hop ps cfg forged) = forged"
    using assms(7-9) by (simp_all add: manage_hop_simps)
  have e: "ht_Hops (buildManageHeaderTrace ps cfg r header) = []" using assms(4) by (simp add: buildManageHeaderTrace_def Let_def)
  have "count_list forged (CHR '','') = 0" using assms(6) by simp
  then have n: "ht_Hops (buildManageHeaderTrace ps cfg r next_header) = [manage_hop ps cfg forged]"
    using assms(5,6) valid_ip_text [OF assms(8)]
    by (simp add: buildManageHeaderTrace_def Let_def StrSplit_single maxManageProxyHops_def)
  show ?thesis
    using t assms(1,2) h e n by (simp add: GetManageClientIP_def TraceManageClientIP_def proxy_headers_def Let_def)
qed

subsection \<open>Sites\<close>

text \<open>
  C29. The client of a site's request, in the four modes that do not simply believe the program's proxy header. In the network-address mode it is the
  peer. Counting hops from the right, by trusted networks or by depth, it is the address that the first own proxy
  appended, whatever the client has written to its left. Taking a header under the condition of a trusted peer, or by the
  preset of a CDN, a request from a peer that is not trusted is attributed to that peer, whatever headers it
  carries, and one from a trusted peer to the first address in the header that peer sent, or to the peer if there is none. (Counting
  hops believes the peer itself: lemma \<open>xff_depth_direct_forgery\<close>. The header mode without a list of trusted peers believes every header.)
\<close>

theorem site_ip_not_forged:
  assumes "trusted = TrimSpace (is_IPTrustProxies h)" "splitRemoteAddr remote = Some (peer, port)"
    "xff = (if TrimSpace (is_IPRealHeader h) = [] then ''X-Forwarded-For'' else is_IPRealHeader h)"
    "cdn_header = (if TrimSpace (is_IPRealHeader h) = [] then DefaultHeader (is_CDNProvider h) else is_IPRealHeader h)"
    "cdn_peer \<longleftrightarrow> IsProviderIP ps (is_CDNProvider h) peer \<or> (trusted \<noteq> [] \<and> ipInCIDRList peer (is_IPTrustProxies h))"
    "client = fst (getBizClientIP ps ph now r remote h ws)"
  shows "(is_IPSourceMode h = ''nic'' \<longrightarrow> client = Some (peer, port)) \<and>
    (is_IPSourceMode h = ''xff_depth'' \<and> ends_with_hops own (Header_Get r xff) \<and>
       filter valid_ip (map TrimSpace (StrSplit (CHR '','') own)) = appended # proxies \<and>
       (if trusted \<noteq> [] then \<not> ipInCIDRList appended trusted \<and> (\<forall>p \<in> set proxies. ipInCIDRList p trusted)
        else max 1 (is_IPTrustDepth h) = int (length (appended # proxies))) \<longrightarrow> client = Some (appended, ''0'')) \<and>
    (is_IPSourceMode h = ''header'' \<and> trusted \<noteq> [] \<longrightarrow>
       client = (if ipInCIDRList peer trusted \<and> headerFirstValidIP r (is_IPRealHeader h) \<noteq> []
                 then Some (headerFirstValidIP r (is_IPRealHeader h), ''0'') else Some (peer, port))) \<and>
    (is_IPSourceMode h = ''cdn_preset'' \<longrightarrow>
       client = (if cdn_peer \<and> headerFirstValidIP r cdn_header \<noteq> []
                 then Some (headerFirstValidIP r cdn_header, ''0'') else Some (peer, ''0'')))"
proof -
  have "extractXFFDepth r h = appended \<and> appended \<noteq> []"
    if val: "ends_with_hops own (Header_Get r xff)" and hops: "filter valid_ip (map TrimSpace (StrSplit (CHR '','') own)) = appended # proxies"
    and count: "if trusted \<noteq> [] then \<not> ipInCIDRList appended trusted \<and> (\<forall>p \<in> set proxies. ipInCIDRList p trusted)
        else max 1 (is_IPTrustDepth h) = int (length (appended # proxies))"
  proof -
    obtain hs where "StrSplit (CHR '','') (Header_Get r xff) = hs @ StrSplit (CHR '','') own" using ends_with_hops_split [OF val] by blast
    then obtain pre where parts: "filter valid_ip (map TrimSpace (StrSplit (CHR '','') (Header_Get r xff))) = pre @ appended # proxies"
      using hops by simp
    have "\<not> valid_ip (TrimSpace [])" using valid_ip_text by (auto simp: TrimSpace_def trim_by_stop)
    then have "Header_Get r xff \<noteq> []" using parts by (intro notI) simp
    then have x: "extractXFFDepth r h =
        (if trusted \<noteq> [] then (case find (\<lambda>p. \<not> ipInCIDRList p trusted) (rev (pre @ appended # proxies)) of None \<Rightarrow> [] | Some p \<Rightarrow> p)
         else (let idx = int (length (pre @ appended # proxies)) - max 1 (is_IPTrustDepth h)
               in if idx < 0 \<or> int (length (pre @ appended # proxies)) \<le> idx then [] else (pre @ appended # proxies) ! nat idx))"
      unfolding extractXFFDepth_def Let_def assms(3) [symmetric] assms(1) [symmetric] parts by (simp add: max_def)
    have "appended \<in> set (filter valid_ip (map TrimSpace (StrSplit (CHR '','') own)))" unfolding hops by simp
    then have "appended \<noteq> []" using valid_ip_text by auto
    moreover have "extractXFFDepth r h = appended"
    proof (cases "trusted = []")
      case True
      then show ?thesis using count unfolding x Let_def by (simp add: nth_append)
    next
      case False
      then show ?thesis using count x find_rev_first [of "\<lambda>p. \<not> ipInCIDRList p trusted" appended proxies pre] by simp
    qed
    ultimately show ?thesis by simp
  qed
  then show ?thesis
    using assms(1,2,4,5) unfolding assms(6)
    by (auto simp: getBizClientIP_def extractCDNPreset_def Let_def simp del: filter_map)
qed

text \<open>Counting hops by depth never looks at the peer: a client that reaches the engine directly is who it says it is.\<close>

lemma xff_depth_direct_forgery:
  assumes "is_IPSourceMode h = ''xff_depth''" "TrimSpace (is_IPRealHeader h) = []" "TrimSpace (is_IPTrustProxies h) = []" "is_IPTrustDepth h \<le> 1"
    "Header_Get r ''X-Forwarded-For'' = forged" "valid_ip forged" "CHR '','' \<notin> set forged" "TrimSpace forged = forged"
  shows "fst (getBizClientIP ps ph now r remote h ws) = Some (forged, ''0'')"
  using assms valid_ip_text [OF assms(6)]
  by (simp add: getBizClientIP_def extractXFFDepth_def Let_def StrSplit_single)

definition demo_forwarded :: http_request where
  "demo_forwarded = \<lparr>hr_Method = ''GET'', hr_Host = ''a.b'', hr_Path = ''/'', hr_RawQuery = [], hr_TLS = False,
     hr_Header = [(''X-Forwarded-For'', ''1.1.1.1,9.9.9.9,10.0.0.1'')], hr_Cookies = [], hr_Query = []\<rparr>"

definition demo_manage :: manage_config where
  "demo_manage = \<lparr>GCONFIG_MANAGE_PROXY_HEADER = ''X-Forwarded-For'', GCONFIG_MANAGE_TRUSTED_PROXIES = ''10.0.0.1'', GCONFIG_MANAGE_CDN_PROVIDER = []\<rparr>"

definition demo_source :: ip_source where
  "demo_source = \<lparr>is_Code = ''h1'', is_IPSourceMode = ''xff_depth'', is_IPRealHeader = [], is_IPTrustProxies = [], is_IPTrustDepth = 2,
     is_CDNProvider = []\<rparr>"

lemma demo_trim: "TrimSpace ''9.9.9.9'' = ''9.9.9.9''" "TrimSpace ''10.0.0.1'' = ''10.0.0.1''" "TrimSpace [] = []"
  "TrimSpace ''X-Forwarded-For'' = ''X-Forwarded-For''"
  by (simp_all add: go_str_simps)

lemma demo_addresses: "ParseIP ''9.9.9.9'' = Some (v4InV6Prefix @ [9, 9, 9, 9])" "ParseIP ''10.0.0.1'' = Some (v4InV6Prefix @ [10, 0, 0, 1])"
  by (simp_all add: go_str_simps go_net_simps)

lemma demo_valid: "valid_ip ''9.9.9.9''" "valid_ip ''10.0.0.1''"
  by (simp_all add: valid_ip_def IsValidIPv4_def demo_addresses To4_def v4InV6Prefix_def)

lemma demo_infra: "infra Map.empty demo_manage ''10.0.0.1''" "\<not> infra Map.empty demo_manage ''9.9.9.9''"
  by (simp_all add: infra_def trustManageProxy_def Let_def demo_manage_def demo_trim demo_addresses EqualFold_def ToLower_def lower_char_def IP_Equal_def v4InV6Prefix_def)

lemma demo_header: "Header_Get demo_forwarded ''X-Forwarded-For'' = ''1.1.1.1'' @ CHR '','' # ''9.9.9.9,10.0.0.1''"
  by (simp add: Header_Get_def Header_Values_def demo_forwarded_def EqualFold_def)

lemma demo_ends: "ends_with_hops ''9.9.9.9,10.0.0.1'' (Header_Get demo_forwarded ''X-Forwarded-For'')"
  unfolding demo_header by (simp add: ends_with_hops_def HasSuffix_def)

theorem site_ip_not_forged_witness:
  "fst (getBizClientIP Map.empty [] 0 demo_forwarded ''10.0.0.1:443'' demo_source \<lparr>ws_warnAt = Map.empty, ws_warned = []\<rparr>) = Some (''9.9.9.9'', ''0'')"
proof -
  have "splitRemoteAddr ''10.0.0.1:443'' = Some (''10.0.0.1'', ''443'')" by (simp add: splitRemoteAddr_def SplitHostPort_def)
  from site_ip_not_forged [OF refl this refl refl refl refl, of demo_source Map.empty "[]" 0 demo_forwarded "\<lparr>ws_warnAt = Map.empty, ws_warned = []\<rparr>"
      "''9.9.9.9,10.0.0.1''" "''9.9.9.9''" "[''10.0.0.1'']"]
  show ?thesis using demo_ends demo_valid by (simp add: demo_source_def demo_trim)
qed

theorem manage_ip_not_forged_witness: "GetManageClientIP Map.empty demo_manage demo_forwarded ''10.0.0.1'' = normalizeIPText ''9.9.9.9''"
proof -
  have h: "proxy_headers demo_manage = [''X-Forwarded-For'']" "TrimSpace (GCONFIG_MANAGE_PROXY_HEADER demo_manage) \<noteq> []"
    by (simp_all add: proxy_headers_def demo_manage_def demo_trim)
  have "count_list (Header_Get demo_forwarded ''X-Forwarded-For'') (CHR '','') < maxManageProxyHops"
    unfolding demo_header by (simp add: maxManageProxyHops_def)
  then show ?thesis
    using manage_ip_not_forged [of Map.empty demo_manage "''10.0.0.1''" demo_forwarded "''X-Forwarded-For''" "[]" "''9.9.9.9,10.0.0.1''"
        "''9.9.9.9''" "[''10.0.0.1'']"]
      h demo_ends demo_infra demo_valid
    by (simp add: demo_trim)
qed

end
