(* ===== verification/Go_Url.thy ===== *)
theory Go_Url
  imports Waf_Prelude
begin

text \<open>
  The part of package net/url that the modelled sources call: \<open>url.Parse\<close>, of its result the fields Host and Path, and
  \<open>URL.Hostname\<close>. The check of an IP literal in brackets differs between releases of the library and is the argument \<open>lit\<close>:
  the host text that stands for it, or \<open>None\<close> for an error. Nothing here relies on it.
\<close>

subsection \<open>Escapes\<close>

definition is_alpha :: "char \<Rightarrow> bool" where
  "is_alpha c \<longleftrightarrow> (97 \<le> char_code c \<and> char_code c \<le> 122) \<or> (65 \<le> char_code c \<and> char_code c \<le> 90)"

definition is_alnum :: "char \<Rightarrow> bool" where
  "is_alnum c \<longleftrightarrow> is_alpha c \<or> is_digit c"

definition host_char :: "char \<Rightarrow> bool" where
  "host_char c \<longleftrightarrow> is_alnum c \<or> 128 \<le> char_code c \<or> c \<in> set ''!$&()*+,;=:[]<>-_.~'' \<or> char_code c = 39 \<or> char_code c = 34"

definition unhex :: "char \<Rightarrow> nat option" where
  "unhex c = digit_val 16 c"

text \<open>\<open>unescape\<close>; in a host only bytes outside ASCII and the percent sign may be escaped, and only some characters may stand.\<close>

fun unescape :: "bool \<Rightarrow> string \<Rightarrow> string option" where
  "unescape in_host [] = Some []"
| "unescape in_host (c # cs) =
     (if c = CHR ''%'' then
        (case cs of
           a # b # rest \<Rightarrow>
             (case (unhex a, unhex b) of
                (Some x, Some y) \<Rightarrow>
                  if in_host \<and> x < 8 \<and> \<not> (a = CHR ''2'' \<and> b = CHR ''5'') then None
                  else map_option (\<lambda>s. char_of (16 * x + y) # s) (unescape in_host rest)
              | _ \<Rightarrow> None)
         | _ \<Rightarrow> None)
      else if in_host \<and> \<not> host_char c then None
      else map_option (\<lambda>s. c # s) (unescape in_host cs))"

subsection \<open>The parts of a URL\<close>

text \<open>\<open>getScheme\<close>: the scheme and the rest; \<open>None\<close> when a colon comes first.\<close>

definition scheme_char :: "char \<Rightarrow> bool" where
  "scheme_char c \<longleftrightarrow> is_alnum c \<or> c \<in> set ''+-.''"

definition getScheme :: "string \<Rightarrow> (string \<times> string) option" where
  "getScheme s =
     (let a = takeWhile scheme_char s; b = dropWhile scheme_char s
      in if a \<noteq> [] \<and> \<not> is_alpha (hd a) then Some ([], s)
         else if b \<noteq> [] \<and> hd b = CHR '':'' then (if a = [] then None else Some (a, tl b))
         else Some ([], s))"

definition validOptionalPort :: "string \<Rightarrow> bool" where
  "validOptionalPort p \<longleftrightarrow> p = [] \<or> (hd p = CHR '':'' \<and> list_all is_digit (tl p))"

text \<open>From the last occurrence of a character on, and what stands before it.\<close>

definition from_last :: "char \<Rightarrow> string \<Rightarrow> string" where
  "from_last c s = (if c \<in> set s then c # rev (takeWhile (\<lambda>x. x \<noteq> c) (rev s)) else [])"

definition before_last :: "char \<Rightarrow> string \<Rightarrow> string" where
  "before_last c s = (if c \<in> set s then take (length s - length (from_last c s)) s else s)"

definition parseHost :: "(string \<Rightarrow> string option) \<Rightarrow> string \<Rightarrow> string option" where
  "parseHost lit host =
     (if CHR ''['' \<in> set host then lit host
      else if CHR '':'' \<in> set host \<and> \<not> validOptionalPort (from_last (CHR '':'') host) then None
      else unescape True host)"

definition userinfo_char :: "char \<Rightarrow> bool" where
  "userinfo_char c \<longleftrightarrow> is_alnum c \<or> c \<in> set ''-._:~!$&()*+,;=%@'' \<or> char_code c = 39"

definition parseAuthority :: "(string \<Rightarrow> string option) \<Rightarrow> string \<Rightarrow> string option" where
  "parseAuthority lit authority =
     (if CHR ''@'' \<notin> set authority then parseHost lit authority
      else
        (case parseHost lit (tl (from_last (CHR ''@'') authority)) of
           None \<Rightarrow> None
         | Some host \<Rightarrow>
             (let userinfo = before_last (CHR ''@'') authority
              in if \<not> list_all userinfo_char userinfo then None
                 else if list_ex (\<lambda>p. unescape False p = None) (StrSplitN2 (CHR '':'') userinfo) then None
                 else Some host)))"

record url =
  url_Host :: string
  url_Path :: string

definition ctl_byte :: "char \<Rightarrow> bool" where
  "ctl_byte c \<longleftrightarrow> char_code c < 32 \<or> char_code c = 127"

definition cut_before :: "char \<Rightarrow> string \<Rightarrow> string" where
  "cut_before c s = takeWhile (\<lambda>x. x \<noteq> c) s"

definition parse_hier :: "(string \<Rightarrow> string option) \<Rightarrow> string \<Rightarrow> string \<Rightarrow> url option" where
  "parse_hier lit scheme rest =
     (if (scheme \<noteq> [] \<or> \<not> HasPrefix rest ''///'') \<and> HasPrefix rest ''//'' then
        (let a = drop 2 rest; authority = cut_before (CHR ''/'') a; path = drop (length authority) a
         in case parseAuthority lit authority of
              None \<Rightarrow> None
            | Some host \<Rightarrow> map_option (\<lambda>p. \<lparr>url_Host = host, url_Path = p\<rparr>) (unescape False path))
      else map_option (\<lambda>p. \<lparr>url_Host = [], url_Path = p\<rparr>) (unescape False rest))"

definition parse_url :: "(string \<Rightarrow> string option) \<Rightarrow> string \<Rightarrow> url option" where
  "parse_url lit raw =
     (if list_ex ctl_byte raw then None
      else if raw = ''*'' then Some \<lparr>url_Host = [], url_Path = ''*''\<rparr>
      else
        (case getScheme raw of
           None \<Rightarrow> None
         | Some (scheme, rest0) \<Rightarrow>
             (let rest = cut_before (CHR ''?'') rest0
              in if \<not> HasPrefix rest ''/'' then
                   (if scheme \<noteq> [] then Some \<lparr>url_Host = [], url_Path = []\<rparr>
                    else if CHR '':'' \<in> set (cut_before (CHR ''/'') rest) then None
                    else parse_hier lit scheme rest)
                 else parse_hier lit scheme rest)))"

definition Parse :: "(string \<Rightarrow> string option) \<Rightarrow> string \<Rightarrow> url option" where
  "Parse lit rawURL =
     (let u = cut_before (CHR ''#'') rawURL; frag = drop (Suc (length u)) rawURL
      in case parse_url lit u of None \<Rightarrow> None
         | Some p \<Rightarrow> if unescape False frag = None then None else Some p)"

text \<open>\<open>URL.Hostname\<close>: the host without its port and brackets.\<close>

definition Hostname :: "string \<Rightarrow> string" where
  "Hostname hostPort =
     (let host = (if CHR '':'' \<in> set hostPort \<and> validOptionalPort (from_last (CHR '':'') hostPort)
                  then before_last (CHR '':'') hostPort else hostPort)
      in if HasPrefix host ''['' \<and> HasSuffix host '']'' then butlast (tl host) else host)"

section \<open>Origins\<close>

text \<open>A name of a host as browsers write it in an origin.\<close>

definition name_char :: "char \<Rightarrow> bool" where
  "name_char c \<longleftrightarrow> is_alnum c \<or> c = CHR ''-'' \<or> c = CHR ''.''"

lemma name_char_cases:
  assumes "name_char c"
  shows "host_char c" "c \<noteq> CHR ''%''" "c \<noteq> CHR ''@''" "c \<noteq> CHR '':''" "c \<noteq> CHR ''[''" "c \<noteq> CHR ''/''" "c \<noteq> CHR ''?''" "c \<noteq> CHR ''#''" "\<not> ctl_byte c"
  using assms by (auto simp: name_char_def host_char_def is_alnum_def is_alpha_def is_digit_def ctl_byte_def)

lemma digit_cases:
  assumes "is_digit c"
  shows "host_char c" "c \<noteq> CHR ''%''" "c \<noteq> CHR ''@''" "c \<noteq> CHR '':''" "c \<noteq> CHR ''[''" "c \<noteq> CHR ''/''" "c \<noteq> CHR ''?''" "c \<noteq> CHR ''#''" "\<not> ctl_byte c"
  using assms by (auto simp: host_char_def is_alnum_def is_alpha_def is_digit_def ctl_byte_def)

lemma unescape_plain: "list_all (\<lambda>c. c \<noteq> CHR ''%'' \<and> (in_host \<longrightarrow> host_char c)) s \<Longrightarrow> unescape in_host s = Some s"
  by (induction s) simp_all

lemma from_last_append: "c \<notin> set b \<Longrightarrow> from_last c (a @ c # b) = c # b"
proof -
  assume "c \<notin> set b"
  then have "takeWhile (\<lambda>x. x \<noteq> c) (rev b @ c # rev a) = rev b" by (subst takeWhile_append2) auto
  then show ?thesis by (simp add: from_last_def)
qed

lemma before_last_append: "c \<notin> set b \<Longrightarrow> before_last c (a @ c # b) = a"
  by (simp add: before_last_def from_last_append)

lemma cut_before_none: "c \<notin> set s \<Longrightarrow> cut_before c s = s"
  unfolding cut_before_def takeWhile_eq_all_conv by blast

lemma cut_before_append: "c \<notin> set a \<Longrightarrow> cut_before c (a @ c # b) = a"
  unfolding cut_before_def by (subst takeWhile_append2) auto

text \<open>The text of a port: empty, or a colon and digits.\<close>

definition port_text :: "string \<Rightarrow> bool" where
  "port_text p \<longleftrightarrow> p = [] \<or> (\<exists>ds. p = CHR '':'' # ds \<and> list_all is_digit ds)"

text \<open>What may follow the authority: a path, a query or a fragment.\<close>

definition url_tail :: "string \<Rightarrow> bool" where
  "url_tail t \<longleftrightarrow> t = [] \<or> hd t \<in> {CHR ''/'', CHR ''?'', CHR ''#''}"

lemma cut_before_tail:
  assumes "c \<notin> set a"
  shows "cut_before c (a @ t) = a @ cut_before c t"
  using assms unfolding cut_before_def by (subst takeWhile_append2) auto

lemma cut_before_hd: "t = [] \<or> hd t \<in> insert c A \<Longrightarrow> cut_before c t = [] \<or> hd (cut_before c t) \<in> A"
  by (cases t) (auto simp: cut_before_def)

lemma authority_chars:
  assumes "list_all name_char host" "port_text port" "c \<in> set (host @ port)"
  shows "c \<noteq> CHR ''%'' \<and> host_char c \<and> c \<noteq> CHR ''@'' \<and> c \<noteq> CHR ''['' \<and> c \<noteq> CHR ''/'' \<and> c \<noteq> CHR ''?'' \<and> c \<noteq> CHR ''#'' \<and> \<not> ctl_byte c"
proof -
  have "name_char c \<or> is_digit c \<or> c = CHR '':''" using assms by (auto simp: list_all_iff port_text_def)
  then consider "name_char c" | "is_digit c" | "c = CHR '':''" by blast
  then show ?thesis
  proof cases
    case 1
    then show ?thesis using name_char_cases [OF 1] by simp
  next
    case 2
    then show ?thesis using digit_cases [OF 2] by simp
  qed (simp add: host_char_def ctl_byte_def)
qed

lemma parseAuthority_plain:
  assumes "list_all name_char host" "port_text port"
  shows "parseAuthority lit (host @ port) = Some (host @ port)"
proof -
  note auth = authority_chars [OF assms]
  have "validOptionalPort (from_last (CHR '':'') (host @ port))" if c: "CHR '':'' \<in> set (host @ port)"
  proof -
    have "CHR '':'' \<notin> set host" using assms(1) name_char_cases(4) unfolding list_all_iff by blast
    then obtain ds where p: "port = CHR '':'' # ds" and d: "list_all is_digit ds" using c assms(2) by (auto simp: port_text_def)
    have "CHR '':'' \<notin> set ds" using d digit_cases(4) unfolding list_all_iff by blast
    then show ?thesis using p d by (simp add: from_last_append validOptionalPort_def)
  qed
  moreover have "unescape True (host @ port) = Some (host @ port)" using auth by (intro unescape_plain) (auto simp: list_all_iff)
  moreover have "CHR ''['' \<notin> set (host @ port)" "CHR ''@'' \<notin> set (host @ port)" using auth by blast+
  ultimately show ?thesis by (auto simp: parseAuthority_def parseHost_def)
qed

text \<open>A URL with a plain host parses to that host, if it parses at all.\<close>

lemma Parse_plain_host:
  assumes "sch \<noteq> []" "list_all is_alpha sch" "list_all name_char host" "port_text port" "url_tail tail"
    "Parse lit (sch @ ''://'' @ host @ port @ tail) = Some u"
  shows "url_Host u = host @ port"
proof -
  have alpha: "scheme_char c" "c \<noteq> CHR ''#''" "c \<noteq> CHR '':''" if "c \<in> set sch" for c
    using assms(2) that by (auto simp: list_all_iff scheme_char_def is_alnum_def is_alpha_def)
  note auth = authority_chars [OF assms(3,4)]
  define t1 where "t1 = cut_before (CHR ''#'') tail"
  define t2 where "t2 = cut_before (CHR ''?'') t1"
  have t1: "t1 = [] \<or> hd t1 \<in> {CHR ''?'', CHR ''/''}"
    unfolding t1_def using assms(5) by (intro cut_before_hd) (auto simp: url_tail_def)
  have t2: "t2 = [] \<or> hd t2 \<in> {CHR ''/''}" unfolding t2_def using t1 by (intro cut_before_hd) simp
  have f: "cut_before (CHR ''#'') (sch @ ''://'' @ host @ port @ tail) = sch @ ''://'' @ host @ port @ t1"
  proof -
    have "CHR ''#'' \<notin> set (sch @ ''://'' @ host @ port)" using alpha(2) auth by fastforce
    from cut_before_tail [OF this, of tail] show ?thesis by (simp add: t1_def)
  qed
  then have p: "parse_url lit (sch @ ''://'' @ host @ port @ t1) = Some u"
    using assms(6) by (simp add: Parse_def Let_def split: option.splits if_splits)
  have g: "getScheme (sch @ ''://'' @ host @ port @ t1) = Some (sch, ''//'' @ host @ port @ t1)"
  proof -
    have "takeWhile scheme_char (sch @ ''://'' @ host @ port @ t1) = sch"
        "dropWhile scheme_char (sch @ ''://'' @ host @ port @ t1) = ''://'' @ host @ port @ t1"
      using alpha(1) by (simp_all add: takeWhile_append2 dropWhile_append2 scheme_char_def is_alnum_def is_alpha_def is_digit_def)
    moreover have "is_alpha (hd sch)" using assms(1,2) by (cases sch) auto
    ultimately show ?thesis using assms(1) by (simp add: getScheme_def Let_def)
  qed
  have q: "cut_before (CHR ''?'') (''//'' @ host @ port @ t1) = ''//'' @ host @ port @ t2"
  proof -
    have "CHR ''?'' \<notin> set (''//'' @ host @ port)" using auth by fastforce
    from cut_before_tail [OF this, of t1] show ?thesis by (simp add: t2_def)
  qed
  have "sch @ ''://'' @ host @ port @ t1 \<noteq> ''*''" using assms(1) by (cases sch) auto
  then have h: "parse_hier lit sch (''//'' @ host @ port @ t2) = Some u"
    using p g q by (simp add: parse_url_def Let_def HasPrefix_def split: if_splits)
  have "cut_before (CHR ''/'') (host @ port @ t2) = host @ port"
  proof -
    have "CHR ''/'' \<notin> set (host @ port)" using auth by blast
    from cut_before_tail [OF this, of t2] show ?thesis using t2 by (cases t2) (auto simp: cut_before_def)
  qed
  then show ?thesis
    using h assms(1) parseAuthority_plain [OF assms(3,4), of lit] by (auto simp: parse_hier_def HasPrefix_def Let_def)
qed

lemma Parse_origin:
  assumes "sch \<noteq> []" "list_all is_alpha sch" "list_all name_char host" "port_text port"
  shows "Parse lit (sch @ ''://'' @ host @ port) = Some \<lparr>url_Host = host @ port, url_Path = []\<rparr>"
proof -
  let ?u = "sch @ ''://'' @ host @ port"
  have alpha: "scheme_char c" "c \<noteq> CHR ''#''" "\<not> ctl_byte c" "c \<noteq> CHR '':''" if "c \<in> set sch" for c
    using assms(2) that by (auto simp: list_all_iff scheme_char_def is_alnum_def is_alpha_def ctl_byte_def)
  note auth = authority_chars [OF assms(3,4)]
  have "\<not> list_ex ctl_byte ?u" using alpha(3) auth by (auto simp: list_ex_iff ctl_byte_def)
  moreover have f: "cut_before (CHR ''#'') ?u = ?u" using alpha(2) auth by (intro cut_before_none) auto
  moreover have "getScheme ?u = Some (sch, ''//'' @ host @ port)"
  proof -
    have "takeWhile scheme_char ?u = sch" "dropWhile scheme_char ?u = ''://'' @ host @ port"
      using alpha(1) by (simp_all add: takeWhile_append2 dropWhile_append2 scheme_char_def is_alnum_def is_alpha_def is_digit_def)
    moreover have "is_alpha (hd sch)" using assms(1,2) by (cases sch) auto
    ultimately show ?thesis using assms(1) by (simp add: getScheme_def Let_def)
  qed
  moreover have "cut_before (CHR ''?'') (''//'' @ host @ port) = ''//'' @ host @ port" using auth by (intro cut_before_none) auto
  moreover have "cut_before (CHR ''/'') (host @ port) = host @ port" using auth by (intro cut_before_none) auto
  ultimately show ?thesis
    using assms(1) parseAuthority_plain [OF assms(3,4), of lit] by (simp add: Parse_def parse_url_def parse_hier_def HasPrefix_def Let_def)
qed

lemma Hostname_origin:
  assumes "list_all name_char host" "port_text port"
  shows "Hostname (host @ port) = host"
proof -
  have n: "CHR '':'' \<notin> set host" "CHR ''['' \<notin> set host"
    using assms(1) name_char_cases(4,5) unfolding list_all_iff by blast+
  have "\<not> HasPrefix host ''[''" using n(2) by (cases host) (auto simp: HasPrefix_def)
  show ?thesis
  proof (cases "port = []")
    case False
    then obtain ds where p: "port = CHR '':'' # ds" and d: "list_all is_digit ds" using assms(2) by (auto simp: port_text_def)
    have "CHR '':'' \<notin> set ds" using d digit_cases(4) unfolding list_all_iff by blast
    then show ?thesis
      using p d \<open>\<not> HasPrefix host ''[''\<close> by (simp add: Hostname_def from_last_append before_last_append validOptionalPort_def)
  qed (use n \<open>\<not> HasPrefix host ''[''\<close> in \<open>simp add: Hostname_def\<close>)
qed

end
