(* ===== verification/Referer_Check.thy ===== *)
theory Referer_Check
  imports IP_Pattern Http_Model Go_Url Rule_Action
begin

text \<open>
  The checks of where a request comes from: wafenginecore/check_csrf.go (state-changing requests must come from the site itself or an
  allowed origin) and check_antileech.go (protected files must be referred to by an allowed host), with their configurations in
  model/hosts.go. The decoding of the stored JSON and the compiler of regular expressions are arguments.
\<close>

subsection \<open>Cross-site requests\<close>

record CsrfConfig =
  csrf_IsEnable :: int
  csrf_ProtectMethods :: string
  csrf_AllowedOrigins :: string
  csrf_AllowEmptyRef :: int
  csrf_ExcludePaths :: string

definition csrf_default :: CsrfConfig where
  "csrf_default = \<lparr>csrf_IsEnable = 0, csrf_ProtectMethods = ''POST,PUT,DELETE,PATCH'', csrf_AllowedOrigins = [], csrf_AllowEmptyRef = 1,
     csrf_ExcludePaths = []\<rparr>"

text \<open>\<open>decode\<close> is \<open>json.Unmarshal\<close> into a configuration that holds the defaults, \<open>None\<close> for its error.\<close>

definition ParseCsrfConfig :: "(string \<Rightarrow> CsrfConfig \<Rightarrow> CsrfConfig option) \<Rightarrow> string \<Rightarrow> CsrfConfig" where
  "ParseCsrfConfig decode jsonStr =
     (if jsonStr = [] then csrf_default
      else (case decode jsonStr csrf_default of
              None \<Rightarrow> csrf_default
            | Some c \<Rightarrow> if csrf_ProtectMethods c = [] then c\<lparr>csrf_ProtectMethods := ''POST,PUT,DELETE,PATCH''\<rparr> else c))"

definition isCsrfProtectedMethod :: "string \<Rightarrow> string \<Rightarrow> bool" where
  "isCsrfProtectedMethod method0 protectMethods =
     (let method = ToUpper (TrimSpace method0)
      in method \<noteq> [] \<and> list_ex (\<lambda>m. ToUpper (TrimSpace m) = method) (StrSplit (CHR '','') protectMethods))"

definition isCsrfExcludedPath :: "string \<Rightarrow> string \<Rightarrow> bool" where
  "isCsrfExcludedPath path excludePaths =
     (excludePaths \<noteq> [] \<and> list_ex (\<lambda>line. let p = TrimSpace line in p \<noteq> [] \<and> HasPrefix path p) (StrSplit newline excludePaths))"

text \<open>What stands after the first occurrence of a text, the text itself without one.\<close>

fun after_text :: "string \<Rightarrow> string \<Rightarrow> string option" where
  "after_text sub [] = (if sub = [] then Some [] else None)"
| "after_text sub (c # cs) = (if HasPrefix (c # cs) sub then Some (drop (length sub) (c # cs)) else after_text sub cs)"

text \<open>The fall-back for texts that do not parse or have no host.\<close>

definition loose_host :: "string \<Rightarrow> string" where
  "loose_host s =
     (let h = (case after_text ''://'' s of None \<Rightarrow> s | Some r \<Rightarrow> r)
      in takeWhile (\<lambda>c. c \<noteq> CHR '':'') (takeWhile (\<lambda>c. c \<notin> set ''/?#'') h))"

definition extractHostFromOrigin :: "(string \<Rightarrow> string option) \<Rightarrow> string \<Rightarrow> string" where
  "extractHostFromOrigin lit s0 =
     (let s = TrimSpace s0
      in if s = [] then []
         else (case Parse lit s of
                 Some u \<Rightarrow> if url_Host u \<noteq> [] then ToLower (Hostname (url_Host u)) else ToLower (loose_host s)
               | None \<Rightarrow> ToLower (loose_host s)))"

definition isCsrfOriginAllowed :: "string \<Rightarrow> string list \<Rightarrow> bool" where
  "isCsrfOriginAllowed originHost allowedHosts =
     (originHost \<noteq> [] \<and>
      list_ex (\<lambda>allowed.
         allowed \<noteq> [] \<and>
         (if HasPrefix allowed ''*.'' then originHost = TrimPrefix allowed ''*.'' \<or> HasSuffix originHost (TrimPrefix allowed ''*'')
          else originHost = allowed)) allowedHosts)"

definition buildCsrfAllowedHosts :: "(string \<Rightarrow> string option) \<Rightarrow> string \<Rightarrow> string \<Rightarrow> string \<Rightarrow> string list" where
  "buildCsrfAllowedHosts lit reqHost bindMoreHost allowedOrigins =
     (let selfHost = ToLower (TrimSpace (cut_before (CHR '':'') reqHost));
          bound = (if bindMoreHost = [] then [] else map (ToLower \<circ> TrimSpace) (StrSplit newline bindMoreHost));
          origins = (if allowedOrigins = [] then [] else filter (\<lambda>l. l \<noteq> []) (map TrimSpace (StrSplit newline allowedOrigins)))
      in filter (\<lambda>h. h \<noteq> [])
           (selfHost # bound @ map (\<lambda>l. if HasPrefix l ''*.'' then ToLower l else extractHostFromOrigin lit l) origins))"

definition csrf_title :: string where
  "csrf_title = ''CSRF'' @ utf8_text [232, 183, 168, 231, 171, 153, 232, 175, 183, 230, 177, 130, 228, 188, 170, 233, 128, 160, 233, 152, 178, 230, 138, 164]"
definition csrf_text :: string where
  "csrf_text = utf8_text [230, 163, 128, 230, 181, 139, 229, 136, 176, 232, 183, 168, 231, 171, 153, 232, 175, 183, 230, 177, 130, 228, 188, 170, 233, 128, 160]
     @ ''(CSRF)'' @ utf8_text [239, 188, 140, 229, 183, 178, 232, 162, 171, 230, 139, 166, 230, 136, 170]"

definition csrfBlock :: "WebLog \<Rightarrow> detection_Result \<times> WebLog" where
  "csrfBlock lg = (no_result\<lparr>dr_IsBlock := True, dr_Title := csrf_title, dr_Content := csrf_text\<rparr>, lg\<lparr>lg_RISK_LEVEL := 2\<rparr>)"

definition CheckCsrf :: "(string \<Rightarrow> string option) \<Rightarrow> CsrfConfig \<Rightarrow> string \<Rightarrow> http_request \<Rightarrow> WebLog \<Rightarrow> detection_Result \<times> WebLog" where
  "CheckCsrf lit cfg bindMoreHost r lg =
     (if csrf_IsEnable cfg = 0 then (no_result, lg)
      else if \<not> isCsrfProtectedMethod (hr_Method r) (csrf_ProtectMethods cfg) then (no_result, lg)
      else if isCsrfExcludedPath (hr_Path r) (csrf_ExcludePaths cfg) then (no_result, lg)
      else
        (let allowedHosts = buildCsrfAllowedHosts lit (hr_Host r) bindMoreHost (csrf_AllowedOrigins cfg);
             judge = (\<lambda>source. if isCsrfOriginAllowed (extractHostFromOrigin lit source) allowedHosts then (no_result, lg) else csrfBlock lg);
             origin = TrimSpace (Header_Get r ''Origin''); referer = TrimSpace (Header_Get r ''Referer'')
         in if origin \<noteq> [] \<and> \<not> EqualFold origin ''null'' then judge origin
            else if referer \<noteq> [] then judge referer
            else if csrf_AllowEmptyRef cfg = 1 then (no_result, lg) else csrfBlock lg))"

subsection \<open>Referred files\<close>

record AntiLeechConfig =
  IsEnableAntiLeech :: int
  FileTypes :: string
  ValidReferers :: string
  al_Action :: string
  RedirectURL :: string

text \<open>\<open>rx\<close> compiles a regular expression and gives its unanchored match, \<open>None\<close> for an error.\<close>

type_synonym regex = "string \<Rightarrow> (string \<Rightarrow> bool) option"

definition isProtectedFileType :: "regex \<Rightarrow> string \<Rightarrow> string \<Rightarrow> bool" where
  "isProtectedFileType rx path fileTypes =
     (fileTypes \<noteq> [] \<and>
      (case rx (''.*'' @ [backslash] @ ''.('' @ fileTypes @ '')$'') of None \<Rightarrow> False | Some m \<Rightarrow> m (ToLower path)))"

definition referer_keyword :: "string \<Rightarrow> bool" where
  "referer_keyword v \<longleftrightarrow> v = ''none'' \<or> v = ''blocked'' \<or> v = ''server_names''"

definition referer_matches :: "regex \<Rightarrow> string \<Rightarrow> string \<Rightarrow> bool" where
  "referer_matches rx refererHost v =
     (if referer_keyword v then False
      else if HasPrefix v ''~'' then (case rx (TrimPrefix v ''~'') of None \<Rightarrow> False | Some m \<Rightarrow> m refererHost)
      else if HasPrefix v ''*.'' then HasSuffix refererHost (TrimPrefix v ''*'')
      else refererHost = v)"

definition isValidReferer :: "(string \<Rightarrow> string option) \<Rightarrow> regex \<Rightarrow> string \<Rightarrow> string list \<Rightarrow> string list \<Rightarrow> bool" where
  "isValidReferer lit rx referer hosts validReferers =
     (if validReferers = [] then True
      else if referer = [] then ''none'' \<in> set validReferers
      else (case Parse lit referer of
              None \<Rightarrow> ''blocked'' \<in> set validReferers
            | Some u \<Rightarrow>
                (''server_names'' \<in> set validReferers \<and> url_Host u \<in> set hosts) \<or> list_ex (referer_matches rx (url_Host u)) validReferers))"

definition leech_title :: string where
  "leech_title = utf8_text [233, 152, 178, 231, 155, 151, 233, 147, 190, 228, 191, 157, 230, 138, 164]"
definition leech_loop_text :: string where
  "leech_loop_text = utf8_text [230, 163, 128, 230, 181, 139, 229, 136, 176, 233, 135, 141, 229, 174, 154, 229, 144, 145, 229, 190, 170, 231, 142, 175, 239, 188, 140, 229, 183,
     178, 233, 152, 187, 230, 150, 173]"
definition leech_text :: string where
  "leech_text = utf8_text [230, 130, 168, 230, 178, 161, 230, 156, 137, 230, 157, 131, 233, 153, 144, 232, 174, 191, 233, 151, 174, 230, 173, 164, 232, 181, 132, 230, 186, 144]"

definition leech_redirect :: "string \<Rightarrow> string" where
  "leech_redirect target = ''<!DOCTYPE html><html><head><meta http-equiv='' @ [dquote] @ ''refresh'' @ [dquote] @ '' content='' @ [dquote] @ ''0;url='' @ target @
     [dquote] @ ''></head><body>Redirecting...</body></html>''"

definition server_names :: "string \<Rightarrow> string \<Rightarrow> string list" where
  "server_names reqHost bindMoreHost =
     cut_before (CHR '':'') reqHost #
     (if bindMoreHost = [] then [] else filter (\<lambda>l. l \<noteq> []) (map TrimSpace (StrSplit newline bindMoreHost)))"

definition CheckAntiLeech ::
  "(string \<Rightarrow> string option) \<Rightarrow> regex \<Rightarrow> AntiLeechConfig \<Rightarrow> string \<Rightarrow> http_request \<Rightarrow> detection_Result" where
  "CheckAntiLeech lit rx cfg bindMoreHost r =
     (if IsEnableAntiLeech cfg = 0 then no_result
      else if \<not> isProtectedFileType rx (hr_Path r) (FileTypes cfg) then no_result
      else if isValidReferer lit rx (Header_Get r ''Referer'') (server_names (hr_Host r) bindMoreHost) (StrSplit (CHR '';'') (ValidReferers cfg))
        then no_result
      else
        (let refuse = (\<lambda>c. no_result\<lparr>dr_IsBlock := True, dr_Title := leech_title, dr_Content := c\<rparr>);
             looping = (case Parse lit (RedirectURL cfg) of
                          None \<Rightarrow> False
                        | Some u \<Rightarrow> cut_before (CHR '':'') (hr_Host r) = cut_before (CHR '':'') (url_Host u) \<and> HasPrefix (hr_Path r) (url_Path u))
         in if al_Action cfg = ''redirect'' \<and> RedirectURL cfg \<noteq> []
            then refuse (if looping then leech_loop_text else leech_redirect (RedirectURL cfg))
            else refuse leech_text))"

section \<open>Properties\<close>

subsection \<open>Which sources a site accepts\<close>

text \<open>The specification of a pattern of hosts: a name stands for itself, \<open>*.d\<close> for \<open>d\<close> and every name that ends in \<open>.d\<close>.\<close>

definition host_matches :: "string \<Rightarrow> string \<Rightarrow> bool" where
  "host_matches pat h \<longleftrightarrow>
     (\<exists>d. pat = ''*.'' @ d \<and> (h = d \<or> (\<exists>p. h = p @ ''.'' @ d))) \<or> ((\<nexists>d. pat = ''*.'' @ d) \<and> h = pat)"

definition origin_pattern :: "(string \<Rightarrow> string option) \<Rightarrow> string \<Rightarrow> string" where
  "origin_pattern lit l = (if HasPrefix l ''*.'' then ToLower l else extractHostFromOrigin lit l)"

definition accepted_source :: "(string \<Rightarrow> string option) \<Rightarrow> CsrfConfig \<Rightarrow> string \<Rightarrow> string \<Rightarrow> string \<Rightarrow> bool" where
  "accepted_source lit cfg bindMoreHost reqHost h \<longleftrightarrow>
     host_matches (ToLower (TrimSpace (cut_before (CHR '':'') reqHost))) h \<or>
     (\<exists>line \<in> set (StrSplit newline bindMoreHost). host_matches (ToLower (TrimSpace line)) h) \<or>
     (\<exists>line \<in> set (StrSplit newline (csrf_AllowedOrigins cfg)). host_matches (origin_pattern lit (TrimSpace line)) h)"

lemma HasPrefix_ex: "HasPrefix s p \<longleftrightarrow> (\<exists>r. s = p @ r)"
  by (simp add: HasPrefix_iff prefix_def)

lemma HasSuffix_ex: "HasSuffix s p \<longleftrightarrow> (\<exists>r. s = r @ p)"
  unfolding HasSuffix_def by (metis append_take_drop_id append_eq_conv_conj diff_diff_cancel length_append length_drop le_add2 add_diff_cancel_right')

lemma allowed_pattern:
  "(if HasPrefix pat ''*.'' then h = TrimPrefix pat ''*.'' \<or> HasSuffix h (TrimPrefix pat ''*'') else h = pat) \<longleftrightarrow> host_matches pat h"
proof (cases "HasPrefix pat ''*.''")
  case True
  then obtain d where d: "pat = ''*.'' @ d" by (auto simp: HasPrefix_ex)
  have "TrimPrefix pat ''*.'' = d" "TrimPrefix pat ''*'' = ''.'' @ d" by (simp_all add: d TrimPrefix_def HasPrefix_def)
  then show ?thesis using True d by (simp add: host_matches_def HasSuffix_ex)
qed (auto simp: host_matches_def HasPrefix_ex)

lemma host_matches_nonempty: "host_matches pat h \<Longrightarrow> h \<noteq> [] \<Longrightarrow> pat \<noteq> []"
  by (auto simp: host_matches_def)

lemma TrimSpace_nil [simp]: "TrimSpace [] = []"
  by (simp add: TrimSpace_def trim_by_stop)

lemma extract_nil [simp]: "extractHostFromOrigin lit [] = []"
  by (simp add: extractHostFromOrigin_def)

lemma allowed_iff_accepted:
  assumes "h \<noteq> []"
  shows "isCsrfOriginAllowed h (buildCsrfAllowedHosts lit reqHost bind (csrf_AllowedOrigins cfg)) \<longleftrightarrow> accepted_source lit cfg bind reqHost h"
proof -
  define ps where "ps = ToLower (TrimSpace (cut_before (CHR '':'') reqHost)) #
      map (ToLower \<circ> TrimSpace) (StrSplit newline bind) @ map (origin_pattern lit \<circ> TrimSpace) (StrSplit newline (csrf_AllowedOrigins cfg))"
  have low: "ToLower [] = []" by (simp add: ToLower_def)
  have "origin_pattern lit [] = []" by (simp add: origin_pattern_def HasPrefix_def)
  then have "set (buildCsrfAllowedHosts lit reqHost bind (csrf_AllowedOrigins cfg)) = set ps - {[]}"
    using low by (auto simp: buildCsrfAllowedHosts_def ps_def Let_def origin_pattern_def [symmetric])
  then have "isCsrfOriginAllowed h (buildCsrfAllowedHosts lit reqHost bind (csrf_AllowedOrigins cfg)) \<longleftrightarrow> (\<exists>pat \<in> set ps. host_matches pat h)"
    using assms host_matches_nonempty by (auto simp: isCsrfOriginAllowed_def list_ex_iff allowed_pattern)
  then show ?thesis by (auto simp: ps_def accepted_source_def)
qed

lemma after_text_scheme: "CHR '':'' \<notin> set sch \<Longrightarrow> after_text ''://'' (sch @ ''://'' @ rest) = Some rest"
  by (induction sch) (auto simp: HasPrefix_def)

text \<open>The host of a URL, whatever follows it; where the library refuses the rest, the fall-back finds the same host.\<close>

lemma extract_origin:
  assumes "sch \<noteq> []" "list_all is_alpha sch" "host \<noteq> []" "list_all name_char host" "port_text port" "url_tail tail"
    "TrimSpace src = sch @ ''://'' @ host @ port @ tail"
  shows "extractHostFromOrigin lit src = ToLower host"
proof -
  note auth = authority_chars [OF assms(4,5)]
  have "CHR '':'' \<notin> set sch" using assms(2) by (auto simp: list_all_iff is_alpha_def)
  then have a: "after_text ''://'' (sch @ ''://'' @ host @ port @ tail) = Some (host @ port @ tail)" by (rule after_text_scheme)
  have "takeWhile (\<lambda>c. c \<notin> set ''/?#'') ((host @ port) @ tail) = host @ port"
  proof -
    have "takeWhile (\<lambda>c. c \<notin> set ''/?#'') ((host @ port) @ tail) = (host @ port) @ takeWhile (\<lambda>c. c \<notin> set ''/?#'') tail"
      using auth by (subst takeWhile_append2) auto
    moreover have "takeWhile (\<lambda>c. c \<notin> set ''/?#'') tail = []" using assms(6) by (cases tail) (auto simp: url_tail_def)
    ultimately show ?thesis by simp
  qed
  moreover have "takeWhile (\<lambda>c. c \<noteq> CHR '':'') (host @ port) = host"
  proof -
    have "CHR '':'' \<notin> set host" using assms(4) name_char_cases(4) unfolding list_all_iff by blast
    then have "takeWhile (\<lambda>c. c \<noteq> CHR '':'') (host @ port) = host @ takeWhile (\<lambda>c. c \<noteq> CHR '':'') port" by (subst takeWhile_append2) auto
    moreover have "takeWhile (\<lambda>c. c \<noteq> CHR '':'') port = []" using assms(5) by (auto simp: port_text_def)
    ultimately show ?thesis by simp
  qed
  ultimately have loose: "loose_host (sch @ ''://'' @ host @ port @ tail) = host" unfolding loose_host_def a Let_def option.case by simp
  show ?thesis
  proof (cases "Parse lit (sch @ ''://'' @ host @ port @ tail)")
    case None
    then show ?thesis using assms(7) loose by (simp add: extractHostFromOrigin_def)
  next
    case (Some u)
    then have "url_Host u = host @ port" by (rule Parse_plain_host [OF assms(1,2,4,5,6)])
    then show ?thesis using assms(3,7) Some Hostname_origin [OF assms(4,5)] by (simp add: extractHostFromOrigin_def)
  qed
qed

text \<open>
  C30. Cross-site requests are refused, and no others. The source of a request is its Origin, unless that is missing or \<open>null\<close>, and its
  Referer then. Where the protection is on, a request with a protected method outside the excluded paths is refused exactly
  when its source names no host, or one that is neither the host the request is addressed to, nor one of the site's further names, nor
  matches a configured origin; with neither header the configuration decides. Where the protection is off, or for other methods and
  paths, nothing is refused. The host of a source that is a URL (a scheme, a plain host, perhaps a port, a path, a query,
  a fragment) is that of the URL.
\<close>

theorem csrf_exact:
  assumes "guarded_request \<longleftrightarrow> csrf_IsEnable cfg \<noteq> 0 \<and> isCsrfProtectedMethod (hr_Method r) (csrf_ProtectMethods cfg) \<and>
       \<not> isCsrfExcludedPath (hr_Path r) (csrf_ExcludePaths cfg)"
    "origin = TrimSpace (Header_Get r ''Origin'')"
    "source = (if origin \<noteq> [] \<and> \<not> EqualFold origin ''null'' then origin else TrimSpace (Header_Get r ''Referer''))"
    "refused \<longleftrightarrow> dr_IsBlock (fst (CheckCsrf lit cfg bind r lg))"
  shows "(refused \<longleftrightarrow> guarded_request \<and>
      (if source = [] then csrf_AllowEmptyRef cfg \<noteq> 1
       else extractHostFromOrigin lit source = [] \<or> \<not> accepted_source lit cfg bind (hr_Host r) (extractHostFromOrigin lit source))) \<and>
    (sch \<noteq> [] \<and> list_all is_alpha sch \<and> host \<noteq> [] \<and> list_all name_char host \<and> port_text port \<and> url_tail tail \<and>
      source = sch @ ''://'' @ host @ port @ tail \<longrightarrow>
      (refused \<longleftrightarrow> guarded_request \<and> \<not> accepted_source lit cfg bind (hr_Host r) (ToLower host)))"
proof -
  have block: "dr_IsBlock (fst (csrfBlock lg))" "\<not> dr_IsBlock no_result" by (simp_all add: csrfBlock_def no_result_def)
  have "isCsrfOriginAllowed h (buildCsrfAllowedHosts lit (hr_Host r) bind (csrf_AllowedOrigins cfg)) \<longleftrightarrow>
      h \<noteq> [] \<and> accepted_source lit cfg bind (hr_Host r) h" for h
    using allowed_iff_accepted [of h lit "hr_Host r" bind cfg] by (cases "h = []") (simp_all add: isCsrfOriginAllowed_def)
  then have main: "refused \<longleftrightarrow> guarded_request \<and>
      (if source = [] then csrf_AllowEmptyRef cfg \<noteq> 1
       else extractHostFromOrigin lit source = [] \<or> \<not> accepted_source lit cfg bind (hr_Host r) (extractHostFromOrigin lit source))"
    using block unfolding assms by (simp add: CheckCsrf_def Let_def)
  moreover have "refused \<longleftrightarrow> guarded_request \<and> \<not> accepted_source lit cfg bind (hr_Host r) (ToLower host)"
    if u: "sch \<noteq> []" "list_all is_alpha sch" "host \<noteq> []" "list_all name_char host" "port_text port" "url_tail tail" and
      s: "source = sch @ ''://'' @ host @ port @ tail"
  proof -
    have "TrimSpace source = source" using assms(2,3) by (simp add: TrimSpace_idem)
    then have "extractHostFromOrigin lit source = ToLower host" using extract_origin [OF u, of source] s by simp
    moreover have "ToLower host \<noteq> []" using u(3) by (simp add: ToLower_def)
    moreover have "source \<noteq> []" using s by simp
    ultimately show ?thesis using main by simp
  qed
  ultimately show ?thesis by blast
qed

subsection \<open>Files of the own site\<close>

lemma leech_matches_keyword: "referer_keyword v \<Longrightarrow> \<not> referer_matches rx h v"
  by (simp add: referer_matches_def)

text \<open>
  Two ways in which the protection of files refuses the site's own pages. With no list of referrers configured every request for a
  protected file with an ordinary referrer, or with none, is refused: splitting the empty setting gives one empty entry, so the
  case meant to let everything pass is never reached. With the site's own names allowed, a request that names a port in its host is
  refused all the same, for the host of the referrer keeps its port and the names do not.
\<close>

theorem leech_refuses_own_pages:
  assumes "IsEnableAntiLeech cfg \<noteq> 0" "isProtectedFileType rx (hr_Path r) (FileTypes cfg)"
    "sch \<noteq> []" "list_all is_alpha sch" "host \<noteq> []" "list_all name_char host" "port_text port"
  shows "(ValidReferers cfg = [] \<and> (Header_Get r ''Referer'' = sch @ ''://'' @ host @ port \<or> Header_Get r ''Referer'' = []) \<longrightarrow>
      dr_IsBlock (CheckAntiLeech lit rx cfg bind r)) \<and>
    (ValidReferers cfg = ''none;blocked;server_names'' \<and> bind = [] \<and> port \<noteq> [] \<and> hr_Host r = host @ port \<and>
      Header_Get r ''Referer'' = sch @ ''://'' @ host @ port \<longrightarrow> dr_IsBlock (CheckAntiLeech lit rx cfg bind r))"
proof -
  note parse = Parse_origin [OF assms(3,4,6,7), of lit]
  have ne: "sch @ ''://'' @ host @ port \<noteq> []" by simp
  have "\<not> isValidReferer lit rx (Header_Get r ''Referer'') hosts [[]]"
    if "Header_Get r ''Referer'' = sch @ ''://'' @ host @ port \<or> Header_Get r ''Referer'' = []" for hosts
    using that parse assms(5) by (auto simp: isValidReferer_def referer_matches_def referer_keyword_def HasPrefix_def)
  moreover have "\<not> isValidReferer lit rx (sch @ ''://'' @ host @ port) (server_names (host @ port) []) [''none'', ''blocked'', ''server_names'']"
    if p: "port \<noteq> []"
  proof -
    have "CHR '':'' \<notin> set host" using assms(6) name_char_cases(4) unfolding list_all_iff by blast
    moreover obtain ds where "port = CHR '':'' # ds" using p assms(7) by (auto simp: port_text_def)
    ultimately have "cut_before (CHR '':'') (host @ port) = host" by (simp add: cut_before_append)
    then show ?thesis using parse p by (simp add: isValidReferer_def server_names_def leech_matches_keyword referer_keyword_def)
  qed
  ultimately show ?thesis
    using assms(1,2) by (auto simp: CheckAntiLeech_def Let_def)
qed

definition demo_post :: "string \<Rightarrow> http_request" where
  "demo_post origin = \<lparr>hr_Method = ''POST'', hr_Host = ''a.com:8080'', hr_Path = ''/x.png'', hr_RawQuery = [], hr_TLS = False,
     hr_Header = [(''Origin'', origin), (''Referer'', ''http://a.com:8080'')], hr_Cookies = [], hr_Query = []\<rparr>"

definition demo_referer_log :: WebLog where
  "demo_referer_log = \<lparr>lg_SRC_IP = ''9.9.9.9'', lg_NetSrcIp = ''9.9.9.9'', lg_URL = ''/'', lg_COUNTRY = [], lg_PROVINCE = [], lg_CITY = [],
     lg_IsBot = 0, lg_BotVerifyStrong = 0, lg_CONTENT_LENGTH = 0, lg_ResHeader = [], lg_STATUS_CODE = 0, lg_RES_CONTENT_LENGTH = 0,
     lg_TimeSpent = 0, lg_BodyFields = [], lg_BodyValues = [], lg_RISK_LEVEL = 0, lg_RULE = [], lg_GUEST_IDENTIFICATION = [],
     lg_LogOnlyMode = 0, lg_GeoUnresolved = False\<rparr>"

lemma demo_host_text: "list_all is_alpha ''http''" "list_all name_char ''a.com''" "list_all name_char ''b.com''" "port_text '':8080''" "port_text []"
  by (simp_all add: is_alpha_def name_char_def is_alnum_def is_digit_def port_text_def)

lemma demo_guarded: "isCsrfProtectedMethod ''POST'' ''POST,PUT,DELETE,PATCH''" "\<not> isCsrfExcludedPath p []"
proof -
  have "TrimSpace ''POST'' = ''POST''" by (rule TrimSpace_plain) (simp add: plain_char_def ascii_space_def)
  then show "isCsrfProtectedMethod ''POST'' ''POST,PUT,DELETE,PATCH''"
    by (simp add: isCsrfProtectedMethod_def next_is_def upper_char_def)
qed (simp add: isCsrfExcludedPath_def)

lemma demo_plain: "list_all plain_char ''http://b.com''" "list_all plain_char ''a.com''"
  by (simp_all add: plain_char_def ascii_space_def)

lemma demo_origin: "TrimSpace (Header_Get (demo_post ''http://b.com'') ''Origin'') = ''http'' @ ''://'' @ ''b.com'' @ []"
  using TrimSpace_plain [OF demo_plain(1)] by (simp add: Header_Get_def Header_Values_def demo_post_def EqualFold_def)

lemma demo_not_null: "\<not> EqualFold ''http://b.com'' ''null''"
  by code_simp

theorem csrf_exact_witness: "dr_IsBlock (fst (CheckCsrf (\<lambda>_. None) (csrf_default\<lparr>csrf_IsEnable := 1\<rparr>) [] (demo_post ''http://b.com'') demo_referer_log))"
proof -
  let ?cfg = "csrf_default\<lparr>csrf_IsEnable := 1\<rparr>"
  have "cut_before (CHR '':'') (hr_Host (demo_post ''http://b.com'')) = ''a.com''" by (simp add: cut_before_def demo_post_def)
  then have "\<not> accepted_source (\<lambda>_. None) ?cfg [] (hr_Host (demo_post ''http://b.com'')) ''b.com''"
    using TrimSpace_plain [OF demo_plain(2)]
    by (simp add: accepted_source_def host_matches_def csrf_default_def origin_pattern_def ToLower_def lower_char_def HasPrefix_def)
  moreover have "extractHostFromOrigin (\<lambda>_. None) ''http://b.com'' = ''b.com''" by code_simp
  moreover have "csrf_IsEnable ?cfg \<noteq> 0 \<and> isCsrfProtectedMethod (hr_Method (demo_post ''http://b.com'')) (csrf_ProtectMethods ?cfg) \<and>
      \<not> isCsrfExcludedPath (hr_Path (demo_post ''http://b.com'')) (csrf_ExcludePaths ?cfg)"
    using demo_guarded by (simp add: csrf_default_def demo_post_def)
  moreover have "''http://b.com'' = (if TrimSpace (Header_Get (demo_post ''http://b.com'') ''Origin'') \<noteq> [] \<and>
      \<not> EqualFold (TrimSpace (Header_Get (demo_post ''http://b.com'') ''Origin'')) ''null''
      then TrimSpace (Header_Get (demo_post ''http://b.com'') ''Origin'') else TrimSpace (Header_Get (demo_post ''http://b.com'') ''Referer''))"
    using demo_not_null unfolding demo_origin by simp
  ultimately show ?thesis
    using csrf_exact [where cfg = ?cfg and r = "demo_post ''http://b.com''" and guarded_request = True and lit = "\<lambda>_. None" and
        bind = "[]" and lg = demo_referer_log and source = "''http://b.com''", OF _ refl _ refl] by simp
qed

definition demo_leech :: AntiLeechConfig where
  "demo_leech = \<lparr>IsEnableAntiLeech = 1, FileTypes = ''png'', ValidReferers = ''none;blocked;server_names'', al_Action = ''block'', RedirectURL = []\<rparr>"

theorem leech_refuses_own_pages_witness: "dr_IsBlock (CheckAntiLeech (\<lambda>_. None) (\<lambda>_. Some (\<lambda>_. True)) demo_leech [] (demo_post ''x''))"
proof -
  have "Header_Get (demo_post ''x'') ''Referer'' = ''http'' @ ''://'' @ ''a.com'' @ '':8080''"
    by (simp add: Header_Get_def Header_Values_def demo_post_def EqualFold_def ToLower_def lower_char_def)
  then show ?thesis
    using leech_refuses_own_pages [where cfg = demo_leech and rx = "\<lambda>_. Some (\<lambda>_. True)" and r = "demo_post ''x''" and sch = "''http''" and
        host = "''a.com''" and port = "'':8080''" and lit = "\<lambda>_. None" and bind = "[]"] demo_host_text
    by (simp add: demo_leech_def isProtectedFileType_def demo_post_def)
qed

end
