(* ===== verification/Access_Session.thy ===== *)
theory Access_Session
  imports Waf_Cache
begin

text \<open>
  The sessions of the unified access authentication: service/waf_service/waf_access_session_service.go and
  waf_access_ticket_service.go, with the tables of model/access_session.go and model/access_ticket.go.

  A login makes a central session; each site a user visits gets a token of its own that belongs to the session; a one-time ticket
  carries the login from the central domain to a site. The engine validates tokens on every request through a cache.

  The state is the cache and the three tables, lists of rows in the order of insertion. Times are in nanoseconds, 0 stands for the zero
  time, which no row the service writes has. The digest of a secret (SHA-256 in hexadecimal) is the argument \<open>hash\<close>, the secrets of
  crypto/rand are arguments of the operations that draw them, \<open>None\<close> when the generator fails. A record read back from
  the cache has passed through JSON; its times lose the fraction of a second and the zone (\<open>zone\<close> is the offset of the local zone), for
  \<open>customtype.JsonTime\<close> writes local time and reads it as UTC. Location, audit rows and the paged queries are not modelled.

  The theorems show that a session that has been revoked is never accepted again, on whatever site, whatever the cache holds and
  whatever operations follow, that an accepted token belongs to a row of the database and to the site of the request, and that a
  ticket is redeemed at most once.
\<close>

subsection \<open>Rows and configuration\<close>

record AccessSession =
  se_Id :: string
  se_SessionCode :: string
  se_AccountCode :: string
  se_AccountName :: string
  se_Scope :: string
  se_BindHost :: string
  se_ClientIP :: string
  se_Fingerprint :: string
  se_UserAgent :: string
  se_Status :: int
  se_RevokeReason :: string
  se_LoginTime :: int
  se_LastActiveTime :: int
  se_ExpireTime :: int
  se_UpdateTime :: int

record AccessToken =
  to_TokenCode :: string
  to_SessionCode :: string
  to_AccountName :: string
  to_Host :: string
  to_HostCode :: string
  to_ClientIP :: string
  to_Fingerprint :: string
  to_Status :: int
  to_LastActiveTime :: int
  to_ExpireTime :: int
  to_UpdateTime :: int

record AccessTicket =
  ti_TicketCode :: string
  ti_SessionCode :: string
  ti_AccountCode :: string
  ti_AccountName :: string
  ti_TargetHost :: string
  ti_ReturnTo :: string
  ti_ClientIP :: string
  ti_Fingerprint :: string
  ti_Used :: int
  ti_UsedTime :: int
  ti_ExpireTime :: int

record AccessState =
  as_SessionCode :: string
  as_AccountCode :: string
  as_AccountName :: string
  as_ExpireUnix :: int
  as_Host :: string
  as_HostCode :: string
  as_ClientIP :: string
  as_Fingerprint :: string

abbreviation AccessStatusRevoked :: int where "AccessStatusRevoked \<equiv> 0"
abbreviation AccessStatusValid :: int where "AccessStatusValid \<equiv> 1"

record access_cfg =
  ac_SessionTTL :: int
  ac_TokenTTL :: int
  ac_TicketTTL :: int
  ac_IdleTimeout :: int
  ac_BindIP :: bool
  ac_BindFingerprint :: bool
  ac_CachePositiveTTL :: int

text \<open>The state between the two steps of a login with a one-time code (access_login.go).\<close>

record otpStage =
  os_AccountId :: string
  os_Rq :: string
  os_BindHost :: string

datatype access_rec = RState AccessState | RSession AccessSession | RStage otpStage

record access_db =
  db_cache :: "access_rec WafCache"
  db_sessions :: "AccessSession list"
  db_tokens :: "AccessToken list"
  db_tickets :: "AccessTicket list"

definition CACHE_ACCESS_TOKEN :: string where "CACHE_ACCESS_TOKEN = ''CACHE_ACCESS_TOKEN_''"
definition CACHE_ACCESS_SESSION :: string where "CACHE_ACCESS_SESSION = ''CACHE_ACCESS_SESSION_''"
definition CACHE_ACCESS_BAD :: string where "CACHE_ACCESS_BAD = ''CACHE_ACCESS_BAD_''"

definition tokenKey :: "string \<Rightarrow> string" where "tokenKey code = CACHE_ACCESS_TOKEN @ code"
definition sessionKey :: "string \<Rightarrow> string" where "sessionKey code = CACHE_ACCESS_SESSION @ code"
definition badKey :: "string \<Rightarrow> string" where "badKey code = CACHE_ACCESS_BAD @ code"

definition truncate_text :: "string \<Rightarrow> nat \<Rightarrow> string" where
  "truncate_text s n = take n s"

subsection \<open>The JSON round trip of the cache\<close>

definition json_time :: "int \<Rightarrow> int \<Rightarrow> int" where
  "json_time zone t = t div second * second + zone"

definition json_state :: "access_rec cval \<Rightarrow> AccessState option" where
  "json_state v = (case v of CRec (RState s) \<Rightarrow> Some s | _ \<Rightarrow> None)"

definition json_session :: "int \<Rightarrow> access_rec cval \<Rightarrow> AccessSession option" where
  "json_session zone v =
     (case v of
        CRec (RSession s) \<Rightarrow>
          Some (s\<lparr>se_LoginTime := json_time zone (se_LoginTime s), se_LastActiveTime := json_time zone (se_LastActiveTime s),
                  se_ExpireTime := json_time zone (se_ExpireTime s), se_UpdateTime := json_time zone (se_UpdateTime s)\<rparr>)
      | _ \<Rightarrow> None)"

subsection \<open>Issuing\<close>

definition CreateSession ::
  "(string \<Rightarrow> string) \<Rightarrow> int \<Rightarrow> access_cfg \<Rightarrow> string option \<Rightarrow> string \<Rightarrow> string \<times> string \<Rightarrow> string \<Rightarrow> string \<Rightarrow> string \<Rightarrow> string \<Rightarrow> string
     \<Rightarrow> access_db \<Rightarrow> (string \<times> AccessSession) option \<times> access_db" where
  "CreateSession hash now cfg secret rowId acct scope bindHost clientIP fingerprint userAgent db =
     (case secret of
        None \<Rightarrow> (None, db)
      | Some plain \<Rightarrow>
          (let bean = \<lparr>se_Id = rowId, se_SessionCode = hash plain, se_AccountCode = fst acct, se_AccountName = snd acct, se_Scope = scope,
                 se_BindHost = ToLower bindHost, se_ClientIP = clientIP, se_Fingerprint = fingerprint, se_UserAgent = truncate_text userAgent 500,
                 se_Status = AccessStatusValid, se_RevokeReason = [], se_LoginTime = now, se_LastActiveTime = now,
                 se_ExpireTime = now + ac_SessionTTL cfg, se_UpdateTime = now\<rparr>
           in (Some (plain, bean), db\<lparr>db_sessions := db_sessions db @ [bean]\<rparr>)))"

definition IssueToken ::
  "(string \<Rightarrow> string) \<Rightarrow> int \<Rightarrow> access_cfg \<Rightarrow> string option \<Rightarrow> AccessSession \<Rightarrow> string \<Rightarrow> string \<Rightarrow> string \<Rightarrow> string \<Rightarrow> access_db
     \<Rightarrow> string option \<times> access_db" where
  "IssueToken hash now cfg secret sess host hostCode clientIP fingerprint db =
     (case secret of
        None \<Rightarrow> (None, db)
      | Some plain \<Rightarrow>
          (let expire0 = now + ac_TokenTTL cfg;
               expire = (if se_ExpireTime sess \<noteq> 0 \<and> se_ExpireTime sess < expire0 then se_ExpireTime sess else expire0);
               bean = \<lparr>to_TokenCode = hash plain, to_SessionCode = se_SessionCode sess, to_AccountName = se_AccountName sess, to_Host = ToLower host,
                 to_HostCode = hostCode, to_ClientIP = clientIP, to_Fingerprint = fingerprint, to_Status = AccessStatusValid,
                 to_LastActiveTime = now, to_ExpireTime = expire, to_UpdateTime = now\<rparr>
           in (Some plain, db\<lparr>db_tokens := db_tokens db @ [bean]\<rparr>)))"

subsection \<open>Validation\<close>

definition matchBindings :: "access_cfg \<Rightarrow> AccessState \<Rightarrow> string \<Rightarrow> string \<Rightarrow> string \<Rightarrow> string \<Rightarrow> bool" where
  "matchBindings cfg s host hostCode clientIP fingerprint \<longleftrightarrow>
     as_HostCode s \<noteq> [] \<and> hostCode \<noteq> [] \<and> as_HostCode s = hostCode \<and> EqualFold (as_Host s) host \<and>
     (ac_BindIP cfg \<and> as_ClientIP s \<noteq> [] \<longrightarrow> as_ClientIP s = clientIP) \<and>
     (ac_BindFingerprint cfg \<and> as_Fingerprint s \<noteq> [] \<longrightarrow> as_Fingerprint s = fingerprint)"

definition markBad :: "int \<Rightarrow> string \<Rightarrow> access_db \<Rightarrow> access_db" where
  "markBad now code db = db\<lparr>db_cache := SetWithTTl now (db_cache db) (badKey code) (CStr ''1'') (60 * second)\<rparr>"

definition revokeSessionRows :: "int \<Rightarrow> string \<Rightarrow> string \<Rightarrow> access_db \<Rightarrow> string list \<times> access_db" where
  "revokeSessionRows now sessionCode reason db =
     (map to_TokenCode (filter (\<lambda>t. to_SessionCode t = sessionCode) (db_tokens db)),
      db\<lparr>db_sessions := map (\<lambda>s. if se_SessionCode s = sessionCode
           then s\<lparr>se_Status := AccessStatusRevoked, se_RevokeReason := reason, se_UpdateTime := now\<rparr> else s) (db_sessions db),
         db_tokens := map (\<lambda>t. if to_SessionCode t = sessionCode
           then t\<lparr>to_Status := AccessStatusRevoked, to_UpdateTime := now\<rparr> else t) (db_tokens db)\<rparr>)"

definition loadValidSession :: "int \<Rightarrow> int \<Rightarrow> access_cfg \<Rightarrow> string \<Rightarrow> access_db \<Rightarrow> AccessSession option \<times> access_db" where
  "loadValidSession zone now cfg sessionCode db =
     (if sessionCode = [] then (None, db)
      else
        (case GetAs (json_session zone) now (db_cache db) (sessionKey sessionCode) of
           (res, c) \<Rightarrow>
             let db1 = db\<lparr>db_cache := c\<rparr>;
                 from_db =
                   (case find (\<lambda>s. se_SessionCode s = sessionCode \<and> se_Status s = AccessStatusValid) (db_sessions db1) of
                      None \<Rightarrow> (None, db1)
                    | Some sess \<Rightarrow>
                        if se_ExpireTime sess < now then (None, db1)
                        else if 0 < ac_IdleTimeout cfg \<and> se_LastActiveTime sess \<noteq> 0 \<and> ac_IdleTimeout cfg < now - se_LastActiveTime sess
                        then (None, snd (revokeSessionRows now (se_SessionCode sess) ''expired'' db1))
                        else (Some sess,
                              db1\<lparr>db_cache := SetWithTTl now (db_cache db1) (sessionKey sessionCode) (CRec (RSession sess)) (ac_CachePositiveTTL cfg)\<rparr>))
             in case res of
                  Inr cached \<Rightarrow> if se_SessionCode cached \<noteq> [] \<and> now < se_ExpireTime cached then (Some cached, db1) else from_db
                | Inl _ \<Rightarrow> from_db))"

definition touchInterval :: int where "touchInterval = 5 * minute"

definition touchToken :: "AccessToken \<Rightarrow> int \<Rightarrow> access_db \<Rightarrow> access_db" where
  "touchToken token now db =
     (if to_LastActiveTime token \<noteq> 0 \<and> now - to_LastActiveTime token < touchInterval then db
      else db\<lparr>db_tokens := map (\<lambda>t. if to_TokenCode t = to_TokenCode token then t\<lparr>to_LastActiveTime := now\<rparr> else t) (db_tokens db)\<rparr>)"

definition touchSession :: "AccessSession \<Rightarrow> int \<Rightarrow> access_db \<Rightarrow> access_db" where
  "touchSession sess now db =
     (if se_LastActiveTime sess \<noteq> 0 \<and> now - se_LastActiveTime sess < touchInterval then db
      else db\<lparr>db_sessions := map (\<lambda>s. if se_SessionCode s = se_SessionCode sess then s\<lparr>se_LastActiveTime := now\<rparr> else s) (db_sessions db),
              db_cache := wc_Remove (db_cache db) (sessionKey (se_SessionCode sess))\<rparr>)"

definition token_state :: "AccessSession \<Rightarrow> AccessToken \<Rightarrow> AccessState" where
  "token_state sess t = \<lparr>as_SessionCode = se_SessionCode sess, as_AccountCode = se_AccountCode sess, as_AccountName = se_AccountName sess,
     as_ExpireUnix = to_ExpireTime t div second, as_Host = to_Host t, as_HostCode = to_HostCode t, as_ClientIP = to_ClientIP t,
     as_Fingerprint = to_Fingerprint t\<rparr>"

text \<open>The part of \<open>ValidateToken\<close> that reads the database.\<close>

definition validate_row ::
  "int \<Rightarrow> int \<Rightarrow> access_cfg \<Rightarrow> string \<Rightarrow> (AccessState \<Rightarrow> bool) \<Rightarrow> access_db \<Rightarrow> AccessState option \<times> access_db" where
  "validate_row zone now cfg code bound db =
     (case find (\<lambda>t. to_TokenCode t = code \<and> to_Status t = AccessStatusValid) (db_tokens db) of
        None \<Rightarrow> (None, markBad now code db)
      | Some token \<Rightarrow>
          if to_ExpireTime token < now then (None, markBad now code db)
          else (case loadValidSession zone now cfg (to_SessionCode token) db of
                  (None, db1) \<Rightarrow> (None, markBad now code db1)
                | (Some sess, db1) \<Rightarrow>
                    (let st = token_state sess token;
                         db2 = db1\<lparr>db_cache := SetWithTTl now (db_cache db1) (tokenKey code) (CRec (RState st)) (ac_CachePositiveTTL cfg)\<rparr>
                     in if bound st then (Some st, touchToken token now db2) else (None, db2))))"

definition ValidateToken ::
  "(string \<Rightarrow> string) \<Rightarrow> int \<Rightarrow> int \<Rightarrow> access_cfg \<Rightarrow> string \<Rightarrow> string \<Rightarrow> string \<Rightarrow> string \<Rightarrow> string \<Rightarrow> access_db \<Rightarrow> AccessState option \<times> access_db" where
  "ValidateToken hash zone now cfg plain host hostCode clientIP fingerprint db =
     (if plain = [] then (None, db)
      else
        (let code = hash plain; bound = (\<lambda>s. matchBindings cfg s host hostCode clientIP fingerprint)
         in case IsKeyExist now (db_cache db) (badKey code) of
              (True, c) \<Rightarrow> (None, db\<lparr>db_cache := c\<rparr>)
            | (False, c) \<Rightarrow>
                (case GetAs json_state now c (tokenKey code) of
                   (Inr cached, c') \<Rightarrow>
                     if as_SessionCode cached \<noteq> [] \<and> now div second < as_ExpireUnix cached
                     then (if bound cached then Some cached else None, db\<lparr>db_cache := c'\<rparr>)
                     else validate_row zone now cfg code bound (db\<lparr>db_cache := c'\<rparr>)
                 | (Inl _, c') \<Rightarrow> validate_row zone now cfg code bound (db\<lparr>db_cache := c'\<rparr>))))"

definition ValidateSSOSession ::
  "(string \<Rightarrow> string) \<Rightarrow> int \<Rightarrow> int \<Rightarrow> access_cfg \<Rightarrow> string \<Rightarrow> string \<Rightarrow> string \<Rightarrow> string \<Rightarrow> access_db \<Rightarrow> AccessSession option \<times> access_db" where
  "ValidateSSOSession hash zone now cfg plain host clientIP fingerprint db =
     (if plain = [] then (None, db)
      else (case loadValidSession zone now cfg (hash plain) db of
              (None, db1) \<Rightarrow> (None, db1)
            | (Some sess, db1) \<Rightarrow>
                if se_Scope sess = ''local'' \<and> se_BindHost sess \<noteq> [] \<and> \<not> EqualFold (se_BindHost sess) host then (None, db1)
                else if ac_BindIP cfg \<and> se_ClientIP sess \<noteq> [] \<and> se_ClientIP sess \<noteq> clientIP then (None, db1)
                else if ac_BindFingerprint cfg \<and> se_Fingerprint sess \<noteq> [] \<and> se_Fingerprint sess \<noteq> fingerprint then (None, db1)
                else (Some sess, touchSession sess now db1)))"

subsection \<open>Revocation\<close>

definition kick_token :: "int \<Rightarrow> string \<Rightarrow> access_db \<Rightarrow> access_db" where
  "kick_token now code db = markBad now code (db\<lparr>db_cache := wc_Remove (db_cache db) (tokenKey code)\<rparr>)"

definition kickCache :: "int \<Rightarrow> string \<Rightarrow> string list \<Rightarrow> access_db \<Rightarrow> access_db" where
  "kickCache now sessionCode tokenCodes db =
     fold (kick_token now) tokenCodes
       (if sessionCode = [] then db else db\<lparr>db_cache := wc_Remove (db_cache db) (sessionKey sessionCode)\<rparr>)"

text \<open>\<open>False\<close> is the error for an empty session code.\<close>

definition RevokeSession :: "int \<Rightarrow> string \<Rightarrow> string \<Rightarrow> access_db \<Rightarrow> bool \<times> access_db" where
  "RevokeSession now sessionCode reason db =
     (if sessionCode = [] then (False, db)
      else (case revokeSessionRows now sessionCode reason db of (codes, db1) \<Rightarrow> (True, kickCache now sessionCode codes db1)))"

definition RevokeToken :: "(string \<Rightarrow> string) \<Rightarrow> int \<Rightarrow> string \<Rightarrow> access_db \<Rightarrow> access_db" where
  "RevokeToken hash now plain db =
     (if plain = [] then db
      else kick_token now (hash plain)
             (db\<lparr>db_tokens := map (\<lambda>t. if to_TokenCode t = hash plain
                then t\<lparr>to_Status := AccessStatusRevoked, to_UpdateTime := now\<rparr> else t) (db_tokens db)\<rparr>))"

definition revoke_all :: "int \<Rightarrow> string \<Rightarrow> AccessSession list \<Rightarrow> access_db \<Rightarrow> int \<times> access_db" where
  "revoke_all now reason sessions db =
     (int (length sessions), fold (\<lambda>s db. snd (RevokeSession now (se_SessionCode s) reason db)) sessions db)"

definition RevokeByAccount :: "int \<Rightarrow> string \<Rightarrow> string \<Rightarrow> access_db \<Rightarrow> int \<times> access_db" where
  "RevokeByAccount now accountCode reason db =
     (if accountCode = [] then (0, db)
      else revoke_all now reason (filter (\<lambda>s. se_AccountCode s = accountCode \<and> se_Status s = AccessStatusValid) (db_sessions db)) db)"

definition RevokeByHostCode :: "int \<Rightarrow> string \<Rightarrow> access_db \<Rightarrow> int \<times> access_db" where
  "RevokeByHostCode now hostCode db =
     (let tokens = filter (\<lambda>t. to_HostCode t = hostCode \<and> to_Status t = AccessStatusValid) (db_tokens db)
      in if TrimSpace hostCode = [] \<or> tokens = [] then (0, db)
         else (int (length tokens),
               fold (kick_token now) (map to_TokenCode tokens)
                 (db\<lparr>db_tokens := map (\<lambda>t. if to_HostCode t = hostCode
                    then t\<lparr>to_Status := AccessStatusRevoked, to_UpdateTime := now\<rparr> else t) (db_tokens db)\<rparr>)))"

definition KickApi :: "int \<Rightarrow> string \<Rightarrow> access_db \<Rightarrow> bool \<times> access_db" where
  "KickApi now rowId db =
     (case find (\<lambda>s. se_Id s = rowId) (db_sessions db) of
        None \<Rightarrow> (False, db)
      | Some s \<Rightarrow> RevokeSession now (se_SessionCode s) ''admin_kick'' db)"

definition KickAllApi :: "int \<Rightarrow> access_db \<Rightarrow> int \<times> access_db" where
  "KickAllApi now db = revoke_all now ''admin_kick'' (filter (\<lambda>s. se_Status s = AccessStatusValid) (db_sessions db)) db"

text \<open>The clean-up; \<open>days\<close> is the argument \<open>keepDays\<close>. The result counts the rows each step changed.\<close>

definition CleanExpired :: "int \<Rightarrow> int \<Rightarrow> access_db \<Rightarrow> (int \<times> int \<times> int \<times> int) \<times> access_db" where
  "CleanExpired now days db =
     (let old_session = (\<lambda>s. se_Status s = AccessStatusValid \<and> se_ExpireTime s < now);
          old_token = (\<lambda>t. to_Status t = AccessStatusValid \<and> to_ExpireTime t < now);
          old_ticket = (\<lambda>k. ti_ExpireTime k < now - 10 * minute);
          cutoff = now - (if days \<le> 0 then 7 else days) * 24 * hour;
          sessions = map (\<lambda>s. if old_session s
            then s\<lparr>se_Status := AccessStatusRevoked, se_RevokeReason := ''expired'', se_UpdateTime := now\<rparr> else s) (db_sessions db);
          tokens = map (\<lambda>t. if old_token t then t\<lparr>to_Status := AccessStatusRevoked, to_UpdateTime := now\<rparr> else t) (db_tokens db);
          dead_token = (\<lambda>t. to_Status t = AccessStatusRevoked \<and> to_UpdateTime t < cutoff);
          dead_session = (\<lambda>s. se_Status s = AccessStatusRevoked \<and> se_UpdateTime s < cutoff)
      in ((int (length (filter old_session (db_sessions db))), int (length (filter old_token (db_tokens db))),
           int (length (filter old_ticket (db_tickets db))), int (length (filter dead_token tokens))),
          db\<lparr>db_sessions := filter (\<lambda>s. \<not> dead_session s) sessions, db_tokens := filter (\<lambda>t. \<not> dead_token t) tokens,
             db_tickets := filter (\<lambda>k. \<not> old_ticket k) (db_tickets db)\<rparr>))"

subsection \<open>Tickets\<close>

definition IssueTicket ::
  "(string \<Rightarrow> string) \<Rightarrow> int \<Rightarrow> access_cfg \<Rightarrow> string option \<Rightarrow> AccessSession \<Rightarrow> string \<Rightarrow> string \<Rightarrow> string \<Rightarrow> string \<Rightarrow> access_db
     \<Rightarrow> string option \<times> access_db" where
  "IssueTicket hash now cfg secret sess targetHost returnTo clientIP fingerprint db =
     (case secret of
        None \<Rightarrow> (None, db)
      | Some plain \<Rightarrow>
          (Some plain,
           db\<lparr>db_tickets := db_tickets db @ [\<lparr>ti_TicketCode = hash plain, ti_SessionCode = se_SessionCode sess, ti_AccountCode = se_AccountCode sess,
              ti_AccountName = se_AccountName sess, ti_TargetHost = ToLower targetHost, ti_ReturnTo = returnTo, ti_ClientIP = clientIP,
              ti_Fingerprint = fingerprint, ti_Used = 0, ti_UsedTime = 0, ti_ExpireTime = now + ac_TicketTTL cfg\<rparr>]\<rparr>))"

datatype ticket_error = TicketEmpty | TicketInvalid | TicketUnreadable | TicketOtherHost | TicketOtherIP | TicketOtherDevice

definition redeemable :: "string \<Rightarrow> int \<Rightarrow> AccessTicket \<Rightarrow> bool" where
  "redeemable code now k \<longleftrightarrow> ti_TicketCode k = code \<and> ti_Used k = 0 \<and> now < ti_ExpireTime k"

definition ConsumeTicket ::
  "(string \<Rightarrow> string) \<Rightarrow> int \<Rightarrow> access_cfg \<Rightarrow> string \<Rightarrow> string \<Rightarrow> string \<Rightarrow> string \<Rightarrow> access_db \<Rightarrow> (ticket_error + AccessTicket) \<times> access_db" where
  "ConsumeTicket hash now cfg plain targetHost clientIP fingerprint db =
     (if plain = [] then (Inl TicketEmpty, db)
      else
        (let code = hash plain; hit = redeemable code now;
             db1 = db\<lparr>db_tickets := map (\<lambda>k. if hit k then k\<lparr>ti_Used := 1, ti_UsedTime := now\<rparr> else k) (db_tickets db)\<rparr>
         in if length (filter hit (db_tickets db)) \<noteq> 1 then (Inl TicketInvalid, db1)
            else (case find (\<lambda>k. ti_TicketCode k = code) (db_tickets db1) of
                    None \<Rightarrow> (Inl TicketUnreadable, db1)
                  | Some bean \<Rightarrow>
                      if \<not> EqualFold (ti_TargetHost bean) targetHost then (Inl TicketOtherHost, db1)
                      else if ac_BindIP cfg \<and> ti_ClientIP bean \<noteq> [] \<and> ti_ClientIP bean \<noteq> clientIP then (Inl TicketOtherIP, db1)
                      else if ac_BindFingerprint cfg \<and> ti_Fingerprint bean \<noteq> [] \<and> ti_Fingerprint bean \<noteq> fingerprint then (Inl TicketOtherDevice, db1)
                      else (Inr bean, db1))))"

definition LoadSessionByCode :: "int \<Rightarrow> string \<Rightarrow> access_db \<Rightarrow> AccessSession option" where
  "LoadSessionByCode now sessionCode db =
     (case find (\<lambda>s. se_SessionCode s = sessionCode \<and> se_Status s = AccessStatusValid) (db_sessions db) of
        None \<Rightarrow> None
      | Some s \<Rightarrow> if se_ExpireTime s < now then None else Some s)"

subsection \<open>Operations in sequence\<close>

text \<open>The operations a process performs on the state, with their arguments; the last one is the clean-up of the cache.\<close>

datatype access_op =
    OpCreate access_cfg "string option" string "string \<times> string" string string string string string
  | OpIssue access_cfg "string option" AccessSession string string string string
  | OpValidate access_cfg string string string string string
  | OpSSO access_cfg string string string string
  | OpRevoke string string
  | OpRevokeToken string
  | OpByAccount string string
  | OpByHost string
  | OpKick string
  | OpKickAll
  | OpClean int
  | OpTicket access_cfg "string option" AccessSession string string string string
  | OpConsume access_cfg string string string string
  | OpClearCache

fun access_step :: "(string \<Rightarrow> string) \<Rightarrow> int \<Rightarrow> int \<Rightarrow> access_op \<Rightarrow> access_db \<Rightarrow> access_db" where
  "access_step hash zone now (OpCreate cfg secret rowId acct scope bind ip fp ua) db = snd (CreateSession hash now cfg secret rowId acct scope bind ip fp ua db)"
| "access_step hash zone now (OpIssue cfg secret sess host hostCode ip fp) db = snd (IssueToken hash now cfg secret sess host hostCode ip fp db)"
| "access_step hash zone now (OpValidate cfg plain host hostCode ip fp) db = snd (ValidateToken hash zone now cfg plain host hostCode ip fp db)"
| "access_step hash zone now (OpSSO cfg plain host ip fp) db = snd (ValidateSSOSession hash zone now cfg plain host ip fp db)"
| "access_step hash zone now (OpRevoke code reason) db = snd (RevokeSession now code reason db)"
| "access_step hash zone now (OpRevokeToken plain) db = RevokeToken hash now plain db"
| "access_step hash zone now (OpByAccount acct reason) db = snd (RevokeByAccount now acct reason db)"
| "access_step hash zone now (OpByHost hostCode) db = snd (RevokeByHostCode now hostCode db)"
| "access_step hash zone now (OpKick rowId) db = snd (KickApi now rowId db)"
| "access_step hash zone now OpKickAll db = snd (KickAllApi now db)"
| "access_step hash zone now (OpClean days) db = snd (CleanExpired now days db)"
| "access_step hash zone now (OpTicket cfg secret sess host ret ip fp) db = snd (IssueTicket hash now cfg secret sess host ret ip fp db)"
| "access_step hash zone now (OpConsume cfg plain host ip fp) db = snd (ConsumeTicket hash now cfg plain host ip fp db)"
| "access_step hash zone now OpClearCache db = db\<lparr>db_cache := ClearExpirationCache now (db_cache db)\<rparr>"

text \<open>\<open>access_steps hash zone ok t0 db0 t1 db1\<close>: operations allowed by \<open>ok\<close>, at times that never decrease, lead from one state to the other.\<close>

inductive access_steps :: "(string \<Rightarrow> string) \<Rightarrow> int \<Rightarrow> (access_op \<Rightarrow> bool) \<Rightarrow> int \<Rightarrow> access_db \<Rightarrow> int \<Rightarrow> access_db \<Rightarrow> bool"
  for hash zone ok t0 db0 where
  stay: "t0 \<le> t \<Longrightarrow> access_steps hash zone ok t0 db0 t db0"
| step: "access_steps hash zone ok t0 db0 t db \<Longrightarrow> ok act \<Longrightarrow> t \<le> t' \<Longrightarrow> access_steps hash zone ok t0 db0 t' (access_step hash zone t act db)"

definition empty_db :: access_db where
  "empty_db = \<lparr>db_cache = InitWafCache, db_sessions = [], db_tokens = [], db_tickets = []\<rparr>"

text \<open>The positive cache holds an entry for sixty seconds at most.\<close>

definition cache_capped :: "access_op \<Rightarrow> bool" where
  "cache_capped act = (case act of OpValidate cfg _ _ _ _ _ \<Rightarrow> ac_CachePositiveTTL cfg \<le> minute | OpSSO cfg _ _ _ _ \<Rightarrow> ac_CachePositiveTTL cfg \<le> minute | _ \<Rightarrow> True)"

text \<open>No session, and no ticket, with the given digest is made.\<close>

definition no_new_session :: "(string \<Rightarrow> string) \<Rightarrow> string \<Rightarrow> access_op \<Rightarrow> bool" where
  "no_new_session hash code act = (case act of OpCreate _ (Some plain) _ _ _ _ _ _ _ \<Rightarrow> hash plain \<noteq> code | _ \<Rightarrow> True)"

definition no_new_ticket :: "(string \<Rightarrow> string) \<Rightarrow> string \<Rightarrow> access_op \<Rightarrow> bool" where
  "no_new_ticket hash code act = (case act of OpTicket _ (Some plain) _ _ _ _ _ \<Rightarrow> hash plain \<noteq> code | _ \<Rightarrow> True)"

text \<open>The operations that take the session offline.\<close>

definition kicks :: "access_op \<Rightarrow> string \<Rightarrow> access_db \<Rightarrow> bool" where
  "kicks act code db =
     (case act of
        OpRevoke c _ \<Rightarrow> c = code
      | OpByAccount a _ \<Rightarrow> \<exists>s \<in> set (db_sessions db). se_SessionCode s = code \<and> se_AccountCode s = a \<and> a \<noteq> [] \<and> se_Status s = AccessStatusValid
      | OpKick i \<Rightarrow> \<exists>s. find (\<lambda>s. se_Id s = i) (db_sessions db) = Some s \<and> se_SessionCode s = code
      | OpKickAll \<Rightarrow> \<exists>s \<in> set (db_sessions db). se_SessionCode s = code \<and> se_Status s = AccessStatusValid
      | _ \<Rightarrow> False)"

subsection \<open>What an operation leaves behind\<close>

lemma access_keys_differ [simp]:
  "tokenKey a \<noteq> sessionKey b" "sessionKey b \<noteq> tokenKey a" "tokenKey a \<noteq> badKey b" "badKey b \<noteq> tokenKey a" "sessionKey a \<noteq> badKey b" "badKey b \<noteq> sessionKey a"
  by (simp_all add: tokenKey_def sessionKey_def badKey_def CACHE_ACCESS_TOKEN_def CACHE_ACCESS_SESSION_def CACHE_ACCESS_BAD_def)

lemma access_keys_inj [simp]: "tokenKey a = tokenKey b \<longleftrightarrow> a = b" "sessionKey a = sessionKey b \<longleftrightarrow> a = b"
  by (simp_all add: tokenKey_def sessionKey_def)

text \<open>No entry of a token or a session is made or changed.\<close>

definition cache_less :: "access_rec WafCache \<Rightarrow> access_rec WafCache \<Rightarrow> bool" where
  "cache_less c' c \<longleftrightarrow> (\<forall>code. (c' (tokenKey code) = None \<or> c' (tokenKey code) = c (tokenKey code)) \<and>
                          (c' (sessionKey code) = None \<or> c' (sessionKey code) = c (sessionKey code)))"

definition same_token :: "AccessToken \<Rightarrow> AccessToken \<Rightarrow> bool" where
  "same_token t t' \<longleftrightarrow> to_TokenCode t' = to_TokenCode t \<and> to_SessionCode t' = to_SessionCode t \<and> to_Host t' = to_Host t \<and>
     to_HostCode t' = to_HostCode t \<and> to_ClientIP t' = to_ClientIP t \<and> to_Fingerprint t' = to_Fingerprint t"

text \<open>The row is valid or was revoked at the time \<open>c\<close> or later.\<close>

definition alive_at :: "int \<Rightarrow> AccessToken \<Rightarrow> bool" where
  "alive_at c t \<longleftrightarrow> to_Status t = AccessStatusValid \<or> c \<le> to_UpdateTime t"

definition tokens_kept :: "int \<Rightarrow> AccessToken list \<Rightarrow> AccessToken list \<Rightarrow> bool" where
  "tokens_kept now xs ys \<longleftrightarrow>
     (\<forall>t \<in> set xs. \<forall>c. now - minute \<le> c \<and> c \<le> now \<and> alive_at c t \<longrightarrow> (\<exists>t' \<in> set ys. same_token t t' \<and> alive_at c t'))"

definition sessions_kept :: "AccessSession list \<Rightarrow> AccessSession list \<Rightarrow> bool" where
  "sessions_kept xs ys \<longleftrightarrow>
     (\<forall>s' \<in> set ys. se_Status s' = AccessStatusValid \<longrightarrow> (\<exists>s \<in> set xs. se_Status s = AccessStatusValid \<and> se_SessionCode s = se_SessionCode s'))"

definition calm :: "int \<Rightarrow> access_db \<Rightarrow> access_db \<Rightarrow> bool" where
  "calm now db db' \<longleftrightarrow> cache_less (db_cache db') (db_cache db) \<and> tokens_kept now (db_tokens db) (db_tokens db') \<and> sessions_kept (db_sessions db) (db_sessions db')"

lemma cache_less_refl [simp]: "cache_less c c" by (simp add: cache_less_def)

lemma cache_less_trans: "cache_less a b \<Longrightarrow> cache_less b c \<Longrightarrow> cache_less a c"
  unfolding cache_less_def by metis

lemma same_token_refl [simp]: "same_token t t" by (simp add: same_token_def)

lemma tokens_kept_refl [simp]: "tokens_kept now xs xs"
  unfolding tokens_kept_def by (meson same_token_refl)

lemma tokens_kept_now: "tokens_kept now xs ys \<Longrightarrow> t \<in> set xs \<Longrightarrow> alive_at now t \<Longrightarrow> \<exists>t' \<in> set ys. same_token t t' \<and> alive_at now t'"
  by (simp add: tokens_kept_def)

lemma tokens_kept_trans: "tokens_kept now xs ys \<Longrightarrow> tokens_kept now ys zs \<Longrightarrow> tokens_kept now xs zs"
  unfolding tokens_kept_def same_token_def by fastforce

lemma sessions_kept_refl [simp]: "sessions_kept xs xs" by (auto simp: sessions_kept_def)

lemma sessions_kept_trans: "sessions_kept xs ys \<Longrightarrow> sessions_kept ys zs \<Longrightarrow> sessions_kept xs zs"
  unfolding sessions_kept_def by metis

lemma calm_refl [simp]: "calm now db db" by (simp add: calm_def)

lemma calm_trans [trans]: "calm now a b \<Longrightarrow> calm now b c \<Longrightarrow> calm now a c"
  unfolding calm_def by (meson cache_less_trans tokens_kept_trans sessions_kept_trans)

lemma calm_fold: "(\<And>x d. calm now d (f x d)) \<Longrightarrow> calm now db (fold f xs db)"
  by (induction xs arbitrary: db) (auto intro: calm_trans)

text \<open>Row updates that keep the identity of a row and that stamp a row they revoke.\<close>

lemma tokens_kept_map:
  "(\<And>t. same_token t (f t)) \<Longrightarrow> (\<And>t c. alive_at c t \<Longrightarrow> c \<le> now \<Longrightarrow> alive_at c (f t)) \<Longrightarrow> tokens_kept now xs (map f xs)"
  unfolding tokens_kept_def by auto

lemma sessions_kept_map:
  "(\<And>s. se_SessionCode (f s) = se_SessionCode s) \<Longrightarrow> (\<And>s. se_Status (f s) = AccessStatusValid \<Longrightarrow> se_Status s = AccessStatusValid) \<Longrightarrow>
   sessions_kept xs (map f xs)"
  unfolding sessions_kept_def by fastforce

lemma cache_less_ops [simp]:
  "cache_less (wc_Remove c k) c" "cache_less (snd (IsKeyExist now c k)) c" "cache_less (snd (wc_Get now c k)) c"
  "cache_less (snd (GetAs conv now c k)) c" "cache_less (SetWithTTl now c (badKey code) v ttl) c" "cache_less (ClearExpirationCache now c) c"
  by (auto simp: cache_less_def wc_Remove_def IsKeyExist_def wc_Get_def GetAs_def SetWithTTl_def ClearExpirationCache_def Let_def split: option.splits)

subsection \<open>Calm operations\<close>

lemma revokeSessionRows_calm: "calm now db (snd (revokeSessionRows now code reason db))"
  unfolding calm_def revokeSessionRows_def snd_conv
  by (auto intro!: tokens_kept_map sessions_kept_map simp: same_token_def alive_at_def split: if_splits)

lemma markBad_calm: "calm now db (markBad now code db)"
  by (simp add: calm_def markBad_def)

lemma kick_token_calm: "calm now db (kick_token now code db)"
proof -
  have "calm now db (db\<lparr>db_cache := wc_Remove (db_cache db) (tokenKey code)\<rparr>)" by (simp add: calm_def)
  also note markBad_calm [of now _ code]
  finally show ?thesis by (simp add: kick_token_def)
qed

lemma kickCache_calm: "calm now db (kickCache now code codes db)"
proof -
  let ?db = "if code = [] then db else db\<lparr>db_cache := wc_Remove (db_cache db) (sessionKey code)\<rparr>"
  have "calm now db ?db" by (simp add: calm_def)
  also have "calm now ?db (fold (kick_token now) codes ?db)" by (rule calm_fold) (rule kick_token_calm)
  finally show ?thesis by (simp add: kickCache_def)
qed

lemma RevokeSession_calm: "calm now db (snd (RevokeSession now code reason db))"
  using calm_trans [OF revokeSessionRows_calm [of now db code reason] kickCache_calm [of now _ code]]
  by (auto simp: RevokeSession_def split: prod.splits)

lemma RevokeToken_calm: "calm now db (RevokeToken hash now plain db)"
proof -
  have "calm now db (db\<lparr>db_tokens := map (\<lambda>t. if to_TokenCode t = hash plain
      then t\<lparr>to_Status := AccessStatusRevoked, to_UpdateTime := now\<rparr> else t) (db_tokens db)\<rparr>)"
    by (auto simp: calm_def same_token_def alive_at_def intro!: tokens_kept_map split: if_splits)
  from calm_trans [OF this kick_token_calm] show ?thesis by (simp add: RevokeToken_def)
qed

lemma revoke_all_calm: "calm now db (snd (revoke_all now reason sessions db))"
  by (simp add: revoke_all_def calm_fold RevokeSession_calm)

lemma RevokeByHostCode_calm: "calm now db (snd (RevokeByHostCode now hostCode db))"
proof -
  have "calm now db (db\<lparr>db_tokens := map (\<lambda>t. if to_HostCode t = hostCode
      then t\<lparr>to_Status := AccessStatusRevoked, to_UpdateTime := now\<rparr> else t) (db_tokens db)\<rparr>)"
    by (auto simp: calm_def same_token_def alive_at_def intro!: tokens_kept_map split: if_splits)
  from calm_trans [OF this calm_fold [of now "kick_token now"]] show ?thesis
    by (simp add: RevokeByHostCode_def Let_def kick_token_calm)
qed

lemma touchToken_calm: "calm now db (touchToken t now db)"
  by (auto simp: touchToken_def calm_def same_token_def alive_at_def intro!: tokens_kept_map split: if_splits)

lemma touchSession_calm: "calm now db (touchSession sess now db)"
  by (auto simp: touchSession_def calm_def intro!: sessions_kept_map split: if_splits)

lemma IssueToken_calm: "calm now db (snd (IssueToken hash now cfg secret sess host hostCode ip fp db))"
  by (force simp: IssueToken_def calm_def tokens_kept_def Let_def same_token_def split: option.splits)

lemma IssueTicket_calm: "calm now db (snd (IssueTicket hash now cfg secret sess host ret ip fp db))"
  by (simp add: IssueTicket_def calm_def split: option.splits)

lemma ConsumeTicket_calm: "calm now db (snd (ConsumeTicket hash now cfg plain host ip fp db))"
  by (simp add: ConsumeTicket_def calm_def Let_def split: option.splits)

lemma tokens_kept_filter:
  "(\<And>t c. t \<in> set xs \<Longrightarrow> now - minute \<le> c \<Longrightarrow> alive_at c t \<Longrightarrow> P t) \<Longrightarrow> tokens_kept now xs (filter P xs)"
  unfolding tokens_kept_def by (metis filter_is_subset mem_Collect_eq set_filter same_token_refl)

lemma CleanExpired_calm: "calm now db (snd (CleanExpired now days db))"
proof -
  let ?ts = "map (\<lambda>t. if to_Status t = AccessStatusValid \<and> to_ExpireTime t < now
      then t\<lparr>to_Status := AccessStatusRevoked, to_UpdateTime := now\<rparr> else t) (db_tokens db)"
  let ?cut = "now - (if days \<le> 0 then 7 else days) * 24 * hour"
  have cut: "?cut < now - minute" by auto
  have "tokens_kept now (db_tokens db) ?ts"
    by (auto simp: same_token_def alive_at_def intro!: tokens_kept_map split: if_splits)
  moreover have "tokens_kept now ?ts (filter (\<lambda>t. \<not> (to_Status t = AccessStatusRevoked \<and> to_UpdateTime t < ?cut)) ?ts)"
    by (rule tokens_kept_filter) (use cut in \<open>force simp: alive_at_def\<close>)
  ultimately show ?thesis
    unfolding CleanExpired_def Let_def snd_conv calm_def
    by (auto simp: sessions_kept_def intro: tokens_kept_trans)
qed

subsection \<open>The invariant of the cache and the end of a session\<close>

text \<open>Every state in the cache that has not expired comes from a token row that is valid or was revoked after the entry was made.\<close>

definition backs :: "int \<Rightarrow> string \<Rightarrow> AccessState \<Rightarrow> AccessToken \<Rightarrow> bool" where
  "backs c code st t \<longleftrightarrow> to_TokenCode t = code \<and> to_SessionCode t = as_SessionCode st \<and> to_Host t = as_Host st \<and> to_HostCode t = as_HostCode st \<and>
     to_ClientIP t = as_ClientIP st \<and> to_Fingerprint t = as_Fingerprint st \<and> alive_at c t"

definition entry_backed :: "int \<Rightarrow> AccessToken list \<Rightarrow> string \<Rightarrow> access_rec WafCacheItem \<Rightarrow> bool" where
  "entry_backed now tokens code item \<longleftrightarrow>
     ci_createTime item \<le> now \<and> ci_ttl item \<le> minute \<and>
     (\<forall>st. ci_value item = CRec (RState st) \<and> \<not> expired now item \<longrightarrow> (\<exists>t \<in> set tokens. backs (ci_createTime item) code st t))"

definition cache_inv :: "int \<Rightarrow> access_db \<Rightarrow> bool" where
  "cache_inv now db \<longleftrightarrow>
     (\<forall>code item. db_cache db (tokenKey code) = Some item \<longrightarrow> entry_backed now (db_tokens db) code item) \<and>
     (\<forall>code item s. db_cache db (sessionKey code) = Some item \<and> ci_value item = CRec (RSession s) \<longrightarrow> se_SessionCode s = code)"

definition session_dead :: "int \<Rightarrow> string \<Rightarrow> access_db \<Rightarrow> bool" where
  "session_dead now code db \<longleftrightarrow>
     (\<forall>s \<in> set (db_sessions db). se_SessionCode s = code \<longrightarrow> se_Status s \<noteq> AccessStatusValid) \<and>
     db_cache db (sessionKey code) = None \<and>
     (\<forall>c item st. db_cache db (tokenKey c) = Some item \<and> \<not> expired now item \<and> ci_value item = CRec (RState st) \<longrightarrow> as_SessionCode st \<noteq> code)"

lemma expired_mono: "expired t item \<Longrightarrow> t \<le> t' \<Longrightarrow> expired t' item"
  by (simp add: expired_def)

lemma cache_inv_later: "cache_inv t db \<Longrightarrow> t \<le> t' \<Longrightarrow> cache_inv t' db"
  unfolding cache_inv_def entry_backed_def by (meson expired_mono order_trans)

lemma session_dead_later: "session_dead t code db \<Longrightarrow> t \<le> t' \<Longrightarrow> session_dead t' code db"
  unfolding session_dead_def by (metis expired_mono)

lemma entry_backed_kept:
  assumes e: "entry_backed now ts code item" and k: "tokens_kept now ts ts'"
  shows "entry_backed now ts' code item"
  unfolding entry_backed_def
proof (intro conjI allI impI; (elim conjE)?)
  show "ci_createTime item \<le> now" "ci_ttl item \<le> minute" using e by (auto simp: entry_backed_def)
next
  fix st assume st: "ci_value item = CRec (RState st)" and fresh: "\<not> expired now item"
  with e obtain t where t: "t \<in> set ts" "backs (ci_createTime item) code st t" and c: "ci_createTime item \<le> now" "ci_ttl item \<le> minute"
    unfolding entry_backed_def by blast
  have "now - minute \<le> ci_createTime item" using fresh c by (simp add: expired_def)
  with k t c obtain t' where "t' \<in> set ts'" "same_token t t'" "alive_at (ci_createTime item) t'"
    unfolding tokens_kept_def backs_def by blast
  with t show "\<exists>t \<in> set ts'. backs (ci_createTime item) code st t"
    by (auto simp: backs_def same_token_def intro!: bexI [of _ t'])
qed

lemma cache_inv_calm: "cache_inv now db \<Longrightarrow> calm now db db' \<Longrightarrow> cache_inv now db'"
  unfolding cache_inv_def calm_def cache_less_def by (metis entry_backed_kept option.distinct(1))

lemma session_dead_calm: "session_dead now code db \<Longrightarrow> calm now db db' \<Longrightarrow> session_dead now code db'"
  unfolding session_dead_def calm_def cache_less_def sessions_kept_def by (metis option.distinct(1))

lemma GetAs_session:
  assumes "GetAs (json_session zone) now c (sessionKey code) = (Inr s, c')"
    and "\<forall>item s. c (sessionKey code) = Some item \<and> ci_value item = CRec (RSession s) \<longrightarrow> se_SessionCode s = code"
  shows "se_SessionCode s = code \<and> c (sessionKey code) \<noteq> None"
  using assms
  by (auto simp: GetAs_def wc_Get_def json_session_def split: option.splits if_splits cval.splits access_rec.splits)

lemma find_SomeD: "find P xs = Some x \<Longrightarrow> x \<in> set xs \<and> P x"
  by (auto simp: find_Some_iff)

lemma loadValidSession_none:
  assumes "loadValidSession zone now cfg code db = (None, db')"
  shows "calm now db db'"
proof -
  let ?db = "db\<lparr>db_cache := snd (GetAs (json_session zone) now (db_cache db) (sessionKey code))\<rparr>"
  have look: "calm now db ?db" by (simp add: calm_def)
  have "db' = db \<or> db' = ?db \<or> (\<exists>c. db' = snd (revokeSessionRows now c ''expired'' ?db))"
    using assms unfolding loadValidSession_def
    by (auto simp: Let_def split: if_splits prod.splits option.splits sum.splits)
  with look show ?thesis by (auto intro: calm_trans [OF look revokeSessionRows_calm])
qed

text \<open>A session that is found is in the cache or valid in the database; then it is put in the cache.\<close>

lemma loadValidSession_some:
  assumes "loadValidSession zone now cfg code db = (Some sess, db')"
  obtains (cached) c where "GetAs (json_session zone) now (db_cache db) (sessionKey code) = (Inr sess, c)" "db' = db\<lparr>db_cache := c\<rparr>" "code \<noteq> []"
  | (row) c where "cache_less c (db_cache db)" "sess \<in> set (db_sessions db)" "se_SessionCode sess = code" "se_Status sess = AccessStatusValid"
      "db' = db\<lparr>db_cache := SetWithTTl now c (sessionKey code) (CRec (RSession sess)) (ac_CachePositiveTTL cfg)\<rparr>" "code \<noteq> []"
proof -
  obtain res c where g: "GetAs (json_session zone) now (db_cache db) (sessionKey code) = (res, c)" by force
  then have less: "cache_less c (db_cache db)" by (metis cache_less_ops(4) snd_conv)
  have "code \<noteq> []" using assms by (auto simp: loadValidSession_def)
  moreover have "(res = Inr sess \<and> db' = db\<lparr>db_cache := c\<rparr>) \<or>
      (find (\<lambda>s. se_SessionCode s = code \<and> se_Status s = AccessStatusValid) (db_sessions db) = Some sess \<and>
       db' = db\<lparr>db_cache := SetWithTTl now c (sessionKey code) (CRec (RSession sess)) (ac_CachePositiveTTL cfg)\<rparr>)"
    using assms g unfolding loadValidSession_def
    by (auto simp: Let_def split: if_splits prod.splits option.splits sum.splits)
  ultimately show ?thesis
    using g less that by (auto dest!: find_SomeD)
qed

text \<open>The writes into the cache.\<close>

lemma cache_inv_put_session:
  "cache_inv now db \<Longrightarrow> cache_less c (db_cache db) \<Longrightarrow> se_SessionCode sess = code \<Longrightarrow>
   cache_inv now (db\<lparr>db_cache := SetWithTTl now c (sessionKey code) (CRec (RSession sess)) ttl\<rparr>)"
  using cache_inv_calm [of now db "db\<lparr>db_cache := c\<rparr>"]
  by (auto simp: calm_def cache_inv_def SetWithTTl_def mk_item_def Let_def)

lemma session_dead_put_session:
  "session_dead now sc db \<Longrightarrow> cache_less c (db_cache db) \<Longrightarrow> code \<noteq> sc \<Longrightarrow>
   session_dead now sc (db\<lparr>db_cache := SetWithTTl now c (sessionKey code) v ttl\<rparr>)"
  using session_dead_calm [of now sc db "db\<lparr>db_cache := c\<rparr>"]
  by (auto simp: calm_def session_dead_def SetWithTTl_def mk_item_def Let_def)

lemma cache_inv_put_token:
  assumes inv: "cache_inv now db" and t: "t \<in> set (db_tokens db)" "backs now code st t" "to_Status t = AccessStatusValid" and ttl: "ttl \<le> minute"
  shows "cache_inv now (db\<lparr>db_cache := SetWithTTl now (db_cache db) (tokenKey code) (CRec (RState st)) ttl\<rparr>)"
proof -
  let ?c = "case db_cache db (tokenKey code) of None \<Rightarrow> now | Some item \<Rightarrow> ci_createTime item"
  have "?c \<le> now" using inv by (auto simp: cache_inv_def entry_backed_def split: option.splits)
  moreover have "backs ?c code st t" using t(2,3) by (simp add: backs_def alive_at_def)
  ultimately have "entry_backed now (db_tokens db) code (mk_item (CRec (RState st)) ?c ttl)"
    using t(1) ttl unfolding entry_backed_def by (auto simp: mk_item_def)
  then show ?thesis using inv by (auto simp: cache_inv_def SetWithTTl_def Let_def)
qed

lemma session_dead_put_token:
  "session_dead now sc db \<Longrightarrow> as_SessionCode st \<noteq> sc \<Longrightarrow>
   session_dead now sc (db\<lparr>db_cache := SetWithTTl now (db_cache db) (tokenKey code) (CRec (RState st)) ttl\<rparr>)"
  by (auto simp: session_dead_def SetWithTTl_def mk_item_def Let_def)

lemma loadValidSession_inv:
  assumes "loadValidSession zone now cfg code db = (res, db')" and inv: "cache_inv now db"
  shows "cache_inv now db' \<and> (\<forall>sess. res = Some sess \<longrightarrow> se_SessionCode sess = code \<and> db_tokens db' = db_tokens db)"
proof (cases res)
  case None
  then show ?thesis using assms loadValidSession_none cache_inv_calm by blast
next
  case (Some sess)
  with assms(1) have "loadValidSession zone now cfg code db = (Some sess, db')" by simp
  then show ?thesis
  proof (cases rule: loadValidSession_some)
    case (cached c)
    then have "cache_less c (db_cache db)" by (metis cache_less_ops(4) snd_conv)
    then have "calm now db db'" using cached(2) by (simp add: calm_def)
    moreover have "se_SessionCode sess = code" using GetAs_session [OF cached(1)] inv by (auto simp: cache_inv_def)
    ultimately show ?thesis using Some cached(2) cache_inv_calm [OF inv] by simp
  next
    case (row c)
    then show ?thesis using Some cache_inv_put_session [OF inv row(1,3)] by simp
  qed
qed

lemma loadValidSession_dead:
  assumes "loadValidSession zone now cfg code db = (res, db')" and inv: "cache_inv now db" and dead: "session_dead now sc db"
  shows "session_dead now sc db' \<and> (code = sc \<longrightarrow> res = None)"
proof (cases res)
  case None
  then show ?thesis using assms loadValidSession_none session_dead_calm by blast
next
  case (Some sess)
  with assms(1) have "loadValidSession zone now cfg code db = (Some sess, db')" by simp
  then show ?thesis
  proof (cases rule: loadValidSession_some)
    case (cached c)
    then have "cache_less c (db_cache db)" by (metis cache_less_ops(4) snd_conv)
    then have "calm now db db'" using cached(2) by (simp add: calm_def)
    moreover have "code \<noteq> sc" using GetAs_session [OF cached(1)] inv dead by (auto simp: cache_inv_def session_dead_def)
    ultimately show ?thesis using session_dead_calm [OF dead] by simp
  next
    case (row c)
    then have "code \<noteq> sc" using dead by (auto simp: session_dead_def)
    then show ?thesis using row(5) session_dead_put_session [OF dead row(1)] by simp
  qed
qed

text \<open>The three outcomes of the database part of a validation.\<close>

lemma validate_row_cases:
  assumes "validate_row zone now cfg code bound db = (res, db')"
  obtains (bad) "res = None" "db' = markBad now code db"
  | (gone) t :: AccessToken and db1 where "loadValidSession zone now cfg (to_SessionCode t) db = (None, db1)" "res = None" "db' = markBad now code db1"
  | (found) t sess db1 db2 where "t \<in> set (db_tokens db)" "to_TokenCode t = code" "to_Status t = AccessStatusValid" "\<not> to_ExpireTime t < now"
      "loadValidSession zone now cfg (to_SessionCode t) db = (Some sess, db1)"
      "db2 = db1\<lparr>db_cache := SetWithTTl now (db_cache db1) (tokenKey code) (CRec (RState (token_state sess t))) (ac_CachePositiveTTL cfg)\<rparr>"
      "res = (if bound (token_state sess t) then Some (token_state sess t) else None)" "db' = db2 \<or> db' = touchToken t now db2"
proof (cases "find (\<lambda>t. to_TokenCode t = code \<and> to_Status t = AccessStatusValid) (db_tokens db)")
  case None
  then show ?thesis using assms bad by (simp add: validate_row_def)
next
  case (Some t)
  then have t: "t \<in> set (db_tokens db)" "to_TokenCode t = code" "to_Status t = AccessStatusValid" by (auto dest!: find_SomeD)
  show ?thesis
  proof (cases "to_ExpireTime t < now")
    case True
    then show ?thesis using assms bad Some by (simp add: validate_row_def)
  next
    case False
    show ?thesis
    proof (cases "loadValidSession zone now cfg (to_SessionCode t) db")
      case (Pair r db1)
      show ?thesis
      proof (cases r)
        case None
        then show ?thesis using assms gone Some False Pair by (simp add: validate_row_def)
      next
        case (Some sess)
        show ?thesis
          by (rule found [OF t False Pair [unfolded Some] refl])
             (use assms False Pair Some \<open>find _ _ = Some t\<close> in \<open>auto simp: validate_row_def Let_def split: if_splits\<close>)
      qed
    qed
  qed
qed

lemma validate_row_inv:
  assumes v: "validate_row zone now cfg code bound db = (res, db')" and inv: "cache_inv now db" and cap: "ac_CachePositiveTTL cfg \<le> minute"
  shows "cache_inv now db' \<and> (\<forall>st. res = Some st \<longrightarrow> bound st \<and> (\<exists>t \<in> set (db_tokens db'). backs now code st t))"
  using v
proof (cases rule: validate_row_cases)
  case bad
  then show ?thesis using inv markBad_calm cache_inv_calm by blast
next
  case (gone t db1)
  then show ?thesis using loadValidSession_inv [OF gone(1) inv] markBad_calm cache_inv_calm by blast
next
  case (found t sess db1 db2)
  have l: "cache_inv now db1" "se_SessionCode sess = to_SessionCode t" "db_tokens db1 = db_tokens db"
    using loadValidSession_inv [OF found(5) inv] by auto
  have b: "backs now code (token_state sess t) t" using found(2,3) l(2) by (simp add: backs_def token_state_def alive_at_def)
  have i2: "cache_inv now db2" using cache_inv_put_token [OF l(1) _ b found(3) cap] found(1,6) l(3) by simp
  have "t \<in> set (db_tokens db2)" using found(1,6) l(3) by simp
  moreover have k: "calm now db2 db'" using found(8) touchToken_calm by auto
  ultimately obtain t' where "t' \<in> set (db_tokens db')" "same_token t t'" "alive_at now t'"
    using b tokens_kept_now unfolding calm_def backs_def by blast
  then have "t' \<in> set (db_tokens db')" "backs now code (token_state sess t) t'" using b by (auto simp: backs_def same_token_def)
  then show ?thesis using cache_inv_calm [OF i2 k] found(7) by (auto split: if_splits)
qed

lemma validate_row_dead:
  assumes v: "validate_row zone now cfg code bound db = (res, db')" and inv: "cache_inv now db" and dead: "session_dead now sc db"
  shows "session_dead now sc db' \<and> (\<forall>st. res = Some st \<longrightarrow> as_SessionCode st \<noteq> sc)"
  using v
proof (cases rule: validate_row_cases)
  case bad
  then show ?thesis using dead markBad_calm session_dead_calm by blast
next
  case (gone t db1)
  then show ?thesis using loadValidSession_dead [OF gone(1) inv dead] markBad_calm session_dead_calm by blast
next
  case (found t sess db1 db2)
  have d1: "session_dead now sc db1" and "to_SessionCode t \<noteq> sc" using loadValidSession_dead [OF found(5) inv dead] by auto
  then have "as_SessionCode (token_state sess t) \<noteq> sc" using loadValidSession_inv [OF found(5) inv] by (simp add: token_state_def)
  moreover from this d1 have "session_dead now sc db2" using found(6) session_dead_put_token by simp
  moreover have "calm now db2 db'" using found(8) touchToken_calm by auto
  ultimately show ?thesis using session_dead_calm found(7) by auto
qed

text \<open>A validation that looks at the cache first either answers from it or goes to the database.\<close>

lemma ValidateToken_cases:
  assumes "ValidateToken hash zone now cfg plain host hostCode ip fp db = (res, db')"
  obtains (no) "res = None" "calm now db db'"
  | (cached) item where "db_cache db (tokenKey (hash plain)) = Some item" "\<not> expired now item"
      "\<And>st. res = Some st \<Longrightarrow> ci_value item = CRec (RState st) \<and> matchBindings cfg st host hostCode ip fp" "calm now db db'" "db_tokens db' = db_tokens db"
  | (row) db1 where "calm now db db1"
      "validate_row zone now cfg (hash plain) (\<lambda>s. matchBindings cfg s host hostCode ip fp) db1 = (res, db')"
proof (cases "plain = []")
  case True
  then show ?thesis using assms no by (simp add: ValidateToken_def)
next
  case False
  obtain b c where e: "IsKeyExist now (db_cache db) (badKey (hash plain)) = (b, c)" by force
  obtain r c' where g: "GetAs json_state now c (tokenKey (hash plain)) = (r, c')" by force
  have less: "cache_less c (db_cache db)" "cache_less c' (db_cache db)"
    using cache_less_ops(2) [of now "db_cache db" "badKey (hash plain)"] cache_less_ops(4) [of json_state now c "tokenKey (hash plain)"] e g cache_less_trans by auto
  then have calm: "calm now db (db\<lparr>db_cache := c\<rparr>)" "calm now db (db\<lparr>db_cache := c'\<rparr>)" by (simp_all add: calm_def)
  show ?thesis
  proof (cases "b \<or> (\<exists>cached. r = Inr cached \<and> as_SessionCode cached \<noteq> [] \<and> now div second < as_ExpireUnix cached)")
    case False
    then have "validate_row zone now cfg (hash plain) (\<lambda>s. matchBindings cfg s host hostCode ip fp) (db\<lparr>db_cache := c'\<rparr>) = (res, db')"
      using assms e g \<open>plain \<noteq> []\<close> by (auto simp: ValidateToken_def Let_def split: sum.splits if_splits)
    then show ?thesis using row calm(2) by blast
  next
    case True
    show ?thesis
    proof (cases b)
      case True
      then show ?thesis using assms e \<open>plain \<noteq> []\<close> calm(1) no by (simp add: ValidateToken_def)
    next
      case False
      with True obtain st where st: "r = Inr st" "as_SessionCode st \<noteq> []" "now div second < as_ExpireUnix st" by auto
      obtain item where i: "c (tokenKey (hash plain)) = Some item" "\<not> expired now item" "ci_value item = CRec (RState st)"
        using g st(1) by (auto simp: GetAs_def wc_Get_def json_state_def split: option.splits if_splits cval.splits access_rec.splits)
      then have "db_cache db (tokenKey (hash plain)) = Some item" using less(1) unfolding cache_less_def by (metis option.distinct(1))
      moreover have "res = (if matchBindings cfg st host hostCode ip fp then Some st else None)" "db' = db\<lparr>db_cache := c'\<rparr>"
        using assms e g st False \<open>plain \<noteq> []\<close> by (auto simp: ValidateToken_def Let_def)
      ultimately show ?thesis using cached [of item] i(2,3) calm(2) by (auto split: if_splits)
    qed
  qed
qed

lemma ValidateToken_inv:
  assumes v: "ValidateToken hash zone now cfg plain host hostCode ip fp db = (res, db')"
    and inv: "cache_inv now db" and cap: "ac_CachePositiveTTL cfg \<le> minute"
  shows "cache_inv now db' \<and> (\<forall>st. res = Some st \<longrightarrow> matchBindings cfg st host hostCode ip fp \<and>
    (\<exists>t \<in> set (db_tokens db'). backs (now - minute) (hash plain) st t))"
  using v
proof (cases rule: ValidateToken_cases)
  case no
  then show ?thesis using cache_inv_calm [OF inv] by simp
next
  case (cached item)
  have "entry_backed now (db_tokens db) (hash plain) item" using inv cached(1) by (auto simp: cache_inv_def)
  moreover have "backs (now - minute) (hash plain) st t" if "backs (ci_createTime item) (hash plain) st t" and "ci_ttl item \<le> minute" for st t
    using that cached(2) by (auto simp: backs_def alive_at_def expired_def)
  ultimately show ?thesis
    using cached(2,3,5) cache_inv_calm [OF inv cached(4)] unfolding entry_backed_def by metis
next
  case (row db1)
  have "backs (now - minute) (hash plain) st t" if "backs now (hash plain) st t" for st t
    using that by (auto simp: backs_def alive_at_def)
  then show ?thesis using validate_row_inv [OF row(2) cache_inv_calm [OF inv row(1)] cap] by blast
qed

lemma ValidateToken_dead:
  assumes v: "ValidateToken hash zone now cfg plain host hostCode ip fp db = (res, db')"
    and inv: "cache_inv now db" and dead: "session_dead now sc db"
  shows "session_dead now sc db' \<and> (\<forall>st. res = Some st \<longrightarrow> as_SessionCode st \<noteq> sc)"
  using v
proof (cases rule: ValidateToken_cases)
  case no
  then show ?thesis using session_dead_calm [OF dead] by simp
next
  case (cached item)
  then show ?thesis using dead session_dead_calm [OF dead cached(4)] unfolding session_dead_def by metis
next
  case (row db1)
  then show ?thesis using validate_row_dead cache_inv_calm [OF inv] session_dead_calm [OF dead] by blast
qed

lemma ValidateSSOSession_cases:
  assumes "ValidateSSOSession hash zone now cfg plain host ip fp db = (res, db')"
  obtains "res = None" "db' = db"
  | r db1 where "loadValidSession zone now cfg (hash plain) db = (r, db1)" "calm now db1 db'" "res = None \<or> res = r"
proof (cases "plain = []")
  case True
  then show ?thesis using assms that(1) by (simp add: ValidateSSOSession_def)
next
  case False
  obtain r db1 where l: "loadValidSession zone now cfg (hash plain) db = (r, db1)" by force
  have "(db' = db1 \<or> (\<exists>sess. db' = touchSession sess now db1)) \<and> (res = None \<or> res = r)"
    using assms l False by (auto simp: ValidateSSOSession_def split: option.splits if_splits)
  then show ?thesis using that(2) [OF l] touchSession_calm calm_refl by metis
qed

lemma ValidateSSOSession_inv:
  "ValidateSSOSession hash zone now cfg plain host ip fp db = (res, db') \<Longrightarrow> cache_inv now db \<Longrightarrow> cache_inv now db'"
  by (erule ValidateSSOSession_cases) (use loadValidSession_inv cache_inv_calm in blast)+

lemma ValidateSSOSession_dead:
  assumes "ValidateSSOSession hash zone now cfg plain host ip fp db = (res, db')" "cache_inv now db" "session_dead now sc db"
  shows "session_dead now sc db' \<and> (hash plain = sc \<longrightarrow> res = None)"
  using assms(1)
  by (rule ValidateSSOSession_cases) (use assms(2,3) loadValidSession_dead session_dead_calm in blast)+

subsection \<open>Every operation keeps the invariant\<close>

lemma CreateSession_inv: "cache_inv now db \<Longrightarrow> cache_inv now (snd (CreateSession hash now cfg secret rowId acct scope bind ip fp ua db))"
  by (simp add: CreateSession_def cache_inv_def Let_def split: option.splits)

lemma CreateSession_dead:
  "session_dead now sc db \<Longrightarrow> \<forall>plain. secret = Some plain \<longrightarrow> hash plain \<noteq> sc \<Longrightarrow>
   session_dead now sc (snd (CreateSession hash now cfg secret rowId acct scope bind ip fp ua db))"
  by (auto simp: CreateSession_def session_dead_def Let_def split: option.splits)

lemmas revocations_calm = RevokeSession_calm RevokeToken_calm revoke_all_calm RevokeByHostCode_calm CleanExpired_calm IssueToken_calm IssueTicket_calm ConsumeTicket_calm

lemma access_step_calm:
  "(case act of OpCreate _ _ _ _ _ _ _ _ _ \<Rightarrow> False | OpValidate _ _ _ _ _ _ \<Rightarrow> False | OpSSO _ _ _ _ _ \<Rightarrow> False | _ \<Rightarrow> True) \<Longrightarrow>
   calm now db (access_step hash zone now act db)"
  by (cases act) (simp_all add: revocations_calm RevokeByAccount_def KickApi_def KickAllApi_def split: option.splits, simp add: calm_def)

lemma access_step_inv:
  assumes "cache_inv now db" "cache_capped act"
  shows "cache_inv now (access_step hash zone now act db)"
proof (cases act)
  case (OpValidate cfg plain host hostCode ip fp)
  then show ?thesis using assms ValidateToken_inv [OF prod.collapse [symmetric]] by (simp add: cache_capped_def)
next
  case (OpSSO cfg plain host ip fp)
  then show ?thesis using assms ValidateSSOSession_inv [OF prod.collapse [symmetric]] by simp
qed (use assms cache_inv_calm [OF assms(1) access_step_calm [of act]] CreateSession_inv in auto)

lemma access_step_dead:
  assumes "cache_inv now db" "session_dead now sc db" "no_new_session hash sc act"
  shows "session_dead now sc (access_step hash zone now act db)"
proof (cases act)
  case (OpCreate cfg secret rowId acct scope bind ip fp ua)
  then show ?thesis using assms CreateSession_dead by (simp add: no_new_session_def split: option.splits)
next
  case (OpValidate cfg plain host hostCode ip fp)
  then show ?thesis using assms ValidateToken_dead [OF prod.collapse [symmetric]] by simp
next
  case (OpSSO cfg plain host ip fp)
  then show ?thesis using assms ValidateSSOSession_dead [OF prod.collapse [symmetric]] by simp
qed (use session_dead_calm [OF assms(2) access_step_calm [of act]] in auto)

lemma access_steps_inv:
  assumes "access_steps hash zone ok t0 db0 t db" "cache_inv t0 db0" "\<And>act. ok act \<Longrightarrow> cache_capped act"
  shows "cache_inv t db"
  using assms(1,2)
proof induction
  case (stay t)
  then show ?case using cache_inv_later by blast
next
  case (step t db act t')
  then show ?case using access_step_inv assms(3) cache_inv_later by blast
qed

lemma access_steps_dead:
  assumes "access_steps hash zone ok t0 db0 t db" "cache_inv t0 db0" "session_dead t0 sc db0"
    and ok: "\<And>act. ok act \<Longrightarrow> cache_capped act \<and> no_new_session hash sc act"
  shows "cache_inv t db \<and> session_dead t sc db"
  using assms(1-3)
proof induction
  case (stay t)
  then show ?case using cache_inv_later session_dead_later by blast
next
  case (step t db act t')
  then have "cache_inv t db" "session_dead t sc db" by auto
  with ok [OF step.hyps(2)] have "cache_inv t (access_step hash zone t act db)" "session_dead t sc (access_step hash zone t act db)"
    using access_step_inv access_step_dead by auto
  then show ?case using step.hyps(3) cache_inv_later session_dead_later by auto
qed

lemma cache_inv_empty [simp]: "cache_inv t empty_db"
  by (simp add: cache_inv_def empty_db_def InitWafCache_def)

subsection \<open>Revocation\<close>

lemma kick_token_cache: "db_cache (kick_token now code db) (tokenKey c) = (if c = code then None else db_cache db (tokenKey c))"
  by (auto simp: kick_token_def markBad_def wc_Remove_def SetWithTTl_def Let_def split: option.splits)

lemma kick_tokens_cache: "db_cache (fold (kick_token now) codes db) (tokenKey c) = (if c \<in> set codes then None else db_cache db (tokenKey c))"
  by (induction codes arbitrary: db) (auto simp: kick_token_cache)

lemma kick_tokens_session: "db_cache (fold (kick_token now) codes db) (sessionKey c) = db_cache db (sessionKey c)"
  by (induction codes arbitrary: db) (auto simp: kick_token_def markBad_def wc_Remove_def SetWithTTl_def Let_def split: option.splits)

lemma kick_tokens_rows: "db_sessions (fold (kick_token now) codes db) = db_sessions db"
  by (induction codes arbitrary: db) (auto simp: kick_token_def markBad_def)

lemma revokeSessionRows_status: "\<forall>s \<in> set (db_sessions (snd (revokeSessionRows now sc reason db))). se_SessionCode s = sc \<longrightarrow> se_Status s = AccessStatusRevoked"
  by (simp add: revokeSessionRows_def ball_Un)

lemma RevokeSession_kills:
  assumes inv: "cache_inv now db" and ne: "sc \<noteq> []"
  shows "session_dead now sc (snd (RevokeSession now sc reason db))"
proof -
  let ?codes = "map to_TokenCode (filter (\<lambda>t. to_SessionCode t = sc) (db_tokens db))"
  let ?db = "snd (revokeSessionRows now sc reason db)"
  have r: "snd (RevokeSession now sc reason db) = fold (kick_token now) ?codes (?db\<lparr>db_cache := wc_Remove (db_cache ?db) (sessionKey sc)\<rparr>)"
    using ne by (simp add: RevokeSession_def revokeSessionRows_def kickCache_def)
  have hit: "code \<in> set ?codes" if "db_cache db (tokenKey code) = Some item" "\<not> expired now item" "ci_value item = CRec (RState st)" "as_SessionCode st = sc" for code item st
  proof -
    obtain t where "t \<in> set (db_tokens db)" "backs (ci_createTime item) code st t"
      using inv \<open>db_cache db (tokenKey code) = Some item\<close> \<open>\<not> expired now item\<close> \<open>ci_value item = CRec (RState st)\<close>
      unfolding cache_inv_def entry_backed_def by blast
    then show ?thesis using \<open>as_SessionCode st = sc\<close> by (auto simp: backs_def)
  qed
  have tok: "wc_Remove (db_cache ?db) (sessionKey sc) (tokenKey c) = db_cache db (tokenKey c)" for c
    by (simp add: revokeSessionRows_def wc_Remove_def split: option.splits)
  have ses: "wc_Remove (db_cache ?db) (sessionKey sc) (sessionKey sc) = None" by (simp add: wc_Remove_def split: option.splits)
  have "\<forall>s \<in> set (db_sessions ?db). se_SessionCode s = sc \<longrightarrow> se_Status s \<noteq> AccessStatusValid"
    using revokeSessionRows_status [of now sc reason db] by simp
  moreover have "\<forall>c. c \<notin> set ?codes \<longrightarrow> (\<forall>item st. db_cache db (tokenKey c) = Some item \<and> \<not> expired now item \<and>
      ci_value item = CRec (RState st) \<longrightarrow> as_SessionCode st \<noteq> sc)"
    using hit by blast
  ultimately show ?thesis
    unfolding r session_dead_def kick_tokens_cache kick_tokens_session kick_tokens_rows using tok ses by simp
qed

lemma RevokeSession_inv: "cache_inv now db \<Longrightarrow> cache_inv now (snd (RevokeSession now sc reason db))"
  using cache_inv_calm RevokeSession_calm by blast

lemma revoke_all_kills:
  assumes "cache_inv now db" "s \<in> set sessions" "se_SessionCode s = sc" "sc \<noteq> []"
  shows "session_dead now sc (snd (revoke_all now reason sessions db))"
proof -
  let ?f = "\<lambda>s db. snd (RevokeSession now (se_SessionCode s) reason db)"
  have "cache_inv now (fold ?f sessions db) \<and> (sc \<in> se_SessionCode ` set sessions \<or> session_dead now sc db \<longrightarrow> session_dead now sc (fold ?f sessions db))"
    using assms(1)
  proof (induction sessions arbitrary: db)
    case (Cons x xs)
    have i: "cache_inv now (?f x db)" using Cons.prems RevokeSession_inv by blast
    have "session_dead now sc (?f x db)" if "se_SessionCode x = sc \<or> session_dead now sc db"
      using that RevokeSession_kills [OF Cons.prems assms(4)] session_dead_calm RevokeSession_calm by blast
    then show ?case using Cons.IH [OF i] by auto
  qed simp
  then show ?thesis using assms(2,3) by (auto simp: revoke_all_def)
qed

lemma kicks_kills:
  assumes "cache_inv now db" "kicks act sc db" "sc \<noteq> []"
  shows "session_dead now sc (access_step hash zone now act db)"
  using assms revoke_all_kills RevokeSession_kills
  by (fastforce simp: kicks_def RevokeByAccount_def KickAllApi_def KickApi_def split: access_op.splits)

lemma access_steps_time: "access_steps hash zone ok t0 db0 t db \<Longrightarrow> t0 \<le> t"
  by (induction rule: access_steps.induct) auto

text \<open>
  C31. A session that has been taken offline stays offline. Start from the empty state and let any operations run; then let an operation
  kick the session \<open>sc\<close> (a revocation of it, of its account, of its row in the administration, or of everything) and let any operations follow that
  do not draw a secret with the same digest. However the cache was filled before, no token is accepted for that session again, on any site,
  and its central cookie is refused.
\<close>

theorem kicked_for_good:
  assumes before: "access_steps hash zone cache_capped t0 empty_db t1 db1"
    and kick: "kicks act sc db1" "sc \<noteq> []"
    and after: "access_steps hash zone (\<lambda>a. cache_capped a \<and> no_new_session hash sc a) t1 (access_step hash zone t1 act db1) t2 db2"
  shows "(\<forall>cfg plain host hostCode ip fp st. fst (ValidateToken hash zone t2 cfg plain host hostCode ip fp db2) = Some st \<longrightarrow> as_SessionCode st \<noteq> sc) \<and>
     (\<forall>cfg plain host ip fp. hash plain = sc \<longrightarrow> fst (ValidateSSOSession hash zone t2 cfg plain host ip fp db2) = None)"
proof -
  have i: "cache_inv t1 db1" by (rule access_steps_inv [OF before]) auto
  have "cache_capped act" using kick(1) by (auto simp: kicks_def cache_capped_def split: access_op.splits)
  with i have "cache_inv t1 (access_step hash zone t1 act db1)" by (rule access_step_inv)
  moreover have "session_dead t1 sc (access_step hash zone t1 act db1)" using kicks_kills i kick by blast
  ultimately have d: "cache_inv t2 db2 \<and> session_dead t2 sc db2" by (rule access_steps_dead [OF after]) auto
  then show ?thesis
    using ValidateToken_dead [OF prod.collapse [symmetric]] ValidateSSOSession_dead [OF prod.collapse [symmetric]] by metis
qed

lemma accepted_token:
  assumes run: "access_steps hash zone cache_capped t0 empty_db t db" and cap: "ac_CachePositiveTTL cfg \<le> minute"
    and ok: "ValidateToken hash zone t cfg plain host hostCode ip fp db = (Some st, db')"
  shows "\<exists>row \<in> set (db_tokens db'). to_TokenCode row = hash plain \<and> to_SessionCode row = as_SessionCode st \<and>
     to_HostCode row = hostCode \<and> hostCode \<noteq> [] \<and> EqualFold (to_Host row) host \<and>
     (ac_BindIP cfg \<and> to_ClientIP row \<noteq> [] \<longrightarrow> to_ClientIP row = ip) \<and>
     (ac_BindFingerprint cfg \<and> to_Fingerprint row \<noteq> [] \<longrightarrow> to_Fingerprint row = fp) \<and>
     (to_Status row = AccessStatusValid \<or> t - minute \<le> to_UpdateTime row)"
proof -
  have i: "cache_inv t db" by (rule access_steps_inv [OF run]) auto
  from ValidateToken_inv [OF ok i cap]
  have m: "matchBindings cfg st host hostCode ip fp" and "\<exists>row \<in> set (db_tokens db'). backs (t - minute) (hash plain) st row" by auto
  then obtain row where "row \<in> set (db_tokens db')" "backs (t - minute) (hash plain) st row" by blast
  with m show ?thesis unfolding backs_def alive_at_def matchBindings_def by (intro bexI [of _ row]) auto
qed

text \<open>
  Whatever token the engine accepts was issued for that request. In every state reached from the empty one, an accepted token has a row with
  the digest of the cookie; the site code of the row is that of the request, its host is the host of the request up to case, and its address and
  device are those of the request when the configuration binds them; the row is valid or was revoked in the last sixty seconds, the lifetime of a cache entry.
\<close>

theorem accepted_token_issued:
  assumes run: "access_steps hash zone cache_capped t0 empty_db t db" and cap: "ac_CachePositiveTTL cfg \<le> minute"
    and ok: "ValidateToken hash zone t cfg plain host hostCode ip fp db = (Some st, db')"
  shows "\<exists>row \<in> set (db_tokens db'). to_TokenCode row = hash plain \<and> to_SessionCode row = as_SessionCode st \<and>
     to_HostCode row = hostCode \<and> hostCode \<noteq> [] \<and> EqualFold (to_Host row) host \<and>
     (ac_BindIP cfg \<and> to_ClientIP row \<noteq> [] \<longrightarrow> to_ClientIP row = ip) \<and>
     (ac_BindFingerprint cfg \<and> to_Fingerprint row \<noteq> [] \<longrightarrow> to_Fingerprint row = fp) \<and>
     (to_Status row = AccessStatusValid \<or> t - minute \<le> to_UpdateTime row)"
  by (rule accepted_token [OF run cap ok])

subsection \<open>Tickets are redeemed once\<close>

definition ticket_spent :: "int \<Rightarrow> string \<Rightarrow> access_db \<Rightarrow> bool" where
  "ticket_spent now code db \<longleftrightarrow> (\<forall>k \<in> set (db_tickets db). \<not> redeemable code now k)"

lemma markBad_tickets [simp]: "db_tickets (markBad now code db) = db_tickets db" by (simp add: markBad_def)

lemma touch_tickets [simp]: "db_tickets (touchToken t now db) = db_tickets db" "db_tickets (touchSession s now db) = db_tickets db"
  by (simp_all add: touchToken_def touchSession_def)

lemma revokeSessionRows_tickets [simp]: "db_tickets (snd (revokeSessionRows now code reason db)) = db_tickets db"
  by (simp add: revokeSessionRows_def)

lemma kick_tokens_tickets [simp]: "db_tickets (fold (kick_token now) codes db) = db_tickets db"
  by (induction codes arbitrary: db) (auto simp: kick_token_def)

lemma RevokeSession_tickets [simp]: "db_tickets (snd (RevokeSession now code reason db)) = db_tickets db"
  by (simp add: RevokeSession_def kickCache_def split_beta)

lemma revoke_all_tickets [simp]: "db_tickets (snd (revoke_all now reason sessions db)) = db_tickets db"
proof -
  have "db_tickets (fold (\<lambda>s db. snd (RevokeSession now (se_SessionCode s) reason db)) sessions db) = db_tickets db"
    by (induction sessions arbitrary: db) auto
  then show ?thesis by (simp add: revoke_all_def)
qed

lemma loadValidSession_tickets: "loadValidSession zone now cfg code db = (res, db') \<Longrightarrow> db_tickets db' = db_tickets db"
  by (auto simp: loadValidSession_def Let_def split: if_splits prod.splits option.splits sum.splits)

lemma validate_row_tickets: "validate_row zone now cfg code bound db = (res, db') \<Longrightarrow> db_tickets db' = db_tickets db"
  by (erule validate_row_cases) (auto dest: loadValidSession_tickets)

lemma ValidateToken_tickets: "db_tickets (snd (ValidateToken hash zone now cfg plain host hostCode ip fp db)) = db_tickets db"
  by (auto simp: ValidateToken_def Let_def validate_row_tickets [OF prod.collapse [symmetric]] split: prod.splits sum.splits bool.splits)

lemma ValidateSSOSession_tickets: "db_tickets (snd (ValidateSSOSession hash zone now cfg plain host ip fp db)) = db_tickets db"
  by (auto simp: ValidateSSOSession_def split: prod.splits option.splits dest: loadValidSession_tickets)

lemma ConsumeTicket_tickets:
  "plain \<noteq> [] \<Longrightarrow> db_tickets (snd (ConsumeTicket hash now cfg plain host ip fp db)) =
     map (\<lambda>k. if redeemable (hash plain) now k then k\<lparr>ti_Used := 1, ti_UsedTime := now\<rparr> else k) (db_tickets db)"
  by (simp add: ConsumeTicket_def Let_def split: option.splits)

lemma ConsumeTicket_spends:
  assumes "plain \<noteq> []" shows "ticket_spent now (hash plain) (snd (ConsumeTicket hash now cfg plain host ip fp db))"
  unfolding ticket_spent_def ConsumeTicket_tickets [OF assms] by (auto simp: redeemable_def)

lemma ConsumeTicket_spent:
  assumes "ticket_spent now code db" shows "ticket_spent now code (snd (ConsumeTicket hash now cfg plain host ip fp db))"
proof (cases "plain = []")
  case True
  then show ?thesis using assms by (simp add: ConsumeTicket_def)
next
  case False
  show ?thesis using assms unfolding ticket_spent_def ConsumeTicket_tickets [OF False] by (auto simp: redeemable_def)
qed

lemma ConsumeTicket_refuses:
  assumes "ticket_spent now (hash plain) db" shows "\<exists>e. fst (ConsumeTicket hash now cfg plain host ip fp db) = Inl e"
proof -
  have "filter (redeemable (hash plain) now) (db_tickets db) = []" using assms by (simp add: ticket_spent_def filter_empty_conv)
  then show ?thesis by (simp add: ConsumeTicket_def)
qed

lemma access_step_spent:
  assumes "ticket_spent now code db" "no_new_ticket hash code act"
  shows "ticket_spent now code (access_step hash zone now act db)"
proof (cases act)
  case (OpConsume cfg plain host ip fp)
  then show ?thesis using assms ConsumeTicket_spent by simp
next
  case (OpTicket cfg secret sess host ret ip fp)
  then show ?thesis using assms
    by (auto simp: ticket_spent_def IssueTicket_def no_new_ticket_def redeemable_def split: option.splits)
qed (use assms in \<open>auto simp: ticket_spent_def ValidateToken_tickets ValidateSSOSession_tickets CreateSession_def IssueToken_def Let_def RevokeToken_def
       kick_token_def RevokeByAccount_def RevokeByHostCode_def KickApi_def KickAllApi_def CleanExpired_def split: option.splits\<close>)

lemma ticket_spent_later: "ticket_spent t code db \<Longrightarrow> t \<le> t' \<Longrightarrow> ticket_spent t' code db"
  by (fastforce simp: ticket_spent_def redeemable_def)

text \<open>
  C32. A ticket is redeemed at most once. After one attempt to redeem a ticket, successful or not, no later attempt with a ticket of the same digest
  succeeds, whatever operations lie between, as long as none draws a new ticket with that digest. A ticket is handed out only on its target host.
\<close>

theorem ticket_once:
  assumes first: "ConsumeTicket hash t1 cfg plain host ip fp db = (res, db1)" "plain \<noteq> []"
    and between: "access_steps hash zone (no_new_ticket hash (hash plain)) t1 db1 t2 db2"
    and again: "hash plain' = hash plain"
  shows "(\<exists>e. fst (ConsumeTicket hash t2 cfg' plain' host' ip' fp' db2) = Inl e) \<and> (\<forall>k. res = Inr k \<longrightarrow> EqualFold (ti_TargetHost k) host)"
proof
  have "ticket_spent t1 (hash plain) db1" using ConsumeTicket_spends [OF first(2)] first(1) by (metis snd_conv)
  with between have "ticket_spent t2 (hash plain) db2"
  proof induction
    case (step t db act t')
    then show ?case using access_step_spent ticket_spent_later by blast
  qed (rule ticket_spent_later)
  then show "\<exists>e. fst (ConsumeTicket hash t2 cfg' plain' host' ip' fp' db2) = Inl e"
    using ConsumeTicket_refuses again by metis
  show "\<forall>k. res = Inr k \<longrightarrow> EqualFold (ti_TargetHost k) host"
    using first by (auto simp: ConsumeTicket_def Let_def split: option.splits if_splits)
qed

subsection \<open>Activity and the idle limit\<close>

text \<open>A request that presents a token never renews the activity of its session, however active the user is.\<close>

definition activity :: "access_db \<Rightarrow> (string \<times> int) list" where
  "activity db = map (\<lambda>s. (se_SessionCode s, se_LastActiveTime s)) (db_sessions db)"

lemma loadValidSession_activity: "loadValidSession zone now cfg code db = (res, db') \<Longrightarrow> activity db' = activity db"
  by (auto simp: activity_def loadValidSession_def revokeSessionRows_def Let_def split: if_splits prod.splits option.splits sum.splits)

lemma validate_row_activity: "validate_row zone now cfg code bound db = (res, db') \<Longrightarrow> activity db' = activity db"
  by (erule validate_row_cases)
     (auto dest!: loadValidSession_activity simp: activity_def markBad_def touchToken_def split: if_splits)

lemma ValidateToken_activity: "activity (snd (ValidateToken hash zone now cfg plain host hostCode ip fp db)) = activity db"
proof -
  have eq: "activity (db\<lparr>db_cache := c\<rparr>) = activity db" for c by (simp add: activity_def)
  show ?thesis
    by (auto simp: ValidateToken_def Let_def validate_row_activity [OF prod.collapse [symmetric]] eq split: prod.splits sum.splits bool.splits)
qed

text \<open>East of Greenwich a session read from the cache looks active for as long as the local zone is ahead of UTC, so its activity is not written.\<close>

lemma cached_session_never_touched:
  assumes "json_session zone (CRec (RSession s)) = Some s'" and "0 < se_LastActiveTime s" "second \<le> zone" "now - se_LastActiveTime s < zone - second"
  shows "touchSession s' now db = db"
proof -
  have s': "se_LastActiveTime s' = se_LastActiveTime s div second * second + zone" using assms(1) by (auto simp: json_session_def json_time_def)
  have "se_LastActiveTime s - second < se_LastActiveTime s div second * second" by linarith
  then have "now - se_LastActiveTime s' < touchInterval" using s' assms(4) unfolding touchInterval_def by linarith
  moreover have "se_LastActiveTime s' \<noteq> 0" using s' assms(2,3) by simp
  ultimately show ?thesis by (simp add: touchSession_def)
qed

subsection \<open>A session on record\<close>

definition demo_hash :: "string \<Rightarrow> string" where "demo_hash s = CHR ''h'' # s"

definition demo_cfg :: access_cfg where
  "demo_cfg = \<lparr>ac_SessionTTL = 8 * hour, ac_TokenTTL = hour, ac_TicketTTL = minute, ac_IdleTimeout = 0, ac_BindIP = True, ac_BindFingerprint = False,
     ac_CachePositiveTTL = minute\<rparr>"

definition demo_login :: access_op where
  "demo_login = OpCreate demo_cfg (Some ''s'') ''1'' (''7'', ''ann'') ''sso'' [] ''1.1.1.1'' [] []"

definition demo_session :: "access_db \<Rightarrow> AccessSession" where "demo_session db = hd (db_sessions db)"

definition demo_db :: access_db where
  "demo_db = (let db = access_step demo_hash 0 second demo_login empty_db
     in access_step demo_hash 0 second (OpTicket demo_cfg (Some ''k'') (demo_session db) ''a.com'' ''/'' ''1.1.1.1'' [])
          (access_step demo_hash 0 second (OpIssue demo_cfg (Some ''t'') (demo_session db) ''a.com'' ''A'' ''1.1.1.1'' []) db))"

lemma demo_steps: "access_steps demo_hash 0 cache_capped second empty_db (2 * second) demo_db"
  unfolding demo_db_def Let_def
  by (rule access_steps.step [of _ _ _ _ _ second], rule access_steps.step [of _ _ _ _ _ second], rule access_steps.step [of _ _ _ _ _ second],
      rule access_steps.stay) (simp_all add: cache_capped_def demo_login_def)

definition demo_visit :: access_op where "demo_visit = OpValidate demo_cfg ''t'' ''A.com'' ''A'' ''1.1.1.1'' []"

definition demo_visited :: access_db where "demo_visited = access_step demo_hash 0 (2 * second) demo_visit demo_db"

lemma demo_visited_steps: "access_steps demo_hash 0 cache_capped second empty_db (3 * second) demo_visited"
  unfolding demo_visited_def by (rule access_steps.step [OF demo_steps]) (simp_all add: cache_capped_def demo_visit_def demo_cfg_def)

text \<open>The token is accepted and cached; one second later the session is revoked, and nothing is accepted for it.\<close>

theorem kicked_for_good_witness:
  "map_option as_SessionCode (fst (ValidateToken demo_hash 0 (3 * second) demo_cfg ''t'' ''A.com'' ''A'' ''1.1.1.1'' [] demo_visited)) = Some ''hs'' \<and>
   map_option as_SessionCode (fst (ValidateToken demo_hash 0 (4 * second) demo_cfg ''t'' ''A.com'' ''A'' ''1.1.1.1'' []
     (access_step demo_hash 0 (3 * second) (OpRevoke ''hs'' ''admin_kick'') demo_visited))) \<noteq> Some ''hs'' \<and>
   fst (ValidateSSOSession demo_hash 0 (4 * second) demo_cfg ''s'' ''sso.com'' ''1.1.1.1'' []
     (access_step demo_hash 0 (3 * second) (OpRevoke ''hs'' ''admin_kick'') demo_visited)) = None"
proof -
  let ?db = "access_step demo_hash 0 (3 * second) (OpRevoke ''hs'' ''admin_kick'') demo_visited"
  have "access_steps demo_hash 0 (\<lambda>a. cache_capped a \<and> no_new_session demo_hash ''hs'' a) (3 * second) ?db (4 * second) ?db"
    by (rule access_steps.stay) simp
  from kicked_for_good [OF demo_visited_steps _ _ this]
  have k: "\<forall>cfg plain host hostCode ip fp st. fst (ValidateToken demo_hash 0 (4 * second) cfg plain host hostCode ip fp ?db) = Some st \<longrightarrow> as_SessionCode st \<noteq> ''hs''"
    and s: "\<forall>cfg plain host ip fp. demo_hash plain = ''hs'' \<longrightarrow> fst (ValidateSSOSession demo_hash 0 (4 * second) cfg plain host ip fp ?db) = None"
    by (simp_all add: kicks_def)
  have "map_option as_SessionCode (fst (ValidateToken demo_hash 0 (3 * second) demo_cfg ''t'' ''A.com'' ''A'' ''1.1.1.1'' [] demo_visited)) = Some ''hs''"
    by code_simp
  moreover have "map_option as_SessionCode (fst (ValidateToken demo_hash 0 (4 * second) demo_cfg ''t'' ''A.com'' ''A'' ''1.1.1.1'' [] ?db)) \<noteq> Some ''hs''"
    using k by auto
  moreover have "fst (ValidateSSOSession demo_hash 0 (4 * second) demo_cfg ''s'' ''sso.com'' ''1.1.1.1'' [] ?db) = None"
    using s by (simp add: demo_hash_def)
  ultimately show ?thesis by blast
qed

theorem accepted_token_issued_witness:
  "\<exists>st db'. ValidateToken demo_hash 0 (3 * second) demo_cfg ''t'' ''A.com'' ''A'' ''1.1.1.1'' [] demo_visited = (Some st, db') \<and>
     (\<exists>row \<in> set (db_tokens db'). to_TokenCode row = ''ht'' \<and> to_HostCode row = ''A'' \<and> EqualFold (to_Host row) ''A.com'' \<and>
        (to_ClientIP row \<noteq> [] \<longrightarrow> to_ClientIP row = ''1.1.1.1''))"
proof -
  have "fst (ValidateToken demo_hash 0 (3 * second) demo_cfg ''t'' ''A.com'' ''A'' ''1.1.1.1'' [] demo_visited) \<noteq> None" by code_simp
  then obtain st db' where v: "ValidateToken demo_hash 0 (3 * second) demo_cfg ''t'' ''A.com'' ''A'' ''1.1.1.1'' [] demo_visited = (Some st, db')"
    by (metis option.exhaust prod.collapse)
  have "ac_CachePositiveTTL demo_cfg \<le> minute" by (simp add: demo_cfg_def)
  from accepted_token_issued [OF demo_visited_steps this v] v show ?thesis by (auto simp: demo_hash_def demo_cfg_def)
qed

theorem ticket_once_witness:
  "(\<exists>k. fst (ConsumeTicket demo_hash (2 * second) demo_cfg ''k'' ''A.com'' ''1.1.1.1'' [] demo_db) = Inr k \<and> EqualFold (ti_TargetHost k) ''A.com'') \<and>
   (\<exists>e. fst (ConsumeTicket demo_hash (3 * second) demo_cfg ''k'' ''A.com'' ''1.1.1.1'' []
      (snd (ConsumeTicket demo_hash (2 * second) demo_cfg ''k'' ''A.com'' ''1.1.1.1'' [] demo_db))) = Inl e)"
proof -
  let ?c = "ConsumeTicket demo_hash (2 * second) demo_cfg ''k'' ''A.com'' ''1.1.1.1'' [] demo_db"
  have "access_steps demo_hash 0 (no_new_ticket demo_hash (demo_hash ''k'')) (2 * second) (snd ?c) (3 * second) (snd ?c)"
    by (rule access_steps.stay) simp
  note o = ticket_once [OF prod.collapse [symmetric] _ this refl]
  have "(case fst ?c of Inr _ \<Rightarrow> True | Inl _ \<Rightarrow> False)" by code_simp
  then obtain k where "fst ?c = Inr k" by (auto split: sum.splits)
  with o show ?thesis by simp
qed

end
