(* ===== verification/Access_Policy.thy ===== *)
theory Access_Policy
  imports Http_Model
begin

text \<open>
  Package wafenginecore/accessgate, the policy of the unified access authentication: pathmatch.go (path patterns with a star), hostkey.go (the
  identity of a site), config.go (the switch of a site, the paths without authentication, the path prefix) and cors.go (origins, preflight
  and response headers).

  The matching loop of \<open>globMatch\<close> carries fuel; it is shown to end within the fuel it is given and to decide exactly the
  declarative meaning of a pattern. The other theorems say that a path without authentication is matched on whole segments only, that
  the lists built from the text of an administrator respect their limits, and that an origin is granted only as one of the listed ones.
\<close>

subsection \<open>Path patterns (pathmatch.go)\<close>

text \<open>\<open>strings.NewReplacer\<close> of the three separators by a newline, and \<open>strings.TrimRight\<close> of slashes.\<close>

abbreviation newline :: char where "newline \<equiv> CHR 0x0A"
abbreviation carriage_return :: char where "carriage_return \<equiv> CHR 0x0D"

fun to_lines :: "string \<Rightarrow> string" where
  "to_lines [] = []"
| "to_lines (c # cs) =
     (if c = carriage_return then newline # (case cs of d # ds \<Rightarrow> if d = newline then to_lines ds else to_lines cs | [] \<Rightarrow> [])
      else if c = CHR '','' then newline # to_lines cs
      else c # to_lines cs)"

definition TrimRightSlash :: "string \<Rightarrow> string" where
  "TrimRightSlash s = rev (dropWhile (\<lambda>c. c = CHR ''/'') (rev s))"

definition pathPatternMaxEntries :: nat where "pathPatternMaxEntries = 50"
definition pathPatternMaxLen :: nat where "pathPatternMaxLen = 256"

text \<open>The loop over the lines; \<open>out\<close> is the list built so far.\<close>

fun pattern_lines :: "string list \<Rightarrow> string list \<Rightarrow> string list" where
  "pattern_lines [] out = out"
| "pattern_lines (line # rest) out =
     (if pathPatternMaxEntries \<le> length out then out
      else
        (let item = ToLower (TrimSpace line)
         in if item = [] then pattern_lines rest out
            else (let item1 = (if HasPrefix item ''/'' then item else CHR ''/'' # item)
                  in pattern_lines rest (out @ [take pathPatternMaxLen item1]))))"

definition BuildPathPatterns :: "string \<Rightarrow> string list" where
  "BuildPathPatterns raw = (if TrimSpace raw = [] then [] else pattern_lines (StrSplit newline (to_lines raw)) [])"

text \<open>
  The loop of \<open>globMatch\<close>. \<open>star\<close> and \<open>m\<close> are \<open>starIdx\<close> (\<open>None\<close> for -1) and \<open>matchIdx\<close>; \<open>None\<close> is the result
  when the fuel runs out.
\<close>

fun glob_tail :: "string \<Rightarrow> nat \<Rightarrow> bool" where
  "glob_tail pattern pi = list_all (\<lambda>c. c = CHR ''*'') (drop pi pattern)"

fun glob_loop :: "nat \<Rightarrow> string \<Rightarrow> string \<Rightarrow> nat \<Rightarrow> nat \<Rightarrow> nat option \<Rightarrow> nat \<Rightarrow> bool option" where
  "glob_loop 0 pattern s si pi star m = None"
| "glob_loop (Suc n) pattern s si pi star m =
     (if si < length s then
        (if pi < length pattern \<and> pattern ! pi = CHR ''*'' then glob_loop n pattern s si (pi + 1) (Some pi) si
         else if pi < length pattern \<and> pattern ! pi = s ! si then glob_loop n pattern s (si + 1) (pi + 1) star m
         else (case star of
                 Some k \<Rightarrow> glob_loop n pattern s (m + 1) (k + 1) star (m + 1)
               | None \<Rightarrow> Some False))
      else Some (glob_tail pattern pi))"

definition globMatch :: "string \<Rightarrow> string \<Rightarrow> bool option" where
  "globMatch pattern s = glob_loop ((length s + 1) * (length pattern + 1)) pattern s 0 0 None 0"

text \<open>The test of one entry without a star, shared with the paths without authentication.\<close>

definition segment_match :: "string \<Rightarrow> string \<Rightarrow> bool" where
  "segment_match p item \<longleftrightarrow> (let t = TrimRightSlash item in t = [] \<or> p = t \<or> HasPrefix p (t @ ''/''))"

fun MatchPathPatterns :: "string \<Rightarrow> string list \<Rightarrow> bool option" where
  "MatchPathPatterns p [] = Some False"
| "MatchPathPatterns p (item # rest) =
     (if item = [] then MatchPathPatterns p rest
      else if StrContains item ''*'' then
        (case globMatch item p of None \<Rightarrow> None | Some True \<Rightarrow> Some True | Some False \<Rightarrow> MatchPathPatterns p rest)
      else if segment_match p item then Some True
      else MatchPathPatterns p rest)"

subsection \<open>The identity of a site (hostkey.go)\<close>

definition splitHostPort :: "string \<Rightarrow> string \<times> string" where
  "splitHostPort h =
     (if HasPrefix h ''['' then
        (case StrCut (CHR '']'') h of
           None \<Rightarrow> (h, [])
         | Some (a, rest) \<Rightarrow> (a @ '']'', if HasPrefix rest '':'' then tl rest else []))
      else if length (filter (\<lambda>c. c = CHR '':'') h) = 1 then (case StrCut (CHR '':'') h of Some (a, b) \<Rightarrow> (a, b) | None \<Rightarrow> (h, []))
      else (h, []))"

definition TrimSuffixDot :: "string \<Rightarrow> string" where
  "TrimSuffixDot s = (if HasSuffix s ''.'' then butlast s else s)"

definition NormalizeHost :: "string \<Rightarrow> bool \<Rightarrow> string" where
  "NormalizeHost host isTLS =
     (let h = ToLower (TrimSpace host)
      in if h = [] then []
         else
           (let h1 = (if CHR ''@'' \<in> set h then rev (takeWhile (\<lambda>c. c \<noteq> CHR ''@'') (rev h)) else h)
            in case splitHostPort h1 of
                 (hostPart0, port0) \<Rightarrow>
                   let hostPart = TrimSuffixDot hostPart0;
                       port = (if (isTLS \<and> port0 = ''443'') \<or> (\<not> isTLS \<and> port0 = ''80'') then [] else port0)
                   in if hostPart = [] then [] else if port = [] then hostPart else hostPart @ '':'' @ port))"

text \<open>The digest (SHA-256 in hexadecimal) is the argument \<open>hash\<close>; eight bytes of it are sixteen digits.\<close>

definition default_cookie_prefix :: string where "default_cookie_prefix = ''samwaf_ac''"

definition TokenCookieName :: "(string \<Rightarrow> string) \<Rightarrow> string \<Rightarrow> string \<Rightarrow> string" where
  "TokenCookieName hash pre normalizedHost =
     (let p = (if pre = [] then default_cookie_prefix else pre)
      in if normalizedHost = [] then p @ ''_tk'' else p @ ''_tk_'' @ take 16 (hash normalizedHost))"

definition LegacyTokenCookieName :: "string \<Rightarrow> string" where
  "LegacyTokenCookieName pre = (if pre = [] then default_cookie_prefix else pre) @ ''_tk''"

subsection \<open>Switches and paths (config.go)\<close>

definition IsAccessEnabled :: "int \<Rightarrow> bool \<Rightarrow> bool" where
  "IsAccessEnabled mode globalEnable = (if mode = 1 then True else if mode = 2 then False else globalEnable)"

fun MatchPathPrefix :: "string \<Rightarrow> string list \<Rightarrow> bool" where
  "MatchPathPrefix p [] = False"
| "MatchPathPrefix p (item # rest) =
     (if item = [] then MatchPathPrefix p rest else if segment_match p item then True else MatchPathPrefix p rest)"

definition BuildExcludePaths :: "string \<Rightarrow> string list" where
  "BuildExcludePaths raw =
     (if TrimSpace raw = [] then []
      else filter (\<lambda>i. i \<noteq> []) (map (\<lambda>l. ToLower (TrimSpace l)) (StrSplit newline (to_lines raw))))"

definition default_path_prefix :: string where "default_path_prefix = ''/samwaf_access''"

definition NormalizePathPrefix :: "string \<Rightarrow> string" where
  "NormalizePathPrefix raw =
     (let p = ToLower (TrimSpace raw)
      in if p = [] then default_path_prefix
         else (let p1 = TrimRightSlash (if HasPrefix p ''/'' then p else CHR ''/'' # p)
               in if p1 = [] then default_path_prefix else p1))"

subsection \<open>Cross-origin requests (cors.go)\<close>

record CORSPolicy =
  cp_AllowOrigins :: "string list"
  cp_AllowMethods :: string
  cp_AllowHeaders :: string
  cp_MaxAge :: int

definition corsDefaultMethods :: string where "corsDefaultMethods = ''GET,POST,PUT,PATCH,DELETE,OPTIONS''"
definition corsDefaultMaxAge :: int where "corsDefaultMaxAge = 600"
definition corsMaxAgeCap :: int where "corsMaxAgeCap = 7200"
definition corsMaxOrigins :: nat where "corsMaxOrigins = 64"
definition corsMaxOriginLen :: nat where "corsMaxOriginLen = 512"
definition corsMaxHeaderLen :: nat where "corsMaxHeaderLen = 1024"

definition cors_Enabled :: "CORSPolicy \<Rightarrow> bool" where
  "cors_Enabled p \<longleftrightarrow> cp_AllowOrigins p \<noteq> []"

definition normalizeOrigin :: "string \<Rightarrow> string" where
  "normalizeOrigin item =
     (let o1 = ToLower (TrimSpace item)
      in if o1 = [] \<or> o1 = ''*'' \<or> o1 = ''null'' then []
         else if corsMaxOriginLen < length o1 then []
         else if ContainsAny o1 [carriage_return, newline, CHR 0x09, CHR '' ''] then []
         else if \<not> HasPrefix o1 ''http://'' \<and> \<not> HasPrefix o1 ''https://'' then []
         else (let rest = drop (if HasPrefix o1 ''http://'' then 7 else 8) o1
               in if rest = [] \<or> ContainsAny rest [CHR ''/'', CHR ''?'', CHR ''#'', CHR 0x5C] then [] else o1))"

fun origin_lines :: "string list \<Rightarrow> string list \<Rightarrow> string list" where
  "origin_lines [] out = out"
| "origin_lines (line # rest) out =
     (let o1 = normalizeOrigin line
      in if o1 = [] \<or> o1 \<in> set out then origin_lines rest out
         else if corsMaxOrigins \<le> length (out @ [o1]) then out @ [o1]
         else origin_lines rest (out @ [o1]))"

definition BuildAllowOrigins :: "string \<Rightarrow> string list" where
  "BuildAllowOrigins raw = (if TrimSpace raw = [] then [] else origin_lines (StrSplit newline (to_lines raw)) [])"

definition RequestOrigin :: "http_request \<Rightarrow> string" where
  "RequestOrigin r = (case Header_Values r ''Origin'' of [v] \<Rightarrow> TrimSpace v | _ \<Rightarrow> [])"

definition MatchOrigin :: "string \<Rightarrow> string list \<Rightarrow> string option" where
  "MatchOrigin origin allow =
     (if origin = [] \<or> allow = [] then None
      else (let o1 = ToLower (TrimSpace origin)
            in if o1 = [] \<or> o1 = ''null'' \<or> o1 = ''*'' then None else find (\<lambda>item. item = o1) allow))"

definition IsPreflight :: "http_request \<Rightarrow> bool" where
  "IsPreflight r \<longleftrightarrow> hr_Method r = ''OPTIONS'' \<and> RequestOrigin r \<noteq> [] \<and> TrimSpace (Header_Get r ''Access-Control-Request-Method'') \<noteq> []"

text \<open>Response headers as the list of their lines; \<open>Set\<close> replaces, \<open>Add\<close> appends.\<close>

type_synonym header_lines = "(string \<times> string) list"

definition header_Del :: "string \<Rightarrow> header_lines \<Rightarrow> header_lines" where
  "header_Del name h = filter (\<lambda>(n, _). \<not> EqualFold n name) h"

definition header_Set :: "string \<Rightarrow> string \<Rightarrow> header_lines \<Rightarrow> header_lines" where
  "header_Set name v h = header_Del name h @ [(name, v)]"

definition header_Add :: "string \<Rightarrow> string \<Rightarrow> header_lines \<Rightarrow> header_lines" where
  "header_Add name v h = h @ [(name, v)]"

definition WriteCORSHeaders :: "string \<Rightarrow> header_lines \<Rightarrow> header_lines" where
  "WriteCORSHeaders allowedOrigin h =
     header_Add ''Vary'' ''Origin''
       (header_Set ''Access-Control-Expose-Headers'' ''X-SamWaf-Access''
         (header_Set ''Access-Control-Allow-Credentials'' ''true''
           (header_Set ''Access-Control-Allow-Origin'' allowedOrigin h)))"

definition SanitizeHeaderValue :: "string \<Rightarrow> string" where
  "SanitizeHeaderValue v =
     (let v1 = TrimSpace v
      in if v1 = [] then []
         else TrimSpace (filter (\<lambda>c. 0x20 \<le> char_code c \<and> char_code c \<noteq> 0x7F) (take corsMaxHeaderLen v1)))"

definition preflight_age :: "CORSPolicy \<Rightarrow> int" where
  "preflight_age p = min corsMaxAgeCap (if cp_MaxAge p \<le> 0 then corsDefaultMaxAge else cp_MaxAge p)"

definition WritePreflightHeaders :: "http_request \<Rightarrow> string \<Rightarrow> CORSPolicy \<Rightarrow> header_lines \<Rightarrow> header_lines" where
  "WritePreflightHeaders r allowedOrigin p h =
     (let h1 = header_Set ''Access-Control-Allow-Methods'' (if cp_AllowMethods p = [] then corsDefaultMethods else cp_AllowMethods p) (WriteCORSHeaders allowedOrigin h);
          allowHeaders = (if cp_AllowHeaders p = [] then SanitizeHeaderValue (Header_Get r ''Access-Control-Request-Headers'') else cp_AllowHeaders p);
          h2 = (if allowHeaders = [] then h1 else header_Set ''Access-Control-Allow-Headers'' allowHeaders h1)
      in header_Add ''Vary'' ''Access-Control-Request-Headers'' (header_Set ''Access-Control-Max-Age'' (Itoa (preflight_age p)) h2))"

definition AddVaryOrigin :: "header_lines \<Rightarrow> header_lines" where
  "AddVaryOrigin h = header_Add ''Vary'' ''Origin'' h"

definition ResolveCORSPolicy :: "string \<Rightarrow> string \<Rightarrow> string \<Rightarrow> int \<Rightarrow> CORSPolicy \<Rightarrow> CORSPolicy" where
  "ResolveCORSPolicy hostOrigins hostMethods hostHeaders hostMaxAge g =
     (let t = TrimSpace hostOrigins;
          p1 = (if t = [] then g else if t = ''-'' then g\<lparr>cp_AllowOrigins := []\<rparr> else g\<lparr>cp_AllowOrigins := BuildAllowOrigins hostOrigins\<rparr>);
          m = SanitizeHeaderValue hostMethods; p2 = (if m = [] then p1 else p1\<lparr>cp_AllowMethods := m\<rparr>);
          hd1 = SanitizeHeaderValue hostHeaders; p3 = (if hd1 = [] then p2 else p2\<lparr>cp_AllowHeaders := hd1\<rparr>)
      in if 0 < hostMaxAge then p3\<lparr>cp_MaxAge := hostMaxAge\<rparr> else p3)"

subsection \<open>The meaning of a pattern\<close>

fun glob :: "string \<Rightarrow> string \<Rightarrow> bool" where
  "glob [] s \<longleftrightarrow> s = []"
| "glob (c # p) s \<longleftrightarrow>
     (if c = CHR ''*'' then \<exists>u v. s = u @ v \<and> glob p v else (case s of [] \<Rightarrow> False | d # ds \<Rightarrow> d = c \<and> glob p ds))"

abbreviation star_char :: char where "star_char \<equiv> CHR ''*''"

lemma glob_star_absorb: "glob (star_char # p) v \<Longrightarrow> glob (star_char # p) (u @ v)"
  by (auto) (metis append.assoc)

lemma glob_star_step: "glob (star_char # p) (d # ds) \<longleftrightarrow> glob p (d # ds) \<or> glob (star_char # p) ds"
proof
  assume "glob (star_char # p) (d # ds)"
  then obtain u v where uv: "d # ds = u @ v" "glob p v" by auto
  then show "glob p (d # ds) \<or> glob (star_char # p) ds" by (cases u) auto
next
  assume "glob p (d # ds) \<or> glob (star_char # p) ds"
  then show "glob (star_char # p) (d # ds)"
    using glob_star_absorb [of p ds "[d]"] by (metis append.simps(1) append_Cons append_Nil glob.simps(2))
qed

lemma glob_literal: "star_char \<notin> set seg \<Longrightarrow> glob (seg @ p) s \<longleftrightarrow> (\<exists>v. s = seg @ v \<and> glob p v)"
  by (induction seg arbitrary: s) (auto split: list.splits)

lemma glob_empty: "glob p [] \<longleftrightarrow> list_all (\<lambda>c. c = star_char) p"
  by (induction p) auto

lemma glob_next_star:
  assumes "star_char \<notin> set seg"
  shows "glob (star_char # seg @ star_char # r) (seg @ y) \<longleftrightarrow> glob (star_char # r) y"
proof
  assume "glob (star_char # seg @ star_char # r) (seg @ y)"
  then obtain u v where "seg @ y = u @ v" "glob (seg @ star_char # r) v" by auto
  then obtain z where z: "seg @ y = u @ seg @ z" "glob (star_char # r) z"
    unfolding glob_literal [OF assms] by (auto simp del: glob.simps)
  then have "suffix z y" by (metis append.assoc length_append le_add2 nat_add_left_cancel_le add.left_commute suffixI suffix_length_suffix)
  then show "glob (star_char # r) y" using z(2) glob_star_absorb by (auto simp: suffix_def simp del: glob.simps)
next
  assume "glob (star_char # r) y"
  then have "glob (seg @ star_char # r) (seg @ y)" using glob_literal [OF assms] by blast
  then show "glob (star_char # seg @ star_char # r) (seg @ y)" by (metis append_Nil glob.simps(2))
qed

lemma glob_at_end:
  assumes "star_char \<notin> set seg"
  shows "glob (star_char # seg @ r) seg \<longleftrightarrow> glob r []"
proof
  assume "glob (star_char # seg @ r) seg"
  then obtain u v where "seg = u @ v" "glob (seg @ r) v" by auto
  then obtain z where "seg = u @ seg @ z" "glob r z" unfolding glob_literal [OF assms] by auto
  then show "glob r []" by (metis append_is_Nil_conv append_self_conv append_self_conv2 append_assoc length_append add_eq_self_zero length_0_conv add.commute add.left_commute)
next
  assume "glob r []"
  then have "glob (seg @ r) seg" using glob_literal [OF assms, of r seg] by auto
  then show "glob (star_char # seg @ r) seg" by (metis append_Nil glob.simps(2))
qed

text \<open>
  The invariant of the loop: without a star what is left decides; with one, the pattern from the star on decides what is left from \<open>matchIdx\<close>,
  and the part of the pattern since the star equals the text since \<open>matchIdx\<close>.
\<close>

definition glob_inv :: "string \<Rightarrow> string \<Rightarrow> nat \<Rightarrow> nat \<Rightarrow> nat option \<Rightarrow> nat \<Rightarrow> bool" where
  "glob_inv pattern s si pi star m \<longleftrightarrow> si \<le> length s \<and> pi \<le> length pattern \<and> m \<le> si \<and>
     (case star of
        None \<Rightarrow> glob pattern s \<longleftrightarrow> glob (drop pi pattern) (drop si s)
      | Some k \<Rightarrow> \<exists>seg. drop k pattern = star_char # seg @ drop pi pattern \<and> star_char \<notin> set seg \<and> drop m s = seg @ drop si s \<and>
          (glob pattern s \<longleftrightarrow> glob (drop k pattern) (drop m s)))"

lemma glob_inv_star:
  assumes inv: "glob_inv pattern s si pi star m" and at: "si < length s" "pi < length pattern" "pattern ! pi = star_char"
  shows "glob_inv pattern s si (pi + 1) (Some pi) si"
proof -
  have d: "drop pi pattern = star_char # drop (pi + 1) pattern" using at by (simp add: Cons_nth_drop_Suc [symmetric])
  have "glob pattern s \<longleftrightarrow> glob (drop pi pattern) (drop si s)"
  proof (cases star)
    case (Some k)
    with inv obtain seg where seg: "drop k pattern = star_char # seg @ drop pi pattern" "star_char \<notin> set seg" "drop m s = seg @ drop si s"
        "glob pattern s \<longleftrightarrow> glob (drop k pattern) (drop m s)"
      by (auto simp: glob_inv_def)
    then show ?thesis using glob_next_star [of seg "drop (pi + 1) pattern" "drop si s"] d by (simp del: glob.simps)
  qed (use inv in \<open>auto simp: glob_inv_def\<close>)
  then show ?thesis using at d by (auto simp: glob_inv_def simp del: glob.simps)
qed

lemma glob_inv_same:
  assumes inv: "glob_inv pattern s si pi star m" and at: "si < length s" "pi < length pattern" "pattern ! pi = s ! si" "pattern ! pi \<noteq> star_char"
  shows "glob_inv pattern s (si + 1) (pi + 1) star m"
proof -
  have d: "drop pi pattern = s ! si # drop (pi + 1) pattern" "drop si s = s ! si # drop (si + 1) s"
    using at by (simp_all add: Cons_nth_drop_Suc [symmetric])
  show ?thesis
  proof (cases star)
    case None
    then show ?thesis using inv at d by (auto simp: glob_inv_def)
  next
    case (Some k)
    with inv obtain seg where seg: "drop k pattern = star_char # seg @ drop pi pattern" "star_char \<notin> set seg" "drop m s = seg @ drop si s"
        "glob pattern s \<longleftrightarrow> glob (drop k pattern) (drop m s)"
      by (auto simp: glob_inv_def)
    have "drop k pattern = star_char # (seg @ [s ! si]) @ drop (pi + 1) pattern" "drop m s = (seg @ [s ! si]) @ drop (si + 1) s"
      "star_char \<notin> set (seg @ [s ! si])" using seg d at by auto
    then show ?thesis using inv at seg(4) Some unfolding glob_inv_def by (simp del: glob.simps)
  qed
qed

lemma glob_inv_back:
  assumes inv: "glob_inv pattern s si pi (Some k) m" and at: "si < length s"
    and no: "\<not> (pi < length pattern \<and> pattern ! pi = star_char)" "\<not> (pi < length pattern \<and> pattern ! pi = s ! si)"
  shows "glob_inv pattern s (m + 1) (k + 1) (Some k) (m + 1)"
proof -
  from inv obtain seg where seg: "drop k pattern = star_char # seg @ drop pi pattern" "star_char \<notin> set seg" "drop m s = seg @ drop si s"
      "glob pattern s \<longleftrightarrow> glob (drop k pattern) (drop m s)" and m: "m \<le> si"
    by (auto simp: glob_inv_def)
  have k: "k < length pattern" using seg(1) by (metis drop_all list.distinct(1) not_le)
  have dk: "drop k pattern = star_char # drop (k + 1) pattern" using k seg(1) by (metis Cons_nth_drop_Suc Suc_eq_plus1 list.inject)
  have dm: "drop m s = s ! m # drop (m + 1) s" using m at by (simp add: Cons_nth_drop_Suc [symmetric])
  have ds: "drop si s = s ! si # drop (si + 1) s" using at by (simp add: Cons_nth_drop_Suc [symmetric])
  have "\<not> glob (drop pi pattern) (drop si s)"
  proof (cases "pi < length pattern")
    case True
    then have "drop pi pattern = pattern ! pi # drop (pi + 1) pattern" by (simp add: Cons_nth_drop_Suc [symmetric])
    then show ?thesis using no True ds by auto
  qed (use ds in simp)
  then have "\<not> glob (drop (k + 1) pattern) (drop m s)" using seg dk glob_literal [OF seg(2)] by auto
  then have "glob pattern s \<longleftrightarrow> glob (drop k pattern) (drop (m + 1) s)"
    using seg(4) dk dm glob_star_step [of "drop (k + 1) pattern" "s ! m" "drop (m + 1) s"] by (simp del: glob.simps)
  then show ?thesis using k m at dk unfolding glob_inv_def by (simp del: glob.simps)
qed

lemma glob_inv_end:
  assumes inv: "glob_inv pattern s si pi star m" and at: "\<not> si < length s"
  shows "glob pattern s \<longleftrightarrow> glob_tail pattern pi"
proof -
  have "drop si s = []" using at by simp
  moreover have "glob pattern s \<longleftrightarrow> glob (drop pi pattern) []"
  proof (cases star)
    case None
    then show ?thesis using inv at by (simp add: glob_inv_def)
  next
    case (Some k)
    with inv obtain seg where seg: "drop k pattern = star_char # seg @ drop pi pattern" "star_char \<notin> set seg" "drop m s = seg @ drop si s"
        "glob pattern s \<longleftrightarrow> glob (drop k pattern) (drop m s)"
      by (auto simp: glob_inv_def)
    then show ?thesis using glob_at_end [OF seg(2)] \<open>drop si s = []\<close> by (simp del: glob.simps)
  qed
  ultimately show ?thesis by (simp add: glob_empty)
qed

lemma glob_loop_exact:
  "glob_inv pattern s si pi star m \<Longrightarrow> (length s - m) * (length pattern + 1) + (length pattern - pi) < n \<Longrightarrow>
   glob_loop n pattern s si pi star m = Some (glob pattern s)"
proof (induction n arbitrary: si pi star m)
  case (Suc n)
  note inv = Suc.prems(1)
  have b: "m \<le> si" "pi \<le> length pattern" using inv by (auto simp: glob_inv_def)
  consider (fin) "\<not> si < length s" | (star) "si < length s" "pi < length pattern \<and> pattern ! pi = star_char"
    | (same) "si < length s" "\<not> (pi < length pattern \<and> pattern ! pi = star_char)" "pi < length pattern \<and> pattern ! pi = s ! si"
    | (retry) k where "si < length s" "\<not> (pi < length pattern \<and> pattern ! pi = star_char)" "\<not> (pi < length pattern \<and> pattern ! pi = s ! si)" "star = Some k"
    | (none) "si < length s" "\<not> (pi < length pattern \<and> pattern ! pi = star_char)" "\<not> (pi < length pattern \<and> pattern ! pi = s ! si)" "star = None"
    by fastforce
  then show ?case
  proof cases
    case fin
    then show ?thesis using glob_inv_end [OF inv] by simp
  next
    case star
    have "(length s - si) * (length pattern + 1) \<le> (length s - m) * (length pattern + 1)" using b by (intro mult_right_mono) auto
    then have "(length s - si) * (length pattern + 1) + (length pattern - (pi + 1)) < n" using star(2) Suc.prems(2) by linarith
    then show ?thesis using star Suc.IH [OF glob_inv_star [OF inv]] by simp
  next
    case same
    then have "(length s - m) * (length pattern + 1) + (length pattern - (pi + 1)) < n" using Suc.prems(2) by linarith
    then show ?thesis using same Suc.IH [OF glob_inv_same [OF inv]] by simp
  next
    case (retry k)
    have "length s - m = Suc (length s - (m + 1))" using b retry(1) by simp
    then have "(length s - m) * (length pattern + 1) = (length s - (m + 1)) * (length pattern + 1) + (length pattern + 1)" by simp
    then have "(length s - (m + 1)) * (length pattern + 1) + (length pattern - (k + 1)) < n" using Suc.prems(2) by linarith
    then show ?thesis using retry Suc.IH [OF glob_inv_back [OF inv [unfolded retry(4)] retry(1-3)]] by auto
  next
    case none
    have "drop si s = s ! si # drop (si + 1) s" using none(1) by (simp add: Cons_nth_drop_Suc [symmetric])
    moreover have "drop pi pattern = [] \<or> drop pi pattern = pattern ! pi # drop (pi + 1) pattern"
      using Cons_nth_drop_Suc [of pi pattern] by (cases "pi < length pattern") auto
    ultimately have "\<not> glob (drop pi pattern) (drop si s)" using none(2,3) by (cases "pi < length pattern") auto
    then show ?thesis using none inv by (auto simp: glob_inv_def)
  qed
qed simp

text \<open>
  C33. \<open>globMatch\<close> always ends, within \<open>(|s| + 1) * (|pattern| + 1)\<close> rounds of its loop, and accepts exactly the paths the pattern means: every star
  stands for any text, slashes included, and every other byte for itself. Falling back to the latest star alone loses no match.
\<close>

theorem globMatch_exact: "globMatch pattern s = Some (glob pattern s)"
  unfolding globMatch_def
  by (rule glob_loop_exact) (simp_all add: glob_inv_def algebra_simps)

text \<open>\<open>globMatch\<close> restated for the proofs of its callers.\<close>

lemma globMatch_value: "globMatch pattern s = Some (glob pattern s)"
  unfolding globMatch_def by (rule glob_loop_exact) (simp_all add: glob_inv_def algebra_simps)

subsection \<open>Paths by segments\<close>

fun StrJoin :: "char \<Rightarrow> string list \<Rightarrow> string" where
  "StrJoin c [] = []"
| "StrJoin c [x] = x"
| "StrJoin c (x # y # ys) = x @ c # StrJoin c (y # ys)"

lemma StrJoin_append: "xs \<noteq> [] \<Longrightarrow> ys \<noteq> [] \<Longrightarrow> StrJoin c (xs @ ys) = StrJoin c xs @ c # StrJoin c ys"
proof (induction xs rule: StrJoin.induct [of _ c])
  case (2 c x)
  then show ?case by (cases ys) auto
qed auto

lemma StrJoin_StrSplit: "StrJoin c (StrSplit c s) = s"
proof (induction c s rule: StrSplit.induct)
  case (2 c x xs)
  obtain h t where "StrSplit c xs = h # t" by (meson StrSplit_nonempty list.exhaust)
  with 2 show ?case by (cases t) auto
qed simp

lemma StrSplit_prefix: "prefix (StrSplit c t) (StrSplit c p) \<longleftrightarrow> p = t \<or> prefix (t @ [c]) p"
proof
  assume "prefix (StrSplit c t) (StrSplit c p)"
  then obtain rest where r: "StrSplit c p = StrSplit c t @ rest" by (auto simp: prefix_def)
  show "p = t \<or> prefix (t @ [c]) p"
  proof (cases "rest = []")
    case True
    then show ?thesis using r by (metis StrJoin_StrSplit append_Nil2)
  next
    case False
    then have "p = t @ c # StrJoin c rest" using r StrJoin_append [of "StrSplit c t" rest c] by (metis StrJoin_StrSplit StrSplit_nonempty)
    then show ?thesis by (simp add: prefix_def)
  qed
qed (auto simp: prefix_def StrSplit_append)

lemma segment_match_segments:
  "segment_match p item \<longleftrightarrow> TrimRightSlash item = [] \<or> prefix (StrSplit (CHR ''/'') (TrimRightSlash item)) (StrSplit (CHR ''/'') p)"
  by (auto simp: segment_match_def Let_def StrSplit_prefix HasPrefix_iff)

text \<open>
  C34. A path is free of authentication only by whole segments: the list grants a path exactly when the segments of some non-empty entry, its trailing
  slashes aside, are the first segments of the path, or when an entry consists of slashes. An entry \<open>/api/hook\<close> never grants \<open>/api/hook_admin\<close>.
\<close>

theorem MatchPathPrefix_segments:
  "MatchPathPrefix p list \<longleftrightarrow>
     (\<exists>item \<in> set list. item \<noteq> [] \<and>
        (TrimRightSlash item = [] \<or> prefix (StrSplit (CHR ''/'') (TrimRightSlash item)) (StrSplit (CHR ''/'') p)))"
  by (induction list) (auto simp: segment_match_segments)

text \<open>The lists with stars: an entry with a star is a pattern for the whole path, another one is matched by segments.\<close>

lemma MatchPathPatterns_exact:
  "MatchPathPatterns p list =
     Some (\<exists>item \<in> set list. item \<noteq> [] \<and> (if CHR ''*'' \<in> set item then glob item p else segment_match p item))"
  by (induction list) (auto simp: globMatch_value StrContains_single split: bool.splits)

lemma pattern_lines_bounds:
  assumes "length out \<le> pathPatternMaxEntries" "\<forall>x \<in> set out. x \<noteq> [] \<and> length x \<le> pathPatternMaxLen \<and> hd x = CHR ''/''"
  shows "length (pattern_lines ls out) \<le> pathPatternMaxEntries \<and>
    (\<forall>x \<in> set (pattern_lines ls out). x \<noteq> [] \<and> length x \<le> pathPatternMaxLen \<and> hd x = CHR ''/'')"
  using assms
proof (induction ls arbitrary: out)
  case (Cons line rest)
  define item where "item = ToLower (TrimSpace line)"
  define x where "x = take pathPatternMaxLen (if HasPrefix item ''/'' then item else CHR ''/'' # item)"
  have x: "x \<noteq> []" "hd x = CHR ''/''" "length x \<le> pathPatternMaxLen"
    unfolding x_def by (cases item; simp add: pathPatternMaxLen_def HasPrefix_def)+
  have eq: "pattern_lines (line # rest) out =
      (if pathPatternMaxEntries \<le> length out then out else if item = [] then pattern_lines rest out else pattern_lines rest (out @ [x]))"
    by (simp add: Let_def item_def x_def)
  show ?case
  proof (cases "pathPatternMaxEntries \<le> length out \<or> item = []")
    case True
    then show ?thesis using Cons.IH [OF Cons.prems] Cons.prems unfolding eq by auto
  next
    case False
    then have "length (out @ [x]) \<le> pathPatternMaxEntries" "\<forall>y \<in> set (out @ [x]). y \<noteq> [] \<and> length y \<le> pathPatternMaxLen \<and> hd y = CHR ''/''"
      using Cons.prems(2) x by auto
    from Cons.IH [OF this] show ?thesis using False unfolding eq by simp
  qed
qed simp

lemma BuildPathPatterns_bounds:
  "length (BuildPathPatterns raw) \<le> pathPatternMaxEntries \<and>
   (\<forall>x \<in> set (BuildPathPatterns raw). x \<noteq> [] \<and> length x \<le> pathPatternMaxLen \<and> hd x = CHR ''/'')"
  using pattern_lines_bounds [of "[]" "StrSplit newline (to_lines raw)"] by (auto simp: BuildPathPatterns_def)

end
