(* ===== verification/Access_Account.thy ===== *)
theory Access_Account
  imports Access_Session Access_Policy
begin

text \<open>
  The accounts of the unified access authentication: service/waf_service/waf_access_account_service.go with the table of model/access_account.go, the password
  policy of utils/passwordutil.go and \<open>splitLines\<close> of waf_access_config_service.go.

  The state is the table of accounts (the rows of the one tenant of the process) beside the sessions of \<open>Access_Session\<close>. bcrypt, the one-time codes, the
  encryption of stored secrets, the parsing of times and the tables of package unicode are functions of the record \<open>account_env\<close>. The error
  a failed database write would give and the paged list are not modelled.

  The lemmas say that every change that takes rights from an account ends its sessions, and how the list of sites of an account is read.
\<close>

subsection \<open>Passwords\<close>

record account_env =
  en_runes :: "string \<Rightarrow> nat list"
  en_upper :: "nat \<Rightarrow> bool"
  en_lower :: "nat \<Rightarrow> bool"
  en_digit :: "nat \<Rightarrow> bool"
  en_letter :: "nat \<Rightarrow> bool"
  en_space :: "nat \<Rightarrow> bool"
  en_punct_or_symbol :: "nat \<Rightarrow> bool"
  en_BcryptVerify :: "string \<Rightarrow> string \<Rightarrow> bool"
  en_BcryptHash :: "string \<Rightarrow> string option"
  en_encrypt :: "string \<Rightarrow> string option"
  en_decrypt :: "string \<Rightarrow> string option"
  en_ValidateOtpCode :: "string \<Rightarrow> string \<Rightarrow> bool"
  en_parse_time :: "string \<Rightarrow> int option"

record PasswordComplexityPolicy =
  pp_MinLength :: int
  pp_RequireUpper :: bool
  pp_RequireLower :: bool
  pp_RequireDigit :: bool
  pp_RequireSpecial :: bool

datatype password_error = PwShort | PwUpper | PwLower | PwDigit | PwSpecial

definition isSpecialChar :: "account_env \<Rightarrow> nat \<Rightarrow> bool" where
  "isSpecialChar e r = (if en_letter e r \<or> en_digit e r then False else if en_space e r then False else en_punct_or_symbol e r)"

text \<open>Each rune counts for the first class it is in.\<close>

definition ValidatePasswordComplexity :: "account_env \<Rightarrow> string \<Rightarrow> PasswordComplexityPolicy \<Rightarrow> password_error option" where
  "ValidatePasswordComplexity e password policy =
     (let rs = en_runes e password;
          hasUpper = list_ex (en_upper e) rs;
          hasLower = list_ex (\<lambda>r. \<not> en_upper e r \<and> en_lower e r) rs;
          hasDigit = list_ex (\<lambda>r. \<not> en_upper e r \<and> \<not> en_lower e r \<and> en_digit e r) rs;
          hasSpecial = list_ex (\<lambda>r. \<not> en_upper e r \<and> \<not> en_lower e r \<and> \<not> en_digit e r \<and> isSpecialChar e r) rs
      in if 0 < pp_MinLength policy \<and> int (length rs) < pp_MinLength policy then Some PwShort
         else if pp_RequireUpper policy \<and> \<not> hasUpper then Some PwUpper
         else if pp_RequireLower policy \<and> \<not> hasLower then Some PwLower
         else if pp_RequireDigit policy \<and> \<not> hasDigit then Some PwDigit
         else if pp_RequireSpecial policy \<and> \<not> hasSpecial then Some PwSpecial
         else None)"

subsection \<open>Accounts\<close>

record AccessAccount =
  aa_Id :: string
  aa_AccountName :: string
  aa_Password :: string
  aa_NickName :: string
  aa_Status :: int
  aa_OtpSecret :: string
  aa_OtpBound :: int
  aa_ForceOtp :: int
  aa_AllowHostCodes :: string
  aa_ExpireTime :: int
  aa_LastLoginTime :: int
  aa_LastLoginIP :: string
  aa_PwdUpdateTime :: int
  aa_Remarks :: string
  aa_UpdateTime :: int

abbreviation AccessAccountStatusDisable :: int where "AccessAccountStatusDisable \<equiv> 0"
abbreviation AccessAccountStatusEnable :: int where "AccessAccountStatusEnable \<equiv> 1"

record access_world =
  aw_db :: access_db
  aw_accounts :: "AccessAccount list"

datatype account_error =
    BadCredential | AccountDisabled | AccountExpired | AccountMissing | AccountIdEmpty | NameEmpty | NameTaken
  | PasswordWeak password_error | HashFailed | TimeFormat | OtpWrong | EncryptFailed

definition dummyBcryptHash :: string where
  "dummyBcryptHash = ''$2a$10$N9qo8uLOickgx2ZMRZoMyeIjZAgcfl7p92ldGxad68LJZdL17lhWy''"

text \<open>A time 0 is the zero time: no end.\<close>

definition account_usable :: "int \<Rightarrow> AccessAccount \<Rightarrow> account_error option" where
  "account_usable now a =
     (if aa_Status a \<noteq> AccessAccountStatusEnable then Some AccountDisabled
      else if aa_ExpireTime a \<noteq> 0 \<and> aa_ExpireTime a < now then Some AccountExpired else None)"

definition VerifyCredential :: "account_env \<Rightarrow> int \<Rightarrow> string \<Rightarrow> string \<Rightarrow> AccessAccount list \<Rightarrow> account_error + AccessAccount" where
  "VerifyCredential e now accountName password accounts =
     (let name = TrimSpace accountName;
          acct = (if name = [] then None else find (\<lambda>a. aa_AccountName a = name) accounts);
          stored = (case acct of Some a \<Rightarrow> if aa_Password a \<noteq> [] then aa_Password a else dummyBcryptHash | None \<Rightarrow> dummyBcryptHash);
          ok = en_BcryptVerify e stored password
      in case acct of
           None \<Rightarrow> Inl BadCredential
         | Some a \<Rightarrow> if \<not> ok then Inl BadCredential else (case account_usable now a of Some err \<Rightarrow> Inl err | None \<Rightarrow> Inr a))"

definition IsHostAllowed :: "AccessAccount \<Rightarrow> string \<Rightarrow> bool" where
  "IsHostAllowed a hostCode =
     (let raw = TrimSpace (aa_AllowHostCodes a)
      in raw = [] \<or> list_ex (\<lambda>line. TrimSpace line = hostCode) (StrSplit newline (to_lines raw)))"

definition NeedOtp :: "AccessAccount \<Rightarrow> int \<Rightarrow> bool \<Rightarrow> bool" where
  "NeedOtp a hostRequireOtp globalRequireOtp =
     (if aa_OtpBound a \<noteq> 1 \<or> aa_OtpSecret a = [] then False
      else if aa_ForceOtp a = 1 then True
      else if aa_ForceOtp a = 2 then False
      else if hostRequireOtp = 1 then True
      else if hostRequireOtp = 2 then False
      else globalRequireOtp)"

definition encryptAccessSecret :: "account_env \<Rightarrow> string \<Rightarrow> string option" where
  "encryptAccessSecret e plain = (if TrimSpace plain = [] then Some [] else en_encrypt e plain)"

definition decryptAccessSecret :: "account_env \<Rightarrow> string \<Rightarrow> string" where
  "decryptAccessSecret e enc = (if TrimSpace enc = [] then [] else (case en_decrypt e enc of Some b \<Rightarrow> b | None \<Rightarrow> []))"

definition VerifyOtp :: "account_env \<Rightarrow> AccessAccount \<Rightarrow> string \<Rightarrow> bool" where
  "VerifyOtp e a code =
     (let secret = decryptAccessSecret e (aa_OtpSecret a)
      in aa_OtpSecret a \<noteq> [] \<and> secret \<noteq> [] \<and> en_ValidateOtpCode e (TrimSpace code) secret)"

definition CheckStillUsable :: "int \<Rightarrow> string \<Rightarrow> AccessAccount list \<Rightarrow> account_error + AccessAccount" where
  "CheckStillUsable now accountCode accounts =
     (case find (\<lambda>a. aa_Id a = accountCode) accounts of
        None \<Rightarrow> Inl AccountMissing
      | Some a \<Rightarrow> (case account_usable now a of Some err \<Rightarrow> Inl err | None \<Rightarrow> Inr a))"

text \<open>\<open>UPDATE ... WHERE id = ?\<close>\<close>

definition update_account :: "string \<Rightarrow> (AccessAccount \<Rightarrow> AccessAccount) \<Rightarrow> access_world \<Rightarrow> access_world" where
  "update_account rowId f w = w\<lparr>aw_accounts := map (\<lambda>a. if aa_Id a = rowId then f a else a) (aw_accounts w)\<rparr>"

definition MarkLogin :: "int \<Rightarrow> string \<Rightarrow> string \<Rightarrow> access_world \<Rightarrow> access_world" where
  "MarkLogin now accountId clientIP w = update_account accountId (\<lambda>a. a\<lparr>aa_LastLoginTime := now, aa_LastLoginIP := clientIP, aa_UpdateTime := now\<rparr>) w"

definition RevokeByAccount_world :: "int \<Rightarrow> string \<Rightarrow> access_world \<Rightarrow> access_world" where
  "RevokeByAccount_world now accountId w = w\<lparr>aw_db := snd (RevokeByAccount now accountId ''account_off'' (aw_db w))\<rparr>"

definition mustLoad :: "string \<Rightarrow> AccessAccount list \<Rightarrow> account_error + AccessAccount" where
  "mustLoad rowId accounts =
     (if TrimSpace rowId = [] then Inl AccountIdEmpty
      else (case find (\<lambda>a. aa_Id a = rowId) accounts of None \<Rightarrow> Inl AccountMissing | Some a \<Rightarrow> Inr a))"

definition checkNameFree :: "string \<Rightarrow> string \<Rightarrow> AccessAccount list \<Rightarrow> bool" where
  "checkNameFree name excludeId accounts \<longleftrightarrow>
     \<not> list_ex (\<lambda>a. aa_AccountName a = name \<and> (excludeId \<noteq> [] \<longrightarrow> aa_Id a \<noteq> excludeId)) accounts"

definition normalizeStatus :: "int \<Rightarrow> int" where
  "normalizeStatus s = (if s = AccessAccountStatusEnable then AccessAccountStatusEnable else AccessAccountStatusDisable)"

definition normalizeOtpMode :: "int \<Rightarrow> int" where
  "normalizeOtpMode m = (if m = 1 \<or> m = 2 then m else 0)"

definition parseAccessTime :: "account_env \<Rightarrow> string \<Rightarrow> int option" where
  "parseAccessTime e s = (let t = TrimSpace s in if t = [] then Some 0 else en_parse_time e t)"

definition splitLines :: "string \<Rightarrow> string list" where
  "splitLines raw =
     (if TrimSpace raw = [] then []
      else filter (\<lambda>i. i \<noteq> []) (map TrimSpace (StrSplit newline (to_lines raw))))"

subsection \<open>Administration\<close>

record account_req =
  rq_AccountName :: string
  rq_Password :: string
  rq_NickName :: string
  rq_Status :: int
  rq_ForceOtp :: int
  rq_AllowHostCodes :: string
  rq_ExpireTime :: string
  rq_Remarks :: string

definition acc_AddApi ::
  "account_env \<Rightarrow> int \<Rightarrow> PasswordComplexityPolicy \<Rightarrow> string \<Rightarrow> account_req \<Rightarrow> access_world \<Rightarrow> (account_error + AccessAccount) \<times> access_world" where
  "acc_AddApi e now policy newId req w =
     (let name = TrimSpace (rq_AccountName req)
      in if name = [] then (Inl NameEmpty, w)
         else if \<not> checkNameFree name [] (aw_accounts w) then (Inl NameTaken, w)
         else (case ValidatePasswordComplexity e (rq_Password req) policy of
                 Some err \<Rightarrow> (Inl (PasswordWeak err), w)
               | None \<Rightarrow>
                   (case en_BcryptHash e (rq_Password req) of
                      None \<Rightarrow> (Inl HashFailed, w)
                    | Some hashed \<Rightarrow>
                        (case parseAccessTime e (rq_ExpireTime req) of
                           None \<Rightarrow> (Inl TimeFormat, w)
                         | Some expire \<Rightarrow>
                             (let bean = \<lparr>aa_Id = newId, aa_AccountName = name, aa_Password = hashed, aa_NickName = TrimSpace (rq_NickName req),
                                aa_Status = normalizeStatus (rq_Status req), aa_OtpSecret = [], aa_OtpBound = 0, aa_ForceOtp = normalizeOtpMode (rq_ForceOtp req),
                                aa_AllowHostCodes = rq_AllowHostCodes req, aa_ExpireTime = expire, aa_LastLoginTime = 0, aa_LastLoginIP = [],
                                aa_PwdUpdateTime = now, aa_Remarks = rq_Remarks req, aa_UpdateTime = now\<rparr>
                              in (Inr bean, w\<lparr>aw_accounts := aw_accounts w @ [bean]\<rparr>))))))"

definition acc_ModifyApi :: "account_env \<Rightarrow> int \<Rightarrow> string \<Rightarrow> account_req \<Rightarrow> access_world \<Rightarrow> account_error option \<times> access_world" where
  "acc_ModifyApi e now rowId req w =
     (case mustLoad rowId (aw_accounts w) of
        Inl err \<Rightarrow> (Some err, w)
      | Inr bean \<Rightarrow>
          (case parseAccessTime e (rq_ExpireTime req) of
             None \<Rightarrow> (Some TimeFormat, w)
           | Some expire \<Rightarrow>
               (let status = normalizeStatus (rq_Status req);
                    w1 = update_account (aa_Id bean)
                      (\<lambda>a. a\<lparr>aa_NickName := TrimSpace (rq_NickName req), aa_Status := status, aa_ForceOtp := normalizeOtpMode (rq_ForceOtp req),
                             aa_AllowHostCodes := rq_AllowHostCodes req, aa_ExpireTime := expire, aa_Remarks := rq_Remarks req, aa_UpdateTime := now\<rparr>) w;
                    authChanged = (TrimSpace (rq_AllowHostCodes req) \<noteq> TrimSpace (aa_AllowHostCodes bean))
                in (None,
                    if status \<noteq> AccessAccountStatusEnable \<or> (expire \<noteq> 0 \<and> expire < now) \<or> authChanged
                    then RevokeByAccount_world now (aa_Id bean) w1 else w1))))"

definition ResetPwdApi ::
  "account_env \<Rightarrow> int \<Rightarrow> PasswordComplexityPolicy \<Rightarrow> string \<Rightarrow> string \<Rightarrow> access_world \<Rightarrow> account_error option \<times> access_world" where
  "ResetPwdApi e now policy rowId password w =
     (case mustLoad rowId (aw_accounts w) of
        Inl err \<Rightarrow> (Some err, w)
      | Inr bean \<Rightarrow>
          (case ValidatePasswordComplexity e password policy of
             Some err \<Rightarrow> (Some (PasswordWeak err), w)
           | None \<Rightarrow>
               (case en_BcryptHash e password of
                  None \<Rightarrow> (Some HashFailed, w)
                | Some hashed \<Rightarrow>
                    (None,
                     RevokeByAccount_world now (aa_Id bean)
                       (update_account (aa_Id bean) (\<lambda>a. a\<lparr>aa_Password := hashed, aa_PwdUpdateTime := now, aa_UpdateTime := now\<rparr>) w)))))"

definition acc_DelApi :: "int \<Rightarrow> string \<Rightarrow> access_world \<Rightarrow> account_error option \<times> access_world" where
  "acc_DelApi now rowId w =
     (case mustLoad rowId (aw_accounts w) of
        Inl err \<Rightarrow> (Some err, w)
      | Inr bean \<Rightarrow>
          (let w1 = RevokeByAccount_world now (aa_Id bean) w
           in (None, w1\<lparr>aw_accounts := filter (\<lambda>a. aa_Id a \<noteq> aa_Id bean) (aw_accounts w1)\<rparr>)))"

definition acc_GetDetailApi :: "string \<Rightarrow> access_world \<Rightarrow> account_error + AccessAccount" where
  "acc_GetDetailApi rowId w = mustLoad rowId (aw_accounts w)"

text \<open>One account of the loop of \<open>RemoveHostCode\<close>; the loop runs over the accounts read before it.\<close>

definition drop_site :: "int \<Rightarrow> string \<Rightarrow> AccessAccount \<Rightarrow> int \<times> access_world \<Rightarrow> int \<times> access_world" where
  "drop_site now code a aw =
     (case aw of (n, w) \<Rightarrow>
        let items = splitLines (aa_AllowHostCodes a); kept = filter (\<lambda>i. i \<noteq> code) items
        in if code \<notin> set items then (n, w)
           else (n + 1,
                 RevokeByAccount_world now (aa_Id a)
                   (update_account (aa_Id a)
                     (\<lambda>x. x\<lparr>aa_AllowHostCodes := StrJoin newline kept, aa_UpdateTime := now,
                            aa_Status := (if kept = [] then AccessAccountStatusDisable else aa_Status x)\<rparr>) w)))"

definition RemoveHostCode :: "int \<Rightarrow> string \<Rightarrow> access_world \<Rightarrow> int \<times> access_world" where
  "RemoveHostCode now hostCode w =
     (let code = TrimSpace hostCode
      in if code = [] then (0, w)
         else fold (drop_site now code) (filter (\<lambda>a. aa_AllowHostCodes a \<noteq> []) (aw_accounts w)) (0, w))"

definition OtpBindApi :: "account_env \<Rightarrow> int \<Rightarrow> string \<Rightarrow> string \<Rightarrow> string \<Rightarrow> access_world \<Rightarrow> account_error option \<times> access_world" where
  "OtpBindApi e now rowId code secret w =
     (case mustLoad rowId (aw_accounts w) of
        Inl err \<Rightarrow> (Some err, w)
      | Inr bean \<Rightarrow>
          if \<not> en_ValidateOtpCode e (TrimSpace code) secret then (Some OtpWrong, w)
          else (case encryptAccessSecret e secret of
                  None \<Rightarrow> (Some EncryptFailed, w)
                | Some enc \<Rightarrow> (None, update_account (aa_Id bean) (\<lambda>a. a\<lparr>aa_OtpSecret := enc, aa_OtpBound := 1, aa_UpdateTime := now\<rparr>) w)))"

definition OtpUnbindApi :: "int \<Rightarrow> string \<Rightarrow> access_world \<Rightarrow> account_error option \<times> access_world" where
  "OtpUnbindApi now rowId w =
     (case mustLoad rowId (aw_accounts w) of
        Inl err \<Rightarrow> (Some err, w)
      | Inr bean \<Rightarrow> (None, update_account (aa_Id bean) (\<lambda>a. a\<lparr>aa_OtpSecret := [], aa_OtpBound := 0, aa_UpdateTime := now\<rparr>) w))"


subsection \<open>What the service of sessions leaves of the rows\<close>

text \<open>
  Every valid session and every token of \<open>db'\<close> was one of \<open>db\<close>: same code, same account, same site.
\<close>

definition rows_from :: "access_db \<Rightarrow> access_db \<Rightarrow> bool" where
  "rows_from db db' \<longleftrightarrow>
     (\<forall>s' \<in> set (db_sessions db'). se_Status s' = AccessStatusValid \<longrightarrow>
        (\<exists>s \<in> set (db_sessions db). se_Status s = AccessStatusValid \<and> se_SessionCode s = se_SessionCode s' \<and> se_AccountCode s = se_AccountCode s')) \<and>
     (\<forall>t' \<in> set (db_tokens db'). \<exists>t \<in> set (db_tokens db). to_SessionCode t = to_SessionCode t' \<and> to_HostCode t = to_HostCode t')"

lemma rows_from_refl [simp]: "rows_from db db" by (auto simp: rows_from_def)

lemma rows_from_trans: "rows_from a b \<Longrightarrow> rows_from b c \<Longrightarrow> rows_from a c"
  unfolding rows_from_def by metis

lemma rows_from_cache [simp]:
  "rows_from (db\<lparr>db_cache := c\<rparr>) db' = rows_from db db'" "rows_from db (db'\<lparr>db_cache := c\<rparr>) = rows_from db db'"
  "rows_from (db\<lparr>db_tickets := k\<rparr>) db' = rows_from db db'" "rows_from db (db'\<lparr>db_tickets := k\<rparr>) = rows_from db db'"
  by (simp_all add: rows_from_def)

lemma rows_from_fold: "(\<And>x d. rows_from d (f x d)) \<Longrightarrow> rows_from db (fold f xs db)"
  by (induction xs arbitrary: db) (auto intro: rows_from_trans)

lemma markBad_rows [simp]: "rows_from db (markBad now code db') = rows_from db db'" by (simp add: markBad_def)

lemma kick_token_rows [simp]: "rows_from db (kick_token now code db') = rows_from db db'" by (simp add: kick_token_def)

lemma kick_tokens_from [simp]: "rows_from db (fold (kick_token now) codes db') = rows_from db db'"
  by (induction codes arbitrary: db') simp_all

lemma revokeSessionRows_rows: "rows_from db (snd (revokeSessionRows now code reason db))"
  by (auto simp: revokeSessionRows_def rows_from_def)

lemma RevokeSession_rows: "rows_from db (snd (RevokeSession now code reason db))"
  using revokeSessionRows_rows [of db now code reason]
  by (simp add: RevokeSession_def kickCache_def split_beta)

lemma RevokeToken_rows: "rows_from db (RevokeToken hash now plain db)"
proof (cases "plain = []")
  case False
  then show ?thesis by (simp add: RevokeToken_def) (auto simp: rows_from_def)
qed (simp add: RevokeToken_def)

lemma revoke_all_rows: "rows_from db (snd (revoke_all now reason sessions db))"
  by (simp add: revoke_all_def rows_from_fold RevokeSession_rows)

lemma RevokeByAccount_rows: "rows_from db (snd (RevokeByAccount now acct reason db))"
  by (simp add: RevokeByAccount_def revoke_all_rows)

lemma RevokeByHostCode_rows: "rows_from db (snd (RevokeByHostCode now hostCode db))"
  by (simp add: RevokeByHostCode_def Let_def) (auto simp: rows_from_def)

lemma CleanExpired_rows: "rows_from db (snd (CleanExpired now days db))"
  by (auto simp: CleanExpired_def Let_def rows_from_def split: if_splits)

lemma touch_rows: "rows_from db (touchToken t now db)" "rows_from db (touchSession s now db)"
  by (auto simp: touchToken_def touchSession_def rows_from_def)

lemma loadValidSession_rows: "loadValidSession zone now cfg code db = (res, db') \<Longrightarrow> rows_from db db'"
  using revokeSessionRows_rows [of "db\<lparr>db_cache := snd (GetAs (json_session zone) now (db_cache db) (sessionKey code))\<rparr>" now _ "''expired''"]
  unfolding loadValidSession_def
  by (auto simp: Let_def split: if_splits prod.splits option.splits sum.splits)

lemma validate_row_rows: "validate_row zone now cfg code bound db = (res, db') \<Longrightarrow> rows_from db db'"
proof (erule validate_row_cases)
  fix t :: AccessToken and sess db1 db2
  assume l: "loadValidSession zone now cfg (to_SessionCode t) db = (Some sess, db1)"
    and d: "db2 = db1\<lparr>db_cache := SetWithTTl now (db_cache db1) (tokenKey code) (CRec (RState (token_state sess t))) (ac_CachePositiveTTL cfg)\<rparr>"
      "db' = db2 \<or> db' = touchToken t now db2"
  have "rows_from db db2" using loadValidSession_rows [OF l] d(1) by simp
  then show ?thesis using d(2) touch_rows(1) rows_from_trans by blast
qed (use loadValidSession_rows in auto)

lemma ValidateToken_rows: "rows_from db (snd (ValidateToken hash zone now cfg plain host hostCode ip fp db))"
proof -
  have v: "rows_from db (snd (validate_row zone now cfg code bound (db\<lparr>db_cache := c\<rparr>)))" for code bound c
    using validate_row_rows [OF prod.collapse [symmetric], of "db\<lparr>db_cache := c\<rparr>"] by simp
  show ?thesis unfolding ValidateToken_def Let_def by (auto split: prod.splits bool.splits sum.splits intro: v)
qed

lemma ValidateSSOSession_rows: "rows_from db (snd (ValidateSSOSession hash zone now cfg plain host ip fp db))"
  unfolding ValidateSSOSession_def
  using loadValidSession_rows touch_rows(2) rows_from_trans
  by (auto split: prod.splits option.splits) metis+

lemma ticket_rows:
  "rows_from db (snd (IssueTicket hash now cfg secret sess host ret ip fp db))"
  "rows_from db (snd (ConsumeTicket hash now cfg plain host ip fp db))"
  by (auto simp: IssueTicket_def ConsumeTicket_def Let_def split: option.splits)

lemmas session_service_rows = RevokeSession_rows RevokeToken_rows RevokeByAccount_rows RevokeByHostCode_rows CleanExpired_rows ValidateToken_rows ValidateSSOSession_rows ticket_rows


subsection \<open>Tokens follow the rights of accounts\<close>

text \<open>
  The invariant of the two tables: the keys of the accounts are distinct and not empty, a code belongs to the sessions of one account, and a token whose
  session is valid belongs to an account that is enabled and may enter the site of the token.
\<close>

definition ids_ok :: "AccessAccount list \<Rightarrow> bool" where
  "ids_ok accounts \<longleftrightarrow> distinct (map aa_Id accounts) \<and> [] \<notin> aa_Id ` set accounts"

definition codes_ok :: "access_db \<Rightarrow> bool" where
  "codes_ok db \<longleftrightarrow>
     (\<forall>s \<in> set (db_sessions db). se_Status s = AccessStatusValid \<longrightarrow> se_SessionCode s \<noteq> [] \<and>
        (\<forall>s' \<in> set (db_sessions db). se_Status s' = AccessStatusValid \<and> se_SessionCode s' = se_SessionCode s \<longrightarrow> se_AccountCode s' = se_AccountCode s))"

definition has_right :: "AccessAccount list \<Rightarrow> string \<Rightarrow> string \<Rightarrow> bool" where
  "has_right accounts accountCode hostCode \<longleftrightarrow>
     (\<exists>a \<in> set accounts. aa_Id a = accountCode \<and> aa_Status a = AccessAccountStatusEnable \<and> IsHostAllowed a hostCode)"

definition rights_ok :: "access_world \<Rightarrow> bool" where
  "rights_ok w \<longleftrightarrow>
     (\<forall>t \<in> set (db_tokens (aw_db w)). \<forall>s \<in> set (db_sessions (aw_db w)).
        to_HostCode t \<noteq> [] \<and> se_SessionCode s = to_SessionCode t \<and> se_Status s = AccessStatusValid \<longrightarrow> has_right (aw_accounts w) (se_AccountCode s) (to_HostCode t))"

definition world_ok :: "access_world \<Rightarrow> bool" where
  "world_ok w \<longleftrightarrow> ids_ok (aw_accounts w) \<and> codes_ok (aw_db w) \<and> rights_ok w"

text \<open>Fewer rows keep it; so do accounts that keep the rights of the sessions that are left.\<close>

lemma codes_ok_from: "codes_ok db \<Longrightarrow> rows_from db db' \<Longrightarrow> codes_ok db'"
  unfolding codes_ok_def rows_from_def by metis

lemma rights_ok_from:
  assumes "rights_ok w" "rows_from (aw_db w) (aw_db w')"
    and "\<And>s hostCode. s \<in> set (db_sessions (aw_db w')) \<Longrightarrow> se_Status s = AccessStatusValid \<Longrightarrow>
       has_right (aw_accounts w) (se_AccountCode s) hostCode \<Longrightarrow> has_right (aw_accounts w') (se_AccountCode s) hostCode"
  shows "rights_ok w'"
  using assms unfolding rights_ok_def rows_from_def by metis

lemma world_ok_from:
  assumes "world_ok w" "rows_from (aw_db w) (aw_db w')" "ids_ok (aw_accounts w')"
    and "\<And>s hostCode. s \<in> set (db_sessions (aw_db w')) \<Longrightarrow> se_Status s = AccessStatusValid \<Longrightarrow>
       has_right (aw_accounts w) (se_AccountCode s) hostCode \<Longrightarrow> has_right (aw_accounts w') (se_AccountCode s) hostCode"
  shows "world_ok w'"
  using assms rights_ok_from [of w w'] codes_ok_from [of "aw_db w" "aw_db w'"] by (auto simp: world_ok_def)

lemma world_ok_db: "world_ok w \<Longrightarrow> rows_from (aw_db w) db' \<Longrightarrow> world_ok (w\<lparr>aw_db := db'\<rparr>)"
  using world_ok_from [of w "w\<lparr>aw_db := db'\<rparr>"] by (simp add: world_ok_def)

text \<open>After the sessions of an account are revoked none of them is valid.\<close>

lemma RevokeSession_status:
  "c \<noteq> [] \<Longrightarrow> s \<in> set (db_sessions (snd (RevokeSession now c reason db))) \<Longrightarrow> se_SessionCode s = c \<Longrightarrow> se_Status s = AccessStatusRevoked"
  using revokeSessionRows_status [of now c reason db]
  by (simp add: RevokeSession_def kickCache_def split_beta kick_tokens_rows)

lemma revoke_all_status:
  assumes "s \<in> set (db_sessions (snd (revoke_all now reason sessions db)))" "x \<in> set sessions" "se_SessionCode x \<noteq> []" "se_SessionCode s = se_SessionCode x"
  shows "se_Status s \<noteq> AccessStatusValid"
  using assms(1,2) unfolding revoke_all_def snd_conv
proof (induction sessions arbitrary: db)
  case (Cons y ys)
  let ?f = "\<lambda>s db. snd (RevokeSession now (se_SessionCode s) reason db)"
  show ?case
  proof (cases "x \<in> set ys")
    case False
    then have y: "y = x" using Cons.prems(2) by simp
    have "rows_from (?f x db) (fold ?f ys (?f x db))" by (rule rows_from_fold) (rule RevokeSession_rows)
    then show ?thesis
      using Cons.prems(1) y RevokeSession_status [OF assms(3)] assms(4) unfolding rows_from_def by fastforce
  qed (use Cons in simp)
qed simp

lemma RevokeByAccount_none:
  assumes "codes_ok db" "acct \<noteq> []" "s \<in> set (db_sessions (snd (RevokeByAccount now acct reason db)))" "se_AccountCode s = acct"
  shows "se_Status s \<noteq> AccessStatusValid"
proof
  assume valid: "se_Status s = AccessStatusValid"
  have "\<exists>x \<in> set (db_sessions db). se_Status x = AccessStatusValid \<and> se_SessionCode x = se_SessionCode s \<and> se_AccountCode x = se_AccountCode s"
    using RevokeByAccount_rows [of db now acct reason] assms(3) valid unfolding rows_from_def by blast
  then obtain x where
    x: "x \<in> set (db_sessions db)" "se_Status x = AccessStatusValid" "se_SessionCode x = se_SessionCode s" "se_AccountCode x = acct"
    using assms(4) by auto
  then have "se_SessionCode x \<noteq> []" using assms(1) unfolding codes_ok_def by blast
  moreover have "x \<in> set (filter (\<lambda>s. se_AccountCode s = acct \<and> se_Status s = AccessStatusValid) (db_sessions db))" using x by simp
  moreover have "s \<in> set (db_sessions (snd (revoke_all now reason (filter (\<lambda>s. se_AccountCode s = acct \<and> se_Status s = AccessStatusValid) (db_sessions db)) db)))"
    using assms(2,3) by (simp add: RevokeByAccount_def)
  ultimately show False using revoke_all_status x(3) valid by metis
qed

text \<open>Changes of one account: with a revocation any change keeps the invariant, without one a change that keeps status and sites does.\<close>

lemma update_account_ids:
  assumes "ids_ok (aw_accounts w)" "\<And>a. aa_Id (f a) = aa_Id a"
  shows "ids_ok (aw_accounts (update_account i f w))"
proof -
  have "map aa_Id (aw_accounts (update_account i f w)) = map aa_Id (aw_accounts w)"
    by (simp add: update_account_def assms(2))
  then show ?thesis using assms(1) unfolding ids_ok_def by (metis list.set_map)
qed

lemma update_account_other:
  "has_right (aw_accounts w) c hostCode \<Longrightarrow> c \<noteq> i \<Longrightarrow> has_right (aw_accounts (update_account i f w)) c hostCode"
  by (force simp: has_right_def update_account_def)

lemma update_account_db [simp]: "aw_db (update_account i f w) = aw_db w" by (simp add: update_account_def)

lemma update_revoke_ok:
  assumes ok: "world_ok w" and f: "\<And>a. aa_Id (f a) = aa_Id a" and i: "i \<noteq> []"
  shows "world_ok (RevokeByAccount_world now i (update_account i f w))"
proof (rule world_ok_from [OF ok])
  show "rows_from (aw_db w) (aw_db (RevokeByAccount_world now i (update_account i f w)))"
    by (simp add: RevokeByAccount_world_def RevokeByAccount_rows)
  show "ids_ok (aw_accounts (RevokeByAccount_world now i (update_account i f w)))"
    using ok f by (simp add: RevokeByAccount_world_def update_account_ids world_ok_def)
next
  fix s hostCode
  assume s: "s \<in> set (db_sessions (aw_db (RevokeByAccount_world now i (update_account i f w))))" "se_Status s = AccessStatusValid"
    and r: "has_right (aw_accounts w) (se_AccountCode s) hostCode"
  have "se_AccountCode s \<noteq> i"
    using s ok RevokeByAccount_none [of "aw_db w" i s now] i by (auto simp: RevokeByAccount_world_def world_ok_def)
  then show "has_right (aw_accounts (RevokeByAccount_world now i (update_account i f w))) (se_AccountCode s) hostCode"
    using update_account_other [OF r] by (simp add: RevokeByAccount_world_def)
qed

lemma update_keep_ok:
  assumes ok: "world_ok w" and f: "\<And>a. aa_Id (f a) = aa_Id a"
    and keep: "\<And>a hostCode. a \<in> set (aw_accounts w) \<Longrightarrow> aa_Id a = i \<Longrightarrow> aa_Status a = AccessAccountStatusEnable \<Longrightarrow> IsHostAllowed a hostCode \<Longrightarrow>
      aa_Status (f a) = AccessAccountStatusEnable \<and> IsHostAllowed (f a) hostCode"
  shows "world_ok (update_account i f w)"
proof (rule world_ok_from [OF ok])
  fix s :: AccessSession and hostCode
  assume "has_right (aw_accounts w) (se_AccountCode s) hostCode"
  then obtain a where a: "a \<in> set (aw_accounts w)" "aa_Id a = se_AccountCode s" "aa_Status a = AccessAccountStatusEnable" "IsHostAllowed a hostCode"
    unfolding has_right_def by blast
  let ?a = "if aa_Id a = i then f a else a"
  have "?a \<in> set (aw_accounts (update_account i f w))" using a(1) by (auto simp: update_account_def)
  moreover have "aa_Id ?a = se_AccountCode s \<and> aa_Status ?a = AccessAccountStatusEnable \<and> IsHostAllowed ?a hostCode"
    using a f keep [OF a(1) _ a(3,4)] by simp
  ultimately show "has_right (aw_accounts (update_account i f w)) (se_AccountCode s) hostCode" unfolding has_right_def by blast
qed (use ok f in \<open>simp_all add: update_account_ids world_ok_def\<close>)


text \<open>Every operation of the administration keeps the invariant, provided new keys are fresh.\<close>

lemma mustLoad_in: "mustLoad i accounts = Inr bean \<Longrightarrow> bean \<in> set accounts \<and> aa_Id bean = i"
  by (auto simp: mustLoad_def split: if_splits option.splits dest!: find_SomeD)

lemma mustLoad_id: "ids_ok accounts \<Longrightarrow> mustLoad i accounts = Inr bean \<Longrightarrow> aa_Id bean \<noteq> []"
  by (metis (no_types) ids_ok_def imageI mustLoad_in)

lemma same_id: "ids_ok accounts \<Longrightarrow> a \<in> set accounts \<Longrightarrow> b \<in> set accounts \<Longrightarrow> aa_Id a = aa_Id b \<Longrightarrow> a = b"
  by (auto simp: ids_ok_def distinct_map inj_on_def)

lemma acc_AddApi_ok:
  assumes ok: "world_ok w" and fresh: "newId \<noteq> []" "newId \<notin> aa_Id ` set (aw_accounts w)"
  shows "world_ok (snd (acc_AddApi e now policy newId req w))"
proof -
  have "world_ok (w\<lparr>aw_accounts := aw_accounts w @ [bean]\<rparr>)" if "aa_Id bean = newId" for bean
    by (rule world_ok_from [OF ok]) (use ok fresh that in \<open>auto simp: world_ok_def ids_ok_def has_right_def\<close>)
  then show ?thesis using ok by (simp add: acc_AddApi_def Let_def split: option.splits)
qed

lemma acc_ModifyApi_ok:
  assumes ok: "world_ok w"
  shows "world_ok (snd (acc_ModifyApi e now i req w))"
proof (cases "mustLoad i (aw_accounts w)")
  case (Inr bean)
  have ids: "ids_ok (aw_accounts w)" using ok by (simp add: world_ok_def)
  show ?thesis
  proof (cases "parseAccessTime e (rq_ExpireTime req)")
    case (Some expire)
    let ?f = "\<lambda>a. a\<lparr>aa_NickName := TrimSpace (rq_NickName req), aa_Status := normalizeStatus (rq_Status req), aa_ForceOtp := normalizeOtpMode (rq_ForceOtp req),
      aa_AllowHostCodes := rq_AllowHostCodes req, aa_ExpireTime := expire, aa_Remarks := rq_Remarks req, aa_UpdateTime := now\<rparr>"
    have kicked: "world_ok (RevokeByAccount_world now (aa_Id bean) (update_account (aa_Id bean) ?f w))"
      by (rule update_revoke_ok [OF ok _ mustLoad_id [OF ids Inr]]) simp
    have kept: "world_ok (update_account (aa_Id bean) ?f w)"
      if "normalizeStatus (rq_Status req) = AccessAccountStatusEnable" "TrimSpace (rq_AllowHostCodes req) = TrimSpace (aa_AllowHostCodes bean)"
    proof (rule update_keep_ok [OF ok])
      fix a hostCode
      assume a: "a \<in> set (aw_accounts w)" "aa_Id a = aa_Id bean" "IsHostAllowed a hostCode"
      then have "a = bean" using same_id [OF ids] mustLoad_in [OF Inr] by blast
      then show "aa_Status (?f a) = AccessAccountStatusEnable \<and> IsHostAllowed (?f a) hostCode"
        using that a(3) by (simp add: IsHostAllowed_def)
    qed simp
    show ?thesis using Inr Some kicked kept by (simp add: acc_ModifyApi_def Let_def)
  qed (use Inr ok in \<open>simp add: acc_ModifyApi_def\<close>)
qed (use ok in \<open>simp add: acc_ModifyApi_def\<close>)

lemma ResetPwdApi_ok:
  assumes ok: "world_ok w"
  shows "world_ok (snd (ResetPwdApi e now policy i password w))"
  using ok update_revoke_ok [OF ok] mustLoad_id [of "aw_accounts w" i]
  by (auto simp: ResetPwdApi_def world_ok_def split: sum.splits option.splits)

lemma acc_DelApi_ok:
  assumes ok: "world_ok w"
  shows "world_ok (snd (acc_DelApi now i w))"
proof (cases "mustLoad i (aw_accounts w)")
  case (Inr bean)
  let ?w = "RevokeByAccount_world now (aa_Id bean) w" and ?d = "\<lambda>a. aa_Id a \<noteq> aa_Id bean"
  have ids: "ids_ok (aw_accounts w)" using ok by (simp add: world_ok_def)
  have "world_ok (?w\<lparr>aw_accounts := filter ?d (aw_accounts ?w)\<rparr>)"
  proof (rule world_ok_from [OF ok])
    fix s hostCode
    assume s: "s \<in> set (db_sessions (aw_db (?w\<lparr>aw_accounts := filter ?d (aw_accounts ?w)\<rparr>)))" "se_Status s = AccessStatusValid"
      and r: "has_right (aw_accounts w) (se_AccountCode s) hostCode"
    have "se_AccountCode s \<noteq> aa_Id bean"
      using s ok RevokeByAccount_none [of "aw_db w" "aa_Id bean" s now] mustLoad_id [OF ids Inr] by (auto simp: RevokeByAccount_world_def world_ok_def)
    then show "has_right (aw_accounts (?w\<lparr>aw_accounts := filter ?d (aw_accounts ?w)\<rparr>)) (se_AccountCode s) hostCode"
      using r by (auto simp: has_right_def RevokeByAccount_world_def)
  qed (use ids in \<open>auto simp: RevokeByAccount_world_def RevokeByAccount_rows ids_ok_def distinct_map_filter\<close>)
  then show ?thesis using Inr by (simp add: acc_DelApi_def Let_def)
qed (use ok in \<open>simp add: acc_DelApi_def\<close>)

lemma RemoveHostCode_ok:
  assumes ok: "world_ok w"
  shows "world_ok (snd (RemoveHostCode now hostCode w))"
proof -
  have step: "world_ok (snd (drop_site now code a (n, w)))" if "world_ok w" "aa_Id a \<noteq> []" for code a n w
    using that update_revoke_ok [of w _ "aa_Id a" now] by (simp add: drop_site_def Let_def)
  have "world_ok (snd (fold (drop_site now code) accounts (n, w)))" if "world_ok w" "[] \<notin> aa_Id ` set accounts" for code accounts n
    using that
  proof (induction accounts arbitrary: n w)
    case (Cons a accounts)
    obtain n' w' where nw: "drop_site now code a (n, w) = (n', w')" by force
    then have "world_ok w'" using step [of w a code n] Cons.prems by auto
    then show ?case using Cons nw by simp
  qed simp
  moreover have "[] \<notin> aa_Id ` set (filter (\<lambda>a. aa_AllowHostCodes a \<noteq> []) (aw_accounts w))" using ok by (auto simp: world_ok_def ids_ok_def)
  ultimately show ?thesis using ok by (simp add: RemoveHostCode_def Let_def)
qed

lemma account_marks_ok:
  assumes ok: "world_ok w"
  shows "world_ok (MarkLogin now i ip w)" "world_ok (snd (OtpBindApi e now i code secret w))" "world_ok (snd (OtpUnbindApi now i w))"
  using ok update_keep_ok [OF ok]
  by (auto simp: MarkLogin_def OtpBindApi_def OtpUnbindApi_def IsHostAllowed_def split: sum.splits option.splits)

lemmas account_service_ok = acc_AddApi_ok acc_ModifyApi_ok ResetPwdApi_ok acc_DelApi_ok RemoveHostCode_ok account_marks_ok

text \<open>A new session has no tokens yet; a token may be given to an account that has the right.\<close>

lemma codes_okD:
  "codes_ok db \<Longrightarrow> x \<in> set (db_sessions db) \<Longrightarrow> se_Status x = AccessStatusValid \<Longrightarrow> se_SessionCode x \<noteq> []"
  "codes_ok db \<Longrightarrow> x \<in> set (db_sessions db) \<Longrightarrow> y \<in> set (db_sessions db) \<Longrightarrow> se_Status x = AccessStatusValid \<Longrightarrow> se_Status y = AccessStatusValid \<Longrightarrow>
   se_SessionCode y = se_SessionCode x \<Longrightarrow> se_AccountCode y = se_AccountCode x"
  unfolding codes_ok_def by blast+

lemma codes_ok_tokens [simp]: "codes_ok (db\<lparr>db_tokens := ts\<rparr>) = codes_ok db"
proof -
  have e: "db_sessions (db\<lparr>db_tokens := ts\<rparr>) = db_sessions db" by simp
  show ?thesis unfolding codes_ok_def e by (rule refl)
qed

lemma new_session_ok:
  assumes ok: "world_ok w" and s: "se_SessionCode s \<noteq> []" "se_SessionCode s \<notin> se_SessionCode ` set (db_sessions (aw_db w))"
      "se_SessionCode s \<notin> to_SessionCode ` set (db_tokens (aw_db w))"
  shows "world_ok (w\<lparr>aw_db := (aw_db w)\<lparr>db_sessions := db_sessions (aw_db w) @ [s]\<rparr>\<rparr>)"
proof -
  let ?w = "w\<lparr>aw_db := (aw_db w)\<lparr>db_sessions := db_sessions (aw_db w) @ [s]\<rparr>\<rparr>"
  have mem: "x \<in> set (db_sessions (aw_db ?w)) \<longleftrightarrow> x \<in> set (db_sessions (aw_db w)) \<or> x = s" for x by auto
  have c: "codes_ok (aw_db w)" using ok by (simp add: world_ok_def)
  have "codes_ok (aw_db ?w)"
    unfolding codes_ok_def
  proof (intro ballI impI conjI; (elim conjE)?)
    fix x assume "x \<in> set (db_sessions (aw_db ?w))" "se_Status x = AccessStatusValid"
    then show "se_SessionCode x \<noteq> []" using mem s(1) codes_okD(1) [OF c] by blast
  next
    fix x y assume xy: "x \<in> set (db_sessions (aw_db ?w))" "se_Status x = AccessStatusValid" "y \<in> set (db_sessions (aw_db ?w))" "se_Status y = AccessStatusValid"
      "se_SessionCode y = se_SessionCode x"
    have "x = s \<longleftrightarrow> y = s" using mem xy s(2) by (metis imageI)
    then show "se_AccountCode y = se_AccountCode x" using mem xy codes_okD(2) [OF c] by blast
  qed
  moreover have "rights_ok ?w"
    unfolding rights_ok_def
  proof (intro ballI impI)
    fix t x assume t: "t \<in> set (db_tokens (aw_db ?w))" and x: "x \<in> set (db_sessions (aw_db ?w))"
      and c: "to_HostCode t \<noteq> [] \<and> se_SessionCode x = to_SessionCode t \<and> se_Status x = AccessStatusValid"
    have "x \<noteq> s" using s(3) t c by force
    then show "has_right (aw_accounts ?w) (se_AccountCode x) (to_HostCode t)"
      using ok t x c unfolding world_ok_def rights_ok_def by simp
  qed
  ultimately show ?thesis using ok by (simp add: world_ok_def)
qed

lemma CreateSession_ok:
  assumes ok: "world_ok w" and fresh: "\<And>plain. secret = Some plain \<Longrightarrow> hash plain \<noteq> [] \<and>
      hash plain \<notin> se_SessionCode ` set (db_sessions (aw_db w)) \<and> hash plain \<notin> to_SessionCode ` set (db_tokens (aw_db w))"
  shows "world_ok (w\<lparr>aw_db := snd (CreateSession hash now cfg secret rowId acct scope bind ip fp ua (aw_db w))\<rparr>)"
proof (cases secret)
  case (Some plain)
  then show ?thesis using new_session_ok [OF ok] fresh [OF Some] by (simp add: CreateSession_def Let_def)
qed (use ok in \<open>simp add: CreateSession_def\<close>)

lemma new_token_ok:
  assumes ok: "world_ok w" and s: "s \<in> set (db_sessions (aw_db w))" "se_Status s = AccessStatusValid"
    and t: "to_SessionCode t = se_SessionCode s" "to_HostCode t \<noteq> [] \<Longrightarrow> has_right (aw_accounts w) (se_AccountCode s) (to_HostCode t)"
  shows "world_ok (w\<lparr>aw_db := (aw_db w)\<lparr>db_tokens := db_tokens (aw_db w) @ [t]\<rparr>\<rparr>)"
proof -
  let ?w = "w\<lparr>aw_db := (aw_db w)\<lparr>db_tokens := db_tokens (aw_db w) @ [t]\<rparr>\<rparr>"
  have "rights_ok ?w"
    unfolding rights_ok_def
  proof (intro ballI impI)
    fix u x assume u: "u \<in> set (db_tokens (aw_db ?w))" and x: "x \<in> set (db_sessions (aw_db ?w))"
      and c: "to_HostCode u \<noteq> [] \<and> se_SessionCode x = to_SessionCode u \<and> se_Status x = AccessStatusValid"
    show "has_right (aw_accounts ?w) (se_AccountCode x) (to_HostCode u)"
    proof (cases "u = t")
      case True
      then have "se_SessionCode x = se_SessionCode s" "x \<in> set (db_sessions (aw_db w))" using c t(1) x by simp_all
      then have "se_AccountCode x = se_AccountCode s"
        using ok s c unfolding world_ok_def codes_ok_def by blast
      then show ?thesis using t(2) c True by simp
    next
      case False
      then show ?thesis using ok u x c unfolding world_ok_def rights_ok_def by simp
    qed
  qed
  then show ?thesis using ok by (simp add: world_ok_def)
qed

lemma IssueToken_ok:
  assumes ok: "world_ok w" and s: "s \<in> set (db_sessions (aw_db w))" "se_Status s = AccessStatusValid"
    and r: "hostCode \<noteq> [] \<Longrightarrow> has_right (aw_accounts w) (se_AccountCode s) hostCode"
  shows "world_ok (w\<lparr>aw_db := snd (IssueToken hash now cfg secret s host hostCode ip fp (aw_db w))\<rparr>)"
proof (cases secret)
  case (Some plain)
  then show ?thesis using r by (auto simp: IssueToken_def Let_def intro!: new_token_ok [OF ok s])
qed (use ok in \<open>simp add: IssueToken_def\<close>)

end
