(* ===== verification/Access_Gate.thy ===== *)
theory Access_Gate
  imports Access_Policy Access_Session Match_Set
begin

text \<open>
  The gate of the unified access authentication, wafenginecore/access_gate.go: what \<open>DoAccessGate\<close> does to every request of a site after the guard chain. With it
  the configuration of a site (model/hosts.go), the test of the ACME path (acme_challenge.go), the fingerprint of a device
  (utils/fingerprint.go) and the address of the login page with its signed request (access_ticket.go).

  Digests, the message authentication code, JSON, base64 and the escaping of URLs are functions of the record \<open>access_env\<close>. The published
  configuration is an argument. The self-service endpoints under the path prefix are the outcome \<open>GateSelfService\<close>; audit rows are not modelled.

  The theorems say that with the gate switched on a request passes only by one of the configured exceptions or with a token issued for this
  site, and that whatever passes carries neither a cookie of the gate nor an identity the client made up.
\<close>

subsection \<open>Cookies and paths of the standard library\<close>

text \<open>\<open>textproto.TrimString\<close>, the tokens of HTTP, \<open>readCookies\<close> of net/http and \<open>path.Clean\<close>.\<close>

definition http_space :: "char \<Rightarrow> bool" where
  "http_space c \<longleftrightarrow> c = CHR '' '' \<or> c = CHR 0x09 \<or> c = newline \<or> c = carriage_return"

definition TrimString :: "string \<Rightarrow> string" where
  "TrimString s = rev (dropWhile http_space (rev (dropWhile http_space s)))"

definition token_char :: "char \<Rightarrow> bool" where
  "token_char c \<longleftrightarrow> is_digit c \<or> (97 \<le> char_code c \<and> char_code c \<le> 122) \<or> (65 \<le> char_code c \<and> char_code c \<le> 90) \<or> c \<in> set ''!#$%&*+-.^_|~'' \<or> c = CHR 0x27 \<or> c = CHR 0x60"

definition cookie_value_char :: "char \<Rightarrow> bool" where
  "cookie_value_char c \<longleftrightarrow> 0x20 \<le> char_code c \<and> char_code c < 0x7F \<and> c \<noteq> CHR 0x22 \<and> c \<noteq> CHR '';'' \<and> c \<noteq> CHR 0x5C"

definition parseCookieValue :: "string \<Rightarrow> string option" where
  "parseCookieValue raw =
     (let v = (if 1 < length raw \<and> hd raw = CHR 0x22 \<and> List.last raw = CHR 0x22 then butlast (tl raw) else raw)
      in if list_all cookie_value_char v then Some v else None)"

definition cookie_part :: "string \<Rightarrow> (string \<times> string) list" where
  "cookie_part part0 =
     (let part = TrimString part0
      in if part = [] then []
         else (let (n0, v0) = (case StrCut (CHR ''='') part of None \<Rightarrow> (part, []) | Some p \<Rightarrow> p); n = TrimString n0
               in if n = [] \<or> \<not> list_all token_char n then []
                  else (case parseCookieValue v0 of None \<Rightarrow> [] | Some v \<Rightarrow> [(n, v)])))"

definition readCookies :: "string list \<Rightarrow> (string \<times> string) list" where
  "readCookies lines = concat (map (\<lambda>l. concat (map cookie_part (StrSplit (CHR '';'') (TrimString l)))) lines)"

fun clean_elems :: "bool \<Rightarrow> string list \<Rightarrow> string list \<Rightarrow> string list" where
  "clean_elems rooted acc [] = rev acc"
| "clean_elems rooted acc (e # es) =
     (if e = [] \<or> e = ''.'' then clean_elems rooted acc es
      else if e = ''..'' then
        (case acc of
           a # rest \<Rightarrow> if a = ''..'' then clean_elems rooted (e # acc) es else clean_elems rooted rest es
         | [] \<Rightarrow> if rooted then clean_elems rooted [] es else clean_elems rooted [e] es)
      else clean_elems rooted (e # acc) es)"

definition path_Clean :: "string \<Rightarrow> string" where
  "path_Clean p =
     (let rooted = HasPrefix p ''/''; body = StrJoin (CHR ''/'') (clean_elems rooted [] (StrSplit (CHR ''/'') p))
      in if rooted then CHR ''/'' # body else if body = [] then ''.'' else body)"

subsection \<open>Configuration\<close>

record HostAccessConfig =
  hc_Mode :: int
  hc_ExcludePaths :: string
  hc_RequireOtp :: int
  hc_UnauthAction :: string
  hc_AllowIPGroupCode :: string
  hc_CorsAllowOrigins :: string
  hc_CorsAllowMethods :: string
  hc_CorsAllowHeaders :: string
  hc_CorsMaxAge :: int

record gate_config =
  gc_ForceDisable :: bool
  gc_GlobalEnable :: bool
  gc_CenterOrigin :: string
  gc_CenterHost :: string
  gc_PathPrefix :: string
  gc_CookieSSOName :: string
  gc_CookiePrefix :: string
  gc_HmacSecret :: string
  gc_session :: access_cfg
  gc_RequireOtp :: bool
  gc_MaxFailCount :: int
  gc_LockDuration :: int
  gc_GlobalExcludePaths :: "string list"
  gc_BypassIPGroupCode :: string
  gc_ServiceTokenHeader :: string
  gc_ServiceTokenHashes :: "string list"
  gc_CORS :: CORSPolicy
  gc_UnauthAction :: string
  gc_PassIdentityHeader :: bool
  gc_ForceSecureCookie :: bool

record accessAuthReq =
  ar_R :: string
  ar_H :: string
  ar_E :: int
  ar_N :: string

record access_env =
  ae_hash :: "string \<Rightarrow> string"
  ae_md5 :: "string \<Rightarrow> string"
  ae_mac :: "string \<Rightarrow> string \<Rightarrow> string"
  ae_encode :: "string \<Rightarrow> string"
  ae_decode :: "string \<Rightarrow> string option"
  ae_marshal :: "accessAuthReq \<Rightarrow> string"
  ae_unmarshal :: "string \<Rightarrow> accessAuthReq option"
  ae_hostcfg :: "string \<Rightarrow> HostAccessConfig \<Rightarrow> HostAccessConfig option"
  ae_RequestURI :: "http_request \<Rightarrow> string"
  ae_QueryEscape :: "string \<Rightarrow> string"

definition IsCenterMode :: "gate_config \<Rightarrow> bool" where
  "IsCenterMode cfg \<longleftrightarrow> gc_CenterOrigin cfg \<noteq> [] \<and> gc_CenterHost cfg \<noteq> []"

definition host_access_default :: HostAccessConfig where
  "host_access_default = \<lparr>hc_Mode = 0, hc_ExcludePaths = [], hc_RequireOtp = 0, hc_UnauthAction = [], hc_AllowIPGroupCode = [], hc_CorsAllowOrigins = [],
     hc_CorsAllowMethods = [], hc_CorsAllowHeaders = [], hc_CorsMaxAge = 0\<rparr>"

definition AccessCorsMaxAgeCap :: int where "AccessCorsMaxAgeCap = 7200"

definition stripHeaderCtrlChars :: "string \<Rightarrow> string" where
  "stripHeaderCtrlChars v = TrimSpace (filter (\<lambda>c. 0x20 \<le> char_code c \<and> char_code c \<noteq> 0x7F) v)"

definition ParseAccessConfig :: "(string \<Rightarrow> HostAccessConfig \<Rightarrow> HostAccessConfig option) \<Rightarrow> string \<Rightarrow> HostAccessConfig" where
  "ParseAccessConfig unmarshal jsonStr =
     (if jsonStr = [] then host_access_default
      else (case unmarshal jsonStr host_access_default of
              None \<Rightarrow> host_access_default
            | Some c \<Rightarrow>
                c\<lparr>hc_Mode := (if hc_Mode c < 0 \<or> 2 < hc_Mode c then 0 else hc_Mode c),
                  hc_UnauthAction := (if hc_UnauthAction c \<in> {[], ''auto'', ''redirect'', ''401''} then hc_UnauthAction c else []),
                  hc_CorsMaxAge := (if hc_CorsMaxAge c < 0 \<or> AccessCorsMaxAgeCap < hc_CorsMaxAge c then 0 else hc_CorsMaxAge c),
                  hc_CorsAllowMethods := stripHeaderCtrlChars (hc_CorsAllowMethods c),
                  hc_CorsAllowHeaders := stripHeaderCtrlChars (hc_CorsAllowHeaders c),
                  hc_CorsAllowOrigins := map (\<lambda>ch. if ch = carriage_return then newline else if ch = CHR 0x09 then CHR '' '' else ch) (hc_CorsAllowOrigins c)\<rparr>))"

subsection \<open>The request and its log entry\<close>

text \<open>The log entry with the fields this gate writes; the cookies and headers are the lists the texts of the log are made from.\<close>

record access_log = WebLog +
  al_COOKIES :: "(string \<times> string) list"
  al_HEADER :: header_lines
  al_ACTION :: string
  al_STATUS :: string
  al_TASK_FLAG :: int

definition GSSL_HTTP_CHANGLE_PATH :: string where "GSSL_HTTP_CHANGLE_PATH = ''/.well-known/acme-challenge/''"

definition isACMEChallengePath :: "string \<Rightarrow> string \<Rightarrow> bool" where
  "isACMEChallengePath cleanPath rawPath \<longleftrightarrow> \<not> StrContains rawPath ''..'' \<and> HasPrefix cleanPath (ToLower GSSL_HTTP_CHANGLE_PATH)"

definition GenerateFingerprint :: "(string \<Rightarrow> string) \<Rightarrow> http_request \<Rightarrow> string" where
  "GenerateFingerprint md5 r =
     md5 (Header_Get r ''User-Agent'' @ ''|'' @ Header_Get r ''Accept-Language'' @ ''|'' @ Header_Get r ''Accept-Encoding'')"

definition accessNormalizedHost :: "http_request \<Rightarrow> string" where
  "accessNormalizedHost r = NormalizeHost (hr_Host r) (hr_TLS r)"

definition accessTokenCookieName :: "access_env \<Rightarrow> gate_config \<Rightarrow> http_request \<Rightarrow> string" where
  "accessTokenCookieName env cfg r = TokenCookieName (ae_hash env) (gc_CookiePrefix cfg) (accessNormalizedHost r)"

definition accessCORSPolicy :: "gate_config \<Rightarrow> HostAccessConfig \<Rightarrow> CORSPolicy" where
  "accessCORSPolicy cfg h = ResolveCORSPolicy (hc_CorsAllowOrigins h) (hc_CorsAllowMethods h) (hc_CorsAllowHeaders h) (hc_CorsMaxAge h) (gc_CORS cfg)"

definition accessCookieValue :: "http_request \<Rightarrow> string \<Rightarrow> string" where
  "accessCookieValue r name =
     (if name = [] then []
      else (case find (\<lambda>c. fst c = name) (readCookies (Header_Values r ''Cookie'')) of Some c \<Rightarrow> snd c | None \<Rightarrow> []))"

text \<open>\<open>stripAccessCookies\<close>: the items of a line that stay, the lines that stay, and whether anything was dropped.\<close>

definition cookie_items :: "string \<Rightarrow> string list" where
  "cookie_items raw = filter (\<lambda>i. i \<noteq> []) (map TrimSpace (StrSplit (CHR '';'') raw))"

definition item_name :: "string \<Rightarrow> string" where
  "item_name item = (case StrCut (CHR ''='') item of Some (n, _) \<Rightarrow> n | None \<Rightarrow> item)"

definition gate_item :: "string \<Rightarrow> string \<Rightarrow> bool" where
  "gate_item pre item \<longleftrightarrow> HasPrefix (ToLower (item_name item)) pre"

fun join_items :: "string list \<Rightarrow> string" where
  "join_items [] = []"
| "join_items [x] = x"
| "join_items (x # y # ys) = x @ ''; '' @ join_items (y # ys)"

definition kept_lines :: "string \<Rightarrow> string list \<Rightarrow> string list" where
  "kept_lines pre values =
     map join_items (filter (\<lambda>items. items \<noteq> []) (map (\<lambda>raw. filter (\<lambda>i. \<not> gate_item pre i) (cookie_items raw)) values))"

definition set_header :: "header_lines \<Rightarrow> http_request \<Rightarrow> http_request" where
  "set_header h r = r\<lparr>hr_Header := h, hr_Cookies := readCookies (map snd (filter (\<lambda>(n, v). EqualFold n ''Cookie'') h))\<rparr>"

definition stripAccessCookies :: "gate_config \<Rightarrow> http_request \<Rightarrow> bool \<times> http_request" where
  "stripAccessCookies cfg r =
     (let values = Header_Values r ''Cookie''; pre = ToLower (gc_CookiePrefix cfg)
      in if values = [] \<or> gc_CookiePrefix cfg = [] then (False, r)
         else if \<not> list_ex (\<lambda>raw. list_ex (gate_item pre) (cookie_items raw)) values then (False, r)
         else (True, set_header (header_Del ''Cookie'' (hr_Header r) @ map (\<lambda>v. (''Cookie'', v)) (kept_lines pre values)) r))"

definition refreshWeblogCookies :: "http_request \<Rightarrow> access_log \<Rightarrow> access_log" where
  "refreshWeblogCookies r lg = lg\<lparr>al_COOKIES := readCookies (Header_Values r ''Cookie''), al_HEADER := hr_Header r\<rparr>"

definition matchAccessServiceToken :: "access_env \<Rightarrow> gate_config \<Rightarrow> http_request \<Rightarrow> bool" where
  "matchAccessServiceToken env cfg r \<longleftrightarrow>
     gc_ServiceTokenHeader cfg \<noteq> [] \<and> gc_ServiceTokenHashes cfg \<noteq> [] \<and>
     (let provided = TrimSpace (Header_Get r (gc_ServiceTokenHeader cfg))
      in provided \<noteq> [] \<and> list_ex (\<lambda>want. ae_hash env provided = ToLower want) (gc_ServiceTokenHashes cfg))"

definition firstNonEmpty :: "string list \<Rightarrow> string" where
  "firstNonEmpty vals = (case find (\<lambda>v. TrimSpace v \<noteq> []) vals of Some v \<Rightarrow> TrimSpace v | None \<Rightarrow> [])"

definition accessShouldReturnJSON :: "gate_config \<Rightarrow> HostAccessConfig \<Rightarrow> http_request \<Rightarrow> bool" where
  "accessShouldReturnJSON cfg h r =
     (let act = (if hc_UnauthAction h = [] then gc_UnauthAction cfg else hc_UnauthAction h);
          ws = EqualFold (Header_Get r ''Upgrade'') ''websocket''; mode = Header_Get r ''Sec-Fetch-Mode''
      in if act = ''401'' then True
         else if act = ''redirect'' then ws
         else ws \<or> EqualFold (Header_Get r ''X-Requested-With'') ''XMLHttpRequest'' \<or> (mode \<noteq> [] \<and> \<not> EqualFold mode ''navigate'') \<or>
              StrContains (ToLower (Header_Get r ''Content-Type'')) ''application/json'' \<or> (hr_Method r \<noteq> ''GET'' \<and> hr_Method r \<noteq> ''HEAD'') \<or>
              \<not> StrContains (ToLower (Header_Get r ''Accept'')) ''text/html'')"

subsection \<open>The address of the login page (access_ticket.go)\<close>

definition accessAuthReqTTL :: int where "accessAuthReqTTL = 5 * minute"

definition signAuthReq :: "access_env \<Rightarrow> string \<Rightarrow> accessAuthReq \<Rightarrow> string" where
  "signAuthReq env secret req =
     (if secret = [] then []
      else (let payload = ae_marshal env req in ae_encode env payload @ ''.'' @ ae_encode env (ae_mac env secret payload)))"

definition accessCurrentURL :: "access_env \<Rightarrow> http_request \<Rightarrow> string" where
  "accessCurrentURL env r = (if hr_TLS r then ''https'' else ''http'') @ ''://'' @ hr_Host r @ ae_RequestURI env r"

definition buildAccessEntryURL :: "access_env \<Rightarrow> int \<Rightarrow> gate_config \<Rightarrow> string \<Rightarrow> http_request \<Rightarrow> string" where
  "buildAccessEntryURL env now cfg nonce r =
     (let rq = signAuthReq env (gc_HmacSecret cfg) \<lparr>ar_R = accessCurrentURL env r, ar_H = hr_Host r, ar_E = (now + accessAuthReqTTL) div second, ar_N = nonce\<rparr>;
          query = (if rq = [] then [] else ''?rq='' @ ae_QueryEscape env rq)
      in if IsCenterMode cfg \<and> \<not> EqualFold (hr_Host r) (gc_CenterHost cfg)
         then gc_CenterOrigin cfg @ gc_PathPrefix cfg @ ''/authorize'' @ query
         else gc_PathPrefix cfg @ ''/login'' @ query)"

subsection \<open>The gate\<close>

record gate_state =
  gs_db :: access_db
  gs_warnAt :: int
  gs_queue :: "access_log list"

datatype gate_outcome =
    GatePass http_request
  | GateSelfService
  | GatePreflight header_lines
  | GateUnauthorized header_lines string
  | GateRedirect header_lines string

definition warnAccessNoCenter :: "int \<Rightarrow> gate_state \<Rightarrow> gate_state" where
  "warnAccessNoCenter now g = (if now div second - gs_warnAt g < 300 then g else g\<lparr>gs_warnAt := now div second\<rparr>)"

definition access_text :: string where
  "access_text = utf8_text [231, 187, 159, 228, 184, 128, 232, 174, 191, 233, 151, 174, 232, 174, 164, 232, 175, 129]"
definition forbid_text :: string where "forbid_text = utf8_text [231, 166, 129, 230, 173, 162]"

definition logAccessDenied :: "access_log \<Rightarrow> gate_state \<Rightarrow> access_log \<times> gate_state" where
  "logAccessDenied lg g =
     (let lg1 = lg\<lparr>lg_RULE := access_text, al_ACTION := forbid_text, al_STATUS := ''302 Found'', lg_STATUS_CODE := 302, al_TASK_FLAG := 1\<rparr>
      in (lg1, g\<lparr>gs_queue := gs_queue g @ [lg1]\<rparr>))"

definition gate_path :: "http_request \<Rightarrow> string" where
  "gate_path r = ToLower (path_Clean (hr_Path r))"

definition self_service :: "gate_config \<Rightarrow> http_request \<Rightarrow> bool" where
  "self_service cfg r \<longleftrightarrow> gate_path r = gc_PathPrefix cfg \<or> HasPrefix (gate_path r) (gc_PathPrefix cfg @ ''/'')"

text \<open>The exceptions in the order of the code: the ACME path, the paths without authentication, the IP group, the service token.\<close>

definition gate_exception ::
  "access_env \<Rightarrow> gate_config \<Rightarrow> HostAccessConfig \<Rightarrow> ms_store \<Rightarrow> group_state \<Rightarrow> string \<Rightarrow> http_request \<Rightarrow> bool" where
  "gate_exception env cfg h store groups clientIP r \<longleftrightarrow>
     isACMEChallengePath (gate_path r) (hr_Path r) \<or>
     MatchPathPrefix (gate_path r) (gc_GlobalExcludePaths cfg) \<or> MatchPathPrefix (gate_path r) (BuildExcludePaths (hc_ExcludePaths h)) \<or>
     (let code = firstNonEmpty [hc_AllowIPGroupCode h, gc_BypassIPGroupCode cfg]
      in code \<noteq> [] \<and> ms_ContainsStr (deref store (GetGroupMatcher groups code)) clientIP) \<or>
     matchAccessServiceToken env cfg r"

text \<open>The answer to a request without a valid token.\<close>

definition refuse_access :: "access_env \<Rightarrow> int \<Rightarrow> gate_config \<Rightarrow> HostAccessConfig \<Rightarrow> string \<Rightarrow> http_request \<Rightarrow> gate_outcome" where
  "refuse_access env now cfg h nonce r =
     (let entry = buildAccessEntryURL env now cfg nonce r; origin = RequestOrigin r;
          hdr = (if origin = [] then []
                 else (case MatchOrigin origin (cp_AllowOrigins (accessCORSPolicy cfg h)) of
                         Some allowed \<Rightarrow> WriteCORSHeaders allowed [] | None \<Rightarrow> AddVaryOrigin []))
      in if accessShouldReturnJSON cfg h r
         then GateUnauthorized
                (header_Set ''X-SamWaf-Access'' ''required''
                  (header_Set ''Cache-Control'' ''no-store, no-cache, must-revalidate, max-age=0''
                    (header_Set ''Content-Type'' ''application/json; charset=utf-8'' hdr))) entry
         else GateRedirect (header_Set ''Cache-Control'' ''no-store'' hdr) entry)"

definition drop_identity :: "http_request \<Rightarrow> http_request" where
  "drop_identity r = r\<lparr>hr_Header := header_Del ''X-SamWaf-Access-Session'' (header_Del ''X-SamWaf-Access-User'' (hr_Header r))\<rparr>"

definition identity_headers :: "AccessState \<Rightarrow> http_request \<Rightarrow> http_request" where
  "identity_headers st r =
     r\<lparr>hr_Header := header_Set ''X-SamWaf-Access-Session'' (as_SessionCode st) (header_Set ''X-SamWaf-Access-User'' (as_AccountName st) (hr_Header r))\<rparr>"

text \<open>From the check of the token on.\<close>

definition check_token ::
  "access_env \<Rightarrow> int \<Rightarrow> int \<Rightarrow> gate_config \<Rightarrow> HostAccessConfig \<Rightarrow> string \<Rightarrow> string \<Rightarrow> string \<Rightarrow> string \<Rightarrow> http_request \<Rightarrow> access_log \<Rightarrow> gate_state
     \<Rightarrow> gate_outcome \<times> access_log \<times> gate_state" where
  "check_token env zone now cfg h hostCode clientIP nonce tokenCookie r lg g =
     (case (if tokenCookie = [] then (None, gs_db g)
            else ValidateToken (ae_hash env) zone now (gc_session cfg) tokenCookie (accessNormalizedHost r) hostCode clientIP
                   (GenerateFingerprint (ae_md5 env) r) (gs_db g)) of
        (Some st, db) \<Rightarrow> (GatePass (if gc_PassIdentityHeader cfg then identity_headers st r else r), lg, g\<lparr>gs_db := db\<rparr>)
      | (None, db) \<Rightarrow>
          (case logAccessDenied lg (g\<lparr>gs_db := db\<rparr>) of
             (lg1, g1) \<Rightarrow> (refuse_access env now cfg h nonce r, lg1, g1)))"

definition DoAccessGate ::
  "access_env \<Rightarrow> int \<Rightarrow> int \<Rightarrow> gate_config \<Rightarrow> ms_store \<Rightarrow> group_state \<Rightarrow> string \<Rightarrow> string \<Rightarrow> string \<Rightarrow> string \<Rightarrow> http_request \<Rightarrow> access_log \<Rightarrow> gate_state
     \<Rightarrow> gate_outcome \<times> access_log \<times> gate_state" where
  "DoAccessGate env zone now cfg store groups accessJSON hostCode clientIP nonce r0 lg0 g =
     (let r = drop_identity r0; h = ParseAccessConfig (ae_hostcfg env) accessJSON
      in if gc_ForceDisable cfg then (GatePass r, lg0, g)
         else if self_service cfg r then (GateSelfService, lg0, g)
         else
           (let tokenCookie = accessCookieValue r (accessTokenCookieName env cfg r);
                (changed, r1) = stripAccessCookies cfg r;
                lg = (if changed then refreshWeblogCookies r1 lg0 else lg0)
            in if \<not> IsAccessEnabled (hc_Mode h) (gc_GlobalEnable cfg) then (GatePass r1, lg, g)
               else if \<not> IsCenterMode cfg then (GatePass r1, lg, warnAccessNoCenter now g)
               else if gate_exception env cfg h store groups clientIP r1 then (GatePass r1, lg, g)
               else
                 (case (if IsPreflight r1 then MatchOrigin (RequestOrigin r1) (cp_AllowOrigins (accessCORSPolicy cfg h)) else None) of
                    Some allowed \<Rightarrow> (GatePreflight (WritePreflightHeaders r1 allowed (accessCORSPolicy cfg h) []), lg, g)
                  | None \<Rightarrow> check_token env zone now cfg h hostCode clientIP nonce tokenCookie r1 lg g)))"

subsection \<open>Headers and cookies that are kept\<close>

lemma EqualFold_sym: "EqualFold a b = EqualFold b a" by (auto simp: EqualFold_def)

lemma header_Del_same: "filter (\<lambda>(n, v). EqualFold n name) (header_Del name h) = []"
  by (auto simp: header_Del_def filter_empty_conv)

lemma header_Del_other:
  "\<not> EqualFold name other \<Longrightarrow> filter (\<lambda>(n, v). EqualFold n other) (header_Del name h) = filter (\<lambda>(n, v). EqualFold n other) h"
  by (induction h) (auto simp: header_Del_def EqualFold_def)

definition header_values :: "header_lines \<Rightarrow> string \<Rightarrow> string list" where
  "header_values h name = map snd (filter (\<lambda>(n, v). EqualFold n name) h)"

lemma Header_Values_lines: "Header_Values r name = header_values (hr_Header r) name"
  by (simp add: Header_Values_def header_values_def)

lemma header_values_Del: "header_values (header_Del name h) other = (if EqualFold name other then [] else header_values h other)"
proof (cases "EqualFold name other")
  case True
  then have "filter (\<lambda>(n, v). EqualFold n other) (header_Del name h) = []"
    by (auto simp: header_Del_def filter_empty_conv EqualFold_def)
  then show ?thesis using True by (simp add: header_values_def)
qed (simp add: header_values_def header_Del_other)

lemma header_values_append: "header_values (a @ b) name = header_values a name @ header_values b name"
  by (simp add: header_values_def)

lemma header_values_Set: "header_values (header_Set name v h) other = (if EqualFold name other then [v] else header_values h other)"
  by (simp add: header_Set_def header_values_append header_values_Del) (simp add: header_values_def)

lemma drop_identity_values:
  "Header_Values (drop_identity r) name =
     (if EqualFold ''X-SamWaf-Access-User'' name \<or> EqualFold ''X-SamWaf-Access-Session'' name then [] else Header_Values r name)"
  by (simp add: Header_Values_lines drop_identity_def header_values_Del)

lemma header_values_cookie_lines: "header_values (map (\<lambda>v. (''Cookie'', v)) vs) name = (if EqualFold ''Cookie'' name then vs else [])"
  by (induction vs) (auto simp: header_values_def)

lemma strip_other: "stripAccessCookies cfg r = (b, r1) \<Longrightarrow> \<not> EqualFold ''Cookie'' name \<Longrightarrow> Header_Values r1 name = Header_Values r name"
  by (auto simp: stripAccessCookies_def Let_def set_header_def Header_Values_lines header_values_append header_values_Del header_values_cookie_lines split: if_splits)

lemma strip_keeps: "stripAccessCookies cfg r = (b, r1) \<Longrightarrow> hr_Host r1 = hr_Host r \<and> hr_TLS r1 = hr_TLS r \<and> hr_Path r1 = hr_Path r \<and> hr_Method r1 = hr_Method r"
  by (auto simp: stripAccessCookies_def Let_def set_header_def split: if_splits)

lemma TrimSpace_set: "set (TrimSpace s) \<subseteq> set s"
proof -
  have sub: "set (trim_by len x) \<subseteq> set x" for len x using trim_by_suffix [of len x] set_mono_suffix by blast
  have "set (TrimSpace s) \<subseteq> set (trim_by space_len s)" using sub [of space_len_rev "rev (trim_by space_len s)"] by (simp add: TrimSpace_def)
  then show ?thesis using sub [of space_len s] by blast
qed

lemma StrSplit_no_sep: "x \<in> set (StrSplit c s) \<Longrightarrow> c \<notin> set x"
proof (induction c s arbitrary: x rule: StrSplit.induct)
  case (2 c y ys)
  then show ?case by (auto split: if_splits list.splits)
qed simp

lemma cookie_items_plain: "i \<in> set (cookie_items raw) \<Longrightarrow> i \<noteq> [] \<and> CHR '';'' \<notin> set i \<and> TrimSpace i = i"
  using StrSplit_no_sep TrimSpace_set by (fastforce simp: cookie_items_def)

lemma TrimSpace_blank: "TrimSpace (CHR '' '' # s) = TrimSpace s"
proof -
  have one: "space_len (32 # xs) = Suc 0" for xs
  proof (cases xs)
    case (Cons y ys)
    then show ?thesis by (cases ys) (auto simp: ascii_space_def)
  qed (simp add: ascii_space_def)
  have "trim_by space_len (CHR '' '' # s) = trim_by space_len s"
    by (subst trim_by.simps) (simp add: one)
  then show ?thesis by (simp add: TrimSpace_def)
qed

lemma StrSplit_plain: "c \<notin> set s \<Longrightarrow> StrSplit c s = [s]"
  by (induction s) auto

lemma StrSplit_blank: "StrSplit (CHR '';'') (CHR '' '' # s) = (CHR '' '' # hd (StrSplit (CHR '';'') s)) # tl (StrSplit (CHR '';'') s)"
  by (auto split: list.splits)

lemma split_join_items:
  "items \<noteq> [] \<Longrightarrow> \<forall>i \<in> set items. CHR '';'' \<notin> set i \<and> TrimSpace i = i \<Longrightarrow> map TrimSpace (StrSplit (CHR '';'') (join_items items)) = items"
proof (induction items rule: join_items.induct)
  case (2 x)
  then show ?case by (simp add: StrSplit_plain)
next
  case (3 x y ys)
  let ?s = "join_items (y # ys)"
  have ih: "map TrimSpace (StrSplit (CHR '';'') ?s) = y # ys" using 3 by simp
  have "StrSplit (CHR '';'') (x @ CHR '';'' # CHR '' '' # ?s) = [x] @ StrSplit (CHR '';'') (CHR '' '' # ?s)"
    using 3 by (simp only: StrSplit_append) (simp add: StrSplit_plain)
  moreover have "map TrimSpace (StrSplit (CHR '';'') (CHR '' '' # ?s)) = map TrimSpace (StrSplit (CHR '';'') ?s)"
    unfolding StrSplit_blank by (cases "StrSplit (CHR '';'') ?s") (simp_all add: TrimSpace_blank)
  ultimately show ?case using ih 3 by simp
qed simp

text \<open>The Cookie lines of a header hold no item of the gate.\<close>

definition cookies_clean :: "string \<Rightarrow> string list \<Rightarrow> bool" where
  "cookies_clean pre lines \<longleftrightarrow> (\<forall>line \<in> set lines. \<forall>item \<in> set (cookie_items line). \<not> gate_item pre item)"

lemma kept_lines_clean: "cookies_clean pre (kept_lines pre values)"
  unfolding cookies_clean_def
proof (intro ballI)
  fix line item assume l: "line \<in> set (kept_lines pre values)" and i: "item \<in> set (cookie_items line)"
  then obtain raw where raw: "line = join_items (filter (\<lambda>i. \<not> gate_item pre i) (cookie_items raw))" "filter (\<lambda>i. \<not> gate_item pre i) (cookie_items raw) \<noteq> []"
    by (auto simp: kept_lines_def)
  have "map TrimSpace (StrSplit (CHR '';'') line) = filter (\<lambda>i. \<not> gate_item pre i) (cookie_items raw)"
    unfolding raw(1) by (rule split_join_items [OF raw(2)]) (use cookie_items_plain in auto)
  then have "set (cookie_items line) \<subseteq> set (filter (\<lambda>i. \<not> gate_item pre i) (cookie_items raw))"
    unfolding cookie_items_def [of line] by auto
  then show "\<not> gate_item pre item" using i by auto
qed

lemma strip_clean:
  assumes "stripAccessCookies cfg r = (b, r1)" "gc_CookiePrefix cfg \<noteq> []"
  shows "cookies_clean (ToLower (gc_CookiePrefix cfg)) (Header_Values r1 ''Cookie'')"
  using assms kept_lines_clean [of "ToLower (gc_CookiePrefix cfg)" "Header_Values r ''Cookie''"]
  by (auto simp: stripAccessCookies_def Let_def set_header_def Header_Values_lines header_values_append header_values_Del header_values_cookie_lines
        cookies_clean_def list_ex_iff EqualFold_def split: if_splits)

subsection \<open>What passes the gate\<close>

lemma check_token_pass:
  assumes "check_token env zone now cfg h hostCode clientIP nonce tok r lg g = (GatePass r', lg', g')"
  obtains st where "ValidateToken (ae_hash env) zone now (gc_session cfg) tok (accessNormalizedHost r) hostCode clientIP
      (GenerateFingerprint (ae_md5 env) r) (gs_db g) = (Some st, gs_db g')"
    "r' = (if gc_PassIdentityHeader cfg then identity_headers st r else r)" "lg' = lg"
  using assms
  by (auto simp: check_token_def refuse_access_def Let_def split: prod.splits option.splits if_splits)

lemma strip_unchanged: "stripAccessCookies cfg r = (b, r1) \<Longrightarrow> \<not> b \<Longrightarrow> r1 = r"
  by (auto simp: stripAccessCookies_def Let_def split: if_splits)

text \<open>The ways to pass, with the request as it is forwarded.\<close>

lemma DoAccessGate_pass:
  assumes "DoAccessGate env zone now cfg store groups json hostCode clientIP nonce r0 lg0 g = (GatePass r', lg', g')" "\<not> gc_ForceDisable cfg"
  obtains b r1 where "stripAccessCookies cfg (drop_identity r0) = (b, r1)" "lg' = (if b then refreshWeblogCookies r1 lg0 else lg0)"
    "(r' = r1 \<and> (\<not> IsAccessEnabled (hc_Mode (ParseAccessConfig (ae_hostcfg env) json)) (gc_GlobalEnable cfg) \<or> \<not> IsCenterMode cfg \<or>
        gate_exception env cfg (ParseAccessConfig (ae_hostcfg env) json) store groups clientIP r1)) \<or>
     (\<exists>st. ValidateToken (ae_hash env) zone now (gc_session cfg) (accessCookieValue (drop_identity r0) (accessTokenCookieName env cfg (drop_identity r0)))
         (accessNormalizedHost r1) hostCode clientIP (GenerateFingerprint (ae_md5 env) r1) (gs_db g) = (Some st, gs_db g') \<and>
       r' = (if gc_PassIdentityHeader cfg then identity_headers st r1 else r1))"
proof -
  obtain b r1 where s: "stripAccessCookies cfg (drop_identity r0) = (b, r1)" by force
  note rule = that [OF s]
  show ?thesis
    by (rule rule)
       (use assms s in \<open>auto simp: DoAccessGate_def Let_def split: if_splits option.splits elim: check_token_pass\<close>)
qed

lemma drop_identity_keeps:
  "hr_Host (drop_identity r) = hr_Host r" "hr_TLS (drop_identity r) = hr_TLS r" "Header_Values (drop_identity r) ''Cookie'' = Header_Values r ''Cookie''"
  by (simp add: drop_identity_def, simp add: drop_identity_def, simp add: drop_identity_values EqualFold_def ToLower_def lower_char_def)

lemma accessCookieValue_drop: "accessCookieValue (drop_identity r) n = accessCookieValue r n"
  by (simp add: accessCookieValue_def drop_identity_keeps)

lemma accessNormalizedHost_same: "stripAccessCookies cfg (drop_identity r) = (b, r1) \<Longrightarrow> accessNormalizedHost r1 = accessNormalizedHost r"
  by (auto simp: accessNormalizedHost_def drop_identity_keeps dest!: strip_keeps)

lemma accessTokenCookieName_drop: "accessTokenCookieName env cfg (drop_identity r) = accessTokenCookieName env cfg r"
  by (simp add: accessTokenCookieName_def accessNormalizedHost_def drop_identity_keeps)

lemma GenerateFingerprint_same:
  assumes "stripAccessCookies cfg (drop_identity r) = (b, r1)"
  shows "GenerateFingerprint md5 r1 = GenerateFingerprint md5 r"
proof -
  have "Header_Values r1 name = Header_Values r name" if "name \<in> {''User-Agent'', ''Accept-Language'', ''Accept-Encoding''}" for name
    using that strip_other [OF assms, of name]
    by (auto simp: drop_identity_values EqualFold_def ToLower_def lower_char_def)
  then show ?thesis by (simp add: GenerateFingerprint_def Header_Get_def)
qed

text \<open>
  C35. The gate has no other opening. When it is switched on for a site, a request that passes is one of the configured exceptions (the
  ACME path, a path without authentication, an address of the group, a service token) or carries the cookie of a token that has a row issued for this
  very site and host, and, where the configuration binds them and the row names them, for this address and this device (the digest of the three headers that
  stand for one); the row is valid or was revoked less than a minute ago, the lifetime of a cache entry. Forged paths, headers and cookies, CORS preflights and the log-only mode open nothing.
\<close>

theorem gate_closed:
  assumes run: "access_steps (ae_hash env) zone cache_capped t0 empty_db now (gs_db g)" and cap: "ac_CachePositiveTTL (gc_session cfg) \<le> minute"
    and on: "\<not> gc_ForceDisable cfg" "IsAccessEnabled (hc_Mode (ParseAccessConfig (ae_hostcfg env) json)) (gc_GlobalEnable cfg)" "IsCenterMode cfg"
    and pass: "DoAccessGate env zone now cfg store groups json hostCode clientIP nonce r lg g = (GatePass r', lg', g')"
  shows "gate_exception env cfg (ParseAccessConfig (ae_hostcfg env) json) store groups clientIP r' \<or>
    (\<exists>row \<in> set (db_tokens (gs_db g')). to_TokenCode row = ae_hash env (accessCookieValue r (accessTokenCookieName env cfg r)) \<and>
       to_HostCode row = hostCode \<and> hostCode \<noteq> [] \<and> EqualFold (to_Host row) (accessNormalizedHost r) \<and>
       (ac_BindIP (gc_session cfg) \<and> to_ClientIP row \<noteq> [] \<longrightarrow> to_ClientIP row = clientIP) \<and>
       (ac_BindFingerprint (gc_session cfg) \<and> to_Fingerprint row \<noteq> [] \<longrightarrow> to_Fingerprint row = GenerateFingerprint (ae_md5 env) r) \<and>
       (to_Status row = AccessStatusValid \<or> now - minute \<le> to_UpdateTime row))"
proof (rule DoAccessGate_pass [OF pass on(1)])
  fix b r1
  assume s: "stripAccessCookies cfg (drop_identity r) = (b, r1)" and
    w: "(r' = r1 \<and> (\<not> IsAccessEnabled (hc_Mode (ParseAccessConfig (ae_hostcfg env) json)) (gc_GlobalEnable cfg) \<or> \<not> IsCenterMode cfg \<or>
        gate_exception env cfg (ParseAccessConfig (ae_hostcfg env) json) store groups clientIP r1)) \<or>
     (\<exists>st. ValidateToken (ae_hash env) zone now (gc_session cfg) (accessCookieValue (drop_identity r) (accessTokenCookieName env cfg (drop_identity r)))
         (accessNormalizedHost r1) hostCode clientIP (GenerateFingerprint (ae_md5 env) r1) (gs_db g) = (Some st, gs_db g') \<and>
       r' = (if gc_PassIdentityHeader cfg then identity_headers st r1 else r1))"
  show ?thesis
  proof (cases "gate_exception env cfg (ParseAccessConfig (ae_hostcfg env) json) store groups clientIP r'")
    case False
    with w on(2,3) obtain st where "ValidateToken (ae_hash env) zone now (gc_session cfg) (accessCookieValue r (accessTokenCookieName env cfg r))
         (accessNormalizedHost r) hostCode clientIP (GenerateFingerprint (ae_md5 env) r) (gs_db g) = (Some st, gs_db g')"
      unfolding accessCookieValue_drop accessTokenCookieName_drop accessNormalizedHost_same [OF s] GenerateFingerprint_same [OF s] by blast
    from accepted_token [OF run cap this] show ?thesis by blast
  qed simp
qed

text \<open>
  C36. What the gate forwards is clean. Every request that passes, by whatever way but the emergency switch, has lost all cookies of the gate; its identity headers are
  absent, or are the account and the session of the token that was just validated; every other header is untouched. If
  the log entry held the headers of the request, its cookies are clean as well.
\<close>

theorem gate_forwards_clean:
  assumes on: "\<not> gc_ForceDisable cfg" "gc_CookiePrefix cfg \<noteq> []"
    and pass: "DoAccessGate env zone now cfg store groups json hostCode clientIP nonce r lg g = (GatePass r', lg', g')"
    and logged: "al_HEADER lg = hr_Header r"
  shows "cookies_clean (ToLower (gc_CookiePrefix cfg)) (Header_Values r' ''Cookie'') \<and>
    cookies_clean (ToLower (gc_CookiePrefix cfg)) (header_values (al_HEADER lg') ''Cookie'') \<and>
    (Header_Values r' ''X-SamWaf-Access-User'' = [] \<and> Header_Values r' ''X-SamWaf-Access-Session'' = [] \<or>
     (\<exists>st fp. fst (ValidateToken (ae_hash env) zone now (gc_session cfg) (accessCookieValue r (accessTokenCookieName env cfg r)) (accessNormalizedHost r)
          hostCode clientIP fp (gs_db g)) = Some st \<and>
        Header_Values r' ''X-SamWaf-Access-User'' = [as_AccountName st] \<and> Header_Values r' ''X-SamWaf-Access-Session'' = [as_SessionCode st])) \<and>
    (\<forall>name. \<not> EqualFold ''Cookie'' name \<and> \<not> EqualFold ''X-SamWaf-Access-User'' name \<and> \<not> EqualFold ''X-SamWaf-Access-Session'' name \<longrightarrow>
       Header_Values r' name = Header_Values r name)"
proof (rule DoAccessGate_pass [OF pass on(1)])
  fix b r1
  assume s: "stripAccessCookies cfg (drop_identity r) = (b, r1)" and l: "lg' = (if b then refreshWeblogCookies r1 lg else lg)" and
    w: "(r' = r1 \<and> (\<not> IsAccessEnabled (hc_Mode (ParseAccessConfig (ae_hostcfg env) json)) (gc_GlobalEnable cfg) \<or> \<not> IsCenterMode cfg \<or>
        gate_exception env cfg (ParseAccessConfig (ae_hostcfg env) json) store groups clientIP r1)) \<or>
     (\<exists>st. ValidateToken (ae_hash env) zone now (gc_session cfg) (accessCookieValue (drop_identity r) (accessTokenCookieName env cfg (drop_identity r)))
         (accessNormalizedHost r1) hostCode clientIP (GenerateFingerprint (ae_md5 env) r1) (gs_db g) = (Some st, gs_db g') \<and>
       r' = (if gc_PassIdentityHeader cfg then identity_headers st r1 else r1))"
  let ?clean = "cookies_clean (ToLower (gc_CookiePrefix cfg))"
  have r1: "?clean (Header_Values r1 ''Cookie'')" by (rule strip_clean [OF s on(2)])
  have id: "Header_Values r1 ''X-SamWaf-Access-User'' = []" "Header_Values r1 ''X-SamWaf-Access-Session'' = []"
    by (simp_all add: strip_other [OF s] drop_identity_values EqualFold_def ToLower_def lower_char_def)
  have other: "Header_Values r1 name = Header_Values r name"
    if "\<not> EqualFold ''Cookie'' name" "\<not> EqualFold ''X-SamWaf-Access-User'' name" "\<not> EqualFold ''X-SamWaf-Access-Session'' name" for name
    using that by (simp add: strip_other [OF s] drop_identity_values)
  have log: "?clean (header_values (al_HEADER lg') ''Cookie'')"
    using l r1 logged strip_unchanged [OF s] drop_identity_keeps(3) [of r]
    by (auto simp: refreshWeblogCookies_def Header_Values_lines)
  have idh: "Header_Values (identity_headers st r1) name =
      (if EqualFold ''X-SamWaf-Access-Session'' name then [as_SessionCode st] else if EqualFold ''X-SamWaf-Access-User'' name then [as_AccountName st] else Header_Values r1 name)" for st name
    by (simp add: identity_headers_def Header_Values_lines header_values_Set)
  from w consider (plain) "r' = r1" | (named) st where "fst (ValidateToken (ae_hash env) zone now (gc_session cfg) (accessCookieValue r (accessTokenCookieName env cfg r))
         (accessNormalizedHost r) hostCode clientIP (GenerateFingerprint (ae_md5 env) r1) (gs_db g)) = Some st" "r' = identity_headers st r1"
    unfolding accessCookieValue_drop accessTokenCookieName_drop accessNormalizedHost_same [OF s] by (auto split: if_splits)
  then show ?thesis
  proof cases
    case plain
    then show ?thesis using r1 id other log by simp
  next
    case named
    have "Header_Values r' ''Cookie'' = Header_Values r1 ''Cookie''" "Header_Values r' ''X-SamWaf-Access-User'' = [as_AccountName st]"
      "Header_Values r' ''X-SamWaf-Access-Session'' = [as_SessionCode st]"
      unfolding named(2) idh by (simp_all add: EqualFold_def ToLower_def lower_char_def)
    moreover have "Header_Values r' name = Header_Values r name"
      if "\<not> EqualFold ''Cookie'' name" "\<not> EqualFold ''X-SamWaf-Access-User'' name" "\<not> EqualFold ''X-SamWaf-Access-Session'' name" for name
      using that other unfolding named(2) idh by simp
    ultimately show ?thesis using r1 log named(1) by auto
  qed
qed

subsection \<open>A visit with a token\<close>

definition demo_env :: access_env where
  "demo_env = \<lparr>ae_hash = demo_hash, ae_md5 = (\<lambda>s. s), ae_mac = (\<lambda>k s. k @ s), ae_encode = (\<lambda>s. s), ae_decode = Some, ae_marshal = ar_R, ae_unmarshal = (\<lambda>s. None),
     ae_hostcfg = (\<lambda>s c. None), ae_RequestURI = hr_Path, ae_QueryEscape = (\<lambda>s. s)\<rparr>"

definition demo_gate_cfg :: gate_config where
  "demo_gate_cfg = \<lparr>gc_ForceDisable = False, gc_GlobalEnable = True, gc_CenterOrigin = ''https://sso.com'', gc_CenterHost = ''sso.com'', gc_PathPrefix = ''/samwaf_access'',
     gc_CookieSSOName = ''samwaf_ac_sso'', gc_CookiePrefix = ''samwaf_ac'', gc_HmacSecret = ''k'', gc_session = demo_cfg, gc_RequireOtp = False, gc_MaxFailCount = 10,
     gc_LockDuration = 3 * minute, gc_GlobalExcludePaths = [''/health''], gc_BypassIPGroupCode = [], gc_ServiceTokenHeader = [], gc_ServiceTokenHashes = [],
     gc_CORS = \<lparr>cp_AllowOrigins = [], cp_AllowMethods = [], cp_AllowHeaders = [], cp_MaxAge = 0\<rparr>, gc_UnauthAction = ''auto'', gc_PassIdentityHeader = True, gc_ForceSecureCookie = False\<rparr>"

definition demo_visit_request :: http_request where
  "demo_visit_request = \<lparr>hr_Method = ''GET'', hr_Host = ''A.com'', hr_Path = ''/health/../admin'', hr_RawQuery = [], hr_TLS = True,
     hr_Header = [(''Cookie'', ''a=1; samwaf_ac_tk_ha.com=t; b=2''), (''X-SamWaf-Access-User'', ''root'')], hr_Cookies = [], hr_Query = []\<rparr>"

definition demo_access_log :: access_log where
  "demo_access_log = \<lparr>lg_SRC_IP = [], lg_NetSrcIp = [], lg_URL = [], lg_COUNTRY = [], lg_PROVINCE = [], lg_CITY = [], lg_IsBot = 0, lg_BotVerifyStrong = 0,
     lg_CONTENT_LENGTH = 0, lg_ResHeader = [], lg_STATUS_CODE = 0, lg_RES_CONTENT_LENGTH = 0, lg_TimeSpent = 0, lg_BodyFields = [], lg_BodyValues = [], lg_RISK_LEVEL = 0,
     lg_RULE = [], lg_GUEST_IDENTIFICATION = [], lg_LogOnlyMode = 0, lg_GeoUnresolved = False, al_COOKIES = [], al_HEADER = hr_Header demo_visit_request,
     al_ACTION = [], al_STATUS = [], al_TASK_FLAG = 0\<rparr>"

definition demo_gate_state :: gate_state where
  "demo_gate_state = \<lparr>gs_db = demo_db, gs_warnAt = 0, gs_queue = []\<rparr>"

definition demo_gate :: "http_request \<Rightarrow> gate_outcome \<times> access_log \<times> gate_state" where
  "demo_gate r = DoAccessGate demo_env 0 (2 * second) demo_gate_cfg (\<lambda>_. newMatchSet) None [] ''A'' ''1.1.1.1'' [] r demo_access_log demo_gate_state"

definition forwarded :: "gate_outcome \<Rightarrow> http_request option" where
  "forwarded res = (case res of GatePass r \<Rightarrow> Some r | _ \<Rightarrow> None)"

lemma demo_forwarded:
  "map_option hr_Header (forwarded (fst (demo_gate demo_visit_request))) =
     Some [(''Cookie'', ''a=1; b=2''), (''X-SamWaf-Access-User'', ''ann''), (''X-SamWaf-Access-Session'', ''hs'')]"
  by code_simp

lemma demo_gate_passes:
  obtains r lg g where "demo_gate demo_visit_request = (GatePass r, lg, g)"
    "hr_Header r = [(''Cookie'', ''a=1; b=2''), (''X-SamWaf-Access-User'', ''ann''), (''X-SamWaf-Access-Session'', ''hs'')]"
  using demo_forwarded by (cases "demo_gate demo_visit_request") (auto simp: forwarded_def split: gate_outcome.splits)

theorem gate_closed_witness:
  "\<exists>r lg g. demo_gate demo_visit_request = (GatePass r, lg, g) \<and>
     (gate_exception demo_env demo_gate_cfg host_access_default (\<lambda>_. newMatchSet) None ''1.1.1.1'' r \<or>
      (\<exists>row \<in> set (db_tokens (gs_db g)). to_TokenCode row = ''ht'' \<and> to_HostCode row = ''A'' \<and> EqualFold (to_Host row) ''a.com''))"
proof -
  obtain r lg g where p: "demo_gate demo_visit_request = (GatePass r, lg, g)" by (rule demo_gate_passes)
  have run: "access_steps (ae_hash demo_env) 0 cache_capped second empty_db (2 * second) (gs_db demo_gate_state)"
    using demo_steps by (simp add: demo_env_def demo_gate_state_def)
  have cap: "ac_CachePositiveTTL (gc_session demo_gate_cfg) \<le> minute" by (simp add: demo_gate_cfg_def demo_cfg_def)
  have on: "\<not> gc_ForceDisable demo_gate_cfg" "IsAccessEnabled (hc_Mode (ParseAccessConfig (ae_hostcfg demo_env) [])) (gc_GlobalEnable demo_gate_cfg)" "IsCenterMode demo_gate_cfg"
    by (simp_all add: demo_gate_cfg_def IsAccessEnabled_def ParseAccessConfig_def host_access_default_def IsCenterMode_def)
  have c: "accessCookieValue demo_visit_request (accessTokenCookieName demo_env demo_gate_cfg demo_visit_request) = ''t''"
    "accessNormalizedHost demo_visit_request = ''a.com''" by code_simp+
  have e: "ae_hash demo_env ''t'' = ''ht''" "ParseAccessConfig (ae_hostcfg demo_env) [] = host_access_default"
    by (simp_all add: demo_env_def demo_hash_def ParseAccessConfig_def)
  from gate_closed [OF run cap on p [unfolded demo_gate_def]] p show ?thesis unfolding c e by blast
qed

theorem gate_forwards_clean_witness:
  "\<exists>r lg g. demo_gate demo_visit_request = (GatePass r, lg, g) \<and> Header_Values r ''X-SamWaf-Access-User'' = [''ann''] \<and>
     cookies_clean ''samwaf_ac'' (Header_Values r ''Cookie'') \<and> cookies_clean ''samwaf_ac'' (header_values (al_HEADER lg) ''Cookie'')"
proof -
  obtain r lg g where p: "demo_gate demo_visit_request = (GatePass r, lg, g)"
    and h: "hr_Header r = [(''Cookie'', ''a=1; b=2''), (''X-SamWaf-Access-User'', ''ann''), (''X-SamWaf-Access-Session'', ''hs'')]"
    by (rule demo_gate_passes)
  have on: "\<not> gc_ForceDisable demo_gate_cfg" "gc_CookiePrefix demo_gate_cfg \<noteq> []" by (simp_all add: demo_gate_cfg_def)
  have lg: "al_HEADER demo_access_log = hr_Header demo_visit_request" by (simp add: demo_access_log_def)
  have pre: "ToLower (gc_CookiePrefix demo_gate_cfg) = ''samwaf_ac''" by code_simp
  have "Header_Values r ''X-SamWaf-Access-User'' = [''ann'']"
    unfolding Header_Values_lines h by (simp add: header_values_def EqualFold_def ToLower_def lower_char_def)
  with gate_forwards_clean [OF on p [unfolded demo_gate_def] lg] p show ?thesis unfolding pre by blast
qed

end
