(* ===== verification/Access_Redirect.thy ===== *)
theory Access_Redirect
  imports Access_Policy Client_Ip Go_Url
begin

text \<open>
  Where the login sends a browser back to: wafenginecore/access_redirect.go, with \<open>MaskSubdomain\<close> of common/domaintool and \<open>GetPureDomain\<close> of utils/common.go.

  A login page that returns to an address from the request is an open redirect unless the address is checked. The check parses the address, compares
  its host with the one the signed request or the ticket names and looks the host up in the routing table, of which the maps from
  host names to sites are modelled.

  The theorem says what text the check can let through: an address on the expected host.
\<close>

subsection \<open>The text of a URL\<close>

text \<open>
  \<open>shouldEscape\<close> for hosts and paths, \<open>escape\<close>, \<open>validEncoded\<close> and \<open>EscapedPath\<close> of net/url. The path a URL was parsed from is
  printed again when it is a valid encoding, otherwise the path is encoded afresh.
\<close>

definition host_escaped :: "char \<Rightarrow> bool" where
  "host_escaped c \<longleftrightarrow> \<not> host_char c \<or> 128 \<le> char_code c"

definition path_escaped :: "char \<Rightarrow> bool" where
  "path_escaped c \<longleftrightarrow> \<not> is_alnum c \<and> c \<notin> set ''-_.~$&+,/:;=@''"

definition upper_hex :: "nat \<Rightarrow> char" where
  "upper_hex d = char_of (if d < 10 then 48 + d else 55 + d)"

definition escape :: "(char \<Rightarrow> bool) \<Rightarrow> string \<Rightarrow> string" where
  "escape should s = concat (map (\<lambda>c. if should c then [CHR ''%'', upper_hex (char_code c div 16), upper_hex (char_code c mod 16)] else [c]) s)"

definition validEncoded :: "string \<Rightarrow> bool" where
  "validEncoded s = list_all (\<lambda>c. c \<in> set ''!$&()*+,;=:@[]%'' \<or> char_code c = 39 \<or> \<not> path_escaped c) s"

definition EscapedPath :: "string \<Rightarrow> string \<Rightarrow> string" where
  "EscapedPath text path = (if text = escape path_escaped path \<or> validEncoded text then text else escape path_escaped path)"

text \<open>The parts of the text of a URL beside those of \<open>Parse\<close>; the query carries its question mark.\<close>

definition url_scheme :: "string \<Rightarrow> string" where
  "url_scheme raw = (case getScheme (cut_before (CHR ''#'') raw) of Some (s, _) \<Rightarrow> ToLower s | None \<Rightarrow> [])"

definition url_rest :: "string \<Rightarrow> string" where
  "url_rest raw = (case getScheme (cut_before (CHR ''#'') raw) of Some (_, rest) \<Rightarrow> rest | None \<Rightarrow> [])"

definition url_authority :: "string \<Rightarrow> string" where
  "url_authority raw = cut_before (CHR ''/'') (drop 2 (cut_before (CHR ''?'') (url_rest raw)))"

definition url_pathtext :: "string \<Rightarrow> string" where
  "url_pathtext raw = drop (length (url_authority raw)) (drop 2 (cut_before (CHR ''?'') (url_rest raw)))"

definition url_query :: "string \<Rightarrow> string" where
  "url_query raw = drop (length (cut_before (CHR ''?'') (url_rest raw))) (url_rest raw)"

subsection \<open>The routing table\<close>

record site =
  si_Code :: string
  si_AccessJSON :: string
  si_AutoJumpHTTPS :: int

text \<open>A nil pointer in the table is \<open>Some None\<close>.\<close>

record routingTable =
  rt_HostTarget :: "string \<rightharpoonup> site option"
  rt_HostTargetNoPort :: "string \<rightharpoonup> string"
  rt_HostTargetMoreDomain :: "string \<rightharpoonup> string"

definition MaskSubdomain :: "string \<Rightarrow> string" where
  "MaskSubdomain domain =
     (let parts = StrSplit (CHR '':'') domain; host = hd parts; port = (if 1 < length parts then CHR '':'' # (parts ! 1) else []);
          subs = StrSplit (CHR ''.'') host
      in if length subs \<le> 2 then domain else StrJoin (CHR ''.'') (''*'' # tl subs) @ port)"

definition GetPureDomain :: "string \<Rightarrow> string" where
  "GetPureDomain host =
     (if CHR '':'' \<in> set host then (case SplitHostPort host of Some (h, _) \<Rightarrow> h | None \<Rightarrow> []) else host)"

definition host_candidates :: "string \<Rightarrow> string list" where
  "host_candidates host = (if CHR '':'' \<in> set host then [host] else [host @ '':443'', host @ '':80''])"

definition candidate_code :: "routingTable \<Rightarrow> string \<Rightarrow> string option" where
  "candidate_code rt c =
     (case rt_HostTarget rt c of
        Some (Some h) \<Rightarrow> Some (si_Code h)
      | _ \<Rightarrow>
          (case rt_HostTarget rt (MaskSubdomain c) of
             Some (Some h) \<Rightarrow> Some (si_Code h)
           | _ \<Rightarrow>
               (case rt_HostTargetMoreDomain rt c of
                  Some code \<Rightarrow> Some code
                | None \<Rightarrow> rt_HostTargetMoreDomain rt (MaskSubdomain c))))"

definition lookupHostCode :: "routingTable \<Rightarrow> string \<Rightarrow> string option" where
  "lookupHostCode rt hostWithPort =
     (if hostWithPort = [] then None
      else
        (let host = ToLower (TrimSpace hostWithPort);
             by_table = (case List.find (\<lambda>c. candidate_code rt c \<noteq> None) (host_candidates host) of None \<Rightarrow> None | Some c \<Rightarrow> candidate_code rt c)
         in case rt_HostTargetNoPort rt (GetPureDomain host) of
              None \<Rightarrow> by_table
            | Some key \<Rightarrow> (case rt_HostTarget rt key of Some (Some h) \<Rightarrow> Some (si_Code h) | _ \<Rightarrow> by_table)))"

definition isManagedHost :: "routingTable \<Rightarrow> string \<Rightarrow> bool" where
  "isManagedHost rt hostWithPort \<longleftrightarrow>
     hostWithPort \<noteq> [] \<and>
     (let host = ToLower (TrimSpace hostWithPort); pure = GetPureDomain host
      in (rt_HostTargetNoPort rt pure \<noteq> None \<and> pure \<noteq> ''*'') \<or>
         list_ex (\<lambda>c. rt_HostTarget rt c \<noteq> None \<or> rt_HostTarget rt (MaskSubdomain c) \<noteq> None \<or>
                      rt_HostTargetMoreDomain rt c \<noteq> None \<or> rt_HostTargetMoreDomain rt (MaskSubdomain c) \<noteq> None) (host_candidates host))"

subsection \<open>The check of a return address\<close>

definition maxReturnToLen :: nat where "maxReturnToLen = 2048"

definition validateReturnTo :: "(string \<Rightarrow> string option) \<Rightarrow> routingTable \<Rightarrow> string \<Rightarrow> string \<Rightarrow> string option" where
  "validateReturnTo lit rt raw expectHost =
     (if raw = [] \<or> expectHost = [] then None
      else if maxReturnToLen < length raw then None
      else if CHR 0x5C \<in> set raw \<or> list_ex ctl_byte raw then None
      else
        (case Parse lit raw of
           None \<Rightarrow> None
         | Some u \<Rightarrow>
             if url_scheme raw \<notin> {''http'', ''https''} then None
             else if url_Host u = [] then None
             else if CHR ''@'' \<in> set (url_authority raw) then None
             else if url_Path u \<noteq> [] \<and> \<not> HasPrefix (url_Path u) ''/'' then None
             else if \<not> EqualFold (url_Host u) expectHost then None
             else if \<not> isManagedHost rt (url_Host u) then None
             else Some (url_scheme raw @ ''://'' @ escape host_escaped (url_Host u) @
                        (if url_Path u = [] then ''/'' else EscapedPath (url_pathtext raw) (url_Path u)) @ url_query raw)))"

subsection \<open>What can be let through\<close>

lemma upper_hex_alnum: "d < 16 \<Longrightarrow> is_alnum (upper_hex d)"
  by (simp add: upper_hex_def is_alnum_def is_alpha_def is_digit_def)

lemma escape_chars: "c \<in> set (escape should s) \<Longrightarrow> c = CHR ''%'' \<or> is_alnum c \<or> (\<not> should c \<and> c \<in> set s)"
proof -
  have "char_code x div 16 < 16" for x using nat_of_char_less_256 [of x] by (simp add: less_mult_imp_div_less)
  then have "is_alnum (upper_hex (char_code x div 16)) \<and> is_alnum (upper_hex (char_code x mod 16))" for x by (simp add: upper_hex_alnum)
  then show "c \<in> set (escape should s) \<Longrightarrow> ?thesis" by (auto simp: escape_def split: if_splits)
qed

lemma alnum_cases: "is_alnum c \<Longrightarrow> c \<noteq> CHR 0x5C \<and> c \<notin> set ''/?#@'' \<and> \<not> ctl_byte c"
  by (auto simp: is_alnum_def is_alpha_def is_digit_def ctl_byte_def)

lemma escaped_host_chars:
  assumes "c \<in> set (escape host_escaped h)"
  shows "c \<noteq> CHR 0x5C \<and> c \<notin> set ''/?#@'' \<and> \<not> ctl_byte c"
  using escape_chars [OF assms] alnum_cases [of c]
  by (auto simp: host_escaped_def host_char_def ctl_byte_def)

lemma escaped_path_chars:
  assumes "c \<in> set (escape path_escaped s)"
  shows "c \<noteq> CHR 0x5C \<and> c \<noteq> CHR ''#'' \<and> \<not> ctl_byte c"
  using escape_chars [OF assms] alnum_cases [of c]
  by (auto simp: path_escaped_def ctl_byte_def)

lemma url_rest_chars: "c \<in> set (url_rest raw) \<Longrightarrow> c \<in> set raw \<and> c \<noteq> CHR ''#''"
proof -
  assume c: "c \<in> set (url_rest raw)"
  have "set (tl xs) \<subseteq> set xs" for xs :: string by (cases xs) auto
  then have "set (url_rest raw) \<subseteq> set (cut_before (CHR ''#'') raw)"
    by (fastforce simp: url_rest_def getScheme_def Let_def dest: set_dropWhileD split: option.splits if_splits)
  with c show ?thesis by (auto simp: cut_before_def dest: set_takeWhileD)
qed

lemma url_part_chars: "c \<in> set (url_pathtext raw) \<Longrightarrow> c \<in> set (url_rest raw)" "c \<in> set (url_query raw) \<Longrightarrow> c \<in> set (url_rest raw)"
  by (auto simp: url_pathtext_def url_query_def cut_before_def dest!: in_set_dropD set_takeWhileD)

lemma url_pathtext_slash: "url_pathtext raw = [] \<or> (\<exists>p. url_pathtext raw = CHR ''/'' # p)"
proof -
  have "drop (length (takeWhile (\<lambda>x. x \<noteq> c) s)) s = dropWhile (\<lambda>x. x \<noteq> c) s" for c and s :: string
    by (metis append_eq_conv_conj takeWhile_dropWhile_id)
  then have "url_pathtext raw = dropWhile (\<lambda>x. x \<noteq> CHR ''/'') (drop 2 (cut_before (CHR ''?'') (url_rest raw)))"
    by (simp only: url_pathtext_def url_authority_def cut_before_def)
  moreover have "dropWhile (\<lambda>x. x \<noteq> c) s = [] \<or> (\<exists>p. dropWhile (\<lambda>x. x \<noteq> c) s = c # p)" for c and s :: string
    by (induction s) auto
  ultimately show ?thesis by simp
qed

text \<open>The text that \<open>Parse\<close> makes the path from.\<close>

lemma Parse_path:
  assumes "Parse lit raw = Some u" "url_scheme raw \<noteq> []" "url_Host u \<noteq> []"
  shows "unescape False (url_pathtext raw) = Some (url_Path u)"
proof -
  obtain s rest where g: "getScheme (cut_before (CHR ''#'') raw) = Some (s, rest)" and s: "s \<noteq> []"
    using assms(2) by (auto simp: url_scheme_def ToLower_def split: option.splits)
  have r: "url_rest raw = rest" using g by (simp add: url_rest_def)
  have "cut_before (CHR ''#'') raw \<noteq> ''*''" using g s by (auto simp: getScheme_def scheme_char_def is_alnum_def is_alpha_def is_digit_def)
  then show ?thesis
    using assms(1,3) g s unfolding Parse_def parse_url_def parse_hier_def url_pathtext_def url_authority_def r Let_def
    by (auto split: option.splits if_splits)
qed

lemma unescape_slash: "unescape False (CHR ''/'' # p) = Some q \<Longrightarrow> \<exists>q'. q = CHR ''/'' # q'"
  by (auto split: option.splits)

text \<open>
  C37. The login can only send a browser back to the host it came from. When an address passes the check, the text that is sent is made of the scheme http or https,
  the expected host (up to the case of letters), and a path; the host is one of the routing table. Its text has none of the characters that end or
  move the authority of an address, and no control character, backslash or fragment appears anywhere, so a browser cannot read another host out of it.
\<close>

theorem return_to_safe:
  assumes "validateReturnTo lit rt raw expectHost = Some target"
  shows "\<exists>scheme host path. (scheme = ''http'' \<or> scheme = ''https'') \<and> EqualFold host expectHost \<and> isManagedHost rt host \<and>
     target = scheme @ ''://'' @ escape host_escaped host @ CHR ''/'' # path \<and>
     (\<forall>c \<in> set (escape host_escaped host). c \<notin> set ''/?#@'') \<and>
     (\<forall>c \<in> set target. c \<noteq> CHR 0x5C \<and> c \<noteq> CHR ''#'' \<and> \<not> ctl_byte c)"
proof -
  obtain u where u: "Parse lit raw = Some u" and s: "url_scheme raw = ''http'' \<or> url_scheme raw = ''https''" and h: "url_Host u \<noteq> []"
    and p: "url_Path u = [] \<or> HasPrefix (url_Path u) ''/''" and e: "EqualFold (url_Host u) expectHost" "isManagedHost rt (url_Host u)"
    and clean: "CHR 0x5C \<notin> set raw" "\<not> list_ex ctl_byte raw"
    and t: "target = url_scheme raw @ ''://'' @ escape host_escaped (url_Host u) @
       (if url_Path u = [] then ''/'' else EscapedPath (url_pathtext raw) (url_Path u)) @ url_query raw"
    using assms by (auto simp: validateReturnTo_def split: if_splits option.splits)
  let ?path = "if url_Path u = [] then ''/'' else EscapedPath (url_pathtext raw) (url_Path u)"
  have parsed: "unescape False (url_pathtext raw) = Some (url_Path u)" using Parse_path [OF u _ h] s by auto
  have "\<exists>q. ?path = CHR ''/'' # q"
  proof (cases "url_Path u")
    case (Cons a rest)
    then obtain q where q: "url_pathtext raw = CHR ''/'' # q" using url_pathtext_slash [of raw] parsed by auto
    then have "a = CHR ''/''" using unescape_slash [of q "url_Path u"] parsed Cons by simp
    then show ?thesis using q Cons by (auto simp: EscapedPath_def escape_def path_escaped_def)
  qed simp
  then obtain q where q: "?path = CHR ''/'' # q" by blast
  have raw: "c \<noteq> CHR 0x5C \<and> c \<noteq> CHR ''#'' \<and> \<not> ctl_byte c" if "c \<in> set (url_rest raw)" for c
    using url_rest_chars [OF that] clean by (auto simp: list_ex_iff)
  have path: "c \<noteq> CHR 0x5C \<and> c \<noteq> CHR ''#'' \<and> \<not> ctl_byte c" if "c \<in> set ?path" for c
  proof (cases "url_Path u = []")
    case False
    then have "c \<in> set (url_pathtext raw) \<or> c \<in> set (escape path_escaped (url_Path u))" using that by (auto simp: EscapedPath_def split: if_splits)
    then show ?thesis using raw url_part_chars(1) escaped_path_chars by blast
  qed (use that in \<open>simp add: ctl_byte_def\<close>)
  have "\<forall>c \<in> set (url_scheme raw) \<union> set ''://''. c \<noteq> CHR 0x5C \<and> c \<noteq> CHR ''#'' \<and> \<not> ctl_byte c"
    using s by (auto simp: ctl_byte_def)
  then have "\<forall>c \<in> set target. c \<noteq> CHR 0x5C \<and> c \<noteq> CHR ''#'' \<and> \<not> ctl_byte c"
    unfolding t set_append ball_Un using path raw url_part_chars(2) [of _ raw] escaped_host_chars [of _ "url_Host u"] by auto
  moreover have "target = url_scheme raw @ ''://'' @ escape host_escaped (url_Host u) @ CHR ''/'' # (q @ url_query raw)" unfolding t q by simp
  moreover have "\<forall>c \<in> set (escape host_escaped (url_Host u)). c \<notin> set ''/?#@''" using escaped_host_chars by blast
  ultimately show ?thesis using s e by (intro exI [of _ "url_scheme raw"] exI [of _ "url_Host u"] exI [of _ "q @ url_query raw"]) simp
qed

definition demo_routing :: routingTable where
  "demo_routing = \<lparr>rt_HostTarget = [''a.com:443'' \<mapsto> Some \<lparr>si_Code = ''A'', si_AccessJSON = [], si_AutoJumpHTTPS = 0\<rparr>],
     rt_HostTargetNoPort = (\<lambda>_. None), rt_HostTargetMoreDomain = (\<lambda>_. None)\<rparr>"

theorem return_to_safe_witness:
  "\<exists>path. validateReturnTo (\<lambda>_. None) demo_routing ''https://A.com/x?y=1#z'' ''a.com'' = Some (''https://A.com/'' @ path) \<and>
     (\<forall>c \<in> set path. c \<noteq> CHR 0x5C \<and> c \<noteq> CHR ''#'' \<and> \<not> ctl_byte c)"
proof -
  have v: "validateReturnTo (\<lambda>_. None) demo_routing ''https://A.com/x?y=1#z'' ''a.com'' = Some ''https://A.com/x?y=1''" by code_simp
  from return_to_safe [OF v] show ?thesis unfolding v by (intro exI [of _ "''x?y=1''"]) (auto simp: ctl_byte_def)
qed

end
