(* ===== verification/Access_Login.thy ===== *)
theory Access_Login
  imports Access_Account Access_Gate Access_Redirect
begin

text \<open>
  The self-service endpoints of the unified access authentication, wafenginecore/access_login.go and the handlers of access_ticket.go: the login with its
  second step, the lock after failed attempts, the exchange of a login for a ticket and of a ticket for a token, logout and status.

  The state is \<open>access_world\<close>: the accounts, and the cache and tables of the sessions. Whatever a handler draws at random is an argument
  (\<open>draws\<close>), as are the decoded request body, the routing table and the site of the request. An answer is its kind and the cookies it sets; the
  pages, the texts of messages and the audit rows are not modelled.

  The theorems: in every state the handlers, the gate and the administration can reach together, a token whose session is valid belongs to an
  account that is enabled and may enter the token's site; and what the lock after failed logins really counts.
\<close>

subsection \<open>Data\<close>

definition CACHE_ACCESS_FAIL :: string where "CACHE_ACCESS_FAIL = ''CACHE_ACCESS_FAIL_''"
definition CACHE_ACCESS_LOCK :: string where "CACHE_ACCESS_LOCK = ''CACHE_ACCESS_LOCK_''"
definition CACHE_ACCESS_STAGE :: string where "CACHE_ACCESS_STAGE = ''CACHE_ACCESS_STAGE_''"
definition CACHE_ACCESS_OTPFAIL :: string where "CACHE_ACCESS_OTPFAIL = ''CACHE_ACCESS_OTPFAIL_''"

definition otpStageTTL :: int where "otpStageTTL = 5 * minute"

record accessLoginReq =
  lr_Username :: string
  lr_Password :: string
  lr_Rq :: string

record accessOtpReq =
  or_Stage :: string
  or_Code :: string

text \<open>The cookies of the gate always have the path /, HttpOnly and SameSite=Lax; \<open>MaxAge\<close> -1 deletes.\<close>

record access_cookie =
  ck_Name :: string
  ck_Value :: string
  ck_MaxAge :: int
  ck_Secure :: bool

datatype access_answer =
    LoginPage string
  | RedirectTo string
  | NotFound
  | NoContent
  | Unavailable
  | BadFormat
  | LockedIP int
  | LockedAccount int
  | LoginFailed account_error int
  | NeedCode string
  | StageGone
  | StageMoved
  | OtpLocked
  | OtpWrongCode
  | NoLongerUsable account_error
  | LoginDone string
  | NotAllowed
  | LoggedOut
  | SessionStatus "(string \<times> int) option"

definition answer_status :: "access_answer \<Rightarrow> int" where
  "answer_status a =
     (case a of LoginPage _ \<Rightarrow> 200 | RedirectTo _ \<Rightarrow> 302 | NotFound \<Rightarrow> 404 | NoContent \<Rightarrow> 204 | Unavailable \<Rightarrow> 500 | BadFormat \<Rightarrow> 400
      | LockedIP _ \<Rightarrow> 429 | LockedAccount _ \<Rightarrow> 429 | LoginFailed _ _ \<Rightarrow> 401 | NeedCode _ \<Rightarrow> 200 | StageGone \<Rightarrow> 401 | StageMoved \<Rightarrow> 400
      | OtpLocked \<Rightarrow> 429 | OtpWrongCode \<Rightarrow> 401 | NoLongerUsable _ \<Rightarrow> 403 | LoginDone _ \<Rightarrow> 200 | NotAllowed \<Rightarrow> 403 | LoggedOut \<Rightarrow> 200 | SessionStatus _ \<Rightarrow> 200)"

record draws =
  dr_session :: "string option"
  dr_sessionId :: string
  dr_stage :: string
  dr_ticket :: "string option"
  dr_token :: "string option"
  dr_nonce :: string

text \<open>The decoders of the two request bodies take the limit on the size; \<open>lx_hosts\<close> is the table of sites by code, \<open>lx_lit\<close> the address literals of net/url.\<close>

record login_env =
  lx_access :: access_env
  lx_account :: account_env
  lx_login :: "nat \<Rightarrow> string \<Rightarrow> accessLoginReq option"
  lx_otp :: "nat \<Rightarrow> string \<Rightarrow> accessOtpReq option"
  lx_lit :: "string \<Rightarrow> string option"
  lx_hosts :: "string \<rightharpoonup> site"
  lx_routing :: routingTable

type_synonym answer = "access_answer \<times> access_cookie list"

subsection \<open>The lock after failed logins\<close>

definition accessFailKeys :: "string \<Rightarrow> string \<Rightarrow> string list" where
  "accessFailKeys clientIP username =
     (''ip:'' @ clientIP) # (if TrimSpace username \<noteq> [] then [''user:'' @ ToLower (TrimSpace username)] else [])"

text \<open>\<open>int(d.Minutes())\<close>, rounded towards zero.\<close>

definition whole_minutes :: "int \<Rightarrow> int" where
  "whole_minutes d = (if d < 0 then - ((- d) div minute) else d div minute)"

definition accessCheckLock :: "int \<Rightarrow> gate_config \<Rightarrow> string \<Rightarrow> string \<Rightarrow> access_rec WafCache \<Rightarrow> access_answer option \<times> access_rec WafCache" where
  "accessCheckLock now cfg clientIP username c =
     (case IsKeyExist now c (CACHE_ACCESS_LOCK @ ''ip:'' @ clientIP) of
        (True, c1) \<Rightarrow> (Some (LockedIP (whole_minutes (gc_LockDuration cfg))), c1)
      | (False, c1) \<Rightarrow>
          if username = [] then (None, c1)
          else (case IsKeyExist now c1 (CACHE_ACCESS_LOCK @ ''user:'' @ ToLower username) of
                  (True, c2) \<Rightarrow> (Some (LockedAccount (whole_minutes (gc_LockDuration cfg))), c2)
                | (False, c2) \<Rightarrow> (None, c2)))"

definition record_key :: "int \<Rightarrow> gate_config \<Rightarrow> string \<Rightarrow> int \<times> access_rec WafCache \<Rightarrow> int \<times> access_rec WafCache" where
  "record_key now cfg key rc =
     (case rc of (remain, c) \<Rightarrow>
        case GetInt now c (CACHE_ACCESS_FAIL @ key) of
          ((cnt0, _), c1) \<Rightarrow>
            let cnt = cnt0 + 1
            in if gc_MaxFailCount cfg \<le> cnt
               then (0, wc_Remove (SetWithTTl now c1 (CACHE_ACCESS_LOCK @ key) (CStr ''1'') (gc_LockDuration cfg)) (CACHE_ACCESS_FAIL @ key))
               else (let r = gc_MaxFailCount cfg - cnt in if r < remain then r else remain,
                     SetWithTTl now c1 (CACHE_ACCESS_FAIL @ key) (CInt cnt) (gc_LockDuration cfg)))"

definition accessRecordFail :: "int \<Rightarrow> gate_config \<Rightarrow> string \<Rightarrow> string \<Rightarrow> access_rec WafCache \<Rightarrow> int \<times> access_rec WafCache" where
  "accessRecordFail now cfg clientIP username c =
     (case fold (record_key now cfg) (accessFailKeys clientIP username) (gc_MaxFailCount cfg, c) of
        (remain, c') \<Rightarrow> (if remain < 0 then 0 else remain, c'))"

definition accessRecordOtpFail :: "int \<Rightarrow> gate_config \<Rightarrow> string \<Rightarrow> access_rec WafCache \<Rightarrow> access_rec WafCache" where
  "accessRecordOtpFail now cfg accountId c =
     (case GetInt now c (CACHE_ACCESS_OTPFAIL @ accountId) of
        ((cnt, _), c1) \<Rightarrow> SetWithTTl now c1 (CACHE_ACCESS_OTPFAIL @ accountId) (CInt (cnt + 1)) (gc_LockDuration cfg))"

definition accessClearFail :: "string \<Rightarrow> string \<Rightarrow> access_rec WafCache \<Rightarrow> access_rec WafCache" where
  "accessClearFail clientIP username c = fold (\<lambda>key c. wc_Remove c (CACHE_ACCESS_FAIL @ key)) (accessFailKeys clientIP username) c"

definition with_cache :: "access_rec WafCache \<Rightarrow> access_world \<Rightarrow> access_world" where
  "with_cache c w = w\<lparr>aw_db := (aw_db w)\<lparr>db_cache := c\<rparr>\<rparr>"

definition aw_cache :: "access_world \<Rightarrow> access_rec WafCache" where "aw_cache w = db_cache (aw_db w)"

subsection \<open>Cookies and signed requests (access_ticket.go)\<close>

definition buildAccessCookie :: "string \<Rightarrow> string \<Rightarrow> int \<Rightarrow> bool \<Rightarrow> access_cookie" where
  "buildAccessCookie name val maxAge secure = \<lparr>ck_Name = name, ck_Value = val, ck_MaxAge = maxAge, ck_Secure = secure\<rparr>"

definition clearAccessCookie :: "string \<Rightarrow> bool \<Rightarrow> access_cookie" where
  "clearAccessCookie name secure = \<lparr>ck_Name = name, ck_Value = [], ck_MaxAge = -1, ck_Secure = secure\<rparr>"

definition accessCookieSecure :: "gate_config \<Rightarrow> site \<Rightarrow> http_request \<Rightarrow> bool" where
  "accessCookieSecure cfg target r = (if gc_ForceSecureCookie cfg then True else if hr_TLS r then True else si_AutoJumpHTTPS target = 1)"

definition verifyAuthReq :: "access_env \<Rightarrow> int \<Rightarrow> string \<Rightarrow> string \<Rightarrow> accessAuthReq option" where
  "verifyAuthReq env now secret rq =
     (if secret = [] \<or> rq = [] then None
      else
        (let sig_text = from_last (CHR ''.'') rq; head = before_last (CHR ''.'') rq
         in if CHR ''.'' \<notin> set rq \<or> head = [] \<or> tl sig_text = [] then None
            else (case (ae_decode env head, ae_decode env (tl sig_text)) of
                    (Some payload, Some signature) \<Rightarrow>
                      if signature \<noteq> ae_mac env secret payload then None
                      else (case ae_unmarshal env payload of
                              None \<Rightarrow> None
                            | Some out \<Rightarrow> if 0 < ar_E out \<and> ar_E out < now div second then None else Some out)
                  | _ \<Rightarrow> None)))"

definition accessSchemeOf :: "(string \<Rightarrow> string option) \<Rightarrow> string \<Rightarrow> string" where
  "accessSchemeOf lit rawURL = (if Parse lit rawURL \<noteq> None \<and> url_scheme rawURL \<noteq> [] then url_scheme rawURL else ''https'')"

definition accessOnCenter :: "gate_config \<Rightarrow> http_request \<Rightarrow> bool" where
  "accessOnCenter cfg r \<longleftrightarrow> IsCenterMode cfg \<and> EqualFold (hr_Host r) (gc_CenterHost cfg)"

definition accessTargetHostOtpMode :: "login_env \<Rightarrow> int \<Rightarrow> gate_config \<Rightarrow> string \<Rightarrow> int \<Rightarrow> int" where
  "accessTargetHostOtpMode env now cfg rq fallback =
     (case verifyAuthReq (lx_access env) now (gc_HmacSecret cfg) rq of
        None \<Rightarrow> fallback
      | Some payload \<Rightarrow>
          if ar_H payload = [] then fallback
          else (case lookupHostCode (lx_routing env) (ar_H payload) of
                  None \<Rightarrow> fallback
                | Some code \<Rightarrow>
                    if code = [] then fallback
                    else (case lx_hosts env code of
                            None \<Rightarrow> fallback
                          | Some host \<Rightarrow> if si_Code host = [] then fallback
                                         else hc_RequireOtp (ParseAccessConfig (ae_hostcfg (lx_access env)) (si_AccessJSON host)))))"

subsection \<open>Login\<close>

definition accessCurrentSSOSession ::
  "login_env \<Rightarrow> int \<Rightarrow> int \<Rightarrow> gate_config \<Rightarrow> string \<Rightarrow> string \<Rightarrow> http_request \<Rightarrow> access_db \<Rightarrow> AccessSession option \<times> access_db" where
  "accessCurrentSSOSession env zone now cfg clientIP fingerprint r db =
     (let ck = accessCookieValue r (gc_CookieSSOName cfg)
      in if ck = [] then (None, db)
         else ValidateSSOSession (ae_hash (lx_access env)) zone now (gc_session cfg) ck (accessNormalizedHost r) clientIP fingerprint db)"

definition accessFinishLogin ::
  "login_env \<Rightarrow> int \<Rightarrow> gate_config \<Rightarrow> draws \<Rightarrow> site \<Rightarrow> AccessAccount \<Rightarrow> string \<Rightarrow> string \<Rightarrow> http_request \<Rightarrow> access_world \<Rightarrow> answer \<times> access_world" where
  "accessFinishLogin env now cfg dr target acct clientIP rq r w =
     (case CreateSession (ae_hash (lx_access env)) now (gc_session cfg) (dr_session dr) (dr_sessionId dr) (aa_Id acct, aa_AccountName acct) ''sso'' []
             clientIP (GenerateFingerprint (ae_md5 (lx_access env)) r) (Header_Get r ''User-Agent'') (aw_db w) of
        (None, db) \<Rightarrow> ((Unavailable, []), w\<lparr>aw_db := db\<rparr>)
      | (Some (plainSess, _), db) \<Rightarrow>
          (let w1 = w\<lparr>aw_db := db\<rparr>;
               w2 = with_cache (accessClearFail clientIP (aa_AccountName acct) (aw_cache w1)) w1;
               w3 = MarkLogin now (aa_Id acct) clientIP w2;
               redirect = gc_PathPrefix cfg @ ''/authorize'' @ (if rq = [] then [] else ''?rq='' @ ae_QueryEscape (lx_access env) rq)
           in ((LoginDone redirect,
                [buildAccessCookie (gc_CookieSSOName cfg) plainSess (ac_SessionTTL (gc_session cfg) div second) (accessCookieSecure cfg target r)]), w3)))"

definition accessHandleValidate ::
  "login_env \<Rightarrow> int \<Rightarrow> gate_config \<Rightarrow> HostAccessConfig \<Rightarrow> draws \<Rightarrow> site \<Rightarrow> string \<Rightarrow> string \<Rightarrow> http_request \<Rightarrow> access_world \<Rightarrow> answer \<times> access_world" where
  "accessHandleValidate env now cfg hostCfg dr target clientIP body r w =
     (case lx_login env (8 * 1024) body of
        None \<Rightarrow> ((BadFormat, []), w)
      | Some req \<Rightarrow>
          (let username = TrimSpace (lr_Username req)
           in case accessCheckLock now cfg clientIP username (aw_cache w) of
                (Some locked, c) \<Rightarrow> ((locked, []), with_cache c w)
              | (None, c) \<Rightarrow>
                  (let w1 = with_cache c w
                   in case VerifyCredential (lx_account env) now username (lr_Password req) (aw_accounts w1) of
                        Inl err \<Rightarrow>
                          (case accessRecordFail now cfg clientIP username (aw_cache w1) of
                             (remain, c2) \<Rightarrow> ((LoginFailed err remain, []), with_cache c2 w1))
                      | Inr acct \<Rightarrow>
                          if NeedOtp acct (accessTargetHostOtpMode env now cfg (lr_Rq req) (hc_RequireOtp hostCfg)) (gc_RequireOtp cfg)
                          then ((NeedCode (dr_stage dr), []),
                                with_cache
                                  (accessClearFail clientIP username
                                    (SetWithTTl now (aw_cache w1) (CACHE_ACCESS_STAGE @ dr_stage dr)
                                      (CRec (RStage \<lparr>os_AccountId = aa_Id acct, os_Rq = lr_Rq req, os_BindHost = hr_Host r\<rparr>)) otpStageTTL)) w1)
                          else accessFinishLogin env now cfg dr target acct clientIP (lr_Rq req) r w1)))"

definition json_stage :: "access_rec cval \<Rightarrow> otpStage option" where
  "json_stage v = (case v of CRec (RStage s) \<Rightarrow> Some s | _ \<Rightarrow> None)"

definition accessHandleOtp ::
  "login_env \<Rightarrow> int \<Rightarrow> gate_config \<Rightarrow> draws \<Rightarrow> site \<Rightarrow> string \<Rightarrow> string \<Rightarrow> http_request \<Rightarrow> access_world \<Rightarrow> answer \<times> access_world" where
  "accessHandleOtp env now cfg dr target clientIP body r w =
     (case lx_otp env (4 * 1024) body of
        None \<Rightarrow> ((BadFormat, []), w)
      | Some req \<Rightarrow>
          (let stageKey = CACHE_ACCESS_STAGE @ or_Stage req
           in case GetAs json_stage now (aw_cache w) stageKey of
                (Inl _, c) \<Rightarrow> ((StageGone, []), with_cache c w)
              | (Inr stage, c) \<Rightarrow>
                  if os_AccountId stage = [] then ((StageGone, []), with_cache c w)
                  else if \<not> EqualFold (os_BindHost stage) (hr_Host r) then ((StageMoved, []), with_cache (wc_Remove c stageKey) w)
                  else
                    (let failKey = CACHE_ACCESS_OTPFAIL @ os_AccountId stage
                     in case GetInt now c failKey of
                          ((cnt, _), c1) \<Rightarrow>
                            if gc_MaxFailCount cfg \<le> cnt then ((OtpLocked, []), with_cache (wc_Remove c1 stageKey) w)
                            else
                              (case acc_GetDetailApi (os_AccountId stage) w of
                                 Inl _ \<Rightarrow> ((OtpWrongCode, []), with_cache (accessRecordOtpFail now cfg (os_AccountId stage) c1) w)
                               | Inr acct \<Rightarrow>
                                   if \<not> VerifyOtp (lx_account env) acct (or_Code req)
                                   then ((OtpWrongCode, []), with_cache (accessRecordOtpFail now cfg (os_AccountId stage) c1) w)
                                   else
                                     (let w1 = with_cache (wc_Remove (wc_Remove c1 stageKey) failKey) w
                                      in case CheckStillUsable now (aa_Id acct) (aw_accounts w1) of
                                           Inl err \<Rightarrow> ((NoLongerUsable err, []), w1)
                                         | Inr fresh \<Rightarrow> accessFinishLogin env now cfg dr target fresh clientIP (os_Rq stage) r w1)))))"

subsection \<open>Tickets and tokens\<close>

text \<open>\<open>None\<close>: the session may enter the site.\<close>

definition accessAuthorizeForHost ::
  "login_env \<Rightarrow> int \<Rightarrow> AccessSession \<Rightarrow> string \<Rightarrow> string \<Rightarrow> access_world \<Rightarrow> access_answer option \<times> access_world" where
  "accessAuthorizeForHost env now sess targetHost knownHostCode w =
     (case CheckStillUsable now (se_AccountCode sess) (aw_accounts w) of
        Inl _ \<Rightarrow> (Some (LoginPage []), w\<lparr>aw_db := snd (RevokeSession now (se_SessionCode sess) ''account_off'' (aw_db w))\<rparr>)
      | Inr acct \<Rightarrow>
          (let hostCode = (if knownHostCode \<noteq> [] then knownHostCode
                           else (case lookupHostCode (lx_routing env) targetHost of None \<Rightarrow> [] | Some code \<Rightarrow> code))
           in if hostCode = [] \<or> \<not> IsHostAllowed acct hostCode then (Some NotAllowed, w) else (None, w)))"

definition accessHandleAuthorize ::
  "login_env \<Rightarrow> int \<Rightarrow> int \<Rightarrow> gate_config \<Rightarrow> draws \<Rightarrow> string \<Rightarrow> http_request \<Rightarrow> access_world \<Rightarrow> answer \<times> access_world" where
  "accessHandleAuthorize env zone now cfg dr clientIP r w =
     (if \<not> IsCenterMode cfg \<or> \<not> EqualFold (hr_Host r) (gc_CenterHost cfg) then ((NotFound, []), w)
      else
        (let rq = Query_Get r ''rq''
         in case verifyAuthReq (lx_access env) now (gc_HmacSecret cfg) rq of
              None \<Rightarrow> ((LoginPage [], []), w)
            | Some payload \<Rightarrow>
                (case validateReturnTo (lx_lit env) (lx_routing env) (ar_R payload) (ar_H payload) of
                   None \<Rightarrow> ((LoginPage [], []), w)
                 | Some returnTo \<Rightarrow>
                     (let fingerprint = GenerateFingerprint (ae_md5 (lx_access env)) r
                      in case accessCurrentSSOSession env zone now cfg clientIP fingerprint r (aw_db w) of
                           (None, db) \<Rightarrow> ((LoginPage rq, []), w\<lparr>aw_db := db\<rparr>)
                         | (Some sess, db) \<Rightarrow>
                             (case accessAuthorizeForHost env now sess (ar_H payload) [] (w\<lparr>aw_db := db\<rparr>) of
                                (Some refused, w1) \<Rightarrow> ((refused, []), w1)
                              | (None, w1) \<Rightarrow>
                                  (case IssueTicket (ae_hash (lx_access env)) now (gc_session cfg) (dr_ticket dr) sess (ar_H payload) returnTo clientIP fingerprint (aw_db w1) of
                                     (None, db2) \<Rightarrow> ((Unavailable, []), w1\<lparr>aw_db := db2\<rparr>)
                                   | (Some ticket, db2) \<Rightarrow>
                                       ((RedirectTo (accessSchemeOf (lx_lit env) returnTo @ ''://'' @ ar_H payload @ gc_PathPrefix cfg @ ''/callback?tk='' @
                                           ae_QueryEscape (lx_access env) ticket), []), w1\<lparr>aw_db := db2\<rparr>)))))))"

definition accessIssueTokenCookie ::
  "login_env \<Rightarrow> int \<Rightarrow> gate_config \<Rightarrow> draws \<Rightarrow> site \<Rightarrow> AccessSession \<Rightarrow> string \<Rightarrow> string \<Rightarrow> http_request \<Rightarrow> access_db
     \<Rightarrow> access_cookie list option \<times> access_db" where
  "accessIssueTokenCookie env now cfg dr target sess clientIP fingerprint r db =
     (case IssueToken (ae_hash (lx_access env)) now (gc_session cfg) (dr_token dr) sess (accessNormalizedHost r) (si_Code target) clientIP fingerprint db of
        (None, db1) \<Rightarrow> (None, db1)
      | (Some plain, db1) \<Rightarrow>
          (let secure = accessCookieSecure cfg target r
           in (Some [buildAccessCookie (accessTokenCookieName (lx_access env) cfg r) plain (ac_TokenTTL (gc_session cfg) div second) secure,
                     clearAccessCookie (LegacyTokenCookieName (gc_CookiePrefix cfg)) secure], db1)))"

definition accessHandleCallback ::
  "login_env \<Rightarrow> int \<Rightarrow> gate_config \<Rightarrow> draws \<Rightarrow> site \<Rightarrow> string \<Rightarrow> http_request \<Rightarrow> access_world \<Rightarrow> answer \<times> access_world" where
  "accessHandleCallback env now cfg dr target clientIP r w =
     (let fingerprint = GenerateFingerprint (ae_md5 (lx_access env)) r;
          again = (RedirectTo (buildAccessEntryURL (lx_access env) now cfg (dr_nonce dr) r), [])
      in case ConsumeTicket (ae_hash (lx_access env)) now (gc_session cfg) (Query_Get r ''tk'') (hr_Host r) clientIP fingerprint (aw_db w) of
           (Inl _, db) \<Rightarrow> (again, w\<lparr>aw_db := db\<rparr>)
         | (Inr ticket, db) \<Rightarrow>
             (case LoadSessionByCode now (ti_SessionCode ticket) db of
                None \<Rightarrow> (again, w\<lparr>aw_db := db\<rparr>)
              | Some sess \<Rightarrow>
                  (case accessAuthorizeForHost env now sess (hr_Host r) (si_Code target) (w\<lparr>aw_db := db\<rparr>) of
                     (Some refused, w1) \<Rightarrow> ((refused, []), w1)
                   | (None, w1) \<Rightarrow>
                       (case accessIssueTokenCookie env now cfg dr target sess clientIP fingerprint r (aw_db w1) of
                          (None, db2) \<Rightarrow> ((Unavailable, []), w1\<lparr>aw_db := db2\<rparr>)
                        | (Some cookies, db2) \<Rightarrow>
                            ((RedirectTo (case validateReturnTo (lx_lit env) (lx_routing env) (ti_ReturnTo ticket) (hr_Host r) of None \<Rightarrow> ''/'' | Some t \<Rightarrow> t), cookies),
                             w1\<lparr>aw_db := db2\<rparr>)))))"

subsection \<open>Logout, status and the dispatcher\<close>

definition accessHandleLogout :: "login_env \<Rightarrow> int \<Rightarrow> gate_config \<Rightarrow> site \<Rightarrow> http_request \<Rightarrow> access_db \<Rightarrow> answer \<times> access_db" where
  "accessHandleLogout env now cfg target r db =
     (let secure = accessCookieSecure cfg target r; hash = ae_hash (lx_access env);
          everywhere = (Query_Get r ''all'' = ''1'' \<and> hr_Method r = ''POST'');
          sso = accessCookieValue r (gc_CookieSSOName cfg); tokenName = accessTokenCookieName (lx_access env) cfg r; token = accessCookieValue r tokenName;
          db1 = (if sso \<noteq> [] \<and> everywhere then snd (RevokeSession now (hash sso) ''logout'' db) else db);
          db2 = (if token \<noteq> [] then RevokeToken hash now token db1 else db1);
          cookies = (if sso \<noteq> [] then [clearAccessCookie (gc_CookieSSOName cfg) secure] else []) @
                    (if token \<noteq> [] then [clearAccessCookie tokenName secure] else []) @
                    [clearAccessCookie (LegacyTokenCookieName (gc_CookiePrefix cfg)) secure]
      in ((if StrContains (ToLower (Header_Get r ''Accept'')) ''text/html'' then RedirectTo (gc_PathPrefix cfg @ ''/login'') else LoggedOut, cookies), db2))"

definition accessHandleStatus ::
  "login_env \<Rightarrow> int \<Rightarrow> int \<Rightarrow> gate_config \<Rightarrow> site \<Rightarrow> string \<Rightarrow> http_request \<Rightarrow> access_db \<Rightarrow> answer \<times> access_db" where
  "accessHandleStatus env zone now cfg target clientIP r db =
     (let token = accessCookieValue r (accessTokenCookieName (lx_access env) cfg r)
      in if token = [] then ((SessionStatus None, []), db)
         else (case ValidateToken (ae_hash (lx_access env)) zone now (gc_session cfg) token (accessNormalizedHost r) (si_Code target) clientIP
                      (GenerateFingerprint (ae_md5 (lx_access env)) r) db of
                 (Some st, db1) \<Rightarrow> ((SessionStatus (Some (as_AccountName st, as_ExpireUnix st - now div second)), []), db1)
               | (None, db1) \<Rightarrow> ((SessionStatus None, []), db1)))"

definition trim_slashes :: "string \<Rightarrow> string" where
  "trim_slashes s = rev (dropWhile (\<lambda>c. c = CHR ''/'') (rev (dropWhile (\<lambda>c. c = CHR ''/'') s)))"

definition handleAccessRequest ::
  "login_env \<Rightarrow> int \<Rightarrow> int \<Rightarrow> gate_config \<Rightarrow> HostAccessConfig \<Rightarrow> draws \<Rightarrow> site \<Rightarrow> string \<Rightarrow> string \<Rightarrow> http_request \<Rightarrow> access_world \<Rightarrow> answer \<times> access_world" where
  "handleAccessRequest env zone now cfg hostCfg dr target clientIP body r w =
     (let sub = trim_slashes (TrimPrefix (gate_path r) (gc_PathPrefix cfg)); onCenter = accessOnCenter cfg r;
          in_db = (\<lambda>(a, db). (a, w\<lparr>aw_db := db\<rparr>))
      in if sub = [] \<or> sub = ''login'' then
           (if onCenter then ((LoginPage (Query_Get r ''rq''), []), w)
            else if IsCenterMode cfg then ((RedirectTo (buildAccessEntryURL (lx_access env) now cfg (dr_nonce dr) r), []), w)
            else ((NotFound, []), w))
         else if sub = ''validate'' \<and> hr_Method r = ''POST'' then
           (if onCenter then accessHandleValidate env now cfg hostCfg dr target clientIP body r w else ((NotFound, []), w))
         else if sub = ''otp'' \<and> hr_Method r = ''POST'' then
           (if onCenter then accessHandleOtp env now cfg dr target clientIP body r w else ((NotFound, []), w))
         else if sub = ''authorize'' \<and> hr_Method r = ''GET'' then accessHandleAuthorize env zone now cfg dr clientIP r w
         else if sub = ''callback'' \<and> hr_Method r = ''GET'' then accessHandleCallback env now cfg dr target clientIP r w
         else if sub = ''logout'' then in_db (accessHandleLogout env now cfg target r (aw_db w))
         else if sub = ''status'' \<and> hr_Method r = ''GET'' then in_db (accessHandleStatus env zone now cfg target clientIP r (aw_db w))
         else if sub = ''ping'' then ((NoContent, []), w)
         else ((NotFound, []), w))"

subsection \<open>Everything that can happen to the tables\<close>

text \<open>
  A request to the self-service endpoints, an operation of the session service that issues nothing (the gate, the administration and the periodic
  tasks call these), and the administration of accounts.
\<close>

datatype world_op =
    WSelf login_env int gate_config HostAccessConfig draws site string string http_request
  | WService "string \<Rightarrow> string" int access_op
  | WAdd account_env PasswordComplexityPolicy string account_req
  | WModify account_env string account_req
  | WResetPwd account_env PasswordComplexityPolicy string string
  | WDel string
  | WRemoveSite string
  | WOtpBind account_env string string string
  | WOtpUnbind string

fun world_step :: "int \<Rightarrow> world_op \<Rightarrow> access_world \<Rightarrow> access_world" where
  "world_step now (WSelf env zone cfg hostCfg dr target clientIP body r) w = snd (handleAccessRequest env zone now cfg hostCfg dr target clientIP body r w)"
| "world_step now (WService hash zone act) w = w\<lparr>aw_db := access_step hash zone now act (aw_db w)\<rparr>"
| "world_step now (WAdd e policy newId req) w = snd (acc_AddApi e now policy newId req w)"
| "world_step now (WModify e rowId req) w = snd (acc_ModifyApi e now rowId req w)"
| "world_step now (WResetPwd e policy rowId password) w = snd (ResetPwdApi e now policy rowId password w)"
| "world_step now (WDel rowId) w = snd (acc_DelApi now rowId w)"
| "world_step now (WRemoveSite hostCode) w = snd (RemoveHostCode now hostCode w)"
| "world_step now (WOtpBind e rowId code secret) w = snd (OtpBindApi e now rowId code secret w)"
| "world_step now (WOtpUnbind rowId) w = snd (OtpUnbindApi now rowId w)"

text \<open>The digest of a new session and the key of a new account are new. Sessions and tokens are made by the handlers only.\<close>

definition fresh_session :: "(string \<Rightarrow> string) \<Rightarrow> draws \<Rightarrow> access_world \<Rightarrow> bool" where
  "fresh_session hash dr w \<longleftrightarrow>
     (case dr_session dr of None \<Rightarrow> True
      | Some plain \<Rightarrow> hash plain \<noteq> [] \<and> hash plain \<notin> se_SessionCode ` set (db_sessions (aw_db w)) \<and> hash plain \<notin> to_SessionCode ` set (db_tokens (aw_db w)))"

definition allowed_op :: "world_op \<Rightarrow> access_world \<Rightarrow> bool" where
  "allowed_op act w =
     (case act of
        WSelf env _ _ _ dr _ _ _ _ \<Rightarrow> fresh_session (ae_hash (lx_access env)) dr w
      | WService _ _ a \<Rightarrow> (case a of OpCreate _ _ _ _ _ _ _ _ _ \<Rightarrow> False | OpIssue _ _ _ _ _ _ _ \<Rightarrow> False | _ \<Rightarrow> True)
      | WAdd _ _ newId _ \<Rightarrow> newId \<noteq> [] \<and> newId \<notin> aa_Id ` set (aw_accounts w)
      | _ \<Rightarrow> True)"

definition empty_world :: access_world where "empty_world = \<lparr>aw_db = empty_db, aw_accounts = []\<rparr>"

inductive reachable_world :: "access_world \<Rightarrow> bool" where
  start: "reachable_world empty_world"
| step: "reachable_world w \<Longrightarrow> allowed_op act w \<Longrightarrow> reachable_world (world_step now act w)"

subsection \<open>Every handler keeps the rights\<close>

lemma with_cache_db [simp]: "aw_accounts (with_cache c w) = aw_accounts w" "rows_from (aw_db w) (aw_db (with_cache c w))"
  by (simp_all add: with_cache_def)

lemma with_cache_ok [simp]: "world_ok w \<Longrightarrow> world_ok (with_cache c w)"
  using world_ok_db [of w "aw_db (with_cache c w)"] by (simp add: with_cache_def)

lemma fresh_session_cache [simp]: "fresh_session hash dr (with_cache c w) = fresh_session hash dr w"
  by (simp add: fresh_session_def with_cache_def split: option.splits)

lemma accessFinishLogin_ok:
  assumes ok: "world_ok w" and fresh: "fresh_session (ae_hash (lx_access env)) dr w"
  shows "world_ok (snd (accessFinishLogin env now cfg dr target acct clientIP rq r w))"
proof -
  have "world_ok (w\<lparr>aw_db := snd (CreateSession (ae_hash (lx_access env)) now (gc_session cfg) (dr_session dr) (dr_sessionId dr) (aa_Id acct, aa_AccountName acct) ''sso'' []
      clientIP (GenerateFingerprint (ae_md5 (lx_access env)) r) (Header_Get r ''User-Agent'') (aw_db w))\<rparr>)"
    by (rule CreateSession_ok [OF ok]) (use fresh in \<open>auto simp: fresh_session_def\<close>)
  then show ?thesis
    by (auto simp: accessFinishLogin_def Let_def account_marks_ok(1) split: prod.splits option.splits)
qed

lemma accessHandleValidate_ok:
  assumes "world_ok w" "fresh_session (ae_hash (lx_access env)) dr w"
  shows "world_ok (snd (accessHandleValidate env now cfg hostCfg dr target clientIP body r w))"
  using assms accessFinishLogin_ok [of "with_cache _ w" env dr]
  by (auto simp: accessHandleValidate_def Let_def split: option.splits prod.splits sum.splits)

lemma accessHandleOtp_ok:
  assumes "world_ok w" "fresh_session (ae_hash (lx_access env)) dr w"
  shows "world_ok (snd (accessHandleOtp env now cfg dr target clientIP body r w))"
  using assms accessFinishLogin_ok [of "with_cache _ w" env dr]
  by (auto simp: accessHandleOtp_def Let_def split: option.splits prod.splits sum.splits)

lemma accessAuthorizeForHost_ok: "world_ok w \<Longrightarrow> world_ok (snd (accessAuthorizeForHost env now sess th code w))"
  by (auto simp: accessAuthorizeForHost_def Let_def intro: world_ok_db RevokeSession_rows split: sum.splits)

text \<open>When it lets a session pass, the account has the right.\<close>

lemma accessAuthorizeForHost_right:
  assumes "accessAuthorizeForHost env now sess th code w = (None, w')"
  shows "w' = w" "code \<noteq> [] \<Longrightarrow> has_right (aw_accounts w) (se_AccountCode sess) code"
proof -
  obtain acct where a: "CheckStillUsable now (se_AccountCode sess) (aw_accounts w) = Inr acct"
    using assms by (auto simp: accessAuthorizeForHost_def split: sum.splits)
  then have "acct \<in> set (aw_accounts w)" "aa_Id acct = se_AccountCode sess" "aa_Status acct = AccessAccountStatusEnable"
    by (auto simp: CheckStillUsable_def account_usable_def dest!: find_SomeD split: option.splits if_splits)
  then show "w' = w" "code \<noteq> [] \<Longrightarrow> has_right (aw_accounts w) (se_AccountCode sess) code"
    using assms a by (auto simp: accessAuthorizeForHost_def Let_def has_right_def split: if_splits)
qed

lemma accessCurrentSSOSession_rows: "rows_from db (snd (accessCurrentSSOSession env zone now cfg clientIP fp r db))"
  by (simp add: accessCurrentSSOSession_def Let_def ValidateSSOSession_rows)

lemma accessHandleAuthorize_ok:
  assumes ok: "world_ok w"
  shows "world_ok (snd (accessHandleAuthorize env zone now cfg dr clientIP r w))"
proof -
  have sso: "world_ok (w\<lparr>aw_db := db\<rparr>)" if "accessCurrentSSOSession env zone now cfg clientIP fp r (aw_db w) = (res, db)" for fp res db
    using world_ok_db [OF ok] accessCurrentSSOSession_rows that by (metis snd_conv)
  have auth: "world_ok w1" if "accessAuthorizeForHost env now sess th code (w\<lparr>aw_db := db\<rparr>) = (res, w1)"
      "accessCurrentSSOSession env zone now cfg clientIP fp r (aw_db w) = (res', db)" for sess th code db res w1 fp res'
    using accessAuthorizeForHost_ok [OF sso [OF that(2)]] that(1) by (metis snd_conv)
  have ticket: "world_ok (w1\<lparr>aw_db := db2\<rparr>)" if "world_ok w1"
      "IssueTicket hash now c secret sess host ret ip fp (aw_db w1) = (res, db2)" for w1 db2 hash c secret sess host ret ip fp res
    using world_ok_db [OF that(1)] ticket_rows(1) that(2) by (metis snd_conv)
  show ?thesis
    using ok by (auto simp: accessHandleAuthorize_def Let_def split: option.splits prod.splits intro: sso auth ticket)
qed

lemma accessHandleCallback_ok:
  assumes ok: "world_ok w"
  shows "world_ok (snd (accessHandleCallback env now cfg dr target clientIP r w))"
proof -
  let ?hash = "ae_hash (lx_access env)"
  have use_ok: "world_ok (w\<lparr>aw_db := db\<rparr>)" if "ConsumeTicket ?hash now c plain host ip fp (aw_db w) = (res, db)" for c plain host ip fp res db
    using world_ok_db [OF ok] ticket_rows(2) that by (metis snd_conv)
  have auth: "world_ok w1" if "accessAuthorizeForHost env now sess th code (w\<lparr>aw_db := db\<rparr>) = (res, w1)" "world_ok (w\<lparr>aw_db := db\<rparr>)" for sess th code db res w1
    using accessAuthorizeForHost_ok [OF that(2)] that(1) by (metis snd_conv)
  have token: "world_ok (w1\<lparr>aw_db := db2\<rparr>)"
    if i: "accessIssueTokenCookie env now cfg dr target sess clientIP fp r (aw_db w1) = (res, db2)"
      and a: "accessAuthorizeForHost env now sess th (si_Code target) (w\<lparr>aw_db := db\<rparr>) = (None, w1)"
      and l: "LoadSessionByCode now sc db = Some sess" and o: "world_ok (w\<lparr>aw_db := db\<rparr>)" for sess fp db db2 res th sc w1
  proof -
    have w1: "w1 = w\<lparr>aw_db := db\<rparr>" using accessAuthorizeForHost_right(1) [OF a] .
    have s: "sess \<in> set (db_sessions (aw_db w1))" "se_Status sess = AccessStatusValid"
      using l w1 by (auto simp: LoadSessionByCode_def dest!: find_SomeD split: option.splits if_splits)
    have "db2 = snd (IssueToken ?hash now (gc_session cfg) (dr_token dr) sess (accessNormalizedHost r) (si_Code target) clientIP fp (aw_db w1))"
      using i by (auto simp: accessIssueTokenCookie_def Let_def split: prod.splits option.splits)
    then show ?thesis using IssueToken_ok [OF _ s] o w1 accessAuthorizeForHost_right(2) [OF a] by simp
  qed
  show ?thesis
    by (auto simp: accessHandleCallback_def Let_def split: option.splits prod.splits sum.splits intro: use_ok auth token)
qed

lemma accessHandle_rows:
  "rows_from db (snd (accessHandleLogout env now cfg target r db))" "rows_from db (snd (accessHandleStatus env zone now cfg target clientIP r db))"
  using ValidateToken_rows [of db] rows_from_trans [OF RevokeSession_rows RevokeToken_rows]
  by (auto simp: accessHandleLogout_def accessHandleStatus_def Let_def RevokeSession_rows RevokeToken_rows split_beta split: option.splits)

lemma handleAccessRequest_ok:
  assumes "world_ok w" "fresh_session (ae_hash (lx_access env)) dr w"
  shows "world_ok (snd (handleAccessRequest env zone now cfg hostCfg dr target clientIP body r w))"
  using assms accessHandleValidate_ok [OF assms] accessHandleOtp_ok [OF assms] accessHandleAuthorize_ok [OF assms(1)] accessHandleCallback_ok [OF assms(1)]
    world_ok_db [OF assms(1) accessHandle_rows(1)] world_ok_db [OF assms(1) accessHandle_rows(2)]
  by (auto simp: handleAccessRequest_def Let_def split_beta)

lemma access_step_rows:
  "(case act of OpCreate _ _ _ _ _ _ _ _ _ \<Rightarrow> False | OpIssue _ _ _ _ _ _ _ \<Rightarrow> False | _ \<Rightarrow> True) \<Longrightarrow> rows_from db (access_step hash zone now act db)"
  by (cases act) (simp_all add: session_service_rows revoke_all_rows KickApi_def KickAllApi_def split: option.splits)

lemma world_step_ok: "world_ok w \<Longrightarrow> allowed_op act w \<Longrightarrow> world_ok (world_step now act w)"
  by (cases act) (simp_all add: allowed_op_def handleAccessRequest_ok account_service_ok world_ok_db access_step_rows)

lemma reachable_world_ok: "reachable_world w \<Longrightarrow> world_ok w"
proof (induction rule: reachable_world.induct)
  case start
  show ?case by (simp add: world_ok_def empty_world_def empty_db_def ids_ok_def codes_ok_def rights_ok_def)
next
  case (step w act now)
  then show ?case using world_step_ok by blast
qed

text \<open>
  C38. Nobody stays on a site without a right to it. Start from empty tables and let requests to the login endpoints, operations of the session service
  and changes of accounts follow in any order and at any times; the digests of new sessions and the keys of new accounts are new. Then
  every token for a site whose session is valid belongs to an account that exists, is enabled and may enter that site: whatever takes the right away
  (disabling, deleting, a shorter list of sites, the removal of a site) ends the sessions in the same step.
\<close>

theorem tokens_follow_rights:
  assumes "reachable_world w" "t \<in> set (db_tokens (aw_db w))" "to_HostCode t \<noteq> []"
    and "s \<in> set (db_sessions (aw_db w))" "se_SessionCode s = to_SessionCode t" "se_Status s = AccessStatusValid"
  shows "\<exists>a \<in> set (aw_accounts w). aa_Id a = se_AccountCode s \<and> aa_Status a = AccessAccountStatusEnable \<and> IsHostAllowed a (to_HostCode t)"
  using reachable_world_ok [OF assms(1)] assms(2-) unfolding world_ok_def rights_ok_def has_right_def by blast

subsection \<open>What the lock counts\<close>

lemma fail_keys_differ [simp]:
  "CACHE_ACCESS_LOCK \<noteq> CACHE_ACCESS_FAIL" "CACHE_ACCESS_FAIL \<noteq> CACHE_ACCESS_LOCK" "CACHE_ACCESS_FAIL @ a \<noteq> CACHE_ACCESS_LOCK @ b" "CACHE_ACCESS_LOCK @ b \<noteq> CACHE_ACCESS_FAIL @ a"
  by (simp_all add: CACHE_ACCESS_FAIL_def CACHE_ACCESS_LOCK_def)

text \<open>A failure counted for one key leaves the entries of the others.\<close>

lemma record_key_other:
  assumes "key' \<noteq> key"
  shows "snd (record_key now cfg key rc) (CACHE_ACCESS_FAIL @ key') = snd rc (CACHE_ACCESS_FAIL @ key')"
    "snd (record_key now cfg key rc) (CACHE_ACCESS_LOCK @ key') = snd rc (CACHE_ACCESS_LOCK @ key')"
  using assms
  by (auto simp: record_key_def GetInt_def wc_Get_def SetWithTTl_def wc_Remove_def Let_def split: prod.splits option.splits cval.splits)

definition ip_fails :: "gate_config \<Rightarrow> string \<Rightarrow> (int \<times> string) list \<Rightarrow> access_rec WafCache \<Rightarrow> access_rec WafCache" where
  "ip_fails cfg clientIP attempts c = fold (\<lambda>(now, username) c. snd (accessRecordFail now cfg clientIP username c)) attempts c"

lemma accessRecordFail_ip:
  "snd (accessRecordFail now cfg clientIP username c) (CACHE_ACCESS_FAIL @ ''ip:'' @ clientIP) =
     snd (record_key now cfg (''ip:'' @ clientIP) (gc_MaxFailCount cfg, c)) (CACHE_ACCESS_FAIL @ ''ip:'' @ clientIP) \<and>
   snd (accessRecordFail now cfg clientIP username c) (CACHE_ACCESS_LOCK @ ''ip:'' @ clientIP) =
     snd (record_key now cfg (''ip:'' @ clientIP) (gc_MaxFailCount cfg, c)) (CACHE_ACCESS_LOCK @ ''ip:'' @ clientIP)"
  using record_key_other [of "''ip:'' @ clientIP" "''user:'' @ ToLower (TrimSpace username)" now cfg]
  by (simp add: accessRecordFail_def accessFailKeys_def split_beta)

text \<open>After \<open>n\<close> failures the entry holds \<open>n - 1\<close>.\<close>

definition counted :: "int \<Rightarrow> gate_config \<Rightarrow> string \<Rightarrow> nat \<Rightarrow> access_rec WafCache \<Rightarrow> bool" where
  "counted t0 cfg key n c \<longleftrightarrow> c (CACHE_ACCESS_LOCK @ key) = None \<and>
     (if n = 0 then c (CACHE_ACCESS_FAIL @ key) = None
      else \<exists>created. t0 \<le> created \<and> c (CACHE_ACCESS_FAIL @ key) = Some (mk_item (CInt (int n - 1)) created (gc_LockDuration cfg)))"

lemma record_key_counts:
  assumes "counted t0 cfg key n c" "t0 \<le> now" "now \<le> t0 + gc_LockDuration cfg" "int n < gc_MaxFailCount cfg"
  shows "counted t0 cfg key (Suc n) (snd (record_key now cfg key (remain, c)))"
  using assms
  by (auto simp: counted_def record_key_def GetInt_def wc_Get_def SetWithTTl_def mk_item_def expired_def Let_def split: if_splits)

lemma record_key_locks:
  assumes "counted t0 cfg key n c" "t0 \<le> now" "now \<le> t0 + gc_LockDuration cfg" "int n = gc_MaxFailCount cfg" "0 < n"
  shows "snd (record_key now cfg key (remain, c)) (CACHE_ACCESS_LOCK @ key) = Some (mk_item (CStr ''1'') now (gc_LockDuration cfg))"
  using assms
  by (auto simp: counted_def record_key_def GetInt_def wc_Get_def SetWithTTl_def wc_Remove_def mk_item_def expired_def Let_def split: option.splits)

lemma counted_same:
  "c' (CACHE_ACCESS_FAIL @ key) = c (CACHE_ACCESS_FAIL @ key) \<Longrightarrow> c' (CACHE_ACCESS_LOCK @ key) = c (CACHE_ACCESS_LOCK @ key) \<Longrightarrow>
   counted t0 cfg key n c' = counted t0 cfg key n c"
  by (simp add: counted_def)

lemma ip_fails_counted:
  assumes "\<forall>(now, username) \<in> set attempts. t0 \<le> now \<and> now \<le> t0 + gc_LockDuration cfg" "counted t0 cfg (''ip:'' @ clientIP) n c"
    "int (n + length attempts) \<le> gc_MaxFailCount cfg"
  shows "counted t0 cfg (''ip:'' @ clientIP) (n + length attempts) (ip_fails cfg clientIP attempts c)"
  using assms
proof (induction attempts arbitrary: n c)
  case (Cons a attempts)
  obtain now username where a: "a = (now, username)" by force
  have now: "t0 \<le> now" "now \<le> t0 + gc_LockDuration cfg" using Cons.prems(1) a by auto
  let ?c = "snd (accessRecordFail now cfg clientIP username c)"
  have "counted t0 cfg (''ip:'' @ clientIP) (Suc n) ?c"
    using record_key_counts [OF Cons.prems(2) now] Cons.prems(3) counted_same [of ?c "''ip:'' @ clientIP"] accessRecordFail_ip by simp
  with Cons.IH [of "Suc n" ?c] Cons.prems(1,3) show ?case by (simp add: ip_fails_def a)
qed (simp add: ip_fails_def)

text \<open>
  C39. The lock of an address comes one failure late. Failed logins from an address, whatever names they try, that fall within one lock time leave no lock as long as
  they are at most \<open>MaxFailCount\<close>; the next failure sets it, for the lock time. The counter starts at minus one, the value the cache
  returns for a missing key, so a limit of ten admits eleven attempts.
\<close>

theorem login_lock_late:
  assumes limit: "0 < gc_MaxFailCount cfg" and start: "c (CACHE_ACCESS_FAIL @ ''ip:'' @ clientIP) = None" "c (CACHE_ACCESS_LOCK @ ''ip:'' @ clientIP) = None"
    and times: "\<forall>(now, username) \<in> set attempts. t0 \<le> now \<and> now \<le> t0 + gc_LockDuration cfg"
  shows "(int (length attempts) \<le> gc_MaxFailCount cfg \<longrightarrow> ip_fails cfg clientIP attempts c (CACHE_ACCESS_LOCK @ ''ip:'' @ clientIP) = None) \<and>
    (\<forall>now username. int (length attempts) = gc_MaxFailCount cfg \<and> t0 \<le> now \<and> now \<le> t0 + gc_LockDuration cfg \<longrightarrow>
       ip_fails cfg clientIP (attempts @ [(now, username)]) c (CACHE_ACCESS_LOCK @ ''ip:'' @ clientIP) = Some (mk_item (CStr ''1'') now (gc_LockDuration cfg)))"
proof (intro conjI allI impI; (elim conjE)?)
  let ?key = "''ip:'' @ clientIP" and ?c = "ip_fails cfg clientIP attempts c"
  have "counted t0 cfg ?key 0 c" using start by (simp add: counted_def)
  note so_far = ip_fails_counted [OF times this, simplified]
  show "?c (CACHE_ACCESS_LOCK @ ?key) = None" if "int (length attempts) \<le> gc_MaxFailCount cfg"
    using so_far [OF that] by (simp add: counted_def)
  show "ip_fails cfg clientIP (attempts @ [(now, username)]) c (CACHE_ACCESS_LOCK @ ?key) = Some (mk_item (CStr ''1'') now (gc_LockDuration cfg))"
    if l: "int (length attempts) = gc_MaxFailCount cfg" and now: "t0 \<le> now" "now \<le> t0 + gc_LockDuration cfg" for now username
  proof -
    have n: "counted t0 cfg ?key (length attempts) ?c" using so_far l by simp
    have "snd (record_key now cfg ?key (gc_MaxFailCount cfg, ?c)) (CACHE_ACCESS_LOCK @ ?key) = Some (mk_item (CStr ''1'') now (gc_LockDuration cfg))"
      by (rule record_key_locks [OF n now l]) (use l limit in auto)
    then show ?thesis using accessRecordFail_ip [of now cfg clientIP username ?c] by (simp add: ip_fails_def)
  qed
qed

text \<open>The codes of the second step are counted in the same way.\<close>

lemma otp_fail_counts_from_minus_one:
  "c (CACHE_ACCESS_OTPFAIL @ acct) = None \<Longrightarrow>
   accessRecordOtpFail now cfg acct c (CACHE_ACCESS_OTPFAIL @ acct) = Some (mk_item (CInt 0) now (gc_LockDuration cfg))"
  by (simp add: accessRecordOtpFail_def GetInt_def wc_Get_def SetWithTTl_def)

text \<open>
  Whether a site demands the second step is asked only at the login, of the site that the request of the login names. A login that names none falls back to the central site, and
  neither the exchange for a ticket nor the one for a token looks at the demand.
\<close>

lemma site_otp_only_at_login:
  "accessTargetHostOtpMode env now cfg [] fallback = fallback"
  "accessHandleAuthorize (env\<lparr>lx_hosts := hosts\<rparr>) zone now (cfg\<lparr>gc_RequireOtp := b\<rparr>) dr clientIP r w =
   accessHandleAuthorize env zone now cfg dr clientIP r w"
  "accessHandleCallback (env\<lparr>lx_hosts := hosts\<rparr>) now (cfg\<lparr>gc_RequireOtp := b\<rparr>) dr target clientIP r w = accessHandleCallback env now cfg dr target clientIP r w"
  by (simp_all add: accessTargetHostOtpMode_def verifyAuthReq_def accessHandleAuthorize_def accessHandleCallback_def accessCurrentSSOSession_def accessAuthorizeForHost_def
    accessIssueTokenCookie_def accessCookieSecure_def accessTokenCookieName_def buildAccessEntryURL_def IsCenterMode_def Let_def cong: option.case_cong sum.case_cong prod.case_cong)

subsection \<open>A login from beginning to end\<close>

definition demo_account_env :: account_env where
  "demo_account_env = \<lparr>en_runes = map char_code, en_upper = (\<lambda>_. False), en_lower = (\<lambda>_. True), en_digit = (\<lambda>_. False), en_letter = (\<lambda>_. True), en_space = (\<lambda>_. False),
     en_punct_or_symbol = (\<lambda>_. False), en_BcryptVerify = (\<lambda>stored p. stored = demo_hash p), en_BcryptHash = (\<lambda>p. Some (demo_hash p)), en_encrypt = Some, en_decrypt = Some,
     en_ValidateOtpCode = (\<lambda>code secret. False), en_parse_time = (\<lambda>s. None)\<rparr>"

definition demo_login_env :: login_env where
  "demo_login_env = \<lparr>lx_access = demo_env\<lparr>ae_mac := (\<lambda>k s. ''M''), ae_unmarshal := (\<lambda>s. Some \<lparr>ar_R = ''https://a.com/x'', ar_H = ''a.com'', ar_E = 0, ar_N = []\<rparr>)\<rparr>,
     lx_account = demo_account_env, lx_login = (\<lambda>n body. Some \<lparr>lr_Username = ''ann'', lr_Password = body, lr_Rq = ''P.M''\<rparr>), lx_otp = (\<lambda>n body. None), lx_lit = (\<lambda>_. None),
     lx_hosts = (\<lambda>_. None), lx_routing = demo_routing\<rparr>"

definition demo_draws :: "string option \<Rightarrow> draws" where
  "demo_draws secret = \<lparr>dr_session = secret, dr_sessionId = ''1'', dr_stage = [], dr_ticket = Some ''k'', dr_token = Some ''t'', dr_nonce = []\<rparr>"

definition demo_request :: "string \<Rightarrow> string \<Rightarrow> string \<Rightarrow> string \<Rightarrow> (string \<times> string) list \<Rightarrow> http_request" where
  "demo_request meth host sub cookie query = \<lparr>hr_Method = meth, hr_Host = host, hr_Path = ''/samwaf_access/'' @ sub, hr_RawQuery = [], hr_TLS = True,
     hr_Header = [(''Cookie'', cookie)], hr_Cookies = [], hr_Query = query\<rparr>"

definition demo_self :: "string option \<Rightarrow> string \<Rightarrow> string \<Rightarrow> http_request \<Rightarrow> world_op" where
  "demo_self secret code body r = WSelf demo_login_env 0 demo_gate_cfg host_access_default (demo_draws secret)
     \<lparr>si_Code = code, si_AccessJSON = [], si_AutoJumpHTTPS = 0\<rparr> ''1.1.1.1'' body r"

definition demo_ops :: "world_op list" where
  "demo_ops = [WAdd demo_account_env \<lparr>pp_MinLength = 1, pp_RequireUpper = False, pp_RequireLower = False, pp_RequireDigit = False, pp_RequireSpecial = False\<rparr> ''7''
       \<lparr>rq_AccountName = ''ann'', rq_Password = ''pw'', rq_NickName = [], rq_Status = 1, rq_ForceOtp = 0, rq_AllowHostCodes = ''A'', rq_ExpireTime = [], rq_Remarks = []\<rparr>,
     demo_self (Some ''s'') ''S'' ''pw'' (demo_request ''POST'' ''sso.com'' ''validate'' [] []),
     demo_self None ''S'' [] (demo_request ''GET'' ''sso.com'' ''authorize'' ''samwaf_ac_sso=s'' [(''rq'', ''P.M'')]),
     demo_self None ''A'' [] (demo_request ''GET'' ''a.com'' ''callback'' [] [(''tk'', ''k'')])]"

fun demo_run :: "world_op list \<Rightarrow> access_world \<Rightarrow> bool \<times> access_world" where
  "demo_run [] w = (True, w)"
| "demo_run (x # xs) w = (if allowed_op x w then demo_run xs (world_step second x w) else (False, w))"

lemma demo_run_reachable: "reachable_world w \<Longrightarrow> demo_run xs w = (True, w') \<Longrightarrow> reachable_world w'"
  by (induction xs arbitrary: w) (auto split: if_splits intro: reachable_world.step)

definition demo_world :: access_world where "demo_world = snd (demo_run demo_ops empty_world)"

lemma demo_world_facts:
  "(case demo_run demo_ops empty_world of (b, w) \<Rightarrow>
      (b, map (\<lambda>t. (to_HostCode t, to_SessionCode t)) (db_tokens (aw_db w)), map (\<lambda>s. (se_SessionCode s, se_Status s, se_AccountCode s)) (db_sessions (aw_db w)))) =
   (True, [(''A'', ''hs'')], [(''hs'', 1, ''7'')])"
  by code_simp

theorem tokens_follow_rights_witness:
  "reachable_world demo_world \<and> (\<exists>a \<in> set (aw_accounts demo_world). aa_Id a = ''7'' \<and> aa_Status a = AccessAccountStatusEnable \<and> IsHostAllowed a ''A'')"
proof -
  obtain w where run: "demo_run demo_ops empty_world = (True, w)"
    and rows: "map (\<lambda>t. (to_HostCode t, to_SessionCode t)) (db_tokens (aw_db w)) = [(''A'', ''hs'')]"
      "map (\<lambda>s. (se_SessionCode s, se_Status s, se_AccountCode s)) (db_sessions (aw_db w)) = [(''hs'', 1, ''7'')]"
    using demo_world_facts by (auto split: prod.splits)
  then have w: "demo_world = w" by (simp add: demo_world_def)
  have reach: "reachable_world w" by (rule demo_run_reachable [OF reachable_world.start run])
  obtain t where t: "db_tokens (aw_db w) = [t]" "to_HostCode t = ''A''" "to_SessionCode t = ''hs''" using rows(1) by auto
  obtain s where s: "db_sessions (aw_db w) = [s]" "se_SessionCode s = ''hs''" "se_Status s = 1" "se_AccountCode s = ''7''" using rows(2) by auto
  from tokens_follow_rights [OF reach, of t s] reach show ?thesis by (simp add: t s w)
qed

theorem login_lock_late_witness:
  "ip_fails demo_gate_cfg ''1.1.1.1'' (replicate 10 (second, ''ann'')) InitWafCache (CACHE_ACCESS_LOCK @ ''ip:1.1.1.1'') = None \<and>
   ip_fails demo_gate_cfg ''1.1.1.1'' (replicate 10 (second, ''ann'') @ [(2 * second, ''bob'')]) InitWafCache (CACHE_ACCESS_LOCK @ ''ip:1.1.1.1'') =
     Some (mk_item (CStr ''1'') (2 * second) (3 * minute))"
proof -
  have cfg: "gc_MaxFailCount demo_gate_cfg = 10" "gc_LockDuration demo_gate_cfg = 3 * minute" by (simp_all add: demo_gate_cfg_def)
  show ?thesis
    using login_lock_late [of demo_gate_cfg InitWafCache "''1.1.1.1''" "replicate 10 (second, ''ann'')" second]
    by (simp add: cfg InitWafCache_def)
qed

end
