(* ===== verification/Access_Config.thy ===== *)
theory Access_Config
  imports Access_Account Access_Gate Access_Redirect
begin

text \<open>
  The configuration of the unified access authentication: service/waf_service/waf_access_config_service.go with model/access_config.go. The administration saves one row;
  from it the service makes the snapshot that the gate and the login read.

  The state is the row (none before the first save), the table of sites and the published snapshot. The global switches, the random secret and the
  encryption of stored secrets are arguments. The list of addresses offered for the login page is not modelled: it reads
  the ports a site listens on.

  The theorem says what a successful save publishes: a configuration under which the gate is effective and its bounds hold.
\<close>

subsection \<open>Data\<close>

record AccessConfig =
  cf_Id :: string
  cf_CenterOrigin :: string
  cf_PathPrefix :: string
  cf_CookiePrefix :: string
  cf_HmacSecret :: string
  cf_SessionTTLMinutes :: int
  cf_TokenTTLMinutes :: int
  cf_TicketTTLSeconds :: int
  cf_IdleTimeoutMinutes :: int
  cf_BindIP :: int
  cf_BindFingerprint :: int
  cf_RequireOtp :: int
  cf_MaxFailCount :: int
  cf_LockMinutes :: int
  cf_GlobalExcludePaths :: string
  cf_BypassIPGroupCode :: string
  cf_ServiceTokenHeader :: string
  cf_ServiceTokenHashes :: string
  cf_CorsAllowOrigins :: string
  cf_CorsAllowMethods :: string
  cf_CorsAllowHeaders :: string
  cf_CorsMaxAge :: int
  cf_UnauthAction :: string
  cf_PassIdentityHeader :: int
  cf_ForceSecureCookie :: int
  cf_CachePositiveTTLSec :: int
  cf_UpdateTime :: int

definition DefaultAccessConfig :: AccessConfig where
  "DefaultAccessConfig = \<lparr>cf_Id = [], cf_CenterOrigin = [], cf_PathPrefix = ''/samwaf_access'', cf_CookiePrefix = ''samwaf_ac'', cf_HmacSecret = [],
     cf_SessionTTLMinutes = 720, cf_TokenTTLMinutes = 720, cf_TicketTTLSeconds = 60, cf_IdleTimeoutMinutes = 0, cf_BindIP = 0, cf_BindFingerprint = 0,
     cf_RequireOtp = 0, cf_MaxFailCount = 10, cf_LockMinutes = 3, cf_GlobalExcludePaths = [], cf_BypassIPGroupCode = [], cf_ServiceTokenHeader = [],
     cf_ServiceTokenHashes = [], cf_CorsAllowOrigins = [], cf_CorsAllowMethods = [], cf_CorsAllowHeaders = [], cf_CorsMaxAge = 0, cf_UnauthAction = ''auto'',
     cf_PassIdentityHeader = 0, cf_ForceSecureCookie = 0, cf_CachePositiveTTLSec = 60, cf_UpdateTime = 0\<rparr>"

definition FillDefaults :: "AccessConfig \<Rightarrow> AccessConfig" where
  "FillDefaults c =
     (let d = DefaultAccessConfig
      in c\<lparr>cf_PathPrefix := (if cf_PathPrefix c = [] then cf_PathPrefix d else cf_PathPrefix c),
           cf_CookiePrefix := (if cf_CookiePrefix c = [] then cf_CookiePrefix d else cf_CookiePrefix c),
           cf_SessionTTLMinutes := (if cf_SessionTTLMinutes c \<le> 0 then cf_SessionTTLMinutes d else cf_SessionTTLMinutes c),
           cf_TokenTTLMinutes := (if cf_TokenTTLMinutes c \<le> 0 then cf_TokenTTLMinutes d else cf_TokenTTLMinutes c),
           cf_TicketTTLSeconds := (if cf_TicketTTLSeconds c \<le> 0 \<or> 300 < cf_TicketTTLSeconds c then cf_TicketTTLSeconds d else cf_TicketTTLSeconds c),
           cf_IdleTimeoutMinutes := (if cf_IdleTimeoutMinutes c < 0 then 0 else cf_IdleTimeoutMinutes c),
           cf_MaxFailCount := (if cf_MaxFailCount c \<le> 0 then cf_MaxFailCount d else cf_MaxFailCount c),
           cf_LockMinutes := (if cf_LockMinutes c \<le> 0 then cf_LockMinutes d else cf_LockMinutes c),
           cf_UnauthAction := (if cf_UnauthAction c \<in> {''auto'', ''redirect'', ''401''} then cf_UnauthAction c else cf_UnauthAction d),
           cf_CachePositiveTTLSec := (if cf_CachePositiveTTLSec c \<le> 0 \<or> 60 < cf_CachePositiveTTLSec c then cf_CachePositiveTTLSec d else cf_CachePositiveTTLSec c),
           cf_CorsMaxAge := (if cf_CorsMaxAge c < 0 \<or> AccessCorsMaxAgeCap < cf_CorsMaxAge c then 0 else cf_CorsMaxAge c),
           cf_CorsAllowMethods := stripHeaderCtrlChars (cf_CorsAllowMethods c),
           cf_CorsAllowHeaders := stripHeaderCtrlChars (cf_CorsAllowHeaders c),
           cf_CorsAllowOrigins := map (\<lambda>ch. if ch = carriage_return then newline else if ch = CHR 0x09 then CHR '' '' else ch) (cf_CorsAllowOrigins c)\<rparr>)"

text \<open>The columns of the table of sites that are read here.\<close>

record host_row =
  ho_Host :: string
  ho_BindMoreHost :: string

record config_state =
  cs_row :: "AccessConfig option"
  cs_hosts :: "host_row list"
  cs_published :: gate_config

text \<open>The switches in the global variables, whatever is drawn at random, and the functions of other packages.\<close>

record config_env =
  ce_account :: account_env
  ce_hash :: "string \<Rightarrow> string"
  ce_lit :: "string \<Rightarrow> string option"
  ce_ForceDisable :: bool
  ce_Enable :: int
  ce_secret :: "string option"
  ce_rowId :: string

datatype config_error =
    OriginFormat | OriginScheme | OriginHost | OriginUser | CenterMissing | CenterNotASite string | PrefixFormat | PrefixAcme | CookieFormat | SecretFailed

record config_req =
  cr_config :: AccessConfig
  cr_ServiceTokens :: string

subsection \<open>Helpers\<close>

text \<open>The two regular expressions.\<close>

definition slug_char :: "char \<Rightarrow> bool" where
  "slug_char c \<longleftrightarrow> is_digit c \<or> (97 \<le> char_code c \<and> char_code c \<le> 122) \<or> c = CHR ''_'' \<or> c = CHR ''-''"

definition pathPrefixPattern :: "string \<Rightarrow> bool" where
  "pathPrefixPattern s \<longleftrightarrow> s \<noteq> [] \<and> hd s = CHR ''/'' \<and> 2 \<le> length (tl s) \<and> length (tl s) \<le> 63 \<and> list_all (\<lambda>c. slug_char c \<or> c = CHR ''/'') (tl s)"

definition cookiePrefixPattern :: "string \<Rightarrow> bool" where
  "cookiePrefixPattern s \<longleftrightarrow> 2 \<le> length s \<and> length s \<le> 32 \<and> list_all slug_char s"

definition boolInt :: "int \<Rightarrow> int" where "boolInt v = (if v = 1 then 1 else 0)"

definition hashServiceTokens :: "(string \<Rightarrow> string) \<Rightarrow> string \<Rightarrow> string" where
  "hashServiceTokens hash raw = StrJoin newline (map hash (splitLines raw))"

text \<open>\<open>Inr\<close>: the origin and its host, both empty for an empty text.\<close>

definition normalizeCenterOrigin :: "(string \<Rightarrow> string option) \<Rightarrow> string \<Rightarrow> config_error + string \<times> string" where
  "normalizeCenterOrigin lit raw =
     (let s = TrimSpace raw
      in if s = [] then Inr ([], [])
         else (case Parse lit s of
                 None \<Rightarrow> Inl OriginFormat
               | Some u \<Rightarrow>
                   if url_scheme s \<noteq> ''http'' \<and> url_scheme s \<noteq> ''https'' then Inl OriginScheme
                   else if url_Host u = [] then Inl OriginHost
                   else if CHR ''@'' \<in> set (url_authority s) then Inl OriginUser
                   else (let host = ToLower (url_Host u) in Inr (url_scheme s @ ''://'' @ host, host))))"

definition center_host :: "config_env \<Rightarrow> AccessConfig \<Rightarrow> string" where
  "center_host env bean = (case normalizeCenterOrigin (ce_lit env) (cf_CenterOrigin bean) of Inr (_, h) \<Rightarrow> h | Inl _ \<Rightarrow> [])"

definition pure_host :: "string \<Rightarrow> string" where
  "pure_host h = (let p = before_last (CHR '':'') h in if CHR '':'' \<in> set h \<and> p \<noteq> [] then p else h)"

definition isCenterHostConfigured :: "host_row list \<Rightarrow> string \<Rightarrow> bool" where
  "isCenterHostConfigured hosts centerHost =
     (let pure = pure_host centerHost
      in list_ex (\<lambda>h. EqualFold (ho_Host h) pure \<or> ho_Host h = ''*'' \<or>
            (HasPrefix (ho_Host h) ''*.'' \<and> HasSuffix (ToLower pure) (ToLower (tl (ho_Host h)))) \<or>
            list_ex (\<lambda>more. EqualFold more pure) (splitLines (ho_BindMoreHost h))) hosts)"

definition GetConfig :: "config_state \<Rightarrow> AccessConfig" where
  "GetConfig st = (case cs_row st of None \<Rightarrow> DefaultAccessConfig | Some bean \<Rightarrow> FillDefaults bean)"

definition IsHostUsedAsCenter :: "config_env \<Rightarrow> config_state \<Rightarrow> host_row \<Rightarrow> bool \<times> string" where
  "IsHostUsedAsCenter env st host =
     (let centerHost = center_host env (GetConfig st);
          pure = ToLower (pure_host centerHost);
          domains = filter (\<lambda>d. d \<noteq> []) (map (\<lambda>d. ToLower (TrimSpace d)) (ho_Host host # splitLines (ho_BindMoreHost host)))
      in if centerHost = [] then (False, [])
         else if list_ex (\<lambda>d. d = pure \<or> d = ''*'' \<or> (HasPrefix d ''*.'' \<and> HasSuffix pure (tl d))) domains then (True, centerHost)
         else (False, []))"

definition buildOrigin :: "string \<Rightarrow> int \<Rightarrow> bool \<Rightarrow> string" where
  "buildOrigin domain port ssl =
     (let scheme = (if ssl then ''https'' else ''http''); def = (if ssl then 443 else 80)
      in if port = def \<or> port = 0 then scheme @ ''://'' @ domain else scheme @ ''://'' @ domain @ '':'' @ Itoa port)"

subsection \<open>Reading and publishing\<close>

text \<open>The two marks that \<open>GetDetailApi\<close> adds: whether the signing secret and service tokens are set.\<close>

definition cfg_GetDetailApi :: "config_state \<Rightarrow> AccessConfig \<times> bool \<times> bool" where
  "cfg_GetDetailApi st = (let bean = GetConfig st in (bean, TrimSpace (cf_HmacSecret bean) \<noteq> [], TrimSpace (cf_ServiceTokenHashes bean) \<noteq> []))"

text \<open>\<open>time.Duration(n) * unit\<close>, a product of 64-bit integers that wraps around.\<close>

definition duration :: "int \<Rightarrow> int \<Rightarrow> int" where
  "duration n unit = int64 (n * unit)"

definition published :: "config_env \<Rightarrow> string \<Rightarrow> string \<Rightarrow> AccessConfig \<Rightarrow> gate_config" where
  "published env centerOrigin centerHost bean =
     \<lparr>gc_ForceDisable = ce_ForceDisable env, gc_GlobalEnable = (ce_Enable env = 1), gc_CenterOrigin = centerOrigin, gc_CenterHost = centerHost,
      gc_PathPrefix = NormalizePathPrefix (cf_PathPrefix bean), gc_CookieSSOName = cf_CookiePrefix bean @ ''_sso'', gc_CookiePrefix = cf_CookiePrefix bean,
      gc_HmacSecret = decryptAccessSecret (ce_account env) (cf_HmacSecret bean),
      gc_session = \<lparr>ac_SessionTTL = duration (cf_SessionTTLMinutes bean) minute, ac_TokenTTL = duration (cf_TokenTTLMinutes bean) minute, ac_TicketTTL = duration (cf_TicketTTLSeconds bean) second,
        ac_IdleTimeout = duration (cf_IdleTimeoutMinutes bean) minute, ac_BindIP = (cf_BindIP bean = 1), ac_BindFingerprint = (cf_BindFingerprint bean = 1),
        ac_CachePositiveTTL = duration (cf_CachePositiveTTLSec bean) second\<rparr>,
      gc_RequireOtp = (cf_RequireOtp bean = 1), gc_MaxFailCount = cf_MaxFailCount bean, gc_LockDuration = duration (cf_LockMinutes bean) minute,
      gc_GlobalExcludePaths = BuildExcludePaths (cf_GlobalExcludePaths bean), gc_BypassIPGroupCode = cf_BypassIPGroupCode bean,
      gc_ServiceTokenHeader = cf_ServiceTokenHeader bean, gc_ServiceTokenHashes = splitLines (cf_ServiceTokenHashes bean),
      gc_CORS = \<lparr>cp_AllowOrigins = BuildAllowOrigins (cf_CorsAllowOrigins bean), cp_AllowMethods = SanitizeHeaderValue (cf_CorsAllowMethods bean),
        cp_AllowHeaders = SanitizeHeaderValue (cf_CorsAllowHeaders bean), cp_MaxAge = cf_CorsMaxAge bean\<rparr>,
      gc_UnauthAction = cf_UnauthAction bean, gc_PassIdentityHeader = (cf_PassIdentityHeader bean = 1), gc_ForceSecureCookie = (cf_ForceSecureCookie bean = 1)\<rparr>"

definition PublishConfig :: "config_env \<Rightarrow> config_state \<Rightarrow> config_state" where
  "PublishConfig env st =
     (let bean = GetConfig st; centerHost = center_host env bean
      in st\<lparr>cs_published :=
             (if centerHost \<noteq> [] \<and> \<not> isCenterHostConfigured (cs_hosts st) centerHost then published env [] [] bean
              else published env (cf_CenterOrigin bean) centerHost bean)\<rparr>)"

subsection \<open>Saving\<close>

definition newEncryptedSecret :: "config_env \<Rightarrow> string option" where
  "newEncryptedSecret env = (case ce_secret env of None \<Rightarrow> None | Some plain \<Rightarrow> encryptAccessSecret (ce_account env) plain)"

text \<open>The bean that is saved: the old one with the fields of the request.\<close>

definition merge_req :: "config_env \<Rightarrow> int \<Rightarrow> string \<Rightarrow> string \<Rightarrow> string \<Rightarrow> config_req \<Rightarrow> AccessConfig \<Rightarrow> AccessConfig" where
  "merge_req env now center pathPrefix cookiePrefix req old =
     (let r = cr_config req; tokens = TrimSpace (cr_ServiceTokens req)
      in r\<lparr>cf_Id := cf_Id old, cf_CenterOrigin := center, cf_PathPrefix := pathPrefix, cf_CookiePrefix := cookiePrefix, cf_HmacSecret := cf_HmacSecret old,
           cf_BindIP := boolInt (cf_BindIP r), cf_BindFingerprint := boolInt (cf_BindFingerprint r), cf_RequireOtp := boolInt (cf_RequireOtp r),
           cf_BypassIPGroupCode := TrimSpace (cf_BypassIPGroupCode r), cf_ServiceTokenHeader := TrimSpace (cf_ServiceTokenHeader r),
           cf_ServiceTokenHashes :=
             (if tokens = [] then cf_ServiceTokenHashes old else if tokens = ''-'' then [] else hashServiceTokens (ce_hash env) (cr_ServiceTokens req)),
           cf_PassIdentityHeader := boolInt (cf_PassIdentityHeader r), cf_ForceSecureCookie := boolInt (cf_ForceSecureCookie r), cf_UpdateTime := now\<rparr>)"

definition saved_row :: "config_env \<Rightarrow> string \<Rightarrow> AccessConfig \<Rightarrow> AccessConfig" where
  "saved_row env secret bean =
     (let filled = FillDefaults (bean\<lparr>cf_HmacSecret := secret\<rparr>) in if cf_Id filled = [] then filled\<lparr>cf_Id := ce_rowId env\<rparr> else filled)"

definition cfg_SaveApi :: "config_env \<Rightarrow> int \<Rightarrow> config_req \<Rightarrow> config_state \<Rightarrow> config_error option \<times> config_state" where
  "cfg_SaveApi env now req st =
     (case normalizeCenterOrigin (ce_lit env) (cf_CenterOrigin (cr_config req)) of
        Inl err \<Rightarrow> (Some err, st)
      | Inr (center, centerHost) \<Rightarrow>
          if centerHost = [] then (Some CenterMissing, st)
          else if \<not> isCenterHostConfigured (cs_hosts st) centerHost then (Some (CenterNotASite centerHost), st)
          else
            (let pathPrefix = NormalizePathPrefix (cf_PathPrefix (cr_config req));
                 cookie0 = ToLower (TrimSpace (cf_CookiePrefix (cr_config req))); cookiePrefix = (if cookie0 = [] then ''samwaf_ac'' else cookie0)
             in if \<not> pathPrefixPattern pathPrefix then (Some PrefixFormat, st)
                else if HasPrefix pathPrefix ''/.well-known'' \<or> HasPrefix GSSL_HTTP_CHANGLE_PATH pathPrefix then (Some PrefixAcme, st)
                else if \<not> cookiePrefixPattern cookiePrefix then (Some CookieFormat, st)
                else
                  (let bean = merge_req env now center pathPrefix cookiePrefix req (GetConfig st)
                   in case (if TrimSpace (cf_HmacSecret bean) = [] then newEncryptedSecret env else Some (cf_HmacSecret bean)) of
                        None \<Rightarrow> (Some SecretFailed, st)
                      | Some secret \<Rightarrow>
                          (None, PublishConfig env (st\<lparr>cs_row := Some (saved_row env secret bean)\<rparr>)))))"

definition RegenerateSecretApi :: "config_env \<Rightarrow> int \<Rightarrow> config_state \<Rightarrow> bool \<times> config_state" where
  "RegenerateSecretApi env now st =
     (let bean = GetConfig st
      in case newEncryptedSecret env of
           None \<Rightarrow> (False, st)
         | Some enc \<Rightarrow>
             (True,
              PublishConfig env
                (if cf_Id bean = [] then st\<lparr>cs_row := Some (bean\<lparr>cf_Id := ce_rowId env, cf_HmacSecret := enc, cf_UpdateTime := now\<rparr>)\<rparr>
                 else st\<lparr>cs_row := map_option (\<lambda>row. row\<lparr>cf_HmacSecret := enc, cf_UpdateTime := now\<rparr>) (cs_row st)\<rparr>)))"

definition SyncAfterHostChanged :: "config_env \<Rightarrow> int \<Rightarrow> config_state \<Rightarrow> config_state" where
  "SyncAfterHostChanged env now st =
     (let bean = GetConfig st; centerHost = center_host env bean
      in PublishConfig env
           (if cf_Id bean \<noteq> [] \<and> TrimSpace (cf_CenterOrigin bean) \<noteq> [] \<and> centerHost \<noteq> [] \<and> \<not> isCenterHostConfigured (cs_hosts st) centerHost
            then st\<lparr>cs_row := map_option (\<lambda>row. row\<lparr>cf_CenterOrigin := [], cf_UpdateTime := now\<rparr>) (cs_row st)\<rparr>
            else st))"

subsection \<open>What a save publishes\<close>

lemma slug_plain: "slug_char c \<or> c = CHR ''/'' \<Longrightarrow> lower_char c = c \<and> plain_char c"
  by (auto simp: slug_char_def lower_char_def plain_char_def is_digit_def ascii_space_def)

lemma TrimRightSlash_end: "TrimRightSlash s = [] \<or> List.last (TrimRightSlash s) \<noteq> CHR ''/''"
  unfolding TrimRightSlash_def by (metis (mono_tags, lifting) hd_dropWhile last_rev rev_is_Nil_conv)

lemma TrimRightSlash_same: "s \<noteq> [] \<Longrightarrow> List.last s \<noteq> CHR ''/'' \<Longrightarrow> TrimRightSlash s = s"
  unfolding TrimRightSlash_def by (cases s rule: rev_cases) simp_all

lemma NormalizePathPrefix_end: "NormalizePathPrefix raw \<noteq> [] \<and> List.last (NormalizePathPrefix raw) \<noteq> CHR ''/''"
  using TrimRightSlash_end by (auto simp: NormalizePathPrefix_def Let_def default_path_prefix_def)

lemma NormalizePathPrefix_same:
  assumes "pathPrefixPattern p" "List.last p \<noteq> CHR ''/''"
  shows "NormalizePathPrefix p = p"
proof -
  have c: "slug_char c \<or> c = CHR ''/''" if "c \<in> set p" for c
    using assms(1) that by (cases p) (auto simp: pathPrefixPattern_def list_all_iff)
  have "TrimSpace p = p" by (rule TrimSpace_plain) (use c slug_plain in \<open>auto simp: list_all_iff\<close>)
  moreover have "ToLower p = p" unfolding ToLower_def by (rule map_idI) (use c slug_plain in blast)
  moreover have "p \<noteq> []" "HasPrefix p ''/''" using assms(1) by (cases p; simp add: pathPrefixPattern_def HasPrefix_def)+
  ultimately show ?thesis using TrimRightSlash_same [OF _ assms(2)] by (simp add: NormalizePathPrefix_def Let_def)
qed

text \<open>An origin with a plain name is parsed into the same name again.\<close>

lemma origin_parts:
  assumes "sch = ''http'' \<or> sch = ''https''" "list_all name_char h" "port_text port"
  shows "url_scheme (sch @ ''://'' @ h @ port) = sch" "CHR ''@'' \<notin> set (url_authority (sch @ ''://'' @ h @ port))"
    "TrimSpace (sch @ ''://'' @ h @ port) = sch @ ''://'' @ h @ port"
proof -
  have c: "name_char c \<or> is_digit c \<or> c = CHR '':''" if "c \<in> set (h @ port)" for c
    using that assms(2,3) by (auto simp: list_all_iff port_text_def)
  have no: "c \<noteq> CHR ''#'' \<and> c \<noteq> CHR ''?'' \<and> c \<noteq> CHR ''@'' \<and> plain_char c" if "c \<in> set (h @ port)" for c
    using c [OF that] by (auto simp: name_char_def is_alnum_def is_alpha_def is_digit_def plain_char_def ascii_space_def)
  have f: "cut_before (CHR ''#'') (sch @ ''://'' @ h @ port) = sch @ ''://'' @ h @ port"
    by (rule cut_before_none) (use no assms(1) in auto)
  have g: "getScheme (sch @ ''://'' @ h @ port) = Some (sch, ''//'' @ h @ port)"
    using assms(1) by (auto simp: getScheme_def scheme_char_def is_alnum_def is_alpha_def is_digit_def)
  show "url_scheme (sch @ ''://'' @ h @ port) = sch"
    using assms(1) by (auto simp only: url_scheme_def f g option.case prod.case) (simp_all add: ToLower_def lower_char_def)
  have "cut_before (CHR ''?'') (''//'' @ h @ port) = ''//'' @ h @ port" by (rule cut_before_none) (use no in auto)
  then have "url_authority (sch @ ''://'' @ h @ port) = cut_before (CHR ''/'') (h @ port)"
    by (simp only: url_authority_def url_rest_def f g option.case prod.case) simp
  then show "CHR ''@'' \<notin> set (url_authority (sch @ ''://'' @ h @ port))" using no set_takeWhileD [of _ _ "h @ port"] unfolding cut_before_def by metis
  show "TrimSpace (sch @ ''://'' @ h @ port) = sch @ ''://'' @ h @ port"
    by (rule TrimSpace_plain) (use no assms(1) in \<open>auto simp: list_all_iff plain_char_def ascii_space_def\<close>)
qed

lemma normalizeCenterOrigin_form:
  assumes "normalizeCenterOrigin lit raw = Inr (origin, host)" "host \<noteq> []"
  obtains sch where "sch = ''http'' \<or> sch = ''https''" "origin = sch @ ''://'' @ host" "ToLower host = host"
proof -
  have "ToLower (ToLower x) = ToLower x" for x by (auto simp: ToLower_def lower_char_def)
  then show ?thesis
    using assms that by (auto simp: normalizeCenterOrigin_def Let_def split: if_splits option.splits)
qed

lemma normalizeCenterOrigin_again:
  assumes "normalizeCenterOrigin lit raw = Inr (origin, h @ port)" "h @ port \<noteq> []" "list_all name_char h" "port_text port"
  shows "normalizeCenterOrigin lit origin = Inr (origin, h @ port)"
proof (rule normalizeCenterOrigin_form [OF assms(1,2)])
  fix sch assume sch: "sch = ''http'' \<or> sch = ''https''" and o: "origin = sch @ ''://'' @ h @ port" and low: "ToLower (h @ port) = h @ port"
  have "Parse lit origin = Some \<lparr>url_Host = h @ port, url_Path = []\<rparr>"
    unfolding o by (rule Parse_origin) (use sch assms(3,4) in \<open>auto simp: is_alpha_def\<close>)
  then show ?thesis
    using origin_parts [OF sch assms(3,4)] sch assms(2) low unfolding o by (auto simp: normalizeCenterOrigin_def Let_def)
qed

lemma FillDefaults_twice:
  "cf_CenterOrigin (FillDefaults c) = cf_CenterOrigin c"
  "cf_PathPrefix c \<noteq> [] \<Longrightarrow> cf_PathPrefix (FillDefaults c) = cf_PathPrefix c" "cf_CookiePrefix c \<noteq> [] \<Longrightarrow> cf_CookiePrefix (FillDefaults c) = cf_CookiePrefix c"
  by (simp_all add: FillDefaults_def Let_def)

lemma FillDefaults_bounds:
  "0 < cf_SessionTTLMinutes (FillDefaults c)" "0 < cf_TokenTTLMinutes (FillDefaults c)" "0 < cf_TicketTTLSeconds (FillDefaults c)" "cf_TicketTTLSeconds (FillDefaults c) \<le> 300"
  "0 < cf_MaxFailCount (FillDefaults c)" "0 < cf_LockMinutes (FillDefaults c)" "0 < cf_CachePositiveTTLSec (FillDefaults c)" "cf_CachePositiveTTLSec (FillDefaults c) \<le> 60"
  "0 \<le> cf_IdleTimeoutMinutes (FillDefaults c)" "0 \<le> cf_CorsMaxAge (FillDefaults c)" "cf_CorsMaxAge (FillDefaults c) \<le> AccessCorsMaxAgeCap"
  by (simp_all add: FillDefaults_def DefaultAccessConfig_def AccessCorsMaxAgeCap_def Let_def)

text \<open>The longest time in minutes that a duration holds.\<close>

definition max_minutes :: int where "max_minutes = 153722867"

lemma duration_exact: "0 \<le> n \<Longrightarrow> n \<le> max_minutes \<Longrightarrow> duration n minute = n * minute"
  "0 \<le> n \<Longrightarrow> n \<le> 300 \<Longrightarrow> duration n second = n * second"
  unfolding duration_def by (rule int64_id; simp add: max_minutes_def)+

lemma FillDefaults_minutes:
  "cf_SessionTTLMinutes c \<le> max_minutes \<Longrightarrow> cf_SessionTTLMinutes (FillDefaults c) \<le> max_minutes"
  "cf_TokenTTLMinutes c \<le> max_minutes \<Longrightarrow> cf_TokenTTLMinutes (FillDefaults c) \<le> max_minutes"
  "cf_LockMinutes c \<le> max_minutes \<Longrightarrow> cf_LockMinutes (FillDefaults c) \<le> max_minutes"
  "cf_IdleTimeoutMinutes c \<le> max_minutes \<Longrightarrow> cf_IdleTimeoutMinutes (FillDefaults c) \<le> max_minutes"
  by (simp_all add: FillDefaults_def DefaultAccessConfig_def max_minutes_def Let_def)

lemma saved_row_minutes:
  assumes row: "row = saved_row env secret (merge_req env now center pathPrefix cookiePrefix req old)"
  shows "cf_SessionTTLMinutes (cr_config req) \<le> max_minutes \<Longrightarrow> cf_SessionTTLMinutes (FillDefaults row) \<le> max_minutes"
    "cf_TokenTTLMinutes (cr_config req) \<le> max_minutes \<Longrightarrow> cf_TokenTTLMinutes (FillDefaults row) \<le> max_minutes"
    "cf_LockMinutes (cr_config req) \<le> max_minutes \<Longrightarrow> cf_LockMinutes (FillDefaults row) \<le> max_minutes"
    "cf_IdleTimeoutMinutes (cr_config req) \<le> max_minutes \<Longrightarrow> cf_IdleTimeoutMinutes (FillDefaults row) \<le> max_minutes"
proof -
  define bean where "bean = (merge_req env now center pathPrefix cookiePrefix req old)\<lparr>cf_HmacSecret := secret\<rparr>"
  have "cf_SessionTTLMinutes bean = cf_SessionTTLMinutes (cr_config req)" "cf_TokenTTLMinutes bean = cf_TokenTTLMinutes (cr_config req)"
    "cf_LockMinutes bean = cf_LockMinutes (cr_config req)" "cf_IdleTimeoutMinutes bean = cf_IdleTimeoutMinutes (cr_config req)"
    by (simp_all add: bean_def merge_req_def Let_def)
  moreover have "row = FillDefaults bean \<or> row = (FillDefaults bean)\<lparr>cf_Id := ce_rowId env\<rparr>" by (simp add: row bean_def saved_row_def Let_def)
  ultimately show "cf_SessionTTLMinutes (cr_config req) \<le> max_minutes \<Longrightarrow> cf_SessionTTLMinutes (FillDefaults row) \<le> max_minutes"
    "cf_TokenTTLMinutes (cr_config req) \<le> max_minutes \<Longrightarrow> cf_TokenTTLMinutes (FillDefaults row) \<le> max_minutes"
    "cf_LockMinutes (cr_config req) \<le> max_minutes \<Longrightarrow> cf_LockMinutes (FillDefaults row) \<le> max_minutes"
    "cf_IdleTimeoutMinutes (cr_config req) \<le> max_minutes \<Longrightarrow> cf_IdleTimeoutMinutes (FillDefaults row) \<le> max_minutes"
    using FillDefaults_minutes [of bean] by (auto intro!: FillDefaults_minutes)
qed

text \<open>The lifetimes in minutes have no upper bound, and beyond the longest duration they become negative: no session is ever valid then.\<close>

lemma long_lifetime_negative:
  "ac_SessionTTL (gc_session (published env origin host (FillDefaults (c\<lparr>cf_SessionTTLMinutes := 200000000\<rparr>)))) < 0"
  by (simp add: published_def duration_def int64_def FillDefaults_def Let_def)

lemma merge_req_fields:
  "cf_CenterOrigin (merge_req env now center pathPrefix cookiePrefix req old) = center"
  "cf_PathPrefix (merge_req env now center pathPrefix cookiePrefix req old) = pathPrefix"
  "cf_CookiePrefix (merge_req env now center pathPrefix cookiePrefix req old) = cookiePrefix"
  by (simp_all add: merge_req_def Let_def)

lemma saved_row_fields:
  "cf_CenterOrigin (saved_row env secret bean) = cf_CenterOrigin bean"
  "pathPrefixPattern (cf_PathPrefix bean) \<Longrightarrow> cf_PathPrefix (saved_row env secret bean) = cf_PathPrefix bean"
  "cookiePrefixPattern (cf_CookiePrefix bean) \<Longrightarrow> cf_CookiePrefix (saved_row env secret bean) = cf_CookiePrefix bean"
  by (auto simp: saved_row_def FillDefaults_def Let_def pathPrefixPattern_def cookiePrefixPattern_def)

text \<open>
  C40. A saved configuration is one the gate can work with. When saving succeeds and the central host has a plain name (perhaps with a port), the published snapshot names
  the login domain that was asked for, which is one of the sites, so the gate is not open for want of a login; positive cache entries live more than no time and at most
  sixty seconds, the bound the revocation of tokens rests on; tickets live at most five minutes; at least one failure is free before a lock; the lifetimes of sessions and tokens
  and the lock are positive and the idle limit is not negative, each as long as the minutes asked for are at most 153722867 (beyond that the
  64-bit duration wraps: lemma \<open>long_lifetime_negative\<close>); the age of preflight answers is bounded; the prefix of the cookies is not empty, so they are
  stripped from forwarded requests; and the self-service path does not cover the path of certificate challenges.
\<close>

theorem saved_config_effective:
  assumes save: "cfg_SaveApi env now req st = (None, st')"
    and center: "normalizeCenterOrigin (ce_lit env) (cf_CenterOrigin (cr_config req)) = Inr (origin, h @ port)" "list_all name_char h" "port_text port"
  shows "IsCenterMode (cs_published st') \<and> gc_CenterOrigin (cs_published st') = origin \<and> gc_CenterHost (cs_published st') = h @ port \<and>
    isCenterHostConfigured (cs_hosts st') (h @ port) \<and>
    0 < ac_CachePositiveTTL (gc_session (cs_published st')) \<and> ac_CachePositiveTTL (gc_session (cs_published st')) \<le> minute \<and>
    0 < ac_TicketTTL (gc_session (cs_published st')) \<and> ac_TicketTTL (gc_session (cs_published st')) \<le> 5 * minute \<and>
    (cf_SessionTTLMinutes (cr_config req) \<le> max_minutes \<longrightarrow> 0 < ac_SessionTTL (gc_session (cs_published st'))) \<and>
    (cf_TokenTTLMinutes (cr_config req) \<le> max_minutes \<longrightarrow> 0 < ac_TokenTTL (gc_session (cs_published st'))) \<and>
    (cf_IdleTimeoutMinutes (cr_config req) \<le> max_minutes \<longrightarrow> 0 \<le> ac_IdleTimeout (gc_session (cs_published st'))) \<and>
    (cf_LockMinutes (cr_config req) \<le> max_minutes \<longrightarrow> 0 < gc_LockDuration (cs_published st')) \<and> 0 < gc_MaxFailCount (cs_published st') \<and>
    0 \<le> cp_MaxAge (gc_CORS (cs_published st')) \<and> cp_MaxAge (gc_CORS (cs_published st')) \<le> AccessCorsMaxAgeCap \<and>
    cookiePrefixPattern (gc_CookiePrefix (cs_published st')) \<and> gc_CookieSSOName (cs_published st') = gc_CookiePrefix (cs_published st') @ ''_sso'' \<and>
    pathPrefixPattern (gc_PathPrefix (cs_published st')) \<and> \<not> HasPrefix GSSL_HTTP_CHANGLE_PATH (gc_PathPrefix (cs_published st'))"
proof -
  define pathPrefix where "pathPrefix = NormalizePathPrefix (cf_PathPrefix (cr_config req))"
  have "h @ port \<noteq> [] \<and> isCenterHostConfigured (cs_hosts st) (h @ port) \<and> pathPrefixPattern pathPrefix \<and> \<not> HasPrefix GSSL_HTTP_CHANGLE_PATH pathPrefix \<and>
    (\<exists>secret cookiePrefix. cookiePrefixPattern cookiePrefix \<and>
       st' = PublishConfig env (st\<lparr>cs_row := Some (saved_row env secret (merge_req env now origin pathPrefix cookiePrefix req (GetConfig st)))\<rparr>))"
    using save center(1)
    unfolding cfg_SaveApi_def Let_def pathPrefix_def [symmetric]
    by (auto split: if_splits option.splits)
  then obtain secret cookiePrefix where c: "h @ port \<noteq> []" "isCenterHostConfigured (cs_hosts st) (h @ port)" "pathPrefixPattern pathPrefix"
      "\<not> HasPrefix GSSL_HTTP_CHANGLE_PATH pathPrefix" "cookiePrefixPattern cookiePrefix"
    and st': "st' = PublishConfig env (st\<lparr>cs_row := Some (saved_row env secret (merge_req env now origin pathPrefix cookiePrefix req (GetConfig st)))\<rparr>)" by blast
  define saved where "saved = saved_row env secret (merge_req env now origin pathPrefix cookiePrefix req (GetConfig st))"
  have sv: "cf_CenterOrigin saved = origin" "cf_PathPrefix saved = pathPrefix" "cf_CookiePrefix saved = cookiePrefix"
    using c(3,5) by (simp_all add: saved_def saved_row_fields merge_req_fields)
  define bean where "bean = FillDefaults saved"
  have "cookiePrefix \<noteq> []" "pathPrefix \<noteq> []" using c(3,5) by (auto simp: pathPrefixPattern_def cookiePrefixPattern_def)
  then have b: "cf_CenterOrigin bean = origin" "cf_PathPrefix bean = pathPrefix" "cf_CookiePrefix bean = cookiePrefix"
    by (simp_all add: bean_def FillDefaults_twice sv)
  have again: "center_host env bean = h @ port"
    using normalizeCenterOrigin_again [OF center(1) c(1) center(2,3)] b(1) by (simp add: center_host_def)
  have pub: "cs_published st' = published env origin (h @ port) bean" "cs_hosts st' = cs_hosts st"
    using again c(2) b(1) unfolding st' saved_def [symmetric] by (simp_all add: PublishConfig_def GetConfig_def bean_def [symmetric] Let_def)
  have pre: "NormalizePathPrefix pathPrefix = pathPrefix"
    using NormalizePathPrefix_same [OF c(3)] NormalizePathPrefix_end by (simp add: pathPrefix_def)
  have "origin \<noteq> []" by (rule normalizeCenterOrigin_form [OF center(1) c(1)]) auto
  note bounds = FillDefaults_bounds [of saved, folded bean_def]
  note minutes = saved_row_minutes [OF saved_def, folded bean_def]
  have "0 < duration (cf_CachePositiveTTLSec bean) second" "duration (cf_CachePositiveTTLSec bean) second \<le> minute"
    "0 < duration (cf_TicketTTLSeconds bean) second" "duration (cf_TicketTTLSeconds bean) second \<le> 5 * minute"
    using bounds duration_exact(2) [of "cf_CachePositiveTTLSec bean"] duration_exact(2) [of "cf_TicketTTLSeconds bean"] by simp_all
  moreover have "cf_SessionTTLMinutes (cr_config req) \<le> max_minutes \<longrightarrow> 0 < duration (cf_SessionTTLMinutes bean) minute"
    using minutes(1) bounds(1) duration_exact(1) [of "cf_SessionTTLMinutes bean"] by simp
  moreover have "cf_TokenTTLMinutes (cr_config req) \<le> max_minutes \<longrightarrow> 0 < duration (cf_TokenTTLMinutes bean) minute"
    using minutes(2) bounds(2) duration_exact(1) [of "cf_TokenTTLMinutes bean"] by simp
  moreover have "cf_LockMinutes (cr_config req) \<le> max_minutes \<longrightarrow> 0 < duration (cf_LockMinutes bean) minute"
    using minutes(3) bounds(6) duration_exact(1) [of "cf_LockMinutes bean"] by simp
  moreover have "cf_IdleTimeoutMinutes (cr_config req) \<le> max_minutes \<longrightarrow> 0 \<le> duration (cf_IdleTimeoutMinutes bean) minute"
    using minutes(4) bounds(9) duration_exact(1) [of "cf_IdleTimeoutMinutes bean"] by simp
  ultimately show ?thesis
    using c bounds \<open>origin \<noteq> []\<close> unfolding pub by (simp add: published_def IsCenterMode_def b pre)
qed

text \<open>
  A prefix with two slashes in a row passes the pattern, but the gate compares prefixes with cleaned paths, which have none: the login endpoints of such a
  configuration are out of reach.
\<close>

definition demo_slashes :: gate_config where "demo_slashes = demo_gate_cfg\<lparr>gc_PathPrefix := ''/sso//x''\<rparr>"

lemma double_slash_prefix_unreachable:
  "pathPrefixPattern (NormalizePathPrefix ''/sso//x'') \<and> NormalizePathPrefix ''/sso//x'' = ''/sso//x'' \<and>
   \<not> self_service demo_slashes (demo_visit_request\<lparr>hr_Path := ''/sso//x/login''\<rparr>) \<and> \<not> self_service demo_slashes (demo_visit_request\<lparr>hr_Path := ''/sso/x/login''\<rparr>)"
  by code_simp

definition demo_config_env :: config_env where
  "demo_config_env = \<lparr>ce_account = \<lparr>en_runes = map char_code, en_upper = (\<lambda>_. False), en_lower = (\<lambda>_. True), en_digit = (\<lambda>_. False), en_letter = (\<lambda>_. True), en_space = (\<lambda>_. False),
     en_punct_or_symbol = (\<lambda>_. False), en_BcryptVerify = (\<lambda>stored p. stored = p), en_BcryptHash = Some, en_encrypt = Some, en_decrypt = Some,
     en_ValidateOtpCode = (\<lambda>code secret. False), en_parse_time = (\<lambda>s. None)\<rparr>, ce_hash = demo_hash, ce_lit = (\<lambda>_. None), ce_ForceDisable = False, ce_Enable = 1,
     ce_secret = Some ''k'', ce_rowId = ''1''\<rparr>"

definition demo_config_req :: config_req where
  "demo_config_req = \<lparr>cr_config = DefaultAccessConfig\<lparr>cf_CenterOrigin := ''https://SSO.com:8443/login'', cf_CachePositiveTTLSec := 600\<rparr>, cr_ServiceTokens = []\<rparr>"

definition demo_config_state :: config_state where
  "demo_config_state = \<lparr>cs_row = None, cs_hosts = [\<lparr>ho_Host = ''sso.com'', ho_BindMoreHost = []\<rparr>], cs_published = demo_gate_cfg\<rparr>"

theorem saved_config_effective_witness:
  "\<exists>st. cfg_SaveApi demo_config_env 0 demo_config_req demo_config_state = (None, st) \<and> IsCenterMode (cs_published st) \<and>
     gc_CenterHost (cs_published st) = ''sso.com:8443'' \<and> ac_CachePositiveTTL (gc_session (cs_published st)) \<le> minute"
proof -
  have f: "fst (cfg_SaveApi demo_config_env 0 demo_config_req demo_config_state) = None" by code_simp
  have n: "normalizeCenterOrigin (ce_lit demo_config_env) (cf_CenterOrigin (cr_config demo_config_req)) = Inr (''https://sso.com:8443'', ''sso.com'' @ '':8443'')" by code_simp
  have h: "list_all name_char ''sso.com''" "port_text '':8443''" by (simp_all add: name_char_def is_alnum_def is_alpha_def is_digit_def port_text_def)
  obtain st where s: "cfg_SaveApi demo_config_env 0 demo_config_req demo_config_state = (None, st)" using f by (metis prod.collapse)
  from saved_config_effective [OF s n h] s show ?thesis by auto
qed

end
