(* ===== verification/Spec2Isabelle.thy ===== *)
theory Spec2Isabelle
  imports Match_Set Load_Balance Ip_Ban Host_Guard Cc_Rule_Service Engine_Chain Client_Ip Referer_Check Access_Login Access_Config
begin

text \<open>
  SamWaf is a web application firewall written in Go: a reverse proxy that judges each request of the sites it serves
  (package wafenginecore) and, beside it, a guard of the machine's remote logins (package wafhostguard). This library models
  the logic that decides, theory by theory, and proves what makes it correct. File names are relative to src/.

  \<^bold>\<open>How a request is judged.\<close> \<open>WafEngine.ServeHTTP\<close> takes the site of the request, its rules and lists, and the site that stands for
  all sites (the global site). In this order it asks the plugins, the white lists, the bans in force, the black lists, the custom
  rules, the content detectors, the rate check and the captcha gate; the shared state is the in-memory cache, the request counter, the
  limiters, the published IP sets and the log entry of the request.

  \<^item> \<open>Engine_Chain\<close>: the guard block of wafenginecore/wafengine.go. \<open>handleBlock\<close> is the local function of that name, \<open>guard\<close> the whole block
    and \<open>serve_guard\<close> the block with the modelled checks in it. The detectors that have no theory are arguments, so the theorems hold
    whatever they answer: bans are enforced and only bans look like one, an allowance of a rule reaches exactly the modules
    it names, no rule overrides what stands before it, a site in log-only mode refuses nobody.
  \<^item> \<open>Ip_Check\<close>: the address and path lists of a site and of the global site, the threat feed and the payment callbacks (checkdenyip.go,
    checkallowip.go, checkdenyurl.go, checkallowurl.go, checkallowcallback.go, wafbot/callback_ip.go, parts of utils/common.go).
  \<^item> \<open>Check_Rule\<close> and \<open>Rule_Action\<close>: the custom rules. \<open>Rule_Action\<close> is utils/rule_action.go, the lexer and the regular expressions that read
    the action of a rule from its text; \<open>Check_Rule\<close> is checkrule.go with \<open>LoadRules\<close> of utils/rulehelper.go. The rule engine grule is
    a parameter; the code relies on its matching rules coming in descending priority (\<open>engine_ok\<close>).
  \<^item> \<open>Cc_Check\<close>: the rate check of a request, checkcc.go, checkcc_rules.go and cc_emergency.go, over \<open>Cc_Rule\<close> (stored rules, conditions,
    compilation and matching, model/anti_cc_rule.go, model/anti_cc_condition.go and package ccrule), \<open>Cc_Counter\<close> (the sharded request counter, package cccounter),
    \<open>Cc_Stats\<close> (the board of hits, package ccstats), \<open>Cc_Ban\<close> (bans in the cache), \<open>Cc_Captcha\<close> (marks and passes of the captcha gate) and
    \<open>Rate_Limiter\<close> (package webplugin). \<open>Cc_Rule_Service\<close> is the administration of the rules, waf_anticc_rule.go.
  \<^item> \<open>Match_Set\<close>, \<open>IP_Pattern\<close>, \<open>Range_Cidr\<close>, \<open>Cidr_Trie\<close>: package ipset, the one parser of IP expressions and the compiled sets behind
    all lists, with the copy-on-write snapshot of the IP groups. A compiled set answers as the patterns of its list do.
  \<^item> \<open>Load_Balance\<close>: the choice of the backend, package loadbalance, loadbalance.go and the health table of healthcheck.go.
  \<^item> \<open>Waf_Cache\<close> and \<open>Ip_Ban\<close>: the cache (package cache) and the failure counters kept in it (package wafipban).
  \<^item> \<open>Host_Guard\<close>, \<open>Host_Whitelist\<close>, \<open>Ban_Executor\<close>: package wafhostguard, from a failed login to a ban in the firewall, and the service
    that administrates it.
  \<^item> \<open>Waf_Prelude\<close>, \<open>Go_Net\<close>, \<open>Byte_Numbers\<close>, \<open>Http_Model\<close>: the collections of rewrite rules, the parts of the Go library that the sources
    call (strings, strconv, net, netip, bytes, the fields of a request) and byte sequences as numbers and as bits.

  \<^bold>\<open>Conventions.\<close> A struct is a record with the fields the modelled code reads or writes, a nil pointer is \<open>None\<close>, a Go string is a list of bytes
  (texts outside ASCII by their UTF-8 bytes, \<open>utf8_text\<close>), a Go map is a partial function or, where its size or its iteration matters, an
  association list with distinct keys. Go's \<open>int\<close> and times in nanoseconds are integers: no modelled value comes near the bounds of 64 bits.
  Counters of 32 bits and bytes of addresses are words. The clock, the configuration and libraries are arguments. An operation
  that the code runs under a lock is one step; sequences of steps are lists of operations.

  \<^bold>\<open>Interfaces.\<close> The locales are the contracts between components, each interpreted on the code's model: \<open>prefix_set\<close> (a set of networks, the prefix
  tree for both families), \<open>ip_matcher\<close> (a compiled list answers as its patterns, the IP sets), \<open>ttl_store\<close> (values that are visible until
  their time has come, the cache; the event logs of \<open>Ip_Ban\<close> rest on it), \<open>counter_store\<close> (bounds under every
  sequence of operations, the request counter), \<open>backend_picker\<close> and \<open>failover_picker\<close> (the two balancers), \<open>ban_set\<close> (the executor's mirror).

  \<^bold>\<open>Loops.\<close> No definition takes fuel: every loop of the modelled code ends. Loops over slices are structural recursions, the others have
  a measure (the interval decomposition by the distance to its end, the decimal conversion by its argument).

  \<^bold>\<open>Kinds of theorems.\<close> Refinement of a specification (compiled sets, the sliding-window limiter), exactness of operations (interval decomposition,
  prefix tree, counters, lists, bans), invariants under all operations (counter, cache, executor), safety (who may be refused,
  banned or let through, and by what), round trips (ban keys, saved conditions), equivalences (cached and direct matching, saved and effective
  actions), liveness (a healthy backend is found, a rebuild of the firewall is not starved, a challenge ends) and bounds. Where the code
  does not do what it means to, a theorem states what it does; the names of these are in the manifest's findings.

  \<^bold>\<open>Not modelled.\<close> The detectors of attacks in contents (libinjection, OWASP rules, sensitive words, the AI score, crawlers): they are calls of libraries and
  data files, and arguments of the guard chain here. The proxying of requests and responses, static files, the web cache, the captcha pages,
  certificates, tunnels, plugins, the firewall commands, the database with its migrations, queues, notifications, the administration
  pages and the start of the program are input and output around the modelled logic. Data races between operations that
  take no common lock are outside the model.
\<close>

end
